(* ===== verification/Prelude.thy ===== *)
theory Prelude
  imports Main "HOL-Library.Word"
begin

unbundle bit_operations_syntax

section \<open>Shared vocabulary of the development\<close>

text \<open>
  The machine types of the Symbian C++ sources (\<open>TUint\<close>, \<open>TUint8\<close> and the double word
  used by the big integer code), the result type of leaving functions, the value of a
  little endian word array, and the generic facts on lists and words that the component
  theories share.  The collection \<open>word_int\<close> holds the rules that turn statements on
  fixed width words into statements on integers; \<open>array_simps\<close> the rules on word
  arrays.
\<close>

named_theorems word_int
named_theorems array_simps

subsection \<open>Machine types\<close>

text \<open>\<open>TUint\<close>/\<open>TUint32\<close> and \<open>word\<close> of \<open>source/common/inlines.h\<close>, \<open>TUint8\<close>, \<open>dword\<close>.\<close>

type_synonym tuint = "32 word"
type_synonym byte = "8 word"
type_synonym dword = "64 word"

definition WORD_SIZE :: nat where "WORD_SIZE = 4"
definition WORD_BITS :: nat where "WORD_BITS = 32"
definition BYTE_BITS :: nat where "BYTE_BITS = 8"

definition LOW_WORD :: "dword \<Rightarrow> tuint" where "LOW_WORD x = ucast x"
definition HIGH_WORD :: "dword \<Rightarrow> tuint" where "HIGH_WORD x = ucast (drop_bit 32 x)"
definition MAKE_DWORD :: "tuint \<Rightarrow> tuint \<Rightarrow> dword" where
  "MAKE_DWORD lowWord highWord = (push_bit 32 (ucast highWord)) OR ucast lowWord"

subsection \<open>Leaving functions\<close>

text \<open>
  A Symbian function whose name ends in \<open>L\<close> may leave with an error code; a debug
  assertion or an out of bounds access panics.  Both are values of the sum type
  \<open>leave + 'a\<close>; \<open>MemoryOverrun\<close> stands for a write behind the end of a heap cell,
  which C++ leaves undefined.
\<close>

datatype leave =
    KErrNotFound | KErrGeneral | KErrNotSupported | KErrArgument | KErrTotalLossOfPrecision
  | KErrOverflow | KErrCorrupt | KErrDivideByZero | KErrNegativeExportNotSupported
  | KErrNotEnoughEntropy | KErrInvalidPadding | KErrBadLength | KErrAccessDenied | KErrAlreadyExists
  | KErrNoMemory | KErrEof | KErrCancel | KErrCompletion
  | KErrWeakKey | KErrKeyNotWeakEnough | KErrKeySize | KErrInUse | KErrNotReady | KErrUnderflow
  | KErrPermissionDenied | KErrServerTerminated | KErrServerBusy | KErrAbort | KErrBadName | KErrBadDescriptor
  | KErrPathNotFound | KErrDiskFull | KErrBadHandle | KErrScsAsyncAlreadyQueued | KErrCode int
  | KErrUpsBadFingerprintLength | KErrUpsMissingPolicyEvaluator | KErrUpsMissingDialogCreator
  | KErrUpsBadPolicyFile | KErrUpsMissingPolicyFile | KErrUpsInvalidPolicyFileName | KErrUpsMissingArgument
  | KErrUpsBadClientEntityLength | KErrUpsBadClientThreadId | KErrUpsBadClientProcessId
  | MemoryOverrun
  | Panic nat

type_synonym 'a result = "leave + 'a"

abbreviation Ok :: "'a \<Rightarrow> 'a result" where "Ok \<equiv> Inr"
abbreviation Leave :: "leave \<Rightarrow> 'a result" where "Leave \<equiv> Inl"

definition bindL :: "'a result \<Rightarrow> ('a \<Rightarrow> 'b result) \<Rightarrow> 'b result" where
  "bindL m f = (case m of Inl e \<Rightarrow> Inl e | Inr a \<Rightarrow> f a)"

lemma bindL_Inl [simp]: "bindL (Inl e) f = Inl e"
  by (simp add: bindL_def)

lemma bindL_Inr [simp]: "bindL (Inr a) f = f a"
  by (simp add: bindL_def)

lemma bindL_eq_Inr: "bindL m f = Inr b \<longleftrightarrow> (\<exists>a. m = Inr a \<and> f a = Inr b)"
  by (cases m) simp_all

lemma bindL_assoc: "bindL (bindL m f) g = bindL m (\<lambda>x. bindL (f x) g)"
  by (cases m) simp_all

definition guardL :: "bool \<Rightarrow> leave \<Rightarrow> unit result" where
  "guardL c e = (if c then Inr () else Inl e)"

lemma guardL_eq_Inr [simp]: "guardL c e = Inr u \<longleftrightarrow> c"
  by (simp add: guardL_def)

subsection \<open>Words as numbers\<close>

lemma mod_wrap_high: "m \<le> x \<Longrightarrow> x < 2 * m \<Longrightarrow> x mod m = x - (m :: int)"
  by (metis mod_add_self2 diff_add_cancel diff_ge_0_iff_ge diff_less_eq mod_pos_pos_trivial mult_2)

lemma mod_wrap_low: "- m \<le> x \<Longrightarrow> x < 0 \<Longrightarrow> x mod m = x + (m :: int)"
  by (metis mod_add_self2 add.commute add_0 add_less_cancel_right mod_pos_pos_trivial
      neg_le_iff_le minus_le_iff le_add_same_cancel1 add.right_neutral diff_ge_0_iff_ge
      diff_minus_eq_add)

lemma int_div_less:
  assumes "0 < c" and "a < b * (c :: int)"
  shows "a div c < b"
proof (rule ccontr)
  assume "\<not> a div c < b"
  then have "b * c \<le> a div c * c"
    using assms(1) by (intro mult_right_mono) auto
  moreover have "a div c * c \<le> a"
    using pos_mod_sign [OF assms(1), of a] div_mult_mod_eq [of a c] by linarith
  ultimately show False using assms(2) by linarith
qed

lemma uint_tuint_bounds: "uint (x :: tuint) < 4294967296"
  by (rule order_less_le_trans [OF uint_lt2p]) simp

lemma uint_dword_bounds: "uint (x :: dword) < 18446744073709551616"
  by (rule order_less_le_trans [OF uint_lt2p]) simp

lemma uint_ge_1: "a \<noteq> 0 \<Longrightarrow> 1 \<le> uint (a :: 'a :: len word)"
  by (metis int_one_le_iff_zero_less order_le_less uint_0_iff uint_ge_0)

lemma uint_byte_bounds: "uint (x :: byte) < 256"
  by (rule order_less_le_trans [OF uint_lt2p]) simp

lemma uint_dword_of_tuint [simp, word_int]: "uint (ucast (x :: tuint) :: dword) = uint x"
  using uint_tuint_bounds [of x] by (simp add: unsigned_ucast_eq take_bit_int_eq_self_iff)

lemma uint_LOW_WORD [word_int]: "uint (LOW_WORD x) = uint x mod 4294967296"
  by (simp add: LOW_WORD_def unsigned_ucast_eq take_bit_eq_mod)

lemma uint_drop_bit_eq_dword: "uint (drop_bit n x) = drop_bit n (uint (x :: dword))"
proof -
  have "take_bit 64 (uint x) = uint x"
    using uint_dword_bounds [of x] by (simp add: take_bit_int_eq_self_iff)
  then show ?thesis
    by (simp only: unsigned_drop_bit_eq) simp
qed

lemma uint_HIGH_WORD [word_int]: "uint (HIGH_WORD x) = uint x div 4294967296"
proof -
  have "uint x div 4294967296 < 4294967296"
    using uint_dword_bounds [of x] by linarith
  then have "take_bit 32 (uint x div 4294967296) = uint x div 4294967296"
    by (simp add: take_bit_int_eq_self_iff pos_imp_zdiv_nonneg_iff)
  moreover have "uint (HIGH_WORD x) = take_bit 32 (uint (drop_bit 32 x))"
    by (simp add: HIGH_WORD_def unsigned_ucast_eq)
  moreover have "uint (drop_bit 32 x) = uint x div 4294967296"
    by (simp add: drop_bit_eq_div [of 32 "uint x"] uint_drop_bit_eq_dword)
  ultimately show ?thesis by simp
qed

lemma dword_split: "uint x = uint (LOW_WORD x) + 4294967296 * uint (HIGH_WORD x)"
  by (simp add: uint_LOW_WORD uint_HIGH_WORD)

lemma uint_dword_arith [word_int]:
  "uint (x + y :: dword) = (uint x + uint y) mod 18446744073709551616"
  "uint (x - y :: dword) = (uint x - uint y) mod 18446744073709551616"
  "uint (x * y :: dword) = (uint x * uint y) mod 18446744073709551616"
  by (simp_all add: uint_word_ariths)

lemma uint_tuint_arith [word_int]:
  "uint (x + y :: tuint) = (uint x + uint y) mod 4294967296"
  "uint (x - y :: tuint) = (uint x - uint y) mod 4294967296"
  "uint (x * y :: tuint) = (uint x * uint y) mod 4294967296"
  "uint (- x :: tuint) = (- uint x) mod 4294967296"
  by (simp_all add: uint_word_ariths)

lemma uint_MAKE_DWORD [word_int]:
  "uint (MAKE_DWORD l h) = uint l + 4294967296 * uint h"
proof -
  have "push_bit 32 (ucast h :: dword) + ucast l = push_bit 32 (ucast h) OR ucast l"
    by (rule disjunctive_add) (auto simp: bit_simps dest: bit_imp_le_length)
  then have "MAKE_DWORD l h = ucast h * 4294967296 + ucast l"
    by (simp add: MAKE_DWORD_def push_bit_eq_mult)
  moreover have "uint (4294967296 :: dword) = 4294967296"
    by simp
  moreover have "uint h * 4294967296 + uint l < 18446744073709551616"
    using uint_tuint_bounds [of l] uint_tuint_bounds [of h] by linarith
  ultimately show ?thesis
    by (simp only: uint_dword_arith mod_add_left_eq uint_dword_of_tuint)
      (simp add: mod_pos_pos_trivial)
qed

subsection \<open>Word arrays as numbers\<close>

text \<open>
  A \<open>TInteger\<close> stores its magnitude as an array of words, least significant first;
  \<open>val\<close> is the number such an array stands for.
\<close>

fun val :: "tuint list \<Rightarrow> int" where
  "val [] = 0"
| "val (w # ws) = uint w + 4294967296 * val ws"

definition base :: "nat \<Rightarrow> int" where
  "base n = 4294967296 ^ n"

lemma base_simps [simp]: "base 0 = 1" "base (Suc n) = 4294967296 * base n"
  by (simp_all add: base_def)

lemma base_add: "base (m + n) = base m * base n"
  by (simp add: base_def power_add)

lemma base_pos [simp]: "0 < base n" "0 \<le> base n" "base n \<noteq> 0"
  by (simp_all add: base_def)

lemma base_not_le_0 [simp]: "\<not> base n \<le> 0"
  using base_pos(1) [of n] by linarith

lemma base_ge_1: "1 \<le> base n"
  using base_pos(1) [of n] by linarith

lemma val_append [array_simps]: "val (xs @ ys) = val xs + base (length xs) * val ys"
  by (induction xs) (simp_all add: algebra_simps)

lemma val_nonneg [simp]: "0 \<le> val xs"
  by (induction xs) simp_all

lemma val_bound [simp]: "val xs < base (length xs)"
proof (induction xs)
  case (Cons x xs)
  then have "val xs + 1 \<le> base (length xs)" by simp
  then show ?case
    using uint_tuint_bounds [of x] unfolding val.simps length_Cons base_simps by linarith
qed simp

lemma val_bound_eq: "length xs = n \<Longrightarrow> val xs < base n"
  using val_bound [of xs] by simp

lemma val_replicate_0 [simp]: "val (replicate n 0) = 0"
  by (induction n) simp_all

lemma val_take_drop: "val xs = val (take n xs) + base (min n (length xs)) * val (drop n xs)"
  using val_append [of "take n xs" "drop n xs"] by (simp add: min.commute)

lemma val_inject:
  assumes "length xs = length ys" and "val xs = val ys"
  shows "xs = ys"
  using assms
proof (induction xs ys rule: list_induct2)
  case (Cons x xs y ys)
  have "\<And>w ws. uint w = val (w # ws) mod 4294967296"
    by (simp add: mod_pos_pos_trivial uint_tuint_bounds)
  then have "uint x = uint y"
    using Cons.prems by metis
  moreover from this Cons.prems have "val xs = val ys" by simp
  ultimately show ?case
    using Cons.IH by (simp add: word_uint_eq_iff)
qed simp

end
