(* ===== verification/WordArith.thy ===== *)
theory WordArith
  imports Prelude
begin

section \<open>Word array arithmetic\<close>

text \<open>
  The elementary routines of \<open>bigint/algorithms.cpp\<close> and \<open>bigint/words.h\<close> on arrays of
  32 bit words, least significant word first.  An array argument \<open>A\<close> is the memory the
  pointer \<open>A\<close> addresses; a routine reads its first \<open>N\<close> words and returns the \<open>N\<close> words it
  writes, with the carry or borrow it returns.  The lemmas give each routine its meaning
  on \<open>val\<close>.
\<close>

subsection \<open>Addition, subtraction, comparison\<close>

text \<open>\<open>Add\<close>: the loop handles two words per turn, \<open>carry\<close> in a double word.\<close>

fun Add_loop :: "tuint \<Rightarrow> tuint list \<Rightarrow> tuint list \<Rightarrow> tuint list \<times> tuint" where
  "Add_loop carry (a0 # a1 # A) (b0 # b1 # B) =
     (let u0 = ucast carry + ucast a0 + ucast b0;
          u1 = ucast (HIGH_WORD u0) + ucast a1 + ucast b1;
          (C, carry') = Add_loop (HIGH_WORD u1) A B
      in (LOW_WORD u0 # LOW_WORD u1 # C, carry'))"
| "Add_loop carry A B = ([], carry)"

definition Add :: "tuint list \<Rightarrow> tuint list \<Rightarrow> nat \<Rightarrow> tuint list \<times> tuint" where
  "Add A B N = Add_loop 0 (take N A) (take N B)"

fun Subtract_loop :: "tuint \<Rightarrow> tuint list \<Rightarrow> tuint list \<Rightarrow> tuint list \<times> tuint" where
  "Subtract_loop borrow (a0 # a1 # A) (b0 # b1 # B) =
     (let u0 = ucast a0 - ucast b0 - ucast borrow;
          u1 = ucast a1 - ucast b1 - ucast (0 - HIGH_WORD u0);
          (C, borrow') = Subtract_loop (0 - HIGH_WORD u1) A B
      in (LOW_WORD u0 # LOW_WORD u1 # C, borrow'))"
| "Subtract_loop borrow A B = ([], borrow)"

definition Subtract :: "tuint list \<Rightarrow> tuint list \<Rightarrow> nat \<Rightarrow> tuint list \<times> tuint" where
  "Subtract A B N = Subtract_loop 0 (take N A) (take N B)"

text \<open>\<open>Compare\<close> walks down from the most significant word.\<close>

fun Compare_down :: "tuint list \<Rightarrow> tuint list \<Rightarrow> int" where
  "Compare_down (a # A) (b # B) =
     (if a > b then 1 else if a < b then -1 else Compare_down A B)"
| "Compare_down A B = 0"

definition Compare :: "tuint list \<Rightarrow> tuint list \<Rightarrow> nat \<Rightarrow> int" where
  "Compare A B N = Compare_down (rev (take N A)) (rev (take N B))"

subsection \<open>Increment and decrement\<close>

fun Increment_tail :: "tuint list \<Rightarrow> tuint list \<times> tuint" where
  "Increment_tail [] = ([], 1)"
| "Increment_tail (a # A) =
     (if a + 1 \<noteq> 0 then ((a + 1) # A, 0)
      else (let (A', c) = Increment_tail A in ((a + 1) # A', c)))"

text \<open>\<open>assert(N)\<close>: the array is not empty; on an empty one the model writes nothing.\<close>

fun Increment_words :: "tuint list \<Rightarrow> tuint \<Rightarrow> tuint list \<times> tuint" where
  "Increment_words [] B = ([], 0)"
| "Increment_words (t # A) B =
     (if t + B \<ge> t then ((t + B) # A, 0)
      else (let (A', c) = Increment_tail A in ((t + B) # A', c)))"

definition Increment :: "tuint list \<Rightarrow> nat \<Rightarrow> tuint \<Rightarrow> tuint list \<times> tuint" where
  "Increment A N B = Increment_words (take N A) B"

fun Decrement_tail :: "tuint list \<Rightarrow> tuint list \<times> tuint" where
  "Decrement_tail [] = ([], 1)"
| "Decrement_tail (a # A) =
     (if a \<noteq> 0 then ((a - 1) # A, 0)
      else (let (A', c) = Decrement_tail A in ((a - 1) # A', c)))"

fun Decrement_words :: "tuint list \<Rightarrow> tuint \<Rightarrow> tuint list \<times> tuint" where
  "Decrement_words [] B = ([], 0)"
| "Decrement_words (t # A) B =
     (if t - B \<le> t then ((t - B) # A, 0)
      else (let (A', c) = Decrement_tail A in ((t - B) # A', c)))"

definition Decrement :: "tuint list \<Rightarrow> nat \<Rightarrow> tuint \<Rightarrow> tuint list \<times> tuint" where
  "Decrement A N B = Decrement_words (take N A) B"

text \<open>The two variants whose final \<open>assert(0)\<close> says that the carry cannot leave the array.\<close>

definition IncrementNoCarry :: "tuint list \<Rightarrow> nat \<Rightarrow> tuint \<Rightarrow> tuint list result" where
  "IncrementNoCarry A N B =
     (case Increment A N B of (A', c) \<Rightarrow> if c = 0 then Ok A' else Leave (Panic 1))"

definition DecrementNoCarry :: "tuint list \<Rightarrow> nat \<Rightarrow> tuint \<Rightarrow> tuint list result" where
  "DecrementNoCarry A N B =
     (case Decrement A N B of (A', c) \<Rightarrow> if c = 0 then Ok A' else Leave (Panic 1))"

definition TwosComplement :: "tuint list \<Rightarrow> nat \<Rightarrow> tuint list" where
  "TwosComplement A N = map (\<lambda>a. NOT a) (fst (Decrement A N 1))"

subsection \<open>Multiplication by one word\<close>

fun LinearMultiply_loop :: "tuint \<Rightarrow> tuint list \<Rightarrow> tuint \<Rightarrow> tuint list \<times> tuint" where
  "LinearMultiply_loop carry [] B = ([], carry)"
| "LinearMultiply_loop carry (a # A) B =
     (let p = ucast a * ucast B + ucast carry;
          (C, carry') = LinearMultiply_loop (HIGH_WORD p) A B
      in (LOW_WORD p # C, carry'))"

definition LinearMultiply :: "tuint list \<Rightarrow> tuint \<Rightarrow> nat \<Rightarrow> tuint list \<times> tuint" where
  "LinearMultiply A B N = LinearMultiply_loop 0 (take N A) B"

subsection \<open>Shifts and word counts (\<open>bigint/words.h\<close>)\<close>

fun ShiftLeft_loop :: "nat \<Rightarrow> tuint \<Rightarrow> tuint list \<Rightarrow> tuint list \<times> tuint" where
  "ShiftLeft_loop s carry [] = ([], carry)"
| "ShiftLeft_loop s carry (u # r) =
     (let (r', carry') = ShiftLeft_loop s (drop_bit (WORD_BITS - s) u) r
      in ((push_bit s u OR carry) # r', carry'))"

definition ShiftWordsLeftByBits :: "tuint list \<Rightarrow> nat \<Rightarrow> nat \<Rightarrow> tuint list \<times> tuint" where
  "ShiftWordsLeftByBits r n shiftBits =
     (if shiftBits \<noteq> 0 then ShiftLeft_loop shiftBits 0 (take n r) else (take n r, 0))"

text \<open>The right shift runs from the top word down.\<close>

fun ShiftRight_loop :: "nat \<Rightarrow> tuint \<Rightarrow> tuint list \<Rightarrow> tuint list \<times> tuint" where
  "ShiftRight_loop s carry [] = ([], carry)"
| "ShiftRight_loop s carry (u # r) =
     (let (r', carry') = ShiftRight_loop s (push_bit (WORD_BITS - s) u) r
      in ((drop_bit s u OR carry) # r', carry'))"

definition ShiftWordsRightByBits :: "tuint list \<Rightarrow> nat \<Rightarrow> nat \<Rightarrow> tuint list \<times> tuint" where
  "ShiftWordsRightByBits r n shiftBits =
     (if shiftBits \<noteq> 0
      then (let (r', carry) = ShiftRight_loop shiftBits 0 (rev (take n r)) in (rev r', carry))
      else (take n r, 0))"

definition ShiftWordsLeftByWords :: "tuint list \<Rightarrow> nat \<Rightarrow> nat \<Rightarrow> tuint list" where
  "ShiftWordsLeftByWords r n shiftWords =
     (let s = min shiftWords n
      in if s \<noteq> 0 then replicate s 0 @ take (n - s) r else take n r)"

definition ShiftWordsRightByWords :: "tuint list \<Rightarrow> nat \<Rightarrow> nat \<Rightarrow> tuint list" where
  "ShiftWordsRightByWords r n shiftWords =
     (let s = min shiftWords n
      in if s \<noteq> 0 then drop s (take n r) @ replicate s 0 else take n r)"

fun CountWords :: "tuint list \<Rightarrow> nat \<Rightarrow> nat" where
  "CountWords X 0 = 0"
| "CountWords X (Suc N) = (if X ! N = 0 then CountWords X N else Suc N)"

definition BytePrecision :: "tuint \<Rightarrow> nat" where
  "BytePrecision aValue =
     (let (v, x) = (if aValue < 0x10000 then (push_bit 16 aValue, 4 - 2) else (aValue, 4 :: nat));
          x = (if v < 0x1000000 then x - 1 else x)
      in if v = 0 then 0 else x)"

text \<open>One line \<open>if(aValue < t) aValue<<=s, x-=s;\<close> of \<open>BitPrecision\<close>.\<close>

definition BitPrecision_step :: "tuint \<Rightarrow> nat \<Rightarrow> tuint \<times> nat \<Rightarrow> tuint \<times> nat" where
  "BitPrecision_step t s = (\<lambda>(v, x). if v < t then (push_bit s v, x - s) else (v, x))"

definition BitPrecision :: "tuint \<Rightarrow> nat" where
  "BitPrecision aValue =
     (if aValue = 0 then 0
      else
       (let (v, x) = BitPrecision_step 0x40000000 2 (BitPrecision_step 0x10000000 4
            (BitPrecision_step 0x1000000 8 (BitPrecision_step 0x10000 16 (aValue, 32))))
        in if v < 0x80000000 then x - 1 else x))"

definition RoundupSizeTable :: "nat list" where
  "RoundupSizeTable = [2, 2, 2, 4, 4, 8, 8, 8, 8]"

text \<open>\<open>n\<close> is a word count, far below \<open>2 ^ 31\<close>, so \<open>1U << BitPrecision(n-1)\<close> does not wrap.\<close>

definition RoundupSize :: "nat \<Rightarrow> nat" where
  "RoundupSize n =
     (if n \<le> 8 then RoundupSizeTable ! n
      else if n \<le> 16 then 16
      else if n \<le> 32 then 32
      else if n \<le> 64 then 64
      else 2 ^ BitPrecision (word_of_nat (n - 1)))"

definition BitsToBytes :: "nat \<Rightarrow> nat" where "BitsToBytes n = (n + 7) div BYTE_BITS"
definition BytesToWords :: "nat \<Rightarrow> nat" where "BytesToWords n = (n + WORD_SIZE - 1) div WORD_SIZE"
definition BitsToWords :: "nat \<Rightarrow> nat" where "BitsToWords n = (n + WORD_BITS - 1) div WORD_BITS"
definition WordsToBits :: "nat \<Rightarrow> nat" where "WordsToBits n = n * WORD_BITS"


subsection \<open>What the routines compute\<close>

lemma uint_dword_add3 [word_int]:
  "uint (ucast (c :: tuint) + ucast (a :: tuint) + ucast (b :: tuint) :: dword)
   = uint c + uint a + uint b"
  using uint_tuint_bounds [of a] uint_tuint_bounds [of b] uint_tuint_bounds [of c]
  by (simp only: uint_dword_arith uint_dword_of_tuint mod_add_left_eq)
    (simp add: mod_pos_pos_trivial)

lemma uint_dword_mult_add [word_int]:
  "uint (ucast (a :: tuint) * ucast (b :: tuint) + ucast (c :: tuint) :: dword)
   = uint a * uint b + uint c"
proof -
  have "uint a * uint b \<le> 4294967295 * 4294967295"
    by (rule mult_mono) (use uint_tuint_bounds [of a] uint_tuint_bounds [of b] in auto)
  then show ?thesis
    using uint_tuint_bounds [of c]
    by (simp only: uint_dword_arith uint_dword_of_tuint mod_add_left_eq)
      (simp add: mod_pos_pos_trivial)
qed

lemma uint_dword_mult [word_int]:
  "uint (ucast (a :: tuint) * ucast (b :: tuint) :: dword) = uint a * uint b"
  using uint_dword_mult_add [of a b 0] by simp

lemma Add_loop_val:
  assumes "length A = length B" and "even (length A)" and "uint carry \<le> 1"
    and "Add_loop carry A B = (C, c)"
  shows "length C = length A \<and> uint c \<le> 1 \<and>
         val C + base (length A) * uint c = val A + val B + uint carry"
  using assms
proof (induction carry A B arbitrary: C c rule: Add_loop.induct)
  case (1 carry a0 a1 A b0 b1 B)
  define u0 :: dword where "u0 = ucast carry + ucast a0 + ucast b0"
  define u1 :: dword where "u1 = ucast (HIGH_WORD u0) + ucast a1 + ucast b1"
  have u0: "uint u0 = uint carry + uint a0 + uint b0"
    by (simp add: u0_def uint_dword_add3)
  have u1: "uint u1 = uint (HIGH_WORD u0) + uint a1 + uint b1"
    by (simp add: u1_def uint_dword_add3)
  note bnds = uint_tuint_bounds [of a0] uint_tuint_bounds [of b0]
    uint_tuint_bounds [of a1] uint_tuint_bounds [of b1]
  have h0: "uint (HIGH_WORD u0) \<le> 1"
    using u0 bnds "1.prems"(3) by (simp add: uint_HIGH_WORD)
  have h1: "uint (HIGH_WORD u1) \<le> 1"
    using u1 h0 bnds by (simp add: uint_HIGH_WORD)
  obtain C' where C': "Add_loop (HIGH_WORD u1) A B = (C', c)" "C = LOW_WORD u0 # LOW_WORD u1 # C'"
    using "1.prems"(4) by (auto simp: u0_def u1_def Let_def split: prod.splits)
  have IH: "length C' = length A \<and> uint c \<le> 1 \<and>
      val C' + base (length A) * uint c = val A + val B + uint (HIGH_WORD u1)"
    using "1.IH" [OF u0_def u1_def _ _ h1 C'(1)] "1.prems"(1,2) by simp
  have "val C + base (length (a0 # a1 # A)) * uint c
      = uint (LOW_WORD u0) + 4294967296 * (uint (LOW_WORD u1)
          + 4294967296 * (val C' + base (length A) * uint c))"
    by (simp add: C'(2) algebra_simps)
  also have "\<dots> = uint (LOW_WORD u0) + 4294967296 * (uint u1 + 4294967296 * (val A + val B))"
    using IH dword_split [of u1] by (simp add: algebra_simps)
  also have "\<dots> = val (a0 # a1 # A) + val (b0 # b1 # B) + uint carry"
    using u0 u1 dword_split [of u0] by (simp add: algebra_simps)
  finally show ?case
    using IH C'(2) by simp
qed auto

lemma Add_val:
  assumes "N \<le> length A" and "N \<le> length B" and "even N" and "Add A B N = (C, c)"
  shows "length C = N" and "uint c \<le> 1"
    and "val C + base N * uint c = val (take N A) + val (take N B)"
  using Add_loop_val [of "take N A" "take N B" 0 C c] assms
  by (simp_all add: Add_def min.absorb2)

lemma uint_neg_HIGH_WORD:
  assumes "uint (u :: dword) = d mod 18446744073709551616"
    and "-4294967296 \<le> d" and "d < 4294967296"
  shows "uint (0 - HIGH_WORD u) = (if d < 0 then 1 else 0)"
    and "uint (LOW_WORD u) = d + 4294967296 * uint (0 - HIGH_WORD u)"
proof -
  have "uint (0 - HIGH_WORD u) = (if d < 0 then 1 else 0) \<and>
        uint (LOW_WORD u) = d + 4294967296 * uint (0 - HIGH_WORD u)"
  proof (cases "d < 0")
    case True
    then have "(d + 18446744073709551616) mod 18446744073709551616 = d + 18446744073709551616"
      using assms(2) by (intro mod_pos_pos_trivial) auto
    then have u: "uint u = d + 18446744073709551616"
      using assms(1) by simp
    have "uint u div 4294967296 = 4294967295"
      using u True assms(2) by linarith
    moreover have "uint u mod 4294967296 = d + 4294967296"
      using u True assms(2) minus_div_mult_eq_mod [of "uint u" 4294967296] calculation by linarith
    ultimately have "uint (HIGH_WORD u) = 4294967295" "uint (LOW_WORD u) = d + 4294967296"
      by (simp_all add: uint_HIGH_WORD uint_LOW_WORD)
    then show ?thesis
      using True by (simp add: uint_tuint_arith)
  next
    case False
    then have "uint u = d"
      using assms by (simp add: mod_pos_pos_trivial)
    then show ?thesis
      using assms False by (simp add: uint_HIGH_WORD uint_LOW_WORD uint_tuint_arith
          div_pos_pos_trivial mod_pos_pos_trivial)
  qed
  then show "uint (0 - HIGH_WORD u) = (if d < 0 then 1 else 0)"
    and "uint (LOW_WORD u) = d + 4294967296 * uint (0 - HIGH_WORD u)" by simp_all
qed

lemma uint_dword_sub3:
  "uint (ucast (a :: tuint) - ucast (b :: tuint) - ucast (c :: tuint) :: dword)
   = (uint a - uint b - uint c) mod 18446744073709551616"
  by (simp add: uint_dword_arith mod_diff_left_eq)

lemma Subtract_step:
  assumes "u = (ucast (a :: tuint) - ucast (b :: tuint) - ucast (borrow :: tuint) :: dword)"
    and "uint borrow \<le> 1"
  shows "uint (0 - HIGH_WORD u) \<le> 1"
    and "uint (LOW_WORD u) = uint a - uint b - uint borrow + 4294967296 * uint (0 - HIGH_WORD u)"
proof -
  let ?d = "uint a - uint b - uint borrow"
  have "uint u = ?d mod 18446744073709551616"
    by (simp only: assms(1) uint_dword_sub3)
  moreover have "-4294967296 \<le> ?d" and "?d < 4294967296"
    using uint_tuint_bounds [of a] uint_tuint_bounds [of b] uint_ge_0 [of a] uint_ge_0 [of b]
      uint_ge_0 [of borrow] assms(2) by linarith+
  ultimately show "uint (0 - HIGH_WORD u) \<le> 1"
    and "uint (LOW_WORD u) = ?d + 4294967296 * uint (0 - HIGH_WORD u)"
    by (simp_all only: uint_neg_HIGH_WORD split: if_split) simp
qed

lemma Subtract_loop_val:
  assumes "length A = length B" and "even (length A)" and "uint borrow \<le> 1"
    and "Subtract_loop borrow A B = (C, c)"
  shows "length C = length A \<and> uint c \<le> 1 \<and>
         val C = val A - val B - uint borrow + base (length A) * uint c"
  using assms
proof (induction borrow A B arbitrary: C c rule: Subtract_loop.induct)
  case (1 borrow a0 a1 A b0 b1 B)
  define u0 :: dword where "u0 = ucast a0 - ucast b0 - ucast borrow"
  define u1 :: dword where "u1 = ucast a1 - ucast b1 - ucast (0 - HIGH_WORD u0)"
  note s0 = Subtract_step [OF u0_def "1.prems"(3)]
  note s1 = Subtract_step [OF u1_def s0(1)]
  obtain C' where C': "Subtract_loop (0 - HIGH_WORD u1) A B = (C', c)"
      "C = LOW_WORD u0 # LOW_WORD u1 # C'"
    using "1.prems"(4) by (auto simp: u0_def u1_def Let_def split: prod.splits)
  have IH: "length C' = length A \<and> uint c \<le> 1 \<and>
      val C' = val A - val B - uint (0 - HIGH_WORD u1) + base (length A) * uint c"
    using "1.IH" [OF u0_def u1_def _ _ s1(1) C'(1)] "1.prems"(1,2) by simp
  then show ?case
    by (simp add: C'(2) s0(2) s1(2) algebra_simps)
qed auto

lemma Subtract_val:
  assumes "N \<le> length A" and "N \<le> length B" and "even N" and "Subtract A B N = (C, c)"
  shows "length C = N" and "uint c \<le> 1"
    and "val C = val (take N A) - val (take N B) + base N * uint c"
  using Subtract_loop_val [of "take N A" "take N B" 0 C c] assms
  by (simp_all add: Subtract_def min.absorb2)

lemma Subtract_borrow_iff:
  assumes "N \<le> length A" and "N \<le> length B" and "even N" and "Subtract A B N = (C, c)"
  shows "uint c = (if val (take N A) < val (take N B) then 1 else 0)"
proof -
  note S = Subtract_val [OF assms]
  have "val C < base N" "0 \<le> val C"
    using val_bound [of C] S(1) by simp_all
  moreover have "val (take N A) < base N" "val (take N B) < base N"
    using assms by (auto intro!: val_bound_eq simp: min_def)
  moreover have "uint c = 0 \<or> uint c = 1"
    using S(2) uint_ge_0 [of c] by linarith
  ultimately show ?thesis
    using S(3) by (auto split: if_splits)
qed

lemma Compare_down_val:
  "length A = length B \<Longrightarrow> Compare_down A B = sgn (val (rev A) - val (rev B))"
proof (induction A B rule: Compare_down.induct)
  case (1 a A b B)
  let ?P = "base (length A)"
  have len: "length A = length B" using "1.prems" by simp
  have bA: "val (rev A) < ?P" and bB: "val (rev B) < ?P"
    using val_bound [of "rev A"] val_bound [of "rev B"] len by simp_all
  have v: "val (rev (a # A)) - val (rev (b # B))
      = val (rev A) - val (rev B) + ?P * (uint a - uint b)"
    using len by (simp add: array_simps algebra_simps)
  consider "uint a > uint b" | "uint a < uint b" | "a = b"
    by (metis linorder_neqE_linordered_idom word_uint_eq_iff)
  then show ?case
  proof cases
    assume gt: "uint a > uint b"
    then have "?P * 1 \<le> ?P * (uint a - uint b)"
      by (intro mult_left_mono) auto
    then have "0 < val (rev (a # A)) - val (rev (b # B))"
      unfolding v using bB val_nonneg [of "rev A"] by linarith
    then show ?thesis using gt by (simp add: word_less_def)
  next
    assume lt: "uint a < uint b"
    then have "?P * (uint a - uint b) \<le> ?P * (- 1)"
      by (intro mult_left_mono) auto
    then have "val (rev (a # A)) - val (rev (b # B)) < 0"
      unfolding v using bA val_nonneg [of "rev B"] by linarith
    then show ?thesis using lt by (simp add: word_less_def)
  next
    assume "a = b"
    then show ?thesis using "1.IH" len v by simp
  qed
qed auto

lemma Compare_val:
  assumes "N \<le> length A" and "N \<le> length B"
  shows "Compare A B N = sgn (val (take N A) - val (take N B))"
  using assms Compare_down_val [of "rev (take N A)" "rev (take N B)"]
  by (simp add: Compare_def min_def)


subsubsection \<open>Increment and decrement\<close>

lemma word_succ_eq_0_iff: "(a :: tuint) + 1 = 0 \<longleftrightarrow> uint a = 4294967295"
proof -
  have "a + 1 = 0 \<longleftrightarrow> a = -1"
    by (simp add: eq_neg_iff_add_eq_0)
  also have "\<dots> \<longleftrightarrow> uint a = 4294967295"
    by (simp add: word_uint_eq_iff uint_tuint_arith)
  finally show ?thesis .
qed

lemma uint_succ: "(a :: tuint) + 1 \<noteq> 0 \<Longrightarrow> uint (a + 1) = uint a + 1"
  using uint_tuint_bounds [of a]
  by (simp add: word_succ_eq_0_iff uint_tuint_arith mod_pos_pos_trivial)

lemma Increment_tail_val:
  "Increment_tail A = (A', c) \<Longrightarrow>
   length A' = length A \<and> uint c \<le> 1 \<and> val A' + base (length A) * uint c = val A + 1"
proof (induction A arbitrary: A' c)
  case (Cons a A)
  show ?case
  proof (cases "a + 1 = 0")
    case True
    obtain A'' where A'': "Increment_tail A = (A'', c)" "A' = (a + 1) # A''"
      using Cons.prems True by (auto split: prod.splits)
    then show ?thesis
      using Cons.IH [OF A''(1)] iffD1 [OF word_succ_eq_0_iff True] True
      by (simp add: distrib_left)
  next
    case False
    then show ?thesis
      using Cons.prems uint_succ [OF False] by auto
  qed
qed auto

lemma word_add_ge_iff: "(t :: tuint) \<le> t + b \<longleftrightarrow> uint t + uint b < 4294967296"
proof -
  have "(uint t + uint b) mod 4294967296 =
      (if uint t + uint b < 4294967296 then uint t + uint b else uint t + uint b - 4294967296)"
    using uint_tuint_bounds [of t] uint_tuint_bounds [of b] uint_ge_0 [of t] uint_ge_0 [of b]
    by (auto intro: mod_pos_pos_trivial mod_wrap_high)
  then show ?thesis
    using uint_tuint_bounds [of b] by (simp add: word_le_def uint_tuint_arith)
qed

lemma uint_add_wrap:
  "uint ((t :: tuint) + b) = uint t + uint b - (if t \<le> t + b then 0 else 4294967296)"
proof (cases "t \<le> t + b")
  case True
  then show ?thesis
    by (simp add: word_add_ge_iff uint_tuint_arith mod_pos_pos_trivial)
next
  case False
  then show ?thesis
    using uint_tuint_bounds [of t] uint_tuint_bounds [of b]
    by (simp add: word_add_ge_iff uint_tuint_arith mod_wrap_high)
qed

lemma Increment_val:
  assumes "0 < N" and "N \<le> length A" and "Increment A N B = (A', c)"
  shows "length A' = N" and "uint c \<le> 1"
    and "val A' + base N * uint c = val (take N A) + uint B"
proof -
  obtain t T where T: "take N A = t # T" "length T = N - 1"
    using assms(1,2) by (cases "take N A") (auto dest: arg_cong [of _ _ length])
  have "length A' = N \<and> uint c \<le> 1 \<and> val A' + base N * uint c = val (take N A) + uint B"
  proof (cases "t \<le> t + B")
    case True
    then show ?thesis
      using assms T by (auto simp: Increment_def uint_add_wrap)
  next
    case False
    then obtain T' where T': "Increment_tail T = (T', c)" "A' = (t + B) # T'"
      using assms(3) T by (auto simp: Increment_def split: prod.splits)
    note ih = Increment_tail_val [OF T'(1)]
    have bN: "base N = 4294967296 * base (length T)" and len: "length A' = N"
      using T(2) assms(1) base_simps(2) [of "length T"] ih T'(2) by simp_all
    have "val A' + base N * uint c
        = uint (t + B) + 4294967296 * (val T' + base (length T) * uint c)"
      by (simp only: bN T'(2) val.simps) (simp add: distrib_left)
    also have "\<dots> = uint t + uint B + 4294967296 * val T"
      using ih False by (simp add: uint_add_wrap)
    finally show ?thesis
      using ih len T(1) by simp
  qed
  then show "length A' = N" and "uint c \<le> 1"
    and "val A' + base N * uint c = val (take N A) + uint B" by simp_all
qed

lemma uint_sub_wrap:
  "uint ((t :: tuint) - b) = uint t - uint b + (if uint b \<le> uint t then 0 else 4294967296)"
proof (cases "uint b \<le> uint t")
  case True
  moreover from this have "uint t - uint b < 4294967296"
    using uint_tuint_bounds [of t] uint_ge_0 [of b] by linarith
  ultimately show ?thesis
    by (simp add: uint_tuint_arith mod_pos_pos_trivial)
next
  case False
  moreover from this have "- 4294967296 \<le> uint t - uint b"
    using uint_tuint_bounds [of b] uint_ge_0 [of t] by linarith
  ultimately show ?thesis
    by (simp add: uint_tuint_arith mod_wrap_low)
qed

lemma uint_pred:
  assumes "(a :: tuint) \<noteq> 0"
  shows "uint (a - 1) = uint a - 1"
proof -
  have "uint a \<noteq> 0"
    using assms by (simp add: word_uint_eq_iff)
  then have "1 \<le> uint a"
    using uint_ge_0 [of a] by linarith
  then show ?thesis
    by (simp add: uint_sub_wrap)
qed

lemma Decrement_tail_val:
  "Decrement_tail A = (A', c) \<Longrightarrow>
   length A' = length A \<and> uint c \<le> 1 \<and> val A' = val A - 1 + base (length A) * uint c"
proof (induction A arbitrary: A' c)
  case (Cons a A)
  show ?case
  proof (cases "a = 0")
    case True
    obtain A'' where A'': "Decrement_tail A = (A'', c)" "A' = (a - 1) # A''"
      using Cons.prems True by (auto split: prod.splits)
    then show ?thesis
      using Cons.IH [OF A''(1)] True by (simp add: uint_tuint_arith distrib_left)
  next
    case False
    then show ?thesis
      using Cons.prems uint_pred [OF False] by auto
  qed
qed auto

lemma word_sub_le_iff: "(t :: tuint) - b \<le> t \<longleftrightarrow> uint b \<le> uint t"
  using uint_tuint_bounds [of b] uint_ge_0 [of b] by (simp add: word_le_def uint_sub_wrap)

lemma Decrement_val:
  assumes "0 < N" and "N \<le> length A" and "Decrement A N B = (A', c)"
  shows "length A' = N" and "uint c \<le> 1"
    and "val A' = val (take N A) - uint B + base N * uint c"
proof -
  obtain t T where T: "take N A = t # T" "length T = N - 1"
    using assms(1,2) by (cases "take N A") (auto dest: arg_cong [of _ _ length])
  have "length A' = N \<and> uint c \<le> 1 \<and> val A' = val (take N A) - uint B + base N * uint c"
  proof (cases "t - B \<le> t")
    case True
    then show ?thesis
      using assms T by (auto simp: Decrement_def uint_sub_wrap word_sub_le_iff)
  next
    case False
    then obtain T' where T': "Decrement_tail T = (T', c)" "A' = (t - B) # T'"
      using assms(3) T by (auto simp: Decrement_def split: prod.splits)
    have "base N = 4294967296 * base (length T)"
      using T(2) assms(1) base_simps(2) [of "length T"] by simp
    then show ?thesis
      using Decrement_tail_val [OF T'(1)] T T'(2) False assms(1)
      by (auto simp: uint_sub_wrap word_sub_le_iff algebra_simps)
  qed
  then show "length A' = N" and "uint c \<le> 1"
    and "val A' = val (take N A) - uint B + base N * uint c" by simp_all
qed

subsubsection \<open>Two's complement, one word multiplication\<close>

lemma uint_NOT: "uint (NOT (a :: tuint)) = 4294967295 - uint a"
proof -
  have "NOT a = (4294967295 :: tuint) - a"
    by (simp add: not_eq_complement)
  then show ?thesis
    using uint_tuint_bounds [of a] by (simp only: uint_sub_wrap) simp
qed

lemma val_map_NOT: "val (map (\<lambda>a. NOT a) A) = base (length A) - 1 - val A"
  by (induction A) (simp_all add: uint_NOT algebra_simps)

lemma TwosComplement_val:
  assumes "0 < N" and "N \<le> length A"
  shows "length (TwosComplement A N) = N"
    and "val (TwosComplement A N) = (- val (take N A)) mod base N"
proof -
  obtain A' c where D: "Decrement A N 1 = (A', c)" by fastforce
  note d = Decrement_val [OF assms D]
  show "length (TwosComplement A N) = N"
    using d by (simp add: TwosComplement_def D)
  have "val (TwosComplement A N) = base N - 1 - val A'"
    using d by (simp add: TwosComplement_def D val_map_NOT)
  also have "\<dots> = - val (take N A) + base N * (1 - uint c)"
    using d by (simp add: algebra_simps)
  finally have "val (TwosComplement A N) mod base N = (- val (take N A)) mod base N"
    by (simp only: mod_mult_self2)
  moreover have "val (TwosComplement A N) < base N"
    using val_bound [of "TwosComplement A N"] d by (simp add: TwosComplement_def D)
  ultimately show "val (TwosComplement A N) = (- val (take N A)) mod base N"
    by (simp add: mod_pos_pos_trivial)
qed

lemma LinearMultiply_loop_val:
  "LinearMultiply_loop carry A B = (C, c) \<Longrightarrow>
   length C = length A \<and> val C + base (length A) * uint c = val A * uint B + uint carry"
proof (induction A arbitrary: carry C c)
  case (Cons a A)
  define p :: dword where "p = ucast a * ucast B + ucast carry"
  obtain C' where C': "LinearMultiply_loop (HIGH_WORD p) A B = (C', c)" "C = LOW_WORD p # C'"
    using Cons.prems by (auto simp: p_def Let_def split: prod.splits)
  have "uint p = uint a * uint B + uint carry"
    by (simp add: p_def uint_dword_mult_add)
  then show ?case
    using Cons.IH [OF C'(1)] C'(2) dword_split [of p] by (simp add: algebra_simps)
qed auto

lemma LinearMultiply_val:
  assumes "N \<le> length A" and "LinearMultiply A B N = (C, c)"
  shows "length C = N" and "val C + base N * uint c = val (take N A) * uint B"
  using LinearMultiply_loop_val [of 0 "take N A" B C c] assms
  by (simp_all add: LinearMultiply_def min.absorb2)


subsubsection \<open>Shifts by bits\<close>

lemma uint_push_bit_eq: "uint (push_bit s (u :: tuint)) = (uint u * 2 ^ s) mod 4294967296"
  by (simp only: unsigned_push_bit_eq) (simp add: push_bit_eq_mult take_bit_eq_mod)

lemma uint_push_bit_exact:
  assumes "uint (u :: tuint) * 2 ^ s < 4294967296"
  shows "uint (push_bit s u) = uint u * 2 ^ s"
  using assms by (simp add: uint_push_bit_eq mod_pos_pos_trivial)

lemma uint_drop_bit_tuint: "uint (drop_bit s (u :: tuint)) = uint u div 2 ^ s"
proof -
  have "take_bit 32 (uint u) = uint u"
    using uint_tuint_bounds [of u] by (simp add: take_bit_int_eq_self_iff)
  then have "uint (drop_bit s u) = drop_bit s (uint u)"
    by (simp only: unsigned_drop_bit_eq) simp
  then show ?thesis
    by (simp only: drop_bit_eq_div)
qed

lemma uint_less_power_bit:
  assumes "uint (c :: tuint) < 2 ^ s" and "s \<le> n"
  shows "\<not> bit c n"
proof -
  have "uint c < 2 ^ n"
    using assms by (meson order_less_le_trans one_le_numeral power_increasing)
  then have "uint c div 2 ^ n = 0"
    by (simp add: div_pos_pos_trivial)
  then have "\<not> bit (uint c) n"
    by (simp add: bit_iff_odd)
  then show ?thesis
    by (auto simp: bit_uint_iff dest: bit_imp_le_length)
qed

lemma push_bit_OR_carry:
  assumes "uint (c :: tuint) < 2 ^ s" and "s \<le> 32"
  shows "uint (push_bit s u OR c) = (uint u * 2 ^ s) mod 4294967296 + uint c"
proof -
  have disj: "push_bit s u + c = push_bit s u OR c"
    using uint_less_power_bit [OF assms(1)]
    by (intro disjunctive_add) (auto simp: bit_simps not_le)
  define k :: int where "k = 2 ^ (32 - s)"
  have k: "2 ^ s * k = (4294967296 :: int)"
    using assms(2) by (simp add: k_def flip: power_add)
  have "(uint u * 2 ^ s) mod 4294967296 = 2 ^ s * (uint u mod k)"
    using mult_mod_right [of "2 ^ s" "uint u" k] unfolding k by (simp add: mult.commute)
  moreover have "2 ^ s * (uint u mod k) \<le> 2 ^ s * (k - 1)"
    by (intro mult_left_mono) (simp_all add: k_def)
  ultimately have "(uint u * 2 ^ s) mod 4294967296 + uint c < 4294967296"
    using assms(1) k by (simp add: right_diff_distrib')
  then show ?thesis
    by (simp add: uint_tuint_arith uint_push_bit_eq mod_pos_pos_trivial flip: disj)
qed


lemma uint_OR_carry_high:
  assumes "uint c = q * 2 ^ (32 - s)" and "0 \<le> q" and "s \<le> 32"
  shows "uint (drop_bit s u OR c) = uint u div 2 ^ s + uint (c :: tuint)"
proof -
  define d where "d = drop_bit s u"
  have d: "uint d = uint u div 2 ^ s"
    by (simp only: d_def uint_drop_bit_tuint)
  have "(2 :: int) ^ s * 2 ^ (32 - s) = 4294967296"
    using assms(3) by (simp flip: power_add)
  then have "uint u < 2 ^ (32 - s) * 2 ^ s"
    using uint_tuint_bounds [of u] by (simp add: mult.commute)
  then have dl: "uint d < 2 ^ (32 - s)"
    by (simp add: d int_div_less)
  have low: "\<not> bit c n" if "n < 32 - s" for n
  proof -
    have "bit (uint c) n = bit (push_bit (32 - s) q) n"
      by (simp add: assms(1) push_bit_eq_mult)
    then have "\<not> bit (uint c) n"
      using that by (simp add: bit_push_bit_iff)
    then show ?thesis
      by (auto simp: bit_uint_iff dest: bit_imp_le_length)
  qed
  have "d + c = d OR c"
    using uint_less_power_bit [OF dl] low by (intro disjunctive_add) (metis not_le)
  moreover have "uint d + uint c < 4294967296"
  proof -
    have "uint c \<le> 4294967296 - 2 ^ (32 - s)"
    proof -
      have "q * 2 ^ (32 - s) < 2 ^ s * 2 ^ (32 - s)"
        using uint_tuint_bounds [of c] assms \<open>(2 :: int) ^ s * 2 ^ (32 - s) = 4294967296\<close> by simp
      then have "q \<le> 2 ^ s - 1" by simp
      then have "q * 2 ^ (32 - s) \<le> (2 ^ s - 1) * 2 ^ (32 - s)"
        by (intro mult_right_mono) auto
      then show ?thesis
        using \<open>(2 :: int) ^ s * 2 ^ (32 - s) = 4294967296\<close> by (simp add: assms(1) left_diff_distrib')
    qed
    then show ?thesis using dl by linarith
  qed
  ultimately have "uint (d OR c) = uint d + uint c"
    by (simp add: uint_tuint_arith mod_pos_pos_trivial flip: \<open>d + c = d OR c\<close>)
  then show ?thesis by (simp add: d_def d [unfolded d_def])
qed


lemma shl_split:
  assumes "s \<le> 32"
  shows "uint (u :: tuint) * 2 ^ s
       = (uint u * 2 ^ s) mod 4294967296 + 4294967296 * uint (drop_bit (32 - s) u)"
proof -
  have "(4294967296 :: int) = 2 ^ (32 - s) * 2 ^ s"
    using assms by (simp flip: power_add)
  then have "(uint u * 2 ^ s) div 4294967296 = uint u div 2 ^ (32 - s)"
    by (metis div_mult_mult2 power_not_zero zero_neq_numeral)
  then show ?thesis
    using minus_mod_eq_mult_div [of "uint u * 2 ^ s" 4294967296]
    by (simp add: uint_drop_bit_tuint)
qed

lemma ShiftLeft_loop_val:
  "\<lbrakk>ShiftLeft_loop s carry r = (r', c); s \<le> 32; uint carry < 2 ^ s\<rbrakk> \<Longrightarrow>
   length r' = length r \<and> uint c < 2 ^ s \<and>
   val r' + base (length r) * uint c = val r * 2 ^ s + uint carry"
proof (induction r arbitrary: carry r' c)
  case (Cons u r)
  obtain r'' where r'': "ShiftLeft_loop s (drop_bit (32 - s) u) r = (r'', c)"
      "r' = (push_bit s u OR carry) # r''"
    using Cons.prems(1) by (auto simp: WORD_BITS_def split: prod.splits)
  have "(4294967296 :: int) = 2 ^ s * 2 ^ (32 - s)"
    using Cons.prems(2) by (simp flip: power_add)
  then have "uint (drop_bit (32 - s) u) < 2 ^ s"
    using uint_tuint_bounds [of u] by (simp add: uint_drop_bit_tuint int_div_less)
  note ih = Cons.IH [OF r''(1) Cons.prems(2) this]
  have "uint (push_bit s u OR carry) = (uint u * 2 ^ s) mod 4294967296 + uint carry"
    using push_bit_OR_carry Cons.prems by blast
  then show ?case
    using ih r''(2) shl_split [OF Cons.prems(2), of u] by (simp add: algebra_simps)
qed auto

lemma ShiftWordsLeftByBits_val:
  assumes "n \<le> length r" and "s < 32" and "ShiftWordsLeftByBits r n s = (r', c)"
  shows "length r' = n" and "uint c < 2 ^ s"
    and "val r' + base n * uint c = val (take n r) * 2 ^ s"
  using ShiftLeft_loop_val [of s 0 "take n r" r' c] assms
  by (auto simp: ShiftWordsLeftByBits_def min.absorb2 split: if_splits)

lemma shr_split:
  assumes "s \<le> 32"
  shows "uint (push_bit (32 - s) (u :: tuint)) = (uint u mod 2 ^ s) * 2 ^ (32 - s)"
proof -
  have "(2 :: int) ^ (32 - s) * 2 ^ s = 4294967296"
    using assms by (simp flip: power_add)
  then have "2 ^ (32 - s) * (uint u mod 2 ^ s) = (2 ^ (32 - s) * uint u) mod 4294967296"
    using mult_mod_right [of "2 ^ (32 - s)" "uint u" "2 ^ s"] by simp
  then show ?thesis
    by (simp only: uint_push_bit_eq mult.commute)
qed

lemma ShiftRight_word:
  assumes "s \<le> 32" and "uint carry = q * 2 ^ (32 - s)" and "0 \<le> q"
  shows "uint (drop_bit s u OR carry) * 2 ^ s + uint u mod 2 ^ s = 4294967296 * q + uint (u :: tuint)"
proof -
  have X: "(2 :: int) ^ (32 - s) * 2 ^ s = 4294967296"
    using assms(1) by (simp flip: power_add)
  have "uint (drop_bit s u OR carry) = uint u div 2 ^ s + q * 2 ^ (32 - s)"
    using uint_OR_carry_high [OF assms(2,3,1), of u] by (simp only: assms(2))
  then have "uint (drop_bit s u OR carry) * 2 ^ s
      = uint u div 2 ^ s * 2 ^ s + q * (2 ^ (32 - s) * 2 ^ s)"
    by (simp only: distrib_right mult.assoc)
  then show ?thesis
    using div_mult_mod_eq [of "uint u" "2 ^ s"] unfolding X by linarith
qed

lemma ShiftRight_loop_val:
  assumes "ShiftRight_loop s carry r = (r', c')" and "s \<le> 32"
    and "uint carry = q * 2 ^ (32 - s)" and "0 \<le> q" and "r \<noteq> [] \<or> q < 2 ^ s"
  shows "length r' = length r \<and>
    (\<exists>q'. uint c' = q' * 2 ^ (32 - s) \<and> 0 \<le> q' \<and> q' < 2 ^ s \<and>
         val (rev r') * 2 ^ s + q' = base (length r) * q + val (rev r))"
  using assms
proof (induction r arbitrary: carry r' q c')
  case Nil
  then show ?case by auto
next
  case (Cons u r)
  obtain r'' where r'': "ShiftRight_loop s (push_bit (32 - s) u) r = (r'', c')"
      "r' = (drop_bit s u OR carry) # r''"
    using Cons.prems(1) by (auto simp: WORD_BITS_def split: prod.splits)
  have "length r'' = length r \<and>
    (\<exists>q'. uint c' = q' * 2 ^ (32 - s) \<and> 0 \<le> q' \<and> q' < 2 ^ s \<and>
         val (rev r'') * 2 ^ s + q' = base (length r) * (uint u mod 2 ^ s) + val (rev r))"
    by (rule Cons.IH [OF r''(1) Cons.prems(2) shr_split [OF Cons.prems(2)]]) simp_all
  then obtain q' where len: "length r'' = length r" and
    q': "uint c' = q' * 2 ^ (32 - s)" "0 \<le> q'" "q' < 2 ^ s" and
    eq: "val (rev r'') * 2 ^ s + q' = base (length r) * (uint u mod 2 ^ s) + val (rev r)"
    by blast
  define W where "W = uint (drop_bit s u OR carry)"
  have W: "W * 2 ^ s + uint u mod 2 ^ s = 4294967296 * q + uint u"
    unfolding W_def by (rule ShiftRight_word [OF Cons.prems(2,3,4)])
  have "val (rev r') = val (rev r'') + base (length r) * W"
    by (simp add: r''(2) len array_simps W_def)
  then have "val (rev r') * 2 ^ s + q'
      = base (length r) * (W * 2 ^ s + uint u mod 2 ^ s) + val (rev r)"
    using eq by (simp add: distrib_right distrib_left)
  also have "\<dots> = base (length (u # r)) * q + val (rev (u # r))"
    unfolding W by (simp add: array_simps distrib_left)
  finally have "val (rev r') * 2 ^ s + q' = base (length (u # r)) * q + val (rev (u # r))" .
  then show ?case
    using q' len r''(2) by auto
qed

lemma ShiftWordsRightByBits_val:
  assumes "n \<le> length r" and "s < 32" and "ShiftWordsRightByBits r n s = (r', c)"
  shows "length r' = n" and "val r' = val (take n r) div 2 ^ s"
proof -
  have "length r' = n \<and> val r' = val (take n r) div 2 ^ s"
  proof (cases "s = 0 \<or> n = 0")
    case True
    then show ?thesis
      using assms by (auto simp: ShiftWordsRightByBits_def split: prod.splits if_splits)
  next
    case False
    obtain r'' where r'': "ShiftRight_loop s 0 (rev (take n r)) = (r'', c)" "r' = rev r''"
      using assms(3) False by (auto simp: ShiftWordsRightByBits_def split: prod.splits)
    obtain q' where q': "length r'' = n" "0 \<le> q'" "q' < 2 ^ s"
        "val (rev r'') * 2 ^ s + q' = val (take n r)"
      using ShiftRight_loop_val [OF r''(1), of 0] assms(1,2) False by (auto simp: min.absorb2)
    then have "val (take n r) div 2 ^ s = val (rev r'')"
      by (metis add.commute add_cancel_right_right div_mult_self3 div_pos_pos_trivial
          power_not_zero zero_neq_numeral)
    then show ?thesis
      using q' r''(2) by simp
  qed
  then show "length r' = n" and "val r' = val (take n r) div 2 ^ s" by simp_all
qed

lemma ShiftWordsLeftByWords_val:
  assumes "n \<le> length r" and "s \<le> n"
  shows "length (ShiftWordsLeftByWords r n s) = n"
    and "val (ShiftWordsLeftByWords r n s) = base s * val (take (n - s) r)"
  using assms by (auto simp: ShiftWordsLeftByWords_def array_simps)

lemma val_div_base:
  assumes "s \<le> length r"
  shows "val (drop s r) = val r div base s" and "val (take s r) = val r mod base s"
proof -
  have "val r = val (take s r) + base s * val (drop s r)"
    using val_take_drop [of r s] assms by (simp add: min.absorb1)
  moreover have "val (take s r) < base s"
    using assms by (intro val_bound_eq) simp
  ultimately show "val (drop s r) = val r div base s" and "val (take s r) = val r mod base s"
    by (simp_all add: div_pos_pos_trivial mod_pos_pos_trivial)
qed

lemma ShiftWordsRightByWords_val:
  assumes "n \<le> length r"
  shows "length (ShiftWordsRightByWords r n s) = n"
    and "val (ShiftWordsRightByWords r n s) = val (take n r) div base (min s n)"
  using assms val_div_base(1) [of "min s n" "take n r"]
  by (auto simp: ShiftWordsRightByWords_def Let_def array_simps min.absorb2)


subsubsection \<open>Word counts and precision\<close>

lemma CountWords_le: "CountWords X N \<le> N"
  by (induction N) simp_all

lemma CountWords_take: "CountWords X N \<le> M \<Longrightarrow> M \<le> N \<Longrightarrow> CountWords (take M X) M = CountWords X N"
proof (induction N)
  case (Suc N)
  show ?case
  proof (cases "M = Suc N")
    case True
    have "CountWords (take m X) k = CountWords X k" if "k \<le> m" for m k
      using that by (induction k) auto
    then show ?thesis using True by blast
  next
    case False
    then show ?thesis
      using Suc by (cases "X ! N = 0") auto
  qed
qed simp

lemma take_Suc_val: "n < length X \<Longrightarrow> val (take (Suc n) X) = val (take n X) + base n * uint (X ! n)"
  by (simp add: take_Suc_conv_app_nth array_simps min.absorb2)

lemma CountWords_val:
  "N \<le> length X \<Longrightarrow> val (take (CountWords X N) X) = val (take N X)"
  by (induction N) (simp_all add: take_Suc_val)

lemma CountWords_top:
  assumes "N \<le> length X" and "0 < CountWords X N"
  shows "X ! (CountWords X N - 1) \<noteq> 0" and "base (CountWords X N - 1) \<le> val (take N X)"
proof -
  have top: "X ! (CountWords X N - 1) \<noteq> 0" if "0 < CountWords X N" for N
    using that by (induction N) (auto split: if_splits)
  then show "X ! (CountWords X N - 1) \<noteq> 0" using assms(2) .
  let ?c = "CountWords X N"
  have "?c - 1 < length X"
    using assms CountWords_le [of X N] by linarith
  then have "val (take ?c X) = val (take (?c - 1) X) + base (?c - 1) * uint (X ! (?c - 1))"
    using assms(2) take_Suc_val [of "?c - 1" X] by simp
  moreover have "base (?c - 1) * 1 \<le> base (?c - 1) * uint (X ! (?c - 1))"
    using uint_ge_1 [OF top [OF assms(2)]] by (intro mult_left_mono) auto
  moreover have "val (take ?c X) = val (take N X)"
    by (rule CountWords_val [OF assms(1)])
  ultimately show "base (?c - 1) \<le> val (take N X)"
    using val_nonneg [of "take (?c - 1) X"] by linarith
qed

lemma CountWords_0_iff: "N \<le> length X \<Longrightarrow> CountWords X N = 0 \<longleftrightarrow> val (take N X) = 0"
  using CountWords_val [of N X] CountWords_top(2) [of N X] base_pos(1) [of "CountWords X N - 1"]
  by (cases "CountWords X N") auto

text \<open>The state of \<open>BitPrecision\<close>: \<open>v\<close> is the argument shifted left by \<open>32 - x\<close>, with a bit at or above \<open>p\<close>.\<close>

definition BitPrecision_inv :: "tuint \<Rightarrow> nat \<Rightarrow> tuint \<times> nat \<Rightarrow> bool" where
  "BitPrecision_inv a p vx \<longleftrightarrow>
     (case vx of (v, x) \<Rightarrow> x \<le> 32 \<and> 32 - p \<le> x \<and> uint v = uint a * 2 ^ (32 - x) \<and> 2 ^ p \<le> uint v)"

lemma BitPrecision_step_inv:
  assumes "BitPrecision_inv a p vx" and "uint t = 2 ^ (p + s)" and "p + s + s = 32"
  shows "BitPrecision_inv a (p + s) (BitPrecision_step t s vx)"
proof -
  obtain v x where vx: "vx = (v, x)" by fastforce
  show ?thesis
  proof (cases "v < t")
    case True
    then have "uint v * 2 ^ s < 2 ^ (p + s) * 2 ^ s"
      using assms(2) by (simp add: word_less_def)
    also have "\<dots> = 4294967296"
      using assms(3) by (simp flip: power_add)
    finally have sh: "uint (push_bit s v) = uint v * 2 ^ s"
      by (rule uint_push_bit_exact)
    have x: "32 - (x - s) = (32 - x) + s" "x - s \<le> 32" "32 - (p + s) \<le> x - s"
      using assms(1,3) vx by (auto simp: BitPrecision_inv_def)
    have px: "(2 :: int) ^ (32 - (x - s)) = 2 ^ (32 - x) * 2 ^ s"
      unfolding x(1) by (rule power_add)
    have "(2 :: int) ^ p * 2 ^ s \<le> uint v * 2 ^ s"
      using assms(1) vx by (intro mult_right_mono) (auto simp: BitPrecision_inv_def)
    then show ?thesis
      using assms(1) vx True x(2,3) px sh
      by (simp add: BitPrecision_inv_def BitPrecision_step_def power_add)
  next
    case False
    then show ?thesis
      using assms vx by (auto simp: BitPrecision_inv_def BitPrecision_step_def word_less_def)
  qed
qed

lemma BitPrecision_bounds:
  assumes "a \<noteq> 0"
  shows "1 \<le> BitPrecision a" and "BitPrecision a \<le> 32"
    and "2 ^ (BitPrecision a - 1) \<le> uint a" and "uint a < 2 ^ BitPrecision a"
proof -
  have "1 \<le> uint a"
    using assms by (rule uint_ge_1)
  then have i0: "BitPrecision_inv a 0 (a, 32)"
    by (simp add: BitPrecision_inv_def)
  have i1: "BitPrecision_inv a 16 (BitPrecision_step 0x10000 16 (a, 32))" (is "BitPrecision_inv _ _ ?s1")
    using BitPrecision_step_inv [OF i0, of "0x10000" 16] by simp
  have i2: "BitPrecision_inv a 24 (BitPrecision_step 0x1000000 8 ?s1)" (is "BitPrecision_inv _ _ ?s2")
    using BitPrecision_step_inv [OF i1, of "0x1000000" 8] by simp
  have i3: "BitPrecision_inv a 28 (BitPrecision_step 0x10000000 4 ?s2)" (is "BitPrecision_inv _ _ ?s3")
    using BitPrecision_step_inv [OF i2, of "0x10000000" 4] by simp
  have i4: "BitPrecision_inv a 30 (BitPrecision_step 0x40000000 2 ?s3)" (is "BitPrecision_inv _ _ ?s4")
    using BitPrecision_step_inv [OF i3, of "0x40000000" 2] by simp
  obtain v x where s4: "?s4 = (v, x)" by fastforce
  have bp: "BitPrecision a = (if v < 0x80000000 then x - 1 else x)"
    using assms s4 by (simp add: BitPrecision_def)
  have inv: "x \<le> 32" "2 \<le> x" "uint v = uint a * 2 ^ (32 - x)" "1073741824 \<le> uint v"
    using i4 s4 by (simp_all add: BitPrecision_inv_def)
  have up: "uint a < 2 ^ k" if "uint a * 2 ^ (32 - x) < 2 ^ k * 2 ^ (32 - x)" for k
    using that by simp
  have lo: "2 ^ k \<le> uint a" if "2 ^ k * 2 ^ (32 - x) \<le> uint a * 2 ^ (32 - x)" for k
    using that by simp
  show "1 \<le> BitPrecision a" and "BitPrecision a \<le> 32"
    using bp inv by auto
  have px: "(2 :: int) ^ x * 2 ^ (32 - x) = 4294967296"
    using inv(1) by (simp flip: power_add)
  have px1: "(2 :: int) ^ (x - 1) * 2 ^ (32 - x) = 2147483648"
    using inv(1,2) by (simp flip: power_add)
  have px2: "(2 :: int) ^ (x - 1 - 1) * 2 ^ (32 - x) = 1073741824"
    using inv(1,2) by (simp flip: power_add)
  show "2 ^ (BitPrecision a - 1) \<le> uint a"
    using inv px1 px2 bp by (auto intro!: lo simp: word_less_def)
  show "uint a < 2 ^ BitPrecision a"
    using inv px px1 bp uint_tuint_bounds [of v] by (auto intro!: up simp: word_less_def)
qed

lemma BitPrecision_0 [simp]: "BitPrecision 0 = 0"
  by (simp add: BitPrecision_def)


subsection \<open>Properties\<close>

text \<open>
  C3: \<open>Subtract\<close> undoes \<open>Add\<close>: if adding \<open>B\<close> to \<open>A\<close> gives the words \<open>C\<close> and the carry
  \<open>c\<close>, then \<open>C\<close> with the carry is the sum, and subtracting \<open>B\<close> from \<open>C\<close> gives back \<open>A\<close> and
  borrows exactly when the addition carried.
\<close>

theorem Add_Subtract_roundtrip:
  assumes "length A = N" "length B = N" "even N" and add: "Add A B N = (C, c)"
  shows "val C + base N * uint c = val A + val B \<and> Subtract C B N = (A, c)"
proof -
  have C: "length C = N" "uint c \<le> 1" "val C + base N * uint c = val A + val B"
    using Add_val [OF _ _ _ add] assms by simp_all
  obtain D d where sub: "Subtract C B N = (D, d)" by fastforce
  have D: "length D = N" "uint d \<le> 1" "val D = val C - val B + base N * uint d"
    using Subtract_val [OF _ _ _ sub] C assms by simp_all
  have eq: "val D - val A = base N * (uint d - uint c)"
    using C(3) D(3) by (simp add: algebra_simps)
  have bnd: "\<bar>val D - val A\<bar> < base N"
    using val_bound_eq [OF D(1)] val_bound_eq [OF assms(1)] val_nonneg [of A] val_nonneg [of D]
    by linarith
  have "uint d - uint c = 0"
  proof (rule ccontr)
    assume "uint d - uint c \<noteq> 0"
    then have "1 \<le> \<bar>uint d - uint c\<bar>" by linarith
    then have "base N * 1 \<le> base N * \<bar>uint d - uint c\<bar>" by (intro mult_left_mono) simp_all
    then show False using eq bnd by (simp add: abs_mult)
  qed
  then have "d = c" "val D = val A" using eq by (simp_all add: word_uint_eq_iff)
  moreover have "D = A" using D(1) assms(1) \<open>val D = val A\<close> by (intro val_inject) simp_all
  ultimately show ?thesis using C sub by simp
qed

theorem Add_Subtract_roundtrip_witness:
  "val [4, 1] + base 2 * uint (0 :: tuint) = val [4294967295, 0] + val [5, 0] \<and>
   Subtract [4, 1] [5, 0] 2 = ([4294967295, 0], 0)"
proof -
  have "Add [4294967295, 0] [5, 0] 2 = ([4, 1], 0)" by code_simp
  then show ?thesis
    using Add_Subtract_roundtrip [of "[4294967295, 0]" 2 "[5, 0]" "[4, 1]" 0] by simp
qed

end
