(* ===== verification/Multiply.thy ===== *)
theory Multiply
  imports WordArith
begin

section \<open>Multiplication of word arrays\<close>

text \<open>
  The multiplication routines of \<open>bigint/algorithms.cpp\<close>: the two word product without
  branches, the column wise (Comba) products of four and eight words, Karatsuba's
  recursion on top of them, squaring, the lower and the upper half of a product, and the
  product of operands of different sizes.  The C code writes its result to \<open>R\<close> and uses
  \<open>T\<close> as scratch space; the functions here return the words left in \<open>R\<close>, and every
  intermediate array of the C code is a bound variable with the array's name.
\<close>

subsection \<open>Two words\<close>

text \<open>\<open>D\<close>, \<open>ai\<close>, \<open>bi\<close>, \<open>di\<close>, \<open>si\<close> are the locals of the branchless difference product.\<close>

definition diff_product :: "tuint \<Rightarrow> tuint \<Rightarrow> tuint \<Rightarrow> tuint \<Rightarrow> dword \<times> tuint" where
  "diff_product a0 a1 b0 b1 =
     (let D = [a1 - a0, a0 - a1, b0 - b1, b1 - b0];
          ai = (if a1 < a0 then 1 else 0 :: nat);
          bi = (if b0 < b1 then 1 else 0 :: nat);
          di = (if ai = 1 \<and> bi = 1 then 1 else 0 :: nat);
          d = ucast (D ! di) * ucast (D ! (di + 2));
          D = D[1 := 0, 3 := 0];
          si = ai + (if bi = 0 then 1 else 0)
      in (d, D ! si))"

fun AtomicMultiply :: "tuint list \<Rightarrow> tuint list \<Rightarrow> tuint list" where
  "AtomicMultiply (a0 # a1 # A) (b0 # b1 # B) =
     (let (d, s) = diff_product a0 a1 b0 b1;
          A0B0 = ucast a0 * ucast b0 :: dword;
          A1B1 = ucast a1 * ucast b1 :: dword;
          t1 = ucast (HIGH_WORD A0B0) + ucast (LOW_WORD A0B0) + ucast (LOW_WORD d)
               + ucast (LOW_WORD A1B1) :: dword;
          t2 = A1B1 + ucast (HIGH_WORD t1) + ucast (HIGH_WORD A0B0) + ucast (HIGH_WORD d)
               + ucast (HIGH_WORD A1B1) - ucast s :: dword
      in [LOW_WORD A0B0, LOW_WORD t1, LOW_WORD t2, HIGH_WORD t2])"
| "AtomicMultiply A B = []"

fun AtomicMultiplyAdd :: "tuint list \<Rightarrow> tuint list \<Rightarrow> tuint list \<Rightarrow> tuint list \<times> tuint" where
  "AtomicMultiplyAdd (c0 # c1 # c2 # c3 # C) (a0 # a1 # A) (b0 # b1 # B) =
     (let (d, s) = diff_product a0 a1 b0 b1;
          A0B0 = ucast a0 * ucast b0 :: dword;
          t0 = A0B0 + ucast c0;
          A1B1 = ucast a1 * ucast b1 :: dword;
          t1 = ucast (HIGH_WORD t0) + ucast (LOW_WORD A0B0) + ucast (LOW_WORD d)
               + ucast (LOW_WORD A1B1) + ucast c1 :: dword;
          t2 = ucast (HIGH_WORD t1) + ucast (LOW_WORD A1B1) + ucast (HIGH_WORD A0B0)
               + ucast (HIGH_WORD d) + ucast (HIGH_WORD A1B1) - ucast s + ucast c2 :: dword;
          t3 = ucast (HIGH_WORD t2) + ucast (HIGH_WORD A1B1) + ucast c3 :: dword
      in ([LOW_WORD t0, LOW_WORD t1, LOW_WORD t2, LOW_WORD t3], HIGH_WORD t3))"
| "AtomicMultiplyAdd C A B = ([], 0)"

fun AtomicMultiplyBottom :: "tuint list \<Rightarrow> tuint list \<Rightarrow> tuint list" where
  "AtomicMultiplyBottom (a0 # a1 # A) (b0 # b1 # B) =
     (let t = ucast a0 * ucast b0 :: dword
      in [LOW_WORD t, HIGH_WORD t + a0 * b1 + a1 * b0])"
| "AtomicMultiplyBottom A B = []"

subsection \<open>Columns: the \<open>MulAcc\<close> and \<open>SaveMulAcc\<close> macros\<close>

text \<open>
  A Comba routine is a fixed sequence of the two macros on the three word accumulator
  \<open>(c, d, e)\<close>; the sequence is data here, run by \<open>comba_run\<close> in the order of the source.
\<close>

datatype comba_op = MulAcc nat nat | SaveMulAcc nat nat nat

type_synonym comba_state = "tuint list \<times> tuint \<times> tuint \<times> tuint"

fun comba_step :: "tuint list \<Rightarrow> tuint list \<Rightarrow> comba_op \<Rightarrow> comba_state \<Rightarrow> comba_state" where
  "comba_step A B (MulAcc x y) (R, c, d, e) =
     (let p = ucast (A ! x) * ucast (B ! y) + ucast c :: dword;
          q = ucast d + ucast (HIGH_WORD p) :: dword
      in (R, LOW_WORD p, LOW_WORD q, e + HIGH_WORD q))"
| "comba_step A B (SaveMulAcc s x y) (R, c, d, e) =
     (let p = ucast (A ! x) * ucast (B ! y) + ucast d :: dword;
          q = ucast e + ucast (HIGH_WORD p) :: dword
      in (R[s := c], LOW_WORD p, LOW_WORD q, HIGH_WORD q))"

fun comba_run :: "tuint list \<Rightarrow> tuint list \<Rightarrow> comba_op list \<Rightarrow> comba_state \<Rightarrow> comba_state" where
  "comba_run A B [] st = st"
| "comba_run A B (x # xs) st = comba_run A B xs (comba_step A B x st)"

text \<open>The common first lines: \<open>p = A[0] * B[0]; R[0] = LOW_WORD(p); c = HIGH_WORD(p); d = e = 0\<close>.\<close>

definition comba_init :: "nat \<Rightarrow> tuint list \<Rightarrow> tuint list \<Rightarrow> comba_state" where
  "comba_init L A B =
     (let p = ucast (A ! 0) * ucast (B ! 0) :: dword
      in ((replicate L 0)[0 := LOW_WORD p], HIGH_WORD p, 0, 0))"

text \<open>The common last lines of a full product of \<open>n\<close> words.\<close>

definition comba_finish :: "nat \<Rightarrow> tuint list \<Rightarrow> tuint list \<Rightarrow> comba_state \<Rightarrow> tuint list" where
  "comba_finish n A B st =
     (case st of (R, c, d, e) \<Rightarrow>
        let p = ucast (A ! (n - 1)) * ucast (B ! (n - 1)) + ucast d :: dword
        in R[2 * n - 3 := c, 2 * n - 2 := LOW_WORD p, 2 * n - 1 := e + HIGH_WORD p])"

definition comba4_ops :: "comba_op list" where
  "comba4_ops =
    [MulAcc 0 1, MulAcc 1 0,
     SaveMulAcc 1 2 0, MulAcc 1 1, MulAcc 0 2,
     SaveMulAcc 2 0 3, MulAcc 1 2, MulAcc 2 1, MulAcc 3 0,
     SaveMulAcc 3 3 1, MulAcc 2 2, MulAcc 1 3,
     SaveMulAcc 4 2 3, MulAcc 3 2]"

definition CombaMultiply4 :: "tuint list \<Rightarrow> tuint list \<Rightarrow> tuint list" where
  "CombaMultiply4 A B = comba_finish 4 A B (comba_run A B comba4_ops (comba_init 8 A B))"

definition comba8_ops :: "comba_op list" where
  "comba8_ops =
    [MulAcc 0 1, MulAcc 1 0,
     SaveMulAcc 1 2 0, MulAcc 1 1, MulAcc 0 2,
     SaveMulAcc 2 0 3, MulAcc 1 2, MulAcc 2 1, MulAcc 3 0,
     SaveMulAcc 3 0 4, MulAcc 1 3, MulAcc 2 2, MulAcc 3 1, MulAcc 4 0,
     SaveMulAcc 4 0 5, MulAcc 1 4, MulAcc 2 3, MulAcc 3 2, MulAcc 4 1, MulAcc 5 0,
     SaveMulAcc 5 0 6, MulAcc 1 5, MulAcc 2 4, MulAcc 3 3, MulAcc 4 2, MulAcc 5 1, MulAcc 6 0,
     SaveMulAcc 6 0 7, MulAcc 1 6, MulAcc 2 5, MulAcc 3 4, MulAcc 4 3, MulAcc 5 2, MulAcc 6 1,
       MulAcc 7 0,
     SaveMulAcc 7 1 7, MulAcc 2 6, MulAcc 3 5, MulAcc 4 4, MulAcc 5 3, MulAcc 6 2, MulAcc 7 1,
     SaveMulAcc 8 2 7, MulAcc 3 6, MulAcc 4 5, MulAcc 5 4, MulAcc 6 3, MulAcc 7 2,
     SaveMulAcc 9 3 7, MulAcc 4 6, MulAcc 5 5, MulAcc 6 4, MulAcc 7 3,
     SaveMulAcc 10 4 7, MulAcc 5 6, MulAcc 6 5, MulAcc 7 4,
     SaveMulAcc 11 5 7, MulAcc 6 6, MulAcc 7 5,
     SaveMulAcc 12 6 7, MulAcc 7 6]"

definition CombaMultiply8 :: "tuint list \<Rightarrow> tuint list \<Rightarrow> tuint list" where
  "CombaMultiply8 A B = comba_finish 8 A B (comba_run A B comba8_ops (comba_init 16 A B))"

definition comba_bottom4_ops :: "comba_op list" where
  "comba_bottom4_ops = [MulAcc 0 1, MulAcc 1 0, SaveMulAcc 1 2 0, MulAcc 1 1, MulAcc 0 2]"

definition CombaMultiplyBottom4 :: "tuint list \<Rightarrow> tuint list \<Rightarrow> tuint list" where
  "CombaMultiplyBottom4 A B =
     (case comba_run A B comba_bottom4_ops (comba_init 4 A B) of (R, c, d, e) \<Rightarrow>
        R[2 := c, 3 := d + A ! 0 * B ! 3 + A ! 1 * B ! 2 + A ! 2 * B ! 1 + A ! 3 * B ! 0])"

definition comba_bottom8_ops :: "comba_op list" where
  "comba_bottom8_ops =
    [MulAcc 0 1, MulAcc 1 0,
     SaveMulAcc 1 2 0, MulAcc 1 1, MulAcc 0 2,
     SaveMulAcc 2 0 3, MulAcc 1 2, MulAcc 2 1, MulAcc 3 0,
     SaveMulAcc 3 0 4, MulAcc 1 3, MulAcc 2 2, MulAcc 3 1, MulAcc 4 0,
     SaveMulAcc 4 0 5, MulAcc 1 4, MulAcc 2 3, MulAcc 3 2, MulAcc 4 1, MulAcc 5 0,
     SaveMulAcc 5 0 6, MulAcc 1 5, MulAcc 2 4, MulAcc 3 3, MulAcc 4 2, MulAcc 5 1, MulAcc 6 0]"

definition CombaMultiplyBottom8 :: "tuint list \<Rightarrow> tuint list \<Rightarrow> tuint list" where
  "CombaMultiplyBottom8 A B =
     (case comba_run A B comba_bottom8_ops (comba_init 8 A B) of (R, c, d, e) \<Rightarrow>
        R[6 := c,
          7 := d + A ! 0 * B ! 7 + A ! 1 * B ! 6 + A ! 2 * B ! 5 + A ! 3 * B ! 4
               + A ! 4 * B ! 3 + A ! 5 * B ! 2 + A ! 6 * B ! 1 + A ! 7 * B ! 0])"

subsection \<open>The two word products\<close>

text \<open>\<open>d\<close> is the product of the differences as the code computes it, \<open>s\<close> the correction of its high half.\<close>

lemma diff_product_val:
  assumes "diff_product a0 a1 b0 b1 = (d, s)"
  shows "uint d - 4294967296 * uint s = (uint a1 - uint a0) * (uint b0 - uint b1)"
proof -
  have sub: "uint (x - y) = uint x - uint y + (if y \<le> x then 0 else 4294967296)" for x y :: tuint
    by (simp add: uint_sub_wrap word_le_def)
  have mul: "uint (ucast x * ucast y :: dword) = uint x * uint y" for x y :: tuint
    by (rule uint_dword_mult)
  consider "a1 < a0" "b0 < b1" | "a1 < a0" "b1 \<le> b0" | "a0 \<le> a1" "b0 < b1" | "a0 \<le> a1" "b1 \<le> b0"
    by (meson not_le)
  then show ?thesis
  proof cases
    case 1
    then have "d = ucast (a0 - a1) * ucast (b1 - b0)" "s = 0"
      using assms by (auto simp: diff_product_def)
    then show ?thesis
      using 1 by (simp add: mul sub order_less_imp_le) (simp add: algebra_simps)
  next
    case 2
    then have "d = ucast (a1 - a0) * ucast (b0 - b1)" "s = b0 - b1"
      using assms by (auto simp: diff_product_def leD)
    then show ?thesis
      using 2 by (simp only: mul sub not_le [symmetric] if_False if_True) (simp add: distrib_right)
  next
    case 3
    then have "d = ucast (a1 - a0) * ucast (b0 - b1)" "s = a1 - a0"
      using assms by (auto simp: diff_product_def leD)
    then show ?thesis
      using 3 by (simp only: mul sub not_le [symmetric] if_False if_True) (simp add: distrib_left)
  next
    case 4
    then have "d = ucast (a1 - a0) * ucast (b0 - b1)" "s = 0"
      using assms by (auto simp: diff_product_def leD)
    then show ?thesis
      using 4 by (simp only: mul sub if_True) simp
  qed
qed

lemma uint_mult_bound: "uint (a :: tuint) * uint (b :: tuint) \<le> 18446744065119617025"
proof -
  have "uint a * uint b \<le> 4294967295 * 4294967295"
    by (rule mult_mono) (use uint_tuint_bounds [of a] uint_tuint_bounds [of b] in auto)
  then show ?thesis by simp
qed

lemma uint_dword_add_exact:
  "uint x + uint y < 18446744073709551616 \<Longrightarrow> uint (x + y :: dword) = uint x + uint y"
  by (simp add: uint_dword_arith mod_pos_pos_trivial)

lemma uint_dword_add4:
  "uint (ucast (a :: tuint) + ucast (b :: tuint) + ucast (c :: tuint) + ucast (d :: tuint) :: dword)
   = uint a + uint b + uint c + uint d"
  using uint_tuint_bounds [of a] uint_tuint_bounds [of b] uint_tuint_bounds [of c]
    uint_tuint_bounds [of d]
  by (subst uint_dword_add_exact; simp add: uint_dword_add3)

lemma product_bounds:
  assumes "0 \<le> a" and "a < base m" and "0 \<le> b" and "b < base n"
  shows "0 \<le> a * b" and "a * b < base (m + n)"
  using assms by (simp_all add: base_add mult_strict_mono)

lemma split_range:
  assumes "0 \<le> lo" and "lo < b" and "0 \<le> lo + b * t" and "lo + b * t < b * c"
  shows "0 \<le> t" and "t < (c :: int)"
proof -
  have b: "0 < b" using assms by linarith
  show "0 \<le> t"
  proof (rule ccontr)
    assume "\<not> 0 \<le> t"
    then have "b * t \<le> b * (- 1)" using b by (intro mult_left_mono) auto
    then show False using assms by simp
  qed
  show "t < c"
  proof (rule ccontr)
    assume "\<not> t < c"
    then have "b * c \<le> b * t" using b by (intro mult_left_mono) auto
    then show False using assms(1,4) by linarith
  qed
qed

lemma AtomicMultiply_words:
  "length (AtomicMultiply [a0, a1] [b0, b1]) = 4 \<and>
   val (AtomicMultiply [a0, a1] [b0, b1]) = val [a0, a1] * val [b0, b1]"
proof -
  obtain d s where ds: "diff_product a0 a1 b0 b1 = (d, s)" by fastforce
  define p0 :: dword where "p0 = ucast a0 * ucast b0"
  define p1 :: dword where "p1 = ucast a1 * ucast b1"
  define t1 :: dword where "t1 = ucast (HIGH_WORD p0) + ucast (LOW_WORD p0) + ucast (LOW_WORD d)
      + ucast (LOW_WORD p1)"
  define t2 :: dword where "t2 = p1 + ucast (HIGH_WORD t1) + ucast (HIGH_WORD p0)
      + ucast (HIGH_WORD d) + ucast (HIGH_WORD p1) - ucast s"
  have R: "AtomicMultiply [a0, a1] [b0, b1] = [LOW_WORD p0, LOW_WORD t1, LOW_WORD t2, HIGH_WORD t2]"
    by (simp add: ds p0_def p1_def t1_def t2_def Let_def)
  have p0: "uint p0 = uint a0 * uint b0" and p1: "uint p1 = uint a1 * uint b1"
    by (simp_all add: p0_def p1_def uint_dword_mult)
  have t1: "uint t1 = uint (HIGH_WORD p0) + uint (LOW_WORD p0) + uint (LOW_WORD d) + uint (LOW_WORD p1)"
    by (simp add: t1_def uint_dword_add4)
  define v where "v = uint p1 + uint (HIGH_WORD t1) + uint (HIGH_WORD p0) + uint (HIGH_WORD d)
      + uint (HIGH_WORD p1) - uint s"
  have t2: "uint t2 = v mod 18446744073709551616"
    by (simp add: t2_def v_def uint_dword_arith mod_simps)
  let ?lo = "uint (LOW_WORD p0) + 4294967296 * uint (LOW_WORD t1)"
  note sp = dword_split [of p0] dword_split [of p1] dword_split [of d] dword_split [of t1]
  have dv: "uint d = 4294967296 * uint s + (uint a1 - uint a0) * (uint b0 - uint b1)"
    using diff_product_val [OF ds] by linarith
  have "?lo + 18446744073709551616 * v = uint p0 + 4294967296 * (uint p0
      + (uint d - 4294967296 * uint s) + uint p1) + 18446744073709551616 * uint p1"
    using sp t1 unfolding v_def by (simp add: algebra_simps)
  also have "\<dots> = val [a0, a1] * val [b0, b1]"
    by (simp add: dv p0 p1 algebra_simps)
  finally have tot: "?lo + 18446744073709551616 * v = val [a0, a1] * val [b0, b1]" .
  have "0 \<le> val [a0, a1] * val [b0, b1]" "val [a0, a1] * val [b0, b1] < base (2 + 2)"
    by (rule product_bounds [of _ 2 _ 2]; use val_bound [of "[a0, a1]"] val_bound [of "[b0, b1]"]
        in \<open>simp add: numeral_2_eq_2\<close>)+
  then have "0 \<le> ?lo + 18446744073709551616 * v"
    "?lo + 18446744073709551616 * v < 18446744073709551616 * 18446744073709551616"
    by (simp_all only: tot) (simp add: base_def)
  moreover have "0 \<le> ?lo" "?lo < 18446744073709551616"
    using uint_tuint_bounds [of "LOW_WORD p0"] uint_tuint_bounds [of "LOW_WORD t1"] by simp_all
  ultimately have "0 \<le> v" "v < 18446744073709551616"
    using split_range [of ?lo 18446744073709551616 v] by blast+
  then have "uint t2 = v"
    by (simp add: t2 mod_pos_pos_trivial)
  then show ?thesis
    unfolding R using tot dword_split [of t2] by (simp add: algebra_simps)
qed


lemma length_2_obtain:
  assumes "2 \<le> length A"
  obtains a0 a1 A' where "A = a0 # a1 # A'" "take 2 A = [a0, a1]"
proof (cases A rule: list.exhaust)
  case (Cons a0 As)
  then show ?thesis
    using assms that by (cases As) auto
qed (use assms in simp)

lemma AtomicMultiply_val:
  assumes "2 \<le> length A" and "2 \<le> length B"
  shows "length (AtomicMultiply A B) = 4"
    and "val (AtomicMultiply A B) = val (take 2 A) * val (take 2 B)"
proof -
  obtain a0 a1 A' where A: "A = a0 # a1 # A'" "take 2 A = [a0, a1]"
    using assms(1) by (rule length_2_obtain)
  obtain b0 b1 B' where B: "B = b0 # b1 # B'" "take 2 B = [b0, b1]"
    using assms(2) by (rule length_2_obtain)
  have "AtomicMultiply A B = AtomicMultiply [a0, a1] [b0, b1]"
    by (simp add: A(1) B(1))
  then show "length (AtomicMultiply A B) = 4"
    and "val (AtomicMultiply A B) = val (take 2 A) * val (take 2 B)"
    using AtomicMultiply_words [of a0 a1 b0 b1] A(2) B(2) by simp_all
qed

lemma AtomicMultiplyBottom_val:
  assumes "2 \<le> length A" and "2 \<le> length B"
  shows "length (AtomicMultiplyBottom A B) = 2"
    and "val (AtomicMultiplyBottom A B) = (val (take 2 A) * val (take 2 B)) mod base 2"
proof -
  obtain a0 a1 A' where A: "A = a0 # a1 # A'" "take 2 A = [a0, a1]"
    using assms(1) by (rule length_2_obtain)
  obtain b0 b1 B' where B: "B = b0 # b1 # B'" "take 2 B = [b0, b1]"
    using assms(2) by (rule length_2_obtain)
  define t :: dword where "t = ucast a0 * ucast b0"
  define h where "h = uint (HIGH_WORD t) + uint a0 * uint b1 + uint a1 * uint b0"
  have R: "AtomicMultiplyBottom A B = [LOW_WORD t, HIGH_WORD t + a0 * b1 + a1 * b0]"
    by (simp add: A(1) B(1) t_def Let_def)
  have hi: "uint (HIGH_WORD t + a0 * b1 + a1 * b0) = h mod 4294967296"
    by (simp add: h_def uint_tuint_arith mod_simps)
  have b2: "base 2 = 4294967296 * 4294967296"
    by (simp add: numeral_2_eq_2)
  have t: "uint t = uint a0 * uint b0"
    by (simp add: t_def uint_dword_mult)
  have "val (take 2 A) * val (take 2 B)
      = uint (LOW_WORD t) + 4294967296 * h + base 2 * (uint a1 * uint b1)"
    using dword_split [of t] t by (simp add: A(2) B(2) h_def b2 algebra_simps)
  then have "(val (take 2 A) * val (take 2 B)) mod base 2
      = (uint (LOW_WORD t) + 4294967296 * h) mod base 2"
    by simp
  also have "uint (LOW_WORD t) + 4294967296 * h
      = (uint (LOW_WORD t) + 4294967296 * (h mod 4294967296)) + base 2 * (h div 4294967296)"
    using div_mult_mod_eq [of h 4294967296] unfolding b2 by linarith
  also have "\<dots> mod base 2 = (uint (LOW_WORD t) + 4294967296 * (h mod 4294967296)) mod base 2"
    by simp
  also have "\<dots> = uint (LOW_WORD t) + 4294967296 * (h mod 4294967296)"
  proof (rule mod_pos_pos_trivial)
    have "h mod 4294967296 \<le> 4294967295" by simp
    then show "uint (LOW_WORD t) + 4294967296 * (h mod 4294967296) < base 2"
      using uint_tuint_bounds [of "LOW_WORD t"] unfolding b2 by linarith
  qed simp
  finally show "val (AtomicMultiplyBottom A B) = (val (take 2 A) * val (take 2 B)) mod base 2"
    by (simp add: R hi)
  show "length (AtomicMultiplyBottom A B) = 2"
    by (simp add: R)
qed

subsection \<open>The column accumulator\<close>

definition acc_val :: "tuint \<Rightarrow> tuint \<Rightarrow> tuint \<Rightarrow> int" where
  "acc_val c d e = uint c + 4294967296 * uint d + 18446744073709551616 * uint e"

text \<open>The weight of the products a sequence of macros adds, column \<open>k\<close> being the current one.\<close>

fun comba_weight :: "tuint list \<Rightarrow> tuint list \<Rightarrow> nat \<Rightarrow> comba_op list \<Rightarrow> int" where
  "comba_weight A B k [] = 0"
| "comba_weight A B k (MulAcc x y # xs) =
     base k * (uint (A ! x) * uint (B ! y)) + comba_weight A B k xs"
| "comba_weight A B k (SaveMulAcc s x y # xs) =
     base (Suc k) * (uint (A ! x) * uint (B ! y)) + comba_weight A B (Suc k) xs"

text \<open>\<open>m\<close> bounds the number of products in the accumulator; each save goes to the current column.\<close>

fun comba_ok :: "int \<Rightarrow> nat \<Rightarrow> comba_op list \<Rightarrow> bool" where
  "comba_ok m k [] = (m < 4294967296)"
| "comba_ok m k (MulAcc x y # xs) = (m < 4294967295 \<and> comba_ok (m + 1) k xs)"
| "comba_ok m k (SaveMulAcc s x y # xs) = (s = k \<and> comba_ok 2 (Suc k) xs)"

fun comba_columns :: "nat \<Rightarrow> comba_op list \<Rightarrow> nat" where
  "comba_columns k [] = k"
| "comba_columns k (MulAcc x y # xs) = comba_columns k xs"
| "comba_columns k (SaveMulAcc s x y # xs) = comba_columns (Suc k) xs"

lemma acc_val_MulAcc:
  fixes a b c d e :: tuint
  defines "p \<equiv> (ucast a * ucast b + ucast c :: dword)"
  defines "q \<equiv> (ucast d + ucast (HIGH_WORD p) :: dword)"
  assumes "acc_val c d e < m * 18446744073709551616" and "m < 4294967295"
  shows "acc_val (LOW_WORD p) (LOW_WORD q) (e + HIGH_WORD q) = acc_val c d e + uint a * uint b"
    and "acc_val c d e + uint a * uint b < (m + 1) * 18446744073709551616"
proof -
  have p: "uint p = uint a * uint b + uint c"
    unfolding p_def by (rule uint_dword_mult_add)
  have q: "uint q = uint d + uint (HIGH_WORD p)"
    unfolding q_def using uint_dword_add3 [of d "HIGH_WORD p" 0] by simp
  have sum: "uint (LOW_WORD p) + 4294967296 * uint (LOW_WORD q)
      + 18446744073709551616 * (uint e + uint (HIGH_WORD q)) = acc_val c d e + uint a * uint b"
    using dword_split [of p] dword_split [of q] p q unfolding acc_val_def distrib_left by linarith
  show bnd: "acc_val c d e + uint a * uint b < (m + 1) * 18446744073709551616"
    using assms(3) uint_mult_bound [of a b] by (simp add: distrib_right)
  then have "uint e + uint (HIGH_WORD q) < 4294967296"
    using sum assms(4) uint_ge_0 [of "LOW_WORD p"] uint_ge_0 [of "LOW_WORD q"]
    unfolding distrib_right distrib_left by linarith
  then have "uint (e + HIGH_WORD q) = uint e + uint (HIGH_WORD q)"
    by (simp add: uint_tuint_arith mod_pos_pos_trivial)
  then show "acc_val (LOW_WORD p) (LOW_WORD q) (e + HIGH_WORD q) = acc_val c d e + uint a * uint b"
    using sum by (simp add: acc_val_def)
qed

lemma acc_val_SaveMulAcc:
  fixes a b c d e :: tuint
  defines "p \<equiv> (ucast a * ucast b + ucast d :: dword)"
  defines "q \<equiv> (ucast e + ucast (HIGH_WORD p) :: dword)"
  shows "uint c + 4294967296 * acc_val (LOW_WORD p) (LOW_WORD q) (HIGH_WORD q)
       = acc_val c d e + 4294967296 * (uint a * uint b)"
    and "acc_val (LOW_WORD p) (LOW_WORD q) (HIGH_WORD q) < 2 * 18446744073709551616"
proof -
  have p: "uint p = uint a * uint b + uint d"
    unfolding p_def by (rule uint_dword_mult_add)
  have q: "uint q = uint e + uint (HIGH_WORD p)"
    unfolding q_def using uint_dword_add3 [of e "HIGH_WORD p" 0] by simp
  have v: "acc_val (LOW_WORD p) (LOW_WORD q) (HIGH_WORD q)
      = uint d + 4294967296 * uint e + uint a * uint b"
    using dword_split [of p] dword_split [of q] p q unfolding acc_val_def by linarith
  then show "uint c + 4294967296 * acc_val (LOW_WORD p) (LOW_WORD q) (HIGH_WORD q)
       = acc_val c d e + 4294967296 * (uint a * uint b)"
    by (simp add: acc_val_def algebra_simps)
  show "acc_val (LOW_WORD p) (LOW_WORD q) (HIGH_WORD q) < 2 * 18446744073709551616"
    using v uint_mult_bound [of a b] uint_tuint_bounds [of d] uint_tuint_bounds [of e] by linarith
qed

lemma take_Suc_update_val:
  assumes "k < length R"
  shows "val (take (Suc k) (R[k := c])) = val (take k R) + base k * uint c"
  using assms by (simp add: take_Suc_val)

lemma comba_run_val:
  assumes "comba_run A B ops (R, c, d, e) = (R', c', d', e')"
    and "comba_ok m k ops" and "acc_val c d e < m * 18446744073709551616"
    and "comba_columns k ops \<le> length R"
  shows "length R' = length R \<and>
    val (take (comba_columns k ops) R') + base (comba_columns k ops) * acc_val c' d' e'
      = val (take k R) + base k * acc_val c d e + comba_weight A B k ops"
  using assms
proof (induction ops arbitrary: R c d e m k)
  case (Cons op ops)
  show ?case
  proof (cases op)
    case (MulAcc x y)
    have m: "m < 4294967295" and ok: "comba_ok (m + 1) k ops" and col: "comba_columns k ops \<le> length R"
      using Cons.prems MulAcc by simp_all
    define p :: dword where "p = ucast (A ! x) * ucast (B ! y) + ucast c"
    define q :: dword where "q = ucast d + ucast (HIGH_WORD p)"
    note acc = acc_val_MulAcc [where a = "A ! x" and b = "B ! y", OF Cons.prems(3) m,
        folded p_def, folded q_def]
    have run: "comba_run A B ops (R, LOW_WORD p, LOW_WORD q, e + HIGH_WORD q) = (R', c', d', e')"
      using Cons.prems(1) MulAcc by (simp add: p_def q_def Let_def)
    show ?thesis
      using Cons.IH [OF run ok _ col] acc MulAcc by (simp add: distrib_left)
  next
    case (SaveMulAcc s x y)
    have s: "s = k" and ok: "comba_ok 2 (Suc k) ops" and col: "comba_columns (Suc k) ops \<le> length R"
      using Cons.prems SaveMulAcc by simp_all
    have mono: "j \<le> comba_columns j xs" for j xs
      by (induction j xs rule: comba_columns.induct) auto
    have k: "k < length R"
      using col mono [of "Suc k" ops] by linarith
    define p :: dword where "p = ucast (A ! x) * ucast (B ! y) + ucast d"
    define q :: dword where "q = ucast e + ucast (HIGH_WORD p)"
    note acc = acc_val_SaveMulAcc(1) [where a = "A ! x" and b = "B ! y" and d = d and e = e and c = c,
        folded p_def, folded q_def]
      acc_val_SaveMulAcc(2) [where a = "A ! x" and b = "B ! y" and d = d and e = e,
        folded p_def, folded q_def]
    have run: "comba_run A B ops (R[k := c], LOW_WORD p, LOW_WORD q, HIGH_WORD q) = (R', c', d', e')"
      using Cons.prems(1) SaveMulAcc s by (simp add: p_def q_def Let_def)
    have ih: "length R' = length (R[k := c]) \<and>
      val (take (comba_columns (Suc k) ops) R') + base (comba_columns (Suc k) ops) * acc_val c' d' e'
        = val (take (Suc k) (R[k := c]))
          + base (Suc k) * acc_val (LOW_WORD p) (LOW_WORD q) (HIGH_WORD q)
          + comba_weight A B (Suc k) ops"
      using Cons.IH [OF run ok acc(2)] col by simp
    have "val (take (Suc k) (R[k := c])) + base (Suc k) * acc_val (LOW_WORD p) (LOW_WORD q) (HIGH_WORD q)
        = val (take k R) + base k * (uint c + 4294967296 * acc_val (LOW_WORD p) (LOW_WORD q) (HIGH_WORD q))"
      using k by (simp add: take_Suc_update_val distrib_left)
    also have "\<dots> = val (take k R) + base k * acc_val c d e
        + base (Suc k) * (uint (A ! x) * uint (B ! y))"
      unfolding acc(1) by (simp add: distrib_left)
    finally show ?thesis
      using ih SaveMulAcc by simp
  qed
qed auto


lemma comba_init_val:
  assumes "comba_init L A B = (R, c, d, e)" and "0 < L"
  shows "length R = L" and "acc_val c d e < 1 * 18446744073709551616"
    and "val (take 1 R) + base 1 * acc_val c d e = uint (A ! 0) * uint (B ! 0)"
proof -
  define p :: dword where "p = ucast (A ! 0) * ucast (B ! 0)"
  have st: "R = (replicate L 0)[0 := LOW_WORD p]" "c = HIGH_WORD p" "d = 0" "e = 0"
    using assms(1) by (simp_all add: comba_init_def p_def Let_def)
  show "length R = L"
    by (simp add: st)
  show "acc_val c d e < 1 * 18446744073709551616"
    using uint_tuint_bounds [of "HIGH_WORD p"] by (simp add: acc_val_def st)
  obtain L' where "L = Suc L'"
    using assms(2) by (cases L) auto
  then show "val (take 1 R) + base 1 * acc_val c d e = uint (A ! 0) * uint (B ! 0)"
    using dword_split [of p] by (simp add: st acc_val_def p_def uint_dword_mult)
qed

lemma take_3_update:
  assumes "length R = k + 3"
  shows "R[k := x, k + 1 := y, k + 2 := z] = take k R @ [x, y, z]"
proof (rule nth_equalityI)
  fix i assume "i < length (R[k := x, k + 1 := y, k + 2 := z])"
  then consider "i < k" | "i = k" | "i = k + 1" | "i = k + 2"
    using assms by fastforce
  then show "R[k := x, k + 1 := y, k + 2 := z] ! i = (take k R @ [x, y, z]) ! i"
    by cases (use assms in \<open>auto simp: nth_append\<close>)
qed (use assms in simp)

lemma take_2_update:
  assumes "length R = k + 2"
  shows "R[k := x, k + 1 := y] = take k R @ [x, y]"
proof (rule nth_equalityI)
  fix i assume "i < length (R[k := x, k + 1 := y])"
  then consider "i < k" | "i = k" | "i = k + 1"
    using assms by fastforce
  then show "R[k := x, k + 1 := y] ! i = (take k R @ [x, y]) ! i"
    by cases (use assms in \<open>auto simp: nth_append\<close>)
qed (use assms in simp)

text \<open>
  The last lines write the final three words: exact, because the whole product fits \<open>2 n\<close>
  words.
\<close>

lemma comba_finish_val:
  assumes "length R = 2 * n" and "2 \<le> n"
    and "val (take (2 * n - 3) R) + base (2 * n - 3) * acc_val c d e
         + base (2 * n - 2) * (uint (A ! (n - 1)) * uint (B ! (n - 1))) = P"
    and "P < base (2 * n)"
  shows "length (comba_finish n A B (R, c, d, e)) = 2 * n"
    and "val (comba_finish n A B (R, c, d, e)) = P"
proof -
  define p :: dword where "p = ucast (A ! (n - 1)) * ucast (B ! (n - 1)) + ucast d"
  obtain k where k: "2 * n = k + 3"
    using that [of "2 * n - 3"] assms(2) by simp
  have idx: "2 * n - 3 = k" "2 * n - 2 = k + 1" "2 * n - 1 = k + 2"
    using k by simp_all
  have F: "comba_finish n A B (R, c, d, e) = take k R @ [c, LOW_WORD p, e + HIGH_WORD p]"
    using take_3_update [of R k] assms(1) k by (simp add: comba_finish_def p_def idx Let_def)
  show "length (comba_finish n A B (R, c, d, e)) = 2 * n"
    using F assms(1) k by simp
  have p: "uint p = uint (A ! (n - 1)) * uint (B ! (n - 1)) + uint d"
    by (simp add: p_def uint_dword_mult_add)
  have b: "base (k + 1) = 4294967296 * base k" "base (k + 3) = 79228162514264337593543950336 * base k"
    by (simp_all only: base_add) (simp_all add: base_def)
  have "P = val (take k R) + base k * (uint c + 4294967296 * (uint p + 4294967296 * uint e))"
    using assms(3) unfolding idx b acc_val_def p by (simp add: algebra_simps)
  then have P: "P = val (take k R) + base k * (uint c + 4294967296 * uint (LOW_WORD p)
      + 18446744073709551616 * (uint e + uint (HIGH_WORD p)))"
    using dword_split [of p] by (simp add: algebra_simps)
  have "uint e + uint (HIGH_WORD p) < 4294967296"
  proof (rule ccontr)
    assume "\<not> ?thesis"
    then have "79228162514264337593543950336 \<le> uint c + 4294967296 * uint (LOW_WORD p)
      + 18446744073709551616 * (uint e + uint (HIGH_WORD p))"
      using uint_ge_0 [of c] uint_ge_0 [of "LOW_WORD p"] unfolding distrib_left by linarith
    then have "base k * 79228162514264337593543950336 \<le> base k * (uint c + 4294967296 * uint (LOW_WORD p)
      + 18446744073709551616 * (uint e + uint (HIGH_WORD p)))"
      by (intro mult_left_mono) auto
    then show False
      using assms(4) P val_nonneg [of "take k R"] unfolding k b by linarith
  qed
  then have "uint (e + HIGH_WORD p) = uint e + uint (HIGH_WORD p)"
    by (simp add: uint_tuint_arith mod_pos_pos_trivial)
  then show "val (comba_finish n A B (R, c, d, e)) = P"
    using assms(1) k by (simp add: F P array_simps)
qed


lemma take_4_obtain:
  assumes "4 \<le> length A"
  obtains a0 a1 a2 a3 A' where "A = a0 # a1 # a2 # a3 # A'"
proof -
  obtain a0 a1 A1 where A1: "A = a0 # a1 # A1"
    using assms length_2_obtain [of A] by force
  moreover obtain a2 a3 A2 where "A1 = a2 # a3 # A2"
    using assms A1 length_2_obtain [of A1] by force
  ultimately show ?thesis using that by simp
qed

lemma take_8_obtain:
  assumes "8 \<le> length A"
  obtains a0 a1 a2 a3 a4 a5 a6 a7 A' where "A = a0 # a1 # a2 # a3 # a4 # a5 # a6 # a7 # A'"
proof -
  obtain a0 a1 a2 a3 A1 where A1: "A = a0 # a1 # a2 # a3 # A1"
    using assms by (elim take_4_obtain [of A, rotated]) simp_all
  moreover obtain a4 a5 a6 a7 A2 where "A1 = a4 # a5 # a6 # a7 # A2"
    using assms A1 by (elim take_4_obtain [of A1, rotated]) simp_all
  ultimately show ?thesis using that by simp
qed

lemma product_4:
  assumes "4 \<le> length A" and "4 \<le> length B"
  shows "val (take 4 A) * val (take 4 B)
    = uint (A ! 0) * uint (B ! 0) + comba_weight A B 1 comba4_ops + base 6 * (uint (A ! 3) * uint (B ! 3))"
proof -
  obtain a0 a1 a2 a3 A' where A: "A = a0 # a1 # a2 # a3 # A'"
    using assms(1) by (rule take_4_obtain)
  obtain b0 b1 b2 b3 B' where B: "B = b0 # b1 # b2 # b3 # B'"
    using assms(2) by (rule take_4_obtain)
  define X :: int where "X = 4294967296"
  have base: "base n = X ^ n" for n
    by (simp add: base_def X_def)
  have vA: "val (take 4 A) = uint a0 + X * (uint a1 + X * (uint a2 + X * uint a3))"
    and vB: "val (take 4 B) = uint b0 + X * (uint b1 + X * (uint b2 + X * uint b3))"
    by (simp_all add: A B X_def)
  show ?thesis
    unfolding vA vB comba4_ops_def comba_weight.simps base
    by (simp add: A B) (simp add: algebra_simps power_numeral_reduce power2_eq_square)
qed

lemma CombaMultiply4_val:
  assumes "4 \<le> length A" and "4 \<le> length B"
  shows "length (CombaMultiply4 A B) = 8"
    and "val (CombaMultiply4 A B) = val (take 4 A) * val (take 4 B)"
proof -
  obtain R0 c0 d0 e0 where i: "comba_init 8 A B = (R0, c0, d0, e0)"
    by (metis prod_cases4)
  obtain R c d e where r: "comba_run A B comba4_ops (R0, c0, d0, e0) = (R, c, d, e)"
    by (metis prod_cases4)
  note init = comba_init_val [OF i]
  have ok: "comba_ok 1 1 comba4_ops" and col: "comba_columns 1 comba4_ops = 5"
    by (simp_all add: comba4_ops_def)
  have run: "length R = 8 \<and> val (take 5 R) + base 5 * acc_val c d e
      = uint (A ! 0) * uint (B ! 0) + comba_weight A B 1 comba4_ops"
    using comba_run_val [OF r ok init(2)] init(1,3) unfolding col by simp
  have "val (take 4 A) * val (take 4 B) < base (4 + 4)"
    by (rule product_bounds(2)) (use assms in \<open>auto intro!: val_bound_eq\<close>)
  then have "val (take 4 A) * val (take 4 B) < base (2 * 4)" by simp
  note fin = comba_finish_val [of R 4 c d e A B "val (take 4 A) * val (take 4 B)", OF _ _ _ this]
  show "length (CombaMultiply4 A B) = 8"
    and "val (CombaMultiply4 A B) = val (take 4 A) * val (take 4 B)"
    using fin run product_4 [OF assms] by (simp_all add: CombaMultiply4_def i r)
qed

lemma product_8:
  assumes "8 \<le> length A" and "8 \<le> length B"
  shows "val (take 8 A) * val (take 8 B)
    = uint (A ! 0) * uint (B ! 0) + comba_weight A B 1 comba8_ops + base 14 * (uint (A ! 7) * uint (B ! 7))"
proof -
  obtain a0 a1 a2 a3 a4 a5 a6 a7 A' where A: "A = a0 # a1 # a2 # a3 # a4 # a5 # a6 # a7 # A'"
    using assms(1) by (rule take_8_obtain)
  obtain b0 b1 b2 b3 b4 b5 b6 b7 B' where B: "B = b0 # b1 # b2 # b3 # b4 # b5 # b6 # b7 # B'"
    using assms(2) by (rule take_8_obtain)
  define X :: int where "X = 4294967296"
  have base: "base n = X ^ n" for n
    by (simp add: base_def X_def)
  have vA: "val (take 8 A) = uint a0 + X * (uint a1 + X * (uint a2 + X * (uint a3
      + X * (uint a4 + X * (uint a5 + X * (uint a6 + X * uint a7))))))"
    and vB: "val (take 8 B) = uint b0 + X * (uint b1 + X * (uint b2 + X * (uint b3
      + X * (uint b4 + X * (uint b5 + X * (uint b6 + X * uint b7))))))"
    by (simp_all add: A B X_def)
  show ?thesis
    unfolding vA vB comba8_ops_def comba_weight.simps base
    by (simp add: A B) (simp add: algebra_simps power_numeral_reduce power2_eq_square)
qed

lemma CombaMultiply8_val:
  assumes "8 \<le> length A" and "8 \<le> length B"
  shows "length (CombaMultiply8 A B) = 16"
    and "val (CombaMultiply8 A B) = val (take 8 A) * val (take 8 B)"
proof -
  obtain R0 c0 d0 e0 where i: "comba_init 16 A B = (R0, c0, d0, e0)"
    by (metis prod_cases4)
  obtain R c d e where r: "comba_run A B comba8_ops (R0, c0, d0, e0) = (R, c, d, e)"
    by (metis prod_cases4)
  note init = comba_init_val [OF i]
  have ok: "comba_ok 1 1 comba8_ops" and col: "comba_columns 1 comba8_ops = 13"
    by (simp_all add: comba8_ops_def)
  have run: "length R = 16 \<and> val (take 13 R) + base 13 * acc_val c d e
      = uint (A ! 0) * uint (B ! 0) + comba_weight A B 1 comba8_ops"
    using comba_run_val [OF r ok init(2)] init(1,3) unfolding col by simp
  have "val (take 8 A) * val (take 8 B) < base (8 + 8)"
    by (rule product_bounds(2)) (use assms in \<open>auto intro!: val_bound_eq\<close>)
  then have "val (take 8 A) * val (take 8 B) < base (2 * 8)" by simp
  note fin = comba_finish_val [of R 8 c d e A B "val (take 8 A) * val (take 8 B)", OF _ _ _ this]
  show "length (CombaMultiply8 A B) = 16"
    and "val (CombaMultiply8 A B) = val (take 8 A) * val (take 8 B)"
    using fin run product_8 [OF assms] by (simp_all add: CombaMultiply8_def i r)
qed


subsection \<open>Lower halves\<close>

lemma mod_base_unique:
  assumes "0 \<le> r" and "r < base n" and "T = r + base n * q"
  shows "T mod base n = r"
  using assms by (simp add: mod_pos_pos_trivial)

lemma comba_bottom_finish:
  assumes "length R = n" and "2 \<le> n"
    and "T = val (take (n - 2) R) + base (n - 2) * acc_val c d e + base (n - 1) * S + base n * K"
    and "uint w = (uint d + S) mod 4294967296"
  shows "length (R[n - 2 := c, n - 1 := w]) = n"
    and "val (R[n - 2 := c, n - 1 := w]) = T mod base n"
proof -
  obtain k where k: "n = k + 2"
    using that [of "n - 2"] assms(2) by simp
  have idx: "n - 2 = k" "n - 1 = k + 1"
    using k by simp_all
  have R: "R[n - 2 := c, n - 1 := w] = take k R @ [c, w]"
    using take_2_update [of R k] assms(1) k by (simp add: idx)
  show len: "length (R[n - 2 := c, n - 1 := w]) = n"
    using assms(1) by simp
  have lk: "length (take k R) = k"
    using assms(1) k by simp
  have b: "base (k + 1) = 4294967296 * base k" "base (k + 2) = 18446744073709551616 * base k"
    by (simp_all only: base_add) (simp_all add: base_def)
  obtain q where dS: "uint d + S = uint w + 4294967296 * q"
    using assms(4) mult_div_mod_eq [of 4294967296 "uint d + S"] that by (metis add.commute)
  have v: "val (R[n - 2 := c, n - 1 := w]) = val (take k R) + base k * (uint c + 4294967296 * uint w)"
    unfolding R val_append lk by simp
  have "T = val (take k R) + base k * (uint c + 4294967296 * (uint d + S))
      + base n * (uint e + K)"
    using assms(3) unfolding idx b acc_val_def k by (simp add: algebra_simps)
  also have "\<dots> = val (R[n - 2 := c, n - 1 := w]) + base n * (uint e + K + q)"
    unfolding dS v unfolding k b by (simp add: algebra_simps)
  finally show "val (R[n - 2 := c, n - 1 := w]) = T mod base n"
    using mod_base_unique [of "val (R[n - 2 := c, n - 1 := w])" n T] val_bound_eq [OF len] by simp
qed

lemma product_bottom4:
  assumes "4 \<le> length A" and "4 \<le> length B"
  shows "\<exists>K. val (take 4 A) * val (take 4 B)
    = uint (A ! 0) * uint (B ! 0) + comba_weight A B 1 comba_bottom4_ops
      + base 3 * (uint (A ! 0) * uint (B ! 3) + uint (A ! 1) * uint (B ! 2)
                  + uint (A ! 2) * uint (B ! 1) + uint (A ! 3) * uint (B ! 0)) + base 4 * K"
proof -
  obtain a0 a1 a2 a3 A' where A: "A = a0 # a1 # a2 # a3 # A'"
    using assms(1) by (rule take_4_obtain)
  obtain b0 b1 b2 b3 B' where B: "B = b0 # b1 # b2 # b3 # B'"
    using assms(2) by (rule take_4_obtain)
  define X :: int where "X = 4294967296"
  have base: "base n = X ^ n" for n
    by (simp add: base_def X_def)
  have vA: "val (take 4 A) = uint a0 + X * (uint a1 + X * (uint a2 + X * uint a3))"
    and vB: "val (take 4 B) = uint b0 + X * (uint b1 + X * (uint b2 + X * uint b3))"
    by (simp_all add: A B X_def)
  show ?thesis
    unfolding vA vB comba_bottom4_ops_def comba_weight.simps base
    by (intro exI [of _ "uint a1 * uint b3 + uint a2 * uint b2 + uint a3 * uint b1
        + X * (uint a2 * uint b3 + uint a3 * uint b2) + X * X * (uint a3 * uint b3)"],
      simp add: A B, simp add: algebra_simps power_numeral_reduce power2_eq_square)
qed

lemma CombaMultiplyBottom4_val:
  assumes "4 \<le> length A" and "4 \<le> length B"
  shows "length (CombaMultiplyBottom4 A B) = 4"
    and "val (CombaMultiplyBottom4 A B) = (val (take 4 A) * val (take 4 B)) mod base 4"
proof -
  obtain R0 c0 d0 e0 where i: "comba_init 4 A B = (R0, c0, d0, e0)"
    by (metis prod_cases4)
  obtain R c d e where r: "comba_run A B comba_bottom4_ops (R0, c0, d0, e0) = (R, c, d, e)"
    by (metis prod_cases4)
  note init = comba_init_val [OF i]
  have ok: "comba_ok 1 1 comba_bottom4_ops" and col: "comba_columns 1 comba_bottom4_ops = 2"
    by (simp_all add: comba_bottom4_ops_def)
  have run: "length R = 4 \<and> val (take 2 R) + base 2 * acc_val c d e
      = uint (A ! 0) * uint (B ! 0) + comba_weight A B 1 comba_bottom4_ops"
    using comba_run_val [OF r ok init(2)] init(1,3) unfolding col by simp
  let ?w = "d + A ! 0 * B ! 3 + A ! 1 * B ! 2 + A ! 2 * B ! 1 + A ! 3 * B ! 0"
  let ?S = "uint (A ! 0) * uint (B ! 3) + uint (A ! 1) * uint (B ! 2)
                  + uint (A ! 2) * uint (B ! 1) + uint (A ! 3) * uint (B ! 0)"
  have w: "uint ?w = (uint d + ?S) mod 4294967296"
    by (simp add: uint_tuint_arith mod_simps add.assoc)
  have R: "CombaMultiplyBottom4 A B = R[4 - 2 := c, 4 - 1 := ?w]"
    by (simp add: CombaMultiplyBottom4_def i r)
  obtain K where "val (take 4 A) * val (take 4 B) = val (take (4 - 2) R) + base (4 - 2) * acc_val c d e
      + base (4 - 1) * ?S + base 4 * K"
    using product_bottom4 [OF assms] run by auto
  note fin = comba_bottom_finish [OF _ _ this w]
  show "length (CombaMultiplyBottom4 A B) = 4"
    and "val (CombaMultiplyBottom4 A B) = (val (take 4 A) * val (take 4 B)) mod base 4"
    using fin run unfolding R by simp_all
qed

text \<open>The eight word lower half, with the coefficient of each higher column named.\<close>

lemma product_bottom8:
  assumes "8 \<le> length A" and "8 \<le> length B"
  shows "\<exists>K. val (take 8 A) * val (take 8 B)
    = uint (A ! 0) * uint (B ! 0) + comba_weight A B 1 comba_bottom8_ops
      + base 7 * (uint (A ! 0) * uint (B ! 7) + uint (A ! 1) * uint (B ! 6)
                  + uint (A ! 2) * uint (B ! 5) + uint (A ! 3) * uint (B ! 4)
                  + uint (A ! 4) * uint (B ! 3) + uint (A ! 5) * uint (B ! 2)
                  + uint (A ! 6) * uint (B ! 1) + uint (A ! 7) * uint (B ! 0)) + base 8 * K"
proof -
  obtain a0 a1 a2 a3 a4 a5 a6 a7 A' where A: "A = a0 # a1 # a2 # a3 # a4 # a5 # a6 # a7 # A'"
    using assms(1) by (rule take_8_obtain)
  obtain b0 b1 b2 b3 b4 b5 b6 b7 B' where B: "B = b0 # b1 # b2 # b3 # b4 # b5 # b6 # b7 # B'"
    using assms(2) by (rule take_8_obtain)
  define X :: int where "X = 4294967296"
  have base: "base n = X ^ n" for n
    by (simp add: base_def X_def)
  have vA: "val (take 8 A) = uint a0 + X * (uint a1 + X * (uint a2 + X * (uint a3
      + X * (uint a4 + X * (uint a5 + X * (uint a6 + X * uint a7))))))"
    and vB: "val (take 8 B) = uint b0 + X * (uint b1 + X * (uint b2 + X * (uint b3
      + X * (uint b4 + X * (uint b5 + X * (uint b6 + X * uint b7))))))"
    by (simp_all add: A B X_def)
  show ?thesis
    unfolding vA vB comba_bottom8_ops_def comba_weight.simps base
    by (intro exI [of _
        "uint a1 * uint b7 + uint a2 * uint b6 + uint a3 * uint b5 + uint a4 * uint b4
          + uint a5 * uint b3 + uint a6 * uint b2 + uint a7 * uint b1
        + X * (uint a2 * uint b7 + uint a3 * uint b6 + uint a4 * uint b5 + uint a5 * uint b4
          + uint a6 * uint b3 + uint a7 * uint b2)
        + X ^ 2 * (uint a3 * uint b7 + uint a4 * uint b6 + uint a5 * uint b5 + uint a6 * uint b4
          + uint a7 * uint b3)
        + X ^ 3 * (uint a4 * uint b7 + uint a5 * uint b6 + uint a6 * uint b5 + uint a7 * uint b4)
        + X ^ 4 * (uint a5 * uint b7 + uint a6 * uint b6 + uint a7 * uint b5)
        + X ^ 5 * (uint a6 * uint b7 + uint a7 * uint b6)
        + X ^ 6 * (uint a7 * uint b7)"],
      simp add: A B, simp add: algebra_simps power_numeral_reduce power2_eq_square)
qed

lemma CombaMultiplyBottom8_val:
  assumes "8 \<le> length A" and "8 \<le> length B"
  shows "length (CombaMultiplyBottom8 A B) = 8"
    and "val (CombaMultiplyBottom8 A B) = (val (take 8 A) * val (take 8 B)) mod base 8"
proof -
  obtain R0 c0 d0 e0 where i: "comba_init 8 A B = (R0, c0, d0, e0)"
    by (metis prod_cases4)
  obtain R c d e where r: "comba_run A B comba_bottom8_ops (R0, c0, d0, e0) = (R, c, d, e)"
    by (metis prod_cases4)
  note init = comba_init_val [OF i]
  have ok: "comba_ok 1 1 comba_bottom8_ops" and col: "comba_columns 1 comba_bottom8_ops = 6"
    by (simp_all add: comba_bottom8_ops_def)
  have run: "length R = 8 \<and> val (take 6 R) + base 6 * acc_val c d e
      = uint (A ! 0) * uint (B ! 0) + comba_weight A B 1 comba_bottom8_ops"
    using comba_run_val [OF r ok init(2)] init(1,3) unfolding col by simp
  let ?w = "d + A ! 0 * B ! 7 + A ! 1 * B ! 6 + A ! 2 * B ! 5 + A ! 3 * B ! 4
               + A ! 4 * B ! 3 + A ! 5 * B ! 2 + A ! 6 * B ! 1 + A ! 7 * B ! 0"
  let ?S = "uint (A ! 0) * uint (B ! 7) + uint (A ! 1) * uint (B ! 6)
                  + uint (A ! 2) * uint (B ! 5) + uint (A ! 3) * uint (B ! 4)
                  + uint (A ! 4) * uint (B ! 3) + uint (A ! 5) * uint (B ! 2)
                  + uint (A ! 6) * uint (B ! 1) + uint (A ! 7) * uint (B ! 0)"
  have w: "uint ?w = (uint d + ?S) mod 4294967296"
    by (simp add: uint_tuint_arith mod_simps add.assoc)
  have R: "CombaMultiplyBottom8 A B = R[8 - 2 := c, 8 - 1 := ?w]"
    by (simp add: CombaMultiplyBottom8_def i r)
  obtain K where "val (take 8 A) * val (take 8 B) = val (take (8 - 2) R) + base (8 - 2) * acc_val c d e
      + base (8 - 1) * ?S + base 8 * K"
    using product_bottom8 [OF assms] run by auto
  note fin = comba_bottom_finish [OF _ _ this w]
  show "length (CombaMultiplyBottom8 A B) = 8"
    and "val (CombaMultiplyBottom8 A B) = (val (take 8 A) * val (take 8 B)) mod base 8"
    using fin run unfolding R by simp_all
qed

end
