(* ===== verification/Karatsuba.thy ===== *)
theory Karatsuba
  imports Multiply
begin

section \<open>Recursive multiplication\<close>

text \<open>
  The size generic routines of \<open>bigint/algorithms.cpp\<close>: Karatsuba multiplication and
  squaring, the lower half and (given the lower half) the upper half of a product, and the
  product of operands of different sizes.  All sizes are powers of two, as the integer
  class rounds them (\<open>RoundupSize\<close>); \<open>pow2_size\<close> is that condition.
\<close>

subsection \<open>Karatsuba's recursion\<close>

text \<open>
  The \<open>switch\<close> of \<open>RecursiveMultiply\<close>: the words of \<open>T[01]\<close> and the signed \<open>carry\<close>;
  \<open>mult\<close> is the recursive call on half the size.
\<close>

definition karatsuba_middle ::
  "(tuint list \<Rightarrow> tuint list \<Rightarrow> tuint list) \<Rightarrow> tuint list \<Rightarrow> tuint list \<Rightarrow> tuint list \<Rightarrow>
   tuint list \<Rightarrow> nat \<Rightarrow> tuint list \<times> int" where
  "karatsuba_middle mult A0 A1 B0 B1 N2 =
     (let aComp = Compare A0 A1 N2;
          bComp = Compare B0 B1 N2;
          k = 2 * aComp + aComp + bComp
      in if k = -4 then
           (let R0 = fst (Subtract A1 A0 N2); R1 = fst (Subtract B0 B1 N2);
                T = mult R0 R1
            in (take N2 T @ fst (Subtract (drop N2 T) R0 N2), -1))
         else if k = -2 then
           (let R0 = fst (Subtract A1 A0 N2); R1 = fst (Subtract B0 B1 N2)
            in (mult R0 R1, 0))
         else if k = 2 then
           (let R0 = fst (Subtract A0 A1 N2); R1 = fst (Subtract B1 B0 N2)
            in (mult R0 R1, 0))
         else if k = 4 then
           (let R0 = fst (Subtract A1 A0 N2); R1 = fst (Subtract B0 B1 N2);
                T = mult R0 R1
            in (take N2 T @ fst (Subtract (drop N2 T) R1 N2), -1))
         else (replicate (2 * N2) 0, 0))"

text \<open>\<open>assert(N>=2 && N%2==0)\<close>: on any other size the model returns no words.\<close>

function RecursiveMultiply :: "tuint list \<Rightarrow> tuint list \<Rightarrow> nat \<Rightarrow> tuint list" where
  "RecursiveMultiply A B N =
     (if N = 2 then AtomicMultiply A B
      else if N = 4 then CombaMultiply4 A B
      else if N = 8 then CombaMultiply8 A B
      else if N < 2 \<or> odd N then []
      else
       (let N2 = N div 2;
            A0 = take N2 A; A1 = take N2 (drop N2 A);
            B0 = take N2 B; B1 = take N2 (drop N2 B);
            (T, carry) = karatsuba_middle (\<lambda>X Y. RecursiveMultiply X Y N2) A0 A1 B0 B1 N2;
            R01 = RecursiveMultiply A0 B0 N2;
            R23 = RecursiveMultiply A1 B1 N2;
            (T, c1) = Add T R01 N;
            (T, c2) = Add T R23 N;
            R = R01 @ R23;
            (R12, c3) = Add (drop N2 R) T N;
            carry = carry + uint c1 + uint c2 + uint c3;
            (R3, _) = Increment (drop (N + N2) R) N2 (word_of_int carry)
        in take N2 R @ R12 @ R3))"
  by pat_completeness auto
termination
  by (relation "measure (\<lambda>(A, B, N). N)") auto

declare RecursiveMultiply.simps [simp del]


text \<open>\<open>assert(N && N%2==0)\<close>.  \<open>N = 8\<close> has no routine of its own here.\<close>

function RecursiveSquare :: "tuint list \<Rightarrow> nat \<Rightarrow> tuint list" where
  "RecursiveSquare A N =
     (if N = 2 then AtomicMultiply A A
      else if N = 4 then CombaMultiply4 A A
      else if N < 2 \<or> odd N then []
      else
       (let N2 = N div 2;
            A0 = take N2 A; A1 = take N2 (drop N2 A);
            R01 = RecursiveSquare A0 N2;
            R23 = RecursiveSquare A1 N2;
            T = RecursiveMultiply A0 A1 N2;
            R = R01 @ R23;
            (R12, c1) = Add (drop N2 R) T N;
            (R12, c2) = Add R12 T N;
            (R3, _) = Increment (drop (N + N2) R) N2 (c1 + c2)
        in take N2 R @ R12 @ R3))"
  by pat_completeness auto
termination
  by (relation "measure (\<lambda>(A, N). N)") auto

declare RecursiveSquare.simps [simp del]

function RecursiveMultiplyBottom :: "tuint list \<Rightarrow> tuint list \<Rightarrow> nat \<Rightarrow> tuint list" where
  "RecursiveMultiplyBottom A B N =
     (if N = 2 then AtomicMultiplyBottom A B
      else if N = 4 then CombaMultiplyBottom4 A B
      else if N = 8 then CombaMultiplyBottom8 A B
      else if N < 2 \<or> odd N then []
      else
       (let N2 = N div 2;
            A0 = take N2 A; A1 = take N2 (drop N2 A);
            B0 = take N2 B; B1 = take N2 (drop N2 B);
            R = RecursiveMultiply A0 B0 N2;
            T0 = RecursiveMultiplyBottom A1 B0 N2;
            R1 = fst (Add (drop N2 R) T0 N2);
            T0 = RecursiveMultiplyBottom A0 B1 N2;
            R1 = fst (Add R1 T0 N2)
        in take N2 R @ R1))"
  by pat_completeness auto
termination
  by (relation "measure (\<lambda>(A, B, N). N)") auto

declare RecursiveMultiplyBottom.simps [simp del]

definition RecursiveMultiplyTop :: "tuint list \<Rightarrow> tuint list \<Rightarrow> tuint list \<Rightarrow> nat \<Rightarrow> tuint list" where
  "RecursiveMultiplyTop L A B N =
     (if N = 2 then take 2 (drop 2 (AtomicMultiply A B))
      else if N = 4 then take 4 (drop 4 (CombaMultiply4 A B))
      else if N < 2 \<or> odd N then []
      else
       (let N2 = N div 2;
            A0 = take N2 A; A1 = take N2 (drop N2 A);
            B0 = take N2 B; B1 = take N2 (drop N2 B);
            (T01, carry) = karatsuba_middle (\<lambda>X Y. RecursiveMultiply X Y N2) A0 A1 B0 B1 N2;
            T0 = take N2 T01; T1 = drop N2 T01;
            T23 = RecursiveMultiply A1 B1 N2;
            T2 = take N2 T23; T3 = drop N2 T23;
            R0 = take N2 (drop N2 L);
            (R0, b1) = Subtract R0 L N2;
            (R0, b2) = Subtract R0 T0 N2;
            c2 = b1 + b2;
            t = (if Compare R0 T2 N2 = -1 then 1 else 0 :: tuint);
            carry = carry + uint t;
            (R0, i) = Increment R0 N2 (c2 + t);
            (R0, k1) = Add R0 T1 N2;
            (R0, k3) = Add R0 T3 N2;
            carry = carry + uint i + uint k1 + uint k3;
            (R1, _) = Increment T3 N2 (word_of_int carry)
        in R0 @ R1))"

text \<open>
  \<open>AsymmetricMultiply\<close>: \<open>same\<close> is the pointer test \<open>A == B\<close>.  The products of the even
  blocks of \<open>B\<close> go to \<open>R[0..NA)\<close> and \<open>T[2*NA..NB+NA)\<close>, those of the odd blocks to
  \<open>R[NA..NB+NA)\<close>; then the two are added.
\<close>

definition even_block_products :: "tuint list \<Rightarrow> nat \<Rightarrow> tuint list \<Rightarrow> nat \<Rightarrow> tuint list" where
  "even_block_products A NA B NB =
     concat (map (\<lambda>j. RecursiveMultiply A (take NA (drop (2 * j * NA) B)) NA) [0..<NB div (2 * NA)])"

definition odd_block_products :: "tuint list \<Rightarrow> nat \<Rightarrow> tuint list \<Rightarrow> nat \<Rightarrow> tuint list" where
  "odd_block_products A NA B NB =
     concat (map (\<lambda>j. RecursiveMultiply A (take NA (drop ((2 * j + 1) * NA) B)) NA)
       [0..<NB div (2 * NA)])"

definition AsymmetricMultiply_ordered :: "tuint list \<Rightarrow> nat \<Rightarrow> tuint list \<Rightarrow> nat \<Rightarrow> tuint list" where
  "AsymmetricMultiply_ordered A NA B NB =
     (if NA = 2 \<and> A ! 1 = 0 then
        (if A ! 0 = 0 then replicate (NB + 2) 0
         else if A ! 0 = 1 then take NB B @ [0, 0]
         else (let (R, c) = LinearMultiply B (A ! 0) NB in R @ [c, 0]))
      else
       (let E = even_block_products A NA B NB;
            R = take NA E @ odd_block_products A NA B NB;
            (S, c) = Add (drop NA R) (drop NA E) (NB - NA);
            R3 = (if c \<noteq> 0 then fst (Increment (drop NB R) NA 1) else drop NB R)
        in take NA R @ S @ R3))"

definition AsymmetricMultiply :: "bool \<Rightarrow> tuint list \<Rightarrow> nat \<Rightarrow> tuint list \<Rightarrow> nat \<Rightarrow> tuint list" where
  "AsymmetricMultiply same A NA B NB =
     (if NA = NB then (if same then RecursiveSquare A NA else RecursiveMultiply A B NA)
      else if NA > NB then AsymmetricMultiply_ordered B NB A NA
      else AsymmetricMultiply_ordered A NA B NB)"

subsection \<open>Karatsuba is multiplication\<close>

definition pow2_size :: "nat \<Rightarrow> bool" where
  "pow2_size N \<longleftrightarrow> (\<exists>k\<ge>1. N = 2 ^ k)"

lemma pow2_sizeE:
  assumes "pow2_size N"
  obtains "N = 2" | "N = 4" | "N = 8" | "16 \<le> N" "pow2_size (N div 2)" "even N"
proof -
  obtain k where k: "1 \<le> k" "N = 2 ^ k"
    using assms by (auto simp: pow2_size_def)
  show ?thesis
  proof (cases "k \<le> 3")
    case True
    then have "k = 1 \<or> k = 2 \<or> k = 3" using k(1) by auto
    then show ?thesis using k(2) that(1-3) by auto
  next
    case False
    then have "16 \<le> N"
      using power_increasing [of 4 k "2 :: nat"] k by simp
    moreover have "N div 2 = 2 ^ (k - 1)"
      using k by (cases k) simp_all
    ultimately show ?thesis
      using k False that(4) by (auto simp: pow2_size_def intro!: exI [of _ "k - 1"])
  qed
qed

lemma pow2_size_even: "pow2_size N \<Longrightarrow> even N"
  by (auto simp: pow2_size_def)

lemma pow2_size_ge: "pow2_size N \<Longrightarrow> 2 \<le> N"
  by (erule pow2_sizeE) simp_all

lemma word_of_int_small: "0 \<le> k \<Longrightarrow> k < 4294967296 \<Longrightarrow> uint (word_of_int k :: tuint) = k"
  by (simp add: word_of_int_inverse uint_word_of_int mod_pos_pos_trivial)

text \<open>What the \<open>switch\<close> leaves: the product of the differences, less than zero exactly if it borrowed.\<close>

lemma karatsuba_middle_val:
  assumes mult: "\<And>X Y. length X = N2 \<Longrightarrow> length Y = N2 \<Longrightarrow>
      length (mult X Y) = 2 * N2 \<and> val (mult X Y) = val X * val Y"
    and len: "length A0 = N2" "length A1 = N2" "length B0 = N2" "length B1 = N2" and "even N2"
    and km: "karatsuba_middle mult A0 A1 B0 B1 N2 = (T, carry)"
  shows "length T = 2 * N2"
    and "val T + base (2 * N2) * carry = (val A1 - val A0) * (val B0 - val B1)"
proof -
  let ?P = "base N2"
  have PP: "base (2 * N2) = ?P * ?P"
    by (simp add: mult_2 base_add)
  have bnd: "val X < ?P" if "length X = N2" for X
    using val_bound_eq [OF that] .
  have cA: "Compare A0 A1 N2 = sgn (val A0 - val A1)" and cB: "Compare B0 B1 N2 = sgn (val B0 - val B1)"
    using len by (simp_all add: Compare_val)
  have sub: "length (fst (Subtract X Y N2)) = N2"
      "val (fst (Subtract X Y N2)) = val X - val Y + (if val X < val Y then ?P else 0)"
    if "length X = N2" "length Y = N2" for X Y
  proof -
    obtain C c where S: "Subtract X Y N2 = (C, c)" by fastforce
    show "length (fst (Subtract X Y N2)) = N2"
      using Subtract_val(1) [OF _ _ _ S] that assms(6) by (simp add: S)
    show "val (fst (Subtract X Y N2)) = val X - val Y + (if val X < val Y then ?P else 0)"
      using Subtract_val(3) [OF _ _ _ S] Subtract_borrow_iff [OF _ _ _ S] that assms(6)
      by (simp add: S)
  qed
  text \<open>The two cases that borrow: the high half of the product loses one factor.\<close>
  have borrow: "length (take N2 M @ fst (Subtract (drop N2 M) F N2)) = 2 * N2 \<and>
      val (take N2 M @ fst (Subtract (drop N2 M) F N2)) + base (2 * N2) * (-1) = D"
    if M: "length M = 2 * N2" "val M = D + ?P * val F" and F: "length F = N2" and D: "D < 0" for M F D
  proof -
    have d: "length (drop N2 M) = N2" and t: "length (take N2 M) = N2"
      using M(1) by simp_all
    have vM: "val M = val (take N2 M) + ?P * val (drop N2 M)"
      using val_take_drop [of M N2] M(1) by (simp add: min.absorb1)
    have lt: "val (drop N2 M) < val F"
    proof (rule ccontr)
      assume "\<not> ?thesis"
      then have "?P * val F \<le> ?P * val (drop N2 M)" by simp
      then show False using vM M(2) D val_nonneg [of "take N2 M"] by linarith
    qed
    show ?thesis
      using sub [OF d F] lt vM M(2) t by (simp add: array_simps PP distrib_left right_diff_distrib')
  qed
  consider "val A0 < val A1" "val B0 < val B1" | "val A0 < val A1" "val B0 > val B1"
    | "val A0 > val A1" "val B0 < val B1" | "val A0 > val A1" "val B0 > val B1"
    | "val A0 = val A1 \<or> val B0 = val B1"
    by linarith
  then have "length T = 2 * N2 \<and>
      val T + base (2 * N2) * carry = (val A1 - val A0) * (val B0 - val B1)"
  proof cases
    case 1
    let ?R0 = "fst (Subtract A1 A0 N2)" and ?R1 = "fst (Subtract B0 B1 N2)"
    have T: "T = take N2 (mult ?R0 ?R1) @ fst (Subtract (drop N2 (mult ?R0 ?R1)) ?R0 N2)" "carry = -1"
      using km 1 by (simp_all add: karatsuba_middle_def cA cB Let_def)
    have M: "length (mult ?R0 ?R1) = 2 * N2"
      by (rule conjunct1 [OF mult [OF sub(1) [OF len(2,1)] sub(1) [OF len(3,4)]]])
    have V: "val (mult ?R0 ?R1) = (val A1 - val A0) * (val B0 - val B1) + ?P * val ?R0"
      unfolding conjunct2 [OF mult [OF sub(1) [OF len(2,1)] sub(1) [OF len(3,4)]]]
        sub(2) [OF len(2,1)] sub(2) [OF len(3,4)] using 1 by (simp add: algebra_simps)
    have neg: "(val A1 - val A0) * (val B0 - val B1) < 0"
      using 1 by (simp add: mult_pos_neg)
    show ?thesis
      unfolding T by (rule borrow [OF M V sub(1) [OF len(2,1)] neg])
  next
    case 2
    then have "T = mult (fst (Subtract A1 A0 N2)) (fst (Subtract B0 B1 N2))" "carry = 0"
      using km by (simp_all add: karatsuba_middle_def cA cB Let_def)
    then show ?thesis
      using mult sub len 2 by simp
  next
    case 3
    then have "T = mult (fst (Subtract A0 A1 N2)) (fst (Subtract B1 B0 N2))" "carry = 0"
      using km by (simp_all add: karatsuba_middle_def cA cB Let_def)
    then show ?thesis
      using mult sub len 3 by simp (simp add: algebra_simps)
  next
    case 4
    let ?R0 = "fst (Subtract A1 A0 N2)" and ?R1 = "fst (Subtract B0 B1 N2)"
    have T: "T = take N2 (mult ?R0 ?R1) @ fst (Subtract (drop N2 (mult ?R0 ?R1)) ?R1 N2)" "carry = -1"
      using km 4 by (simp_all add: karatsuba_middle_def cA cB Let_def)
    have M: "length (mult ?R0 ?R1) = 2 * N2"
      by (rule conjunct1 [OF mult [OF sub(1) [OF len(2,1)] sub(1) [OF len(3,4)]]])
    have V: "val (mult ?R0 ?R1) = (val A1 - val A0) * (val B0 - val B1) + ?P * val ?R1"
      unfolding conjunct2 [OF mult [OF sub(1) [OF len(2,1)] sub(1) [OF len(3,4)]]]
        sub(2) [OF len(2,1)] sub(2) [OF len(3,4)] using 4 by (simp add: algebra_simps)
    have neg: "(val A1 - val A0) * (val B0 - val B1) < 0"
      using 4 by (simp add: mult_neg_pos)
    show ?thesis
      unfolding T by (rule borrow [OF M V sub(1) [OF len(3,4)] neg])
  next
    case 5
    then have "T = replicate (2 * N2) 0" "carry = 0"
      using km by (auto simp: karatsuba_middle_def cA cB Let_def sgn_if split: if_splits)
    then show ?thesis
      using 5 by auto
  qed
  then show "length T = 2 * N2"
    and "val T + base (2 * N2) * carry = (val A1 - val A0) * (val B0 - val B1)" by simp_all
qed


lemma karatsuba_middle_carry:
  "karatsuba_middle mult A0 A1 B0 B1 N2 = (T, carry) \<Longrightarrow> carry = 0 \<or> carry = -1"
  by (auto simp: karatsuba_middle_def Let_def split: if_splits)

text \<open>
  Adding a multiple of \<open>base N2\<close> into the middle of a \<open>2 N\<close> word number, the carry going
  to its last \<open>N2\<close> words: exact whenever the result fits.
\<close>

lemma increment_top:
  assumes N: "N = 2 * N2" "0 < N2" and R: "length R = 2 * N" and "length R12 = N"
    and k: "0 \<le> k" "k < 4294967296"
    and inc: "Increment (drop (N + N2) R) N2 (word_of_int k) = (R3, ci)"
    and mid: "val R12 + base N * k = val (take N (drop N2 R)) + M"
    and V: "V = val R + base N2 * M" "V < base (2 * N)"
  shows "length (take N2 R @ R12 @ R3) = 2 * N" and "val (take N2 R @ R12 @ R3) = V"
proof -
  have split: "val R = val (take N2 R) + base N2 * val (take N (drop N2 R))
      + base N2 * base N * val (drop (N + N2) R)"
  proof -
    have "R = take N2 R @ take N (drop N2 R) @ drop (N + N2) R"
      by (metis append_take_drop_id drop_drop)
    moreover have "length (take N2 R) = N2" "length (take N (drop N2 R)) = N"
      using N R by simp_all
    ultimately show ?thesis
      using val_append by (metis distrib_left mult.assoc add.assoc)
  qed
  have "val R3 + base N2 * uint ci = val (drop (N + N2) R) + k" and lR3: "length R3 = N2"
    using Increment_val [OF N(2) _ inc] N R k by (simp_all add: word_of_int_small)
  then have R3: "val R3 = val (drop (N + N2) R) + k - base N2 * uint ci" by simp
  have lt: "length (take N2 R) = N2"
    using N R by simp
  have "val (take N2 R @ R12 @ R3) = val (take N2 R) + base N2 * (val R12 + base N * val R3)"
    by (simp only: val_append lt assms(4))
  also have "\<dots> = val (take N2 R) + base N2 * (val R12 + base N * k)
      + base N2 * base N * val (drop (N + N2) R) - base N2 * base N * base N2 * uint ci"
    unfolding R3 by (simp add: algebra_simps)
  also have "\<dots> = V - base (2 * N) * uint ci"
  proof -
    have "base N2 * base N * base N2 = base (2 * N)"
      unfolding base_add [symmetric] by (simp add: N)
    then show ?thesis
      unfolding mid V(1) split by (simp add: algebra_simps)
  qed
  finally have tot: "val (take N2 R @ R12 @ R3) = V - base (2 * N) * uint ci" .
  have "uint ci = 0"
  proof (rule ccontr)
    assume "uint ci \<noteq> 0"
    then have "1 \<le> uint ci"
      by (intro uint_ge_1) auto
    then have "base (2 * N) * 1 \<le> base (2 * N) * uint ci"
      by (intro mult_left_mono) auto
    then show False
      using tot V(2) val_nonneg [of "take N2 R @ R12 @ R3"] by linarith
  qed
  then show "val (take N2 R @ R12 @ R3) = V" using tot by simp
  show "length (take N2 R @ R12 @ R3) = 2 * N"
    using lt lR3 assms(4) N by simp
qed

lemma karatsuba_combine:
  assumes N: "N = 2 * N2" "0 < N2"
    and len: "length R01 = N" "length R23 = N" "length T = N"
    and T: "val T + base N * carry = D" and D: "0 \<le> D + val R01 + val R23"
    and carry: "carry = 0 \<or> carry = -1"
    and V: "V = val R01 + base N2 * (D + val R01 + val R23) + base N * val R23" "V < base (2 * N)"
    and a1: "Add T R01 N = (Ta, c1)" and a2: "Add Ta R23 N = (Tb, c2)"
    and a3: "Add (drop N2 (R01 @ R23)) Tb N = (R12, c3)"
    and k: "k = carry + uint c1 + uint c2 + uint c3"
    and inc: "Increment (drop (N + N2) (R01 @ R23)) N2 (word_of_int k) = (R3, ci)"
  shows "length (take N2 (R01 @ R23) @ R12 @ R3) = 2 * N"
    and "val (take N2 (R01 @ R23) @ R12 @ R3) = V"
proof -
  let ?R = "R01 @ R23"
  have ev: "even N" using N by simp
  have A1: "length Ta = N" "uint c1 \<le> 1" "val Ta + base N * uint c1 = val T + val R01"
    using Add_val [OF _ _ ev a1] len by simp_all
  have A2: "length Tb = N" "uint c2 \<le> 1" "val Tb + base N * uint c2 = val Ta + val R23"
    using Add_val [OF _ _ ev a2] len A1 by simp_all
  have A3: "length R12 = N" "uint c3 \<le> 1"
    "val R12 + base N * uint c3 = val (take N (drop N2 ?R)) + val Tb"
    using Add_val [OF _ _ ev a3] len N A2 by simp_all
  have S: "val Tb + base N * (carry + uint c1 + uint c2) = D + val R01 + val R23"
    using A1(3) A2(3) T by (simp add: distrib_left)
  have "0 \<le> carry + uint c1 + uint c2"
  proof (rule ccontr)
    assume "\<not> ?thesis"
    then have "base N * (carry + uint c1 + uint c2) \<le> base N * (-1)"
      by (intro mult_left_mono) auto
    then show False using S D val_bound_eq [OF A2(1)] by linarith
  qed
  then have k0: "0 \<le> k" "k < 4294967296"
    using k carry A1(2) A2(2) A3(2) uint_ge_0 [of c3] by auto
  have mid: "val R12 + base N * k = val (take N (drop N2 ?R)) + (D + val R01 + val R23)"
    using A3(3) S k by (simp add: distrib_left)
  have VR: "V = val ?R + base N2 * (D + val R01 + val R23)"
    using V(1) len by (simp add: array_simps)
  show "length (take N2 ?R @ R12 @ R3) = 2 * N" and "val (take N2 ?R @ R12 @ R3) = V"
    using increment_top [OF N _ A3(1) k0 inc mid VR V(2)] len by simp_all
qed

lemma base_double: "N = 2 * N2 \<Longrightarrow> base N = base N2 * base N2"
  by (simp add: mult_2 base_add)

lemma val_halves:
  assumes "length A = N" and "N = 2 * N2"
  shows "length (take N2 A) = N2" and "length (take N2 (drop N2 A)) = N2"
    and "val A = val (take N2 A) + base N2 * val (take N2 (drop N2 A))"
  using val_append [of "take N2 A" "drop N2 A"] assms by simp_all

lemma RecursiveMultiply_exact:
  assumes "pow2_size N" and "length A = N" and "length B = N"
  shows "length (RecursiveMultiply A B N) = 2 * N \<and> val (RecursiveMultiply A B N) = val A * val B"
  using assms
proof (induction N arbitrary: A B rule: less_induct)
  case (less N)
  from less.prems(1) show ?case
  proof (cases rule: pow2_sizeE)
    case 1
    then show ?thesis
      using less.prems AtomicMultiply_val [of A B] by (subst (1 2) RecursiveMultiply.simps) simp
  next
    case 2
    then show ?thesis
      using less.prems CombaMultiply4_val [of A B] by (subst (1 2) RecursiveMultiply.simps) simp
  next
    case 3
    then show ?thesis
      using less.prems CombaMultiply8_val [of A B] by (subst (1 2) RecursiveMultiply.simps) simp
  next
    case 4
    define N2 where "N2 = N div 2"
    have N: "N = 2 * N2" "0 < N2"
      using 4 by (auto simp: N2_def)
    have p2: "pow2_size N2"
      using 4(2) by (simp add: N2_def)
    have lt: "N2 < N"
      using N by linarith
    define A0 A1 B0 B1 where "A0 = take N2 A" "A1 = take N2 (drop N2 A)"
      "B0 = take N2 B" "B1 = take N2 (drop N2 B)"
    note hA = val_halves [OF less.prems(2) N(1), folded A0_A1_B0_B1_def]
    note hB = val_halves [OF less.prems(3) N(1), folded A0_A1_B0_B1_def]
    note IH = less.IH [OF lt p2]
    let ?mult = "\<lambda>X Y. RecursiveMultiply X Y N2"
    obtain T carry where km: "karatsuba_middle ?mult A0 A1 B0 B1 N2 = (T, carry)"
      by fastforce
    have kv: "length T = 2 * N2" "val T + base (2 * N2) * carry = (val A1 - val A0) * (val B0 - val B1)"
      by (rule karatsuba_middle_val [OF IH hA(1,2) hB(1,2) pow2_size_even [OF p2] km]; assumption)+
    have carry: "carry = 0 \<or> carry = -1"
      by (rule karatsuba_middle_carry [OF km])
    let ?R01 = "RecursiveMultiply A0 B0 N2" and ?R23 = "RecursiveMultiply A1 B1 N2"
    obtain Ta c1 where a1: "Add T ?R01 N = (Ta, c1)" by fastforce
    obtain Tb c2 where a2: "Add Ta ?R23 N = (Tb, c2)" by fastforce
    obtain R12 c3 where a3: "Add (drop N2 (?R01 @ ?R23)) Tb N = (R12, c3)" by fastforce
    obtain R3 ci where inc: "Increment (drop (N + N2) (?R01 @ ?R23)) N2
        (word_of_int (carry + uint c1 + uint c2 + uint c3)) = (R3, ci)" by fastforce
    have R: "RecursiveMultiply A B N = take N2 (?R01 @ ?R23) @ R12 @ R3"
      using 4(1,3) by (subst RecursiveMultiply.simps)
        (simp add: Let_def km a1 a2 a3 inc del: drop_append take_append of_int_add
          flip: N2_def A0_A1_B0_B1_def)
    have r: "length ?R01 = N" "length ?R23 = N" "val ?R01 = val A0 * val B0" "val ?R23 = val A1 * val B1"
      using IH [OF hA(1) hB(1)] IH [OF hA(2) hB(2)] N by simp_all
    let ?D = "(val A1 - val A0) * (val B0 - val B1)"
    have cross: "?D + val ?R01 + val ?R23 = val A0 * val B1 + val A1 * val B0"
      by (simp add: r algebra_simps)
    have V: "val A * val B = val ?R01 + base N2 * (?D + val ?R01 + val ?R23) + base N * val ?R23"
      unfolding cross hA(3) hB(3) r base_double [OF N(1)] by (simp add: algebra_simps)
    have "val A * val B < base (N + N)"
      by (rule product_bounds(2)) (use less.prems in \<open>auto intro!: val_bound_eq\<close>)
    then have Vb: "val A * val B < base (2 * N)" by (simp add: mult_2)
    have D0: "0 \<le> ?D + val ?R01 + val ?R23"
      unfolding cross by simp
    show ?thesis
      unfolding R
      using karatsuba_combine [OF N r(1,2) _ _ D0 carry V Vb a1 a2 a3 refl inc] kv N(1) by simp
  qed
qed


subsection \<open>Squares\<close>

lemma RecursiveSquare_exact:
  assumes "pow2_size N" and "length A = N"
  shows "length (RecursiveSquare A N) = 2 * N \<and> val (RecursiveSquare A N) = val A * val A"
  using assms
proof (induction N arbitrary: A rule: less_induct)
  case (less N)
  have rec: ?case if "8 \<le> N" and pN: "pow2_size (N div 2)" and ev: "even N"
  proof -
    define N2 where "N2 = N div 2"
    have N: "N = 2 * N2" "0 < N2"
      using that by (auto simp: N2_def)
    have p2: "pow2_size N2"
      using pN by (simp add: N2_def)
    have lt: "N2 < N"
      using N by linarith
    define A0 A1 where "A0 = take N2 A" "A1 = take N2 (drop N2 A)"
    note hA = val_halves [OF less.prems(2) N(1), folded A0_A1_def]
    note IH = less.IH [OF lt p2]
    let ?R01 = "RecursiveSquare A0 N2" and ?R23 = "RecursiveSquare A1 N2"
    let ?T = "RecursiveMultiply A0 A1 N2"
    obtain Ra c1 where a1: "Add (drop N2 (?R01 @ ?R23)) ?T N = (Ra, c1)" by fastforce
    obtain Rb c2 where a2: "Add Ra ?T N = (Rb, c2)" by fastforce
    obtain R3 ci where inc: "Increment (drop (N + N2) (?R01 @ ?R23)) N2 (c1 + c2) = (R3, ci)"
      by fastforce
    have R: "RecursiveSquare A N = take N2 (?R01 @ ?R23) @ Rb @ R3"
      using \<open>8 \<le> N\<close> ev by (subst RecursiveSquare.simps)
        (simp add: Let_def a1 a2 inc del: drop_append take_append flip: N2_def A0_A1_def)
    have r: "length ?R01 = N" "length ?R23 = N" "val ?R01 = val A0 * val A0" "val ?R23 = val A1 * val A1"
      using IH [OF hA(1)] IH [OF hA(2)] N by simp_all
    have t: "length ?T = N" "val ?T = val A0 * val A1"
      using RecursiveMultiply_exact [OF p2 hA(1,2)] N by simp_all
    have A1': "length Ra = N" "uint c1 \<le> 1"
      "val Ra + base N * uint c1 = val (take N (drop N2 (?R01 @ ?R23))) + val ?T"
      using Add_val [OF _ _ ev a1] r t N by simp_all
    have A2': "length Rb = N" "uint c2 \<le> 1" "val Rb + base N * uint c2 = val Ra + val ?T"
      using Add_val [OF _ _ ev a2] t A1' by simp_all
    let ?k = "uint c1 + uint c2"
    have k: "0 \<le> ?k" "?k < 4294967296" and kw: "c1 + c2 = word_of_int ?k"
      using A1'(2) A2'(2) by simp_all
    have mid: "val Rb + base N * ?k = val (take N (drop N2 (?R01 @ ?R23))) + (val ?T + val ?T)"
      using A1'(3) A2'(3) by (simp add: distrib_left)
    have V: "val A * val A = val (?R01 @ ?R23) + base N2 * (val ?T + val ?T)"
      unfolding hA(3) val_append r t base_double [OF N(1)] by (simp add: algebra_simps)
    have "val A * val A < base (N + N)"
      by (rule product_bounds(2)) (use less.prems in \<open>auto intro!: val_bound_eq\<close>)
    then have Vb: "val A * val A < base (2 * N)" by (simp add: mult_2)
    show ?case
      unfolding R
      using increment_top [OF N _ A2'(1) k inc [unfolded kw] mid V Vb] r by simp
  qed
  from less.prems(1) show ?case
  proof (cases rule: pow2_sizeE)
    case 1
    then show ?thesis
      using less.prems AtomicMultiply_val [of A A] by (subst (1 2) RecursiveSquare.simps) simp
  next
    case 2
    then show ?thesis
      using less.prems CombaMultiply4_val [of A A] by (subst (1 2) RecursiveSquare.simps) simp
  next
    case 3
    then show ?thesis
      using rec by (simp add: pow2_size_def exI [of _ 2])
  next
    case 4
    then show ?thesis
      using rec by simp
  qed
qed

subsection \<open>Lower and upper halves\<close>

lemma RecursiveMultiplyBottom_exact:
  assumes "pow2_size N" and "length A = N" and "length B = N"
  shows "length (RecursiveMultiplyBottom A B N) = N \<and>
    val (RecursiveMultiplyBottom A B N) = (val A * val B) mod base N"
  using assms
proof (induction N arbitrary: A B rule: less_induct)
  case (less N)
  from less.prems(1) show ?case
  proof (cases rule: pow2_sizeE)
    case 1
    then show ?thesis
      using less.prems AtomicMultiplyBottom_val [of A B]
      by (subst (1 2) RecursiveMultiplyBottom.simps) simp
  next
    case 2
    then show ?thesis
      using less.prems CombaMultiplyBottom4_val [of A B]
      by (subst (1 2) RecursiveMultiplyBottom.simps) simp
  next
    case 3
    then show ?thesis
      using less.prems CombaMultiplyBottom8_val [of A B]
      by (subst (1 2) RecursiveMultiplyBottom.simps) simp
  next
    case 4
    define N2 where "N2 = N div 2"
    have N: "N = 2 * N2" "0 < N2"
      using 4 by (auto simp: N2_def)
    have p2: "pow2_size N2"
      using 4(2) by (simp add: N2_def)
    have lt: "N2 < N"
      using N by linarith
    define A0 A1 B0 B1 where "A0 = take N2 A" "A1 = take N2 (drop N2 A)"
      "B0 = take N2 B" "B1 = take N2 (drop N2 B)"
    note hA = val_halves [OF less.prems(2) N(1), folded A0_A1_B0_B1_def]
    note hB = val_halves [OF less.prems(3) N(1), folded A0_A1_B0_B1_def]
    note IH = less.IH [OF lt p2]
    let ?R = "RecursiveMultiply A0 B0 N2"
    let ?S = "RecursiveMultiplyBottom A1 B0 N2" and ?T = "RecursiveMultiplyBottom A0 B1 N2"
    obtain Ra c1 where a1: "Add (drop N2 ?R) ?S N2 = (Ra, c1)" by fastforce
    obtain Rb c2 where a2: "Add Ra ?T N2 = (Rb, c2)" by fastforce
    have R: "RecursiveMultiplyBottom A B N = take N2 ?R @ Rb"
      using 4(1,3) by (subst RecursiveMultiplyBottom.simps)
        (simp add: Let_def a1 a2 flip: N2_def A0_A1_B0_B1_def)
    have r: "length ?R = N" "val ?R = val A0 * val B0"
      using RecursiveMultiply_exact [OF p2 hA(1) hB(1)] N by simp_all
    note s = IH [OF hA(2) hB(1)] and t = IH [OF hA(1) hB(2)]
    have ev: "even N2" by (rule pow2_size_even [OF p2])
    have A1': "length Ra = N2" "val Ra + base N2 * uint c1 = val (drop N2 ?R) + val ?S"
      using Add_val [OF _ _ ev a1] r s N by simp_all
    have A2': "length Rb = N2" "val Rb + base N2 * uint c2 = val Ra + val ?T"
      using Add_val [OF _ _ ev a2] t A1' by simp_all
    have lt0: "length (take N2 ?R) = N2"
      using r N by simp
    have vR: "val A0 * val B0 = val (take N2 ?R) + base N2 * val (drop N2 ?R)"
      using val_append [of "take N2 ?R" "drop N2 ?R"] r lt0 by simp
    obtain qs where qs: "val A1 * val B0 = val ?S + base N2 * qs"
      using s by (metis mod_mult_div_eq)
    obtain qt where qt: "val A0 * val B1 = val ?T + base N2 * qt"
      using t by (metis mod_mult_div_eq)
    have len: "length (take N2 ?R @ Rb) = N"
      using lt0 A2' N by simp
    have "val A * val B = val (take N2 ?R @ Rb)
        + base N * (uint c1 + uint c2 + qs + qt + val A1 * val B1)"
    proof -
      have "val A * val B = val A0 * val B0 + base N2 * (val A1 * val B0 + val A0 * val B1)
          + base N * (val A1 * val B1)"
        unfolding hA(3) hB(3) base_double [OF N(1)] by (simp add: algebra_simps)
      also have "\<dots> = val (take N2 ?R) + base N2 * (val (drop N2 ?R) + val ?S + val ?T)
          + base N * (qs + qt + val A1 * val B1)"
        unfolding vR qs qt base_double [OF N(1)] by (simp add: algebra_simps)
      also have "val (drop N2 ?R) + val ?S + val ?T = val Rb + base N2 * (uint c1 + uint c2)"
        using A1'(2) A2'(2) by (simp add: distrib_left)
      finally show ?thesis
        unfolding val_append lt0 base_double [OF N(1)] by (simp add: algebra_simps)
    qed
    then show ?thesis
      unfolding R using len val_bound_eq [OF len] mod_base_unique [of "val (take N2 ?R @ Rb)" N] by simp
  qed
qed


text \<open>
  The arithmetic of \<open>RecursiveMultiplyTop\<close>: with \<open>P\<close> the base of a half, the words of the
  upper half \<open>Q\<close> from the lower half \<open>(l0, l1)\<close>, the middle product \<open>(T0, T1, c0)\<close> and the
  high product \<open>(T2, T3)\<close>; \<open>h\<close> is the unknown high half of \<open>A0 * B0\<close>.
\<close>

lemma top_half_arith:
  fixes P Q l0 l1 h T0 T1 T2 T3 c0 R b t :: int
  assumes Q: "l0 + P * l1 + P * P * Q
      = (l0 + P * h) + P * (T0 + P * T1 + P * P * c0 + (l0 + P * h) + (T2 + P * T3)) + P * P * (T2 + P * T3)"
    and R: "R = l1 - l0 - T0 + P * b" "0 \<le> R" "R < P"
    and h: "0 \<le> h" "h < P" and T2: "0 \<le> T2" "T2 < P"
    and t: "t = (if R < T2 then 1 else 0)"
  shows "h + T2 = R + P * t" and "Q = R + (b + t) + T1 + T3 + P * (c0 + t + T3)"
proof -
  have P: "0 < P" using h by linarith
  have "P * (l1 + P * Q) = P * (h + T0 + P * T1 + P * P * c0 + l0 + P * h + T2 + P * T3 + P * T2 + P * P * T3)"
    using Q by (simp add: algebra_simps)
  then have eq: "l1 + P * Q = h + T0 + P * T1 + P * P * c0 + l0 + P * h + T2 + P * T3 + P * T2 + P * P * T3"
    using P by simp
  define m where "m = Q - b - T1 - P * c0 - h - T3 - T2 - P * T3"
  have hT: "h + T2 = R + P * m"
    using eq unfolding R(1) m_def by (simp add: algebra_simps)
  have "m = t"
  proof -
    have "0 \<le> m"
    proof (rule ccontr)
      assume "\<not> 0 \<le> m"
      then have "P * m \<le> P * (-1)" using P by (intro mult_left_mono) auto
      then show False using hT R h T2 by linarith
    qed
    moreover have "m \<le> 1"
    proof (rule ccontr)
      assume "\<not> m \<le> 1"
      then have "P * 2 \<le> P * m" using P by (intro mult_left_mono) auto
      then show False using hT R h T2 by linarith
    qed
    ultimately have "m = 0 \<or> m = 1" by linarith
    then show ?thesis
      using hT h t by auto
  qed
  then show ht: "h + T2 = R + P * t" using hT by simp
  have "Q = b + T1 + P * c0 + T3 + P * T3 + (h + T2) + t"
    using \<open>m = t\<close> unfolding m_def by simp
  then show "Q = R + (b + t) + T1 + T3 + P * (c0 + t + T3)"
    unfolding ht by (simp add: algebra_simps)
qed

lemma top_half_carry:
  fixes P l0 l1 h T0 T1 T2 T3 c0 R b t :: int
  assumes D: "0 \<le> T0 + P * T1 + P * P * c0 + (l0 + P * h) + (T2 + P * T3)"
    and R: "R = l1 - l0 - T0 + P * b" "0 \<le> R" "R < P"
    and hT: "h + T2 = R + P * t" and h: "0 \<le> h" and l1: "l1 < P" and T2: "0 \<le> T2"
    and c0: "c0 = 0 \<or> c0 = -1" and t: "t = 0 \<or> t = 1"
    and F: "F + P * c = R + (b + t) + T1 + T3" "F < P" "0 \<le> c"
  shows "0 \<le> c0 + t + c"
proof (rule ccontr)
  assume "\<not> ?thesis"
  then have z: "c0 = -1" "t = 0" "c = 0"
    using c0 t F(3) by auto
  have P: "0 < P" using R by linarith
  have lt: "h + b + T1 + T3 \<le> P - 1"
    using F hT T2 z by simp
  have "T0 + P * T1 + P * P * c0 + (l0 + P * h) + (T2 + P * T3)
      = P * (h + b + T1 + T3) - h + l1 - P * P"
    using R(1) hT z by (simp add: algebra_simps)
  also have "\<dots> \<le> P * (P - 1) - h + l1 - P * P"
    using mult_left_mono [OF lt, of P] P by simp
  also have "\<dots> < 0"
    using h l1 by (simp add: right_diff_distrib')
  finally show False using D by simp
qed

lemma val_div_mod_halves:
  assumes "length L = 2 * N2"
  shows "val (take N2 L) = val L mod base N2" and "val (drop N2 L) = val L div base N2"
    and "val L = val (take N2 L) + base N2 * val (drop N2 L)"
proof -
  have le: "N2 \<le> length L" using assms by linarith
  show t: "val (take N2 L) = val L mod base N2" by (rule val_div_base(2) [OF le])
  show d: "val (drop N2 L) = val L div base N2" by (rule val_div_base(1) [OF le])
  show "val L = val (take N2 L) + base N2 * val (drop N2 L)" unfolding t d by simp
qed

lemma no_carry:
  fixes P r c v :: int
  assumes "r + P * c = v" and "v < P" and "0 \<le> r" and "0 \<le> c" and "0 < P"
  shows "c = 0"
proof (rule ccontr)
  assume "c \<noteq> 0"
  then have "P * 1 \<le> P * c"
    using assms by (intro mult_left_mono) linarith+
  then show False using assms by linarith
qed

lemma RecursiveMultiplyTop_small:
  assumes "length R = 2 * N"
  shows "length (take N (drop N R)) = N" and "val (take N (drop N R)) = val R div base N"
proof -
  have l: "length (drop N R) = N" using assms by simp
  then have t: "take N (drop N R) = drop N R" by simp
  show "length (take N (drop N R)) = N" unfolding t by (rule l)
  show "val (take N (drop N R)) = val R div base N"
    unfolding t by (rule val_div_mod_halves(2) [OF assms])
qed

lemma RecursiveMultiplyTop_rec:
  assumes N: "N = 2 * N2" "2 < N2" and p2: "pow2_size N2" and "length A = N" "length B = N" "length L = N"
    and L: "val L = (val A * val B) mod base N"
  shows "length (RecursiveMultiplyTop L A B N) = N \<and>
    val (RecursiveMultiplyTop L A B N) = (val A * val B) div base N"
proof -
  let ?P = "base N2"
  have ev: "even N2" by (rule pow2_size_even [OF p2])
  have N2: "0 < N2" using N by simp
  have bN: "base N = ?P * ?P" by (rule base_double [OF N(1)])
  define A0 A1 B0 B1 where "A0 = take N2 A" "A1 = take N2 (drop N2 A)"
      "B0 = take N2 B" "B1 = take N2 (drop N2 B)"
  note hA = val_halves [OF assms(4) N(1), folded A0_A1_B0_B1_def]
  note hB = val_halves [OF assms(5) N(1), folded A0_A1_B0_B1_def]
  note mul = RecursiveMultiply_exact [OF p2]
  obtain T01 c0 where km: "karatsuba_middle (\<lambda>X Y. RecursiveMultiply X Y N2) A0 A1 B0 B1 N2 = (T01, c0)"
    by fastforce
  have kv: "length T01 = 2 * N2" "val T01 + base (2 * N2) * c0 = (val A1 - val A0) * (val B0 - val B1)"
    by (rule karatsuba_middle_val [OF mul hA(1,2) hB(1,2) ev km]; assumption)+
  note c0 = karatsuba_middle_carry [OF km]
  define T0 T1 where "T0 = take N2 T01" "T1 = drop N2 T01"
  define T23 where "T23 = RecursiveMultiply A1 B1 N2"
  define T2 T3 where "T2 = take N2 T23" "T3 = drop N2 T23"
  define L1 where "L1 = take N2 (drop N2 L)"
  have T23: "length T23 = 2 * N2" "val T23 = val A1 * val B1"
    using mul [OF hA(2) hB(2)] by (simp_all add: T23_def)
  have lens: "length T0 = N2" "length T1 = N2" "length T2 = N2" "length T3 = N2" "length L1 = N2"
    using kv T23 assms(6) N by (simp_all add: T0_T1_def T2_T3_def L1_def)
  obtain Ra b1 where s1: "Subtract L1 L N2 = (Ra, b1)" by fastforce
  obtain Rb b2 where s2: "Subtract Ra T0 N2 = (Rb, b2)" by fastforce
  define t :: tuint where "t = (if Compare Rb T2 N2 = -1 then 1 else 0)"
  obtain Rc i where s3: "Increment Rb N2 (b1 + b2 + t) = (Rc, i)" by fastforce
  obtain Rd k1 where s4: "Add Rc T1 N2 = (Rd, k1)" by fastforce
  obtain Re k3 where s5: "Add Rd T3 N2 = (Re, k3)" by fastforce
  define cf where "cf = c0 + uint t + uint i + uint k1 + uint k3"
  obtain R1 ci where s6: "Increment T3 N2 (word_of_int cf) = (R1, ci)" by fastforce
  have R: "RecursiveMultiplyTop L A B N = Re @ R1"
    using N s6 unfolding RecursiveMultiplyTop_def
    by (simp add: Let_def km s1 s2 s3 s4 s5 del: of_int_add
        flip: A0_A1_B0_B1_def T0_T1_def T23_def T2_T3_def L1_def t_def cf_def)
  have v1: "length Ra = N2" "uint b1 \<le> 1" "val Ra = val L1 - val (take N2 L) + ?P * uint b1"
    using Subtract_val [OF _ _ ev s1] lens assms(6) N by simp_all
  have v2: "length Rb = N2" "uint b2 \<le> 1" "val Rb = val Ra - val T0 + ?P * uint b2"
    using Subtract_val [OF _ _ ev s2] lens v1 by simp_all
  have t: "uint t = (if val Rb < val T2 then 1 else 0)"
    using Compare_val [of N2 Rb T2] v2(1) lens by (simp add: t_def sgn_if)
  have bt: "uint (b1 + b2 + t) = uint b1 + uint b2 + uint t"
    using v1(2) v2(2) t by (simp add: uint_tuint_arith mod_pos_pos_trivial)
  have v3: "length Rc = N2" "uint i \<le> 1" "val Rc + ?P * uint i = val Rb + (uint b1 + uint b2 + uint t)"
    using Increment_val [OF N2 _ s3] v2 bt by simp_all
  have v4: "length Rd = N2" "uint k1 \<le> 1" "val Rd + ?P * uint k1 = val Rc + val T1"
    using Add_val [OF _ _ ev s4] lens v3 by simp_all
  have v5: "length Re = N2" "uint k3 \<le> 1" "val Re + ?P * uint k3 = val Rd + val T3"
    using Add_val [OF _ _ ev s5] lens v4 by simp_all
  define l0 h where "l0 = val (take N2 L)" "h = (val A0 * val B0) div ?P"
  have vL: "val L = l0 + ?P * val L1"
    using val_halves [OF assms(6) N(1)] by (simp add: l0_h_def L1_def)
  have "l0 = val L mod ?P"
    using val_div_base(2) [of N2 L] assms(6) N by (simp add: l0_h_def)
  also have "\<dots> = (val A * val B) mod ?P"
    unfolding L bN by (rule mod_mod_cancel) simp
  also have "val A * val B = val A0 * val B0 + ?P * (val A0 * val B1 + val A1 * val B0 + ?P * (val A1 * val B1))"
    unfolding hA(3) hB(3) by (simp add: algebra_simps)
  finally have l0: "l0 = (val A0 * val B0) mod ?P" by simp
  then have ab0: "val A0 * val B0 = l0 + ?P * h"
    by (simp add: l0_h_def)
  have D: "(val A1 - val A0) * (val B0 - val B1) = val T0 + ?P * val T1 + ?P * ?P * c0"
    using kv(2) unfolding val_div_mod_halves(3) [OF kv(1)] T0_T1_def base_double [OF refl] by simp
  have ab1: "val A1 * val B1 = val T2 + ?P * val T3"
    using val_div_mod_halves(3) [OF T23(1)] T23(2) by (simp add: T2_T3_def)
  let ?Q = "(val A * val B) div base N"
  have AB: "val A * val B = val A0 * val B0
      + ?P * ((val A1 - val A0) * (val B0 - val B1) + val A0 * val B0 + val A1 * val B1)
      + ?P * ?P * (val A1 * val B1)"
    unfolding hA(3) hB(3) by (simp add: algebra_simps)
  have "val L + ?P * ?P * ?Q = val A * val B"
    unfolding L bN by simp
  then have Qeq: "l0 + ?P * val L1 + ?P * ?P * ?Q
      = (l0 + ?P * h) + ?P * (val T0 + ?P * val T1 + ?P * ?P * c0 + (l0 + ?P * h) + (val T2 + ?P * val T3))
        + ?P * ?P * (val T2 + ?P * val T3)"
    unfolding vL AB D ab0 ab1 .
  have Rb: "val Rb = val L1 - l0 - val T0 + ?P * (uint b1 + uint b2)"
    using v1(3) v2(3) by (simp add: l0_h_def distrib_left)
  have h: "0 \<le> h" "h < ?P"
  proof -
    show "0 \<le> h" by (simp add: l0_h_def pos_imp_zdiv_nonneg_iff)
    have "val A0 * val B0 < base (N2 + N2)"
      using product_bounds(2) val_bound_eq [OF hA(1)] val_bound_eq [OF hB(1)] val_nonneg by blast
    then show "h < ?P" by (simp add: l0_h_def base_add int_div_less)
  qed
  note bnd = val_bound_eq [OF v2(1)] val_bound_eq [OF lens(3)] val_bound_eq [OF v5(1)]
  note ta = top_half_arith [OF Qeq Rb val_nonneg bnd(1) h val_nonneg bnd(2) t]
  have F: "val Re + ?P * (uint i + uint k1 + uint k3)
      = val Rb + (uint b1 + uint b2 + uint t) + val T1 + val T3"
    using v3(3) v4(3) v5(3) by (simp add: distrib_left)
  have D0: "0 \<le> val T0 + ?P * val T1 + ?P * ?P * c0 + (l0 + ?P * h) + (val T2 + ?P * val T3)"
    unfolding D [symmetric] ab0 [symmetric] ab1 [symmetric]
    using mult_nonneg_nonneg [OF val_nonneg val_nonneg, of A0 B1]
      mult_nonneg_nonneg [OF val_nonneg val_nonneg, of A1 B0] by (simp add: algebra_simps)
  have "0 \<le> c0 + uint t + (uint i + uint k1 + uint k3)"
    by (rule top_half_carry [OF D0 Rb val_nonneg bnd(1) ta(1) h(1) val_bound_eq [OF lens(5)] val_nonneg
        c0 _ F bnd(3)]) (simp_all add: t)
  then have cf: "0 \<le> cf" "cf < 4294967296"
    using c0 t v3(2) v4(2) v5(2) by (auto simp: cf_def)
  have v6: "length R1 = N2" "val R1 + ?P * uint ci = val T3 + cf"
    using Increment_val [OF N2 _ s6] lens cf by (simp_all add: word_of_int_small)
  have Q: "?Q = val Re + ?P * (val T3 + cf)"
    using ta(2) F unfolding cf_def by (simp add: algebra_simps)
  have "?Q < ?P * ?P"
  proof -
    have "val A * val B < base (N + N)"
      using product_bounds(2) val_bound_eq [OF assms(4)] val_bound_eq [OF assms(5)] val_nonneg by blast
    then show ?thesis by (simp add: base_add bN [symmetric] int_div_less)
  qed
  then have "val T3 + cf < ?P"
    using split_range(2) [of "val Re" ?P "val T3 + cf" ?P] Q bnd(3) cf(1) by simp
  then have "uint ci = 0"
    using no_carry [OF v6(2) _ val_nonneg uint_ge_0 base_pos(1)] by simp
  then show ?thesis
    unfolding R using v5(1) v6 Q N by (simp add: array_simps)
qed

lemma RecursiveMultiplyTop_exact:
  assumes "pow2_size N" and "length A = N" and "length B = N" and "length L = N"
    and "val L = (val A * val B) mod base N"
  shows "length (RecursiveMultiplyTop L A B N) = N \<and>
    val (RecursiveMultiplyTop L A B N) = (val A * val B) div base N"
  using assms(1)
proof (cases rule: pow2_sizeE)
  case 1
  then show ?thesis
    using RecursiveMultiplyTop_small [of "AtomicMultiply A B" 2] AtomicMultiply_val [of A B] assms
    by (simp add: RecursiveMultiplyTop_def)
next
  case 2
  then show ?thesis
    using RecursiveMultiplyTop_small [of "CombaMultiply4 A B" 4] CombaMultiply4_val [of A B] assms
    by (simp add: RecursiveMultiplyTop_def)
next
  case 3
  have "pow2_size 4"
    unfolding pow2_size_def by (rule exI [of _ 2]) simp
  then show ?thesis
    using RecursiveMultiplyTop_rec [of 8 4] 3 assms by simp
next
  case 4
  then show ?thesis
    using RecursiveMultiplyTop_rec [of N "N div 2"] assms by simp
qed


subsection \<open>Numbers of different sizes\<close>

lemma block_products:
  assumes NA: "pow2_size NA" and A: "length A = NA" and B: "2 * m * NA \<le> length B"
  defines "E \<equiv> concat (map (\<lambda>j. RecursiveMultiply A (take NA (drop (2 * j * NA) B)) NA) [0..<m])"
    and "D \<equiv> concat (map (\<lambda>j. RecursiveMultiply A (take NA (drop ((2 * j + 1) * NA) B)) NA) [0..<m])"
  shows "length E = 2 * m * NA \<and> length D = 2 * m * NA \<and>
    val E + base NA * val D = val A * val (take (2 * m * NA) B)"
  using B unfolding E_def D_def
proof (induction m)
  case (Suc m)
  let ?n = "2 * m * NA" and ?S = "2 * Suc m * NA"
  let ?b0 = "take NA (drop ?n B)" and ?b1 = "take NA (drop ((2 * m + 1) * NA) B)"
  have n: "?n + NA = (2 * m + 1) * NA" "?n + (NA + NA) = ?S" by simp_all
  have le: "?n + (NA + NA) \<le> length B" using Suc.prems n by simp
  then have lb: "length ?b0 = NA" "length ?b1 = NA" "length (take ?n B) = ?n"
    unfolding n [symmetric] by simp_all
  note m0 = RecursiveMultiply_exact [OF NA A lb(1)] and m1 = RecursiveMultiply_exact [OF NA A lb(2)]
  have IH: "length (concat (map (\<lambda>j. RecursiveMultiply A (take NA (drop (2 * j * NA) B)) NA) [0..<m])) = ?n"
    "length (concat (map (\<lambda>j. RecursiveMultiply A (take NA (drop ((2 * j + 1) * NA) B)) NA) [0..<m])) = ?n"
    "val (concat (map (\<lambda>j. RecursiveMultiply A (take NA (drop (2 * j * NA) B)) NA) [0..<m]))
      + base NA * val (concat (map (\<lambda>j. RecursiveMultiply A (take NA (drop ((2 * j + 1) * NA) B)) NA) [0..<m]))
      = val A * val (take ?n B)"
    using Suc.IH le by linarith+
  have "drop NA (drop ?n B) = drop ((2 * m + 1) * NA) B"
    by (simp add: add.commute)
  then have "take ?S B = take ?n B @ ?b0 @ ?b1"
    unfolding n(2) [symmetric] by (simp only: take_add)
  then have tk: "val (take ?S B) = val (take ?n B) + base ?n * (val ?b0 + base NA * val ?b1)"
    by (simp only: val_append lb)
  let ?E = "concat (map (\<lambda>j. RecursiveMultiply A (take NA (drop (2 * j * NA) B)) NA) [0..<m])"
  let ?O = "concat (map (\<lambda>j. RecursiveMultiply A (take NA (drop ((2 * j + 1) * NA) B)) NA) [0..<m])"
  have cc: "concat (map f [0..<Suc m]) = concat (map f [0..<m]) @ f m" for f :: "nat \<Rightarrow> tuint list"
    by simp
  have "val (?E @ RecursiveMultiply A ?b0 NA) + base NA * val (?O @ RecursiveMultiply A ?b1 NA)
      = val ?E + base NA * val ?O + base ?n * (val A * val ?b0 + base NA * (val A * val ?b1))"
    by (simp only: val_append IH(1,2) m0 m1) (simp add: algebra_simps)
  also have "\<dots> = val A * val (take ?S B)"
    unfolding IH(3) tk by (simp add: algebra_simps)
  finally have "val (?E @ RecursiveMultiply A ?b0 NA) + base NA * val (?O @ RecursiveMultiply A ?b1 NA)
      = val A * val (take ?S B)" .
  moreover have "length (?E @ RecursiveMultiply A ?b0 NA) = ?S" "length (?O @ RecursiveMultiply A ?b1 NA) = ?S"
    using IH(1,2) m0 m1 n by simp_all
  ultimately show ?case
    unfolding cc by blast
qed simp

lemma AsymmetricMultiply_ordered_exact:
  assumes NA: "pow2_size NA" and A: "length A = NA" and B: "length B = NB"
    and m: "NB = 2 * m * NA" "0 < m"
  shows "length (AsymmetricMultiply_ordered A NA B NB) = NB + NA \<and>
    val (AsymmetricMultiply_ordered A NA B NB) = val A * val B"
proof (cases "NA = 2 \<and> A ! 1 = 0")
  case True
  then obtain a where Aa: "A = [a, 0]"
    using A by (metis (no_types, opaque_lifting) One_nat_def Suc_1 length_0_conv length_Suc_conv nth_Cons_0 nth_Cons_Suc)
  obtain R c where L: "LinearMultiply B a NB = (R, c)" by fastforce
  have lR: "length R = NB" and "val R + base NB * uint c = val (take NB B) * uint a"
    by (rule LinearMultiply_val [OF _ L], simp add: B)+
  then have vR: "val R + base NB * uint c = val B * uint a" using B by simp
  show ?thesis
    using True lR vR B
    by (simp add: AsymmetricMultiply_ordered_def Aa L val_append mult.commute)
next
  case False
  have NA2: "2 \<le> NA" and ev: "even NA"
    using pow2_size_even [OF NA] pow2_size_ge [OF NA] by simp_all
  define E O1 where "E = even_block_products A NA B NB" "O1 = odd_block_products A NA B NB"
  have md: "NB div (2 * NA) = m" using m NA2 by simp
  have bp: "length E = NB" "length O1 = NB" "val E + base NA * val O1 = val A * val B"
    using block_products [OF NA A, of m B] m B md
    by (simp_all add: E_O1_def even_block_products_def odd_block_products_def)
  have le: "2 * NA \<le> NB" using m by simp
  define R where "R = take NA E @ O1"
  have lR: "length R = NB + NA" using bp le by (simp add: R_def)
  have dR: "drop NA R = O1" "drop NB R = drop (NB - NA) O1" "take NA R = take NA E"
    using bp(1) le by (simp_all add: R_def)
  obtain S c where add: "Add (drop NA R) (drop NA E) (NB - NA) = (S, c)" by fastforce
  have evN: "even (NB - NA)" using m ev by simp
  have S: "length S = NB - NA" "uint c \<le> 1"
    "val S + base (NB - NA) * uint c = val (take (NB - NA) O1) + val (drop NA E)"
    using Add_val [OF _ _ evN add] bp dR(1) by simp_all
  define K where "K = drop (NB - NA) O1"
  have lK: "length K = NA" using bp le by (simp add: K_def)
  define R3 where "R3 = (if c \<noteq> 0 then fst (Increment K NA 1) else K)"
  have res: "AsymmetricMultiply_ordered A NA B NB = take NA E @ S @ R3"
    unfolding AsymmetricMultiply_ordered_def if_not_P [OF False] Let_def E_O1_def [symmetric]
      R_def [symmetric] add [unfolded dR(1)] dR prod.case R3_def K_def by (rule refl)
  have vO: "val O1 = val (take (NB - NA) O1) + base (NB - NA) * val K"
    using val_append [of "take (NB - NA) O1" K] bp by (simp add: K_def)
  have vE: "val E = val (take NA E) + base NA * val (drop NA E)"
    using val_append [of "take NA E" "drop NA E"] bp le by simp
  have bNB: "base NA * base (NB - NA) = base NB"
    using le by (simp flip: base_add)
  have tot: "val A * val B = val (take NA E) + base NA * val S + base NB * (val K + uint c)"
  proof -
    have "val A * val B = val (take NA E) + base NA * (val (drop NA E) + val (take (NB - NA) O1))
        + base NA * base (NB - NA) * val K"
      unfolding bp(3) [symmetric] vE vO by (simp add: algebra_simps)
    also have "\<dots> = val (take NA E) + base NA * (val S + base (NB - NA) * uint c)
        + base NA * base (NB - NA) * val K"
      unfolding S(3) by (simp add: algebra_simps)
    also have "\<dots> = val (take NA E) + base NA * val S + base NA * base (NB - NA) * (val K + uint c)"
      by (simp add: algebra_simps)
    finally show ?thesis unfolding bNB .
  qed
  have fit: "val K + uint c < base NA"
  proof -
    have "val A * val B < base (NA + NB)"
      using product_bounds(2) val_bound_eq [OF A] val_bound_eq [OF B] val_nonneg by blast
    then have "val A * val B < base NB * base NA" by (simp add: base_add mult.commute)
    then have "base NB * (val K + uint c) < base NB * base NA"
      using tot mult_nonneg_nonneg [OF base_pos(2) val_nonneg, of NA S] val_nonneg [of "take NA E"]
      by linarith
    then show ?thesis by (rule mult_left_less_imp_less) simp
  qed
  have R3: "length R3 = NA" "val R3 = val K + uint c"
  proof -
    obtain J ci where inc: "Increment K NA 1 = (J, ci)" by fastforce
    have J: "length J = NA" "val J + base NA * uint ci = val K + 1"
      using Increment_val [OF _ _ inc] lK NA2 by simp_all
    have c01: "c \<noteq> 0 \<Longrightarrow> uint c = 1"
      using S(2) uint_ge_1 [of c] by linarith
    then have "c \<noteq> 0 \<Longrightarrow> uint ci = 0"
      using no_carry [OF J(2) _ val_nonneg uint_ge_0 base_pos(1)] fit by simp
    then show "length R3 = NA" "val R3 = val K + uint c"
      using J lK inc c01 by (auto simp: R3_def)
  qed
  have lt: "length (take NA E) = NA" using bp le by simp
  have "val (take NA E @ S @ R3) = val (take NA E) + base NA * val S + base NA * base (NB - NA) * (val K + uint c)"
    by (simp only: val_append lt S(1) R3(2)) (simp add: algebra_simps)
  then show ?thesis
    unfolding res tot bNB using lt S(1) R3(1) le by simp
qed

lemma pow2_size_dvd:
  assumes "pow2_size a" "pow2_size b" "a < b"
  shows "2 * a dvd b"
proof -
  obtain i j where ij: "a = 2 ^ i" "b = 2 ^ j" using assms by (auto simp: pow2_size_def)
  then have "Suc i \<le> j" using assms(3) by simp
  then have "(2 :: nat) ^ Suc i dvd 2 ^ j" by (rule le_imp_power_dvd)
  then show ?thesis using ij by simp
qed

lemma AsymmetricMultiply_exact:
  assumes sz: "pow2_size NA" "pow2_size NB" and A: "length A = NA" and B: "length B = NB"
    and same: "same \<Longrightarrow> A = B"
  shows "length (AsymmetricMultiply same A NA B NB) = NA + NB \<and>
    val (AsymmetricMultiply same A NA B NB) = val A * val B"
proof -
  have ord: "length (AsymmetricMultiply_ordered X n Y k) = k + n \<and>
      val (AsymmetricMultiply_ordered X n Y k) = val X * val Y"
    if sz': "pow2_size n" "pow2_size k" "n < k" and ln: "length X = n" "length Y = k" for X Y n k
  proof -
    obtain m where "k = 2 * n * m" using pow2_size_dvd [OF sz'] by (auto elim: dvdE)
    moreover have "0 < m" using sz'(3) calculation by (cases m) simp_all
    ultimately show ?thesis
      using AsymmetricMultiply_ordered_exact [OF sz'(1) ln, of m] by (simp add: ac_simps)
  qed
  consider "NA = NB" | "NA < NB" | "NB < NA" by linarith
  then show ?thesis
  proof cases
    case 1
    then have lB: "length B = NA" using B by simp
    show ?thesis
    proof (cases same)
      case True
      then have "A = B" by (rule same)
      with True 1 show ?thesis
        using RecursiveSquare_exact [OF sz(1) A] by (simp add: AsymmetricMultiply_def)
    next
      case False
      with 1 show ?thesis
        using RecursiveMultiply_exact [OF sz(1) A lB] by (simp add: AsymmetricMultiply_def)
    qed
  next
    case 2
    then show ?thesis using ord [OF sz 2 A B] by (simp add: AsymmetricMultiply_def)
  next
    case 3
    then show ?thesis using ord [OF sz(2,1) 3 B A] by (simp add: AsymmetricMultiply_def mult.commute)
  qed
qed


subsection \<open>Properties\<close>

lemma pow2_size_numerals [simp]: "pow2_size 2" "pow2_size 4" "pow2_size 8" "pow2_size 16" "pow2_size 32"
proof -
  have "pow2_size (2 ^ k)" if "1 \<le> k" for k using that by (auto simp: pow2_size_def)
  from this [of 1] this [of 2] this [of 3] this [of 4] this [of 5]
  show "pow2_size 2" "pow2_size 4" "pow2_size 8" "pow2_size 16" "pow2_size 32" by simp_all
qed

text \<open>
  C1: Multiplication is exact at every pair of operand sizes the big integers use (powers of
  two): \<open>AsymmetricMultiply\<close>, with its Karatsuba recursion, its squaring path for identical
  operands, its Comba base cases and its block splitting, returns \<open>NA + NB\<close> words whose value
  is the product of the values.
\<close>

theorem AsymmetricMultiply_correct:
  assumes "pow2_size NA" "pow2_size NB" and "length A = NA" "length B = NB" and "same \<Longrightarrow> A = B"
  shows "length (AsymmetricMultiply same A NA B NB) = NA + NB \<and>
    val (AsymmetricMultiply same A NA B NB) = val A * val B"
  by (rule AsymmetricMultiply_exact [OF assms])

theorem AsymmetricMultiply_correct_witness:
  "val (AsymmetricMultiply False (replicate 32 7) 32 [5, 9] 2) = val (replicate 32 7) * val [5, 9]"
  by (rule conjunct2 [OF AsymmetricMultiply_correct]) simp_all

text \<open>
  C2: The half products used by Montgomery reduction fit together: \<open>RecursiveMultiplyTop\<close>,
  given the bottom half computed by \<open>RecursiveMultiplyBottom\<close>, returns exactly the missing
  top half, so the two halves together are the product of \<open>RecursiveMultiply\<close>.
\<close>

theorem half_products_equivalence:
  assumes "pow2_size N" "length A = N" "length B = N"
  shows "RecursiveMultiplyBottom A B N @ RecursiveMultiplyTop (RecursiveMultiplyBottom A B N) A B N
    = RecursiveMultiply A B N"
proof -
  have bot: "length (RecursiveMultiplyBottom A B N) = N"
    "val (RecursiveMultiplyBottom A B N) = (val A * val B) mod base N"
    using RecursiveMultiplyBottom_exact [OF assms] by simp_all
  have top: "length (RecursiveMultiplyTop (RecursiveMultiplyBottom A B N) A B N) = N"
    "val (RecursiveMultiplyTop (RecursiveMultiplyBottom A B N) A B N) = (val A * val B) div base N"
    using RecursiveMultiplyTop_exact [OF assms bot] by simp_all
  show ?thesis
    by (rule val_inject) (use bot top RecursiveMultiply_exact [OF assms] in \<open>simp_all add: val_append\<close>)
qed

theorem half_products_equivalence_witness:
  "RecursiveMultiplyBottom (replicate 16 9) (replicate 16 5) 16
    @ RecursiveMultiplyTop (RecursiveMultiplyBottom (replicate 16 9) (replicate 16 5) 16)
        (replicate 16 9) (replicate 16 5) 16
    = RecursiveMultiply (replicate 16 9) (replicate 16 5) 16"
  by (rule half_products_equivalence) simp_all

end
