(* ===== verification/Montgomery.thy ===== *)
theory Montgomery
  imports Karatsuba
begin

section \<open>Inverses modulo a power of two and Montgomery reduction\<close>

text \<open>
  \<open>AtomicInverseModPower2\<close>, \<open>RecursiveInverseModPower2\<close>, \<open>MontgomeryReduce\<close> and
  \<open>DivideByPower2Mod\<close> of \<open>bigint/algorithms.cpp\<close>.  The Newton iteration doubles the
  number of correct bits in every round; the recursive inverse lifts it to arrays of words;
  the reduction divides by the base modulo \<open>M\<close> with one conditional correction.
\<close>

text \<open>
  The loop \<open>for (i = 3; i < 2*WORD_BITS; i *= 2)\<close>: \<open>i\<close> is the number of correct low bits
  before the round.
\<close>

definition newton_precisions :: "nat list" where
  "newton_precisions = [3, 6, 12, 24, 48]"

definition AtomicInverseModPower2 :: "tuint \<Rightarrow> tuint \<Rightarrow> tuint list" where
  "AtomicInverseModPower2 A0 A1 =
     (let A = MAKE_DWORD A0 A1;
          R = fold (\<lambda>i R. R * (2 - R * A)) newton_precisions (ucast (A0 mod 8))
      in [LOW_WORD R, HIGH_WORD R])"

function RecursiveInverseModPower2 :: "tuint list \<Rightarrow> nat \<Rightarrow> tuint list" where
  "RecursiveInverseModPower2 A N =
     (if N \<le> 2 then AtomicInverseModPower2 (A ! 0) (A ! 1)
      else
       (let N2 = N div 2;
            A0 = take N2 A; A1 = take N2 (drop N2 A);
            R0 = RecursiveInverseModPower2 A0 N2;
            T0 = 1 # replicate (N2 - 1) 0;
            R1 = RecursiveMultiplyTop T0 R0 A0 N2;
            T0 = RecursiveMultiplyBottom R0 A1 N2;
            T0 = fst (Add R1 T0 N2);
            T0 = TwosComplement T0 N2
        in R0 @ RecursiveMultiplyBottom R0 T0 N2))"
  by auto
termination
  by (relation "measure snd") simp_all

declare RecursiveInverseModPower2.simps [simp del]

definition MontgomeryReduce :: "tuint list \<Rightarrow> tuint list \<Rightarrow> tuint list \<Rightarrow> nat \<Rightarrow> tuint list" where
  "MontgomeryReduce X M U N =
     (let R = RecursiveMultiplyBottom (take N X) U N;
          T = RecursiveMultiplyTop (take N X) R M N;
          (R, borrow) = Subtract (drop N X) T N
      in if borrow \<noteq> 0 then fst (Add R M N) else R)"

fun DivideByPower2Mod :: "tuint list \<Rightarrow> nat \<Rightarrow> tuint list \<Rightarrow> nat \<Rightarrow> tuint list" where
  "DivideByPower2Mod R 0 M N = R"
| "DivideByPower2Mod R (Suc k) M N =
     (if even (R ! 0) then DivideByPower2Mod (fst (ShiftWordsRightByBits R N 1)) k M N
      else
       (let (S, carry) = Add R M N;
            S = fst (ShiftWordsRightByBits S N 1)
        in DivideByPower2Mod (S[N - 1 := S ! (N - 1) + push_bit 31 carry]) k M N))"

subsection \<open>The Newton iteration\<close>

lemma newton_step_dvd:
  fixes a r r' n m :: int and k l :: nat
  assumes "2 ^ k dvd r * a - 1" and "l \<le> 2 * k" and "l \<le> 64"
    and r': "2 ^ 64 dvd r' - r * (2 - r * a)"
  shows "2 ^ l dvd r' * a - 1"
proof -
  have "(2 :: int) ^ l dvd 2 ^ (2 * k)" using assms(2) by (rule le_imp_power_dvd)
  also have "(2 :: int) ^ (2 * k) dvd (r * a - 1) ^ 2"
    using dvd_power_same [OF assms(1), of 2] by (simp add: power_mult mult.commute [of 2])
  finally have sq: "2 ^ l dvd (r * a - 1) ^ 2" .
  have "(2 :: int) ^ l dvd 2 ^ 64" using assms(3) by (rule le_imp_power_dvd)
  with r' have "2 ^ l dvd r' - r * (2 - r * a)" using dvd_trans by blast
  then have "2 ^ l dvd (r' - r * (2 - r * a)) * a" by (rule dvd_mult2)
  moreover have "r' * a - 1 = (r' - r * (2 - r * a)) * a - (r * a - 1) ^ 2"
    by (simp add: power2_eq_square algebra_simps)
  ultimately show ?thesis using sq by (simp add: dvd_diff)
qed

lemma newton_step_word:
  fixes R A :: dword
  shows "2 ^ 64 dvd uint (R * (2 - R * A)) - uint R * (2 - uint R * uint A)"
proof -
  have two: "uint (2 :: dword) = 2" by simp
  have "uint (R * (2 - R * A)) = (uint R * (2 - uint R * uint A)) mod 2 ^ 64"
    unfolding uint_dword_arith two
    by (simp only: mod_simps) simp
  then show ?thesis
    by (simp add: mod_eq_dvd_iff [symmetric])
qed

lemma newton_word:
  assumes "2 ^ k dvd uint R * uint (A :: dword) - 1" and "l \<le> 2 * k" and "l \<le> 64"
  shows "2 ^ l dvd uint (R * (2 - R * A)) * uint A - 1"
  by (rule newton_step_dvd [OF assms newton_step_word])

lemma odd_uint_iff: "odd (uint (x :: tuint)) \<longleftrightarrow> odd x"
  by transfer (simp add: even_take_bit_eq)

lemma odd_square_8: "odd (a :: int) \<Longrightarrow> 8 dvd (a mod 8) * a - 1"
proof -
  assume "odd a"
  moreover have "a mod 8 \<in> {0, 1, 2, 3, 4, 5, 6, 7}" by (simp, presburger)
  ultimately show ?thesis
    by (auto simp: mod_eq_dvd_iff [symmetric] mod_mult_eq [symmetric, of _ a]) presburger+
qed

lemma AtomicInverseModPower2_val:
  assumes "odd A0"
  shows "length (AtomicInverseModPower2 A0 A1) = 2"
    and "(val (AtomicInverseModPower2 A0 A1) * val [A0, A1]) mod base 2 = 1"
proof -
  define A where "A = MAKE_DWORD A0 A1"
  define r :: "nat \<Rightarrow> dword" where
    "r = (\<lambda>n. ((\<lambda>R. R * (2 - R * A)) ^^ n) (ucast (A0 mod 8)))"
  have uA: "uint A = val [A0, A1]" by (simp add: A_def uint_MAKE_DWORD)
  have oA: "odd (uint A0)" using assms by (simp add: odd_uint_iff)
  have r0: "uint (r 0) = uint A mod 8"
    by (simp add: r_def uA uint_mod mod_mult_eq [symmetric, of 4294967296]
        mod_add_right_eq [symmetric, of _ "4294967296 * _"])
  have "odd (uint A)" using oA by (simp add: uA)
  then have "2 ^ 3 dvd uint (r 0) * uint A - 1"
    unfolding r0 using odd_square_8 by simp
  then have "2 ^ 6 dvd uint (r 1) * uint A - 1" using newton_word [of 3 "r 0" A 6] by (simp add: r_def)
  then have "2 ^ 12 dvd uint (r 2) * uint A - 1" using newton_word [of 6 "r 1" A 12] by (simp add: r_def numeral_eq_Suc)
  then have "2 ^ 24 dvd uint (r 3) * uint A - 1" using newton_word [of 12 "r 2" A 24] by (simp add: r_def numeral_eq_Suc)
  then have "2 ^ 48 dvd uint (r 4) * uint A - 1" using newton_word [of 24 "r 3" A 48] by (simp add: r_def numeral_eq_Suc)
  then have fin: "2 ^ 64 dvd uint (r 5) * uint A - 1" using newton_word [of 48 "r 4" A 64] by (simp add: r_def numeral_eq_Suc)
  have res: "AtomicInverseModPower2 A0 A1 = [LOW_WORD (r 5), HIGH_WORD (r 5)]"
    by (simp add: AtomicInverseModPower2_def Let_def newton_precisions_def r_def numeral_eq_Suc A_def)
  show "length (AtomicInverseModPower2 A0 A1) = 2" by (simp add: res)
  have v: "val (AtomicInverseModPower2 A0 A1) = uint (r 5)"
    using dword_split [of "r 5"] by (simp add: res)
  have "(uint (r 5) * uint A) mod 2 ^ 64 = 1 mod 2 ^ 64"
    using fin by (simp only: mod_eq_dvd_iff)
  then show "(val (AtomicInverseModPower2 A0 A1) * val [A0, A1]) mod base 2 = 1"
    by (simp only: v uA) (simp add: base_def)
qed


lemma pow2_size_induct [consumes 1, case_names two double]:
  assumes "pow2_size N" and "P 2" and "\<And>n. pow2_size n \<Longrightarrow> P n \<Longrightarrow> P (2 * n)"
  shows "P N"
proof -
  obtain k where "1 \<le> k" "N = 2 ^ k" using assms(1) by (auto simp: pow2_size_def)
  then show ?thesis
  proof (induction k arbitrary: N rule: dec_induct)
    case base
    then show ?case using assms(2) by simp
  next
    case (step k)
    have "pow2_size (2 ^ k)" using step.hyps by (auto simp: pow2_size_def)
    from assms(3) [OF this step.IH] show ?case using step.prems by simp
  qed
qed

lemma inverse_lift_arith:
  fixes P a0 a1 r0 h t r1 :: int
  assumes "r0 * a0 = 1 + P * h" and t: "(t + h + r0 * a1) mod P = 0" and r1: "r1 mod P = (r0 * t) mod P"
  shows "((r0 + P * r1) * (a0 + P * a1)) mod (P * P) = 1 mod (P * P)"
proof -
  have "P dvd t + h + r0 * a1" using t by auto
  moreover have "P dvd r1 - r0 * t" using r1 by (simp add: mod_eq_dvd_iff)
  ultimately obtain u v where u: "t = P * u - h - r0 * a1" and v: "r1 = P * v + r0 * t"
    by (metis add_diff_cancel_left' diff_add_eq diff_diff_eq2 dvdE diff_add_cancel)
  have "(r0 + P * r1) * (a0 + P * a1) = r0 * a0 + P * (r1 * a0 + r0 * a1) + P * P * (r1 * a1)"
    by (simp add: algebra_simps)
  also have "r1 * a0 = P * v * a0 + t * (r0 * a0)"
    unfolding v by (simp add: algebra_simps)
  also have "\<dots> = P * v * a0 + t * (1 + P * h)" unfolding assms(1) ..
  also have "t * (1 + P * h) = P * u - h - r0 * a1 + P * (t * h)"
    unfolding distrib_left by (simp add: u algebra_simps)
  also have "r0 * a0 + P * (P * v * a0 + (P * u - h - r0 * a1 + P * (t * h)) + r0 * a1) + P * P * (r1 * a1)
      = 1 + P * P * (v * a0 + u + t * h + r1 * a1)"
    unfolding assms(1) by (simp add: algebra_simps)
  finally show ?thesis by simp
qed

lemma RecursiveInverseModPower2_exact:
  assumes "pow2_size N" and "length A = N" and "odd (A ! 0)"
  shows "length (RecursiveInverseModPower2 A N) = N \<and>
    (val (RecursiveInverseModPower2 A N) * val A) mod base N = 1"
  using assms
proof (induction N arbitrary: A rule: pow2_size_induct)
  case two
  then obtain x y where A: "A = [x, y]"
    by (metis (no_types, opaque_lifting) One_nat_def Suc_1 length_0_conv length_Suc_conv)
  then show ?case
    using AtomicInverseModPower2_val [of x y] two by (simp add: RecursiveInverseModPower2.simps)
next
  case (double N2)
  let ?N = "2 * N2" and ?P = "base N2"
  have ge: "2 \<le> N2" and ev: "even N2"
    using pow2_size_ge [OF double.hyps] pow2_size_even [OF double.hyps] by simp_all
  define A0 A1 where "A0 = take N2 A" "A1 = take N2 (drop N2 A)"
  note hA = val_halves [OF double.prems(1) refl, folded A0_A1_def]
  have odd0: "odd (A0 ! 0)" using double.prems ge by (simp add: A0_A1_def)
  define R0 where "R0 = RecursiveInverseModPower2 A0 N2"
  have R0: "length R0 = N2" "(val R0 * val A0) mod ?P = 1"
    using double.IH [OF hA(1) odd0] by (simp_all add: R0_def)
  define L where "L = (1 :: tuint) # replicate (N2 - 1) 0"
  have L: "length L = N2" "val L = (val R0 * val A0) mod ?P"
    using ge R0(2) by (simp_all add: L_def)
  define h where "h = RecursiveMultiplyTop L R0 A0 N2"
  have h: "length h = N2" "val h = (val R0 * val A0) div ?P"
    using RecursiveMultiplyTop_exact [OF double.hyps R0(1) hA(1) L] by (simp_all add: h_def)
  define B where "B = RecursiveMultiplyBottom R0 A1 N2"
  have B: "length B = N2" "val B = (val R0 * val A1) mod ?P"
    using RecursiveMultiplyBottom_exact [OF double.hyps R0(1) hA(2)] by (simp_all add: B_def)
  obtain S c where S: "Add h B N2 = (S, c)" by fastforce
  have vS: "length S = N2" "val S + ?P * uint c = val h + val B"
    using Add_val [OF _ _ ev S] h B by simp_all
  define T where "T = TwosComplement S N2"
  have T: "length T = N2" "val T = (- val S) mod ?P"
    using TwosComplement_val [of N2 S] vS(1) ge by (simp_all add: T_def)
  define R1 where "R1 = RecursiveMultiplyBottom R0 T N2"
  have R1: "length R1 = N2" "val R1 = (val R0 * val T) mod ?P"
    using RecursiveMultiplyBottom_exact [OF double.hyps R0(1) T(1)] by (simp_all add: R1_def)
  have res: "RecursiveInverseModPower2 A ?N = R0 @ R1"
    using ge S by (subst RecursiveInverseModPower2.simps)
      (simp add: Let_def R1_def T_def B_def h_def L_def R0_def A0_A1_def)
  have e1: "val R0 * val A0 = 1 + ?P * val h"
    using R0(2) h(2) by (metis add.commute mult_div_mod_eq)
  have e2: "(val T + val h + val R0 * val A1) mod ?P = 0"
  proof -
    have "val S mod ?P = (val h + val B) mod ?P"
      unfolding vS(2) [symmetric] by simp
    then have "(val T + val h + val R0 * val A1) mod ?P = (- (val h + val B) + val h + val B) mod ?P"
      unfolding T(2) B(2) by (metis (no_types, opaque_lifting) mod_add_eq mod_add_left_eq mod_minus_eq mod_mod_trivial)
    then show ?thesis by simp
  qed
  have e3: "val R1 mod ?P = (val R0 * val T) mod ?P" unfolding R1(2) by simp
  have "((val R0 + ?P * val R1) * (val A0 + ?P * val A1)) mod (?P * ?P) = 1 mod (?P * ?P)"
    by (rule inverse_lift_arith [OF e1 e2 e3])
  moreover have "1 < ?P * ?P"
    using ge by (simp add: base_def flip: power_add)
  ultimately have "((val R0 + ?P * val R1) * (val A0 + ?P * val A1)) mod (?P * ?P) = 1"
    by (simp add: mod_pos_pos_trivial)
  then show ?case
    unfolding res hA(3) base_double [OF refl] using R0(1) R1(1) by (simp add: val_append)
qed


subsection \<open>Montgomery reduction\<close>

lemma montgomery_arith:
  fixes P m u x0 r t :: int
  assumes "0 < P" and um: "(u * m) mod P = 1" and x0: "0 \<le> x0" "x0 < P"
    and r: "r = (x0 * u) mod P" and t: "t = (r * m) div P" and m: "0 < m"
  shows "r * m = x0 + P * t" and "(r * m) mod P = x0" and "0 \<le> t" and "t < m"
proof -
  have "(r * m) mod P = (x0 * (u * m)) mod P"
    unfolding r by (simp add: mod_mult_left_eq mult.assoc)
  also have "\<dots> = (x0 * ((u * m) mod P)) mod P" by (simp add: mod_mult_right_eq)
  also have "\<dots> = x0" unfolding um using x0 by (simp add: mod_pos_pos_trivial)
  finally show md: "(r * m) mod P = x0" .
  then show "r * m = x0 + P * t" unfolding t using mult_div_mod_eq [of P "r * m"] by simp
  have rb: "0 \<le> r" "r < P" using assms(1) by (simp_all add: r)
  show "0 \<le> t" using rb m assms(1) by (simp add: t pos_imp_zdiv_nonneg_iff)
  have "r * m < m * P" using mult_strict_right_mono [OF rb(2) m] by (simp add: mult.commute)
  then show "t < m" unfolding t by (rule int_div_less [OF assms(1)])
qed

lemma MontgomeryReduce_exact:
  assumes N: "pow2_size N" and X: "length X = 2 * N" and M: "length M = N" and U: "length U = N"
    and inv: "(val U * val M) mod base N = 1" and lt: "val X < val M * base N"
  shows "length (MontgomeryReduce X M U N) = N \<and> val (MontgomeryReduce X M U N) < val M \<and>
    (val (MontgomeryReduce X M U N) * base N) mod val M = val X mod val M"
proof -
  let ?P = "base N"
  have ev: "even N" by (rule pow2_size_even [OF N])
  define x0 x1 where "x0 = take N X" "x1 = drop N X"
  have lx: "length x0 = N" "length x1 = N" using X by (simp_all add: x0_x1_def)
  have vX: "val X = val x0 + ?P * val x1"
    using val_div_mod_halves(3) [OF X] by (simp add: x0_x1_def)
  have mpos: "0 < val M"
  proof (rule ccontr)
    assume "\<not> 0 < val M"
    then have "val M = 0" using val_nonneg [of M] by linarith
    then show False using inv by simp
  qed
  define R where "R = RecursiveMultiplyBottom x0 U N"
  have R: "length R = N" "val R = (val x0 * val U) mod ?P"
    using RecursiveMultiplyBottom_exact [OF N lx(1) U] by (simp_all add: R_def)
  define T where "T = RecursiveMultiplyTop x0 R M N"
  define t where "t = (val R * val M) div ?P"
  note ar = montgomery_arith [OF base_pos(1) inv val_nonneg val_bound_eq [OF lx(1)] R(2) t_def mpos]
  have T: "length T = N" "val T = t"
    using RecursiveMultiplyTop_exact [OF N R(1) M lx(1)] ar(2) by (simp_all add: T_def t_def)
  have key: "val X - val R * val M = ?P * (val x1 - t)"
    unfolding ar(1) vX by (simp add: algebra_simps)
  have x1m: "val x1 < val M"
  proof -
    have "?P * val x1 < ?P * val M"
      using lt [unfolded mult.commute [of "val M"]] vX val_nonneg [of x0] by linarith
    then show ?thesis by (rule mult_left_less_imp_less) simp
  qed
  obtain S b where sub: "Subtract x1 T N = (S, b)" by fastforce
  have S: "length S = N" "val S = val x1 - t + ?P * uint b"
    using Subtract_val [OF _ _ ev sub] lx T by simp_all
  have b: "uint b = (if val x1 < t then 1 else 0)"
    using Subtract_borrow_iff [OF _ _ ev sub] lx T by simp
  have res: "MontgomeryReduce X M U N = (if b \<noteq> 0 then fst (Add S M N) else S)"
    using sub by (simp add: MontgomeryReduce_def Let_def R_def T_def x0_x1_def)
  have ok: "y < val M \<and> (y * ?P) mod val M = val X mod val M"
    if "y = val x1 - t + k * val M" "y < val M" for y k :: int
  proof -
    have "y * ?P = val X + val M * (k * ?P - val R)"
    proof -
      have "y * ?P = ?P * (val x1 - t) + val M * (k * ?P)"
        unfolding that(1) by (simp add: algebra_simps)
      then show ?thesis unfolding key [symmetric] by (simp add: algebra_simps)
    qed
    then show ?thesis using that(2) by simp
  qed
  show ?thesis
  proof (cases "val x1 < t")
    case False
    then have "MontgomeryReduce X M U N = S" "val S = val x1 - t + 0 * val M"
      using res b S by (simp_all add: word_uint_eq_iff)
    then show ?thesis using ok [of "val S" 0] S(1) x1m ar(3) by simp
  next
    case True
    then have b1: "uint b = 1" using b by simp
    then have bz: "b \<noteq> 0" by auto
    obtain A c where add: "Add S M N = (A, c)" by fastforce
    have A: "length A = N" "uint c \<le> 1" "val A + ?P * uint c = val S + val M"
      using Add_val [OF _ _ ev add] S(1) M by simp_all
    have s: "val A + ?P * uint c = val x1 - t + val M + ?P"
      using A(3) S(2) b1 by simp
    have "uint c = 1"
    proof (rule ccontr)
      assume "uint c \<noteq> 1"
      then have "uint c = 0" using A(2) uint_ge_0 [of c] by linarith
      then show False using s val_bound_eq [OF A(1)] ar(4) val_nonneg [of x1] by simp
    qed
    then have "val A = val x1 - t + 1 * val M" using s by simp
    moreover have "MontgomeryReduce X M U N = A" using res bz add by simp
    ultimately show ?thesis using ok [of "val A" 1] A(1) True by simp
  qed
qed

subsection \<open>Division by a power of two modulo an odd number\<close>

lemma val_update_last:
  assumes "length S = N" and "0 < N"
  shows "val (S[N - 1 := w]) = val S + base (N - 1) * (uint w - uint (S ! (N - 1)))"
proof -
  have S: "S = take (N - 1) S @ [S ! (N - 1)]"
    using assms by (metis append_butlast_last_id butlast_conv_take last_conv_nth length_greater_0_conv)
  have "S[N - 1 := w] = take (N - 1) S @ [w]"
    using assms by (subst S) (simp add: list_update_append)
  moreover have "val S = val (take (N - 1) S @ [S ! (N - 1)])" using S by simp
  ultimately show ?thesis
    using assms by (simp add: val_append algebra_simps)
qed

lemma odd_val_iff: "0 < length R \<Longrightarrow> odd (val R) \<longleftrightarrow> odd (R ! 0)"
  by (cases R) (simp_all add: odd_uint_iff)

lemma val_top_le: 
  assumes "length S = N" "0 < N"
  shows "base (N - 1) * uint (S ! (N - 1)) \<le> val S"
  using val_update_last [OF assms, of 0] val_nonneg [of "S[N - 1 := 0]"]
  by (simp add: right_diff_distrib' del: val_nonneg)

lemma halve_step:
  assumes R: "length R = N" and M: "length M = N" and N: "even N" "0 < N"
    and add: "Add R M N = (S, c)" and sh: "fst (ShiftWordsRightByBits S N 1) = S'"
  shows "length (S'[N - 1 := S' ! (N - 1) + push_bit 31 c]) = N"
    and "val (S'[N - 1 := S' ! (N - 1) + push_bit 31 c]) = (val R + val M) div 2"
proof -
  have S: "length S = N" "uint c \<le> 1" "val S + base N * uint c = val R + val M"
    using Add_val [OF _ _ N(1) add] R M by simp_all
  obtain cc where "ShiftWordsRightByBits S N 1 = (S', cc)" using sh by (cases "ShiftWordsRightByBits S N 1") simp
  then have S': "length S' = N" "val S' = val S div 2"
    using ShiftWordsRightByBits_val [of N S 1 S' cc] S(1) by simp_all
  then show "length (S'[N - 1 := S' ! (N - 1) + push_bit 31 c]) = N" by simp
  have bN: "base N = 4294967296 * base (N - 1)" using N(2) by (cases N) simp_all
  have top: "uint (S' ! (N - 1)) < 2147483648"
  proof -
    have "base (N - 1) * uint (S' ! (N - 1)) \<le> val S div 2"
      using val_top_le [OF S'(1) N(2)] S'(2) by simp
    also have "\<dots> < base (N - 1) * 2147483648"
      using val_bound_eq [OF S(1)] bN by simp
    finally show ?thesis by (rule mult_left_less_imp_less) simp
  qed
  have c01: "c = 0 \<or> c = 1"
    using S(2) uint_ge_0 [of c] by (metis uint_ge_1 order_antisym word_uint_eqI uint_1_eq)
  have "uint (S' ! (N - 1) + push_bit 31 c) = uint (S' ! (N - 1)) + 2147483648 * uint c"
    using c01 top by (auto simp: uint_tuint_arith push_bit_eq_mult mod_pos_pos_trivial)
  then have "val (S'[N - 1 := S' ! (N - 1) + push_bit 31 c]) = val S div 2 + base (N - 1) * 2147483648 * uint c"
    using val_update_last [OF S'(1) N(2)] S'(2) by simp
  also have "\<dots> = (val S + base N * uint c) div 2"
    unfolding bN using c01 by auto
  finally show "val (S'[N - 1 := S' ! (N - 1) + push_bit 31 c]) = (val R + val M) div 2"
    using S(3) by simp
qed

lemma DivideByPower2Mod_exact:
  assumes "length A = N" and "length M = N" and "even N" "0 < N" and "odd (M ! 0)" and "val A < val M"
  shows "length (DivideByPower2Mod A k M N) = N \<and> val (DivideByPower2Mod A k M N) < val M \<and>
    (val (DivideByPower2Mod A k M N) * 2 ^ k) mod val M = val A mod val M"
  using assms(1,6)
proof (induction k arbitrary: A)
  case (Suc k)
  have oM: "odd (val M)" using odd_val_iff [of M] assms by simp
  have cont: ?case if B: "length B = N" "val B < val M" "(2 * val B) mod val M = val A mod val M"
    and D: "DivideByPower2Mod A (Suc k) M N = DivideByPower2Mod B k M N" for B
  proof -
    define D where "D = val (DivideByPower2Mod B k M N)"
    have IH: "(D * 2 ^ k) mod val M = val B mod val M"
      using Suc.IH [OF B(1,2)] by (simp add: D_def)
    have "(D * 2 ^ Suc k) mod val M = (2 * (D * 2 ^ k)) mod val M" by (simp add: ac_simps)
    also have "\<dots> = (2 * ((D * 2 ^ k) mod val M)) mod val M" by (simp add: mod_mult_right_eq)
    also have "\<dots> = (2 * val B) mod val M" unfolding IH by (simp add: mod_mult_right_eq)
    finally show ?thesis
      using Suc.IH [OF B(1,2)] B(3) unfolding D D_def by simp
  qed
  show ?case
  proof (cases "even (A ! 0)")
    case True
    obtain B c where sh: "ShiftWordsRightByBits A N 1 = (B, c)" by fastforce
    have B: "length B = N" "val B = val A div 2"
      using ShiftWordsRightByBits_val [of N A 1 B c] sh Suc.prems by simp_all
    have "even (val A)" using True odd_val_iff [of A] Suc.prems assms by simp
    then have "2 * val B = val A" using B(2) by simp
    moreover have "val B < val M" using B(2) Suc.prems(2) val_nonneg [of A] by linarith
    ultimately show ?thesis using cont [OF B(1)] True sh by simp
  next
    case False
    obtain S c where add: "Add A M N = (S, c)" by fastforce
    define S' where "S' = fst (ShiftWordsRightByBits S N 1)"
    define B where "B = S'[N - 1 := S' ! (N - 1) + push_bit 31 c]"
    note hs = halve_step [OF Suc.prems(1) assms(2,3,4) add S'_def [symmetric], folded B_def]
    have "odd (val A)" using False odd_val_iff [of A] Suc.prems assms by simp
    then have "2 * val B = val A + val M" using hs(2) oM by simp
    moreover have "val B < val M" using calculation Suc.prems(2) by linarith
    ultimately show ?thesis
      using cont [OF hs(1)] False add by (simp add: Let_def S'_def B_def)
  qed
qed simp


subsection \<open>Properties\<close>

text \<open>
  C5: Montgomery reduction with the inverse the code computes: for an odd modulus \<open>M\<close> and
  \<open>X < M * base N\<close>, reducing \<open>X\<close> with \<open>U = RecursiveInverseModPower2 M\<close> gives the number
  below \<open>M\<close> whose product with \<open>base N\<close> is \<open>X\<close> modulo \<open>M\<close>.
\<close>

theorem MontgomeryReduce_correct:
  assumes "pow2_size N" "length M = N" "odd (M ! 0)" "length X = 2 * N" "val X < val M * base N"
  defines "R \<equiv> MontgomeryReduce X M (RecursiveInverseModPower2 M N) N"
  shows "length R = N \<and> val R < val M \<and> (val R * base N) mod val M = val X mod val M"
proof -
  note inv = RecursiveInverseModPower2_exact [OF assms(1-3)]
  show ?thesis
    unfolding R_def
    by (rule MontgomeryReduce_exact [OF assms(1,4,2) conjunct1 [OF inv] conjunct2 [OF inv] assms(5)])
qed

theorem MontgomeryReduce_correct_witness:
  "val (MontgomeryReduce [5, 6, 1, 0] [9, 1] (RecursiveInverseModPower2 [9, 1] 2) 2) < val [9, 1]"
  using MontgomeryReduce_correct [of 2 "[9, 1]" "[5, 6, 1, 0]"]
  by (simp add: base_def)

text \<open>
  C6: Dividing by a power of two modulo an odd number: the result times \<open>2 ^ k\<close> is the
  argument modulo \<open>M\<close>, and the result stays below \<open>M\<close>.
\<close>

theorem DivideByPower2Mod_correct:
  assumes "length A = N" "length M = N" "even N" "0 < N" "odd (M ! 0)" "val A < val M"
  shows "length (DivideByPower2Mod A k M N) = N \<and> val (DivideByPower2Mod A k M N) < val M \<and>
    (val (DivideByPower2Mod A k M N) * 2 ^ k) mod val M = val A mod val M"
  by (rule DivideByPower2Mod_exact [OF assms])

theorem DivideByPower2Mod_correct_witness:
  "(val (DivideByPower2Mod [1, 0] 40 [7, 0] 2) * 2 ^ 40) mod val [7, 0] = val [1, 0] mod val [7, 0]"
  using DivideByPower2Mod_correct [of "[1, 0]" 2 "[7, 0]" 40] by simp

end
