(* ===== verification/Division.thy ===== *)
theory Division
  imports Karatsuba
begin

section \<open>Division of word arrays\<close>

text \<open>
  \<open>SubatomicDivide\<close>, \<open>AtomicDivide\<close>, \<open>CorrectQuotientEstimate\<close> and \<open>Divide\<close> of
  \<open>bigint/algorithms.cpp\<close>: schoolbook division by two words at a time, with an estimate
  from the top words that is corrected upwards.  The two correction loops have no bound in the
  source, so they are partial functions and \<open>None\<close> is not returning; the lemmas show
  that they return whenever the divisor is not zero.
\<close>

subsection \<open>Three words by two words\<close>

partial_function (option) SubatomicDivide_fix ::
  "tuint \<Rightarrow> tuint \<Rightarrow> tuint \<Rightarrow> tuint \<Rightarrow> tuint \<Rightarrow> tuint \<Rightarrow> (tuint list \<times> tuint) option" where
  [code]: "SubatomicDivide_fix B0 B1 A0 A1 A2 Q =
     (if A2 \<noteq> 0 \<or> A1 > B1 \<or> (A1 = B1 \<and> A0 \<ge> B0) then
        (let u = (ucast A0 - ucast B0 :: dword);
             A0' = LOW_WORD u;
             u = (ucast A1 - ucast B1 - ucast (0 - HIGH_WORD u) :: dword)
         in SubatomicDivide_fix B0 B1 A0' (LOW_WORD u) (A2 + HIGH_WORD u) (Q + 1))
      else Some ([A0, A1, A2], Q))"

definition SubatomicDivide_estimate :: "tuint \<Rightarrow> tuint \<Rightarrow> tuint \<Rightarrow> tuint" where
  "SubatomicDivide_estimate A1 A2 B1 =
     (if B1 + 1 = 0 then A2 else LOW_WORD (MAKE_DWORD A1 A2 div ucast (B1 + 1)))"

definition SubatomicDivide :: "tuint \<Rightarrow> tuint \<Rightarrow> tuint \<Rightarrow> tuint \<Rightarrow> tuint \<Rightarrow> (tuint list \<times> tuint) option" where
  "SubatomicDivide A0 A1 A2 B0 B1 =
     (let Q = SubatomicDivide_estimate A1 A2 B1;
          p = (ucast B0 * ucast Q :: dword);
          u = (ucast A0 - ucast (LOW_WORD p) :: dword);
          A0' = LOW_WORD u;
          u = (ucast A1 - ucast (HIGH_WORD p) - ucast (0 - HIGH_WORD u) - ucast B1 * ucast Q :: dword)
      in SubatomicDivide_fix B0 B1 A0' (LOW_WORD u) (A2 + HIGH_WORD u) Q)"

definition AtomicDivide :: "tuint list \<Rightarrow> tuint list \<Rightarrow> (tuint list) option" where
  "AtomicDivide A B =
     (if B ! 0 = 0 \<and> B ! 1 = 0 then Some [A ! 2, A ! 3]
      else Option.bind (SubatomicDivide (A ! 1) (A ! 2) (A ! 3) (B ! 0) (B ! 1)) (\<lambda>(T, Q1).
           Option.bind (SubatomicDivide (A ! 0) (T ! 0) (T ! 1) (B ! 0) (B ! 1)) (\<lambda>(T', Q0).
           Some [Q0, Q1])))"

subsection \<open>Correcting the estimate\<close>

text \<open>
  The two passes of products: the blocks at \<open>i = 0, 4, ...\<close> are stored, the blocks at
  \<open>i = 2, 6, ...\<close> are added, their carry going to the two words behind the block.
  Both recurse on the suffixes of \<open>B\<close> and \<open>T\<close> from position \<open>i\<close>.
\<close>

function block_products_store :: "tuint list \<Rightarrow> tuint list \<Rightarrow> tuint list" where
  "block_products_store Q B =
     (if B = [] then [] else AtomicMultiply Q B @ block_products_store Q (drop 4 B))"
  by auto
termination
  by (relation "measure (\<lambda>(Q, B). length B)") (simp_all add: diff_less)

declare block_products_store.simps [simp del]

definition add_block_carry :: "tuint \<Rightarrow> tuint list \<Rightarrow> tuint list" where
  "add_block_carry c T =
     (if c \<noteq> 0 then
        (let T = T[0 := T ! 0 + 1] in T[1 := T ! 1 + (if T ! 0 = 0 then 1 else 0)])
      else T)"

function block_products_add :: "tuint list \<Rightarrow> tuint list \<Rightarrow> tuint list \<Rightarrow> tuint list" where
  "block_products_add Q B T =
     (if B = [] then T
      else (let (C, c) = AtomicMultiplyAdd (take 4 T) Q B
            in C @ block_products_add Q (drop 4 B) (add_block_carry c (drop 4 T))))"
  by auto
termination
  by (relation "measure (\<lambda>(Q, B, T). length B)") (simp_all add: diff_less)

declare block_products_add.simps [simp del]

definition quotient_times_divisor :: "tuint list \<Rightarrow> tuint list \<Rightarrow> nat \<Rightarrow> tuint list" where
  "quotient_times_divisor Q B N =
     (if Q ! 1 \<noteq> 0 then
        (let T = take (N + 2) (block_products_store Q (take N B) @ [0, 0])
         in take 2 T @ block_products_add Q (drop 2 (take N B)) (drop 2 T))
      else (let (T, c) = LinearMultiply B (Q ! 0) N in T @ [c, 0]))"

partial_function (option) CorrectQuotient_loop ::
  "tuint list \<Rightarrow> nat \<Rightarrow> tuint list \<Rightarrow> tuint list \<Rightarrow> (tuint list \<times> tuint list) option" where
  [code]: "CorrectQuotient_loop B N R Q =
     (if R ! N \<noteq> 0 \<or> Compare R B N \<ge> 0 then
        (let (S, borrow) = Subtract R B N;
             Q = Q[0 := Q ! 0 + 1];
             Q = Q[1 := Q ! 1 + (if Q ! 0 = 0 then 1 else 0)]
         in CorrectQuotient_loop B N (S @ (R ! N - borrow) # drop (N + 1) R) Q)
      else Some (R, Q))"

definition CorrectQuotientEstimate ::
  "tuint list \<Rightarrow> tuint list \<Rightarrow> tuint list \<Rightarrow> nat \<Rightarrow> (tuint list \<times> tuint list) option" where
  "CorrectQuotientEstimate R Q B N =
     CorrectQuotient_loop B N (fst (Subtract R (quotient_times_divisor Q B N) (N + 2))) Q"

subsection \<open>Division\<close>

text \<open>
  \<open>Divide_first\<close> is the loop for the top quotient word, on the words of \<open>TA\<close> from
  \<open>NA - NB\<close>; \<open>Divide_loop\<close> is the loop over \<open>i\<close>, whose result is the quotient words
  \<open>Q[0..i+2-NB)\<close> and the reduced \<open>TA\<close>.
\<close>

partial_function (option) Divide_first ::
  "tuint list \<Rightarrow> nat \<Rightarrow> tuint list \<Rightarrow> tuint \<Rightarrow> (tuint list \<times> tuint) option" where
  [code]: "Divide_first TB NB H q =
     (if H ! NB \<noteq> 0 \<or> Compare H TB NB \<ge> 0 then
        (let (S, borrow) = Subtract H TB NB
         in Divide_first TB NB (S @ (H ! NB - borrow) # drop (NB + 1) H) (q + 1))
      else Some (H, q))"

function Divide_loop ::
  "tuint list \<Rightarrow> tuint list \<Rightarrow> nat \<Rightarrow> nat \<Rightarrow> tuint list \<Rightarrow> tuint list \<Rightarrow> (tuint list \<times> tuint list) option" where
  "Divide_loop TB BT NB i TA Q =
     (if i < NB \<or> i < 2 then Some (TA, Q)
      else
        Option.bind (AtomicDivide (take 4 (drop (i - 2) TA)) BT) (\<lambda>q.
        Option.bind (CorrectQuotientEstimate (take (NB + 2) (drop (i - NB) TA)) q TB NB) (\<lambda>(R, q).
          Divide_loop TB BT NB (i - 2) (take (i - NB) TA @ R @ drop (i + 2) TA) (q @ Q))))"
  by pat_completeness auto
termination
  by (relation "measure (\<lambda>(TB, BT, NB, i, TA, Q). i)") auto

declare Divide_loop.simps [simp del]

definition Divide ::
  "tuint list \<Rightarrow> nat \<Rightarrow> tuint list \<Rightarrow> nat \<Rightarrow> (tuint list \<times> tuint list) option" where
  "Divide A NA B NB =
     (let shiftWords = (if B ! (NB - 1) = 0 then 1 else 0);
          TB = replicate shiftWords 0 @ take (NB - shiftWords) B;
          shiftBits = WORD_BITS - BitPrecision (TB ! (NB - 1));
          TB = fst (ShiftWordsLeftByBits TB NB shiftBits);
          TA = replicate shiftWords 0 @ take NA A @ replicate (2 - shiftWords) 0;
          TA = fst (ShiftWordsLeftByBits TA (NA + 2) shiftBits);
          BT0 = TB ! (NB - 2) + 1;
          BT1 = TB ! (NB - 1) + (if BT0 = 0 then 1 else 0);
          finish = (\<lambda>(TA, Q). (fst (ShiftWordsRightByBits (take NB (drop shiftWords TA)) NB shiftBits), Q))
      in if TA ! (NA + 1) = 0 \<and> TA ! NA \<le> 1 then
           Option.bind (Divide_first TB NB (drop (NA - NB) TA) 0) (\<lambda>(H, q).
             map_option finish (Divide_loop TB [BT0, BT1] NB (NA - 2) (take (NA - NB) TA @ H) [q, 0]))
         else map_option finish (Divide_loop TB [BT0, BT1] NB NA TA []))"


subsection \<open>The three word subtraction\<close>

lemma mod_square_split:
  fixes x y :: int
  assumes "0 \<le> x" "x < 4294967296"
  shows "x + 4294967296 * (y mod 4294967296) = (x + 4294967296 * y) mod 18446744073709551616"
proof -
  have "x + 4294967296 * y = (x + 4294967296 * (y mod 4294967296)) + 18446744073709551616 * (y div 4294967296)"
    using div_mult_mod_eq [of y 4294967296] by linarith
  moreover have "0 \<le> x + 4294967296 * (y mod 4294967296)"
      "x + 4294967296 * (y mod 4294967296) < 18446744073709551616"
    using assms pos_mod_bound [of 4294967296 y] pos_mod_sign [of 4294967296 y] by linarith+
  ultimately show ?thesis by (simp only: mod_mult_self2 mod_pos_pos_trivial)
qed

lemma high_words_sub:
  assumes "uint (u :: dword) = t mod 18446744073709551616"
    and "0 \<le> t + 4294967296 * uint a2" and "t + 4294967296 * uint a2 < 18446744073709551616"
  shows "uint (LOW_WORD u) + 4294967296 * uint (a2 + HIGH_WORD u) = t + 4294967296 * uint a2"
proof -
  have "uint (LOW_WORD u) + 4294967296 * uint (a2 + HIGH_WORD u)
      = (uint (LOW_WORD u) + 4294967296 * (uint a2 + uint (HIGH_WORD u))) mod 18446744073709551616"
    unfolding uint_tuint_arith(1)
    by (rule mod_square_split) (simp_all add: uint_tuint_bounds)
  also have "uint (LOW_WORD u) + 4294967296 * (uint a2 + uint (HIGH_WORD u)) = uint u + 4294967296 * uint a2"
    using dword_split [of u] by simp
  also have "\<dots> mod 18446744073709551616 = (t + 4294967296 * uint a2) mod 18446744073709551616"
    unfolding assms(1) by (simp add: mod_add_left_eq)
  also have "\<dots> = t + 4294967296 * uint a2"
    using assms(2,3) by (simp add: mod_pos_pos_trivial)
  finally show ?thesis .
qed

lemma val3: "val [a0, a1, a2] = uint a0 + 4294967296 * (uint a1 + 4294967296 * uint a2)" by simp

text \<open>\<open>X\<close> is what is subtracted above the low word: \<open>B1\<close>, or \<open>HIGH_WORD(p) + B1 * Q\<close>.\<close>

lemma sub3_words:
  fixes u v :: dword and a0 a1 a2 b :: tuint
  assumes u: "uint u = (uint a0 - uint b) mod 18446744073709551616"
    and v: "uint v = (uint a1 - X - uint (0 - HIGH_WORD u)) mod 18446744073709551616"
    and nn: "uint b + 4294967296 * X \<le> val [a0, a1, a2]" and X: "0 \<le> X"
  shows "val [LOW_WORD u, LOW_WORD v, a2 + HIGH_WORD v] = val [a0, a1, a2] - (uint b + 4294967296 * X)"
proof -
  let ?w = "uint (0 - HIGH_WORD u)"
  have lo: "uint (LOW_WORD u) = uint a0 - uint b + 4294967296 * ?w" and w: "0 \<le> ?w"
    using uint_neg_HIGH_WORD(2) [OF u] uint_tuint_bounds [of a0] uint_tuint_bounds [of b]
      uint_ge_0 [of a0] uint_ge_0 [of b] by (linarith, simp)
  define t where "t = uint a1 - X - ?w"
  have tot: "uint (LOW_WORD u) + 4294967296 * (t + 4294967296 * uint a2)
      = val [a0, a1, a2] - (uint b + 4294967296 * X)"
    unfolding lo t_def by (simp add: algebra_simps)
  have "0 \<le> uint (LOW_WORD u) + 4294967296 * (t + 4294967296 * uint a2)"
    unfolding tot using nn by simp
  then have "0 \<le> t + 4294967296 * uint a2"
    using uint_tuint_bounds [of "LOW_WORD u"] by (simp add: distrib_left)
  moreover have "t + 4294967296 * uint a2 < 18446744073709551616"
    using uint_tuint_bounds [of a1] uint_tuint_bounds [of a2] X w unfolding t_def by linarith
  ultimately have "uint (LOW_WORD v) + 4294967296 * uint (a2 + HIGH_WORD v) = t + 4294967296 * uint a2"
    by (rule high_words_sub [OF v [folded t_def]])
  then show ?thesis unfolding val3 tot [unfolded val3, symmetric] by simp
qed

lemma SubatomicDivide_fix_cond:
  "(A2 \<noteq> 0 \<or> A1 > B1 \<or> (A1 = B1 \<and> A0 \<ge> B0)) \<longleftrightarrow> val [B0, B1] \<le> val [A0, A1, A2]"
proof -
  note b = uint_tuint_bounds [of B0] uint_tuint_bounds [of B1] uint_tuint_bounds [of A0] uint_tuint_bounds [of A1]
    uint_ge_0 [of A0] uint_ge_0 [of A1] uint_ge_0 [of B0] uint_ge_0 [of B1]
  show ?thesis
  proof (cases "A2 = 0")
    case False
    then have "1 \<le> uint A2" by (rule uint_ge_1)
    moreover have "val [A0, A1, A2] = val [A0, A1] + 18446744073709551616 * uint A2" by simp
    moreover have "val [B0, B1] < 18446744073709551616" using b by simp
    ultimately have "val [B0, B1] \<le> val [A0, A1, A2]"
      using val_nonneg [of "[A0, A1]"] by linarith
    then show ?thesis using False by simp
  next
    case True
    have "(A1 > B1 \<or> (A1 = B1 \<and> A0 \<ge> B0)) \<longleftrightarrow> uint B1 < uint A1 \<or> uint A1 = uint B1 \<and> uint B0 \<le> uint A0"
      by (simp add: word_less_def word_le_def word_uint_eq_iff)
    also have "\<dots> \<longleftrightarrow> uint B0 + 4294967296 * uint B1 \<le> uint A0 + 4294967296 * uint A1"
      using b by linarith
    finally show ?thesis using True by simp
  qed
qed

lemma SubatomicDivide_fix_val:
  assumes "0 < val [B0, B1]"
  shows "\<exists>R Q'. SubatomicDivide_fix B0 B1 A0 A1 A2 Q = Some (R, Q') \<and> length R = 3 \<and>
    val R = val [A0, A1, A2] mod val [B0, B1] \<and>
    uint Q' = (uint Q + val [A0, A1, A2] div val [B0, B1]) mod 4294967296"
proof (induction "nat (val [A0, A1, A2])" arbitrary: A0 A1 A2 Q rule: less_induct)
  case less
  let ?a = "val [A0, A1, A2]" and ?b = "val [B0, B1]"
  show ?case
  proof (cases "?b \<le> ?a")
    case False
    then have "\<not> (A2 \<noteq> 0 \<or> A1 > B1 \<or> (A1 = B1 \<and> A0 \<ge> B0))"
      unfolding SubatomicDivide_fix_cond .
    then have "SubatomicDivide_fix B0 B1 A0 A1 A2 Q = Some ([A0, A1, A2], Q)"
      by (subst SubatomicDivide_fix.simps) (simp only: if_False)
    moreover have "?a mod ?b = ?a" "?a div ?b = 0"
      using False val_nonneg [of "[A0, A1, A2]"] by (simp_all only: not_le mod_pos_pos_trivial div_pos_pos_trivial)
    ultimately show ?thesis
      by (simp add: mod_pos_pos_trivial uint_tuint_bounds del: val.simps)
  next
    case True
    define u :: dword where "u = ucast A0 - ucast B0"
    define v :: dword where "v = ucast A1 - ucast B1 - ucast (0 - HIGH_WORD u)"
    have step: "val [LOW_WORD u, LOW_WORD v, A2 + HIGH_WORD v] = ?a - ?b"
    proof -
      have "uint u = (uint A0 - uint B0) mod 18446744073709551616"
        by (simp add: u_def uint_dword_arith)
      moreover have "uint v = (uint A1 - uint B1 - uint (0 - HIGH_WORD u)) mod 18446744073709551616"
        unfolding v_def by (rule uint_dword_sub3)
      ultimately show ?thesis
        using sub3_words [of u A0 B0 v A1 "uint B1" A2] True by simp
    qed
    have "A2 \<noteq> 0 \<or> A1 > B1 \<or> (A1 = B1 \<and> A0 \<ge> B0)"
      using True unfolding SubatomicDivide_fix_cond .
    then have rec: "SubatomicDivide_fix B0 B1 A0 A1 A2 Q
        = SubatomicDivide_fix B0 B1 (LOW_WORD u) (LOW_WORD v) (A2 + HIGH_WORD v) (Q + 1)"
      by (subst SubatomicDivide_fix.simps) (simp only: if_True Let_def u_def v_def)
    have "nat (val [LOW_WORD u, LOW_WORD v, A2 + HIGH_WORD v]) < nat ?a"
      unfolding step using assms True by linarith
    from less [OF this, of "Q + 1"] obtain R Q' where IH:
      "SubatomicDivide_fix B0 B1 (LOW_WORD u) (LOW_WORD v) (A2 + HIGH_WORD v) (Q + 1) = Some (R, Q')"
      "length R = 3" "val R = (?a - ?b) mod ?b"
      "uint Q' = (uint (Q + 1) + (?a - ?b) div ?b) mod 4294967296"
      unfolding step by blast
    have "(?a - ?b) mod ?b = ?a mod ?b" by simp
    moreover have "(?a - ?b) div ?b = ?a div ?b - 1"
      using div_mult_self1 [of ?b ?a "-1"] assms by (simp del: val.simps)
    moreover have "(uint (Q + 1) + (?a div ?b - 1)) mod 4294967296 = (uint Q + ?a div ?b) mod 4294967296"
      by (simp add: uint_tuint_arith mod_add_left_eq del: val.simps)
    ultimately show ?thesis using IH rec by simp
  qed
qed


subsection \<open>The two word quotient\<close>

lemma div_mod_eqI:
  fixes a b q r :: int
  assumes "a = q * b + r" "0 \<le> r" "r < b"
  shows "a div b = q" and "a mod b = r"
  using assms by (simp_all add: div_pos_pos_trivial mod_pos_pos_trivial)

lemma SubatomicDivide_estimate_val:
  assumes "uint A1 + 4294967296 * uint A2 < 4294967296 * (uint B1 + 1)"
  shows "uint (SubatomicDivide_estimate A1 A2 B1) = (uint A1 + 4294967296 * uint A2) div (uint B1 + 1)"
proof (cases "B1 + 1 = 0")
  case True
  then have "(uint B1 + 1) mod 4294967296 = 0"
    using uint_tuint_arith(1) [of B1 1] by simp
  then have "\<not> uint B1 + 1 < 4294967296"
    using mod_pos_pos_trivial [of "uint B1 + 1" 4294967296] uint_ge_0 [of B1] by linarith
  then have "uint B1 + 1 = 4294967296"
    using uint_tuint_bounds [of B1] by linarith
  moreover have "(uint A1 + 4294967296 * uint A2) div 4294967296 = uint A2"
    using uint_tuint_bounds [of A1] by simp
  ultimately show ?thesis
    using True by (simp add: SubatomicDivide_estimate_def)
next
  case False
  have "uint (B1 + 1) = uint B1 + 1"
  proof -
    have "uint B1 + 1 \<noteq> 4294967296"
    proof
      assume "uint B1 + 1 = 4294967296"
      then have "uint (B1 + 1) = 0" by (simp add: uint_tuint_arith)
      then show False using False by (simp add: word_uint_eq_iff)
    qed
    then show ?thesis
      using uint_tuint_bounds [of B1] by (simp add: uint_tuint_arith mod_pos_pos_trivial)
  qed
  then have eq: "uint (MAKE_DWORD A1 A2 div ucast (B1 + 1))
      = (uint A1 + 4294967296 * uint A2) div (uint B1 + 1)"
    by (simp add: uint_div uint_MAKE_DWORD)
  have "(uint A1 + 4294967296 * uint A2) div (uint B1 + 1) < 4294967296"
    using assms by (intro int_div_less) simp_all
  moreover have "0 \<le> (uint A1 + 4294967296 * uint A2) div (uint B1 + 1)"
    by (simp add: pos_imp_zdiv_nonneg_iff)
  ultimately show ?thesis
    using False by (simp add: SubatomicDivide_estimate_def uint_LOW_WORD eq mod_pos_pos_trivial)
qed

lemma SubatomicDivide_val:
  assumes b: "0 < val [B0, B1]" and lt: "val [A1, A2] < val [B0, B1]"
  shows "\<exists>R Q. SubatomicDivide A0 A1 A2 B0 B1 = Some (R, Q) \<and> length R = 3 \<and>
    val R = val [A0, A1, A2] mod val [B0, B1] \<and> uint Q = val [A0, A1, A2] div val [B0, B1]"
proof -
  let ?a = "val [A0, A1, A2]" and ?b = "val [B0, B1]" and ?h = "val [A1, A2]"
  define Q where "Q = SubatomicDivide_estimate A1 A2 B1"
  define p :: dword where "p = ucast B0 * ucast Q"
  define u :: dword where "u = ucast A0 - ucast (LOW_WORD p)"
  define v :: dword where "v = ucast A1 - ucast (HIGH_WORD p) - ucast (0 - HIGH_WORD u) - ucast B1 * ucast Q"
  define X where "X = uint (HIGH_WORD p) + uint B1 * uint Q"
  have ha: "?a = uint A0 + 4294967296 * ?h" by simp
  have bb: "?b \<le> 4294967296 * (uint B1 + 1)"
    using uint_tuint_bounds [of B0] by simp
  have Q: "uint Q = ?h div (uint B1 + 1)"
    using SubatomicDivide_estimate_val [of A1 A2 B1] lt bb by (simp add: Q_def)
  have QX: "uint (LOW_WORD p) + 4294967296 * X = uint Q * ?b"
  proof -
    have "uint p = uint B0 * uint Q" by (simp add: p_def uint_dword_mult)
    then show ?thesis using dword_split [of p] by (simp add: X_def algebra_simps)
  qed
  have Qb: "uint Q * ?b \<le> ?a"
  proof -
    have "uint Q * ?b \<le> uint Q * (4294967296 * (uint B1 + 1))"
      using bb by (intro mult_left_mono) simp_all
    also have "\<dots> = 4294967296 * (?h div (uint B1 + 1) * (uint B1 + 1))"
      unfolding Q by (simp only: ac_simps)
    also have "?h div (uint B1 + 1) * (uint B1 + 1) \<le> ?h"
      using div_mult_mod_eq [of ?h "uint B1 + 1"] pos_mod_sign [of "uint B1 + 1" ?h] uint_ge_0 [of B1]
      by linarith
    then have "4294967296 * (?h div (uint B1 + 1) * (uint B1 + 1)) \<le> ?a"
      unfolding ha using uint_ge_0 [of A0] by linarith
    finally show ?thesis .
  qed
  have uu: "uint u = (uint A0 - uint (LOW_WORD p)) mod 18446744073709551616"
    by (simp add: u_def uint_dword_arith)
  have vv: "uint v = (uint A1 - X - uint (0 - HIGH_WORD u)) mod 18446744073709551616"
    unfolding v_def uint_dword_arith X_def uint_dword_of_tuint uint_dword_mult
    by (simp only: mod_simps) (simp only: algebra_simps)
  have X: "0 \<le> X" by (simp add: X_def)
  have sub: "val [LOW_WORD u, LOW_WORD v, A2 + HIGH_WORD v] = ?a - uint Q * ?b"
    using sub3_words [OF uu vv _ X, of A2] QX Qb by simp
  have run: "SubatomicDivide A0 A1 A2 B0 B1
      = SubatomicDivide_fix B0 B1 (LOW_WORD u) (LOW_WORD v) (A2 + HIGH_WORD v) Q"
    unfolding SubatomicDivide_def Let_def Q_def [symmetric] p_def [symmetric] u_def [symmetric]
      v_def [symmetric] by (rule refl)
  obtain R Q' where R: "SubatomicDivide A0 A1 A2 B0 B1 = Some (R, Q')" "length R = 3"
    "val R = (?a - uint Q * ?b) mod ?b"
    "uint Q' = (uint Q + (?a - uint Q * ?b) div ?b) mod 4294967296"
    using SubatomicDivide_fix_val [OF b, of "LOW_WORD u" "LOW_WORD v" "A2 + HIGH_WORD v" Q]
    unfolding sub run by blast
  have "(?a - uint Q * ?b) div ?b = ?a div ?b - uint Q"
    using div_mult_self1 [of ?b ?a "- uint Q"] b by (simp add: mult.commute del: val.simps)
  then have "uint Q' = (?a div ?b) mod 4294967296" using R(4) by simp
  moreover have "0 \<le> ?a div ?b" using b by (simp add: pos_imp_zdiv_nonneg_iff del: val.simps)
  moreover have "?a div ?b < 4294967296"
  proof (rule int_div_less [OF b])
    have "?h + 1 \<le> ?b" using lt by simp
    then show "?a < 4294967296 * ?b" unfolding ha using uint_tuint_bounds [of A0] by linarith
  qed
  ultimately have "uint Q' = ?a div ?b" by (simp add: mod_pos_pos_trivial del: val.simps)
  moreover have "(?a - uint Q * ?b) mod ?b = ?a mod ?b"
    using mod_mult_self1 [of ?a "- uint Q" ?b] by (simp add: mult.commute del: val.simps)
  ultimately show ?thesis using R by auto
qed

lemma val_words2: "length L = 2 \<Longrightarrow> L = [L ! 0, L ! 1]"
  by (metis (no_types, opaque_lifting) One_nat_def Suc_1 length_0_conv length_Suc_conv nth_Cons_0 nth_Cons_Suc)

lemma AtomicDivide_val:
  assumes B: "B = [B0, B1]" and A: "A = [A0, A1, A2, A3]"
    and b: "b = (if val B = 0 then base 2 else val B)" and lt: "val [A2, A3] < b"
  shows "\<exists>Q. AtomicDivide A B = Some Q \<and> length Q = 2 \<and> val Q = val A div b"
proof (cases "val B = 0")
  case True
  then have z: "B0 = 0" "B1 = 0"
    using B by (simp_all add: add_nonneg_eq_0_iff word_uint_eq_iff)
  have "val A div base 2 = val [A2, A3]"
    using val_div_base(1) [of 2 A] A by (simp add: numeral_2_eq_2)
  then show ?thesis using True z b by (simp add: AtomicDivide_def A B)
next
  case False
  have bv: "b = val [B0, B1]" using False b B by simp
  have pos: "0 < val [B0, B1]" using False val_nonneg [of B] unfolding B by linarith
  have nz: "\<not> (B0 = 0 \<and> B1 = 0)" using False B by auto
  obtain T Q1 where s1: "SubatomicDivide A1 A2 A3 B0 B1 = Some (T, Q1)" "length T = 3"
    "val T = val [A1, A2, A3] mod b" "uint Q1 = val [A1, A2, A3] div b"
    using SubatomicDivide_val [OF pos lt [unfolded bv], of A1] unfolding bv by blast
  have Tlt: "0 \<le> val T" "val T < b" using s1(3) pos bv by simp_all
  obtain t0 t1 t2 where T: "T = [t0, t1, t2]"
    using s1(2) by (auto simp: numeral_3_eq_3 length_Suc_conv)
  have "t2 = 0"
  proof (rule ccontr)
    assume "t2 \<noteq> 0"
    then have "1 \<le> uint t2" by (rule uint_ge_1)
    moreover have "val T = val [t0, t1] + 18446744073709551616 * uint t2" by (simp add: T)
    ultimately have "18446744073709551616 \<le> val T" using val_nonneg [of "[t0, t1]"] by linarith
    moreover have "b < 18446744073709551616"
      unfolding bv using val_bound_eq [of "[B0, B1]" 2] by (simp add: base_def)
    ultimately show False using Tlt by linarith
  qed
  then have vT: "val T = val [t0, t1]" by (simp add: T)
  obtain T' Q0 where s2: "SubatomicDivide A0 t0 t1 B0 B1 = Some (T', Q0)"
    "val T' = val [A0, t0, t1] mod b" "uint Q0 = val [A0, t0, t1] div b"
    using SubatomicDivide_val [OF pos, of t0 t1 A0] Tlt(2) unfolding vT bv by blast
  have "val A = uint A0 + 4294967296 * val [A1, A2, A3]" by (simp add: A)
  also have "val [A1, A2, A3] = uint Q1 * b + val [t0, t1]"
    using div_mult_mod_eq [of "val [A1, A2, A3]" b] s1(3,4) vT by simp
  also have "uint A0 + 4294967296 * (uint Q1 * b + val [t0, t1])
      = 4294967296 * (uint Q1 * b) + val [A0, t0, t1]" by simp
  also have "val [A0, t0, t1] = uint Q0 * b + val T'"
    using div_mult_mod_eq [of "val [A0, t0, t1]" b] s2(2,3) by simp
  finally have "val A = (uint Q0 + 4294967296 * uint Q1) * b + val T'"
    by (simp add: distrib_right)
  moreover have "0 \<le> val T'" "val T' < b"
    using s2(2) pos bv by simp_all
  ultimately have "val A div b = uint Q0 + 4294967296 * uint Q1" by (rule div_mod_eqI)
  moreover have "AtomicDivide A B = Some [Q0, Q1]"
    using nz s1(1) s2(1) by (auto simp: AtomicDivide_def A B T)
  ultimately show ?thesis by simp
qed


subsection \<open>The product of the quotient and the divisor\<close>

lemma word_multiple_nonneg: "- 4294967296 < 4294967296 * (y :: int) \<Longrightarrow> 0 \<le> y"
  by linarith

lemma AtomicMultiplyAdd_words:
  assumes R: "AtomicMultiplyAdd [c0, c1, c2, c3] [a0, a1] [b0, b1] = (C, c)"
  shows "length C = 4" and "val C + base 4 * uint c = val [c0, c1, c2, c3] + val [a0, a1] * val [b0, b1]"
proof -
  obtain d s where ds: "diff_product a0 a1 b0 b1 = (d, s)" by fastforce
  define p0 :: dword where "p0 = ucast a0 * ucast b0"
  define p1 :: dword where "p1 = ucast a1 * ucast b1"
  define t0 :: dword where "t0 = p0 + ucast c0"
  define t1 :: dword where "t1 = ucast (HIGH_WORD t0) + ucast (LOW_WORD p0) + ucast (LOW_WORD d)
      + ucast (LOW_WORD p1) + ucast c1"
  define t2 :: dword where "t2 = ucast (HIGH_WORD t1) + ucast (LOW_WORD p1) + ucast (HIGH_WORD p0)
      + ucast (HIGH_WORD d) + ucast (HIGH_WORD p1) - ucast s + ucast c2"
  define t3 :: dword where "t3 = ucast (HIGH_WORD t2) + ucast (HIGH_WORD p1) + ucast c3"
  have C: "C = [LOW_WORD t0, LOW_WORD t1, LOW_WORD t2, LOW_WORD t3]" "c = HIGH_WORD t3"
    using R by (simp_all add: ds p0_def p1_def t0_def t1_def t2_def t3_def Let_def)
  show "length C = 4" by (simp add: C)
  have p0: "uint p0 = uint a0 * uint b0" and p1: "uint p1 = uint a1 * uint b1"
    by (simp_all add: p0_def p1_def uint_dword_mult)
  have t0: "uint t0 = uint p0 + uint c0"
    unfolding t0_def using uint_mult_bound [of a0 b0] uint_tuint_bounds [of c0] p0
    by (subst uint_dword_add_exact) simp_all
  have t1: "uint t1 = uint (HIGH_WORD t0) + uint (LOW_WORD p0) + uint (LOW_WORD d) + uint (LOW_WORD p1) + uint c1"
    unfolding t1_def using uint_dword_add4 [of "HIGH_WORD t0" "LOW_WORD p0" "LOW_WORD d" "LOW_WORD p1"]
      uint_tuint_bounds [of "HIGH_WORD t0"] uint_tuint_bounds [of "LOW_WORD p0"]
      uint_tuint_bounds [of "LOW_WORD d"] uint_tuint_bounds [of "LOW_WORD p1"] uint_tuint_bounds [of c1]
    by (subst uint_dword_add_exact) simp_all
  define v where "v = uint (HIGH_WORD t1) + uint (LOW_WORD p1) + uint (HIGH_WORD p0) + uint (HIGH_WORD d)
      + uint (HIGH_WORD p1) - uint s + uint c2"
  have t2m: "uint t2 = v mod 18446744073709551616"
    by (simp add: t2_def v_def uint_dword_arith mod_simps)
  have t3: "uint t3 = uint (HIGH_WORD t2) + uint (HIGH_WORD p1) + uint c3"
    by (simp add: t3_def uint_dword_add3)
  have dv: "uint d = 4294967296 * uint s + (uint a1 - uint a0) * (uint b0 - uint b1)"
    using diff_product_val [OF ds] by linarith
  note sp = dword_split [of p0] dword_split [of p1] dword_split [of d] dword_split [of t1]
  have mid: "uint p0 + (uint d - 4294967296 * uint s) + uint p1 = uint a0 * uint b1 + uint a1 * uint b0"
    by (simp add: dv p0 p1 algebra_simps)
  have "0 \<le> uint a0 * uint b1 + uint a1 * uint b0" by simp
  then have "0 \<le> uint (LOW_WORD p0) + uint (LOW_WORD d) + uint (LOW_WORD p1)
      + 4294967296 * (uint (HIGH_WORD p0) + uint (HIGH_WORD d) + uint (HIGH_WORD p1) - uint s)"
    unfolding mid [symmetric] using sp by (simp add: algebra_simps)
  then have "- 4294967296 < 4294967296 * (uint (HIGH_WORD t1) + uint (HIGH_WORD p0) + uint (HIGH_WORD d)
      + uint (HIGH_WORD p1) - uint s)"
    using sp(4) t1 uint_tuint_bounds [of "LOW_WORD t1"] uint_ge_0 [of "HIGH_WORD t0"] uint_ge_0 [of c1]
    unfolding distrib_left right_diff_distrib' by linarith
  from word_multiple_nonneg [OF this] have "0 \<le> v"
    using uint_ge_0 [of "LOW_WORD p1"] uint_ge_0 [of c2] unfolding v_def by linarith
  moreover have "v < 18446744073709551616"
    using uint_tuint_bounds [of "HIGH_WORD t1"] uint_tuint_bounds [of "LOW_WORD p1"]
      uint_tuint_bounds [of "HIGH_WORD p0"] uint_tuint_bounds [of "HIGH_WORD d"]
      uint_tuint_bounds [of "HIGH_WORD p1"] uint_tuint_bounds [of c2] uint_ge_0 [of s]
    unfolding v_def by linarith
  ultimately have t2: "uint t2 = v" by (simp add: t2m mod_pos_pos_trivial)
  have b4: "base 4 = 4294967296 * (4294967296 * (4294967296 * 4294967296))" by (simp add: base_def)
  have "val C + base 4 * uint c = uint t0 + 4294967296 * (uint t1 - uint (HIGH_WORD t0)
      + 4294967296 * (uint t2 - uint (HIGH_WORD t1) + 4294967296 * (uint t3 - uint (HIGH_WORD t2))))"
    unfolding C b4 using dword_split [of t0] dword_split [of t1] dword_split [of t2] dword_split [of t3]
    by (simp add: algebra_simps)
  also have "\<dots> = val [c0, c1, c2, c3] + uint p0 + 4294967296 * (uint (LOW_WORD p0) + uint (LOW_WORD d) + uint (LOW_WORD p1)
      + 4294967296 * (uint (HIGH_WORD p0) + uint (HIGH_WORD d) + uint (HIGH_WORD p1) - uint s)
      + 4294967296 * (uint (LOW_WORD p1) + 4294967296 * uint (HIGH_WORD p1)))"
    unfolding t0 t1 t2 t3 v_def by (simp add: algebra_simps)
  also have "uint (LOW_WORD p0) + uint (LOW_WORD d) + uint (LOW_WORD p1)
      + 4294967296 * (uint (HIGH_WORD p0) + uint (HIGH_WORD d) + uint (HIGH_WORD p1) - uint s)
      = uint a0 * uint b1 + uint a1 * uint b0"
    unfolding mid [symmetric] using sp by (simp add: algebra_simps)
  also have "uint (LOW_WORD p1) + 4294967296 * uint (HIGH_WORD p1) = uint a1 * uint b1"
    using sp(2) p1 by simp
  finally show "val C + base 4 * uint c = val [c0, c1, c2, c3] + val [a0, a1] * val [b0, b1]"
    by (simp add: p0 algebra_simps)
qed


text \<open>The part of a number in its even pairs of words.\<close>

fun even_val :: "tuint list \<Rightarrow> int" where
  "even_val (a # b # c # d # B) = val [a, b] + base 4 * even_val B"
| "even_val [a, b] = val [a, b]"
| "even_val [a, b, c] = val [a, b]"
| "even_val [a] = 0"
| "even_val [] = 0"

lemma even_val_pair: "even (length B) \<Longrightarrow> even_val (a # b # B) = val [a, b] + base 4 * even_val (drop 2 B)"
proof (cases B)
  case (Cons c B')
  assume "even (length B)"
  then obtain d B'' where "B = c # d # B''" using Cons by (cases B') auto
  then show ?thesis by simp
qed simp

lemma val_pairs: "val (a # b # B) = val [a, b] + base 2 * val B"
  by (simp add: base_def algebra_simps)

lemma base_2_4: "base 2 = 18446744073709551616" "base 4 = base 2 * base 2"
  by (simp_all add: base_def)

lemma val_even_odd: "even (length B) \<Longrightarrow> val B = even_val B + base 2 * even_val (drop 2 B)"
proof (induction B rule: even_val.induct)
  case (1 a b c d B)
  have "val (a # b # c # d # B) = val [a, b] + base 2 * (val [c, d] + base 2 * val B)"
    by (simp only: val_pairs [of a b "c # d # B"] val_pairs [of c d B])
  also have "\<dots> = even_val (a # b # c # d # B) + base 2 * even_val (c # d # B)"
    using 1 by (simp add: even_val_pair base_2_4(2) algebra_simps del: val.simps)
  finally show ?case by (simp only: drop_Suc_Cons numeral_2_eq_2 drop_0)
qed auto

lemma not_4_dvd_2: "\<not> 4 dvd Suc (Suc 0)"
  by presburger

lemma block_products_store_val:
  assumes "length Q = 2"
  shows "even (length B) \<Longrightarrow> length (block_products_store Q B) = (if 4 dvd length B then length B else length B + 2)
    \<and> val (block_products_store Q B) = val Q * even_val B"
proof (induction B rule: even_val.induct)
  case (1 a b c d B)
  have st: "block_products_store Q (a # b # c # d # B)
      = AtomicMultiply Q (a # b # c # d # B) @ block_products_store Q B"
    by (subst block_products_store.simps) simp
  have am: "length (AtomicMultiply Q (a # b # c # d # B)) = 4"
    "val (AtomicMultiply Q (a # b # c # d # B)) = val Q * val [a, b]"
    using AtomicMultiply_val [of Q "a # b # c # d # B"] assms by (simp_all del: val.simps)
  have "4 dvd length (a # b # c # d # B) \<longleftrightarrow> 4 dvd length B"
    unfolding length_Cons by presburger
  then show ?case
    using 1 am by (simp add: st val_append algebra_simps del: val.simps)
next
  case (2 a b)
  then show ?case
    using AtomicMultiply_val [of Q "[a, b]"] assms not_4_dvd_2
    by (simp add: block_products_store.simps [of Q "[a, b]"] block_products_store.simps [of Q "[]"] del: val.simps)
qed (auto simp: block_products_store.simps [of Q "[]"])

lemma add_block_carry_val:
  assumes "uint c \<le> 1" and "val [p, q] + 1 < base 2"
  obtains p' q' where "add_block_carry c (p # q # T) = p' # q' # T" "val [p', q'] = val [p, q] + uint c"
proof (cases "c = 0")
  case True
  then show ?thesis using that [of p q] by (simp add: add_block_carry_def)
next
  case False
  then have c1: "uint c = 1" using assms(1) uint_ge_1 [of c] by simp
  let ?q = "q + (if p + 1 = 0 then 1 else 0)"
  have "val [p + 1, ?q] = val [p, q] + 1"
  proof (cases "uint p = 4294967295")
    case True
    then have z: "p + 1 = 0" by (simp add: word_uint_eq_iff uint_tuint_arith)
    have "uint q < 4294967295"
      using assms(2) True by (simp add: base_2_4)
    then have "uint (q + 1) = uint q + 1" by (simp add: uint_tuint_arith mod_pos_pos_trivial)
    then show ?thesis using z True by simp
  next
    case False
    then have "uint (p + 1) = uint p + 1"
      using uint_tuint_bounds [of p] by (simp add: uint_tuint_arith mod_pos_pos_trivial)
    moreover have "p + 1 \<noteq> 0"
    proof
      assume "p + 1 = 0"
      then have "uint (p + 1) = 0" by simp
      then show False using calculation uint_ge_0 [of p] by linarith
    qed
    ultimately show ?thesis by simp
  qed
  moreover have "add_block_carry c (p # q # T) = (p + 1) # ?q # T"
    using False by (simp add: add_block_carry_def Let_def)
  ultimately show ?thesis using that c1 by simp
qed

lemma block_products_add_Nil: "block_products_add Q [] T = T"
  by (subst block_products_add.simps) simp

lemma block_products_store_Nil: "block_products_store Q [] = []"
  by (subst block_products_store.simps) simp

lemma block_products_add_Cons:
  assumes "AtomicMultiplyAdd [x0, x1, p0, p1] Q (a # b # c # d # B) = (C, k)"
  shows "block_products_add Q (a # b # c # d # B) (x0 # x1 # p0 # p1 # T)
    = C @ block_products_add Q B (add_block_carry k T)"
proof -
  have d4: "drop 4 (x # y # z # w # L) = L" "take 4 (x # y # z # w # L) = [x, y, z, w]"
    for x y z w :: tuint and L by simp_all
  show ?thesis
    by (subst block_products_add.simps) (simp only: d4 assms list.distinct if_False Let_def prod.case)
qed

lemma two_word_product:
  assumes "length X = 2" "length Y = 2"
  shows "val X * val Y \<le> 340282366920938463426481119284349108225"
proof -
  have "val X * val Y \<le> 18446744073709551615 * 18446744073709551615"
    using val_bound_eq [OF assms(1)] val_bound_eq [OF assms(2)]
    by (intro mult_mono) (simp_all add: base_2_4)
  then show ?thesis by simp
qed

lemma block_products_add_block:
  assumes Q: "length Q = 2" and P: "val P = val Q * val [c, d]" "P = [p0, p1, p2, p3]"
    and ad: "val C + base 4 * uint k = val [x0, x1, p0, p1] + val Q * val [a, b]"
  shows "val [p2, p3] + 1 < base 2" and "uint k \<le> 1"
proof -
  have "base 2 * val [p2, p3] \<le> val P"
    unfolding P(2) val_pairs [of p0 p1 "[p2, p3]"] by simp
  also have "\<dots> \<le> 340282366920938463426481119284349108225"
    unfolding P(1) by (rule two_word_product) (simp_all add: Q)
  finally show "val [p2, p3] + 1 < base 2" unfolding base_2_4 by linarith
  have "val [x0, x1, p0, p1] < base 4" by (rule val_bound_eq) simp
  moreover have "val Q * val [a, b] \<le> 340282366920938463426481119284349108225"
    by (rule two_word_product) (simp_all add: Q)
  moreover have b4: "base 4 = 340282366920938463463374607431768211456" by (simp add: base_def)
  ultimately have "340282366920938463463374607431768211456 * uint k < 680564733841876926926749214863536422912"
    using ad [unfolded b4] val_nonneg [of C] unfolding b4 by linarith
  then show "uint k \<le> 1" by linarith
qed

lemma block_products_add_val:
  assumes Q: "Q = [q0, q1]"
  shows "even (length B) \<Longrightarrow> length T = length B + 2 \<Longrightarrow>
    drop 2 T = take (length B) (block_products_store Q (drop 2 B) @ [0, 0]) \<Longrightarrow>
    length (block_products_add Q B T) = length T \<and>
    val (block_products_add Q B T) = val T + val Q * even_val B"
proof (induction B arbitrary: T rule: even_val.induct)
  case (1 a b c d B)
  have lQ: "length Q = 2" unfolding Q by simp
  define P where "P = AtomicMultiply Q (c # d # B)"
  have t2: "take 2 (c # d # B) = [c, d]" "2 \<le> length (c # d # B)" by simp_all
  have P: "length P = 4" "val P = val Q * val [c, d]"
    unfolding P_def using AtomicMultiply_val [of Q "c # d # B"] lQ unfolding t2 by simp_all
  obtain p0 p1 p2 p3 where Pw: "P = [p0, p1, p2, p3]"
    using P(1) by (auto simp: numeral_eq_Suc length_Suc_conv)
  obtain x0 x1 where T: "T = x0 # x1 # drop 2 T"
    using "1.prems"(2) by (cases T; cases "tl T") auto
  define T2 where "T2 = take (length B) (block_products_store Q (drop 2 B) @ [0, 0])"
  have "block_products_store Q (c # d # B) = P @ block_products_store Q (drop 2 B)"
    by (subst block_products_store.simps) (simp add: P_def)
  then have dT: "drop 2 T = p0 # p1 # p2 # p3 # T2"
    unfolding "1.prems"(3) by (simp add: Pw T2_def)
  obtain C k where ad: "AtomicMultiplyAdd [x0, x1, p0, p1] [q0, q1] [a, b] = (C, k)"
    by (cases "AtomicMultiplyAdd [x0, x1, p0, p1] [q0, q1] [a, b]") blast
  note C = AtomicMultiplyAdd_words [OF ad, folded Q]
  note bd = block_products_add_block [OF lQ P(2) Pw C(2)]
  obtain p2' p3' where car: "add_block_carry k (p2 # p3 # T2) = p2' # p3' # T2"
    and vcar: "val [p2', p3'] = val [p2, p3] + uint k"
    using add_block_carry_val [OF bd(2,1)] by blast
  have "AtomicMultiplyAdd [x0, x1, p0, p1] Q (a # b # c # d # B) = (C, k)"
    using ad unfolding Q by (simp only: AtomicMultiplyAdd.simps)
  from block_products_add_Cons [OF this, of "p2 # p3 # T2"]
  have step: "block_products_add Q (a # b # c # d # B) T = C @ block_products_add Q B (p2' # p3' # T2)"
    unfolding car using T dT by metis
  have lT2: "length T2 = length B"
    using "1.prems"(2) arg_cong [OF dT, of length] by simp
  have pr: "even (length B)" "length (p2' # p3' # T2) = length B + 2"
    "drop 2 (p2' # p3' # T2) = take (length B) (block_products_store Q (drop 2 B) @ [0, 0])"
    using "1.prems"(1) lT2 T2_def by simp_all
  have IH: "length (block_products_add Q B (p2' # p3' # T2)) = length B + 2"
    "val (block_products_add Q B (p2' # p3' # T2)) = val (p2' # p3' # T2) + val Q * even_val B"
    using "1.IH" [OF pr] pr(2) by argo+
  have "val (C @ block_products_add Q B (p2' # p3' # T2))
      = val C + base 4 * (val [p2, p3] + uint k + base 2 * val T2 + val Q * even_val B)"
    by (simp only: val_append C(1) IH(2) val_pairs [of p2' p3' T2] vcar)
  also have "\<dots> = (val C + base 4 * uint k) + base 4 * (val [p2, p3] + base 2 * val T2) + base 4 * (val Q * even_val B)"
    by (simp add: distrib_left del: val.simps)
  also have "\<dots> = val [x0, x1, p0, p1] + base 4 * val (p2 # p3 # T2) + val Q * even_val (a # b # c # d # B)"
    unfolding C(2) val_pairs [of p2 p3 T2] by (simp add: distrib_left mult.left_commute del: val.simps)
  also have "val [x0, x1, p0, p1] + base 4 * val (p2 # p3 # T2) = val T"
  proof -
    have Ta: "T = [x0, x1, p0, p1] @ (p2 # p3 # T2)" using T dT by simp
    have "length [x0, x1, p0, p1] = 4" by simp
    then show ?thesis unfolding Ta val_append by argo
  qed
  finally have "val (block_products_add Q (a # b # c # d # B) T) = val T + val Q * even_val (a # b # c # d # B)"
    unfolding step .
  moreover have "length (block_products_add Q (a # b # c # d # B) T) = length T"
    unfolding step length_append C(1) IH(1) "1.prems"(2) by simp
  ultimately show ?case by blast
next
  case (2 a b)
  obtain x0 x1 where T: "T = [x0, x1, 0, 0]"
    using "2.prems"(2,3) by (cases T; cases "tl T") (auto simp: block_products_store_Nil)
  obtain C k where ad: "AtomicMultiplyAdd [x0, x1, 0, 0] [q0, q1] [a, b] = (C, k)"
    by (cases "AtomicMultiplyAdd [x0, x1, 0, 0] [q0, q1] [a, b]") blast
  note C = AtomicMultiplyAdd_words [OF ad, folded Q]
  have "val Q * val [a, b] \<le> 340282366920938463426481119284349108225"
    by (rule two_word_product) (simp_all add: Q)
  moreover have "val [x0, x1, 0, 0] < 18446744073709551616"
    using val_bound_eq [of "[x0, x1]" 2] by (simp add: base_2_4)
  moreover have b4: "base 4 = 340282366920938463463374607431768211456" by (simp add: base_def)
  ultimately have "uint k < 1"
    using C(2) [unfolded b4] val_nonneg [of C] by linarith
  then have k: "k = 0" using uint_ge_1 [of k] by linarith
  have ne: "[a, b] \<noteq> []" "take 4 [x0, x1, 0, 0] = [x0, x1, 0, 0]" "drop 4 [x0, x1, 0, 0] = []" "drop 4 [a, b] = []"
    by simp_all
  have "block_products_add Q [a, b] T = C"
    using ad unfolding T Q by (subst block_products_add.simps)
      (simp only: ne if_False Let_def prod.case k add_block_carry_def block_products_add_Nil append_Nil2 simp_thms if_True)
  then show ?case using C k T by (simp del: val.simps)
qed (simp_all add: block_products_add_Nil)


lemma quotient_times_divisor_val:
  assumes Q: "length Q = 2" and B: "N \<le> length B" "even N" "2 \<le> N"
  shows "length (quotient_times_divisor Q B N) = N + 2"
    and "val (quotient_times_divisor Q B N) = val Q * val (take N B)"
proof -
  let ?B = "take N B"
  obtain q0 q1 where Qw: "Q = [q0, q1]" using val_words2 [OF Q] by blast
  have lB: "length ?B = N" using B by simp
  obtain a b B' where Bw: "?B = a # b # B'" and lB': "length B' = N - 2"
    using lB B(3) by (cases ?B; cases "tl ?B") auto
  have "length (quotient_times_divisor Q B N) = N + 2 \<and>
    val (quotient_times_divisor Q B N) = val Q * val ?B"
  proof (cases "q1 = 0")
    case True
    obtain R c where L: "LinearMultiply B q0 N = (R, c)" by fastforce
    note Lv = LinearMultiply_val [OF B(1) L]
    have "quotient_times_divisor Q B N = R @ [c, 0]"
      using True L by (simp add: quotient_times_divisor_def Qw)
    then show ?thesis
      using Lv True by (simp add: val_append Qw mult.commute)
  next
    case False
    define S where "S = block_products_store Q ?B"
    have S: "length S = (if 4 dvd N then N else N + 2)" "val S = val Q * even_val ?B"
      using block_products_store_val [OF Q, of ?B] lB B(2) by (simp_all add: S_def)
    define T where "T = take (N + 2) (S @ [0, 0])"
    have lT: "length T = N + 2" using S(1) by (auto simp: T_def)
    have vT: "val T = val Q * even_val ?B"
      using S by (auto simp: T_def val_append split: if_splits)
    define U where "U = drop 2 T"
    have dB: "drop 2 ?B = B'" by (simp add: Bw)
    have St: "S = AtomicMultiply Q ?B @ block_products_store Q (drop 4 ?B)"
      unfolding S_def by (subst block_products_store.simps) (simp add: Bw)
    have am: "length (AtomicMultiply Q ?B) = 4"
      using AtomicMultiply_val(1) [of Q ?B] Q lB B(3) by simp
    have "drop 2 U = take (N - 2) (drop 4 (S @ [0, 0]))"
    proof -
      have "drop 2 U = drop 4 T" by (simp add: U_def)
      moreover have "N + 2 - 4 = N - 2" using B(3) by simp
      ultimately show ?thesis unfolding T_def by (simp only: drop_take)
    qed
    also have "drop 4 (S @ [0, 0]) = block_products_store Q (drop 4 ?B) @ [0, 0]"
      unfolding St using am by simp
    also have "drop 4 ?B = drop 2 B'" unfolding dB [symmetric] drop_drop by simp
    finally have "drop 2 U = take (length B') (block_products_store Q (drop 2 B') @ [0, 0])"
      unfolding lB' .
    moreover have "length U = length B' + 2" "even (length B')"
      using lT lB' B by (simp_all add: U_def)
    ultimately have add: "length (block_products_add Q B' U) = N"
      "val (block_products_add Q B' U) = val U + val Q * even_val B'"
      using block_products_add_val [OF Qw, of B' U] lB' B(3) by simp_all
    have res: "quotient_times_divisor Q B N = take 2 T @ block_products_add Q B' U"
      using False by (simp add: quotient_times_divisor_def Let_def Qw U_def T_def S_def dB)
    have lt: "length (take 2 T) = 2" using lT B(3) by simp
    have "val (take 2 T @ block_products_add Q B' U) = (val (take 2 T) + base 2 * val U) + base 2 * (val Q * even_val B')"
      unfolding val_append lt add(2) by (simp add: distrib_left)
    also have "val (take 2 T) + base 2 * val U = val T"
      using val_append [of "take 2 T" U] lt by (simp add: U_def)
    also have "val T + base 2 * (val Q * even_val B') = val Q * (even_val ?B + base 2 * even_val (drop 2 ?B))"
      unfolding vT dB by (simp add: distrib_left mult.left_commute)
    also have "\<dots> = val Q * val ?B"
      using val_even_odd [of ?B] lB B(2) by simp
    finally show ?thesis using lt add(1) by (simp add: res)
  qed
  then show "length (quotient_times_divisor Q B N) = N + 2"
    and "val (quotient_times_divisor Q B N) = val Q * val (take N B)" by simp_all
qed


subsection \<open>The corrected quotient\<close>

lemma CorrectQuotient_loop_cond:
  assumes "length B = N" "length R = N + 2"
  shows "(R ! N \<noteq> 0 \<or> Compare R B N \<ge> 0) \<longleftrightarrow> val B \<le> val (take (N + 1) R)"
proof -
  have tk: "take (N + 1) R = take N R @ [R ! N]" using assms by (simp add: take_Suc_conv_app_nth)
  have v: "val (take (N + 1) R) = val (take N R) + base N * uint (R ! N)"
    unfolding tk using assms by (simp add: val_append)
  have cmp: "Compare R B N \<ge> 0 \<longleftrightarrow> val B \<le> val (take N R)"
    using Compare_val [of N R B] assms by (simp add: sgn_if)
  show ?thesis
  proof (cases "R ! N = 0")
    case False
    then have "1 \<le> uint (R ! N)" by (rule uint_ge_1)
    then have "base N * 1 \<le> base N * uint (R ! N)" by (intro mult_left_mono) simp_all
    then have "val B \<le> val (take (N + 1) R)"
      unfolding v using val_bound_eq [OF assms(1)] val_nonneg [of "take N R"] by linarith
    then show ?thesis using False by simp
  next
    case True
    then show ?thesis unfolding v using cmp by simp
  qed
qed

lemma subtract_top_word:
  assumes B: "length B = N" and R: "length R = N + 2" and N: "even N"
    and le: "val B \<le> val (take (N + 1) R)" and sub: "Subtract R B N = (S, b)"
  shows "length (S @ (R ! N - b) # drop (N + 1) R) = N + 2"
    and "val (take (N + 1) (S @ (R ! N - b) # drop (N + 1) R)) = val (take (N + 1) R) - val B"
    and "(S @ (R ! N - b) # drop (N + 1) R) ! (N + 1) = R ! (N + 1)"
proof -
  have S: "length S = N" "uint b \<le> 1" "val S = val (take N R) - val B + base N * uint b"
    using Subtract_val [OF _ _ N sub] assms by simp_all
  then show "length (S @ (R ! N - b) # drop (N + 1) R) = N + 2"
    and "(S @ (R ! N - b) # drop (N + 1) R) ! (N + 1) = R ! (N + 1)"
    using R by (simp_all add: nth_append)
  have tk: "take (N + 1) R = take N R @ [R ! N]" using R by (simp add: take_Suc_conv_app_nth)
  have v: "val (take (N + 1) R) = val (take N R) + base N * uint (R ! N)"
    unfolding tk using R by (simp add: val_append)
  have "uint b \<le> uint (R ! N)"
  proof (rule ccontr)
    assume "\<not> ?thesis"
    then have z: "uint (R ! N) = 0" "uint b = 1" using S(2) uint_ge_0 [of "R ! N"] by linarith+
    then show False using le v S(3) val_bound_eq [OF S(1)] by simp
  qed
  then have "uint (R ! N - b) = uint (R ! N) - uint b"
    using uint_tuint_bounds [of "R ! N"] uint_ge_0 [of b] unfolding uint_tuint_arith
    by (intro mod_pos_pos_trivial) linarith+
  then show "val (take (N + 1) (S @ (R ! N - b) # drop (N + 1) R)) = val (take (N + 1) R) - val B"
    using S(1,3) v by (simp add: val_append right_diff_distrib')
qed

lemma add_one_two_words:
  assumes "val [q0, q1] + 1 < base 2"
  shows "val [q0 + 1, q1 + (if q0 + 1 = 0 then 1 else 0)] = val [q0, q1] + 1"
proof -
  obtain p' q' where "add_block_carry 1 (q0 # q1 # []) = p' # q' # []" "val [p', q'] = val [q0, q1] + uint (1 :: tuint)"
    using add_block_carry_val [OF _ assms, of 1 "[]"] by (metis order_refl uint_1)
  moreover from this(1) have "p' = q0 + 1" "q' = q1 + (if q0 + 1 = 0 then 1 else 0)"
    by (auto simp: add_block_carry_def Let_def)
  ultimately show ?thesis by (simp only: uint_1)
qed

lemma CorrectQuotient_loop_val:
  assumes B: "length B = N" "even N" "0 < val B"
  shows "length R = N + 2 \<Longrightarrow> R ! (N + 1) = 0 \<Longrightarrow> length Q = 2 \<Longrightarrow>
    val Q + val R div val B < base 2 \<Longrightarrow>
    \<exists>R' Q'. CorrectQuotient_loop B N R Q = Some (R', Q') \<and> length R' = N + 2 \<and> length Q' = 2 \<and>
      val R' = val R mod val B \<and> val Q' = val Q + val R div val B"
proof (induction "nat (val R)" arbitrary: R Q rule: less_induct)
  case less
  note lR = less.prems(1) and top = less.prems(2)
  obtain q0 q1 where Qw: "Q = [q0, q1]" using val_words2 [OF less.prems(3)] by blast
  have vR: "val L = val (take (N + 1) L)" if "length L = N + 2" "L ! (N + 1) = 0" for L :: "tuint list"
  proof -
    have "L = take (N + 1) L @ [0]" using that by (metis take_Suc_conv_app_nth Suc_eq_plus1 add_2_eq_Suc' lessI take_all_iff order_refl)
    then have "val L = val (take (N + 1) L @ [0])" by simp
    then show ?thesis by (simp add: val_append)
  qed
  note cond = CorrectQuotient_loop_cond [OF B(1) lR, folded vR [OF lR top]]
  show ?case
  proof (cases "val B \<le> val R")
    case False
    then have "CorrectQuotient_loop B N R Q = Some (R, Q)"
      using cond by (subst CorrectQuotient_loop.simps) simp
    moreover have "val R mod val B = val R" "val R div val B = 0"
      using False by (simp_all add: mod_pos_pos_trivial div_pos_pos_trivial)
    ultimately show ?thesis using less.prems by simp
  next
    case True
    obtain S b where sub: "Subtract R B N = (S, b)" by fastforce
    define R' where "R' = S @ (R ! N - b) # drop (N + 1) R"
    define Q' where "Q' = [q0 + 1, q1 + (if q0 + 1 = 0 then 1 else 0)]"
    note st = subtract_top_word [OF B(1) lR B(2) True [unfolded vR [OF lR top]] sub, folded R'_def]
    have R': "length R' = N + 2" "R' ! (N + 1) = 0" "val R' = val R - val B"
      using st top vR [OF lR top] vR [of R'] by simp_all
    have run: "CorrectQuotient_loop B N R Q = CorrectQuotient_loop B N R' Q'"
      using True cond sub by (subst CorrectQuotient_loop.simps) (simp add: Let_def R'_def Q'_def Qw)
    have dm: "(val R - val B) div val B = val R div val B - 1" "(val R - val B) mod val B = val R mod val B"
      using div_mult_self1 [of "val B" "val R" "-1"] B(3) by simp_all
    have "1 \<le> val R div val B" using True B(3) by (simp add: pos_imp_zdiv_pos_iff int_one_le_iff_zero_less)
    then have "val Q + 1 < base 2 \<or> val Q + 1 = base 2 - 0 \<and> False" using less.prems(4) by linarith
    then have Q': "length Q' = 2" "val Q' = val Q + 1"
      using add_one_two_words [of q0 q1] by (simp_all add: Q'_def Qw)
    have "nat (val R') < nat (val R)" using R'(3) B(3) True by simp
    moreover have "val Q' + val R' div val B < base 2" unfolding Q'(2) R'(3) dm using less.prems(4) by simp
    ultimately show ?thesis
      using less.hyps [OF _ R'(1,2) Q'(1)] unfolding run Q'(2) R'(3) dm by simp
  qed
qed

lemma CorrectQuotientEstimate_val:
  assumes B: "length B = N" "even N" "2 \<le> N" "0 < val B" and R: "length R = N + 2" and Q: "length Q = 2"
    and le: "val Q * val B \<le> val R" and top: "val R - val Q * val B < base (N + 1)"
    and q: "val R < base 2 * val B"
  shows "\<exists>R' Q'. CorrectQuotientEstimate R Q B N = Some (R', Q') \<and> length R' = N + 2 \<and> length Q' = 2 \<and>
      val R' = val R mod val B \<and> val Q' = val R div val B"
proof -
  let ?T = "quotient_times_divisor Q B N"
  have T: "length ?T = N + 2" "val ?T = val Q * val B"
    using quotient_times_divisor_val [OF Q _ B(2,3), of B] B(1) by simp_all
  obtain S b where sub: "Subtract R ?T (N + 2) = (S, b)" by fastforce
  have ev: "even (N + 2)" using B(2) by simp
  have "uint b = 0"
    using Subtract_borrow_iff [OF _ _ ev sub] R T le by simp
  then have S: "length S = N + 2" "val S = val R - val Q * val B"
    using Subtract_val [OF _ _ ev sub] R T by simp_all
  have "S ! (N + 1) = 0"
  proof (rule ccontr)
    assume "S ! (N + 1) \<noteq> 0"
    then have "1 \<le> uint (S ! (N + 1))" by (rule uint_ge_1)
    then have "base (N + 1) * 1 \<le> base (N + 1) * uint (S ! (N + 1))" by (intro mult_left_mono) simp_all
    moreover have "S = take (N + 1) S @ [S ! (N + 1)]"
      using S(1) by (metis Suc_eq_plus1 add_2_eq_Suc' lessI take_Suc_conv_app_nth take_all_iff order_refl)
    then have "val S = val (take (N + 1) S) + base (N + 1) * uint (S ! (N + 1))"
      using S(1) val_append [of "take (N + 1) S" "[S ! (N + 1)]"] by simp
    ultimately show False using top S(2) val_nonneg [of "take (N + 1) S"] by linarith
  qed
  moreover have dm: "(val R - val Q * val B) div val B = val R div val B - val Q"
      "(val R - val Q * val B) mod val B = val R mod val B"
    using div_mult_self1 [of "val B" "val R" "- val Q"] mod_mult_self1 [of "val R" "- val Q" "val B"] B(4)
    by (simp_all add: mult.commute)
  moreover have "val R div val B < base 2" by (rule int_div_less [OF B(4) q])
  ultimately show ?thesis
    using CorrectQuotient_loop_val [OF B(1,2,4) S(1) _ Q] S(2) sub
    by (simp add: CorrectQuotientEstimate_def)
qed


subsection \<open>The division loop\<close>

lemma val_take_le: "val (take n L) \<le> val L"
  using val_take_drop [of L n] by simp

lemma val_small_take:
  assumes "val L < base n"
  shows "val (take n L) = val L"
proof (cases "n \<le> length L")
  case True
  have v: "val L = val (take n L) + base n * val (drop n L)"
    using val_take_drop [of L n] True by (simp add: min.absorb1)
  have "val (drop n L) = 0"
  proof (rule ccontr)
    assume "val (drop n L) \<noteq> 0"
    then have "1 \<le> val (drop n L)" using val_nonneg [of "drop n L"] by linarith
    then have "base n * 1 \<le> base n * val (drop n L)" by (intro mult_left_mono) simp_all
    then show False using v assms val_nonneg [of "take n L"] by linarith
  qed
  then show ?thesis using v by simp
qed simp

text \<open>The estimate from the top words: \<open>P\<close> is the base of the words below them.\<close>

lemma estimate_arith:
  fixes H R4 P W b bt q hl :: int
  assumes H: "H = hl + P * R4" "0 \<le> hl" "hl < P" and b: "(bt - 1) * P \<le> b" "b \<le> bt * P"
    and bt: "1 \<le> bt" "bt \<le> W" and q: "q = R4 div bt" "0 \<le> q" "q < W" and P: "0 < P"
  shows "q * b \<le> H" and "H - q * b < 2 * W * P"
proof -
  have qbt: "q * bt \<le> R4" "R4 < q * bt + bt"
    using div_mult_mod_eq [of R4 bt] pos_mod_sign [of bt R4] pos_mod_bound [of bt R4] bt unfolding q(1)
    by linarith+
  have "q * b \<le> q * (bt * P)" using b(2) q(2) by (rule mult_left_mono)
  also have "\<dots> = (q * bt) * P" by simp
  also have "\<dots> \<le> R4 * P" using qbt(1) P by (intro mult_right_mono) simp_all
  finally show "q * b \<le> H" using H by (simp add: mult.commute)
  have "q * ((bt - 1) * P) \<le> q * b" using b(1) q(2) by (rule mult_left_mono)
  moreover have "q * ((bt - 1) * P) = (q * bt - q) * P" by (simp add: algebra_simps)
  moreover have "P * R4 = R4 * P" by simp
  ultimately have "H - q * b < P + R4 * P - (q * bt - q) * P"
    using H by linarith
  also have "\<dots> = (1 + R4 - q * bt + q) * P" by (simp add: algebra_simps)
  also have "\<dots> \<le> (2 * W) * P"
    using qbt(2) bt(2) q(3) P by (intro mult_right_mono) simp_all
  finally show "H - q * b < 2 * W * P" .
qed

lemma divisor_top:
  assumes TB: "length TB = NB" "2 \<le> NB"
    and BT0: "BT0 = TB ! (NB - 2) + 1" and BT1: "BT1 = TB ! (NB - 1) + (if BT0 = 0 then 1 else 0)"
    and bt: "bt = (if val [BT0, BT1] = 0 then base 2 else val [BT0, BT1])"
  shows "(bt - 1) * base (NB - 2) \<le> val TB" and "val TB < bt * base (NB - 2)" and "1 \<le> bt" and "bt \<le> base 2"
proof -
  let ?t = "[TB ! (NB - 2), TB ! (NB - 1)]"
  have "TB = take (NB - 2) TB @ ?t"
    using TB by (intro nth_equalityI) (auto simp: nth_append less_Suc_eq numeral_2_eq_2 nth_Cons' intro!: arg_cong [where f = "nth TB"])
  then have v: "val TB = val (take (NB - 2) TB) + base (NB - 2) * val ?t"
    using TB val_append [of "take (NB - 2) TB" ?t] by simp
  have bt': "bt = val ?t + 1"
  proof (cases "val ?t + 1 < base 2")
    case True
    have "val [BT0, BT1] = val ?t + 1"
      unfolding BT0 BT1 by (rule add_one_two_words [OF True])
    moreover have "val ?t + 1 \<noteq> 0" using val_nonneg [of ?t] by linarith
    ultimately show ?thesis using bt by simp
  next
    case False
    have vb: "uint x + 4294967296 * uint y + 1 < 18446744073709551616 \<or> uint x = 4294967295 \<and> uint y = 4294967295" for x y :: tuint
      using uint_tuint_bounds [of x] uint_tuint_bounds [of y] by linarith
    have "uint (TB ! (NB - 2)) = 4294967295" "uint (TB ! (NB - 1)) = 4294967295"
      using vb [of "TB ! (NB - 2)" "TB ! (NB - 1)"] False by (simp_all add: base_2_4)
    then have "BT0 = 0" "BT1 = 0" "val ?t + 1 = base 2"
      unfolding BT1 BT0 by (simp_all add: word_uint_eq_iff uint_tuint_arith base_2_4)
    then show ?thesis using bt by simp
  qed
  show "(bt - 1) * base (NB - 2) \<le> val TB" unfolding bt' v by (simp add: mult.commute del: val.simps)
  have "val (take (NB - 2) TB) < base (NB - 2)" by (rule val_bound_eq) (use TB in simp)
  then show "val TB < bt * base (NB - 2)" unfolding bt' v by (simp add: algebra_simps del: val.simps)
  show "1 \<le> bt" unfolding bt' by (simp del: val.simps)
  have "val ?t < base 2" by (rule val_bound_eq) simp
  then show "bt \<le> base 2" unfolding bt' by simp
qed


lemma length_4_words: "length L = 4 \<Longrightarrow> \<exists>a b c d. L = [a, b, c, d]"
  by (auto simp: numeral_eq_Suc length_Suc_conv)

lemma Divide_loop_step:
  assumes TB: "length TB = NB" "even NB" "2 \<le> NB" "0 < val TB"
    and BT0: "BT0 = TB ! (NB - 2) + 1" and BT1: "BT1 = TB ! (NB - 1) + (if BT0 = 0 then 1 else 0)"
    and H: "length H = NB + 2" "val (drop 2 H) < val TB"
  shows "\<exists>q R Q. AtomicDivide (drop (NB - 2) H) [BT0, BT1] = Some q \<and>
    CorrectQuotientEstimate H q TB NB = Some (R, Q) \<and> length R = NB + 2 \<and> length Q = 2 \<and>
    val R = val H mod val TB \<and> val Q = val H div val TB"
proof -
  define P where "P = base (NB - 2)"
  define bt where "bt = (if val [BT0, BT1] = 0 then base 2 else val [BT0, BT1])"
  note dt = divisor_top [OF TB(1,3) BT0 BT1 bt_def, folded P_def]
  obtain A0 A1 A2 A3 where D: "drop (NB - 2) H = [A0, A1, A2, A3]"
  proof -
    have "length (drop (NB - 2) H) = 4" using H(1) TB(3) by simp
    then show thesis using length_4_words that by blast
  qed
  define R4 where "R4 = val [A0, A1, A2, A3]"
  have PR: "0 < P" by (simp add: P_def)
  have vH: "val H = val (take (NB - 2) H) + P * R4"
  proof -
    have "H = take (NB - 2) H @ [A0, A1, A2, A3]" by (metis append_take_drop_id D)
    moreover have "length (take (NB - 2) H) = NB - 2" using H(1) by simp
    ultimately show ?thesis unfolding R4_def P_def using val_append by metis
  qed
  have hl: "0 \<le> val (take (NB - 2) H)" "val (take (NB - 2) H) < P"
    unfolding P_def by (simp, rule val_bound_eq) (use H(1) in simp)
  have R4: "R4 = val [A0, A1] + base 2 * val [A2, A3]"
    unfolding R4_def by (rule val_pairs)
  have top: "val [A2, A3] < bt"
  proof -
    have "P * val [A2, A3] \<le> val (drop 2 H)"
    proof -
      have "drop (NB - 2) (drop 2 H) = drop 2 (drop (NB - 2) H)" by (simp add: add.commute)
      then have "drop (NB - 2) (drop 2 H) = [A2, A3]" unfolding D by simp
      then show ?thesis
        using val_take_drop [of "drop 2 H" "NB - 2"] H(1) by (simp add: P_def del: val.simps)
    qed
    then have "val [A2, A3] * P < bt * P" using H(2) dt(2) by (simp add: mult.commute del: val.simps)
    then show ?thesis using PR by (simp add: mult_less_cancel_right_pos del: val.simps)
  qed
  obtain q where q: "AtomicDivide (drop (NB - 2) H) [BT0, BT1] = Some q" "length q = 2" "val q = R4 div bt"
    using AtomicDivide_val [OF refl refl bt_def top] unfolding D R4_def by blast
  have vq: "0 \<le> val q" "val q < base 2" using val_bound_eq [OF q(2)] by simp_all
  note est = estimate_arith [OF vH hl dt(1) order_less_imp_le [OF dt(2)] dt(3,4) q(3) vq PR]
  have "2 * base 2 * P \<le> base (NB + 1)"
  proof -
    have "NB + 1 = 3 + (NB - 2)" using TB(3) by simp
    then have "base (NB + 1) = base 3 * P" unfolding P_def by (metis base_add)
    moreover have "2 * base 2 * P \<le> base 3 * P" using PR by (intro mult_right_mono) (simp_all add: base_def)
    ultimately show ?thesis by simp
  qed
  then have fit: "val H - val q * val TB < base (NB + 1)" using est(2) by linarith
  have "val H < base 2 * val TB"
  proof -
    have "val H = val (take 2 H) + base 2 * val (drop 2 H)"
      using val_take_drop [of H 2] H(1) by (simp add: base_2_4)
    moreover have "val (take 2 H) < base 2" by (rule val_bound_eq) (use H(1) in simp)
    moreover have "base 2 * (val (drop 2 H) + 1) \<le> base 2 * val TB"
      using H(2) by (intro mult_left_mono) simp_all
    ultimately show ?thesis by (simp add: distrib_left)
  qed
  from CorrectQuotientEstimate_val [OF TB H(1) q(2) est(1) fit this] q(1) show ?thesis by blast
qed

lemma Divide_loop_val:
  assumes TB: "length TB = NB" "even NB" "2 \<le> NB" "0 < val TB"
    and BT0: "BT0 = TB ! (NB - 2) + 1" and BT1: "BT1 = TB ! (NB - 1) + (if BT0 = 0 then 1 else 0)"
  shows "even i \<Longrightarrow> NB \<le> i + 2 \<Longrightarrow> i + 2 \<le> length TA \<Longrightarrow>
    val (take (NB + 2) (drop (i + 2 - NB) TA)) < val TB \<Longrightarrow>
    \<exists>TA' q. Divide_loop TB [BT0, BT1] NB i TA Q = Some (TA', q @ Q) \<and> length TA' = length TA \<and>
      length q = i + 2 - NB \<and> val (take (NB + 2) TA') = val (take (i + 2) TA) mod val TB \<and>
      val q = val (take (i + 2) TA) div val TB"
proof (induction i arbitrary: TA Q rule: less_induct)
  case (less i)
  show ?case
  proof (cases "i < NB")
    case True
    then have i: "i + 2 = NB" using less.prems(1,2) TB(2) by presburger
    have lt: "val (take (NB + 2) TA) < val TB" using less.prems(4) i by simp
    also have "val TB < base NB" by (rule val_bound_eq [OF TB(1)])
    finally have eq: "val (take NB TA) = val (take (NB + 2) TA)"
      using val_small_take [of "take (NB + 2) TA" NB] by simp
    have "Divide_loop TB [BT0, BT1] NB i TA Q = Some (TA, [] @ Q)"
      using True by (subst Divide_loop.simps) simp
    moreover have "val (take (NB + 2) TA) = val (take (i + 2) TA) mod val TB" "val [] = val (take (i + 2) TA) div val TB"
      unfolding i eq using lt by (simp_all add: mod_pos_pos_trivial div_pos_pos_trivial)
    ultimately show ?thesis using i by fastforce
  next
    case False
    then have i: "NB \<le> i" "2 \<le> i" using TB(3) by simp_all
    define H where "H = take (NB + 2) (drop (i - NB) TA)"
    have lH: "length H = NB + 2" using less.prems(3) i by (simp add: H_def)
    have d2: "drop 2 H = take NB (drop (i + 2 - NB) TA)"
    proof -
      have "i - NB + 2 = i + 2 - NB" using i by simp
      then show ?thesis by (simp add: H_def drop_take add.commute)
    qed
    have "val (drop 2 H) \<le> val (take (NB + 2) (drop (i + 2 - NB) TA))"
      unfolding d2 using val_take_le [of NB "take (NB + 2) (drop (i + 2 - NB) TA)"] by simp
    then have topH: "val (drop 2 H) < val TB" using less.prems(4) by simp
    have d4: "take 4 (drop (i - 2) TA) = drop (NB - 2) H"
    proof -
      have "NB - 2 + (i - NB) = i - 2" "NB + 2 - (NB - 2) = 4" using i TB(3) by simp_all
      then show ?thesis by (simp add: H_def drop_take)
    qed
    obtain q R Q2 where st: "AtomicDivide (drop (NB - 2) H) [BT0, BT1] = Some q"
      "CorrectQuotientEstimate H q TB NB = Some (R, Q2)" "length R = NB + 2" "length Q2 = 2"
      "val R = val H mod val TB" "val Q2 = val H div val TB"
      using Divide_loop_step [OF TB BT0 BT1 lH topH] by blast
    define TA1 where "TA1 = take (i - NB) TA @ R @ drop (i + 2) TA"
    have lTA1: "length TA1 = length TA" using st(3) less.prems(3) i by (simp add: TA1_def)
    have run: "Divide_loop TB [BT0, BT1] NB i TA Q = Divide_loop TB [BT0, BT1] NB (i - 2) TA1 (Q2 @ Q)"
    proof -
      have "\<not> (i < NB \<or> i < 2)" using i by simp
      then show ?thesis
        by (subst Divide_loop.simps) (simp only: if_False d4 st(1) H_def [symmetric] st(2) Option.bind.simps
            prod.case TA1_def)
    qed
    have Rlt: "val R < val TB" using st(5) TB(4) by simp
    have e: "i - 2 + 2 = i" "i - 2 + 2 - NB = i - NB" using i by simp_all
    have lt: "length (take (i - NB) TA) = i - NB" using less.prems(3) by simp
    have dTA1: "take (NB + 2) (drop (i - NB) TA1) = R"
      unfolding TA1_def using lt st(3) by simp
    have "\<exists>TA' q'. Divide_loop TB [BT0, BT1] NB (i - 2) TA1 (Q2 @ Q) = Some (TA', q' @ Q2 @ Q) \<and>
      length TA' = length TA1 \<and> length q' = i - NB \<and>
      val (take (NB + 2) TA') = val (take i TA1) mod val TB \<and> val q' = val (take i TA1) div val TB"
      using less.IH [of "i - 2" TA1 "Q2 @ Q"] less.prems(1,3) i Rlt lTA1 unfolding e dTA1 by simp
    then obtain TA' q' where IH: "Divide_loop TB [BT0, BT1] NB (i - 2) TA1 (Q2 @ Q) = Some (TA', q' @ Q2 @ Q)"
      "length TA' = length TA1" "length q' = i - NB"
      "val (take (NB + 2) TA') = val (take i TA1) mod val TB" "val q' = val (take i TA1) div val TB"
      by blast
    let ?l = "val (take (i - NB) TA)" and ?b = "base (i - NB)"
    have tk: "take (i + 2) TA = take (i - NB) TA @ H"
    proof -
      have "i + 2 = (i - NB) + (NB + 2)" using i by simp
      then show ?thesis unfolding H_def by (metis take_add)
    qed
    have V: "val (take (i + 2) TA) = ?l + ?b * val H" unfolding tk val_append lt ..
    have tk1: "take i TA1 = take (i - NB) TA @ take NB R"
      unfolding TA1_def using lt st(3) i by simp
    have "val R < base NB" using Rlt val_bound_eq [OF TB(1)] by simp
    then have V1: "val (take i TA1) = ?l + ?b * val R"
      unfolding tk1 by (simp only: val_append lt val_small_take)
    have "val H = val Q2 * val TB + val R" unfolding st(5,6) by simp
    then have "val (take (i + 2) TA) = val (take i TA1) + (?b * val Q2) * val TB"
      unfolding V V1 by (simp add: algebra_simps)
    then have "val (take (i + 2) TA) mod val TB = val (take i TA1) mod val TB"
      "val (take (i + 2) TA) div val TB = val q' + ?b * val Q2"
      using TB(4) IH(5) by simp_all
    moreover have "val (q' @ Q2) = val q' + ?b * val Q2" by (simp add: val_append IH(3))
    moreover have "length (q' @ Q2) = i + 2 - NB" using IH(3) st(4) i by simp
    ultimately show ?thesis
      using run IH lTA1 by (intro exI [of _ TA'] exI [of _ "q' @ Q2"]) simp
  qed
qed


subsection \<open>The first quotient word and the normalisation\<close>

lemma Divide_first_val:
  assumes TB: "length TB = NB" "even NB" "0 < val TB"
  shows "length H = NB + 2 \<Longrightarrow> H ! (NB + 1) = 0 \<Longrightarrow> uint q + val H div val TB < 4294967296 \<Longrightarrow>
    \<exists>H' q'. Divide_first TB NB H q = Some (H', q') \<and> length H' = NB + 2 \<and>
      val H' = val H mod val TB \<and> uint q' = uint q + val H div val TB"
proof (induction "nat (val H)" arbitrary: H q rule: less_induct)
  case less
  note lH = less.prems(1) and top = less.prems(2)
  have vL: "val L = val (take (NB + 1) L)" if "length L = NB + 2" "L ! (NB + 1) = 0" for L :: "tuint list"
  proof -
    have "L = take (NB + 1) L @ [0]" using that by (metis take_Suc_conv_app_nth Suc_eq_plus1 add_2_eq_Suc' lessI take_all_iff order_refl)
    then have "val L = val (take (NB + 1) L @ [0])" by simp
    then show ?thesis by (simp add: val_append)
  qed
  note cond = CorrectQuotient_loop_cond [OF TB(1) lH, folded vL [OF lH top]]
  show ?case
  proof (cases "val TB \<le> val H")
    case False
    then have "Divide_first TB NB H q = Some (H, q)"
      using cond by (subst Divide_first.simps) simp
    then show ?thesis using False lH by (simp add: mod_pos_pos_trivial div_pos_pos_trivial)
  next
    case True
    obtain S b where sub: "Subtract H TB NB = (S, b)" by fastforce
    define H' where "H' = S @ (H ! NB - b) # drop (NB + 1) H"
    note st = subtract_top_word [OF TB(1) lH TB(2) True [unfolded vL [OF lH top]] sub, folded H'_def]
    have H': "length H' = NB + 2" "H' ! (NB + 1) = 0" "val H' = val H - val TB"
      using st top vL [OF lH top] vL [of H'] by simp_all
    have run: "Divide_first TB NB H q = Divide_first TB NB H' (q + 1)"
      using True cond sub by (subst Divide_first.simps) (simp add: H'_def)
    have dm: "(val H - val TB) div val TB = val H div val TB - 1" "(val H - val TB) mod val TB = val H mod val TB"
      using div_mult_self1 [of "val TB" "val H" "-1"] TB(3) by simp_all
    have "1 \<le> val H div val TB" using True TB(3) by (simp add: pos_imp_zdiv_pos_iff int_one_le_iff_zero_less)
    then have q1: "uint (q + 1) = uint q + 1"
      using less.prems(3) uint_ge_0 [of q] unfolding uint_tuint_arith by (simp add: mod_pos_pos_trivial)
    have lt: "nat (val H') < nat (val H)" unfolding H'(3) using TB(3) True by linarith
    have "uint (q + 1) + val H' div val TB < 4294967296" unfolding H'(3) dm q1 using less.prems(3) by simp
    from less.hyps [OF lt H'(1,2) this] show ?thesis
      unfolding run H'(3) dm q1 by simp
  qed
qed

lemma Divide_loop_run:
  assumes TB: "length TB = NB" "even NB" "2 \<le> NB" "0 < val TB"
    and BT0: "BT0 = TB ! (NB - 2) + 1" and BT1: "BT1 = TB ! (NB - 1) + (if BT0 = 0 then 1 else 0)"
    and i: "even i" "NB \<le> i + 2" "i + 2 \<le> length TA"
    and lt: "val (take (NB + 2) (drop (i + 2 - NB) TA)) < val TB"
  obtains TA' q where "Divide_loop TB [BT0, BT1] NB i TA Q = Some (TA', q @ Q)"
    "length TA' = length TA" "length q = i + 2 - NB"
    "val (take (NB + 2) TA') = val (take (i + 2) TA) mod val TB" "val q = val (take (i + 2) TA) div val TB"
  using Divide_loop_val [OF TB BT0 BT1 i lt, of Q] by blast

lemma shift_left_exact:
  assumes "length L = n" and "s < 32" and "val L * 2 ^ s < base n"
  shows "length (fst (ShiftWordsLeftByBits L n s)) = n" and "val (fst (ShiftWordsLeftByBits L n s)) = val L * 2 ^ s"
proof -
  obtain r c where sh: "ShiftWordsLeftByBits L n s = (r, c)" by fastforce
  note v = ShiftWordsLeftByBits_val [OF _ assms(2) sh] 
  have r: "length r = n" "val r + base n * uint c = val L * 2 ^ s" using v assms(1) by simp_all
  have "uint c = 0" using no_carry [OF r(2) assms(3) val_nonneg uint_ge_0 base_pos(1)] .
  then show "length (fst (ShiftWordsLeftByBits L n s)) = n"
    and "val (fst (ShiftWordsLeftByBits L n s)) = val L * 2 ^ s" using r sh by simp_all
qed

lemma val_shifted_words: "val (replicate n 0 @ L) = base n * val L"
  by (simp add: val_append)

text \<open>The top bit of the normalised divisor is set, and nothing is shifted out.\<close>

lemma normalise_top:
  assumes "w \<noteq> (0 :: tuint)" and s: "s = WORD_BITS - BitPrecision w"
  shows "s < 32" and "2147483648 \<le> uint w * 2 ^ s" and "(uint w + 1) * 2 ^ s \<le> 4294967296"
proof -
  note bp = BitPrecision_bounds [OF assms(1)]
  have s': "s = 32 - BitPrecision w" "s + BitPrecision w = 32" "s + (BitPrecision w - 1) = 31"
    using s bp by (simp_all add: WORD_BITS_def)
  then show "s < 32" using bp by simp
  have "(2 :: int) ^ (BitPrecision w - 1) * 2 ^ s \<le> uint w * 2 ^ s" using bp(3) by (rule mult_right_mono) simp
  then show "2147483648 \<le> uint w * 2 ^ s" using s'(3) by (simp add: power_add [symmetric] add.commute)
  have "(uint w + 1) * 2 ^ s \<le> (2 :: int) ^ BitPrecision w * 2 ^ s" using bp(4) by (intro mult_right_mono) simp_all
  then show "(uint w + 1) * 2 ^ s \<le> 4294967296" using s'(2) by (simp add: power_add [symmetric] add.commute)
qed


lemma last_word_split:
  assumes "length L = n" "0 < n"
  shows "L = take (n - 1) L @ [L ! (n - 1)]"
  using assms by (metis append_butlast_last_id butlast_conv_take last_conv_nth length_greater_0_conv)

lemma normalise_words:
  assumes B: "length B = NB" "2 \<le> NB" and nz: "B ! (NB - 1) \<noteq> 0 \<or> B ! (NB - 2) \<noteq> 0"
    and sw: "sw = (if B ! (NB - 1) = 0 then 1 else (0 :: nat))"
    and T0: "T0 = replicate sw 0 @ take (NB - sw) B"
  shows "length T0 = NB" and "val T0 = base sw * val B" and "T0 ! (NB - 1) \<noteq> 0"
    and "base (NB - 1) * uint (T0 ! (NB - 1)) \<le> val T0"
    and "val T0 < base (NB - 1) * (uint (T0 ! (NB - 1)) + 1)"
    and "base (NB - 2) \<le> val B"
proof -
  have sw1: "sw \<le> 1" by (simp add: sw)
  show l: "length T0 = NB" using B sw1 by (simp add: T0)
  have dz: "val (take (NB - sw) B) = val B"
  proof (cases "sw = 0")
    case False
    then have s1: "sw = 1" "B ! (NB - 1) = 0" using sw by (auto split: if_splits)
    have "B = take (NB - 1) B @ [B ! (NB - 1)]"
      using last_word_split [OF B(1)] B(2) by simp
    then show ?thesis using s1 val_append [of "take (NB - 1) B" "[0]"] by simp
  qed (use B in simp)
  show "val T0 = base sw * val B" unfolding T0 val_shifted_words dz ..
  show "T0 ! (NB - 1) \<noteq> 0"
  proof (cases "sw = 0")
    case True
    then show ?thesis using B sw by (auto simp: T0 split: if_splits)
  next
    case False
    then have "sw = 1" "B ! (NB - 1) = 0" using sw by (auto split: if_splits)
    then show ?thesis using B nz by (simp add: T0 nth_append nth_Cons' numeral_2_eq_2)
  qed
  have T0e: "val T0 = val (take (NB - 1) T0) + base (NB - 1) * uint (T0 ! (NB - 1))"
  proof -
    have "T0 = take (NB - 1) T0 @ [T0 ! (NB - 1)]"
      using last_word_split [OF l] B(2) by simp
    then show ?thesis using l B val_append [of "take (NB - 1) T0" "[T0 ! (NB - 1)]"] by simp
  qed
  show "base (NB - 1) * uint (T0 ! (NB - 1)) \<le> val T0" unfolding T0e by simp
  have "val (take (NB - 1) T0) < base (NB - 1)" by (rule val_bound_eq) (use l in simp)
  then show "val T0 < base (NB - 1) * (uint (T0 ! (NB - 1)) + 1)" unfolding T0e by (simp add: distrib_left)
  show "base (NB - 2) \<le> val B"
  proof -
    have B': "B = take (NB - 2) B @ [B ! (NB - 2), B ! (NB - 1)]"
    proof -
      have "drop (NB - 2) B = [B ! (NB - 2), B ! (NB - 1)]"
        using B by (simp add: Cons_nth_drop_Suc [symmetric] Suc_diff_Suc numeral_2_eq_2)
      then show ?thesis by (metis append_take_drop_id)
    qed
    have lt: "length (take (NB - 2) B) = NB - 2" using B by simp
    have v: "val B = val (take (NB - 2) B) + base (NB - 2) * val [B ! (NB - 2), B ! (NB - 1)]"
      using val_append [of "take (NB - 2) B" "[B ! (NB - 2), B ! (NB - 1)]"] unfolding lt B' [symmetric] .
    have "1 \<le> val [B ! (NB - 2), B ! (NB - 1)]"
    proof -
      have "1 \<le> uint (B ! (NB - 1)) \<or> 1 \<le> uint (B ! (NB - 2))" using nz uint_ge_1 by blast
      moreover have "val [B ! (NB - 2), B ! (NB - 1)] = uint (B ! (NB - 2)) + 4294967296 * uint (B ! (NB - 1))" by simp
      ultimately show ?thesis using uint_ge_0 [of "B ! (NB - 1)"] uint_ge_0 [of "B ! (NB - 2)"] by linarith
    qed
    then have "base (NB - 2) * 1 \<le> base (NB - 2) * val [B ! (NB - 2), B ! (NB - 1)]"
      by (intro mult_left_mono) simp_all
    then show ?thesis using v val_nonneg [of "take (NB - 2) B"] by linarith
  qed
qed


lemma Divide_finish:
  assumes TA: "NB + 2 \<le> length TA" and v: "val (take (NB + 2) TA) = base sw * 2 ^ s * r"
    and sw: "sw \<le> 1" and s: "s < 32" and r: "0 \<le> r" "r * 2 ^ s < base NB"
  shows "length (fst (ShiftWordsRightByBits (take NB (drop sw TA)) NB s)) = NB"
    and "val (fst (ShiftWordsRightByBits (take NB (drop sw TA)) NB s)) = r"
proof -
  define Z where "Z = take (NB + 2) TA"
  have "sw \<le> length Z" using TA sw by (simp add: Z_def)
  then have "val (drop sw Z) = val Z div base sw" by (rule val_div_base(1))
  also have "\<dots> = 2 ^ s * r" using v by (simp add: Z_def mult.assoc)
  finally have vd: "val (drop sw Z) = r * 2 ^ s" by simp
  have tk: "take NB (drop sw TA) = take NB (drop sw Z)"
    using sw by (simp add: Z_def drop_take min_def)
  have vt: "val (take NB (drop sw TA)) = r * 2 ^ s"
    unfolding tk by (subst val_small_take) (use vd r in simp_all)
  have lt: "length (take NB (drop sw TA)) = NB" using TA sw by simp
  obtain R c where sh: "ShiftWordsRightByBits (take NB (drop sw TA)) NB s = (R, c)" by fastforce
  have "length R = NB" "val R = val (take NB (drop sw TA)) div 2 ^ s"
    using ShiftWordsRightByBits_val [OF _ s sh] lt by simp_all
  then show "length (fst (ShiftWordsRightByBits (take NB (drop sw TA)) NB s)) = NB"
    and "val (fst (ShiftWordsRightByBits (take NB (drop sw TA)) NB s)) = r" using sh vt by simp_all
qed

lemma Divide_exact:
  assumes A: "length A = NA" "even NA" and B: "length B = NB" "even NB" "2 \<le> NB" and le: "NB \<le> NA"
    and nz: "B ! (NB - 1) \<noteq> 0 \<or> B ! (NB - 2) \<noteq> 0"
  shows "\<exists>R Q. Divide A NA B NB = Some (R, Q) \<and> length R = NB \<and> length Q = NA - NB + 2 \<and>
    val R = val A mod val B \<and> val Q = val A div val B"
proof -
  define sw where "sw = (if B ! (NB - 1) = 0 then 1 else (0 :: nat))"
  define T0 where "T0 = replicate sw 0 @ take (NB - sw) B"
  note nw = normalise_words [OF B(1,3) nz sw_def T0_def]
  have sw: "sw \<le> 1" by (simp add: sw_def)
  define s where "s = WORD_BITS - BitPrecision (T0 ! (NB - 1))"
  note nt = normalise_top [OF nw(3) s_def]
  have p2: "0 < (2 :: int) ^ s" by simp
  have bNB: "base NB = base (NB - 1) * 4294967296" using B(3) by (cases NB) simp_all
  have B0: "0 < val B" using nw(6) base_pos(1) [of "NB - 2"] by linarith
  define K where "K = base sw * 2 ^ s"
  have K: "0 < K" by (simp add: K_def)
  define TB where "TB = fst (ShiftWordsLeftByBits T0 NB s)"
  have "val T0 * 2 ^ s < base (NB - 1) * ((uint (T0 ! (NB - 1)) + 1) * 2 ^ s)"
    using mult_strict_right_mono [OF nw(5) p2] by (simp add: mult.assoc)
  also have "\<dots> \<le> base NB" unfolding bNB by (rule mult_left_mono [OF nt(3)]) simp
  finally have TB: "length TB = NB" "val TB = K * val B"
    using shift_left_exact [OF nw(1) nt(1)] unfolding TB_def nw(2) K_def by (simp_all add: ac_simps)
  have TBpos: "0 < val TB" unfolding TB(2) using K B0 by simp
  have TBhalf: "base NB \<le> 2 * val TB"
  proof -
    have "base (NB - 1) * 2147483648 \<le> base (NB - 1) * (uint (T0 ! (NB - 1)) * 2 ^ s)"
      by (rule mult_left_mono [OF nt(2)]) simp
    also have "\<dots> = base (NB - 1) * uint (T0 ! (NB - 1)) * 2 ^ s" by simp
    also have "\<dots> \<le> val T0 * 2 ^ s" by (rule mult_right_mono [OF nw(4)]) simp
    finally show ?thesis unfolding bNB TB(2) K_def nw(2) by (simp add: ac_simps)
  qed
  define A0 where "A0 = replicate sw 0 @ take NA A @ replicate (2 - sw) (0 :: tuint)"
  have A0: "length A0 = NA + 2" "val A0 = base sw * val A"
    using A(1) sw by (simp_all add: A0_def val_append)
  have Klt: "K \<le> base 2"
  proof -
    have "sw = 0 \<or> sw = 1" using sw by linarith
    then have b: "base sw \<le> 4294967296" by auto
    have "(2 :: int) ^ s \<le> 2 ^ 32" using nt(1) by (intro power_increasing) simp_all
    then have "K \<le> 4294967296 * 2 ^ 32" unfolding K_def using b by (intro mult_mono) simp_all
    then show ?thesis by (simp add: base_2_4)
  qed
  define TA where "TA = fst (ShiftWordsLeftByBits A0 (NA + 2) s)"
  have "K * val A < K * base NA" using val_bound_eq [OF A(1)] K by simp
  moreover have "K * base NA \<le> base 2 * base NA" using Klt by (rule mult_right_mono) simp
  moreover have "base (NA + 2) = base 2 * base NA" unfolding base_add by (rule mult.commute)
  ultimately have KA: "K * val A < base (NA + 2)" by linarith
  then have TA: "length TA = NA + 2" "val TA = K * val A"
    using shift_left_exact [OF A0(1) nt(1)] unfolding TA_def A0(2) K_def by (simp_all add: ac_simps)
  define BT0 where "BT0 = TB ! (NB - 2) + 1"
  define BT1 where "BT1 = TB ! (NB - 1) + (if BT0 = 0 then 1 else 0)"
  define finish where "finish = (\<lambda>(TA, Q :: tuint list).
      (fst (ShiftWordsRightByBits (take NB (drop sw TA)) NB s), Q))"
  have dm: "val TA mod val TB = K * (val A mod val B)" "val TA div val TB = val A div val B"
    unfolding TA(2) TB(2) using K by simp_all
  have fin: "\<exists>R Q'. map_option finish (Some (TA', Q)) = Some (R, Q') \<and> length R = NB \<and> length Q' = NA - NB + 2 \<and>
      val R = val A mod val B \<and> val Q' = val A div val B"
    if "length TA' = NA + 2" "length Q = NA - NB + 2" "val (take (NB + 2) TA') = val TA mod val TB"
      "val Q = val TA div val TB" for TA' Q
  proof -
    have r: "(val A mod val B) * 2 ^ s < base NB"
    proof -
      have "(val A mod val B) * 2 ^ s \<le> base sw * ((val A mod val B) * 2 ^ s)"
        using mult_right_mono [OF base_ge_1 [of sw], of "(val A mod val B) * 2 ^ s"] B0 by simp
      also have "\<dots> = K * (val A mod val B)" by (simp add: K_def)
      also have "\<dots> < K * val B" using B0 K by simp
      also have "\<dots> < base NB" using val_bound_eq [OF TB(1)] TB(2) by simp
      finally show ?thesis .
    qed
    have v: "val (take (NB + 2) TA') = base sw * 2 ^ s * (val A mod val B)"
      unfolding that(3) dm(1) K_def by simp
    have lTA': "NB + 2 \<le> length TA'" using that(1) le by simp
    have "0 \<le> val A mod val B" using B0 by simp
    note f = Divide_finish [OF lTA' v sw nt(1) this r]
    show ?thesis using f that(2,4) dm(2) by (simp add: finish_def)
  qed
  have run: "Divide A NA B NB =
      (if TA ! (NA + 1) = 0 \<and> TA ! NA \<le> 1 then
         Option.bind (Divide_first TB NB (drop (NA - NB) TA) 0) (\<lambda>(H, q).
           map_option finish (Divide_loop TB [BT0, BT1] NB (NA - 2) (take (NA - NB) TA @ H) [q, 0]))
       else map_option finish (Divide_loop TB [BT0, BT1] NB NA TA []))"
    unfolding Divide_def Let_def sw_def [symmetric] T0_def [symmetric] s_def [symmetric] TB_def [symmetric]
      A0_def [symmetric] TA_def [symmetric] BT0_def [symmetric] BT1_def [symmetric] finish_def [symmetric]
    by (rule refl)
  show ?thesis
  proof (cases "TA ! (NA + 1) = 0 \<and> TA ! NA \<le> 1")
    case True
    define H where "H = drop (NA - NB) TA"
    have lH: "length H = NB + 2" using TA(1) le by (simp add: H_def)
    have tops: "H ! (NB + 1) = 0" "H ! NB = TA ! NA" using True TA(1) le by (simp_all add: H_def)
    have vTA: "val TA = val (take (NA - NB) TA) + base (NA - NB) * val H"
      using val_append [of "take (NA - NB) TA" H] TA(1) by (simp add: H_def)
    have Hb: "val H < 2 * base NB"
    proof -
      have "H = take (NB + 1) H @ [0]"
        using last_word_split [OF lH] tops(1) by simp
      then have v1: "val H = val (take (NB + 1) H)" using val_append [of "take (NB + 1) H" "[0]"] by simp
      have "take (NB + 1) H = take NB H @ [H ! NB]" using lH by (simp add: take_Suc_conv_app_nth)
      then have "val H = val (take NB H) + base NB * uint (H ! NB)"
        unfolding v1 using lH by (simp add: val_append)
      moreover have "uint (H ! NB) \<le> 1" using True tops(2) by (simp add: word_le_def)
      then have "base NB * uint (H ! NB) \<le> base NB * 1" by (intro mult_left_mono) simp_all
      moreover have "val (take NB H) < base NB" by (rule val_bound_eq) (use lH in simp)
      ultimately show ?thesis by linarith
    qed
    have qb: "val H div val TB < 4294967296"
      by (rule int_div_less [OF TBpos]) (use Hb TBhalf TBpos in linarith)
    obtain H' q where H': "Divide_first TB NB H 0 = Some (H', q)" "length H' = NB + 2"
      "val H' = val H mod val TB" "uint q = val H div val TB"
      using Divide_first_val [OF TB(1) B(2) TBpos lH tops(1), of 0] qb by auto
    define TA1 where "TA1 = take (NA - NB) TA @ H'"
    have lt: "length (take (NA - NB) TA) = NA - NB" using TA(1) by simp
    have lTA1: "length TA1 = NA + 2" using lt H'(2) le by (simp add: TA1_def)
    have e: "NA - 2 + 2 = NA" "NA - 2 + 2 - NB = NA - NB" using le B(3) by simp_all
    have lt1: "val (take (NB + 2) (drop (NA - 2 + 2 - NB) TA1)) < val TB"
      unfolding e TA1_def using lt H'(2,3) TBpos by simp
    have i: "even (NA - 2)" "NB \<le> NA - 2 + 2" "NA - 2 + 2 \<le> length TA1"
      using A(2) le B(3) lTA1 by simp_all
    obtain TA' q' where L: "Divide_loop TB [BT0, BT1] NB (NA - 2) TA1 [q, 0] = Some (TA', q' @ [q, 0])"
      "length TA' = length TA1" "length q' = NA - NB"
      "val (take (NB + 2) TA') = val (take NA TA1) mod val TB" "val q' = val (take NA TA1) div val TB"
      using Divide_loop_run [OF TB(1) B(2,3) TBpos BT0_def BT1_def i lt1, of "[q, 0]"] unfolding e by blast
    have "take NA TA1 = take (NA - NB) TA @ take NB H'"
      unfolding TA1_def using lt le by simp
    moreover have "val H' < base NB" using H'(3) TBpos val_bound_eq [OF TB(1)]
        pos_mod_bound [OF TBpos, of "val H"] by linarith
    ultimately have v1: "val (take NA TA1) = val (take (NA - NB) TA) + base (NA - NB) * val H'"
      by (simp only: val_append lt val_small_take)
    have "val H = uint q * val TB + val H'" using H'(3,4) by simp
    then have "val TA = val (take NA TA1) + (base (NA - NB) * uint q) * val TB"
      unfolding vTA v1 by (simp add: algebra_simps)
    then have m: "val (take (NB + 2) TA') = val TA mod val TB" "val (q' @ [q, 0]) = val TA div val TB"
      using TBpos L(3,4,5) by (simp_all add: val_append)
    have "Divide A NA B NB = map_option finish (Some (TA', q' @ [q, 0]))"
      unfolding run using True H'(1) L(1) by (simp add: H_def TA1_def)
    then show ?thesis using fin [OF _ _ m] L(2,3) lTA1 le by simp
  next
    case False
    have top: "val (take (NB + 2) (drop (NA + 2 - NB) TA)) < val TB"
    proof -
      have "val (drop (NA + 2 - NB) TA) = val TA div base (NA + 2 - NB)"
        by (rule val_div_base(1)) (use TA(1) in simp)
      also have "\<dots> < val TB"
      proof (rule int_div_less)
        have "K * val A < K * base NA" using val_bound_eq [OF A(1)] K by simp
        also have "base NA = base (NB - 2) * base (NA + 2 - NB)"
        proof -
          have "NA = (NB - 2) + (NA + 2 - NB)" using le B(3) by linarith
          then show ?thesis using base_add by metis
        qed
        also have "K * (base (NB - 2) * base (NA + 2 - NB)) \<le> (K * val B) * base (NA + 2 - NB)"
          using mult_right_mono [OF mult_left_mono [OF nw(6), of K], of "base (NA + 2 - NB)"] K
          by (simp add: mult.assoc)
        finally show "val TA < val TB * base (NA + 2 - NB)" unfolding TA(2) TB(2) .
      qed simp
      finally show ?thesis using val_take_le [of "NB + 2" "drop (NA + 2 - NB) TA"] by linarith
    qed
    have i: "even NA" "NB \<le> NA + 2" "NA + 2 \<le> length TA" using A(2) le TA(1) by simp_all
    obtain TA' q' where L: "Divide_loop TB [BT0, BT1] NB NA TA [] = Some (TA', q' @ [])"
      "length TA' = length TA" "length q' = NA + 2 - NB"
      "val (take (NB + 2) TA') = val (take (NA + 2) TA) mod val TB" "val q' = val (take (NA + 2) TA) div val TB"
      using Divide_loop_run [OF TB(1) B(2,3) TBpos BT0_def BT1_def i top, of "[]"] by blast
    have tk: "take (NA + 2) TA = TA" using TA(1) by simp
    have "Divide A NA B NB = map_option finish (Some (TA', q'))"
      unfolding run if_not_P [OF False] L(1) by simp
    moreover have "length q' = NA - NB + 2" using L(3) le by simp
    ultimately show ?thesis using fin [of TA' q'] L(2,4,5) TA(1) unfolding tk by simp
  qed
qed


subsection \<open>Properties\<close>

text \<open>
  C4: Division returns for every dividend and every divisor whose top pair of words is not
  zero (so the estimate corrections of its three loops all end), and what it returns are the
  \<open>NB\<close> words of the remainder and the \<open>NA - NB + 2\<close> words of the quotient.
\<close>

theorem Divide_correct:
  assumes "length A = NA" "even NA" and "length B = NB" "even NB" "2 \<le> NB" and "NB \<le> NA"
    and "B ! (NB - 1) \<noteq> 0 \<or> B ! (NB - 2) \<noteq> 0"
  shows "\<exists>R Q. Divide A NA B NB = Some (R, Q) \<and> length R = NB \<and> length Q = NA - NB + 2 \<and>
    val R = val A mod val B \<and> val Q = val A div val B"
  by (rule Divide_exact [OF assms])

theorem Divide_correct_witness:
  "\<exists>R Q. Divide [7, 1, 9, 4] 4 [3, 0] 2 = Some (R, Q) \<and> length R = 2 \<and> length Q = 4 \<and>
    val R = val [7, 1, 9, 4] mod val [3, 0] \<and> val Q = val [7, 1, 9, 4] div val [3, 0]"
  using Divide_correct [of "[7, 1, 9, 4]" 4 "[3, 0]" 2] by simp

end
