(* ===== verification/BigInt.thy ===== *)
theory BigInt
  imports Karatsuba Montgomery Division
begin

section \<open>Big integers (\<open>bigint.cpp\<close>, \<open>rinteger.cpp\<close>)\<close>

text \<open>
  \<open>TInteger\<close> keeps the number of words, a pointer to them and a sign bit; here a record of
  the words and the sign, \<open>Size\<close> being the length.  Operations that write through
  \<open>this\<close> return the new value.  Running out of memory is not modelled; leaving with an
  error code, a panic of an assertion and a write behind a heap cell are results.
  \<open>wf\<close> is the representation invariant (a power of two of words, at least two).
\<close>

subsection \<open>Representation and memory\<close>

datatype TSign = EPositive | ENegative

record TInteger =
  Reg :: "tuint list"
  Sign :: TSign

definition Size :: "TInteger \<Rightarrow> nat" where "Size x = length (Reg x)"

definition IsNegative :: "TInteger \<Rightarrow> bool" where "IsNegative x \<longleftrightarrow> Sign x = ENegative"
definition NotNegative :: "TInteger \<Rightarrow> bool" where "NotNegative x \<longleftrightarrow> \<not> IsNegative x"

definition WordCount :: "TInteger \<Rightarrow> nat" where "WordCount x = CountWords (Reg x) (Size x)"

definition ByteCount :: "TInteger \<Rightarrow> nat" where
  "ByteCount x = (let w = WordCount x
     in if w \<noteq> 0 then (w - 1) * WORD_SIZE + BytePrecision (Reg x ! (w - 1)) else 0)"

definition BitCount :: "TInteger \<Rightarrow> nat" where
  "BitCount x = (let w = WordCount x
     in if w \<noteq> 0 then (w - 1) * WORD_BITS + BitPrecision (Reg x ! (w - 1)) else 0)"

definition CleanNewL :: "nat \<Rightarrow> TInteger" where
  "CleanNewL n = \<lparr>Reg = replicate (RoundupSize n) 0, Sign = EPositive\<rparr>"

definition CleanGrowL :: "TInteger \<Rightarrow> nat \<Rightarrow> TInteger" where
  "CleanGrowL x n =
     (let newSize = RoundupSize n
      in if newSize > Size x then x\<lparr>Reg := Reg x @ replicate (newSize - Size x) 0\<rparr> else x)"

text \<open>
  \<open>Mem::FillZ(oldPtr+WordsToBytes(aNewSize), WordsToBytes(oldSize-newSize))\<close>: \<open>oldPtr\<close> is a
  word pointer, so the filled words start at index \<open>4 * aNewSize\<close>.
\<close>

definition CleanResizeL :: "TInteger \<Rightarrow> nat \<Rightarrow> TInteger result" where
  "CleanResizeL x n =
     (let newSize = RoundupSize n; oldSize = Size x; start = WORD_SIZE * n; count = oldSize - newSize
      in if newSize > oldSize then Ok (CleanGrowL x n)
         else if newSize < oldSize then
           (if start + count > oldSize then Leave MemoryOverrun
            else Ok (x\<lparr>Reg := take newSize (take start (Reg x) @ replicate count 0 @ drop (start + count) (Reg x))\<rparr>))
         else Ok x)"

text \<open>\<open>Construct(const TInteger&)\<close> and \<open>CopyL\<close>; the assertion of \<open>Construct\<close> holds after the resize.\<close>

definition ConstructInteger :: "TInteger \<Rightarrow> TInteger \<Rightarrow> TInteger" where
  "ConstructInteger self a =
     \<lparr>Reg = Reg a @ replicate (Size self - Size a) 0, Sign = Sign a\<rparr>"

definition ConstructUint :: "TInteger \<Rightarrow> tuint \<Rightarrow> TInteger" where
  "ConstructUint self a = \<lparr>Reg = a # replicate (Size self - 1) 0, Sign = EPositive\<rparr>"

text \<open>\<open>TInt\<close> is a word read as a two's complement number.\<close>

definition ConstructInt :: "TInteger \<Rightarrow> tuint \<Rightarrow> TInteger" where
  "ConstructInt self a =
     (let x = ConstructUint self a
      in if sint a < 0 then x\<lparr>Sign := ENegative, Reg := (Reg x)[0 := - a]\<rparr> else x)"

definition Zero :: TInteger where "Zero = \<lparr>Reg = [0, 0], Sign = EPositive\<rparr>"
definition One :: TInteger where "One = \<lparr>Reg = [1, 0], Sign = EPositive\<rparr>"
definition Two :: TInteger where "Two = \<lparr>Reg = [2, 0], Sign = EPositive\<rparr>"

definition CopyL :: "TInteger \<Rightarrow> TInteger \<Rightarrow> bool \<Rightarrow> TInteger result" where
  "CopyL self a aAllowShrink =
     bindL (if aAllowShrink then CleanResizeL self (Size a) else Ok (CleanGrowL self (Size a)))
       (\<lambda>s. Ok (ConstructInteger s a))"

definition CopyIntL :: "TInteger \<Rightarrow> tuint \<Rightarrow> bool \<Rightarrow> TInteger result" where
  "CopyIntL self a aAllowShrink =
     bindL (if aAllowShrink then CleanResizeL self 2 else Ok (CleanGrowL self 2))
       (\<lambda>s. Ok (ConstructInt s a))"

text \<open>\<open>RInteger::NewL\<close> on an integer and on a machine word; \<open>TStackInteger64\<close> (an unsigned word).\<close>

definition NewIntegerL :: "TInteger \<Rightarrow> TInteger" where
  "NewIntegerL a = ConstructInteger (CleanNewL (Size a)) a"

definition NewIntL :: "tuint \<Rightarrow> TInteger" where "NewIntL a = ConstructInt (CleanNewL 2) a"
definition NewUintL :: "tuint \<Rightarrow> TInteger" where "NewUintL a = ConstructUint (CleanNewL 2) a"
definition NewEmptyL :: "nat \<Rightarrow> TInteger" where "NewEmptyL n = CleanNewL n"

definition TStackInteger64 :: "tuint \<Rightarrow> TInteger" where
  "TStackInteger64 a = \<lparr>Reg = [a, 0], Sign = EPositive\<rparr>"

subsection \<open>Byte strings\<close>

definition word_bytes :: "tuint \<Rightarrow> byte list" where
  "word_bytes w = [ucast w, ucast (drop_bit 8 w), ucast (drop_bit 16 w), ucast (drop_bit 24 w)]"

definition reg_bytes :: "tuint list \<Rightarrow> byte list" where
  "reg_bytes R = concat (map word_bytes R)"

fun bytes_reg :: "byte list \<Rightarrow> tuint list" where
  "bytes_reg (a # b # c # d # bs) =
     (ucast a OR push_bit 8 (ucast b) OR push_bit 16 (ucast c) OR push_bit 24 (ucast d)) # bytes_reg bs"
| "bytes_reg bs = []"

definition BufferLC :: "TInteger \<Rightarrow> byte list result" where
  "BufferLC x = (if IsNegative x then Leave KErrNegativeExportNotSupported
                 else Ok (rev (take (ByteCount x) (reg_bytes (Reg x)))))"

definition BufferWithNoTruncationLC :: "TInteger \<Rightarrow> byte list result" where
  "BufferWithNoTruncationLC x = (if IsNegative x then Leave KErrNegativeExportNotSupported
                 else Ok (rev (reg_bytes (Reg x))))"

definition ConstructBytes :: "TInteger \<Rightarrow> byte list \<Rightarrow> TInteger" where
  "ConstructBytes self aValue =
     \<lparr>Reg = bytes_reg (rev aValue @ replicate (WORD_SIZE * Size self - length aValue) 0), Sign = EPositive\<rparr>"

definition NewBytesL :: "byte list \<Rightarrow> TInteger" where
  "NewBytesL aValue = ConstructBytes (CleanNewL (BytesToWords (length aValue))) aValue"

subsection \<open>Comparison, bits, sign\<close>

definition UnsignedCompare :: "TInteger \<Rightarrow> TInteger \<Rightarrow> int" where
  "UnsignedCompare x y =
     (if WordCount x = WordCount y then Compare (Reg x) (Reg y) (WordCount x)
      else if WordCount x > WordCount y then 1 else -1)"

definition SignedCompare :: "TInteger \<Rightarrow> TInteger \<Rightarrow> int" where
  "SignedCompare x y =
     (if NotNegative x then (if NotNegative y then UnsignedCompare x y else 1)
      else if NotNegative y then -1 else - UnsignedCompare x y)"

definition SignedCompareInt :: "TInteger \<Rightarrow> tuint \<Rightarrow> int" where
  "SignedCompareInt x a = SignedCompare x (TStackInteger64 a)"

definition IsZero :: "TInteger \<Rightarrow> bool" where
  "IsZero x \<longleftrightarrow> (if IsNegative x then False else Reg x ! 0 = 0 \<and> WordCount x = 0)"

definition IsPositive :: "TInteger \<Rightarrow> bool" where
  "IsPositive x \<longleftrightarrow> NotNegative x \<and> \<not> IsZero x"

definition Bit :: "TInteger \<Rightarrow> nat \<Rightarrow> bool" where
  "Bit x p = (if p div WORD_BITS \<ge> Size x then False
              else drop_bit (p mod WORD_BITS) (Reg x ! (p div WORD_BITS)) AND 1 = 1)"

definition ArraySetBit :: "tuint list \<Rightarrow> nat \<Rightarrow> tuint list" where
  "ArraySetBit S J = S[J div WORD_BITS := S ! (J div WORD_BITS) OR push_bit (J mod WORD_BITS) 1]"

definition SetBit :: "TInteger \<Rightarrow> nat \<Rightarrow> TInteger" where
  "SetBit x p = (if p div WORD_BITS < Size x then x\<lparr>Reg := ArraySetBit (Reg x) p\<rparr> else x)"

definition Negate :: "TInteger \<Rightarrow> TInteger" where
  "Negate x = (if \<not> IsZero x
               then x\<lparr>Sign := (case Sign x of EPositive \<Rightarrow> ENegative | ENegative \<Rightarrow> EPositive)\<rparr> else x)"

definition IsConvertableToLong :: "TInteger \<Rightarrow> bool" where
  "IsConvertableToLong x \<longleftrightarrow>
     (if WordCount x > 1 then False
      else if Sign x = EPositive then sint (Reg x ! 0) \<ge> 0 else sint (- (Reg x ! 0)) < 0)"

definition ConvertToLongL :: "TInteger \<Rightarrow> tuint result" where
  "ConvertToLongL x =
     (if \<not> IsConvertableToLong x then Leave KErrTotalLossOfPrecision
      else Ok (if Sign x = EPositive then Reg x ! 0 else - (Reg x ! 0)))"


subsection \<open>Shifts, increment and decrement\<close>

definition shl_assign :: "TInteger \<Rightarrow> nat \<Rightarrow> TInteger" where
  "shl_assign x aBits =
     (let wordCount = WordCount x;
          shiftWords = aBits div WORD_BITS;
          shiftBits = aBits mod WORD_BITS;
          x = CleanGrowL x (wordCount + BitsToWords aBits);
          R = ShiftWordsLeftByWords (Reg x) (wordCount + shiftWords) shiftWords
              @ drop (wordCount + shiftWords) (Reg x);
          n = wordCount + BitsToWords shiftBits;
          R = take shiftWords R @ fst (ShiftWordsLeftByBits (drop shiftWords R) n shiftBits)
              @ drop (shiftWords + n) R
      in x\<lparr>Reg := R\<rparr>)"

definition shr_assign :: "TInteger \<Rightarrow> nat \<Rightarrow> TInteger" where
  "shr_assign x aBits =
     (let wordCount = WordCount x;
          shiftWords = aBits div WORD_BITS;
          shiftBits = aBits mod WORD_BITS;
          R = ShiftWordsRightByWords (Reg x) wordCount shiftWords @ drop wordCount (Reg x);
          R = (if wordCount > shiftWords
               then fst (ShiftWordsRightByBits R (wordCount - shiftWords) shiftBits)
                    @ drop (wordCount - shiftWords) R
               else R);
          x = x\<lparr>Reg := R\<rparr>
      in if IsNegative x \<and> WordCount x = 0 then x\<lparr>Sign := EPositive\<rparr> else x)"

text \<open>Both grow the number to twice its size when the magnitude overflows.\<close>

definition grow_carry :: "TInteger \<Rightarrow> TInteger" where
  "grow_carry x = (let y = CleanGrowL x (2 * Size x) in y\<lparr>Reg := (Reg y)[Size y div 2 := 1]\<rparr>)"

definition decrement :: "TInteger \<Rightarrow> TInteger result" where
  "decrement x =
     (if IsNegative x then
        (let (R, c) = Increment (Reg x) (Size x) 1; x = x\<lparr>Reg := R\<rparr>
         in Ok (if c \<noteq> 0 then grow_carry x else x))
      else
        (let (R, c) = Decrement (Reg x) (Size x) 1; x = x\<lparr>Reg := R\<rparr>
         in if c \<noteq> 0 then CopyIntL x (- 1) True else Ok x))"

definition increment :: "TInteger \<Rightarrow> TInteger result" where
  "increment x =
     (if NotNegative x then
        (let (R, c) = Increment (Reg x) (Size x) 1; x = x\<lparr>Reg := R\<rparr>
         in Ok (if c \<noteq> 0 then grow_carry x else x))
      else
        bindL (DecrementNoCarry (Reg x) (Size x) 1) (\<lambda>R.
          let x = x\<lparr>Reg := R\<rparr>
          in if WordCount x = 0 then CopyL x Zero True else Ok x))"

subsection \<open>Addition, subtraction, multiplication\<close>

definition add_words :: "TInteger \<Rightarrow> TInteger \<Rightarrow> tuint list \<times> tuint" where
  "add_words aA aB =
     (let aSize = Size aA; bSize = Size aB; aReg = Reg aA; bReg = Reg aB
      in if aSize = bSize then Add aReg bReg aSize
         else if aSize > bSize then
           (let (L, c) = Add aReg bReg bSize;
                (H, c) = Increment (take (aSize - bSize) (drop bSize aReg)) (aSize - bSize) c
            in (L @ H, c))
         else
           (let (L, c) = Add aReg bReg aSize;
                (H, c) = Increment (take (bSize - aSize) (drop aSize bReg)) (bSize - aSize) c
            in (L @ H, c)))"

definition PositiveAddL :: "TInteger \<Rightarrow> TInteger \<Rightarrow> TInteger" where
  "PositiveAddL aA aB =
     (let sum = NewEmptyL (max (Size aA) (Size aB));
          (R, carry) = add_words aA aB;
          sum = sum\<lparr>Reg := R @ drop (length R) (Reg sum)\<rparr>;
          sum = (if carry \<noteq> 0 then grow_carry sum else sum)
      in sum\<lparr>Sign := EPositive\<rparr>)"

definition subtract_words :: "TInteger \<Rightarrow> TInteger \<Rightarrow> tuint list \<times> TSign" where
  "subtract_words aA aB =
     (let aSize = WordCount aA + WordCount aA mod 2;
          bSize = WordCount aB + WordCount aB mod 2;
          aReg = Reg aA; bReg = Reg aB
      in if aSize = bSize then
           (if Compare aReg bReg aSize \<ge> 0 then (fst (Subtract aReg bReg aSize), EPositive)
            else (fst (Subtract bReg aReg aSize), ENegative))
         else if aSize > bSize then
           (let (L, borrow) = Subtract aReg bReg bSize
            in (L @ fst (Decrement (take (aSize - bSize) (drop bSize aReg)) (aSize - bSize) borrow), EPositive))
         else
           (let (L, borrow) = Subtract bReg aReg aSize
            in (L @ fst (Decrement (take (bSize - aSize) (drop aSize bReg)) (bSize - aSize) borrow), ENegative)))"

definition PositiveSubtractL :: "TInteger \<Rightarrow> TInteger \<Rightarrow> TInteger" where
  "PositiveSubtractL aA aB =
     (let diff = NewEmptyL (max (Size aA) (Size aB));
          (R, s) = subtract_words aA aB
      in \<lparr>Reg = R @ drop (length R) (Reg diff), Sign = s\<rparr>)"

text \<open>\<open>same\<close>: both operands are the same object, so their pointers are equal.\<close>

definition PositiveMultiplyL :: "bool \<Rightarrow> TInteger \<Rightarrow> TInteger \<Rightarrow> TInteger" where
  "PositiveMultiplyL same aA aB =
     (let aSize = RoundupSize (WordCount aA); bSize = RoundupSize (WordCount aB);
          product = NewEmptyL (aSize + bSize);
          R = AsymmetricMultiply same (take aSize (Reg aA)) aSize (take bSize (Reg aB)) bSize
      in product\<lparr>Reg := R @ drop (length R) (Reg product)\<rparr>)"

definition PlusL :: "TInteger \<Rightarrow> TInteger \<Rightarrow> TInteger" where
  "PlusL a b =
     (if NotNegative a then
        (if NotNegative b then PositiveAddL a b else PositiveSubtractL a b)
      else if NotNegative b then PositiveSubtractL b a
      else (PositiveAddL a b)\<lparr>Sign := ENegative\<rparr>)"

definition MinusL :: "TInteger \<Rightarrow> TInteger \<Rightarrow> TInteger" where
  "MinusL a b =
     (if NotNegative a then
        (if NotNegative b then PositiveSubtractL a b else PositiveAddL a b)
      else if NotNegative b then (PositiveAddL a b)\<lparr>Sign := ENegative\<rparr>
      else PositiveSubtractL b a)"

definition TimesL :: "bool \<Rightarrow> TInteger \<Rightarrow> TInteger \<Rightarrow> TInteger" where
  "TimesL same a b =
     (let product = PositiveMultiplyL same a b
      in if NotNegative a \<noteq> NotNegative b then Negate product else product)"

definition SquaredL :: "TInteger \<Rightarrow> TInteger" where
  "SquaredL a = PositiveMultiplyL True a a"

text \<open>The operators with a \<open>TInt\<close> operand go through \<open>TStackInteger64\<close>, whose argument is unsigned.\<close>

definition plus_assign_int :: "TInteger \<Rightarrow> tuint \<Rightarrow> TInteger" where
  "plus_assign_int x a = PlusL x (TStackInteger64 a)"
definition minus_assign_int :: "TInteger \<Rightarrow> tuint \<Rightarrow> TInteger" where
  "minus_assign_int x a = MinusL x (TStackInteger64 a)"
definition times_assign_int :: "TInteger \<Rightarrow> tuint \<Rightarrow> TInteger" where
  "times_assign_int x a = TimesL False x (TStackInteger64 a)"

subsection \<open>Division\<close>

text \<open>Division of the words from the top by one word: quotient words (least significant first) and remainder.\<close>

fun divide_word_down :: "tuint list \<Rightarrow> tuint \<Rightarrow> tuint \<Rightarrow> tuint list \<times> tuint" where
  "divide_word_down [] d r = ([], r)"
| "divide_word_down (w # ws) d r =
     (let p = MAKE_DWORD w r;
          (qs, r') = divide_word_down ws d (LOW_WORD (p mod ucast d))
      in (qs @ [LOW_WORD (p div ucast d)], r'))"

definition Modulo :: "TInteger \<Rightarrow> tuint \<Rightarrow> tuint" where
  "Modulo x aDivisor = snd (divide_word_down (rev (take (WordCount x) (Reg x))) aDivisor 0)"

definition ModuloUintL :: "TInteger \<Rightarrow> tuint \<Rightarrow> tuint result" where
  "ModuloUintL x a = (if a = 0 then Leave KErrDivideByZero else Ok (Modulo x a))"

definition PositiveDivide :: "TInteger \<Rightarrow> TInteger \<Rightarrow> tuint \<Rightarrow> TInteger \<times> tuint" where
  "PositiveDivide aQuotient aDividend aDivisor =
     (let (qs, r) = divide_word_down (rev (take (WordCount aDividend) (Reg aDividend))) aDivisor 0
      in (aQuotient\<lparr>Reg := qs @ drop (length qs) (Reg aQuotient)\<rparr>, r))"

text \<open>The last assignment is \<open>aRemainder = aDivisor = aRemainder\<close> in the source.\<close>

definition DivideUintL :: "TInteger \<Rightarrow> tuint \<Rightarrow> (tuint \<times> TInteger) result" where
  "DivideUintL aDividend aDivisor =
     (if aDivisor = 0 then Leave KErrDivideByZero
      else
        (let (q, r) = PositiveDivide (CleanNewL (RoundupSize (WordCount aDividend))) aDividend aDivisor
         in if NotNegative aDividend then Ok (r, q\<lparr>Sign := EPositive\<rparr>)
            else
              (let q = q\<lparr>Sign := ENegative\<rparr>
               in if r \<noteq> 0 then bindL (decrement q) (\<lambda>q. Ok (r, q)) else Ok (r, q))))"

text \<open>\<open>None\<close> is the division that does not return; lemma \<open>Divide_exact\<close> shows that it never happens here.\<close>

definition PositiveDivideL :: "TInteger \<Rightarrow> TInteger \<Rightarrow> (TInteger \<times> TInteger) result option" where
  "PositiveDivideL aDividend aDivisor =
     (let dividendSize = WordCount aDividend; divisorSize = WordCount aDivisor
      in if divisorSize = 0 then Some (Leave KErrDivideByZero)
         else if UnsignedCompare aDividend aDivisor = -1 then
           Some (bindL (CopyL (CleanNewL (Size aDividend)) aDividend True) (\<lambda>r.
             Ok (r\<lparr>Sign := EPositive\<rparr>, CleanNewL 2)))
         else
           (let dividendSize = dividendSize + dividendSize mod 2;
                divisorSize = divisorSize + divisorSize mod 2;
                rem = CleanNewL divisorSize;
                quo = CleanNewL (dividendSize - divisorSize + 2)
            in map_option (\<lambda>(R, Q). Ok (rem\<lparr>Reg := R @ drop (length R) (Reg rem)\<rparr>,
                                          quo\<lparr>Reg := Q @ drop (length Q) (Reg quo)\<rparr>))
                 (Divide (take dividendSize (Reg aDividend)) dividendSize
                    (take divisorSize (Reg aDivisor)) divisorSize)))"

definition DivideL :: "TInteger \<Rightarrow> TInteger \<Rightarrow> (TInteger \<times> TInteger) result option" where
  "DivideL aDividend aDivisor =
     map_option (\<lambda>m. bindL m (\<lambda>(r, q).
       bindL (if IsNegative aDividend then
                (let q = Negate q
                 in if \<not> IsZero r then
                      bindL (decrement q) (\<lambda>q.
                        if Size r > Size aDivisor then Leave (Panic 1)
                        else Ok (r\<lparr>Reg := fst (Subtract (Reg aDivisor) (Reg r) (Size r))\<rparr>, q))
                    else Ok (r, q))
              else Ok (r, q))
         (\<lambda>(r, q). Ok (r, if IsNegative aDivisor then Negate q else q))))
       (PositiveDivideL aDividend aDivisor)"

definition DividedByL :: "TInteger \<Rightarrow> TInteger \<Rightarrow> TInteger result option" where
  "DividedByL a b = map_option (\<lambda>m. bindL m (\<lambda>(r, q). Ok q)) (DivideL a b)"

definition ModuloL :: "TInteger \<Rightarrow> TInteger \<Rightarrow> TInteger result option" where
  "ModuloL a b = map_option (\<lambda>m. bindL m (\<lambda>(r, q). Ok r)) (DivideL a b)"

definition ModularMultiplyL :: "bool \<Rightarrow> TInteger \<Rightarrow> TInteger \<Rightarrow> TInteger \<Rightarrow> TInteger result option" where
  "ModularMultiplyL same aA aB aMod = ModuloL (TimesL same aA aB) aMod"


subsection \<open>The invariant\<close>

definition mag :: "TInteger \<Rightarrow> int" where "mag x = val (Reg x)"

definition ival :: "TInteger \<Rightarrow> int" where "ival x = (if IsNegative x then - mag x else mag x)"

definition wf :: "TInteger \<Rightarrow> bool" where
  "wf x \<longleftrightarrow> pow2_size (Size x) \<and> (IsNegative x \<longrightarrow> mag x \<noteq> 0)"

text \<open>The machine bound: word counts stay below \<open>2 ^ 31\<close>, where \<open>RoundupSize\<close> still fits \<open>TUint\<close>.\<close>

definition max_size :: nat where "max_size = 1073741824"

lemma RoundupSize_8:
  "n \<le> 8 \<Longrightarrow> RoundupSize n = (if n \<le> 2 then 2 else if n \<le> 4 then 4 else 8)"
proof -
  assume n: "n \<le> 8"
  then consider "n = 0" | "n = 1" | "n = 2" | "n = 3" | "n = 4" | "n = 5" | "n = 6" | "n = 7" | "n = 8" by linarith
  then show ?thesis by cases (simp_all add: RoundupSize_def RoundupSizeTable_def)
qed

lemma RoundupSize_large:
  assumes "64 < n" "n \<le> 2147483648"
  obtains k where "RoundupSize n = 2 ^ k" "n \<le> 2 ^ k" "1 \<le> k" "2 ^ (k - 1) < n"
proof -
  define w :: tuint where "w = word_of_nat (n - 1)"
  have u: "uint w = int n - 1"
  proof -
    have "take_bit 32 (n - 1) = n - 1"
      using assms(2) by (simp add: take_bit_nat_eq_self_iff)
    then have "uint w = int (n - 1)" unfolding w_def unsigned_of_nat by simp
    then show ?thesis using assms(1) by simp
  qed
  have "w \<noteq> 0" using u assms by auto
  note bp = BitPrecision_bounds [OF this]
  have "int n \<le> int (2 ^ BitPrecision w)" unfolding of_nat_power of_nat_numeral using bp(4) u by linarith
  then have le: "n \<le> 2 ^ BitPrecision w" by (simp only: of_nat_le_iff)
  have "int (2 ^ (BitPrecision w - 1)) < int n" unfolding of_nat_power of_nat_numeral using bp(3) u by linarith
  then have gt: "2 ^ (BitPrecision w - 1) < n" by (simp only: of_nat_less_iff)
  have "RoundupSize n = 2 ^ BitPrecision w" using assms by (simp add: RoundupSize_def w_def)
  then show ?thesis using that le gt bp(1) by blast
qed

lemma pow2_size_le_double:
  assumes "pow2_size s" "2 ^ (k - 1) < s"
  shows "2 ^ k \<le> s"
proof -
  obtain j where j: "1 \<le> j" "s = 2 ^ j" using assms(1) by (auto simp: pow2_size_def)
  then have "k - 1 < j" using assms(2) by simp
  then have "k \<le> j" by linarith
  then show ?thesis using j(2) by simp
qed

lemma RoundupSize_props:
  assumes "n \<le> 2147483648"
  shows "n \<le> RoundupSize n" and "pow2_size (RoundupSize n)"
    and "pow2_size s \<Longrightarrow> n \<le> s \<Longrightarrow> RoundupSize n \<le> s"
proof -
  consider "n \<le> 8" | "8 < n" "n \<le> 16" | "16 < n" "n \<le> 32" | "32 < n" "n \<le> 64" | "64 < n" by linarith
  then have "n \<le> RoundupSize n \<and> pow2_size (RoundupSize n) \<and> (pow2_size s \<longrightarrow> n \<le> s \<longrightarrow> RoundupSize n \<le> s)"
  proof cases
    case 1
    then show ?thesis
      using pow2_size_le_double [of s 1] pow2_size_le_double [of s 2] pow2_size_le_double [of s 3] pow2_size_ge [of s]
      by (auto simp: RoundupSize_8)
  next
    case 2
    then show ?thesis using pow2_size_le_double [of s 4] by (auto simp: RoundupSize_def)
  next
    case 3
    then show ?thesis using pow2_size_le_double [of s 5] by (auto simp: RoundupSize_def)
  next
    case 4
    have "pow2_size 64" unfolding pow2_size_def by (rule exI [of _ 6]) simp
    then show ?thesis using 4 pow2_size_le_double [of s 6] by (auto simp: RoundupSize_def)
  next
    case 5
    then obtain k where "RoundupSize n = 2 ^ k" "n \<le> 2 ^ k" "1 \<le> k" "2 ^ (k - 1) < n"
      using RoundupSize_large assms by blast
    then show ?thesis
      using pow2_size_le_double [of s k] by (auto simp: pow2_size_def)
  qed
  then show "n \<le> RoundupSize n" and "pow2_size (RoundupSize n)"
    and "pow2_size s \<Longrightarrow> n \<le> s \<Longrightarrow> RoundupSize n \<le> s" by blast+
qed

lemma RoundupSize_pow2: "pow2_size n \<Longrightarrow> n \<le> 2147483648 \<Longrightarrow> RoundupSize n = n"
  using RoundupSize_props(1) [of n] RoundupSize_props(3) [of n n] by simp

lemma mag_nonneg [simp]: "0 \<le> mag x" by (simp add: mag_def)

lemma mag_bound: "mag x < base (Size x)" by (simp add: mag_def Size_def)

lemma WordCount_le: "WordCount x \<le> Size x"
  by (simp add: WordCount_def CountWords_le)

lemma mag_WordCount: "val (take (WordCount x) (Reg x)) = mag x"
  by (simp add: WordCount_def CountWords_val Size_def mag_def)

lemma mag_take:
  assumes "WordCount x \<le> n"
  shows "val (take n (Reg x)) = mag x"
proof -
  have "val (take (WordCount x) (take n (Reg x))) \<le> val (take n (Reg x))" by (rule val_take_le)
  moreover have "val (take n (Reg x)) \<le> val (Reg x)" by (rule val_take_le)
  ultimately show ?thesis using mag_WordCount [of x] assms by (simp add: mag_def min_def)
qed

lemma WordCount_0_iff: "WordCount x = 0 \<longleftrightarrow> mag x = 0"
  by (simp add: WordCount_def CountWords_0_iff Size_def mag_def)

lemma mag_ge: "0 < WordCount x \<Longrightarrow> base (WordCount x - 1) \<le> mag x"
  using CountWords_top(2) [of "Size x" "Reg x"] by (simp add: WordCount_def Size_def mag_def)

lemma mag_lt_WordCount: "mag x < base (WordCount x)"
  using val_bound_eq [of "take (WordCount x) (Reg x)" "WordCount x"] WordCount_le [of x]
  by (simp add: mag_WordCount Size_def min_def)

lemma IsZero_iff: "wf x \<Longrightarrow> IsZero x \<longleftrightarrow> ival x = 0"
proof -
  assume "wf x"
  moreover have "Reg x ! 0 = 0" if "mag x = 0" "pow2_size (Size x)"
  proof -
    have "Reg x \<noteq> []" using pow2_size_ge [OF that(2)] by (auto simp: Size_def)
    then obtain w ws where "Reg x = w # ws" by (cases "Reg x") auto
    then show ?thesis using that(1) by (simp add: mag_def add_nonneg_eq_0_iff word_uint_eq_iff)
  qed
  ultimately show ?thesis by (auto simp: IsZero_def ival_def wf_def WordCount_0_iff)
qed

lemma NotNegative_iff: "wf x \<Longrightarrow> NotNegative x \<longleftrightarrow> 0 \<le> ival x"
  using mag_nonneg [of x] unfolding NotNegative_def ival_def wf_def by (simp del: mag_nonneg)

lemma mag_abs: "mag x = \<bar>ival x\<bar>" by (simp add: ival_def)


subsection \<open>Growing\<close>

lemma CleanNewL_props [simp]:
  "Reg (CleanNewL n) = replicate (RoundupSize n) 0" "Sign (CleanNewL n) = EPositive"
  "Size (CleanNewL n) = RoundupSize n" "mag (CleanNewL n) = 0"
  by (simp_all add: CleanNewL_def Size_def mag_def)

lemma CleanGrowL_props:
  assumes "pow2_size (Size x)" "n \<le> 2147483648"
  shows "mag (CleanGrowL x n) = mag x" and "Sign (CleanGrowL x n) = Sign x"
    and "pow2_size (Size (CleanGrowL x n))" and "n \<le> Size (CleanGrowL x n)"
    and "Size (CleanGrowL x n) = max (Size x) (RoundupSize n)"
    and "\<exists>k. Reg (CleanGrowL x n) = Reg x @ replicate k 0"
  using assms RoundupSize_props [of n]
  by (auto simp: CleanGrowL_def Let_def mag_def Size_def val_append max_def)

lemma val_list_update:
  assumes "i < length R"
  shows "val (R[i := w]) = val R + base i * (uint w - uint (R ! i))"
proof -
  have R: "R = take i R @ R ! i # drop (Suc i) R" using assms by (rule id_take_nth_drop)
  have "val (take i R @ w # drop (Suc i) R) = val (take i R @ R ! i # drop (Suc i) R) + base i * (uint w - uint (R ! i))"
    using assms by (simp add: val_append algebra_simps min_def)
  moreover have "R[i := w] = take i R @ w # drop (Suc i) R" using assms by (rule upd_conv_take_nth_drop)
  ultimately show ?thesis using R by simp
qed

lemma grow_carry_props:
  assumes "pow2_size (Size x)" "Size x \<le> max_size"
  shows "mag (grow_carry x) = mag x + base (Size x)" and "Sign (grow_carry x) = Sign x"
    and "Size (grow_carry x) = 2 * Size x" and "pow2_size (Size (grow_carry x))"
proof -
  have p: "pow2_size (2 * Size x)"
    using assms(1) unfolding pow2_size_def by (metis le_Suc_eq power_Suc)
  have r: "RoundupSize (2 * Size x) = 2 * Size x"
    using assms by (intro RoundupSize_pow2 [OF p]) (simp add: max_size_def)
  have "Size x < 2 * Size x" using pow2_size_ge [OF assms(1)] by simp
  then have g: "Reg (CleanGrowL x (2 * Size x)) = Reg x @ replicate (Size x) 0"
    "Sign (CleanGrowL x (2 * Size x)) = Sign x" "Size (CleanGrowL x (2 * Size x)) = 2 * Size x"
    by (simp_all add: CleanGrowL_def Let_def r) (simp add: Size_def)
  show "Size (grow_carry x) = 2 * Size x" using g by (simp add: grow_carry_def Let_def Size_def)
  then show "pow2_size (Size (grow_carry x))" using p by simp
  show "Sign (grow_carry x) = Sign x" using g by (simp add: grow_carry_def Let_def)
  have "Reg (grow_carry x) = (Reg x @ replicate (Size x) 0)[Size x := 1]"
    using g by (simp add: grow_carry_def Let_def)
  moreover have "Size x < length (Reg x @ replicate (Size x) 0)"
    using pow2_size_ge [OF assms(1)] by (cases "Reg x") (simp_all add: Size_def)
  ultimately have "mag (grow_carry x) = val (Reg x @ replicate (Size x) 0)
      + base (Size x) * (1 - uint ((Reg x @ replicate (Size x) 0) ! Size x))"
    unfolding mag_def by (simp only: val_list_update uint_1)
  moreover have "(Reg x @ replicate (Size x) 0) ! Size x = 0" "val (Reg x @ replicate (Size x) 0) = mag x"
    using pow2_size_ge [OF assms(1)] by (cases "Reg x", simp_all add: mag_def val_append Size_def nth_append)
  ultimately show "mag (grow_carry x) = mag x + base (Size x)" by simp
qed

subsection \<open>Addition and subtraction\<close>

lemma Add_loop_commute: "Add_loop c A B = Add_loop c B A"
  by (induction c A B rule: Add_loop.induct)
    (auto simp: Let_def add.commute add.left_commute add.assoc split: prod.splits list.splits elim: Add_loop.elims)

lemma Add_commute: "Add A B N = Add B A N"
  by (simp add: Add_def Add_loop_commute)

lemma add_lists:
  assumes a: "length A = na" "length B = nb" "nb < na" "even nb" "0 < nb"
    and ad: "Add A B nb = (L, c)" and inc: "Increment (take (na - nb) (drop nb A)) (na - nb) c = (H, d)"
  shows "length (L @ H) = na" and "uint d \<le> 1" and "val (L @ H) + base na * uint d = val A + val B"
proof -
  have L: "length L = nb" "uint c \<le> 1" "val L + base nb * uint c = val (take nb A) + val B"
    using Add_val [OF _ _ a(4) ad] a by simp_all
  have tk: "take (na - nb) (drop nb A) = drop nb A" using a by simp
  have H: "length H = na - nb" "uint d \<le> 1" "val H + base (na - nb) * uint d = val (drop nb A) + uint c"
    using Increment_val [OF _ _ inc] a unfolding tk by simp_all
  show "length (L @ H) = na" "uint d \<le> 1" using L H a by simp_all
  have vA: "val A = val (take nb A) + base nb * val (drop nb A)"
    using val_append [of "take nb A" "drop nb A"] a by simp
  have bn: "base na = base nb * base (na - nb)" using a by (simp flip: base_add)
  have "val (L @ H) + base na * uint d = val L + base nb * (val H + base (na - nb) * uint d)"
    unfolding val_append bn L(1) by (simp add: algebra_simps)
  also have "\<dots> = (val L + base nb * uint c) + base nb * val (drop nb A)"
    unfolding H(3) by (simp add: algebra_simps)
  finally show "val (L @ H) + base na * uint d = val A + val B" unfolding L(3) vA by simp
qed

lemma PositiveAddL_val:
  assumes a: "pow2_size (Size a)" "Size a \<le> max_size" and b: "pow2_size (Size b)" "Size b \<le> max_size"
  shows "mag (PositiveAddL a b) = mag a + mag b" and "Sign (PositiveAddL a b) = EPositive"
    and "pow2_size (Size (PositiveAddL a b))" and "Size (PositiveAddL a b) \<le> 2 * max (Size a) (Size b)"
proof -
  let ?n = "max (Size a) (Size b)"
  have n: "pow2_size ?n" "?n \<le> max_size" "RoundupSize ?n = ?n"
    using a b RoundupSize_pow2 [of ?n] by (auto simp: max_def max_size_def)
  have ev: "even (Size a)" "even (Size b)" "0 < Size a" "0 < Size b"
    using pow2_size_even [OF a(1)] pow2_size_even [OF b(1)] pow2_size_ge [OF a(1)] pow2_size_ge [OF b(1)]
    by simp_all
  obtain R c where Rc: "add_words a b = (R, c)" by fastforce
  have R: "length R = ?n \<and> uint c \<le> 1 \<and> val R + base ?n * uint c = mag a + mag b"
  proof -
    consider "Size a = Size b" | "Size a > Size b" | "Size a < Size b" by linarith
    then show ?thesis
    proof cases
      case 1
      then have "Add (Reg a) (Reg b) (Size a) = (R, c)" using Rc by (simp add: add_words_def)
      from Add_val [OF _ _ ev(1) this] 1 show ?thesis by (simp add: Size_def mag_def)
    next
      case 2
      obtain L d where L: "Add (Reg a) (Reg b) (Size b) = (L, d)" by fastforce
      obtain H e where H: "Increment (take (Size a - Size b) (drop (Size b) (Reg a))) (Size a - Size b) d = (H, e)"
        by fastforce
      have "R = L @ H" "c = e" using Rc 2 by (simp_all add: add_words_def L H)
      with add_lists [OF _ _ 2 ev(2,4) L H] 2 show ?thesis by (simp add: Size_def mag_def max_def)
    next
      case 3
      obtain L d where L: "Add (Reg a) (Reg b) (Size a) = (L, d)" by fastforce
      obtain H e where H: "Increment (take (Size b - Size a) (drop (Size a) (Reg b))) (Size b - Size a) d = (H, e)"
        by fastforce
      have Re: "R = L @ H" "c = e" using Rc 3 by (simp_all add: add_words_def L H)
      have "Add (Reg b) (Reg a) (Size a) = (L, d)" using L by (simp add: Add_commute)
      from add_lists [OF _ _ 3 ev(1,3) this H] 3 show ?thesis
        unfolding Re by (simp add: Size_def mag_def max_def)
    qed
  qed
  define sum where "sum = (NewEmptyL ?n)\<lparr>Reg := R @ drop (length R) (Reg (NewEmptyL ?n))\<rparr>"
  have sum: "Reg sum = R" "Sign sum = EPositive" "Size sum = ?n" "mag sum = val R"
    using R n by (simp_all add: sum_def NewEmptyL_def Size_def mag_def)
  have res: "PositiveAddL a b = (if c \<noteq> 0 then grow_carry sum else sum)\<lparr>Sign := EPositive\<rparr>"
    unfolding PositiveAddL_def Let_def Rc sum_def prod.case by (rule refl)
  note gc = grow_carry_props [of sum, unfolded sum(3), OF n(1,2)]
  show "Sign (PositiveAddL a b) = EPositive" by (simp add: res)
  have upd: "mag (x\<lparr>Sign := s\<rparr>) = mag x" "Size (x\<lparr>Sign := s\<rparr>) = Size x" for x s
    by (simp_all add: mag_def Size_def)
  show "mag (PositiveAddL a b) = mag a + mag b"
  proof (cases "c = 0")
    case True
    then show ?thesis using R sum by (simp add: res upd)
  next
    case False
    then have "uint c = 1" using R uint_ge_1 [of c] by linarith
    then show ?thesis using False R gc(1) sum by (simp add: res upd)
  qed
  show "pow2_size (Size (PositiveAddL a b))" and "Size (PositiveAddL a b) \<le> 2 * ?n"
    using gc(3,4) sum(3) n(1) by (auto simp: res upd)
qed


text \<open>The even number of words the subtraction and the division work on.\<close>

definition even_count :: "TInteger \<Rightarrow> nat" where
  "even_count x = WordCount x + WordCount x mod 2"

lemma even_count_props:
  assumes "pow2_size (Size x)"
  shows "even (even_count x)" and "even_count x \<le> Size x" and "WordCount x \<le> even_count x"
    and "length (take (even_count x) (Reg x)) = even_count x"
    and "val (take (even_count x) (Reg x)) = mag x"
proof -
  show ev: "even (even_count x)" by (simp add: even_count_def)
  have "even (Size x)" by (rule pow2_size_even [OF assms])
  then show le: "even_count x \<le> Size x"
    using WordCount_le [of x] unfolding even_count_def by presburger
  show wc: "WordCount x \<le> even_count x" by (simp add: even_count_def)
  show "length (take (even_count x) (Reg x)) = even_count x" using le by (simp add: Size_def)
  show "val (take (even_count x) (Reg x)) = mag x" by (rule mag_take [OF wc])
qed

lemma round_even_less:
  assumes "m + m mod 2 < n + n mod (2 :: nat)"
  shows "0 < n" and "m + m mod 2 \<le> n - 1"
proof -
  show "0 < n" using assms by (cases n) simp_all
  have "\<exists>a. m + m mod 2 = 2 * a" "\<exists>b. n + n mod 2 = 2 * b" by presburger+
  then obtain a b where ab: "m + m mod 2 = 2 * a" "n + n mod 2 = 2 * b" by blast
  then have "a < b" using assms by simp
  moreover have "2 * b \<le> n + 1" using ab(2) by (metis add_left_mono mod_less_divisor less_Suc_eq_le numeral_2_eq_2 One_nat_def zero_less_Suc)
  ultimately show "m + m mod 2 \<le> n - 1" using ab(1) by linarith
qed

lemma even_count_less:
  assumes "even_count b < even_count a"
  shows "base (even_count b) \<le> mag a"
proof -
  have "0 < WordCount a" "even_count b \<le> WordCount a - 1"
    using round_even_less [OF assms [unfolded even_count_def]] unfolding even_count_def by simp_all
  then have "base (even_count b) \<le> base (WordCount a - 1)"
    unfolding base_def by (intro power_increasing) simp_all
  also have "\<dots> \<le> mag a" by (rule mag_ge) fact
  finally show ?thesis .
qed

lemma subtract_lists:
  assumes A: "length A = na" "length B = nb" "nb < na" "even nb" and le: "val B \<le> val A"
    and sub: "Subtract A B nb = (L, c)" and dec: "Decrement (drop nb A) (na - nb) c = (H, d)"
  shows "length (L @ H) = na" and "val (L @ H) = val A - val B"
proof -
  have L: "length L = nb" "uint c \<le> 1" "val L = val (take nb A) - val B + base nb * uint c"
    using Subtract_val [OF _ _ A(4) sub] A by simp_all
  have H: "length H = na - nb" "uint d \<le> 1" "val H = val (drop nb A) - uint c + base (na - nb) * uint d"
    using Decrement_val [OF _ _ dec] A by simp_all
  show len: "length (L @ H) = na" using L H A by simp
  have vA: "val A = val (take nb A) + base nb * val (drop nb A)"
    using val_append [of "take nb A" "drop nb A"] A by simp
  have bn: "base na = base nb * base (na - nb)" using A by (simp flip: base_add)
  have tot: "val (L @ H) + base na * (- uint d) = val A - val B"
    unfolding val_append L(1,3) H(3) bn vA by (simp add: algebra_simps)
  have "uint d = 0"
  proof (rule ccontr)
    assume "uint d \<noteq> 0"
    then have "uint d = 1" using H(2) uint_ge_0 [of d] by linarith
    then show False using tot le val_bound_eq [OF len] by simp
  qed
  then show "val (L @ H) = val A - val B" using tot by simp
qed

lemma subtract_lists_take:
  assumes x: "pow2_size (Size x)" and y: "pow2_size (Size y)" and lt: "even_count y < even_count x"
  shows "(let (L, c) = Subtract (Reg x) (Reg y) (even_count y)
          in length (L @ fst (Decrement (take (even_count x - even_count y) (drop (even_count y) (Reg x)))
               (even_count x - even_count y) c)) = even_count x \<and>
             val (L @ fst (Decrement (take (even_count x - even_count y) (drop (even_count y) (Reg x)))
               (even_count x - even_count y) c)) = mag x - mag y)"
proof -
  note ex = even_count_props [OF x] and ey = even_count_props [OF y]
  let ?A = "take (even_count x) (Reg x)" and ?B = "take (even_count y) (Reg y)"
  obtain L c where sub: "Subtract (Reg x) (Reg y) (even_count y) = (L, c)" by fastforce
  have "Subtract ?A ?B (even_count y) = (L, c)"
    using sub lt by (simp add: Subtract_def min_def)
  moreover obtain H d where dec: "Decrement (drop (even_count y) ?A) (even_count x - even_count y) c = (H, d)"
    by fastforce
  moreover have "val ?B \<le> val ?A"
    using even_count_less [OF lt] val_bound_eq [OF ey(4)] ex(5) by linarith
  moreover have "take (even_count x - even_count y) (drop (even_count y) (Reg x)) = drop (even_count y) ?A"
    by (simp add: drop_take)
  ultimately show ?thesis
    using subtract_lists [OF ex(4) ey(4) lt ey(1), of L c H d] ex(5) ey(5) sub by simp
qed

lemma subtract_words_val:
  assumes a: "pow2_size (Size a)" and b: "pow2_size (Size b)" and R: "subtract_words a b = (R, s)"
  shows "length R \<le> max (Size a) (Size b)" and "val R = \<bar>mag a - mag b\<bar>"
    and "s = (if mag a < mag b then ENegative else EPositive)"
proof -
  note ea = even_count_props [OF a] and eb = even_count_props [OF b]
  have def: "subtract_words a b =
     (if even_count a = even_count b then
           (if Compare (Reg a) (Reg b) (even_count a) \<ge> 0 then (fst (Subtract (Reg a) (Reg b) (even_count a)), EPositive)
            else (fst (Subtract (Reg b) (Reg a) (even_count a)), ENegative))
         else if even_count a > even_count b then
           (let (L, borrow) = Subtract (Reg a) (Reg b) (even_count b)
            in (L @ fst (Decrement (take (even_count a - even_count b) (drop (even_count b) (Reg a))) (even_count a - even_count b) borrow), EPositive))
         else
           (let (L, borrow) = Subtract (Reg b) (Reg a) (even_count a)
            in (L @ fst (Decrement (take (even_count b - even_count a) (drop (even_count a) (Reg b))) (even_count b - even_count a) borrow), ENegative)))"
    unfolding subtract_words_def Let_def even_count_def by (rule refl)
  have "length R \<le> max (Size a) (Size b) \<and> val R = \<bar>mag a - mag b\<bar> \<and>
    s = (if mag a < mag b then ENegative else EPositive)"
  proof -
    consider "even_count a = even_count b" | "even_count b < even_count a" | "even_count a < even_count b" by linarith
    then show ?thesis
    proof cases
      case 1
      let ?n = "even_count a"
      have le: "?n \<le> length (Reg a)" "?n \<le> length (Reg b)" using ea(2) eb(2) 1 by (simp_all add: Size_def)
      have cmp: "Compare (Reg a) (Reg b) ?n \<ge> 0 \<longleftrightarrow> mag b \<le> mag a"
        using Compare_val [OF le] ea(5) eb(5) 1 by (simp add: sgn_if)
      have sub: "length (fst (Subtract X Y ?n)) = ?n \<and> val (fst (Subtract X Y ?n)) = val (take ?n X) - val (take ?n Y)"
        if "?n \<le> length X" "?n \<le> length Y" "val (take ?n Y) \<le> val (take ?n X)" for X Y
      proof -
        obtain C c where C: "Subtract X Y ?n = (C, c)" by fastforce
        have "uint c = 0" using Subtract_borrow_iff [OF that(1,2) ea(1) C] that(3) by simp
        then show ?thesis using Subtract_val [OF that(1,2) ea(1) C] C by simp
      qed
      show ?thesis
      proof (cases "mag b \<le> mag a")
        case True
        then have "R = fst (Subtract (Reg a) (Reg b) ?n)" "s = EPositive"
          using R 1 cmp unfolding def by simp_all
        then show ?thesis using sub [OF le] True ea(2,5) eb(5) 1 by (simp add: max_def)
      next
        case False
        then have "R = fst (Subtract (Reg b) (Reg a) ?n)" "s = ENegative"
          using R 1 cmp unfolding def by simp_all
        then show ?thesis using sub [OF le(2,1)] False ea(2,5) eb(5) 1 by (simp add: max_def)
      qed
    next
      case 2
      have "base (even_count b) \<le> mag a" "mag b < base (even_count b)"
        using even_count_less [OF 2] val_bound_eq [OF eb(4)] eb(5) by simp_all
      then show ?thesis
        using subtract_lists_take [OF a b 2] R 2 ea(2) unfolding def by (auto simp: Let_def split: prod.splits)
    next
      case 3
      have "base (even_count a) \<le> mag b" "mag a < base (even_count a)"
        using even_count_less [OF 3] val_bound_eq [OF ea(4)] ea(5) by simp_all
      then show ?thesis
        using subtract_lists_take [OF b a 3] R 3 eb(2) unfolding def by (auto simp: Let_def split: prod.splits)
    qed
  qed
  then show "length R \<le> max (Size a) (Size b)" and "val R = \<bar>mag a - mag b\<bar>"
    and "s = (if mag a < mag b then ENegative else EPositive)" by simp_all
qed

lemma PositiveSubtractL_val:
  assumes a: "pow2_size (Size a)" "Size a \<le> max_size" and b: "pow2_size (Size b)" "Size b \<le> max_size"
  shows "wf (PositiveSubtractL a b)" and "ival (PositiveSubtractL a b) = mag a - mag b"
    and "Size (PositiveSubtractL a b) = max (Size a) (Size b)"
proof -
  let ?n = "max (Size a) (Size b)"
  have n: "pow2_size ?n" "?n \<le> max_size" "RoundupSize ?n = ?n"
    using a b RoundupSize_pow2 [of ?n] by (auto simp: max_def max_size_def)
  obtain R s where R: "subtract_words a b = (R, s)" by fastforce
  note sw = subtract_words_val [OF a(1) b(1) R]
  have res: "PositiveSubtractL a b = \<lparr>Reg = R @ drop (length R) (replicate ?n 0), Sign = s\<rparr>"
    using R n by (simp add: PositiveSubtractL_def NewEmptyL_def)
  have m: "mag (PositiveSubtractL a b) = \<bar>mag a - mag b\<bar>" "Sign (PositiveSubtractL a b) = s"
    using sw by (simp_all add: res mag_def val_append)
  show sz: "Size (PositiveSubtractL a b) = ?n" using sw(1) by (simp add: res Size_def)
  show "wf (PositiveSubtractL a b)" "ival (PositiveSubtractL a b) = mag a - mag b"
    using m sz n sw(3) by (auto simp: wf_def ival_def IsNegative_def split: if_splits)
qed


text \<open>Operands as the arithmetic expects them: well formed and of at most \<open>max_size\<close> words.\<close>

definition ok :: "TInteger \<Rightarrow> bool" where "ok x \<longleftrightarrow> wf x \<and> Size x \<le> max_size"

lemma okD:
  assumes "ok x"
  shows "wf x" "pow2_size (Size x)" "Size x \<le> max_size" "Size x \<le> 2147483648" "WordCount x \<le> 2147483648"
  using assms WordCount_le [of x] by (simp_all add: ok_def wf_def max_size_def)

lemma Sign_update_simps [simp]:
  "mag (x\<lparr>Sign := s\<rparr>) = mag x" "Size (x\<lparr>Sign := s\<rparr>) = Size x"
  "IsNegative (x\<lparr>Sign := s\<rparr>) \<longleftrightarrow> s = ENegative"
  by (simp_all add: mag_def Size_def IsNegative_def)

lemma PositiveAddL_ok:
  assumes "ok a" "ok b"
  shows "wf (PositiveAddL a b)" and "ival (PositiveAddL a b) = mag a + mag b"
    and "Size (PositiveAddL a b) \<le> 2 * max (Size a) (Size b)"
proof -
  note v = PositiveAddL_val [OF okD(2,3) [OF assms(1)] okD(2,3) [OF assms(2)]]
  have "\<not> IsNegative (PositiveAddL a b)" using v(2) by (simp add: IsNegative_def)
  then show "wf (PositiveAddL a b)" and "ival (PositiveAddL a b) = mag a + mag b"
    using v by (simp_all add: wf_def ival_def)
  show "Size (PositiveAddL a b) \<le> 2 * max (Size a) (Size b)" by (rule v(4))
qed

lemma negative_sum:
  assumes "wf x" "0 < ival x"
  shows "wf (x\<lparr>Sign := ENegative\<rparr>)" and "ival (x\<lparr>Sign := ENegative\<rparr>) = - ival x"
  using assms mag_nonneg [of x] unfolding wf_def ival_def Sign_update_simps by (simp_all split: if_splits del: mag_nonneg)

lemma PlusL_val:
  assumes "ok a" "ok b"
  shows "wf (PlusL a b)" and "ival (PlusL a b) = ival a + ival b" and "Size (PlusL a b) \<le> 2 * max (Size a) (Size b)"
proof -
  note add = PositiveAddL_ok [OF assms]
  note sab = PositiveSubtractL_val [OF okD(2,3) [OF assms(1)] okD(2,3) [OF assms(2)]]
  note sba = PositiveSubtractL_val [OF okD(2,3) [OF assms(2)] okD(2,3) [OF assms(1)]]
  have neg: "NotNegative x \<longleftrightarrow> 0 \<le> ival x" "mag x = \<bar>ival x\<bar>" if "ok x" for x
    using NotNegative_iff [OF okD(1) [OF that]] mag_abs by simp_all
  note na = neg [OF assms(1)] and nb = neg [OF assms(2)]
  have "wf (PlusL a b) \<and> ival (PlusL a b) = ival a + ival b"
  proof (cases "ival a < 0 \<and> ival b < 0")
    case True
    then have "0 < ival (PositiveAddL a b)" using add(2) na(2) nb(2) by simp
    from negative_sum [OF add(1) this] True show ?thesis
      using add(2) na nb by (simp add: PlusL_def)
  next
    case False
    then show ?thesis using add sab sba na nb by (auto simp: PlusL_def)
  qed
  then show "wf (PlusL a b)" and "ival (PlusL a b) = ival a + ival b" by simp_all
  show "Size (PlusL a b) \<le> 2 * max (Size a) (Size b)"
    using add(3) sab(3) sba(3) by (auto simp: PlusL_def)
qed

lemma MinusL_val:
  assumes "ok a" "ok b"
  shows "wf (MinusL a b)" and "ival (MinusL a b) = ival a - ival b" and "Size (MinusL a b) \<le> 2 * max (Size a) (Size b)"
proof -
  note add = PositiveAddL_ok [OF assms]
  note sab = PositiveSubtractL_val [OF okD(2,3) [OF assms(1)] okD(2,3) [OF assms(2)]]
  note sba = PositiveSubtractL_val [OF okD(2,3) [OF assms(2)] okD(2,3) [OF assms(1)]]
  have neg: "NotNegative x \<longleftrightarrow> 0 \<le> ival x" "mag x = \<bar>ival x\<bar>" if "ok x" for x
    using NotNegative_iff [OF okD(1) [OF that]] mag_abs by simp_all
  note na = neg [OF assms(1)] and nb = neg [OF assms(2)]
  have "wf (MinusL a b) \<and> ival (MinusL a b) = ival a - ival b"
  proof (cases "ival a < 0 \<and> 0 \<le> ival b")
    case True
    then have "0 < ival (PositiveAddL a b)" using add(2) na(2) nb(2) by simp
    from negative_sum [OF add(1) this] True show ?thesis
      using add(2) na nb by (simp add: MinusL_def)
  next
    case False
    then show ?thesis using add sab sba na nb by (auto simp: MinusL_def)
  qed
  then show "wf (MinusL a b)" and "ival (MinusL a b) = ival a - ival b" by simp_all
  show "Size (MinusL a b) \<le> 2 * max (Size a) (Size b)"
    using add(3) sab(3) sba(3) by (auto simp: MinusL_def)
qed

subsection \<open>Multiplication\<close>

lemma PositiveMultiplyL_val:
  assumes "ok a" "ok b" and same: "same \<Longrightarrow> a = b"
  shows "wf (PositiveMultiplyL same a b)" and "ival (PositiveMultiplyL same a b) = mag a * mag b"
    and "Size (PositiveMultiplyL same a b) \<le> 4 * max (Size a) (Size b)"
proof -
  let ?na = "RoundupSize (WordCount a)" and ?nb = "RoundupSize (WordCount b)"
  have r: "WordCount x \<le> RoundupSize (WordCount x)" "pow2_size (RoundupSize (WordCount x))"
    "RoundupSize (WordCount x) \<le> Size x" if "ok x" for x
    using RoundupSize_props [OF okD(5) [OF that]] okD(2) [OF that] WordCount_le [of x] by simp_all
  note ra = r [OF assms(1)] and rb = r [OF assms(2)]
  define A B where "A = take ?na (Reg a)" "B = take ?nb (Reg b)"
  have A: "length A = ?na" "val A = mag a" and B: "length B = ?nb" "val B = mag b"
    using ra rb mag_take by (simp_all add: A_B_def Size_def)
  have eq: "same \<Longrightarrow> A = B" using same by (simp add: A_B_def)
  define R where "R = AsymmetricMultiply same A ?na B ?nb"
  have R: "length R = ?na + ?nb" "val R = mag a * mag b"
    using AsymmetricMultiply_exact [OF ra(2) rb(2) A(1) B(1) eq] A(2) B(2) by (simp_all add: R_def)
  have n: "?na + ?nb \<le> 2147483648"
    using ra(3) rb(3) okD(3) [OF assms(1)] okD(3) [OF assms(2)] by (simp add: max_size_def)
  note rs = RoundupSize_props [OF n]
  have res: "PositiveMultiplyL same a b = \<lparr>Reg = R @ drop (length R) (replicate (RoundupSize (?na + ?nb)) 0), Sign = EPositive\<rparr>"
    by (simp add: PositiveMultiplyL_def Let_def NewEmptyL_def CleanNewL_def R_def A_B_def)
  have sz: "Size (PositiveMultiplyL same a b) = RoundupSize (?na + ?nb)"
    using R(1) rs(1) by (simp add: res Size_def)
  have m: "mag (PositiveMultiplyL same a b) = mag a * mag b" "\<not> IsNegative (PositiveMultiplyL same a b)"
    using R by (simp_all add: res mag_def val_append IsNegative_def)
  show "wf (PositiveMultiplyL same a b)" and "ival (PositiveMultiplyL same a b) = mag a * mag b"
    using m sz rs(2) by (simp_all add: wf_def ival_def)
  have "pow2_size (2 * max ?na ?nb)"
    using ra(2) rb(2) unfolding pow2_size_def max_def by (metis le_Suc_eq power_Suc)
  then have "RoundupSize (?na + ?nb) \<le> 2 * max ?na ?nb" using rs(3) by simp
  then show "Size (PositiveMultiplyL same a b) \<le> 4 * max (Size a) (Size b)"
    using sz ra(3) rb(3) by linarith
qed

lemma Negate_val:
  assumes "wf x"
  shows "wf (Negate x)" and "ival (Negate x) = - ival x" and "Size (Negate x) = Size x" and "mag (Negate x) = mag x"
  using assms IsZero_iff [OF assms] by (auto simp: Negate_def wf_def ival_def IsNegative_def split: TSign.splits)

lemma TimesL_val:
  assumes "ok a" "ok b" and "same \<Longrightarrow> a = b"
  shows "wf (TimesL same a b)" and "ival (TimesL same a b) = ival a * ival b"
    and "Size (TimesL same a b) \<le> 4 * max (Size a) (Size b)"
proof -
  note m = PositiveMultiplyL_val [OF assms]
  note n = Negate_val [OF m(1)]
  have "NotNegative a \<longleftrightarrow> 0 \<le> ival a" "NotNegative b \<longleftrightarrow> 0 \<le> ival b"
    using NotNegative_iff okD(1) assms by simp_all
  then show "wf (TimesL same a b)" and "ival (TimesL same a b) = ival a * ival b"
    and "Size (TimesL same a b) \<le> 4 * max (Size a) (Size b)"
    using m n mag_abs [of a] mag_abs [of b] by (auto simp: TimesL_def Let_def)
qed

subsection \<open>Comparison\<close>

lemma UnsignedCompare_val: "UnsignedCompare x y = sgn (mag x - mag y)"
proof -
  have lt: "mag u < mag v" if "WordCount u < WordCount v" for u v
  proof -
    have "base (WordCount u) \<le> base (WordCount v - 1)"
      unfolding base_def using that by (intro power_increasing) simp_all
    also have "\<dots> \<le> mag v" by (rule mag_ge) (use that in simp)
    finally show ?thesis using mag_lt_WordCount [of u] by linarith
  qed
  consider "WordCount x = WordCount y" | "WordCount x > WordCount y" | "WordCount x < WordCount y" by linarith
  then show ?thesis
  proof cases
    case 1
    have "Compare (Reg x) (Reg y) (WordCount x) = sgn (mag x - mag y)"
      using Compare_val [of "WordCount x" "Reg x" "Reg y"] WordCount_le [of x] WordCount_le [of y]
        mag_WordCount [of x] mag_WordCount [of y] 1 by (simp add: Size_def)
    then show ?thesis using 1 by (simp add: UnsignedCompare_def)
  qed (use lt [of x y] lt [of y x] in \<open>simp_all add: UnsignedCompare_def\<close>)
qed

lemma SignedCompare_val:
  assumes "wf x" "wf y"
  shows "SignedCompare x y = sgn (ival x - ival y)"
  using NotNegative_iff [OF assms(1)] NotNegative_iff [OF assms(2)] mag_abs [of x] mag_abs [of y]
  by (auto simp: SignedCompare_def UnsignedCompare_val sgn_if)


subsection \<open>Shifts\<close>

lemma base_power2: "base n = 2 ^ (32 * n)"
  by (simp add: base_def power_mult)

lemma BitsToWords_div: "BitsToWords b = b div 32 + BitsToWords (b mod 32)" "BitsToWords (b mod 32) = (if b mod 32 = 0 then 0 else 1)"
proof -
  have "(b mod 32 + 31) div 32 = (if b mod 32 = 0 then 0 else 1)"
  proof (cases "b mod 32 = 0")
    case False
    then have "0 < b mod 32" "b mod 32 < 32" by simp_all
    then have "32 \<le> b mod 32 + 31" "b mod 32 + 31 < 64" by linarith+
    then show ?thesis using False by simp
  qed simp
  then show m: "BitsToWords (b mod 32) = (if b mod 32 = 0 then 0 else 1)" by (simp add: BitsToWords_def WORD_BITS_def)
  have "b + 31 = (b mod 32 + 31) + b div 32 * 32" by simp
  then have "(b + 31) div 32 = b div 32 + (b mod 32 + 31) div 32" by (metis add.commute div_mult_self3 zero_neq_numeral)
  then show "BitsToWords b = b div 32 + BitsToWords (b mod 32)"
    by (simp add: BitsToWords_def WORD_BITS_def add.commute)
qed

lemma power_split_32: "(2 :: int) ^ b = base (b div 32) * 2 ^ (b mod 32)"
  unfolding base_power2 by (simp flip: power_add)

lemma val_drop_small: "val L < base n \<Longrightarrow> val (drop n L) = 0"
proof (cases "n \<le> length L")
  case True
  assume "val L < base n"
  then have "val (take n L) = val L" by (rule val_small_take)
  then show ?thesis using val_take_drop [of L n] True by (simp add: min.absorb1)
qed simp

lemma shl_words:
  fixes b :: nat
  assumes v: "val L < base w" and len: "w + BitsToWords b \<le> length L"
  defines "s \<equiv> b div 32" and "t \<equiv> b mod 32"
  defines "R1 \<equiv> ShiftWordsLeftByWords L (w + s) s @ drop (w + s) L"
  shows "length (take s R1 @ fst (ShiftWordsLeftByBits (drop s R1) (w + BitsToWords t) t)
      @ drop (s + (w + BitsToWords t)) R1) = length L"
    and "val (take s R1 @ fst (ShiftWordsLeftByBits (drop s R1) (w + BitsToWords t) t)
      @ drop (s + (w + BitsToWords t)) R1) = val L * 2 ^ b"
proof -
  let ?n = "w + BitsToWords t"
  have bw: "BitsToWords b = s + BitsToWords t" unfolding s_def t_def by (rule BitsToWords_div)
  have ws: "w + s \<le> length L" "s \<le> w + s" using len bw by simp_all
  note sl = ShiftWordsLeftByWords_val [OF ws]
  have vw: "val (take w L) = val L" by (rule val_small_take [OF v])
  have b0: "val (drop (w + s) L) = 0"
    by (rule val_drop_small) (rule order_less_le_trans [OF v], simp add: base_def power_increasing)
  have R1: "length R1 = length L" "val R1 = base s * val L"
    using sl ws vw b0 by (simp_all add: R1_def val_append)
  have sR: "s \<le> length R1" using R1(1) ws by simp
  have ds: "val (drop s R1) = val L" "val (take s R1) = 0"
    using val_div_base [OF sR] R1(2) by simp_all
  have n: "?n \<le> length (drop s R1)" using R1(1) len bw by simp
  have t32: "t < 32" by (simp add: t_def)
  obtain D c where sh: "ShiftWordsLeftByBits (drop s R1) ?n t = (D, c)" by fastforce
  have vn: "val (drop s R1) < base ?n"
    unfolding ds by (rule order_less_le_trans [OF v]) (simp add: base_def power_increasing)
  have D: "length D = ?n" "val D + base ?n * uint c = val L * 2 ^ t"
    using ShiftWordsLeftByBits_val [OF n t32 sh] val_small_take [OF vn] ds(1) by simp_all
  have "val L * 2 ^ t < base ?n"
  proof (cases "t = 0")
    case True
    then show ?thesis using v BitsToWords_div(2) [of b] by (simp add: t_def)
  next
    case False
    then have n': "?n = w + 1" using BitsToWords_div(2) [of b] by (simp add: t_def)
    have "(2 :: int) ^ t \<le> 2 ^ 32" using t32 by (intro power_increasing) simp_all
    then have "val L * 2 ^ t \<le> val L * 4294967296" by (intro mult_left_mono) simp_all
    also have "\<dots> < base w * 4294967296" using v by simp
    also have "\<dots> = base ?n" unfolding n' by simp
    finally show ?thesis .
  qed
  then have "uint c = 0" using no_carry [OF D(2) _ val_nonneg uint_ge_0 base_pos(1)] by simp
  then have vD: "val D = val L * 2 ^ t" using D(2) by simp
  have "drop (s + ?n) R1 = drop ?n (drop s R1)" by (simp add: add.commute)
  then have z: "val (drop (s + ?n) R1) = 0" using val_drop_small [OF vn] by simp
  have ls: "length (take s R1) = s" using sR by simp
  show "length (take s R1 @ fst (ShiftWordsLeftByBits (drop s R1) ?n t) @ drop (s + ?n) R1) = length L"
    using R1(1) n D(1) sR sh by simp
  show "val (take s R1 @ fst (ShiftWordsLeftByBits (drop s R1) ?n t) @ drop (s + ?n) R1) = val L * 2 ^ b"
    unfolding sh fst_conv val_append ls ds(2) vD z by (simp add: power_split_32 [of b] s_def t_def)
qed

lemma shl_assign_val:
  assumes x: "ok x" and b: "WordCount x + BitsToWords b \<le> 2147483648"
  shows "wf (shl_assign x b)" and "ival (shl_assign x b) = ival x * 2 ^ b"
    and "Size (shl_assign x b) = max (Size x) (RoundupSize (WordCount x + BitsToWords b))"
proof -
  define y where "y = CleanGrowL x (WordCount x + BitsToWords b)"
  note g = CleanGrowL_props [OF okD(2) [OF x] b, folded y_def]
  have v: "val (Reg y) < base (WordCount x)" using mag_lt_WordCount [of x] g(1) by (simp add: mag_def)
  have len: "WordCount x + BitsToWords b \<le> length (Reg y)" using g(4) by (simp add: Size_def)
  note sw = shl_words [OF v len]
  define R where "R = (let s = b div 32; t = b mod 32; w = WordCount x;
      R1 = ShiftWordsLeftByWords (Reg y) (w + s) s @ drop (w + s) (Reg y)
    in take s R1 @ fst (ShiftWordsLeftByBits (drop s R1) (w + BitsToWords t) t) @ drop (s + (w + BitsToWords t)) R1)"
  have R: "length R = length (Reg y)" "val R = val (Reg y) * 2 ^ b"
    using sw unfolding R_def Let_def by blast+
  have "shl_assign x b = y\<lparr>Reg := R\<rparr>"
    unfolding shl_assign_def Let_def WORD_BITS_def y_def R_def by (rule refl)
  then have m: "Size (shl_assign x b) = Size y" "mag (shl_assign x b) = mag x * 2 ^ b" "Sign (shl_assign x b) = Sign x"
    using R g(1,2) by (simp_all add: Size_def mag_def)
  then show "wf (shl_assign x b)" and "ival (shl_assign x b) = ival x * 2 ^ b"
    using g(3) okD(1) [OF x] by (simp_all add: wf_def ival_def IsNegative_def)
  show "Size (shl_assign x b) = max (Size x) (RoundupSize (WordCount x + BitsToWords b))"
    using m(1) g(5) by simp
qed

lemma shr_words:
  fixes b :: nat
  assumes v: "val L < base w" and len: "w \<le> length L"
  defines "s \<equiv> b div 32" and "t \<equiv> b mod 32"
  defines "R1 \<equiv> ShiftWordsRightByWords L w s @ drop w L"
  defines "R2 \<equiv> (if w > s then fst (ShiftWordsRightByBits R1 (w - s) t) @ drop (w - s) R1 else R1)"
  shows "length R2 = length L" and "val R2 = val L div 2 ^ b"
proof -
  note sr = ShiftWordsRightByWords_val [OF len, of s]
  have vw: "val (take w L) = val L" by (rule val_small_take [OF v])
  have R1: "length R1 = length L" "val R1 = val L div base (min s w)"
    using sr vw val_drop_small [OF v] len by (simp_all add: R1_def val_append)
  have d: "val L div 2 ^ b = val L div base s div 2 ^ t"
    unfolding power_split_32 [of b] s_def t_def by (rule zdiv_zmult2_eq) simp
  have "length R2 = length L \<and> val R2 = val L div 2 ^ b"
  proof (cases "s < w")
    case False
    then have "val L div base s = 0" using v base_def
      by (intro div_pos_pos_trivial) (auto intro: order_less_le_trans simp: power_increasing)
    moreover have "val L div base w = 0" using v by (simp add: div_pos_pos_trivial)
    ultimately show ?thesis using False R1 d by (simp add: R2_def min_def)
  next
    case True
    have t32: "t < 32" by (simp add: t_def)
    have lt: "val R1 < base (w - s)"
    proof -
      have "base w = base (w - s) * base s" using True by (simp flip: base_add)
      then have "val L div base s < base (w - s)" using v by (intro int_div_less) simp_all
      then show ?thesis using R1(2) True by (simp add: min_def)
    qed
    obtain D c where sh: "ShiftWordsRightByBits R1 (w - s) t = (D, c)" by fastforce
    have "length D = w - s" "val D = val R1 div 2 ^ t"
      using ShiftWordsRightByBits_val [OF _ t32 sh] R1(1) len val_small_take [OF lt] by simp_all
    then show ?thesis
      using True sh R1 len val_drop_small [OF lt] d by (simp add: R2_def val_append min_def)
  qed
  then show "length R2 = length L" and "val R2 = val L div 2 ^ b" by simp_all
qed

lemma shr_assign_val:
  assumes x: "wf x"
  shows "wf (shr_assign x b)" and "ival (shr_assign x b) = sgn (ival x) * (\<bar>ival x\<bar> div 2 ^ b)"
    and "Size (shr_assign x b) = Size x"
proof -
  have v: "val (Reg x) < base (WordCount x)" using mag_lt_WordCount [of x] by (simp add: mag_def)
  have len: "WordCount x \<le> length (Reg x)" using WordCount_le [of x] by (simp add: Size_def)
  note sw = shr_words [OF v len, of b]
  define y where "y = x\<lparr>Reg := (if WordCount x > b div 32
      then fst (ShiftWordsRightByBits (ShiftWordsRightByWords (Reg x) (WordCount x) (b div 32) @ drop (WordCount x) (Reg x)) (WordCount x - b div 32) (b mod 32))
        @ drop (WordCount x - b div 32) (ShiftWordsRightByWords (Reg x) (WordCount x) (b div 32) @ drop (WordCount x) (Reg x))
      else ShiftWordsRightByWords (Reg x) (WordCount x) (b div 32) @ drop (WordCount x) (Reg x))\<rparr>"
  have y: "Size y = Size x" "mag y = mag x div 2 ^ b" "Sign y = Sign x"
    using sw unfolding y_def Size_def mag_def by simp_all
  have res: "shr_assign x b = (if IsNegative y \<and> WordCount y = 0 then y\<lparr>Sign := EPositive\<rparr> else y)"
    unfolding shr_assign_def Let_def WORD_BITS_def y_def by (rule refl)
  have pos: "0 \<le> mag x" "mag x = \<bar>ival x\<bar>" by (simp_all add: mag_abs)
  have sg: "sgn (ival x) = (if IsNegative x then -1 else if mag x = 0 then 0 else 1)"
    using x mag_nonneg [of x] unfolding ival_def wf_def sgn_if by (auto simp del: mag_nonneg)
  show "Size (shr_assign x b) = Size x" by (simp add: res y)
  show "wf (shr_assign x b)"
    using x y by (auto simp: res wf_def WordCount_0_iff IsNegative_def)
  show "ival (shr_assign x b) = sgn (ival x) * (\<bar>ival x\<bar> div 2 ^ b)"
    unfolding pos(2) [symmetric] sg using y
    by (auto simp: res ival_def WordCount_0_iff IsNegative_def)
qed


subsection \<open>Increment and decrement of the value\<close>

lemma pow2_size_Suc_Suc [simp]: "pow2_size (Suc (Suc 0))"
  using pow2_size_numerals(1) by (simp only: numeral_2_eq_2)

lemma CleanResizeL_same: "RoundupSize n = Size x \<Longrightarrow> CleanResizeL x n = Ok x"
  by (simp add: CleanResizeL_def)

lemma decrement_negative:
  assumes x: "ok x" and neg: "IsNegative x"
  shows "\<exists>y. decrement x = Ok y \<and> wf y \<and> ival y = ival x - 1"
proof -
  have p: "0 < Size x" using pow2_size_ge [OF okD(2) [OF x]] by simp
  obtain R c where inc: "Increment (Reg x) (Size x) 1 = (R, c)" by fastforce
  have R: "length R = Size x" "uint c \<le> 1" "val R + base (Size x) * uint c = mag x + 1"
    using Increment_val [OF p _ inc] by (simp_all add: Size_def mag_def)
  define z where "z = x\<lparr>Reg := R\<rparr>"
  have z: "Size z = Size x" "mag z = val R" "IsNegative z"
    using R(1) neg by (simp_all add: z_def Size_def mag_def IsNegative_def)
  have res: "decrement x = Ok (if c \<noteq> 0 then grow_carry z else z)"
    using neg inc by (simp add: decrement_def z_def)
  note gc = grow_carry_props [of z, unfolded z(1), OF okD(2,3) [OF x]]
  show ?thesis
  proof (cases "c = 0")
    case True
    then have "mag z = mag x + 1" using R(3) z(2) by simp
    then have "wf z \<and> ival z = ival x - 1"
      using z neg okD(1,2) [OF x] mag_nonneg [of x] unfolding wf_def ival_def by (simp del: mag_nonneg)
    then show ?thesis using res True by simp
  next
    case False
    then have "uint c = 1" using R(2) uint_ge_1 [of c] by linarith
    then have m: "mag (grow_carry z) = mag x + 1" using gc(1) R(3) z(2) by simp
    have "IsNegative (grow_carry z)" using gc(2) z(3) by (simp add: IsNegative_def)
    then have "wf (grow_carry z) \<and> ival (grow_carry z) = ival x - 1"
      using m gc(4) neg mag_nonneg [of x] unfolding wf_def ival_def by (simp del: mag_nonneg)
    then show ?thesis using res False by simp
  qed
qed

lemma sint_minus_one: "sint (- 1 :: tuint) < 0" by simp

lemma decrement_zero:
  assumes "Size x = 2" "\<not> IsNegative x" "mag x = 0"
  shows "decrement x = Ok \<lparr>Reg = [1, 0], Sign = ENegative\<rparr>"
proof -
  obtain a b where R: "Reg x = [a, b]"
    using assms(1) by (metis Size_def val_words2)
  then have ab: "a = 0" "b = 0"
    using assms(3) by (simp_all add: mag_def add_nonneg_eq_0_iff word_uint_eq_iff)
  have "Decrement (Reg x) (Size x) 1 = ([- 1, - 1], 1)"
    unfolding R ab assms(1) by code_simp
  then show ?thesis
    using assms(1,2) by (simp add: decrement_def CopyIntL_def CleanResizeL_same [of 2] Size_def RoundupSize_8
        ConstructInt_def ConstructUint_def)
qed

subsection \<open>Division\<close>

lemma PositiveDivideL_zero: "mag b = 0 \<Longrightarrow> PositiveDivideL a b = Some (Leave KErrDivideByZero)"
  by (simp add: PositiveDivideL_def Let_def WordCount_0_iff)

lemma PositiveDivideL_less:
  assumes a: "ok a" and b: "mag b \<noteq> 0" and lt: "mag a < mag b"
  shows "PositiveDivideL a b = Some (Ok (a\<lparr>Sign := EPositive\<rparr>, CleanNewL 2))"
proof -
  have r: "RoundupSize (Size a) = Size a"
    using RoundupSize_pow2 okD(2,4) [OF a] by blast
  have "UnsignedCompare a b = -1" using lt by (simp add: UnsignedCompare_val)
  moreover have "CopyL (CleanNewL (Size a)) a True = Ok \<lparr>Reg = Reg a, Sign = Sign a\<rparr>"
    using CleanResizeL_same [of "Size a" "CleanNewL (Size a)"] r
    by (simp add: CopyL_def ConstructInteger_def)
  ultimately show ?thesis
    using b by (simp add: PositiveDivideL_def Let_def WordCount_0_iff)
qed

lemma top_word_nonzero:
  assumes b: "pow2_size (Size b)" and nz: "mag b \<noteq> 0"
  defines "B \<equiv> take (even_count b) (Reg b)"
  shows "B ! (even_count b - 1) \<noteq> 0 \<or> B ! (even_count b - 2) \<noteq> 0" and "2 \<le> even_count b"
proof -
  have w: "0 < WordCount b" using nz WordCount_0_iff [of b] by simp
  have top: "Reg b ! (WordCount b - 1) \<noteq> 0"
    using CountWords_top(1) [of "Size b" "Reg b"] w by (simp add: WordCount_def Size_def)
  have "even_count b = WordCount b \<or> even_count b = WordCount b + 1"
    unfolding even_count_def by auto
  moreover from this show "2 \<le> even_count b"
    using w even_count_props(1) [OF b] by (cases "even_count b = 1") auto
  ultimately show "B ! (even_count b - 1) \<noteq> 0 \<or> B ! (even_count b - 2) \<noteq> 0"
    using top w by (auto simp: B_def)
qed

lemma PositiveDivideL_ge:
  assumes a: "ok a" and b: "ok b" and nz: "mag b \<noteq> 0" and ge: "mag b \<le> mag a"
  obtains r q where "PositiveDivideL a b = Some (Ok (r, q))" "ok r" "ok q"
    "ival r = mag a mod mag b" "ival q = mag a div mag b" "Size r = RoundupSize (even_count b)"
proof -
  note ea = even_count_props [OF okD(2) [OF a]] and eb = even_count_props [OF okD(2) [OF b]]
  let ?na = "even_count a" and ?nb = "even_count b"
  note top = top_word_nonzero [OF okD(2) [OF b] nz]
  have le: "?nb \<le> ?na"
  proof (rule ccontr)
    assume "\<not> ?nb \<le> ?na"
    then have "base ?na \<le> mag b" by (intro even_count_less) simp
    then show False using ge val_bound_eq [OF ea(4)] ea(5) by simp
  qed
  obtain R Q where D: "Divide (take ?na (Reg a)) ?na (take ?nb (Reg b)) ?nb = Some (R, Q)" "length R = ?nb"
    "length Q = ?na - ?nb + 2" "val R = mag a mod mag b" "val Q = mag a div mag b"
    using Divide_exact [OF ea(4,1) eb(4,1) top(2) le top(1)] ea(5) eb(5) by auto
  have nlt: "UnsignedCompare a b \<noteq> -1" using ge by (simp add: UnsignedCompare_val sgn_if)
  have nb: "?nb \<le> 2147483648" "?na - ?nb + 2 \<le> 2147483648"
    using ea(2) eb(2) okD(3) [OF a] okD(3) [OF b] by (simp_all add: max_size_def)
  note rb = RoundupSize_props [OF nb(1)] and rq = RoundupSize_props [OF nb(2)]
  define r where "r = (CleanNewL ?nb)\<lparr>Reg := R @ drop (length R) (Reg (CleanNewL ?nb))\<rparr>"
  define q where "q = (CleanNewL (?na - ?nb + 2))\<lparr>Reg := Q @ drop (length Q) (Reg (CleanNewL (?na - ?nb + 2)))\<rparr>"
  have rp: "Size r = RoundupSize ?nb" "mag r = mag a mod mag b" "\<not> IsNegative r"
    using D(2,4) rb(1) by (simp_all add: r_def Size_def mag_def val_append IsNegative_def)
  have qp: "Size q = RoundupSize (?na - ?nb + 2)" "mag q = mag a div mag b" "\<not> IsNegative q"
    using D(3,5) rq(1) by (simp_all add: q_def Size_def mag_def val_append IsNegative_def)
  have "Size r \<le> Size b" unfolding rp(1) by (rule rb(3) [OF okD(2) [OF b] eb(2)])
  then have okr: "ok r" using okD(3) [OF b] rp rb(2) by (simp add: ok_def wf_def)
  have "?na - ?nb + 2 \<le> Size a" using ea(2) top(2) le by linarith
  from rq(3) [OF okD(2) [OF a] this] have sq: "Size q \<le> max_size" using qp(1) okD(3) [OF a] by simp
  have "PositiveDivideL a b = Some (Ok (r, q))"
    using nz nlt D(1) unfolding PositiveDivideL_def Let_def WordCount_0_iff even_count_def [symmetric]
    by (simp add: r_def q_def)
  then show thesis
    using that okr rp qp rq(2) sq by (simp add: ok_def wf_def ival_def)
qed

lemma DivideL_nonneg:
  assumes a: "ok a" and b: "ok b" and nz: "ival b \<noteq> 0" and nn: "0 \<le> ival a"
  shows "\<exists>r q. DivideL a b = Some (Ok (r, q)) \<and> wf r \<and> wf q \<and>
    ival r = ival a mod \<bar>ival b\<bar> \<and> ival q = sgn (ival b) * (ival a div \<bar>ival b\<bar>)"
proof -
  have na: "\<not> IsNegative a" "mag a = ival a" using NotNegative_iff [OF okD(1) [OF a]] nn
    by (simp_all add: NotNegative_def mag_abs)
  have nb: "IsNegative b \<longleftrightarrow> ival b < 0" using NotNegative_iff [OF okD(1) [OF b]] by (auto simp: NotNegative_def)
  have mb: "mag b = \<bar>ival b\<bar>" "mag b \<noteq> 0" using nz by (simp_all add: mag_abs)
  obtain r q where rq: "PositiveDivideL a b = Some (Ok (r, q))" "wf r" "wf q"
    "ival r = mag a mod mag b" "ival q = mag a div mag b"
  proof (cases "mag a < mag b")
    case True
    have "wf (a\<lparr>Sign := EPositive\<rparr>)" "ival (a\<lparr>Sign := EPositive\<rparr>) = mag a mod mag b"
      using okD(2) [OF a] True by (simp_all add: wf_def ival_def mod_pos_pos_trivial)
    moreover have "wf (CleanNewL 2)" "ival (CleanNewL 2) = mag a div mag b"
      using True by (simp_all add: wf_def ival_def div_pos_pos_trivial RoundupSize_8 IsNegative_def)
    ultimately show thesis using that PositiveDivideL_less [OF a mb(2) True] by blast
  next
    case False
    then show thesis using that PositiveDivideL_ge [OF a b mb(2)] by (metis not_less ok_def)
  qed
  have "DivideL a b = Some (Ok (r, if IsNegative b then Negate q else q))"
    using rq(1) na(1) by (simp add: DivideL_def)
  then show ?thesis
    using rq nb mb(1) na(2) nz Negate_val [OF rq(3)] by (auto simp: sgn_if)
qed

text \<open>
  For a negative dividend the code takes the remainder from the divisor over the words of the
  remainder only: that is right when the divisor fits into them.
\<close>

lemma DivideL_negative:
  assumes a: "ok a" and b: "ok b" and nz: "ival b \<noteq> 0" and neg: "ival a < 0"
    and fits: "mag b \<le> mag a \<or> WordCount b \<le> Size a \<and> Size a \<le> Size b"
  shows "\<exists>r q. DivideL a b = Some (Ok (r, q)) \<and> ival a = ival q * ival b + ival r \<and>
    0 \<le> ival r \<and> ival r < \<bar>ival b\<bar>"
proof -
  have na: "IsNegative a" "mag a = - ival a" using NotNegative_iff [OF okD(1) [OF a]] neg
    by (simp_all add: NotNegative_def mag_abs)
  have nb: "IsNegative b \<longleftrightarrow> ival b < 0" using NotNegative_iff [OF okD(1) [OF b]] by (auto simp: NotNegative_def)
  have mb: "mag b = \<bar>ival b\<bar>" "mag b \<noteq> 0" "0 < mag b" using nz by (simp_all add: mag_abs)
  obtain r q where rq: "PositiveDivideL a b = Some (Ok (r, q))" "wf r" "ok q"
    "ival r = mag a mod mag b" "ival q = mag a div mag b" "WordCount b \<le> Size r" "Size r \<le> Size b"
    "mag q = 0 \<Longrightarrow> Size q = 2"
  proof (cases "mag a < mag b")
    case True
    have "wf (a\<lparr>Sign := EPositive\<rparr>)" "ival (a\<lparr>Sign := EPositive\<rparr>) = mag a mod mag b"
      using okD(2) [OF a] True by (simp_all add: wf_def ival_def mod_pos_pos_trivial)
    moreover have "ok (CleanNewL 2)" "ival (CleanNewL 2) = mag a div mag b" "Size (CleanNewL 2) = 2"
      using True by (simp_all add: ok_def wf_def ival_def div_pos_pos_trivial RoundupSize_8 IsNegative_def max_size_def)
    moreover have "WordCount b \<le> Size (a\<lparr>Sign := EPositive\<rparr>)" "Size (a\<lparr>Sign := EPositive\<rparr>) \<le> Size b"
      using fits True by simp_all
    ultimately show thesis using that PositiveDivideL_less [OF a mb(2) True] by blast
  next
    case False
    obtain r q where g: "PositiveDivideL a b = Some (Ok (r, q))" "ok r" "ok q"
      "ival r = mag a mod mag b" "ival q = mag a div mag b" "Size r = RoundupSize (even_count b)"
      using PositiveDivideL_ge [OF a b mb(2)] False by auto
    note eb = even_count_props [OF okD(2) [OF b]]
    have ebs: "even_count b \<le> 2147483648" using eb(2) okD(4) [OF b] by simp
    note rb = RoundupSize_props [OF ebs]
    have "0 < mag a div mag b" using False mb(3) by (simp add: pos_imp_zdiv_pos_iff)
    then have "mag q \<noteq> 0" using g(5) by (simp add: mag_abs)
    then show thesis
      using that g rb(1) rb(3) [OF okD(2) [OF b] eb(2)] eb(3) okD(1) [OF g(2)] by simp
  qed
  have rpos: "\<not> IsNegative r" "mag r = mag a mod mag b"
    using NotNegative_iff [OF rq(2)] rq(4) mb(3) by (simp_all add: NotNegative_def mag_abs)
  have qpos: "\<not> IsNegative q" "mag q = mag a div mag b"
    using NotNegative_iff [OF okD(1) [OF rq(3)]] rq(5) mb(3)
    by (simp_all add: NotNegative_def mag_abs pos_imp_zdiv_nonneg_iff)
  note nq = Negate_val [OF okD(1) [OF rq(3)]]
  have eq: "mag a = mag q * mag b + mag r" unfolding qpos(2) rpos(2) by simp
  have fin: "ival (if IsNegative b then Negate w else w) * ival b = ival w * mag b" if "wf w" for w
    using Negate_val [OF that] nb mb(1) by simp
  show ?thesis
  proof (cases "IsZero r")
    case True
    then have "mag r = 0" using IsZero_iff [OF rq(2)] by (simp add: mag_abs)
    moreover have "DivideL a b = Some (Ok (r, if IsNegative b then Negate (Negate q) else Negate q))"
      using rq(1) na(1) True by (simp add: DivideL_def Let_def)
    moreover have "ival (Negate q) = - mag q" using nq(2) qpos(1) by (simp add: ival_def)
    ultimately show ?thesis
      using fin [OF nq(1)] eq na(2) mb(3) rpos(1) mb(1) by (simp add: ival_def [of r])
  next
    case False
    have "ival (Negate q) = - mag q" using nq(2) qpos(1) by (simp add: ival_def)
    have "\<exists>w. decrement (Negate q) = Ok w \<and> wf w \<and> ival w = - mag q - 1"
    proof (cases "mag q = 0")
      case True
      have "Negate q = q" using IsZero_iff [OF okD(1) [OF rq(3)]] True by (simp add: Negate_def ival_def)
      then show ?thesis
        using decrement_zero [OF rq(8) [OF True] qpos(1) True] True
        by (simp add: wf_def ival_def mag_def Size_def IsNegative_def)
    next
      case False
      have "ok (Negate q)" using nq rq(3) by (simp add: ok_def)
      moreover have "0 < mag q" using False mag_nonneg [of q] by linarith
      then have "IsNegative (Negate q)" using nq(2) qpos(1) mag_nonneg [of "Negate q"]
        unfolding ival_def by (simp split: if_splits del: mag_nonneg)
      ultimately show ?thesis using decrement_negative [of "Negate q"] nq(2) qpos(1) by (simp add: ival_def)
    qed
    then obtain w where w: "decrement (Negate q) = Ok w" "wf w" "ival w = - mag q - 1" by blast
    obtain S c where S: "Subtract (Reg b) (Reg r) (Size r) = (S, c)" by fastforce
    have le: "Size r \<le> length (Reg b)" "Size r \<le> length (Reg r)" using rq(7) by (simp_all add: Size_def)
    have ev: "even (Size r)" using rq(2) pow2_size_even by (simp add: wf_def)
    have tb: "val (take (Size r) (Reg b)) = mag b" by (rule mag_take [OF rq(6)])
    have tr: "val (take (Size r) (Reg r)) = mag r" by (simp add: Size_def mag_def)
    have rlt: "mag r < mag b" unfolding rpos(2) using mb(3) by simp
    have "uint c = 0" using Subtract_borrow_iff [OF le ev S] tb tr rlt by simp
    then have vS: "val S = mag b - mag r" using Subtract_val(3) [OF le ev S] tb tr by simp
    define r' where "r' = r\<lparr>Reg := S\<rparr>"
    have r': "ival r' = mag b - mag r" using vS rpos(1) by (simp add: r'_def ival_def IsNegative_def mag_def)
    have "DivideL a b = Some (Ok (r', if IsNegative b then Negate w else w))"
      using rq(1,7) na(1) False w(1) S by (simp add: DivideL_def Let_def r'_def)
    moreover have "ival a = ival w * mag b + ival r'"
      unfolding w(3) r' using na(2) eq by (simp add: algebra_simps)
    moreover have "0 \<le> ival r'" "ival r' < \<bar>ival b\<bar>"
    proof -
      have "mag r \<noteq> 0" using False IsZero_iff [OF rq(2)] by (simp add: mag_abs)
      then show "0 \<le> ival r'" "ival r' < \<bar>ival b\<bar>" unfolding r' mb(1) [symmetric] using rlt mag_nonneg [of r] by linarith+
    qed
    ultimately show ?thesis using fin [OF w(2)] by metis
  qed
qed

text \<open>When the divisor does not fit, the remainder is cut off.\<close>

lemma DivideL_negative_cut_off:
  "DivideL \<lparr>Reg = [1, 0], Sign = ENegative\<rparr> \<lparr>Reg = [0, 0, 2, 0], Sign = EPositive\<rparr>
   = Some (Ok (\<lparr>Reg = [0xFFFFFFFF, 0xFFFFFFFF], Sign = EPositive\<rparr>, \<lparr>Reg = [1, 0], Sign = ENegative\<rparr>))"
  by code_simp


text \<open>Every shrinking resize fills words behind the cell: \<open>start\<close> counts bytes, the pointer words.\<close>

lemma CleanResizeL_shrinks:
  assumes "0 < n" "n \<le> 2147483648" "RoundupSize n < Size x"
  shows "CleanResizeL x n = Leave MemoryOverrun"
proof -
  have "RoundupSize n < 4 * n"
  proof -
    consider "n \<le> 8" | "8 < n" "n \<le> 64" | "64 < n" by linarith
    then show ?thesis
    proof cases
      case 3
      then obtain k where k: "RoundupSize n = 2 ^ k" "1 \<le> k" "2 ^ (k - 1) < n"
        using RoundupSize_large assms(2) by blast
      then have "2 ^ k = 2 * (2 :: nat) ^ (k - 1)" by (cases k) simp_all
      then show ?thesis using k by linarith
    next
      case 1
      then show ?thesis using assms(1) by (auto simp: RoundupSize_8)
    next
      case 2
      then show ?thesis by (auto simp: RoundupSize_def)
    qed
  qed
  then show ?thesis using assms(3) by (simp add: CleanResizeL_def Let_def WORD_SIZE_def)
qed

subsection \<open>Byte strings\<close>

fun bval :: "byte list \<Rightarrow> int" where
  "bval [] = 0"
| "bval (b # bs) = uint b + 256 * bval bs"

lemma bval_append: "bval (xs @ ys) = bval xs + 256 ^ length xs * bval ys"
  by (induction xs) (simp_all add: algebra_simps)

lemma bval_nonneg [simp]: "0 \<le> bval xs"
  by (induction xs) simp_all

lemma bval_bound: "bval xs < 256 ^ length xs"
proof (induction xs)
  case (Cons x xs)
  then have "256 * (bval xs + 1) \<le> 256 * 256 ^ length xs" by simp
  then show ?case using uint_byte_bounds [of x] by (simp add: distrib_left)
qed simp

lemma bval_replicate_0 [simp]: "bval (replicate n 0) = 0"
  by (induction n) simp_all

lemma bval_take_drop: "bval L = bval (take n L) + 256 ^ min n (length L) * bval (drop n L)"
  using bval_append [of "take n L" "drop n L"] by (simp add: min.commute)

lemma uint_byte_of_word: "uint (ucast (drop_bit k (w :: tuint)) :: byte) = (uint w div 2 ^ k) mod 256"
  by (simp add: unsigned_ucast_eq take_bit_eq_mod uint_drop_bit_tuint)

lemma bval_word_bytes: "bval (word_bytes w) = uint w"
proof -
  have "uint (ucast w :: byte) = uint w mod 256"
    using uint_byte_of_word [of 0 w] by simp
  then have e: "bval (word_bytes w) = uint w mod 256 + 256 * ((uint w div 256) mod 256
      + 256 * ((uint w div 65536) mod 256 + 256 * ((uint w div 16777216) mod 256)))"
    by (simp add: word_bytes_def uint_byte_of_word)
  define u where "u = uint w"
  define a b c where "a = u div 256" "b = a div 256" "c = b div 256"
  define p q r where "p = u mod 256" "q = a mod 256" "r = b mod 256"
  have d: "u div 65536 = b" "u div 16777216 = c"
    by (simp_all add: a_b_c_def zdiv_zmult2_eq [symmetric])
  have "0 \<le> u" "u < 16777216 * 256" using uint_tuint_bounds [of w] by (simp_all add: u_def)
  then have "0 \<le> c" "c < 256" unfolding d(2) [symmetric]
    by (simp_all add: pos_imp_zdiv_nonneg_iff int_div_less [of 16777216 u 256])
  then have c: "c mod 256 = c" by (simp add: mod_pos_pos_trivial)
  have "u = 256 * a + p" "a = 256 * b + q" "b = 256 * c + r"
    by (simp_all add: a_b_c_def p_q_r_def)
  then have "p + 256 * (q + 256 * (r + 256 * c)) = u" by simp
  then show ?thesis
    using e unfolding u_def [symmetric] d a_b_c_def(1) [symmetric] p_q_r_def [symmetric] c by simp
qed

lemma length_word_bytes [simp]: "length (word_bytes w) = 4"
  by (simp add: word_bytes_def)

lemma reg_bytes_simps [simp]: "reg_bytes [] = []" "reg_bytes (w # ws) = word_bytes w @ reg_bytes ws"
  by (simp_all add: reg_bytes_def)

lemma length_reg_bytes [simp]: "length (reg_bytes R) = 4 * length R"
  by (induction R) simp_all

lemma bval_reg_bytes: "bval (reg_bytes R) = val R"
  by (induction R) (simp_all add: bval_append bval_word_bytes)


lemma uint_bytes_word:
  "uint (ucast (a :: byte) OR push_bit 8 (ucast (b :: byte)) OR push_bit 16 (ucast (c :: byte))
    OR push_bit 24 (ucast (d :: byte)) :: tuint) = uint a + 256 * (uint b + 256 * (uint c + 256 * uint d))"
proof -
  have u: "uint (push_bit k (ucast x :: tuint)) = uint x * 2 ^ k" if "k \<le> 24" for k and x :: byte
  proof -
    have "uint (ucast x :: tuint) = uint x"
      using uint_byte_bounds [of x] by (simp add: unsigned_ucast_eq take_bit_int_eq_self_iff)
    moreover have "uint x * 2 ^ k < 4294967296"
    proof -
      have "(2 :: int) ^ k \<le> 2 ^ 24" using that by (intro power_increasing) simp_all
      then have "uint x * 2 ^ k \<le> 255 * 2 ^ 24" using uint_byte_bounds [of x] by (intro mult_mono) simp_all
      then show ?thesis by simp
    qed
    ultimately show ?thesis by (simp add: uint_push_bit_eq mod_pos_pos_trivial)
  qed
  have u0: "uint (ucast a :: tuint) = uint a" using u [of 0 a] by simp
  have add: "uint (x OR y) = uint x + uint y" if "\<And>n. \<not> (bit x n \<and> bit y n)" "uint x + uint y < 4294967296" for x y :: tuint
  proof -
    have "x OR y = x + y" using that(1) by (intro disjunctive_add [symmetric]) blast
    then show ?thesis using that(2) by (simp add: uint_tuint_arith mod_pos_pos_trivial)
  qed
  note bb = uint_byte_bounds [of a] uint_byte_bounds [of b] uint_byte_bounds [of c] uint_byte_bounds [of d]
  have cd: "uint (push_bit 16 (ucast c) OR push_bit 24 (ucast d) :: tuint) = uint c * 65536 + uint d * 16777216"
    by (subst add) (use bb in \<open>auto simp: u bit_simps dest: bit_imp_le_length\<close>)
  have bcd: "uint (push_bit 8 (ucast b) OR push_bit 16 (ucast c) OR push_bit 24 (ucast d) :: tuint)
      = uint b * 256 + (uint c * 65536 + uint d * 16777216)"
    by (subst add) (use bb in \<open>auto simp: u cd bit_simps dest: bit_imp_le_length\<close>)
  show ?thesis
    by (subst add) (use bb in \<open>auto simp: u0 bcd bit_simps dest: bit_imp_le_length\<close>)
qed

lemma bytes_reg_val: "4 dvd length bs \<Longrightarrow> val (bytes_reg bs) = bval bs \<and> 4 * length (bytes_reg bs) = length bs"
proof (induction bs rule: bytes_reg.induct)
  case (1 a b c d bs)
  have "4 dvd length bs" using "1.prems" unfolding length_Cons by presburger
  then show ?case using "1.IH" by (simp add: uint_bytes_word)
qed (auto dest: dvd_imp_le)

lemma BytePrecision_bounds:
  assumes "w \<noteq> 0"
  shows "1 \<le> BytePrecision w" and "BytePrecision w \<le> 4"
    and "256 ^ (BytePrecision w - 1) \<le> uint w" and "uint w < 256 ^ BytePrecision w"
proof -
  have u: "1 \<le> uint w" using assms by (rule uint_ge_1)
  have cmp: "w < 0x10000 \<longleftrightarrow> uint w < 65536" "w < 0x1000000 \<longleftrightarrow> uint w < 16777216"
    by (simp_all add: word_less_def)
  have "1 \<le> BytePrecision w \<and> BytePrecision w \<le> 4 \<and> 256 ^ (BytePrecision w - 1) \<le> uint w \<and> uint w < 256 ^ BytePrecision w"
  proof (cases "uint w < 65536")
    case True
    have p: "uint (push_bit 16 w) = uint w * 65536"
      using True by (simp add: uint_push_bit_eq mod_pos_pos_trivial)
    then have nz: "push_bit 16 w \<noteq> 0" using u by auto
    have lt: "push_bit 16 w < 0x1000000 \<longleftrightarrow> uint w < 256" by (simp add: word_less_def p)
    show ?thesis
      using True u cmp nz lt by (simp add: BytePrecision_def)
  next
    case False
    then show ?thesis
      using u cmp uint_tuint_bounds [of w] assms by (simp add: BytePrecision_def)
  qed
  then show "1 \<le> BytePrecision w" and "BytePrecision w \<le> 4"
    and "256 ^ (BytePrecision w - 1) \<le> uint w" and "uint w < 256 ^ BytePrecision w" by simp_all
qed

lemma base_bytes: "base n = 256 ^ (4 * n)"
  by (simp add: base_def power_mult)

lemma mag_bytes: "mag x < 256 ^ ByteCount x" "mag x \<noteq> 0 \<Longrightarrow> 0 < ByteCount x \<and> 256 ^ (ByteCount x - 1) \<le> mag x"
  "ByteCount x \<le> 4 * Size x"
proof -
  have "mag x < 256 ^ ByteCount x \<and> (mag x \<noteq> 0 \<longrightarrow> 0 < ByteCount x \<and> 256 ^ (ByteCount x - 1) \<le> mag x) \<and> ByteCount x \<le> 4 * Size x"
  proof (cases "WordCount x = 0")
    case True
    then show ?thesis using WordCount_0_iff [of x] by (simp add: ByteCount_def)
  next
    case False
    let ?w = "WordCount x" and ?t = "Reg x ! (WordCount x - 1)"
    have top: "?t \<noteq> 0"
      using CountWords_top(1) [of "Size x" "Reg x"] False by (simp add: WordCount_def Size_def)
    note bp = BytePrecision_bounds [OF top]
    have bc: "ByteCount x = 4 * (?w - 1) + BytePrecision ?t"
      using False by (simp add: ByteCount_def Let_def WORD_SIZE_def mult.commute)
    have v: "mag x = val (take (?w - 1) (Reg x)) + base (?w - 1) * uint ?t"
    proof -
      have "take ?w (Reg x) = take (?w - 1) (Reg x) @ [?t]"
        using False WordCount_le [of x] by (metis Size_def Suc_pred' less_le_trans lessI neq0_conv take_Suc_conv_app_nth)
      moreover have "length (take (?w - 1) (Reg x)) = ?w - 1" using WordCount_le [of x] by (simp add: Size_def)
      ultimately show ?thesis using mag_WordCount [of x] val_append [of "take (?w - 1) (Reg x)" "[?t]"] by simp
    qed
    have lo: "val (take (?w - 1) (Reg x)) < base (?w - 1)"
      by (rule val_bound_eq) (use WordCount_le [of x] in \<open>simp add: Size_def\<close>)
    have "base (?w - 1) * (uint ?t + 1) \<le> base (?w - 1) * 256 ^ BytePrecision ?t"
      using bp(4) by (intro mult_left_mono) simp_all
    then have up: "mag x < 256 ^ ByteCount x"
      using v lo by (simp add: bc power_add base_bytes distrib_left)
    have "base (?w - 1) * 256 ^ (BytePrecision ?t - 1) \<le> base (?w - 1) * uint ?t"
      using bp(3) by (intro mult_left_mono) simp_all
    moreover have "256 ^ (ByteCount x - 1) = base (?w - 1) * 256 ^ (BytePrecision ?t - 1)"
      unfolding base_bytes power_add [symmetric] bc using bp(1) by simp
    ultimately have "256 ^ (ByteCount x - 1) \<le> mag x" using v val_nonneg [of "take (?w - 1) (Reg x)"] by linarith
    moreover have "ByteCount x \<le> 4 * Size x" using bc bp(2) WordCount_le [of x] False by linarith
    ultimately show ?thesis using up bc bp(1) by simp
  qed
  then show "mag x < 256 ^ ByteCount x" "mag x \<noteq> 0 \<Longrightarrow> 0 < ByteCount x \<and> 256 ^ (ByteCount x - 1) \<le> mag x"
    "ByteCount x \<le> 4 * Size x" by simp_all
qed

end
