(* ===== verification/IntegerLaws.thy ===== *)
theory IntegerLaws
  imports BigInt
begin

section \<open>What the big integers promise\<close>

text \<open>
  The properties of \<open>TInteger\<close> seen from outside: the ring operations, the order, shifts,
  division with remainder and the exchange format of byte strings, all stated on the value
  \<open>ival\<close> of well formed operands, and the places where the code departs from it.
\<close>

subsection \<open>Byte strings and numbers\<close>

lemma take_reg_bytes: "bval (take (ByteCount x) (reg_bytes (Reg x))) = mag x"
proof -
  let ?n = "ByteCount x" and ?L = "reg_bytes (Reg x)"
  have len: "?n \<le> length ?L" using mag_bytes(3) [of x] by (simp add: Size_def)
  have v: "bval ?L = mag x" by (simp add: bval_reg_bytes mag_def)
  have s: "mag x = bval (take ?n ?L) + 256 ^ ?n * bval (drop ?n ?L)"
    using bval_take_drop [of ?L ?n] v len by (simp add: min_def)
  have "bval (drop ?n ?L) = 0"
  proof (rule ccontr)
    assume "bval (drop ?n ?L) \<noteq> 0"
    then have "1 \<le> bval (drop ?n ?L)" using bval_nonneg [of "drop ?n ?L"] by linarith
    then have "256 ^ ?n * 1 \<le> 256 ^ ?n * bval (drop ?n ?L)" by (intro mult_left_mono) simp_all
    then show False using s mag_bytes(1) [of x] bval_nonneg [of "take ?n ?L"] by linarith
  qed
  then show ?thesis using s by simp
qed

lemma BufferLC_val:
  assumes "\<not> IsNegative x"
  shows "\<exists>bs. BufferLC x = Ok bs \<and> bval (rev bs) = mag x \<and> length bs = ByteCount x"
  using assms take_reg_bytes [of x] mag_bytes(3) [of x] by (simp add: BufferLC_def Size_def)

lemma Size_CleanNewL: "Size (CleanNewL n) = RoundupSize n"
  by (simp add: CleanNewL_def Size_def)

lemma NewBytesL_val:
  assumes "length bs \<le> 4294967296"
  shows "wf (NewBytesL bs)" and "ival (NewBytesL bs) = bval (rev bs)"
    and "Size (NewBytesL bs) = RoundupSize (BytesToWords (length bs))"
proof -
  let ?n = "BytesToWords (length bs)"
  have n: "?n \<le> 2147483648" "length bs \<le> 4 * ?n"
    using assms by (simp_all add: BytesToWords_def WORD_SIZE_def)
  note r = RoundupSize_props(1,2) [OF n(1)]
  let ?P = "rev bs @ replicate (4 * RoundupSize ?n - length bs) 0"
  have len: "length ?P = 4 * RoundupSize ?n" using n(2) r(1) by simp
  then have p: "val (bytes_reg ?P) = bval ?P \<and> 4 * length (bytes_reg ?P) = length ?P"
    by (intro bytes_reg_val) simp
  have reg: "Reg (NewBytesL bs) = bytes_reg ?P" "\<not> IsNegative (NewBytesL bs)"
    by (simp_all add: NewBytesL_def ConstructBytes_def Size_CleanNewL WORD_SIZE_def IsNegative_def)
  then show "Size (NewBytesL bs) = RoundupSize ?n" using p len by (simp add: Size_def)
  then show "wf (NewBytesL bs)" using r reg by (simp add: wf_def)
  show "ival (NewBytesL bs) = bval (rev bs)"
    using reg p by (simp add: ival_def mag_def bval_append)
qed

lemma bval_inject: "length xs = length ys \<Longrightarrow> bval xs = bval ys \<Longrightarrow> xs = ys"
proof (induction xs ys rule: list_induct2)
  case (Cons x xs y ys)
  have "uint w = bval (w # ws) mod 256" for w ws
    using uint_byte_bounds [of w] by (simp add: mod_pos_pos_trivial)
  then have "uint x = uint y" using Cons.prems by metis
  moreover from this Cons.prems have "bval xs = bval ys" by simp
  ultimately show ?case using Cons.IH by (simp add: word_uint_eq_iff)
qed simp

lemma BufferLC_leading:
  assumes "\<not> IsNegative x" and "BufferLC x = Ok bs" and "bs \<noteq> []"
  shows "hd bs \<noteq> 0"
proof
  assume z: "hd bs = 0"
  have v: "bval (rev bs) = mag x" "length bs = ByteCount x" using BufferLC_val [OF assms(1)] assms(2) by auto
  obtain b cs where cs: "bs = b # cs" using assms(3) by (cases bs) simp_all
  have small: "mag x < 256 ^ (ByteCount x - 1)"
    using v(1) z bval_bound [of "rev cs"] v(2) [symmetric] by (simp add: cs bval_append)
  then show False
    using mag_bytes(2) [of x] v(2) cs by (cases "mag x = 0") (auto simp: ByteCount_def WordCount_0_iff [THEN iffD2])
qed

text \<open>
  C10: exporting a non-negative integer with \<open>BufferLC\<close> and reading the bytes back with
  \<open>RInteger::NewL\<close> gives an integer of the same value, whatever the two word counts, and
  the exported string has no leading zero byte.
\<close>

theorem BufferLC_NewBytesL_roundtrip:
  assumes "ok x" and "\<not> IsNegative x"
  shows "\<exists>bs. BufferLC x = Ok bs \<and> wf (NewBytesL bs) \<and> ival (NewBytesL bs) = ival x \<and>
    (bs \<noteq> [] \<longrightarrow> hd bs \<noteq> 0)"
proof -
  obtain bs where bs: "BufferLC x = Ok bs" "bval (rev bs) = mag x" "length bs = ByteCount x"
    using BufferLC_val [OF assms(2)] by blast
  have "length bs \<le> 4294967296"
    using bs(3) mag_bytes(3) [of x] assms(1) by (simp add: ok_def max_size_def)
  note v = NewBytesL_val [OF this]
  have "hd bs \<noteq> 0" if "bs \<noteq> []" using BufferLC_leading [OF assms(2) bs(1) that] .
  then show ?thesis using bs v(1,2) assms(2) by (auto simp: ival_def)
qed

theorem BufferLC_NewBytesL_roundtrip_witness:
  "\<exists>bs. BufferLC \<lparr>Reg = [0x04030201, 5], Sign = EPositive\<rparr> = Ok bs \<and> wf (NewBytesL bs) \<and>
    ival (NewBytesL bs) = ival \<lparr>Reg = [0x04030201, 5], Sign = EPositive\<rparr> \<and> (bs \<noteq> [] \<longrightarrow> hd bs \<noteq> 0)"
  by (rule BufferLC_NewBytesL_roundtrip)
    (simp_all add: ok_def wf_def Size_def IsNegative_def max_size_def pow2_size_Suc_Suc [simplified])


subsection \<open>Arithmetic\<close>

text \<open>
  C7: \<open>PlusL\<close>, \<open>MinusL\<close> and \<open>TimesL\<close> compute sum, difference and product of signed
  integers, for all operand sizes and signs, and return well formed integers (no negative
  zero, a power of two of words).
\<close>

theorem ring_operations:
  assumes "ok a" and "ok b"
  shows "wf (PlusL a b) \<and> ival (PlusL a b) = ival a + ival b \<and>
    wf (MinusL a b) \<and> ival (MinusL a b) = ival a - ival b \<and>
    wf (TimesL False a b) \<and> ival (TimesL False a b) = ival a * ival b \<and>
    wf (TimesL True a a) \<and> ival (TimesL True a a) = (ival a)\<^sup>2"
  using PlusL_val [OF assms] MinusL_val [OF assms] TimesL_val [OF assms, of False]
    TimesL_val [OF assms(1) assms(1), of True] by (simp add: power2_eq_square)

text \<open>Concrete operands for the instances below.\<close>

lemma ok_two_words:
  "s = EPositive \<or> a \<noteq> 0 \<or> b \<noteq> 0 \<Longrightarrow> ok \<lparr>Reg = [a, b], Sign = s\<rparr>"
  by (auto simp: ok_def wf_def Size_def IsNegative_def max_size_def mag_def add_nonneg_eq_0_iff
      word_uint_eq_iff)

theorem ring_operations_witness:
  "ival (PlusL \<lparr>Reg = [0xFFFFFFFF, 0xFFFFFFFF], Sign = EPositive\<rparr> \<lparr>Reg = [1, 0], Sign = EPositive\<rparr>)
   = 18446744073709551616"
  using ring_operations [OF ok_two_words [of EPositive "0xFFFFFFFF" "0xFFFFFFFF"] ok_two_words [of EPositive 1 0]]
  by (simp add: ival_def IsNegative_def mag_def)

text \<open>
  C8: dividing a non-negative integer by any non-zero integer returns, and gives the
  remainder in \<open>[0, |b|)\<close> and the quotient of the Euclidean division.
\<close>

theorem DivideL_correct:
  assumes "ok a" "ok b" "ival b \<noteq> 0" "0 \<le> ival a"
  shows "\<exists>r q. DivideL a b = Some (Ok (r, q)) \<and> wf r \<and> wf q \<and>
    ival a = ival q * ival b + ival r \<and> 0 \<le> ival r \<and> ival r < \<bar>ival b\<bar>"
proof -
  obtain r q where rq: "DivideL a b = Some (Ok (r, q))" "wf r" "wf q" "ival r = ival a mod \<bar>ival b\<bar>"
      "ival q = sgn (ival b) * (ival a div \<bar>ival b\<bar>)"
    using DivideL_nonneg [OF assms] by blast
  have "sgn (ival b) * (ival a div \<bar>ival b\<bar>) * ival b = \<bar>ival b\<bar> * (ival a div \<bar>ival b\<bar>)"
    by (metis abs_sgn mult.assoc mult.commute)
  then have "ival a = ival q * ival b + ival r"
    unfolding rq(4,5) using mult_div_mod_eq [of "\<bar>ival b\<bar>" "ival a"] by linarith
  then show ?thesis using rq assms(3) by auto
qed

theorem DivideL_correct_witness:
  "\<exists>r q. DivideL \<lparr>Reg = [17, 0], Sign = EPositive\<rparr> \<lparr>Reg = [5, 0], Sign = ENegative\<rparr> = Some (Ok (r, q)) \<and>
     wf r \<and> wf q \<and> 17 = ival q * - 5 + ival r \<and> 0 \<le> ival r \<and> ival r < 5"
proof -
  have a: "ival \<lparr>Reg = [17, 0], Sign = EPositive\<rparr> = 17" "ival \<lparr>Reg = [5, 0], Sign = ENegative\<rparr> = - 5"
    by (simp_all add: ival_def IsNegative_def mag_def)
  show ?thesis
    using DivideL_correct [OF ok_two_words [of EPositive 17 0] ok_two_words [of ENegative 5 0]] by (simp add: a)
qed

text \<open>Division by zero leaves with the error code, whatever the dividend.\<close>

lemma DivideL_by_zero: "mag b = 0 \<Longrightarrow> DivideL a b = Some (Leave KErrDivideByZero)"
  by (simp add: DivideL_def PositiveDivideL_zero)

text \<open>
  C9: a negative dividend whose magnitude reaches the divisor's is divided with floor
  rounding: the remainder is corrected into \<open>[0, |b|)\<close> and the quotient decremented.
\<close>

theorem DivideL_floor:
  assumes "ok a" "ok b" "ival b \<noteq> 0" "ival a < 0" "\<bar>ival b\<bar> \<le> \<bar>ival a\<bar>"
  shows "\<exists>r q. DivideL a b = Some (Ok (r, q)) \<and> ival a = ival q * ival b + ival r \<and>
    0 \<le> ival r \<and> ival r < \<bar>ival b\<bar>"
  using DivideL_negative [OF assms(1-4)] assms(5) by (simp add: mag_abs)

theorem DivideL_floor_witness:
  "\<exists>r q. DivideL \<lparr>Reg = [17, 0], Sign = ENegative\<rparr> \<lparr>Reg = [5, 0], Sign = EPositive\<rparr> = Some (Ok (r, q)) \<and>
     - 17 = ival q * 5 + ival r \<and> 0 \<le> ival r \<and> ival r < 5"
proof -
  have a: "ival \<lparr>Reg = [17, 0], Sign = ENegative\<rparr> = - 17" "ival \<lparr>Reg = [5, 0], Sign = EPositive\<rparr> = 5"
    by (simp_all add: ival_def IsNegative_def mag_def)
  show ?thesis
    using DivideL_floor [OF ok_two_words [of ENegative 17 0] ok_two_words [of EPositive 5 0]] by (simp add: a)
qed



text \<open>
  C12: \<open>SignedCompare\<close> is the order of the integers, for operands of any word counts.
\<close>

theorem SignedCompare_order:
  assumes "wf x" and "wf y"
  shows "(SignedCompare x y = 0 \<longleftrightarrow> ival x = ival y) \<and> (SignedCompare x y < 0 \<longleftrightarrow> ival x < ival y) \<and>
    SignedCompare y x = - SignedCompare x y"
  unfolding SignedCompare_val [OF assms] SignedCompare_val [OF assms(2) assms(1)]
  by (auto simp: sgn_if)

theorem SignedCompare_order_witness:
  "SignedCompare \<lparr>Reg = [1, 0], Sign = ENegative\<rparr> \<lparr>Reg = [0, 0], Sign = EPositive\<rparr> < 0"
  using SignedCompare_order [of "\<lparr>Reg = [1, 0], Sign = ENegative\<rparr>" "\<lparr>Reg = [0, 0], Sign = EPositive\<rparr>"]
    ok_two_words [of ENegative 1 0] ok_two_words [of EPositive 0 0]
  by (simp add: ok_def ival_def IsNegative_def mag_def)

subsection \<open>Machine integers as operands\<close>

text \<open>
  C13: the operators with a \<open>TInt\<close> operand read it as unsigned: adding \<open>-1\<close> adds \<open>2\<^sup>32 - 1\<close>, and
  every integer compares below the machine integer \<open>-1\<close> when its value is below \<open>2\<^sup>32 - 1\<close>.
\<close>

theorem int_operand_unsigned:
  assumes "ok x" and "sint a < 0"
  shows "ival (plus_assign_int x a) = ival x + sint a + 4294967296 \<and>
    ival (minus_assign_int x a) = ival x - sint a - 4294967296 \<and>
    SignedCompareInt x a = sgn (ival x - sint a - 4294967296)"
proof -
  have s: "uint a = sint a + 4294967296"
    using assms(2) mod_wrap_low [of 4294967296 "sint a"] sint_greater_eq [of a]
    by (simp add: uint_sint take_bit_eq_mod)
  have t: "ok (TStackInteger64 a)" "ival (TStackInteger64 a) = uint a"
    by (simp_all add: TStackInteger64_def ok_two_words ival_def IsNegative_def mag_def)
  show ?thesis
    using PlusL_val(2) [OF assms(1) t(1)] MinusL_val(2) [OF assms(1) t(1)]
      SignedCompare_val [OF okD(1) [OF assms(1)] okD(1) [OF t(1)]]
    by (simp add: plus_assign_int_def minus_assign_int_def SignedCompareInt_def t(2) s algebra_simps)
qed

theorem int_operand_unsigned_witness:
  "ival (plus_assign_int \<lparr>Reg = [5, 0], Sign = EPositive\<rparr> (- 1)) = 4 + 4294967296"
  using int_operand_unsigned [OF ok_two_words [of EPositive 5 0], of "- 1"]
  by (simp add: ival_def IsNegative_def mag_def)

end
