(* ===== verification/Inlines.thy ===== *)
theory Inlines
  imports Prelude
begin

section \<open>Byte order, rotations and masks (\<open>source/common/inlines.h\<close>)\<close>

text \<open>
  The helpers shared by the ciphers and the digests: rotations of words of any width, words
  read from and written to byte blocks in either order, and exclusive or of buffers.  A
  block is the list of its bytes; the offset arguments stand for the pointer arithmetic of
  the callers.  The collection \<open>block_simps\<close> holds the round trips.
\<close>

named_theorems block_simps

subsection \<open>Rotations\<close>

definition rotlFixed :: "'a :: len word \<Rightarrow> nat \<Rightarrow> 'a word" where
  "rotlFixed x y = push_bit y x OR drop_bit (LENGTH('a) - y) x"

definition rotrFixed :: "'a :: len word \<Rightarrow> nat \<Rightarrow> 'a word" where
  "rotrFixed x y = drop_bit y x OR push_bit (LENGTH('a) - y) x"

lemma bit_rotlFixed:
  "bit (rotlFixed (x :: 'a :: len word) y) i \<longleftrightarrow>
     i < LENGTH('a) \<and> (if y \<le> i then bit x (i - y) else bit x (LENGTH('a) - y + i))"
  by (auto simp: rotlFixed_def bit_simps not_le dest: bit_imp_le_length)

lemma bit_rotrFixed:
  "y < LENGTH('a) \<Longrightarrow> bit (rotrFixed (x :: 'a :: len word) y) i \<longleftrightarrow>
     i < LENGTH('a) \<and> (if y + i < LENGTH('a) then bit x (y + i) else bit x (y + i - LENGTH('a)))"
  by (auto simp: rotrFixed_def bit_simps not_less add.commute [of i y] dest: bit_imp_le_length)

lemma rotr_rotl [block_simps]: "0 < y \<Longrightarrow> y < LENGTH('a) \<Longrightarrow> rotrFixed (rotlFixed (x :: 'a :: len word) y) y = x"
  by (rule bit_word_eqI) (auto simp: bit_rotrFixed bit_rotlFixed)

lemma rotl_rotr [block_simps]: "0 < y \<Longrightarrow> y < LENGTH('a) \<Longrightarrow> rotlFixed (rotrFixed (x :: 'a :: len word) y) y = x"
  by (rule bit_word_eqI) (auto simp: bit_rotrFixed bit_rotlFixed)

definition byteReverse :: "32 word \<Rightarrow> 32 word" where
  "byteReverse v =
     rotlFixed (drop_bit 8 (v AND 0xFF00FF00) OR push_bit 8 (v AND 0x00FF00FF)) 16"

subsection \<open>Words in byte blocks\<close>

text \<open>Sixteen bit words, least significant byte first.\<close>

definition GetBlockLittleEndian :: "byte list \<Rightarrow> 16 word \<times> 16 word \<times> 16 word \<times> 16 word" where
  "GetBlockLittleEndian b =
     (ucast (b ! 0) OR push_bit 8 (ucast (b ! 1)), ucast (b ! 2) OR push_bit 8 (ucast (b ! 3)),
      ucast (b ! 4) OR push_bit 8 (ucast (b ! 5)), ucast (b ! 6) OR push_bit 8 (ucast (b ! 7)))"

definition PutBlockLittleEndian :: "16 word \<times> 16 word \<times> 16 word \<times> 16 word \<Rightarrow> byte list" where
  "PutBlockLittleEndian = (\<lambda>(a, b, c, d).
     [ucast (a AND 0xFF), ucast (drop_bit 8 a), ucast (b AND 0xFF), ucast (drop_bit 8 b),
      ucast (c AND 0xFF), ucast (drop_bit 8 c), ucast (d AND 0xFF), ucast (drop_bit 8 d)])"

text \<open>Thirty-two bit words, most significant byte first.\<close>

definition GetWordBigEndian :: "byte list \<Rightarrow> 32 word" where
  "GetWordBigEndian b =
     push_bit 24 (ucast (b ! 0)) OR push_bit 16 (ucast (b ! 1)) OR push_bit 8 (ucast (b ! 2)) OR ucast (b ! 3)"

definition PutWordBigEndian :: "32 word \<Rightarrow> byte list" where
  "PutWordBigEndian a =
     [ucast (drop_bit 24 a), ucast (drop_bit 16 a AND 0xFF), ucast (drop_bit 8 a AND 0xFF), ucast (a AND 0xFF)]"

definition GetBlockBigEndian :: "byte list \<Rightarrow> 32 word \<times> 32 word" where
  "GetBlockBigEndian b = (GetWordBigEndian b, GetWordBigEndian (drop 4 b))"

definition PutBlockBigEndian :: "32 word \<times> 32 word \<Rightarrow> byte list" where
  "PutBlockBigEndian = (\<lambda>(a, b). PutWordBigEndian a @ PutWordBigEndian b)"

definition GetBlockBigEndian4 :: "byte list \<Rightarrow> 32 word \<times> 32 word \<times> 32 word \<times> 32 word" where
  "GetBlockBigEndian4 b =
     (GetWordBigEndian b, GetWordBigEndian (drop 4 b), GetWordBigEndian (drop 8 b), GetWordBigEndian (drop 12 b))"

definition PutBlockBigEndian4 :: "32 word \<times> 32 word \<times> 32 word \<times> 32 word \<Rightarrow> byte list" where
  "PutBlockBigEndian4 = (\<lambda>(a, b, c, d).
     PutWordBigEndian a @ PutWordBigEndian b @ PutWordBigEndian c @ PutWordBigEndian d)"

text \<open>\<open>GETBYTE\<close> on a little endian machine.\<close>

definition GETBYTE :: "32 word \<Rightarrow> nat \<Rightarrow> byte" where
  "GETBYTE x y = ucast (drop_bit (8 * y) x)"

lemma and_FF: "(a :: 'a :: len word) AND 0xFF = take_bit 8 a"
  by (simp add: take_bit_eq_mask mask_eq_exp_minus_1)

lemma ucast_and_FF: "(ucast ((a :: 'a :: len word) AND 0xFF) :: byte) = ucast a"
  by (rule bit_word_eqI) (auto simp: and_FF bit_simps)

lemma list_of_length_4: "length b = 4 \<Longrightarrow> b = [b ! 0, b ! 1, b ! 2, b ! 3]"
  by (rule nth_equalityI) (auto simp: less_Suc_eq numeral_eq_Suc)

lemma list_of_length_8:
  "length b = 8 \<Longrightarrow> b = [b ! 0, b ! 1, b ! 2, b ! 3, b ! 4, b ! 5, b ! 6, b ! 7]"
  by (rule nth_equalityI) (auto simp: less_Suc_eq numeral_eq_Suc)

lemma byte_pair [block_simps]:
  "ucast (ucast (l :: byte) OR push_bit 8 (ucast (h :: byte)) :: 16 word) = l"
  "ucast (drop_bit 8 (ucast (l :: byte) OR push_bit 8 (ucast (h :: byte)) :: 16 word)) = h"
  by (rule bit_word_eqI, auto simp: bit_simps dest: bit_imp_le_length)+

lemma pair_bytes [block_simps]:
  "(ucast (ucast a :: byte) OR push_bit 8 (ucast (ucast (drop_bit 8 a) :: byte)) :: 16 word) = a"
  by (rule bit_word_eqI) (auto simp: bit_simps)

lemma Put_Get_LittleEndian [block_simps]:
  assumes "length b = 8"
  shows "PutBlockLittleEndian (GetBlockLittleEndian b) = b"
proof -
  have "PutBlockLittleEndian (GetBlockLittleEndian b) =
      [b ! 0, b ! 1, b ! 2, b ! 3, b ! 4, b ! 5, b ! 6, b ! 7]"
    by (simp add: GetBlockLittleEndian_def PutBlockLittleEndian_def ucast_and_FF byte_pair del: drop_bit_or)
  then show ?thesis using list_of_length_8 [OF assms] by simp
qed

lemma Get_Put_LittleEndian [block_simps]: "GetBlockLittleEndian (PutBlockLittleEndian w) = w"
  by (cases w) (simp add: GetBlockLittleEndian_def PutBlockLittleEndian_def ucast_and_FF pair_bytes)

lemma length_PutBlockLittleEndian [simp]: "length (PutBlockLittleEndian w) = 8"
  by (cases w) (simp add: PutBlockLittleEndian_def)

lemma quad_bytes [block_simps]:
  "(push_bit 24 (ucast (ucast (drop_bit 24 a) :: byte)) OR push_bit 16 (ucast (ucast (drop_bit 16 a) :: byte))
    OR push_bit 8 (ucast (ucast (drop_bit 8 a) :: byte)) OR ucast (ucast a :: byte) :: 32 word) = a"
proof (rule bit_word_eqI)
  fix n assume "n < LENGTH(32)"
  then show "bit (push_bit 24 (ucast (ucast (drop_bit 24 a) :: byte)) OR push_bit 16 (ucast (ucast (drop_bit 16 a) :: byte))
    OR push_bit 8 (ucast (ucast (drop_bit 8 a) :: byte)) OR ucast (ucast a :: byte) :: 32 word) n \<longleftrightarrow> bit a n"
    by (cases "n < 8"; cases "n < 16"; cases "n < 24") (auto simp: bit_simps)
qed

lemma byte_quad [block_simps]:
  fixes p q r s :: byte
  defines "w \<equiv> (push_bit 24 (ucast p) OR push_bit 16 (ucast q) OR push_bit 8 (ucast r) OR ucast s :: 32 word)"
  shows "ucast (drop_bit 24 w) = p" "ucast (drop_bit 16 w) = q" "ucast (drop_bit 8 w) = r" "ucast w = s"
  unfolding w_def by (rule bit_word_eqI, auto simp: bit_simps dest: bit_imp_le_length)+

lemma Put_Get_WordBigEndian:
  assumes "4 \<le> length b"
  shows "PutWordBigEndian (GetWordBigEndian b) = take 4 b"
proof -
  have "take 4 b = [b ! 0, b ! 1, b ! 2, b ! 3]"
    using list_of_length_4 [of "take 4 b"] assms by simp
  then show ?thesis
    by (simp add: PutWordBigEndian_def GetWordBigEndian_def ucast_and_FF byte_quad del: drop_bit_or)
qed

lemma Get_Put_WordBigEndian [block_simps]: "GetWordBigEndian (PutWordBigEndian w @ bs) = w"
  by (simp add: GetWordBigEndian_def PutWordBigEndian_def ucast_and_FF quad_bytes)

lemma length_PutWordBigEndian [simp]: "length (PutWordBigEndian w) = 4"
  by (simp add: PutWordBigEndian_def)

lemma length_PutBlockBigEndian [simp]: "length (PutBlockBigEndian w) = 8" "length (PutBlockBigEndian4 v) = 16"
  by (cases w, simp add: PutBlockBigEndian_def) (cases v, simp add: PutBlockBigEndian4_def)

lemma Get_Put_BigEndian [block_simps]: "GetBlockBigEndian (PutBlockBigEndian w) = w"
  using Get_Put_WordBigEndian [of _ "[]"]
  by (cases w) (simp add: GetBlockBigEndian_def PutBlockBigEndian_def block_simps)

lemma Get_Put_BigEndian4 [block_simps]: "GetBlockBigEndian4 (PutBlockBigEndian4 w) = w"
  using Get_Put_WordBigEndian [of _ "[]"]
  by (cases w) (simp add: GetBlockBigEndian4_def PutBlockBigEndian4_def block_simps)

lemma Put_Get_BigEndian [block_simps]: "length b = 8 \<Longrightarrow> PutBlockBigEndian (GetBlockBigEndian b) = b"
  by (simp add: GetBlockBigEndian_def PutBlockBigEndian_def Put_Get_WordBigEndian)

lemma Put_Get_BigEndian4 [block_simps]:
  assumes "length b = 16"
  shows "PutBlockBigEndian4 (GetBlockBigEndian4 b) = b"
proof -
  have "take 4 (drop (n - 4) b) @ drop n b = drop (n - 4) b" if "4 \<le> n" for n
    by (rule trans [OF _ append_take_drop_id [of 4 "drop (n - 4) b"]]) (use \<open>4 \<le> n\<close> in simp)
  from this [of 4] this [of 8] this [of 12]
  show ?thesis
    using assms by (simp add: GetBlockBigEndian4_def PutBlockBigEndian4_def Put_Get_WordBigEndian)
qed

subsection \<open>Exchanging entries\<close>

text \<open>\<open>TClassSwap\<close> on two cells of an array.\<close>

definition swap_entries :: "nat \<Rightarrow> nat \<Rightarrow> 'a list \<Rightarrow> 'a list" where
  "swap_entries i j xs = xs[i := xs ! j, j := xs ! i]"

lemma length_swap_entries [simp]: "length (swap_entries i j xs) = length xs"
  by (simp add: swap_entries_def)

lemma swap_entries_nth:
  "i < length xs \<Longrightarrow> j < length xs \<Longrightarrow>
    swap_entries i j xs ! k = (if k = j then xs ! i else if k = i then xs ! j else xs ! k)"
  by (simp add: swap_entries_def nth_list_update)

subsection \<open>Exclusive or of buffers\<close>

text \<open>\<open>XorBuf\<close> works word by word on aligned buffers; the bytes it leaves are the same.\<close>

definition XorBuf :: "byte list \<Rightarrow> byte list \<Rightarrow> byte list" where
  "XorBuf buf msk = map2 (\<lambda>a b. a XOR b) buf msk"

lemma length_XorBuf [simp]: "length (XorBuf a b) = min (length a) (length b)"
  by (simp add: XorBuf_def)

lemma XorBuf_cancel [block_simps]: "length a = length b \<Longrightarrow> XorBuf (XorBuf a b) b = a"
  unfolding XorBuf_def by (induction a b rule: list_induct2) (simp_all add: xor.assoc)

lemma XorBuf_commute: "length a = length b \<Longrightarrow> XorBuf a b = XorBuf b a"
  unfolding XorBuf_def by (induction a b rule: list_induct2) (simp_all add: xor.commute)

end
