(* ===== verification/Descriptors.thy ===== *)
theory Descriptors
  imports Inlines
begin

section \<open>Modifiable descriptors\<close>

text \<open>
  A modifiable descriptor (\<open>TDes8\<close>) is a window on memory with a maximal and a current
  length: \<open>Buf\<close> is the memory it may write, \<open>Len\<close> its current length and
  \<open>Data\<close> the bytes in use.  \<open>SetLength\<close> exposes whatever the memory holds;
  exceeding the maximal length and indexing outside the current length panic (\<open>USER 23\<close> and
  \<open>USER 21\<close>), as the descriptor classes of the platform do.
\<close>

record TDes8 =
  Buf :: "byte list"
  Len :: nat

definition MaxLength :: "TDes8 \<Rightarrow> nat" where "MaxLength d = length (Buf d)"

definition Data :: "TDes8 \<Rightarrow> byte list" where "Data d = take (Len d) (Buf d)"

definition des_ok :: "TDes8 \<Rightarrow> bool" where "des_ok d \<longleftrightarrow> Len d \<le> MaxLength d"

abbreviation ETDes8Overflow :: leave where "ETDes8Overflow \<equiv> Panic 23"
abbreviation ETDes8IndexOutOfRange :: leave where "ETDes8IndexOutOfRange \<equiv> Panic 21"

definition Append :: "TDes8 \<Rightarrow> byte list \<Rightarrow> TDes8 result" where
  "Append d xs =
     (if Len d + length xs > MaxLength d then Leave ETDes8Overflow
      else Ok \<lparr>Buf = take (Len d) (Buf d) @ xs @ drop (Len d + length xs) (Buf d), Len = Len d + length xs\<rparr>)"

definition SetLength :: "TDes8 \<Rightarrow> nat \<Rightarrow> TDes8 result" where
  "SetLength d n = (if n > MaxLength d then Leave ETDes8Overflow else Ok (d\<lparr>Len := n\<rparr>))"

definition write_byte :: "TDes8 \<Rightarrow> int \<Rightarrow> byte \<Rightarrow> TDes8 result" where
  "write_byte d i b =
     (if 0 \<le> i \<and> i < int (Len d) then Ok (d\<lparr>Buf := (Buf d)[nat i := b]\<rparr>) else Leave ETDes8IndexOutOfRange)"

definition read_byte :: "byte list \<Rightarrow> int \<Rightarrow> byte result" where
  "read_byte xs i = (if 0 \<le> i \<and> i < int (length xs) then Ok (xs ! nat i) else Leave ETDes8IndexOutOfRange)"

definition new_des :: "nat \<Rightarrow> TDes8" where "new_des n = \<lparr>Buf = replicate n 0, Len = 0\<rparr>"

text \<open>Writes at consecutive indices: a loop \<open>for (i = i0; ...; i++) d[i] = ...\<close>.\<close>

fun write_bytes :: "TDes8 \<Rightarrow> int \<Rightarrow> byte list \<Rightarrow> TDes8 result" where
  "write_bytes d i [] = Ok d"
| "write_bytes d i (b # bs) = bindL (write_byte d i b) (\<lambda>d. write_bytes d (i + 1) bs)"

lemma length_Data: "des_ok d \<Longrightarrow> length (Data d) = Len d"
  by (simp add: Data_def des_ok_def MaxLength_def)

lemma Append_Ok:
  assumes "des_ok d" and "Len d + length xs \<le> MaxLength d"
  shows "\<exists>e. Append d xs = Ok e \<and> Data e = Data d @ xs \<and> MaxLength e = MaxLength d \<and> des_ok e \<and>
    Len e = Len d + length xs"
  using assms by (simp add: Append_def Data_def MaxLength_def des_ok_def)

lemma Append_eq_Ok:
  assumes "des_ok d" and "Append d xs = Ok e"
  shows "Data e = Data d @ xs" and "MaxLength e = MaxLength d" and "des_ok e"
    and "Len d + length xs \<le> MaxLength d"
  using assms by (auto simp: Append_def Data_def MaxLength_def des_ok_def split: if_splits)

lemma write_byte_Ok:
  assumes "des_ok d" and "0 \<le> i" "i < int (Len d)"
  shows "write_byte d i b = Ok (d\<lparr>Buf := (Buf d)[nat i := b]\<rparr>)"
  using assms by (simp add: write_byte_def)

lemma write_bytes_Ok:
  assumes "0 \<le> i" "i + int (length bs) \<le> int (Len d)" "des_ok d"
  shows "write_bytes d i bs =
    Ok (d\<lparr>Buf := take (nat i) (Buf d) @ bs @ drop (nat i + length bs) (Buf d)\<rparr>)"
  using assms
proof (induction bs arbitrary: d i)
  case (Cons b bs)
  let ?d = "d\<lparr>Buf := (Buf d)[nat i := b]\<rparr>"
  have lt: "nat i < length (Buf d)" using Cons.prems by (simp add: des_ok_def MaxLength_def)
  have "write_bytes ?d (i + 1) bs =
      Ok (?d\<lparr>Buf := take (nat (i + 1)) (Buf ?d) @ bs @ drop (nat (i + 1) + length bs) (Buf ?d)\<rparr>)"
    using Cons.prems by (intro Cons.IH) (simp_all add: des_ok_def MaxLength_def)
  moreover have "nat (i + 1) = Suc (nat i)" using Cons.prems by simp
  moreover have "take (Suc (nat i)) ((Buf d)[nat i := b]) = take (nat i) (Buf d) @ [b]"
    using lt by (simp add: take_Suc_conv_app_nth)
  ultimately show ?case
    using Cons.prems write_byte_Ok [of d i b] by simp
qed simp

end
