(* ===== verification/Padding.thy ===== *)
theory Padding
  imports Descriptors
begin

section \<open>Padding systems (\<open>padding.cpp\<close>, \<open>pkcs7.cpp\<close>)\<close>

text \<open>
  The class hierarchy under \<open>CPadding\<close> as a datatype; a constructor holds the block size
  \<open>iBlockBytes\<close> and the virtual functions are functions by cases on it.  \<open>PadL\<close> and \<open>UnPadL\<close>
  write through a descriptor.  The random bytes of PKCS1 encryption padding come from the
  random number generator: \<open>rnd k\<close> is what its \<open>k\<close>-th call returns.  \<open>None\<close> is a padding
  loop that never ends (a generator that only returns zero bytes).
\<close>

datatype CPadding =
    CPaddingNone (iBlockBytes: nat)
  | CPaddingSSLv3 (iBlockBytes: nat)
  | CPaddingPKCS7 (iBlockBytes: nat)
  | CPaddingPKCS1Signature (iBlockBytes: nat)
  | CPaddingPKCS1Encryption (iBlockBytes: nat)

abbreviation ECryptoPanicOutputDescriptorOverflow :: leave where
  "ECryptoPanicOutputDescriptorOverflow \<equiv> Panic 1"

fun MinPaddingLength :: "CPadding \<Rightarrow> nat" where
  "MinPaddingLength (CPaddingNone b) = 0"
| "MinPaddingLength (CPaddingSSLv3 b) = 1"
| "MinPaddingLength (CPaddingPKCS7 b) = 1"
| "MinPaddingLength (CPaddingPKCS1Signature b) = 11"
| "MinPaddingLength (CPaddingPKCS1Encryption b) = 11"

fun MaxPaddedLength :: "CPadding \<Rightarrow> nat \<Rightarrow> nat" where
  "MaxPaddedLength (CPaddingNone b) n = n"
| "MaxPaddedLength (CPaddingSSLv3 b) n = (b - n mod b) + n"
| "MaxPaddedLength (CPaddingPKCS7 b) n = (b - n mod b) + n"
| "MaxPaddedLength p n = iBlockBytes p"

definition MaxUnPaddedLength :: "CPadding \<Rightarrow> nat \<Rightarrow> int" where
  "MaxUnPaddedLength p n = int n - int (MinPaddingLength p)"

subsection \<open>Padding\<close>

definition PadNoneL :: "byte list \<Rightarrow> TDes8 \<Rightarrow> TDes8 result" where
  "PadNoneL aInput aOutput = Append aOutput aInput"

text \<open>The loop of the SSLv3 and PKCS7 paddings, \<open>aOutput[aOutput.Length()-i] = v\<close> for \<open>i = 1..n\<close>.\<close>

fun fill_back :: "TDes8 \<Rightarrow> nat \<Rightarrow> nat \<Rightarrow> byte \<Rightarrow> TDes8 result" where
  "fill_back d i 0 v = Ok d"
| "fill_back d i (Suc n) v =
     bindL (write_byte d (int (Len d) - int i) v) (\<lambda>d. fill_back d (i + 1) n v)"

definition PadSSLv3L :: "nat \<Rightarrow> byte list \<Rightarrow> TDes8 \<Rightarrow> TDes8 result" where
  "PadSSLv3L b aInput aOutput =
     (let paddingBytes = b - length aInput mod b
      in bindL (Append aOutput aInput) (\<lambda>d.
         bindL (SetLength d (Len d + paddingBytes)) (\<lambda>d.
         fill_back d 1 paddingBytes (of_nat (paddingBytes - 1)))))"

definition PadPKCS7L :: "nat \<Rightarrow> byte list \<Rightarrow> TDes8 \<Rightarrow> TDes8 result" where
  "PadPKCS7L b aInput aOutput =
     (let paddingBytes = b - length aInput mod b
      in bindL (Append aOutput aInput) (\<lambda>d.
         bindL (SetLength d (Len d + paddingBytes)) (\<lambda>d.
         fill_back d 1 paddingBytes (of_nat paddingBytes))))"

definition PadPKCS1SignatureL :: "nat \<Rightarrow> byte list \<Rightarrow> TDes8 \<Rightarrow> TDes8 result" where
  "PadPKCS1SignatureL b aInput aOutput =
     (let startOfData = int b - int (length aInput)
      in bindL (SetLength aOutput b) (\<lambda>d.
         bindL (write_byte d 0 0) (\<lambda>d.
         bindL (write_byte d 1 1) (\<lambda>d.
         bindL (write_bytes d 2 (replicate (nat (startOfData - 3)) 0xFF)) (\<lambda>d.
         bindL (write_byte d (startOfData - 1) 0) (\<lambda>d.
         write_bytes d startOfData aInput))))))"

partial_function (option) fill_random ::
    "(nat \<Rightarrow> byte list) \<Rightarrow> nat \<Rightarrow> nat \<Rightarrow> int \<Rightarrow> int \<Rightarrow> TDes8 \<Rightarrow> TDes8 result option" where
  "fill_random rnd k j i stop d =
     (if i < stop then
        (case (if rnd k ! j \<noteq> 0 then write_byte d i (rnd k ! j) else Ok d) of
           Inl e \<Rightarrow> Some (Leave e)
         | Inr d \<Rightarrow>
             (let i = (if rnd k ! j \<noteq> 0 then i + 1 else i)
              in if j + 1 = 256 then fill_random rnd (k + 1) 0 i stop d
                 else fill_random rnd k (j + 1) i stop d))
      else Some (Ok d))"

definition PadPKCS1EncryptionL ::
    "(nat \<Rightarrow> byte list) \<Rightarrow> nat \<Rightarrow> byte list \<Rightarrow> TDes8 \<Rightarrow> TDes8 result option" where
  "PadPKCS1EncryptionL rnd b aInput aOutput =
     (let startOfData = int b - int (length aInput)
      in case bindL (SetLength aOutput b) (\<lambda>d. bindL (write_byte d 0 0) (\<lambda>d. write_byte d 1 2)) of
           Inl e \<Rightarrow> Some (Leave e)
         | Inr d \<Rightarrow>
             map_option (\<lambda>m. bindL m (\<lambda>d. bindL (write_byte d (startOfData - 1) 0) (\<lambda>d. write_bytes d startOfData aInput)))
               (fill_random rnd 0 0 2 (startOfData - 1) d))"

fun DoPadL :: "(nat \<Rightarrow> byte list) \<Rightarrow> CPadding \<Rightarrow> byte list \<Rightarrow> TDes8 \<Rightarrow> TDes8 result option" where
  "DoPadL rnd (CPaddingNone b) x d = Some (PadNoneL x d)"
| "DoPadL rnd (CPaddingSSLv3 b) x d = Some (PadSSLv3L b x d)"
| "DoPadL rnd (CPaddingPKCS7 b) x d = Some (PadPKCS7L b x d)"
| "DoPadL rnd (CPaddingPKCS1Signature b) x d = Some (PadPKCS1SignatureL b x d)"
| "DoPadL rnd (CPaddingPKCS1Encryption b) x d = PadPKCS1EncryptionL rnd b x d"

text \<open>Input of exactly a block is let through to \<open>DoPadL\<close>, larger input is not.\<close>

definition PadL :: "(nat \<Rightarrow> byte list) \<Rightarrow> CPadding \<Rightarrow> byte list \<Rightarrow> TDes8 \<Rightarrow> TDes8 result option" where
  "PadL rnd p aInput aOutput =
     (if int (length aInput) > int (iBlockBytes p) - int (MinPaddingLength p) \<and> length aInput \<noteq> iBlockBytes p
      then Some (Leave KErrArgument)
      else if MaxLength aOutput < MaxPaddedLength p (length aInput) then Some (Leave KErrOverflow)
      else DoPadL rnd p aInput aOutput)"

subsection \<open>Removing padding\<close>

text \<open>\<open>Append\<close> of the first \<open>outlen\<close> bytes under the debug assertion on the output's size.\<close>

definition append_left :: "byte list \<Rightarrow> nat \<Rightarrow> TDes8 \<Rightarrow> TDes8 result" where
  "append_left aInput outlen aOutput =
     bindL (guardL (MaxLength aOutput \<ge> outlen) ECryptoPanicOutputDescriptorOverflow) (\<lambda>_.
       Append aOutput (take outlen aInput))"

definition UnPadSSLv3L :: "byte list \<Rightarrow> TDes8 \<Rightarrow> TDes8 result" where
  "UnPadSSLv3L aInput aOutput =
     bindL (read_byte aInput (int (length aInput) - 1)) (\<lambda>b.
       let paddingLen = unat b + 1
       in if paddingLen > length aInput then Leave KErrInvalidPadding
          else append_left aInput (length aInput - paddingLen) aOutput)"

text \<open>The check of the padding bytes comes after the output has been appended.\<close>

definition UnPadPKCS7L :: "byte list \<Rightarrow> TDes8 \<Rightarrow> TDes8 result" where
  "UnPadPKCS7L aInput aOutput =
     bindL (read_byte aInput (int (length aInput) - 1)) (\<lambda>b.
       let paddingLen = unat b
       in if paddingLen > length aInput then Leave KErrInvalidPadding
          else bindL (append_left aInput (length aInput - paddingLen) aOutput) (\<lambda>d.
            if \<exists>x \<in> set (drop (length aInput - paddingLen) aInput). x \<noteq> b
            then Leave KErrInvalidPadding else Ok d))"

definition skip_while :: "(byte \<Rightarrow> bool) \<Rightarrow> byte list \<Rightarrow> nat \<Rightarrow> nat" where
  "skip_while P xs i = i + length (takeWhile P (drop i xs))"

text \<open>The copying loop at the end of both PKCS1 functions: it overwrites the output from its start.\<close>

definition copy_from :: "byte list \<Rightarrow> nat \<Rightarrow> TDes8 \<Rightarrow> TDes8 result" where
  "copy_from aInput dataStart aOutput =
     (let len = length aInput - dataStart
      in bindL (guardL (MaxLength aOutput \<ge> len) ECryptoPanicOutputDescriptorOverflow) (\<lambda>_.
         bindL (SetLength aOutput len) (\<lambda>d. write_bytes d 0 (drop dataStart aInput))))"

definition UnPadPKCS1SignatureL :: "byte list \<Rightarrow> TDes8 \<Rightarrow> TDes8 result" where
  "UnPadPKCS1SignatureL aInput aOutput =
     (let inputLen = length aInput
      in if inputLen = 0 then Leave KErrInvalidPadding
         else
           (let dataStart = (if aInput ! 0 = 0 then 1 else 0);
                dataStart =
                  (if dataStart < inputLen \<and> aInput ! dataStart \<noteq> 0 then
                     (let dataStart = skip_while (\<lambda>x. x = 0xFF) aInput (dataStart + 1)
                      in if dataStart = inputLen \<or> aInput ! dataStart \<noteq> 0 then 0 else dataStart + 1)
                   else 0)
            in copy_from aInput dataStart aOutput))"

definition UnPadPKCS1EncryptionL :: "byte list \<Rightarrow> TDes8 \<Rightarrow> TDes8 result" where
  "UnPadPKCS1EncryptionL aInput aOutput =
     (let inputLen = length aInput
      in if inputLen = 0 then Leave KErrInvalidPadding
         else
           (let dataStart = (if aInput ! 0 = 0 then 1 else 0)
            in if dataStart = inputLen \<or> aInput ! dataStart \<noteq> 2 then Leave KErrInvalidPadding
               else
                 (let dataStart = skip_while (\<lambda>x. x \<noteq> 0) aInput (dataStart + 1)
                  in if dataStart = inputLen \<or> aInput ! dataStart \<noteq> 0 then Leave KErrInvalidPadding
                     else copy_from aInput (dataStart + 1) aOutput)))"

fun UnPadL :: "CPadding \<Rightarrow> byte list \<Rightarrow> TDes8 \<Rightarrow> TDes8 result" where
  "UnPadL (CPaddingNone b) x d =
     bindL (guardL (MaxLength d \<ge> MaxPaddedLength (CPaddingNone b) (length x)) ECryptoPanicOutputDescriptorOverflow)
       (\<lambda>_. Append d x)"
| "UnPadL (CPaddingSSLv3 b) x d = UnPadSSLv3L x d"
| "UnPadL (CPaddingPKCS7 b) x d = UnPadPKCS7L x d"
| "UnPadL (CPaddingPKCS1Signature b) x d = UnPadPKCS1SignatureL x d"
| "UnPadL (CPaddingPKCS1Encryption b) x d = UnPadPKCS1EncryptionL x d"

subsection \<open>What padding writes\<close>

lemma fill_back_Ok:
  assumes "des_ok d" and "i + n \<le> Len d + 1" "1 \<le> i"
  shows "fill_back d i n v = Ok (d\<lparr>Buf := take (Len d + 1 - i - n) (Buf d) @ replicate n v @ drop (Len d + 1 - i) (Buf d)\<rparr>)"
  using assms
proof (induction n arbitrary: d i)
  case (Suc n)
  let ?k = "Len d - i"
  let ?d = "d\<lparr>Buf := (Buf d)[?k := v]\<rparr>"
  have k: "?k < Len d" "nat (int (Len d) - int i) = ?k" "i \<le> Len d" using Suc.prems by auto
  have w: "write_byte d (int (Len d) - int i) v = Ok ?d"
    using Suc.prems k by (simp add: write_byte_def)
  have "fill_back ?d (i + 1) n v =
      Ok (?d\<lparr>Buf := take (Len ?d + 1 - (i + 1) - n) (Buf ?d) @ replicate n v @ drop (Len ?d + 1 - (i + 1)) (Buf ?d)\<rparr>)"
    using Suc.prems by (intro Suc.IH) (simp_all add: des_ok_def MaxLength_def)
  moreover have "replicate n v @ drop ?k ((Buf d)[?k := v]) = replicate (Suc n) v @ drop (Suc ?k) (Buf d)"
  proof -
    have "?k < length (Buf d)" using k Suc.prems by (simp add: des_ok_def MaxLength_def)
    then have "drop ?k ((Buf d)[?k := v]) = v # drop (Suc ?k) (Buf d)"
      by (metis Cons_nth_drop_Suc drop_update_cancel length_list_update lessI nth_list_update_eq)
    then show ?thesis by (simp add: replicate_app_Cons_same)
  qed
  moreover have "take (?k - n) ((Buf d)[?k := v]) = take (?k - n) (Buf d)" by simp
  ultimately show ?case using w k Suc.prems by (simp add: Suc_diff_le)
qed simp


lemma pad_block_Ok:
  assumes "des_ok d" and "Len d + length x + n \<le> MaxLength d"
  shows "\<exists>e. bindL (Append d x) (\<lambda>d. bindL (SetLength d (Len d + n)) (\<lambda>d. fill_back d 1 n v)) = Ok e \<and>
    Data e = Data d @ x @ replicate n v \<and> des_ok e \<and> MaxLength e = MaxLength d"
proof -
  obtain e where e: "Append d x = Ok e" "Data e = Data d @ x" "MaxLength e = MaxLength d" "des_ok e"
      "Len e = Len d + length x"
    using Append_Ok [of d x] assms by auto
  let ?f = "e\<lparr>Len := Len e + n\<rparr>"
  have f: "SetLength e (Len e + n) = Ok ?f" "des_ok ?f"
    using assms e(3,5) by (simp_all add: SetLength_def des_ok_def MaxLength_def)
  have "fill_back ?f 1 n v = Ok (?f\<lparr>Buf := take (Len e) (Buf e) @ replicate n v @ drop (Len e + n) (Buf e)\<rparr>)"
    using fill_back_Ok [OF f(2), of 1 n v] by simp
  moreover have "length (Buf e) = length (Buf d)" "Len e \<le> length (Buf e)"
    using e(3,4) by (simp_all add: MaxLength_def des_ok_def)
  ultimately show ?thesis
    using e assms f by (simp add: Data_def MaxLength_def des_ok_def)
qed

lemma write_bytes_append:
  "write_bytes d i (xs @ ys) = bindL (write_bytes d i xs) (\<lambda>d. write_bytes d (i + int (length xs)) ys)"
proof (induction xs arbitrary: d i)
  case (Cons x xs)
  show ?case
    by (cases "write_byte d i x") (simp_all add: Cons.IH add.assoc add.commute [of 1])
qed simp

lemma write_byte_bytes: "write_byte d i b = write_bytes d i [b]"
  by (cases "write_byte d i b") simp_all

lemma write_block_Ok:
  assumes "des_ok d" and "length xs = b" "b \<le> MaxLength d"
  shows "\<exists>e. bindL (SetLength d b) (\<lambda>d. write_bytes d 0 xs) = Ok e \<and> Data e = xs \<and> des_ok e \<and> MaxLength e = MaxLength d"
proof -
  have "des_ok (d\<lparr>Len := b\<rparr>)" using assms by (simp add: des_ok_def MaxLength_def)
  from write_bytes_Ok [OF _ _ this, of 0 xs] show ?thesis
    using assms by (simp add: SetLength_def Data_def MaxLength_def des_ok_def)
qed

definition signature_block :: "nat \<Rightarrow> byte list \<Rightarrow> byte list" where
  "signature_block b x = [0, 1] @ replicate (b - length x - 3) 0xFF @ [0] @ x"

lemma bindL_Ok: "bindL m Ok = m"
  by (cases m) simp_all

lemma PadPKCS1SignatureL_Ok:
  assumes "length x + 3 \<le> b" "des_ok d" "b \<le> MaxLength d"
  shows "\<exists>e. PadPKCS1SignatureL b x d = Ok e \<and> Data e = signature_block b x \<and> des_ok e \<and> MaxLength e = MaxLength d"
proof -
  let ?m = "b - length x - 3"
  have n: "nat (int b - int (length x) - 3) = ?m" "int b - int (length x) - 1 = 2 + int ?m"
      "int b - int (length x) = 2 + int ?m + 1" using assms by auto
  have "PadPKCS1SignatureL b x d = bindL (SetLength d b) (\<lambda>d. write_bytes d 0 (signature_block b x))"
    unfolding PadPKCS1SignatureL_def Let_def signature_block_def write_bytes_append write_byte_bytes n
    by (simp add: write_byte_bytes [symmetric] bindL_assoc)
  moreover have "length (signature_block b x) = b" using assms by (simp add: signature_block_def)
  ultimately show ?thesis using write_block_Ok assms(2,3) by metis
qed

lemma UnPad_signature_block:
  assumes "length x + 3 \<le> b" "des_ok d" "length x \<le> MaxLength d"
    and B: "B = signature_block b x \<or> B = tl (signature_block b x)"
  shows "\<exists>e. UnPadPKCS1SignatureL B d = Ok e \<and> Data e = x"
proof -
  let ?m = "b - length x - 3"
  have w: "takeWhile (\<lambda>x. x = 0xFF) (replicate n 0xFF @ 0 # xs) = replicate n 0xFF" for n and xs :: "byte list"
    by (induction n) simp_all
  have nth: "(replicate n 0xFF @ 0 # xs) ! n = 0" for n and xs :: "byte list"
    by (simp add: nth_append)
  have copy: "\<exists>e. copy_from B k d = Ok e \<and> Data e = x" if "drop k B = x" "k \<le> length B" for k
    using write_block_Ok [OF assms(2), of x "length x"] that assms(3)
    by (auto simp: copy_from_def Let_def guardL_def)
  from B show ?thesis
  proof
    assume B: "B = signature_block b x"
    have "skip_while (\<lambda>x. x = 0xFF) B 2 = 2 + ?m"
      by (simp add: B signature_block_def skip_while_def w)
    then have "UnPadPKCS1SignatureL B d = copy_from B (Suc (Suc (Suc ?m))) d"
      by (simp add: UnPadPKCS1SignatureL_def Let_def B signature_block_def nth numeral_2_eq_2)
    then show ?thesis using copy [of "Suc (Suc (Suc ?m))"] by (simp add: B signature_block_def)
  next
    assume B: "B = tl (signature_block b x)"
    have "skip_while (\<lambda>x. x = 0xFF) B 1 = 1 + ?m"
      by (simp add: B signature_block_def skip_while_def w)
    then have "UnPadPKCS1SignatureL B d = copy_from B (Suc (Suc ?m)) d"
      by (simp add: UnPadPKCS1SignatureL_def Let_def B signature_block_def nth)
    then show ?thesis using copy [of "Suc (Suc ?m)"] by (simp add: B signature_block_def)
  qed
qed


subsection \<open>Random padding\<close>

text \<open>The generator's bytes as one stream; position \<open>256 * k + j\<close> is byte \<open>j\<close> of call \<open>k\<close>.\<close>

definition stream_byte :: "(nat \<Rightarrow> byte list) \<Rightarrow> nat \<Rightarrow> byte" where
  "stream_byte rnd m = rnd (m div 256) ! (m mod 256)"

lemma fill_random_step:
  "fill_random rnd (m div 256) (m mod 256) i stop d =
    (if i < stop then
       (case (if stream_byte rnd m \<noteq> 0 then write_byte d i (stream_byte rnd m) else Ok d) of
          Inl e \<Rightarrow> Some (Leave e)
        | Inr d \<Rightarrow> fill_random rnd (Suc m div 256) (Suc m mod 256)
            (if stream_byte rnd m \<noteq> 0 then i + 1 else i) stop d)
     else Some (Ok d))"
proof (cases "Suc (m mod 256) = 256")
  case True
  then have "Suc m mod 256 = 0" "Suc m div 256 = Suc (m div 256)" by (simp_all add: mod_Suc div_Suc)
  then show ?thesis
    by (subst fill_random.simps) (simp add: stream_byte_def Let_def True split: sum.split)
next
  case False
  then have "Suc m mod 256 = Suc (m mod 256)" "Suc m div 256 = m div 256" by (simp_all add: mod_Suc div_Suc)
  then show ?thesis
    using False by (subst fill_random.simps) (simp add: stream_byte_def Let_def split: sum.split)
qed

lemma fill_random_skip:
  assumes "\<forall>l < n. stream_byte rnd (m + l) = 0"
  shows "fill_random rnd (m div 256) (m mod 256) i stop d = fill_random rnd ((m + n) div 256) ((m + n) mod 256) i stop d"
  using assms
proof (induction n)
  case (Suc n)
  have "fill_random rnd ((m + n) div 256) ((m + n) mod 256) i stop d =
      fill_random rnd (Suc (m + n) div 256) (Suc (m + n) mod 256) i stop d"
  proof (cases "i < stop")
    case True
    then show ?thesis using Suc.prems by (subst fill_random_step) simp
  next
    case False
    then show ?thesis by (simp add: fill_random.simps)
  qed
  then show ?case using Suc by simp
qed simp

definition good_generator :: "(nat \<Rightarrow> byte list) \<Rightarrow> bool" where
  "good_generator rnd \<longleftrightarrow> (\<forall>k. \<exists>j < 256. rnd k ! j \<noteq> 0)"

lemma next_nonzero:
  assumes "good_generator rnd"
  shows "\<exists>n. stream_byte rnd (m + n) \<noteq> 0 \<and> (\<forall>l < n. stream_byte rnd (m + l) = 0)"
proof -
  obtain j where j: "j < 256" "rnd (m div 256 + 1) ! j \<noteq> 0"
    using assms by (auto simp: good_generator_def)
  let ?p = "256 * (m div 256 + 1) + j"
  have "(256 * q + j) div 256 = q \<and> (256 * q + j) mod 256 = j" for q using j(1) by presburger
  then have "?p div 256 = m div 256 + 1" "?p mod 256 = j" by blast+
  then have "stream_byte rnd (m + (?p - m)) \<noteq> 0" using j(2) by (simp add: stream_byte_def)
  then show ?thesis using exists_least_iff [of "\<lambda>n. stream_byte rnd (m + n) \<noteq> 0"] by blast
qed

lemma fill_random_Ok:
  assumes "good_generator rnd" "des_ok d" "0 \<le> i" "i + int n \<le> int (Len d)"
  shows "\<exists>zs. length zs = n \<and> 0 \<notin> set zs \<and>
    fill_random rnd (m div 256) (m mod 256) i (i + int n) d = Some (write_bytes d i zs)"
  using assms
proof (induction n arbitrary: i m d)
  case 0
  show ?case by (subst fill_random.simps) simp
next
  case (Suc n)
  obtain q where q: "stream_byte rnd (m + q) \<noteq> 0" "\<forall>l < q. stream_byte rnd (m + l) = 0"
    using next_nonzero [OF Suc.prems(1)] by blast
  let ?b = "stream_byte rnd (m + q)" and ?d = "d\<lparr>Buf := (Buf d)[nat i := stream_byte rnd (m + q)]\<rparr>"
  have w: "write_byte d i ?b = Ok ?d" using Suc.prems by (simp add: write_byte_def)
  obtain zs where zs: "length zs = n" "0 \<notin> set zs"
    "fill_random rnd (Suc (m + q) div 256) (Suc (m + q) mod 256) (i + 1) (i + 1 + int n) ?d = Some (write_bytes ?d (i + 1) zs)"
    using Suc.IH [OF Suc.prems(1), of ?d "i + 1" "Suc (m + q)"] Suc.prems by (auto simp: des_ok_def MaxLength_def)
  have "fill_random rnd (m div 256) (m mod 256) i (i + int (Suc n)) d =
      fill_random rnd ((m + q) div 256) ((m + q) mod 256) i (i + int (Suc n)) d"
    by (rule fill_random_skip [OF q(2)])
  also have "\<dots> = Some (write_bytes d i (?b # zs))"
    using q(1) w zs(3) by (subst fill_random_step) (simp add: add.assoc add.commute [of 1])
  finally show ?case using q(1) zs(1,2) by (intro exI [of _ "?b # zs"]) simp
qed

definition encryption_block :: "byte list \<Rightarrow> byte list \<Rightarrow> byte list" where
  "encryption_block zs x = [0, 2] @ zs @ [0] @ x"

lemma PadPKCS1EncryptionL_Ok:
  assumes "good_generator rnd" "length x + 3 \<le> b" "des_ok d" "b \<le> MaxLength d"
  shows "\<exists>e zs. PadPKCS1EncryptionL rnd b x d = Some (Ok e) \<and> Data e = encryption_block zs x \<and>
    length zs = b - length x - 3 \<and> 0 \<notin> set zs \<and> des_ok e \<and> MaxLength e = MaxLength d"
proof -
  let ?m = "b - length x - 3"
  have n: "int b - int (length x) - 1 = 2 + int ?m" "int b - int (length x) = 2 + int ?m + 1" using assms by auto
  have first: "bindL (SetLength d b) (\<lambda>d. bindL (write_byte d 0 0) (\<lambda>d. write_byte d 1 2)) =
      bindL (SetLength d b) (\<lambda>d. write_bytes d 0 [0, 2])"
    by (simp add: write_byte_bytes [symmetric] bindL_Ok)
  let ?d = "d\<lparr>Len := b, Buf := take 0 (Buf d) @ [0, 2] @ drop 2 (Buf d)\<rparr>"
  have ok: "bindL (SetLength d b) (\<lambda>d. write_bytes d 0 [0, 2]) = Ok ?d"
    using assms write_bytes_Ok [of 0 "[0, 2]" "d\<lparr>Len := b\<rparr>"] by (simp add: SetLength_def des_ok_def MaxLength_def numeral_2_eq_2)
  have "des_ok ?d" using assms by (simp add: des_ok_def MaxLength_def)
  then obtain zs where zs: "length zs = ?m" "0 \<notin> set zs"
    "fill_random rnd (0 div 256) (0 mod 256) 2 (2 + int ?m) ?d = Some (write_bytes ?d 2 zs)"
    using fill_random_Ok [OF assms(1), of ?d 2 ?m 0] assms(2) by auto
  have "bindL (SetLength d b) (\<lambda>d. write_bytes d 0 (encryption_block zs x)) =
      bindL (write_bytes ?d 2 zs) (\<lambda>d. bindL (write_byte d (2 + int ?m) 0) (\<lambda>d. write_bytes d (2 + int ?m + 1) x))"
    unfolding encryption_block_def write_bytes_append bindL_assoc [symmetric] ok
    by (simp add: bindL_assoc bindL_Ok zs(1))
  then have "PadPKCS1EncryptionL rnd b x d = Some (bindL (SetLength d b) (\<lambda>d. write_bytes d 0 (encryption_block zs x)))"
    unfolding PadPKCS1EncryptionL_def Let_def first ok n using zs(3) by simp
  moreover have "length (encryption_block zs x) = b" using assms zs(1) by (simp add: encryption_block_def)
  ultimately show ?thesis using write_block_Ok [OF assms(3) _ assms(4)] zs(1,2) by metis
qed

lemma UnPad_encryption_block:
  assumes "0 \<notin> set zs" "des_ok d" "length x \<le> MaxLength d"
    and B: "B = encryption_block zs x \<or> B = tl (encryption_block zs x)"
  shows "\<exists>e. UnPadPKCS1EncryptionL B d = Ok e \<and> Data e = x"
proof -
  have w: "takeWhile (\<lambda>x. x \<noteq> 0) (zs @ 0 # xs) = zs" for xs :: "byte list"
    using assms(1) by (induction zs) auto
  have copy: "\<exists>e. copy_from B k d = Ok e \<and> Data e = x" if "drop k B = x" "k \<le> length B" for k
    using write_block_Ok [OF assms(2), of x "length x"] that assms(3)
    by (auto simp: copy_from_def Let_def guardL_def)
  from B show ?thesis
  proof
    assume B: "B = encryption_block zs x"
    have "skip_while (\<lambda>x. x \<noteq> 0) B 2 = 2 + length zs"
      by (simp add: B encryption_block_def skip_while_def w)
    then have "UnPadPKCS1EncryptionL B d = copy_from B (Suc (Suc (Suc (length zs)))) d"
      by (simp add: UnPadPKCS1EncryptionL_def Let_def B encryption_block_def numeral_2_eq_2)
    then show ?thesis using copy [of "Suc (Suc (Suc (length zs)))"] by (simp add: B encryption_block_def)
  next
    assume B: "B = tl (encryption_block zs x)"
    have "skip_while (\<lambda>x. x \<noteq> 0) B 1 = 1 + length zs"
      by (simp add: B encryption_block_def skip_while_def w)
    then have "UnPadPKCS1EncryptionL B d = copy_from B (Suc (Suc (length zs))) d"
      by (simp add: UnPadPKCS1EncryptionL_def Let_def B encryption_block_def)
    then show ?thesis using copy [of "Suc (Suc (length zs))"] by (simp add: B encryption_block_def)
  qed
qed

end
