(* ===== verification/Modes.thy ===== *)
theory Modes
  imports Padding
begin

section \<open>Block transformations, CBC mode and buffering\<close>

text \<open>
  \<open>cbcmode.cpp\<close> and \<open>bufferedtransformation.cpp\<close>.  A \<open>CBlockTransformation\<close> is a state
  with a virtual function \<open>Transform\<close> that replaces a block in place: here a function
  from state and block to block and state, under the size assertion of the code (a failed
  \<open>assert\<close> is \<open>Panic 1\<close>).  The mode and the buffer take that function as an argument, as
  the classes hold a pointer to it.  The locales name what the buffer relies on: a pair of
  inverse block transformations and a padding system that fills one block.
\<close>

type_synonym 's transformation = "'s \<Rightarrow> byte list \<Rightarrow> (byte list \<times> 's) result"

definition assertL :: "bool \<Rightarrow> unit result" where "assertL c = guardL c (Panic 1)"

subsection \<open>Cipher block chaining\<close>

record 's chaining =
  iBT :: 's
  iRegister :: "byte list"
  iIV :: "byte list"

definition ConstructChaining :: "'s \<Rightarrow> byte list \<Rightarrow> 's chaining" where
  "ConstructChaining bt aIV = \<lparr>iBT = bt, iRegister = aIV, iIV = aIV\<rparr>"

definition ResetChaining :: "('s \<Rightarrow> 's) \<Rightarrow> 's chaining \<Rightarrow> 's chaining" where
  "ResetChaining resetBT m = m\<lparr>iRegister := iIV m, iBT := resetBT (iBT m)\<rparr>"

definition SetIV :: "('s \<Rightarrow> 's) \<Rightarrow> 's chaining \<Rightarrow> byte list \<Rightarrow> 's chaining result" where
  "SetIV resetBT m aIV =
     bindL (assertL (length aIV \<le> length (iIV m))) (\<lambda>_. Ok (ResetChaining resetBT (m\<lparr>iIV := aIV\<rparr>)))"

definition CBCEncryptor_Transform :: "nat \<Rightarrow> 's transformation \<Rightarrow> 's chaining transformation" where
  "CBCEncryptor_Transform n T m aBlock =
     bindL (assertL (length aBlock = n)) (\<lambda>_.
     bindL (assertL (length (iRegister m) = length aBlock)) (\<lambda>_.
       let reg = XorBuf (iRegister m) aBlock
       in bindL (T (iBT m) reg) (\<lambda>(reg, bt). Ok (reg, m\<lparr>iRegister := reg, iBT := bt\<rparr>))))"

text \<open>The copy \<open>iIVBak\<close> of the incoming block only lives during the call.\<close>

definition CBCDecryptor_Transform :: "nat \<Rightarrow> 's transformation \<Rightarrow> 's chaining transformation" where
  "CBCDecryptor_Transform n T m aBlock =
     bindL (assertL (length aBlock = n)) (\<lambda>_.
     bindL (assertL (length (iRegister m) = length aBlock)) (\<lambda>_.
       let iIVBak = aBlock
       in bindL (T (iBT m) aBlock) (\<lambda>(block, bt).
         Ok (XorBuf block (iRegister m), m\<lparr>iRegister := iIVBak, iBT := bt\<rparr>))))"

subsection \<open>Buffered transformations\<close>

record 's buffered =
  iTransformation :: 's
  iInputStore :: "byte list"

definition MaxOutputLength :: "nat \<Rightarrow> 's buffered \<Rightarrow> nat \<Rightarrow> nat" where
  "MaxOutputLength blockSize b aInputLength =
     (let rem = (aInputLength + length (iInputStore b)) mod blockSize
      in (aInputLength + length (iInputStore b)) - rem)"

text \<open>\<open>Transform\<close> on a \<open>TPtr8\<close> that points \<open>k\<close> bytes into the output.\<close>

definition transform_at :: "nat \<Rightarrow> 's transformation \<Rightarrow> 's \<Rightarrow> TDes8 \<Rightarrow> nat \<Rightarrow> (TDes8 \<times> 's) result" where
  "transform_at n T s d k =
     bindL (T s (take n (drop k (Buf d)))) (\<lambda>(c, s).
       Ok (d\<lparr>Buf := take k (Buf d) @ c @ drop (k + n) (Buf d)\<rparr>, s))"

text \<open>The two loops over blocks, with their number of iterations.\<close>

fun append_blocks :: "nat \<Rightarrow> 's transformation \<Rightarrow> nat \<Rightarrow> 's \<Rightarrow> byte list \<Rightarrow> TDes8 \<Rightarrow> (TDes8 \<times> 's) result" where
  "append_blocks n T 0 s xs d = Ok (d, s)"
| "append_blocks n T (Suc m) s xs d =
     bindL (Append d (take n xs)) (\<lambda>e.
     bindL (transform_at n T s e (Len d)) (\<lambda>(e, s). append_blocks n T m s (drop n xs) e))"

fun transform_blocks :: "nat \<Rightarrow> 's transformation \<Rightarrow> nat \<Rightarrow> 's \<Rightarrow> TDes8 \<Rightarrow> nat \<Rightarrow> (TDes8 \<times> 's) result" where
  "transform_blocks n T 0 s d k = Ok (d, s)"
| "transform_blocks n T (Suc m) s d k =
     bindL (transform_at n T s d k) (\<lambda>(d, s). transform_blocks n T m s d (k + n))"

definition Process ::
    "nat \<Rightarrow> 's transformation \<Rightarrow> 's buffered \<Rightarrow> byte list \<Rightarrow> TDes8 \<Rightarrow> (TDes8 \<times> 's buffered) result" where
  "Process blockSize T b aInput aOutput =
     bindL (guardL (MaxLength aOutput \<ge> MaxOutputLength blockSize b (length aInput)) ECryptoPanicOutputDescriptorOverflow)
     (\<lambda>_. if length aInput + length (iInputStore b) < blockSize
          then Ok (aOutput, b\<lparr>iInputStore := iInputStore b @ aInput\<rparr>)
          else
            (let outputIndex = Len aOutput;
                 inputIndex = blockSize - length (iInputStore b)
             in bindL (Append aOutput (iInputStore b)) (\<lambda>d.
                bindL (Append d (take inputIndex aInput)) (\<lambda>d.
                bindL (transform_at blockSize T (iTransformation b) d outputIndex) (\<lambda>(d, s).
                  let m = (length aInput - inputIndex) div blockSize
                  in bindL (append_blocks blockSize T m s (drop inputIndex aInput) d) (\<lambda>(d, s).
                    Ok (d, \<lparr>iTransformation = s, iInputStore = drop (inputIndex + m * blockSize) aInput\<rparr>)))))))"

definition MaxFinalOutputLengthEncrypt :: "CPadding \<Rightarrow> 's buffered \<Rightarrow> nat \<Rightarrow> nat" where
  "MaxFinalOutputLengthEncrypt p b n = MaxPaddedLength p (length (iInputStore b) + n)"

definition MaxFinalOutputLengthDecrypt :: "CPadding \<Rightarrow> 's buffered \<Rightarrow> nat \<Rightarrow> int" where
  "MaxFinalOutputLengthDecrypt p b n = MaxUnPaddedLength p (n + length (iInputStore b))"

definition EncryptFinalL ::
    "(nat \<Rightarrow> byte list) \<Rightarrow> nat \<Rightarrow> 's transformation \<Rightarrow> CPadding \<Rightarrow> 's buffered \<Rightarrow> byte list \<Rightarrow> TDes8 \<Rightarrow>
      (TDes8 \<times> 's buffered) result option" where
  "EncryptFinalL rnd blockSize T p b aInput aOutput =
     (case bindL (guardL (MaxLength aOutput \<ge> MaxFinalOutputLengthEncrypt p b (length aInput)) ECryptoPanicOutputDescriptorOverflow)
        (\<lambda>_. Process blockSize T b aInput aOutput) of
        Inl e \<Rightarrow> Some (Leave e)
      | Inr (d, b) \<Rightarrow>
          map_option (\<lambda>m. bindL m (\<lambda>e.
            bindL (assertL (Len e mod blockSize = 0)) (\<lambda>_.
            bindL (transform_blocks blockSize T ((Len e - Len d + blockSize - 1) div blockSize) (iTransformation b) e (Len d))
              (\<lambda>(e, s). Ok (e, \<lparr>iTransformation = s, iInputStore = []\<rparr>)))))
            (PadL rnd p (iInputStore b) d))"

definition DecryptFinalL ::
    "nat \<Rightarrow> 's transformation \<Rightarrow> CPadding \<Rightarrow> 's buffered \<Rightarrow> byte list \<Rightarrow> TDes8 \<Rightarrow> (TDes8 \<times> 's buffered) result" where
  "DecryptFinalL blockSize T p b aInput aOutput =
     bindL (guardL (int (MaxLength aOutput) \<ge> MaxFinalOutputLengthDecrypt p b (length aInput)) ECryptoPanicOutputDescriptorOverflow) (\<lambda>_.
     bindL (assertL ((length aInput + length (iInputStore b)) mod iBlockBytes p = 0)) (\<lambda>_.
     bindL (assertL (length aInput + length (iInputStore b) \<noteq> 0)) (\<lambda>_.
     bindL (assertL (iBlockBytes p mod blockSize = 0)) (\<lambda>_.
       let lenToDecrypt = length aInput - iBlockBytes p
       in bindL (if lenToDecrypt > 0
                 then bindL (Process blockSize T b (take lenToDecrypt aInput) aOutput) (\<lambda>(d, b).
                        bindL (assertL (iInputStore b = [])) (\<lambda>_. Ok (d, b)))
                 else Ok (aOutput, b)) (\<lambda>(d, b).
          bindL (Process blockSize T b (drop lenToDecrypt aInput) (new_des (iBlockBytes p))) (\<lambda>(padPtr, b).
          bindL (assertL (iInputStore b = [])) (\<lambda>_.
          bindL (UnPadL p (Data padPtr) d) (\<lambda>d. Ok (d, b)))))))))"

definition ResetBuffered :: "('s \<Rightarrow> 's) \<Rightarrow> 's buffered \<Rightarrow> 's buffered" where
  "ResetBuffered resetBT b = b\<lparr>iTransformation := resetBT (iTransformation b), iInputStore := []\<rparr>"


subsection \<open>Runs over whole blocks\<close>

text \<open>
  The specification of buffering: \<open>runs n T s xs ys s'\<close> holds when \<open>xs\<close> is a sequence of
  blocks of \<open>n\<close> bytes that \<open>T\<close> takes from state \<open>s\<close> to state \<open>s'\<close>, giving the blocks \<open>ys\<close>.
\<close>

inductive runs :: "nat \<Rightarrow> 's transformation \<Rightarrow> 's \<Rightarrow> byte list \<Rightarrow> byte list \<Rightarrow> 's \<Rightarrow> bool"
  for n :: nat and T :: "'s transformation" where
  runs_Nil: "runs n T s [] [] s"
| runs_Cons: "length b = n \<Longrightarrow> T s b = Ok (c, s1) \<Longrightarrow> length c = n \<Longrightarrow> runs n T s1 xs ys s' \<Longrightarrow>
    runs n T s (b @ xs) (c @ ys) s'"

inductive_cases runs_emptyE: "runs n T s [] ys s'"

lemma runs_single: "length b = n \<Longrightarrow> T s b = Ok (c, s1) \<Longrightarrow> length c = n \<Longrightarrow> runs n T s b c s1"
  using runs_Cons [OF _ _ _ runs_Nil, of b n T s c s1] by simp

lemma runs_append:
  "runs n T s xs ys s1 \<Longrightarrow> runs n T s1 xs' ys' s2 \<Longrightarrow> runs n T s (xs @ xs') (ys @ ys') s2"
  by (induction rule: runs.induct) (auto intro: runs.intros)

lemma runs_length: "runs n T s xs ys s' \<Longrightarrow> length ys = length xs \<and> n dvd length xs"
  by (induction rule: runs.induct) auto

lemma transform_at_Ok:
  assumes "des_ok d" "Data d = xs @ b" "length b = n" "T s b = Ok (c, s1)" "length c = n"
  shows "\<exists>e. transform_at n T s d (length xs) = Ok (e, s1) \<and> Data e = xs @ c \<and> des_ok e \<and>
    MaxLength e = MaxLength d \<and> Len e = Len d"
proof -
  have buf: "Buf d = xs @ b @ drop (Len d) (Buf d)"
    using assms(2) append_take_drop_id [of "Len d" "Buf d"] by (simp add: Data_def)
  have len: "Len d = length xs + n"
    using length_Data [OF assms(1)] assms(2,3) by simp
  have "take n (drop (length xs) (Buf d)) = b" by (subst buf) (simp add: assms(3))
  moreover have "take (length xs) (Buf d) = xs" by (subst buf) simp
  ultimately show ?thesis
    using assms len by (simp add: transform_at_def Data_def des_ok_def MaxLength_def)
qed

lemma append_blocks_Ok:
  "runs n T s xs ys s' \<Longrightarrow> des_ok d \<Longrightarrow> Len d + length xs \<le> MaxLength d \<Longrightarrow> length xs = m * n \<Longrightarrow> 0 < n \<Longrightarrow>
    \<exists>e. append_blocks n T m s (xs @ rest) d = Ok (e, s') \<and> Data e = Data d @ ys \<and> des_ok e \<and> MaxLength e = MaxLength d"
proof (induction arbitrary: d m rule: runs.induct)
  case (runs_Nil s)
  then show ?case by simp
next
  case (runs_Cons b s c s1 xs ys s')
  then obtain k where m: "m = Suc k" "length xs = k * n" by (cases m) auto
  obtain e where e: "Append d b = Ok e" "Data e = Data d @ b" "MaxLength e = MaxLength d" "des_ok e"
      "Len e = Len d + length b"
    using Append_Ok [of d b] runs_Cons.prems by auto
  obtain f where f: "transform_at n T s e (Len d) = Ok (f, s1)" "Data f = Data d @ c" "des_ok f"
      "MaxLength f = MaxLength e" "Len f = Len e"
    using transform_at_Ok [where T = T, OF e(4,2) runs_Cons.hyps(1-3)] length_Data [OF runs_Cons.prems(1)] by auto
  obtain g where "append_blocks n T k s1 (xs @ rest) f = Ok (g, s')" "Data g = Data f @ ys" "des_ok g"
      "MaxLength g = MaxLength f"
    using runs_Cons.IH [OF f(3), of k] runs_Cons.prems e f m by auto
  then show ?case using e(1,3) f m runs_Cons.hyps(1) by simp
qed

lemma transform_blocks_Ok:
  "runs n T s xs ys s' \<Longrightarrow> des_ok d \<Longrightarrow> Data d = pre @ xs \<Longrightarrow> length xs = m * n \<Longrightarrow> 0 < n \<Longrightarrow>
    \<exists>e. transform_blocks n T m s d (length pre) = Ok (e, s') \<and> Data e = pre @ ys \<and> des_ok e \<and> MaxLength e = MaxLength d"
proof (induction arbitrary: d m pre rule: runs.induct)
  case (runs_Nil s)
  then show ?case by simp
next
  case (runs_Cons b s c s1 xs ys s')
  then obtain k where m: "m = Suc k" "length xs = k * n" by (cases m) auto
  let ?k = "length pre"
  have buf: "Buf d = pre @ b @ xs @ drop (Len d) (Buf d)"
    using runs_Cons.prems(2) append_take_drop_id [of "Len d" "Buf d"] by (simp add: Data_def)
  have len: "Len d = ?k + n + length xs"
    using length_Data [OF runs_Cons.prems(1)] runs_Cons.prems(2) runs_Cons.hyps(1) by simp
  let ?e = "d\<lparr>Buf := pre @ c @ xs @ drop (Len d) (Buf d)\<rparr>"
  have "take n (drop ?k (Buf d)) = b" by (subst buf) (simp add: runs_Cons.hyps(1))
  moreover have "take ?k (Buf d) = pre" by (subst buf) simp
  moreover have "drop (?k + n) (Buf d) = xs @ drop (Len d) (Buf d)"
    by (subst buf) (simp add: runs_Cons.hyps(1))
  ultimately have t: "transform_at n T s d ?k = Ok (?e, s1)"
    using runs_Cons.hyps(2) by (simp add: transform_at_def)
  have e: "des_ok ?e" "Data ?e = (pre @ c) @ xs" "MaxLength ?e = MaxLength d"
    using runs_Cons.prems(1) runs_Cons.hyps(3) len by (simp_all add: des_ok_def MaxLength_def Data_def)
  obtain g where "transform_blocks n T k s1 ?e (length (pre @ c)) = Ok (g, s')" "Data g = (pre @ c) @ ys" "des_ok g"
      "MaxLength g = MaxLength ?e"
    using runs_Cons.IH [OF e(1,2) m(2) runs_Cons.prems(4)] by blast
  then show ?case using t m runs_Cons.hyps(3) e(3) by simp
qed

text \<open>\<open>Process\<close> transforms the whole blocks of what it holds and what it gets, and keeps the rest.\<close>

lemma Process_Ok:
  assumes "0 < n" "iInputStore b @ x = xs @ rest" "length rest < n" "length (iInputStore b) < n"
    and r: "runs n T (iTransformation b) xs ys s'" and d: "des_ok d" "Len d + length xs \<le> MaxLength d"
  shows "\<exists>e. Process n T b x d = Ok (e, \<lparr>iTransformation = s', iInputStore = rest\<rparr>) \<and> Data e = Data d @ ys \<and>
    des_ok e \<and> MaxLength e = MaxLength d"
proof -
  obtain m where m: "length xs = m * n" using runs_length [OF r] by (metis dvdE mult.commute)
  have tot: "length x + length (iInputStore b) = m * n + length rest"
    using arg_cong [OF assms(2), of length] m by simp
  then have out: "MaxOutputLength n b (length x) = m * n"
    using assms(3) by (simp add: MaxOutputLength_def Let_def)
  show ?thesis
  proof (cases m)
    case 0
    then have "xs = []" "length x + length (iInputStore b) < n" using m tot assms(3) by simp_all
    then show ?thesis
      using r assms(2) d out by (auto simp: Process_def guardL_def 0 elim: runs_emptyE)
  next
    case (Suc k)
    have ge: "\<not> length x + length (iInputStore b) < n" using tot Suc by simp
    have "xs \<noteq> []" using m Suc assms(1) by auto
    with r obtain blk c s1 xs' ys' where blk: "xs = blk @ xs'" "ys = c @ ys'" "length blk = n" "length c = n"
        "T (iTransformation b) blk = Ok (c, s1)" "runs n T s1 xs' ys' s'"
      by (cases rule: runs.cases) auto
    let ?i = "n - length (iInputStore b)"
    have split: "iInputStore b @ take ?i x = blk" "drop ?i x = xs' @ rest"
    proof -
      have "take n (iInputStore b @ x) = blk" "drop n (iInputStore b @ x) = xs' @ rest"
        using assms(2) blk(1,3) by simp_all
      then show "iInputStore b @ take ?i x = blk" "drop ?i x = xs' @ rest"
        using assms(4) by simp_all
    qed
    have xs': "length xs' = k * n" using m Suc blk(1,3) by simp
    have cap: "Len d + n + k * n \<le> MaxLength d" using d(2) m Suc by simp
    have bl: "length (iInputStore b) + length (take ?i x) = n"
      using arg_cong [OF split(1), of length] blk(3) by simp
    obtain d1 where d1: "Append d (iInputStore b) = Ok d1" "Data d1 = Data d @ iInputStore b" "MaxLength d1 = MaxLength d"
        "des_ok d1" "Len d1 = Len d + length (iInputStore b)"
      using Append_Ok [OF d(1), of "iInputStore b"] cap assms(4) by auto
    obtain d2 where d2: "Append d1 (take ?i x) = Ok d2" "Data d2 = Data d1 @ take ?i x" "MaxLength d2 = MaxLength d1"
        "des_ok d2" "Len d2 = Len d1 + length (take ?i x)"
      using Append_Ok [OF d1(4), of "take ?i x"] cap bl d1(3,5) by auto
    have "Data d2 = Data d @ blk" using d1(2) d2(2) split(1) by simp
    then obtain d3 where d3: "transform_at n T (iTransformation b) d2 (Len d) = Ok (d3, s1)" "Data d3 = Data d @ c"
        "des_ok d3" "MaxLength d3 = MaxLength d2" "Len d3 = Len d2"
      using transform_at_Ok [where T = T and b = blk, OF d2(4) _ blk(3,5,4)] length_Data [OF d(1)] by metis
    have cnt: "(length x - ?i) div n = k"
    proof -
      have "length x - ?i = k * n + length rest" using arg_cong [OF split(2), of length] xs' by simp
      then show ?thesis using assms(3) by simp
    qed
    have "Len d3 + length xs' \<le> MaxLength d3"
      using cap d3(4,5) d2(3,5) d1(3,5) bl xs' by linarith
    then obtain d4 where d4: "append_blocks n T k s1 (xs' @ rest) d3 = Ok (d4, s')" "Data d4 = Data d3 @ ys'" "des_ok d4"
        "MaxLength d4 = MaxLength d3"
      using append_blocks_Ok [OF blk(6) d3(3) _ xs' assms(1)] by blast
    have rest: "drop (?i + k * n) x = rest"
      using split(2) xs' by (metis append_eq_conv_conj drop_drop add.commute)
    have g: "MaxLength d \<ge> MaxOutputLength n b (length x)" using out d(2) m by simp
    have "Process n T b x d = Ok (d4, \<lparr>iTransformation = s', iInputStore = rest\<rparr>)"
      unfolding Process_def Let_def cnt split(2) rest using g ge d1(1) d2(1) d3(1) d4(1)
      by (simp add: guardL_def split(2) cnt)
    then show ?thesis using d4 d3 d2 d1 blk(2) by simp
  qed
qed

end
