(* ===== verification/Buffered.thy ===== *)
theory Buffered
  imports Modes
begin

section \<open>Encrypting and decrypting in pieces\<close>

text \<open>
  The contracts behind \<open>CBufferedEncryptor\<close> and \<open>CBufferedDecryptor\<close> and the round trip
  proved from them once.  \<open>transformation_pair\<close>: two block transformations that undo each
  other while their states stay related.  \<open>block_cipher\<close>: a keyed cipher without state; it
  gives a pair, and CBC mode over it gives another (both by sublocale).  \<open>block_padding\<close>: a
  padding system that fills the last block.  \<open>buffered_pair\<close> joins them.
\<close>

locale transformation_pair =
  fixes E :: "'s transformation" and D :: "'t transformation"
    and rel :: "'s \<Rightarrow> 't \<Rightarrow> bool" and n :: nat
  assumes n_pos: "0 < n"
    and step: "rel s t \<Longrightarrow> length b = n \<Longrightarrow>
      \<exists>c s' t'. E s b = Ok (c, s') \<and> length c = n \<and> D t c = Ok (b, t') \<and> rel s' t'"
begin

lemma runs_inverse:
  "rel s t \<Longrightarrow> length xs = m * n \<Longrightarrow>
    \<exists>ys s' t'. runs n E s xs ys s' \<and> runs n D t ys xs t' \<and> rel s' t'"
proof (induction m arbitrary: s t xs)
  case 0
  then show ?case by (auto intro: runs_Nil)
next
  case (Suc m)
  let ?b = "take n xs"
  have b: "length ?b = n" using Suc.prems(2) by simp
  obtain c s1 t1 where c: "E s ?b = Ok (c, s1)" "length c = n" "D t c = Ok (?b, t1)" "rel s1 t1"
    using step [OF Suc.prems(1) b] by blast
  obtain ys s' t' where "runs n E s1 (drop n xs) ys s'" "runs n D t1 ys (drop n xs) t'" "rel s' t'"
    using Suc.IH [OF c(4), of "drop n xs"] Suc.prems(2) by auto
  then show ?case
    using runs_Cons [where T = E, OF b c(1,2)] runs_Cons [where T = D, OF c(2,3) b] by (metis append_take_drop_id)
qed

end

locale block_cipher =
  fixes enc dec :: "byte list \<Rightarrow> byte list result" and blk :: nat
  assumes blk_pos: "0 < blk"
    and inverse: "length b = blk \<Longrightarrow> \<exists>c. enc b = Ok c \<and> length c = blk \<and> dec c = Ok b"

definition stateless :: "(byte list \<Rightarrow> byte list result) \<Rightarrow> unit transformation" where
  "stateless f = (\<lambda>s b. bindL (f b) (\<lambda>c. Ok (c, s)))"

sublocale block_cipher \<subseteq> raw: transformation_pair "stateless enc" "stateless dec" "(=)" blk
proof
  show "0 < blk" by (rule blk_pos)
  fix s t :: unit and b :: "byte list"
  assume "length b = blk"
  then show "\<exists>c s' t'. stateless enc s b = Ok (c, s') \<and> length c = blk \<and> stateless dec t c = Ok (b, t') \<and> s' = t'"
    using inverse [of b] by (auto simp: stateless_def)
qed

definition same_register :: "nat \<Rightarrow> unit chaining \<Rightarrow> unit chaining \<Rightarrow> bool" where
  "same_register n s t \<longleftrightarrow> iRegister s = iRegister t \<and> length (iRegister s) = n"

sublocale block_cipher \<subseteq> cbc: transformation_pair
  "CBCEncryptor_Transform blk (stateless enc)" "CBCDecryptor_Transform blk (stateless dec)" "same_register blk" blk
proof
  show "0 < blk" by (rule blk_pos)
  fix s t :: "unit chaining" and b :: "byte list"
  assume r: "same_register blk s t" and b: "length b = blk"
  have "length (XorBuf (iRegister s) b) = blk" using r b by (auto simp: same_register_def)
  from inverse [OF this] obtain c where c: "enc (XorBuf (iRegister s) b) = Ok c" "length c = blk"
      "dec c = Ok (XorBuf (iRegister s) b)" by blast
  have "XorBuf (XorBuf (iRegister s) b) (iRegister t) = b"
    using r b XorBuf_cancel [of b "iRegister s"] XorBuf_commute [of b "iRegister s"]
    unfolding same_register_def by metis
  then show "\<exists>c s' t'. CBCEncryptor_Transform blk (stateless enc) s b = Ok (c, s') \<and> length c = blk \<and>
      CBCDecryptor_Transform blk (stateless dec) t c = Ok (b, t') \<and> same_register blk s' t'"
    using r b c
    by (auto simp: CBCEncryptor_Transform_def CBCDecryptor_Transform_def stateless_def assertL_def guardL_def
        same_register_def Let_def)
qed

locale block_padding =
  fixes p :: CPadding and n :: nat and tail :: "byte list \<Rightarrow> byte list"
  assumes size: "iBlockBytes p = n"
    and max_padded: "MaxPaddedLength p m = m - m mod n + n"
    and tail_length: "length x < n \<Longrightarrow> length x + length (tail x) = n"
    and pad: "length x < n \<Longrightarrow> des_ok d \<Longrightarrow> Len d + n \<le> MaxLength d \<Longrightarrow>
      \<exists>e. PadL rnd p x d = Some (Ok e) \<and> Data e = Data d @ x @ tail x \<and> des_ok e \<and> MaxLength e = MaxLength d"
    and unpad: "length x < n \<Longrightarrow> des_ok d \<Longrightarrow> Len d + n \<le> MaxLength d \<Longrightarrow>
      \<exists>e. UnPadL p (x @ tail x) d = Ok e \<and> Data e = Data d @ x"

lemma runs_split:
  "runs n T s (xs @ xs') zs s' \<Longrightarrow> length xs = m * n \<Longrightarrow> 0 < n \<Longrightarrow>
    \<exists>ys ys' s1. zs = ys @ ys' \<and> runs n T s xs ys s1 \<and> runs n T s1 xs' ys' s'"
proof (induction m arbitrary: s xs zs)
  case 0
  then show ?case by (auto intro: runs_Nil)
next
  case (Suc m)
  from Suc.prems(1) show ?case
  proof (cases rule: runs.cases)
    case runs_Nil
    then show ?thesis using Suc.prems by simp
  next
    case (runs_Cons b c s1 us ys)
    have "xs @ xs' = b @ us" "length b \<le> length xs" using runs_Cons Suc.prems(2) by simp_all
    then obtain vs where vs: "xs = b @ vs" "us = vs @ xs'"
      by (metis append_eq_append_conv_if append_eq_conv_conj append_take_drop_id)
    then obtain zs1 zs2 s2 where "ys = zs1 @ zs2" "runs n T s1 vs zs1 s2" "runs n T s2 xs' zs2 s'"
      using Suc.IH [of s1 vs ys] runs_Cons Suc.prems(2,3) by auto
    then show ?thesis
      using vs runs_Cons runs.runs_Cons [of b n T s c s1 vs zs1 s2] by (metis append.assoc)
  qed
qed

subsection \<open>A client's calls\<close>

text \<open>
  What a client does with the buffer: any number of calls of \<open>Process\<close> and a last call of
  \<open>ProcessFinalL\<close>, all appending to one output descriptor.
\<close>

fun ProcessAll :: "nat \<Rightarrow> 's transformation \<Rightarrow> 's buffered \<Rightarrow> byte list list \<Rightarrow> TDes8 \<Rightarrow> (TDes8 \<times> 's buffered) result" where
  "ProcessAll n T b [] d = Ok (d, b)"
| "ProcessAll n T b (x # xs) d = bindL (Process n T b x d) (\<lambda>(d, b). ProcessAll n T b xs d)"

definition encrypt_all ::
    "(nat \<Rightarrow> byte list) \<Rightarrow> nat \<Rightarrow> 's transformation \<Rightarrow> CPadding \<Rightarrow> 's \<Rightarrow> byte list list \<Rightarrow> byte list \<Rightarrow> nat \<Rightarrow> byte list result option" where
  "encrypt_all rnd n T p s chunks x N =
     (case ProcessAll n T \<lparr>iTransformation = s, iInputStore = []\<rparr> chunks (new_des N) of
        Inl e \<Rightarrow> Some (Leave e)
      | Inr (d, b) \<Rightarrow> map_option (\<lambda>m. bindL m (\<lambda>(d, b). Ok (Data d))) (EncryptFinalL rnd n T p b x d))"

definition decrypt_all ::
    "nat \<Rightarrow> 's transformation \<Rightarrow> CPadding \<Rightarrow> 's \<Rightarrow> byte list list \<Rightarrow> byte list \<Rightarrow> nat \<Rightarrow> byte list result" where
  "decrypt_all n T p s chunks x N =
     bindL (ProcessAll n T \<lparr>iTransformation = s, iInputStore = []\<rparr> chunks (new_des N)) (\<lambda>(d, b).
     bindL (DecryptFinalL n T p b x d) (\<lambda>(d, b). Ok (Data d)))"

lemma new_des_props: "des_ok (new_des n)" "Len (new_des n) = 0" "MaxLength (new_des n) = n" "Data (new_des n) = []"
  by (simp_all add: new_des_def des_ok_def MaxLength_def Data_def)

lemma split_blocks:
  assumes "0 < n"
  obtains us r k where "xs = us @ r" "length us = k * n" "length r < (n :: nat)"
proof
  let ?k = "length xs div n"
  show "xs = take (?k * n) xs @ drop (?k * n) xs" by simp
  have "?k * n \<le> length xs" by (simp only: div_times_less_eq_dividend)
  then show "length (take (?k * n) xs) = ?k * n" by simp
  show "length (drop (?k * n) xs) < n" using assms by (simp add: minus_div_mult_eq_mod)
qed

text \<open>Whatever the calls, the whole blocks of all the input are transformed in order and the rest is kept.\<close>

lemma ProcessAll_Ok:
  "iInputStore b @ concat cs = xs @ rest \<Longrightarrow> length xs = m * n \<Longrightarrow> length rest < n \<Longrightarrow> length (iInputStore b) < n \<Longrightarrow> 0 < n \<Longrightarrow>
    runs n T (iTransformation b) xs ys s' \<Longrightarrow> des_ok d \<Longrightarrow> Len d + length xs \<le> MaxLength d \<Longrightarrow>
    \<exists>e. ProcessAll n T b cs d = Ok (e, \<lparr>iTransformation = s', iInputStore = rest\<rparr>) \<and> Data e = Data d @ ys \<and>
      des_ok e \<and> MaxLength e = MaxLength d"
proof (induction cs arbitrary: b xs m ys d)
  case Nil
  then have "length (iInputStore b) = m * n + length rest" using arg_cong [OF Nil.prems(1), of length] by simp
  then have "m = 0" using Nil.prems(4) by (cases m) simp_all
  then have "xs = []" "rest = iInputStore b" using Nil.prems(1,2) by simp_all
  moreover from this(1) Nil.prems(5,6) have "ys = []" "s' = iTransformation b" by (auto elim: runs_emptyE)
  ultimately show ?case using Nil.prems(7) by simp
next
  case (Cons c cs)
  obtain us r k where t: "iInputStore b @ c = us @ r" and us: "length us = k * n" and r: "length r < n"
    using split_blocks [OF Cons.prems(5)] by blast
  have tot: "us @ r @ concat cs = xs @ rest"
    using Cons.prems(1) arg_cong [OF t, of "\<lambda>l. l @ concat cs"] by simp
  have "k * n \<le> m * n"
  proof -
    have "k * n < (m + 1) * n" using arg_cong [OF tot, of length] us Cons.prems(2,3) by simp
    then have "k < m + 1" by (simp only: mult_less_cancel2)
    then show ?thesis by simp
  qed
  then have "length us \<le> length xs" using us Cons.prems(2) by simp
  then obtain ws where vs: "xs = us @ ws"
    using tot by (metis append_eq_append_conv_if append_take_drop_id)
  obtain ys1 ys2 s1 where run: "ys = ys1 @ ys2" "runs n T (iTransformation b) us ys1 s1" "runs n T s1 ws ys2 s'"
    using runs_split [where T = T, OF Cons.prems(6) [unfolded vs] us Cons.prems(5)] by blast
  have cap: "Len d + length us + length ws \<le> MaxLength d"
    using Cons.prems(8) by (simp add: vs)
  obtain e where e: "Process n T b c d = Ok (e, \<lparr>iTransformation = s1, iInputStore = r\<rparr>)" "Data e = Data d @ ys1"
      "des_ok e" "MaxLength e = MaxLength d"
    using Process_Ok [OF Cons.prems(5) t r Cons.prems(4) run(2) Cons.prems(7)] cap by auto
  have Len: "Len e = Len d + length us"
    using length_Data [OF e(3)] length_Data [OF Cons.prems(7)] e(2) runs_length [OF run(2)] by simp
  have rest: "r @ concat cs = ws @ rest" using tot by (simp add: vs)
  have len: "length ws = (m - k) * n" using Cons.prems(2) us by (simp add: vs diff_mult_distrib)
  obtain f where "ProcessAll n T \<lparr>iTransformation = s1, iInputStore = r\<rparr> cs e =
        Ok (f, \<lparr>iTransformation = s', iInputStore = rest\<rparr>)" "Data f = Data e @ ys2" "des_ok f" "MaxLength f = MaxLength e"
    using Cons.IH [of "\<lparr>iTransformation = s1, iInputStore = r\<rparr>" ws "m - k" ys2 e] rest len r
      Cons.prems(3,5) run(3) e(3,4) cap Len by auto
  then show ?case using e(1,2,4) run(1) by simp
qed

locale buffered_pair = transformation_pair E D rel n + block_padding p n tail
  for E :: "'s transformation" and D :: "'t transformation" and rel n p tail
begin

text \<open>The last call of the encryptor: whole blocks, then the padded rest, as one run.\<close>

lemma encrypt_final:
  assumes "rel (iTransformation b) t" "length (iInputStore b) < n" "des_ok d"
    and total: "iInputStore b @ x = xs @ rest" "length xs = m * n" "length rest < n"
    and cap: "Len d + length xs + n \<le> MaxLength d" and aligned: "Len d mod n = 0"
  shows "\<exists>e b' ys t'. EncryptFinalL rnd n E p b x d = Some (Ok (e, b')) \<and> Data e = Data d @ ys \<and>
    des_ok e \<and> MaxLength e = MaxLength d \<and>
    iInputStore b' = [] \<and> runs n D t ys (xs @ rest @ tail rest) t' \<and> rel (iTransformation b') t'"
proof -
  obtain ys s1 t1 where r1: "runs n E (iTransformation b) xs ys s1" "runs n D t ys xs t1" "rel s1 t1"
    using runs_inverse [OF assms(1) total(2)] by blast
  have one: "length (rest @ tail rest) = 1 * n" using tail_length [OF total(3)] by simp
  obtain zs s2 t2 where r2: "runs n E s1 (rest @ tail rest) zs s2" "runs n D t1 zs (rest @ tail rest) t2" "rel s2 t2"
    using runs_inverse [OF r1(3) one] by blast
  obtain f where f: "Process n E b x d = Ok (f, \<lparr>iTransformation = s1, iInputStore = rest\<rparr>)" "Data f = Data d @ ys"
      "des_ok f" "MaxLength f = MaxLength d"
    using Process_Ok [OF n_pos total(1,3) assms(2) r1(1) assms(3)] cap by auto
  have Len: "Len f = Len d + length xs"
    using length_Data [OF f(3)] f(2) length_Data [OF assms(3)] runs_length [OF r1(1)] by simp
  obtain g where g: "PadL rnd p rest f = Some (Ok g)" "Data g = Data f @ rest @ tail rest" "des_ok g"
      "MaxLength g = MaxLength f"
    using pad [OF total(3) f(3)] cap Len f(4) by auto
  have Leng: "Len g = Len f + n" using length_Data [OF g(3)] g(2) length_Data [OF f(3)] one by simp
  obtain h where h: "transform_blocks n E 1 s1 g (length (Data f)) = Ok (h, s2)" "Data h = Data f @ zs" "des_ok h"
      "MaxLength h = MaxLength g"
    using transform_blocks_Ok [OF r2(1) g(3,2) one n_pos] by blast
  have cnt: "(Len g - Len f + n - 1) div n = 1"
    using Leng n_pos by (auto intro!: div_nat_eqI)
  have len_tot: "length (iInputStore b) + length x = m * n + length rest"
    using arg_cong [OF total(1), of length] total(2) by simp
  have guard: "MaxFinalOutputLengthEncrypt p b (length x) \<le> MaxLength d"
    using total(2,3) cap by (simp add: MaxFinalOutputLengthEncrypt_def max_padded len_tot)
  have "Len g mod n = 0" using aligned Leng Len total(2) by simp
  then have "EncryptFinalL rnd n E p b x d = Some (Ok (h, \<lparr>iTransformation = s2, iInputStore = []\<rparr>))"
    using guard f(1) g(1) h(1) cnt length_Data [OF f(3)]
    by (simp add: EncryptFinalL_def guardL_def assertL_def)
  moreover have "runs n D t (ys @ zs) (xs @ rest @ tail rest) t2"
    by (rule runs_append [OF r1(2) r2(2)])
  ultimately show ?thesis
    using f h g r2(3) by auto
qed

text \<open>The last call of the decryptor on a ciphertext whose padded plaintext is \<open>xs @ rest @ tail rest\<close>.\<close>

lemma decrypt_final:
  assumes "length (iInputStore c) < n" "des_ok d" "iInputStore c @ z = ys" "z \<noteq> []"
    and r: "runs n D (iTransformation c) ys (xs @ rest @ tail rest) t'"
    and rest: "length xs = m * n" "length rest < n"
    and cap: "Len d + length ys \<le> MaxLength d"
  shows "\<exists>e c'. DecryptFinalL n D p c z d = Ok (e, c') \<and> Data e = Data d @ xs @ rest"
proof -
  have one: "length (rest @ tail rest) = n" using tail_length [OF rest(2)] by simp
  have ys: "length ys = m * n + n" using runs_length [OF r] rest(1) one by simp
  obtain us vs t1 where uv: "xs @ rest @ tail rest = us @ vs" "runs n D (iTransformation c) (take (m * n) ys) us t1"
      "runs n D t1 (drop (m * n) ys) vs t'"
    using runs_split [where T = D and xs = "take (m * n) ys" and xs' = "drop (m * n) ys" and m = m] r ys n_pos
    unfolding append_take_drop_id by (metis le_add1 length_take min.absorb2)
  have "length us = m * n" using runs_length [OF uv(2)] ys by simp
  then have uv': "us = xs" "vs = rest @ tail rest" using uv(1) rest(1) by simp_all
  have len_z: "length z + length (iInputStore c) = m * n + n"
    using arg_cong [OF assms(3), of length] ys by simp
  let ?k = "length z - n"
  have first: "\<exists>e c1. (if ?k > 0 then bindL (Process n D c (take ?k z) d) (\<lambda>(d, b).
        bindL (assertL (iInputStore b = [])) (\<lambda>_. Ok (d, b))) else Ok (d, c)) = Ok (e, c1) \<and>
      Data e = Data d @ xs \<and> des_ok e \<and> MaxLength e = MaxLength d \<and> Len e = Len d + m * n \<and>
      length (iInputStore c1) < n \<and> iTransformation c1 = t1 \<and> iInputStore c1 @ drop ?k z = drop (m * n) ys"
  proof (cases "?k > 0")
    case True
    have k: "?k = m * n - length (iInputStore c)" using True len_z by linarith
    have "iInputStore c @ take ?k z = take (m * n) ys" "drop ?k z = drop (m * n) ys"
      using True len_z assms(1) k by (auto simp: assms(3) [symmetric])
    moreover from this obtain e where "Process n D c (take ?k z) d = Ok (e, \<lparr>iTransformation = t1, iInputStore = []\<rparr>)"
        "Data e = Data d @ xs" "des_ok e" "MaxLength e = MaxLength d"
      using Process_Ok [OF n_pos _ _ assms(1) uv(2) assms(2), of "take ?k z" "[]"] cap ys n_pos uv'(1) by auto
    ultimately show ?thesis
      using True n_pos length_Data [of e] length_Data [OF assms(2)] rest(1) by (simp add: assertL_def guardL_def)
  next
    case False
    then have "m = 0" using len_z assms(1) by (cases m) auto
    then show ?thesis using False uv(2) uv' rest(1) assms by (auto elim: runs_emptyE)
  qed
  then obtain e c1 where e: "(if ?k > 0 then bindL (Process n D c (take ?k z) d) (\<lambda>(d, b).
        bindL (assertL (iInputStore b = [])) (\<lambda>_. Ok (d, b))) else Ok (d, c)) = Ok (e, c1)"
      "Data e = Data d @ xs" "des_ok e" "MaxLength e = MaxLength d" "Len e = Len d + m * n"
      "length (iInputStore c1) < n" "iTransformation c1 = t1" "iInputStore c1 @ drop ?k z = drop (m * n) ys"
    by blast
  have new: "des_ok (new_des n)" "Len (new_des n) = 0" "MaxLength (new_des n) = n" "Data (new_des n) = []"
    by (simp_all add: new_des_def des_ok_def MaxLength_def Data_def)
  obtain g where g: "Process n D c1 (drop ?k z) (new_des n) = Ok (g, \<lparr>iTransformation = t', iInputStore = []\<rparr>)"
      "Data g = rest @ tail rest"
    using Process_Ok [OF n_pos _ _ e(6), of "drop ?k z" "drop (m * n) ys" "[]" D vs t' "new_des n"] e(7,8) uv(3) uv'(2)
      new n_pos ys by auto
  obtain h where h: "UnPadL p (rest @ tail rest) e = Ok h" "Data h = Data e @ rest"
    using unpad [OF rest(2) e(3)] cap e(4,5) ys by auto
  have guards: "int (MaxLength d) \<ge> MaxFinalOutputLengthDecrypt p c (length z)"
  proof -
    have "length z + length (iInputStore c) \<le> MaxLength d" using cap ys len_z by linarith
    then show ?thesis unfolding MaxFinalOutputLengthDecrypt_def MaxUnPaddedLength_def by linarith
  qed
  show ?thesis
    using guards e(1) g h len_z n_pos assms(4) e(2)
    by (simp add: DecryptFinalL_def size assertL_def guardL_def Let_def)
qed

text \<open>Decrypting in any pieces what was encrypted in any pieces gives the data back.\<close>

lemma encrypt_decrypt_all:
  assumes "rel s t" and N: "length (concat cs @ x) + n \<le> N"
  shows "\<exists>C. encrypt_all rnd n E p s cs x N = Some (Ok C) \<and>
    length C = length (concat cs @ x) - length (concat cs @ x) mod n + n \<and>
    (\<forall>zs z. concat zs @ z = C \<longrightarrow> z \<noteq> [] \<longrightarrow> decrypt_all n D p t zs z N = Ok (concat cs @ x))"
proof -
  let ?c = "concat cs"
  obtain us r k where c: "?c = us @ r" and us: "length us = k * n" and r: "length r < n"
    using split_blocks [OF n_pos] by blast
  have knN: "k * n \<le> N" using N us by (simp add: c)
  obtain ys1 s1 t1 where r1: "runs n E s us ys1 s1" "runs n D t ys1 us t1" "rel s1 t1"
    using runs_inverse [OF assms(1) us] by blast
  let ?b = "\<lparr>iTransformation = s, iInputStore = []\<rparr>" and ?b1 = "\<lparr>iTransformation = s1, iInputStore = r\<rparr>"
  obtain d1 where d1: "ProcessAll n E ?b cs (new_des N) = Ok (d1, ?b1)" "Data d1 = ys1" "des_ok d1" "MaxLength d1 = N"
    using ProcessAll_Ok [of ?b cs us r k n E ys1 s1 "new_des N"] us r n_pos r1(1) knN c by (auto simp: new_des_props)
  have Len1: "Len d1 = k * n" using length_Data [OF d1(3)] d1(2) runs_length [OF r1(1)] us by simp
  obtain vs q j where t: "r @ x = vs @ q" and vs: "length vs = j * n" and q: "length q < n"
    using split_blocks [OF n_pos] by blast
  have whole: "us @ vs @ q = ?c @ x" using t by (simp add: c)
  have lens: "length (?c @ x) = (k + j) * n + length q"
    using arg_cong [OF whole, of length] us vs by (simp add: distrib_right)
  have cap: "Len d1 + length vs + n \<le> MaxLength d1"
    using N lens Len1 d1(4) vs by (simp add: distrib_right)
  have al: "Len d1 mod n = 0" using Len1 by simp
  have h1: "rel (iTransformation ?b1) t1" using r1(3) by simp
  have h2: "length (iInputStore ?b1) < n" using r by simp
  have h3: "iInputStore ?b1 @ x = vs @ q" using t by simp
  obtain e b' ys2 t2 where e: "EncryptFinalL rnd n E p ?b1 x d1 = Some (Ok (e, b'))" "Data e = Data d1 @ ys2"
      "runs n D t1 ys2 (vs @ q @ tail q) t2"
    using encrypt_final [OF h1 h2 d1(3) h3 vs q cap al] by blast
  have C: "runs n D t (ys1 @ ys2) ((us @ vs) @ q @ tail q) t2"
    using runs_append [OF r1(2) e(3)] by simp
  have uv: "length (us @ vs) = (k + j) * n" using us vs by (simp add: distrib_right)
  have "length (ys1 @ ys2) = (k + j) * n + n"
    using runs_length [OF C] uv tail_length [OF q] by simp
  moreover have "length (?c @ x) - length (?c @ x) mod n = (k + j) * n"
    unfolding lens using q by simp
  moreover have "encrypt_all rnd n E p s cs x N = Some (Ok (ys1 @ ys2))"
    using d1(1,2) e(1,2) by (simp add: encrypt_all_def)
  moreover have "decrypt_all n D p t zs z N = Ok (?c @ x)" if z: "concat zs @ z = ys1 @ ys2" "z \<noteq> []" for zs z
  proof -
    define i where "i = length (concat zs) div n"
    let ?P = "take (i * n) (concat zs)" and ?S = "drop (i * n) (concat zs)"
    have P: "length ?P = i * n" by (simp add: i_def)
    have S: "length ?S < n" using n_pos by (simp add: i_def minus_div_mult_eq_mod)
    have ys: "ys1 @ ys2 = ?P @ (?S @ z)" using z(1) by (metis append.assoc append_take_drop_id)
    obtain A B t3 where AB: "(us @ vs) @ q @ tail q = A @ B" "runs n D t ?P A t3" "runs n D t3 (?S @ z) B t2"
      using runs_split [OF C [unfolded ys] P n_pos] by blast
    have "i \<le> k + j"
    proof -
      have "length (concat zs) < (k + j + 1) * n"
        using arg_cong [OF z(1), of length] z(2) \<open>length (ys1 @ ys2) = (k + j) * n + n\<close> by (cases z) auto
      then have "i < k + j + 1" using n_pos by (simp add: i_def less_mult_imp_div_less)
      then show ?thesis by simp
    qed
    have lA: "length A = i * n" using runs_length [OF AB(2)] P by simp
    have iin: "i * n \<le> (k + j) * n" using \<open>i \<le> k + j\<close> by simp
    then have Ale: "length A \<le> length (us @ vs)" using lA uv by simp
    let ?W = "drop (i * n) (us @ vs)"
    have A: "us @ vs = A @ ?W" "B = ?W @ q @ tail q"
    proof -
      have "take (i * n) ((us @ vs) @ q @ tail q) = A" "drop (i * n) ((us @ vs) @ q @ tail q) = B"
        using AB(1) lA by simp_all
      moreover have "i * n \<le> length (us @ vs)" using iin uv by simp
      ultimately have "take (i * n) (us @ vs) = A" "?W @ q @ tail q = B"
        by (simp_all only: take_append drop_append diff_is_0_eq' take_0 drop_0 append_Nil2)
      then show "us @ vs = A @ ?W" "B = ?W @ q @ tail q"
        using append_take_drop_id [of "i * n" "us @ vs"] by simp_all
    qed
    have W: "length ?W = (k + j - i) * n" using uv by (simp only: length_drop diff_mult_distrib)
    let ?d = "\<lparr>iTransformation = t, iInputStore = []\<rparr>" and ?d3 = "\<lparr>iTransformation = t3, iInputStore = ?S\<rparr>"
    have "i * n \<le> N" using iin N lens by linarith
    then obtain f where f: "ProcessAll n D ?d zs (new_des N) = Ok (f, ?d3)" "Data f = A" "des_ok f" "MaxLength f = N"
      using ProcessAll_Ok [of ?d zs ?P ?S i n D A t3 "new_des N"] P S n_pos AB(2) by (auto simp: new_des_props)
    have Lf: "Len f = i * n" using length_Data [OF f(3)] f(2) lA by simp
    have "length (?S @ z) = (k + j) * n + n - i * n"
      using arg_cong [OF ys, of length] P \<open>length (ys1 @ ys2) = (k + j) * n + n\<close> by simp
    then have "Len f + length (?S @ z) \<le> MaxLength f" using Lf f(4) N lens iin by linarith
    then obtain g c' where "DecryptFinalL n D p ?d3 z f = Ok (g, c')" "Data g = Data f @ ?W @ q"
      using decrypt_final [of ?d3 f z "?S @ z" ?W q t2 "k + j - i"] S f(3) z(2) AB(3) A(2) W q by auto
    moreover have "A @ ?W @ q = ?c @ x" using A(1) whole by (metis append.assoc)
    ultimately show ?thesis using f(1,2) by (simp add: decrypt_all_def)
  qed
  ultimately show ?thesis by auto
qed

end

end
