(* ===== verification/Arc4.thy ===== *)
theory Arc4
  imports Buffered "HOL-Library.Multiset"
begin

section \<open>ARC4 and the stream ciphers (\<open>arc4.cpp\<close>, \<open>mstreamcipher.cpp\<close>, \<open>nullcipher.cpp\<close>)\<close>

text \<open>
  The state of \<open>CARC4\<close> is a permutation of the bytes and two indices; each byte of output
  exchanges two entries.  The invariant is that the array stays a permutation, and the
  stream makes the cipher its own inverse.
\<close>

record CARC4 =
  iState :: "byte list"
  ix :: byte
  iy :: byte
  iKey :: "byte list"
  iDiscardBytes :: nat

definition GenerateByte :: "CARC4 \<Rightarrow> byte \<times> CARC4" where
  "GenerateByte s =
     (let a = iState s ! unat (ix s);
          y = iy s + a;
          b = iState s ! unat y;
          st = (iState s)[unat (ix s) := b, unat y := a]
      in (st ! unat (a + b), s\<lparr>iState := st, ix := ix s + 1, iy := y\<rparr>))"

fun DoProcess :: "CARC4 \<Rightarrow> byte list \<Rightarrow> byte list \<times> CARC4" where
  "DoProcess s [] = ([], s)"
| "DoProcess s (x # xs) =
     (let (k, s) = GenerateByte s; (ys, s) = DoProcess s xs in ((x XOR k) # ys, s))"

fun DiscardBytes :: "nat \<Rightarrow> CARC4 \<Rightarrow> CARC4" where
  "DiscardBytes 0 s = s"
| "DiscardBytes (Suc n) s = DiscardBytes n (snd (GenerateByte s))"

text \<open>One turn of the key loop: the array, \<open>keyIndex\<close> and \<open>stateIndex\<close>.\<close>

definition sbox_turn :: "byte list \<Rightarrow> nat \<Rightarrow> byte list \<times> nat \<times> byte \<Rightarrow> byte list \<times> nat \<times> byte" where
  "sbox_turn key i = (\<lambda>(st, keyIndex, stateIndex).
     let a = st ! i;
         stateIndex = stateIndex + (key ! keyIndex + a);
         st = st[i := st ! unat stateIndex, unat stateIndex := a];
         keyIndex = (if keyIndex + 1 \<ge> length key then 0 else keyIndex + 1)
     in (st, keyIndex, stateIndex))"

definition GenerateSBox :: "CARC4 \<Rightarrow> CARC4" where
  "GenerateSBox s =
     (let (st, _, _) = fold (sbox_turn (iKey s)) [0..<256] (map of_nat [0..<256], 0, 0)
      in DiscardBytes (iDiscardBytes s) (s\<lparr>iState := st\<rparr>))"

definition NewCARC4 :: "byte list \<Rightarrow> nat \<Rightarrow> CARC4" where
  "NewCARC4 aKey aDiscardBytes =
     GenerateSBox \<lparr>iState = replicate 256 0, ix = 1, iy = 0, iKey = aKey, iDiscardBytes = aDiscardBytes\<rparr>"

definition ResetARC4 :: "CARC4 \<Rightarrow> CARC4" where
  "ResetARC4 s = GenerateSBox (s\<lparr>ix := 1, iy := 0\<rparr>)"

text \<open>\<open>CStreamCipher::Process\<close>: append the input and transform it in place; the null cipher does nothing.\<close>

definition StreamProcess :: "('s \<Rightarrow> byte list \<Rightarrow> byte list \<times> 's) \<Rightarrow> 's \<Rightarrow> byte list \<Rightarrow> TDes8 \<Rightarrow> (TDes8 \<times> 's) result" where
  "StreamProcess process s aInput aOutput =
     bindL (guardL (int (MaxLength aOutput) - int (Len aOutput) \<ge> int (length aInput)) ECryptoPanicOutputDescriptorOverflow) (\<lambda>_.
     bindL (Append aOutput aInput) (\<lambda>d.
       let n = length aInput; (ys, s) = process s (take n (drop (Len aOutput) (Buf d)))
       in Ok (d\<lparr>Buf := take (Len aOutput) (Buf d) @ ys @ drop (Len aOutput + n) (Buf d)\<rparr>, s)))"

definition NullCipher_DoProcess :: "unit \<Rightarrow> byte list \<Rightarrow> byte list \<times> unit" where
  "NullCipher_DoProcess s aData = (aData, s)"

subsection \<open>The array stays a permutation\<close>

definition is_sbox :: "byte list \<Rightarrow> bool" where
  "is_sbox st \<longleftrightarrow> mset st = mset (map of_nat [0..<256])"

lemma is_sbox_length: "is_sbox st \<Longrightarrow> length st = 256"
  unfolding is_sbox_def by (metis size_mset length_map length_upt minus_nat.diff_0)

lemma unat_less_256 [simp]: "unat (a :: byte) < 256"
  using unsigned_less [of a] by simp

lemma is_sbox_swap:
  assumes "is_sbox st" "i < 256" "j < 256"
  shows "is_sbox (st[i := st ! j, j := st ! i])"
  using assms is_sbox_length [OF assms(1)] by (simp add: is_sbox_def mset_swap)

lemma GenerateByte_sbox: "is_sbox (iState s) \<Longrightarrow> is_sbox (iState (snd (GenerateByte s)))"
  using is_sbox_swap [of "iState s" "unat (ix s)" "unat (iy s + iState s ! unat (ix s))"]
  by (simp add: GenerateByte_def Let_def)

lemma DiscardBytes_sbox: "is_sbox (iState s) \<Longrightarrow> is_sbox (iState (DiscardBytes n s))"
  by (induction n arbitrary: s) (simp_all add: GenerateByte_sbox)

lemma DoProcess_sbox: "is_sbox (iState s) \<Longrightarrow> is_sbox (iState (snd (DoProcess s xs)))"
proof (induction xs arbitrary: s)
  case (Cons x xs)
  obtain k t where "GenerateByte s = (k, t)" by fastforce
  moreover obtain ys u where "DoProcess t xs = (ys, u)" by fastforce
  ultimately show ?case using Cons.IH [of t] GenerateByte_sbox [OF Cons.prems] by simp
qed simp

lemma sbox_turns:
  "is_sbox (fst s) \<Longrightarrow> \<forall>i \<in> set is. i < 256 \<Longrightarrow> is_sbox (fst (fold (sbox_turn key) is s))"
proof (induction "is" arbitrary: s)
  case (Cons i "is")
  obtain st k x where s: "s = (st, k, x)" by (cases s)
  have "is_sbox (fst (sbox_turn key i s))"
    using is_sbox_swap [of st i "unat (x + (key ! k + st ! i))"] Cons.prems by (simp add: s sbox_turn_def Let_def)
  then show ?case using Cons by simp
qed simp

lemma NewCARC4_sbox: "is_sbox (iState (NewCARC4 key n))"
proof -
  obtain st k x where f: "fold (sbox_turn key) [0..<256] (map of_nat [0..<256], 0, 0) = (st, k, x)"
    by (cases "fold (sbox_turn key) [0..<256] (map of_nat [0..<256], 0, 0)")
  have "is_sbox st"
    using sbox_turns [of "(map of_nat [0..<256], 0, 0)" "[0..<256]" key] by (simp add: f is_sbox_def)
  then show ?thesis by (simp add: NewCARC4_def GenerateSBox_def f DiscardBytes_sbox)
qed

lemma DoProcess_involution: "DoProcess s xs = (ys, t) \<Longrightarrow> DoProcess s ys = (xs, t)"
proof (induction xs arbitrary: s ys t)
  case (Cons x xs)
  obtain k u where k: "GenerateByte s = (k, u)" by fastforce
  obtain zs v where z: "DoProcess u xs = (zs, v)" by fastforce
  have "ys = (x XOR k) # zs" "t = v" using Cons.prems by (simp_all add: k z)
  then show ?case using Cons.IH [OF z] by (simp add: k xor.assoc)
qed simp

lemma DoProcess_append:
  "DoProcess s (xs @ ys) = (let (us, s) = DoProcess s xs; (vs, s) = DoProcess s ys in (us @ vs, s))"
  by (induction xs arbitrary: s) (auto simp: Let_def split: prod.splits)

lemma length_DoProcess: "length (fst (DoProcess s xs)) = length xs"
proof (induction xs arbitrary: s)
  case (Cons x xs)
  obtain k u where "GenerateByte s = (k, u)" by fastforce
  moreover obtain zs v where "DoProcess u xs = (zs, v)" by fastforce
  ultimately show ?case using Cons.IH [of u] by simp
qed simp

text \<open>
  C17: the state array of ARC4 is a permutation of all bytes after construction with any key
  and any number of discarded bytes, and after processing any data.
\<close>

theorem ARC4_permutation:
  "distinct (iState (snd (DoProcess (NewCARC4 key n) xs))) \<and> set (iState (snd (DoProcess (NewCARC4 key n) xs))) = UNIV"
proof -
  let ?st = "iState (snd (DoProcess (NewCARC4 key n) xs))"
  have m: "mset ?st = mset (map of_nat [0..<256] :: byte list)"
    using DoProcess_sbox [OF NewCARC4_sbox] by (simp add: is_sbox_def)
  have inj: "inj_on (of_nat :: nat \<Rightarrow> byte) (set [0..<256])"
    by (rule inj_on_inverseI [of _ unat]) (simp add: unat_of_nat take_bit_nat_eq_self_iff)
  have "x \<in> of_nat ` {0..<256}" for x :: byte by (rule image_eqI [of _ _ "unat x"]) simp_all
  then have "set (map of_nat [0..<256]) = (UNIV :: byte set)" by auto
  moreover have "distinct (map of_nat [0..<256] :: byte list)" using inj by (simp add: distinct_map)
  ultimately show ?thesis using m by (metis mset_eq_setD mset_eq_imp_distinct_iff)
qed



end
