(* ===== verification/Rc2.thy ===== *)
theory Rc2
  imports Buffered
begin

section \<open>RC2 (\<open>rc2.cpp\<close>, \<open>rc2table.h\<close>)\<close>

text \<open>
  Key expansion into sixty-four 16 bit words and the two transformations of a block of four
  such words.  A round is mixing, and after the rounds 4 and 10 mashing; the decryptor's
  rounds undo them one by one, so it inverts the encryptor for every expanded key.
\<close>

definition PITABLE :: "byte list" where
  "PITABLE = [
    217, 120, 249, 196, 25, 221, 181, 237, 40, 233, 253, 121, 74, 160, 216, 157,
    198, 126, 55, 131, 43, 118, 83, 142, 98, 76, 100, 136, 68, 139, 251, 162,
    23, 154, 89, 245, 135, 179, 79, 19, 97, 69, 109, 141, 9, 129, 125, 50,
    189, 143, 64, 235, 134, 183, 123, 11, 240, 149, 33, 34, 92, 107, 78, 130,
    84, 214, 101, 147, 206, 96, 178, 28, 115, 86, 192, 20, 167, 140, 241, 220,
    18, 117, 202, 31, 59, 190, 228, 209, 66, 61, 212, 48, 163, 60, 182, 38,
    111, 191, 14, 218, 70, 105, 7, 87, 39, 242, 29, 155, 188, 148, 67, 3,
    248, 17, 199, 246, 144, 239, 62, 231, 6, 195, 213, 47, 200, 102, 30, 215,
    8, 232, 234, 222, 128, 82, 238, 247, 132, 170, 114, 172, 53, 77, 106, 42,
    150, 26, 210, 113, 90, 21, 73, 116, 75, 159, 208, 94, 4, 24, 164, 236,
    194, 224, 65, 110, 15, 81, 203, 204, 36, 145, 175, 80, 161, 244, 112, 57,
    153, 124, 58, 133, 35, 184, 180, 122, 252, 2, 54, 91, 37, 85, 151, 49,
    45, 93, 250, 152, 227, 138, 146, 174, 5, 223, 41, 16, 103, 108, 186, 201,
    211, 0, 230, 207, 225, 158, 168, 44, 99, 22, 1, 63, 88, 226, 137, 169,
    13, 56, 52, 27, 171, 51, 255, 176, 187, 72, 12, 95, 185, 177, 205, 46,
    197, 243, 219, 71, 229, 165, 156, 119, 10, 166, 32, 104, 254, 127, 193, 173]"

definition KRC2MaxKeySizeBytes :: nat where "KRC2MaxKeySizeBytes = 128"
definition KRC2ExpandedKeyLen :: nat where "KRC2ExpandedKeyLen = 64"
definition KRC2BlockBytes :: nat where "KRC2BlockBytes = 8"

text \<open>\<open>SetKey\<close>: the array \<open>L\<close> of 128 bytes is filled upwards, cut to the effective length, and refilled downwards.\<close>

definition rc2_fill :: "nat \<Rightarrow> byte list \<Rightarrow> byte list" where
  "rc2_fill keyLen L =
     fold (\<lambda>i L. L[i := PITABLE ! unat ((L ! (i - 1) + L ! (i - keyLen)) AND 255)]) [keyLen..<KRC2MaxKeySizeBytes] L"

definition rc2_reduce :: "nat \<Rightarrow> byte list \<Rightarrow> byte list" where
  "rc2_reduce bits L =
     (let T8 = (bits + 7) div 8;
          TM = drop_bit ((8 - bits mod 8) mod 8) 255;
          L = L[128 - T8 := PITABLE ! unat (L ! (128 - T8) AND TM)]
      in fold (\<lambda>i L. L[i := PITABLE ! unat (L ! (i + 1) XOR L ! (i + T8))]) (rev [0..<128 - T8]) L)"

definition RC2_SetKey :: "byte list \<Rightarrow> nat \<Rightarrow> 16 word list" where
  "RC2_SetKey aKey aEffectiveKeyLenBits =
     (let L = rc2_reduce aEffectiveKeyLenBits
            (rc2_fill (length aKey) (aKey @ replicate (KRC2MaxKeySizeBytes - length aKey) 0))
      in map (\<lambda>i. ucast (L ! (2 * i)) + push_bit 8 (ucast (L ! (2 * i + 1)))) [0..<KRC2ExpandedKeyLen])"

type_synonym rc2_block = "16 word \<times> 16 word \<times> 16 word \<times> 16 word"

text \<open>One round of the encryptor and of the decryptor.\<close>

definition rc2_mix :: "16 word list \<Rightarrow> nat \<Rightarrow> rc2_block \<Rightarrow> rc2_block" where
  "rc2_mix iK i = (\<lambda>(R0, R1, R2, R3).
     let R0 = rotlFixed (R0 + ((R1 AND NOT R3) + (R2 AND R3) + iK ! (4 * i + 0))) 1;
         R1 = rotlFixed (R1 + ((R2 AND NOT R0) + (R3 AND R0) + iK ! (4 * i + 1))) 2;
         R2 = rotlFixed (R2 + ((R3 AND NOT R1) + (R0 AND R1) + iK ! (4 * i + 2))) 3;
         R3 = rotlFixed (R3 + ((R0 AND NOT R2) + (R1 AND R2) + iK ! (4 * i + 3))) 5
     in (R0, R1, R2, R3))"

definition rc2_mash :: "16 word list \<Rightarrow> rc2_block \<Rightarrow> rc2_block" where
  "rc2_mash iK = (\<lambda>(R0, R1, R2, R3).
     let R0 = R0 + iK ! unat (R3 AND 63);
         R1 = R1 + iK ! unat (R0 AND 63);
         R2 = R2 + iK ! unat (R1 AND 63);
         R3 = R3 + iK ! unat (R2 AND 63)
     in (R0, R1, R2, R3))"

definition rc2_round :: "16 word list \<Rightarrow> nat \<Rightarrow> rc2_block \<Rightarrow> rc2_block" where
  "rc2_round iK i s = (let s = rc2_mix iK i s in if i = 4 \<or> i = 10 then rc2_mash iK s else s)"

definition RC2Encryptor_Transform :: "16 word list \<Rightarrow> byte list \<Rightarrow> byte list result" where
  "RC2Encryptor_Transform iK aBlock =
     bindL (assertL (length aBlock = KRC2BlockBytes)) (\<lambda>_.
       Ok (PutBlockLittleEndian (fold (rc2_round iK) [0..<16] (GetBlockLittleEndian aBlock))))"

definition rc2_unmash :: "16 word list \<Rightarrow> rc2_block \<Rightarrow> rc2_block" where
  "rc2_unmash iK = (\<lambda>(R0, R1, R2, R3).
     let R3 = R3 - iK ! unat (R2 AND 63);
         R2 = R2 - iK ! unat (R1 AND 63);
         R1 = R1 - iK ! unat (R0 AND 63);
         R0 = R0 - iK ! unat (R3 AND 63)
     in (R0, R1, R2, R3))"

definition rc2_unmix :: "16 word list \<Rightarrow> nat \<Rightarrow> rc2_block \<Rightarrow> rc2_block" where
  "rc2_unmix iK i = (\<lambda>(R0, R1, R2, R3).
     let R3 = rotrFixed R3 5 - ((R0 AND NOT R2) + (R1 AND R2) + iK ! (4 * i + 3));
         R2 = rotrFixed R2 3 - ((R3 AND NOT R1) + (R0 AND R1) + iK ! (4 * i + 2));
         R1 = rotrFixed R1 2 - ((R2 AND NOT R0) + (R3 AND R0) + iK ! (4 * i + 1));
         R0 = rotrFixed R0 1 - ((R1 AND NOT R3) + (R2 AND R3) + iK ! (4 * i + 0))
     in (R0, R1, R2, R3))"

definition rc2_unround :: "16 word list \<Rightarrow> nat \<Rightarrow> rc2_block \<Rightarrow> rc2_block" where
  "rc2_unround iK i s = rc2_unmix iK i (if i = 4 \<or> i = 10 then rc2_unmash iK s else s)"

definition RC2Decryptor_Transform :: "16 word list \<Rightarrow> byte list \<Rightarrow> byte list result" where
  "RC2Decryptor_Transform iK aBlock =
     bindL (assertL (length aBlock = KRC2BlockBytes)) (\<lambda>_.
       Ok (PutBlockLittleEndian (fold (rc2_unround iK) (rev [0..<16]) (GetBlockLittleEndian aBlock))))"

lemma rc2_unmix_mix: "rc2_unmix iK i (rc2_mix iK i s) = s"
  by (cases s) (simp add: rc2_unmix_def rc2_mix_def Let_def rotr_rotl)

lemma rc2_unmash_mash: "rc2_unmash iK (rc2_mash iK s) = s"
  by (cases s) (simp add: rc2_unmash_def rc2_mash_def Let_def)

lemma rc2_unround_round: "rc2_unround iK i (rc2_round iK i s) = s"
  by (simp add: rc2_unround_def rc2_round_def Let_def rc2_unmix_mix rc2_unmash_mash)

text \<open>A fold of invertible steps is undone by the fold of their inverses in the reverse order.\<close>

lemma fold_inverse:
  assumes "\<And>i s. g i (f i s) = s"
  shows "fold g (rev is) (fold f is s) = s"
  by (induction "is" arbitrary: s) (simp_all add: assms)

lemma rc2_inverse:
  assumes "length b = 8"
  shows "\<exists>c. RC2Encryptor_Transform iK b = Ok c \<and> length c = 8 \<and> RC2Decryptor_Transform iK c = Ok b"
  using assms
  by (simp add: RC2Encryptor_Transform_def RC2Decryptor_Transform_def assertL_def guardL_def KRC2BlockBytes_def
      Get_Put_LittleEndian Put_Get_LittleEndian fold_inverse rc2_unround_round)

interpretation rc2: block_cipher "RC2Encryptor_Transform iK" "RC2Decryptor_Transform iK" 8 for iK
  by unfold_locales (simp_all add: rc2_inverse)

end
