(* ===== verification/Des.thy ===== *)
theory Des
  imports Rc2
begin

section \<open>DES and triple DES (\<open>des.cpp\<close>, \<open>des.inl\<close>, \<open>3des.cpp\<close>, \<open>destables.h\<close>)\<close>

text \<open>
  The key schedule and the sixteen rounds over the combined substitution tables, with the
  initial and final permutations as exchanges of bit groups.  The decryptor runs the same
  rounds with the schedule reversed; triple DES chains three runs between one pair of
  permutations.
\<close>

subsection \<open>Tables\<close>

definition sbox :: "32 word list list" where
  "sbox = [
    [0x01010400, 0x00000000, 0x00010000, 0x01010404, 0x01010004, 0x00010404, 0x00000004, 0x00010000,
     0x00000400, 0x01010400, 0x01010404, 0x00000400, 0x01000404, 0x01010004, 0x01000000, 0x00000004,
     0x00000404, 0x01000400, 0x01000400, 0x00010400, 0x00010400, 0x01010000, 0x01010000, 0x01000404,
     0x00010004, 0x01000004, 0x01000004, 0x00010004, 0x00000000, 0x00000404, 0x00010404, 0x01000000,
     0x00010000, 0x01010404, 0x00000004, 0x01010000, 0x01010400, 0x01000000, 0x01000000, 0x00000400,
     0x01010004, 0x00010000, 0x00010400, 0x01000004, 0x00000400, 0x00000004, 0x01000404, 0x00010404,
     0x01010404, 0x00010004, 0x01010000, 0x01000404, 0x01000004, 0x00000404, 0x00010404, 0x01010400,
     0x00000404, 0x01000400, 0x01000400, 0x00000000, 0x00010004, 0x00010400, 0x00000000, 0x01010004],
    [0x80108020, 0x80008000, 0x00008000, 0x00108020, 0x00100000, 0x00000020, 0x80100020, 0x80008020,
     0x80000020, 0x80108020, 0x80108000, 0x80000000, 0x80008000, 0x00100000, 0x00000020, 0x80100020,
     0x00108000, 0x00100020, 0x80008020, 0x00000000, 0x80000000, 0x00008000, 0x00108020, 0x80100000,
     0x00100020, 0x80000020, 0x00000000, 0x00108000, 0x00008020, 0x80108000, 0x80100000, 0x00008020,
     0x00000000, 0x00108020, 0x80100020, 0x00100000, 0x80008020, 0x80100000, 0x80108000, 0x00008000,
     0x80100000, 0x80008000, 0x00000020, 0x80108020, 0x00108020, 0x00000020, 0x00008000, 0x80000000,
     0x00008020, 0x80108000, 0x00100000, 0x80000020, 0x00100020, 0x80008020, 0x80000020, 0x00100020,
     0x00108000, 0x00000000, 0x80008000, 0x00008020, 0x80000000, 0x80100020, 0x80108020, 0x00108000],
    [0x00000208, 0x08020200, 0x00000000, 0x08020008, 0x08000200, 0x00000000, 0x00020208, 0x08000200,
     0x00020008, 0x08000008, 0x08000008, 0x00020000, 0x08020208, 0x00020008, 0x08020000, 0x00000208,
     0x08000000, 0x00000008, 0x08020200, 0x00000200, 0x00020200, 0x08020000, 0x08020008, 0x00020208,
     0x08000208, 0x00020200, 0x00020000, 0x08000208, 0x00000008, 0x08020208, 0x00000200, 0x08000000,
     0x08020200, 0x08000000, 0x00020008, 0x00000208, 0x00020000, 0x08020200, 0x08000200, 0x00000000,
     0x00000200, 0x00020008, 0x08020208, 0x08000200, 0x08000008, 0x00000200, 0x00000000, 0x08020008,
     0x08000208, 0x00020000, 0x08000000, 0x08020208, 0x00000008, 0x00020208, 0x00020200, 0x08000008,
     0x08020000, 0x08000208, 0x00000208, 0x08020000, 0x00020208, 0x00000008, 0x08020008, 0x00020200],
    [0x00802001, 0x00002081, 0x00002081, 0x00000080, 0x00802080, 0x00800081, 0x00800001, 0x00002001,
     0x00000000, 0x00802000, 0x00802000, 0x00802081, 0x00000081, 0x00000000, 0x00800080, 0x00800001,
     0x00000001, 0x00002000, 0x00800000, 0x00802001, 0x00000080, 0x00800000, 0x00002001, 0x00002080,
     0x00800081, 0x00000001, 0x00002080, 0x00800080, 0x00002000, 0x00802080, 0x00802081, 0x00000081,
     0x00800080, 0x00800001, 0x00802000, 0x00802081, 0x00000081, 0x00000000, 0x00000000, 0x00802000,
     0x00002080, 0x00800080, 0x00800081, 0x00000001, 0x00802001, 0x00002081, 0x00002081, 0x00000080,
     0x00802081, 0x00000081, 0x00000001, 0x00002000, 0x00800001, 0x00002001, 0x00802080, 0x00800081,
     0x00002001, 0x00002080, 0x00800000, 0x00802001, 0x00000080, 0x00800000, 0x00002000, 0x00802080],
    [0x00000100, 0x02080100, 0x02080000, 0x42000100, 0x00080000, 0x00000100, 0x40000000, 0x02080000,
     0x40080100, 0x00080000, 0x02000100, 0x40080100, 0x42000100, 0x42080000, 0x00080100, 0x40000000,
     0x02000000, 0x40080000, 0x40080000, 0x00000000, 0x40000100, 0x42080100, 0x42080100, 0x02000100,
     0x42080000, 0x40000100, 0x00000000, 0x42000000, 0x02080100, 0x02000000, 0x42000000, 0x00080100,
     0x00080000, 0x42000100, 0x00000100, 0x02000000, 0x40000000, 0x02080000, 0x42000100, 0x40080100,
     0x02000100, 0x40000000, 0x42080000, 0x02080100, 0x40080100, 0x00000100, 0x02000000, 0x42080000,
     0x42080100, 0x00080100, 0x42000000, 0x42080100, 0x02080000, 0x00000000, 0x40080000, 0x42000000,
     0x00080100, 0x02000100, 0x40000100, 0x00080000, 0x00000000, 0x40080000, 0x02080100, 0x40000100],
    [0x20000010, 0x20400000, 0x00004000, 0x20404010, 0x20400000, 0x00000010, 0x20404010, 0x00400000,
     0x20004000, 0x00404010, 0x00400000, 0x20000010, 0x00400010, 0x20004000, 0x20000000, 0x00004010,
     0x00000000, 0x00400010, 0x20004010, 0x00004000, 0x00404000, 0x20004010, 0x00000010, 0x20400010,
     0x20400010, 0x00000000, 0x00404010, 0x20404000, 0x00004010, 0x00404000, 0x20404000, 0x20000000,
     0x20004000, 0x00000010, 0x20400010, 0x00404000, 0x20404010, 0x00400000, 0x00004010, 0x20000010,
     0x00400000, 0x20004000, 0x20000000, 0x00004010, 0x20000010, 0x20404010, 0x00404000, 0x20400000,
     0x00404010, 0x20404000, 0x00000000, 0x20400010, 0x00000010, 0x00004000, 0x20400000, 0x00404010,
     0x00004000, 0x00400010, 0x20004010, 0x00000000, 0x20404000, 0x20000000, 0x00400010, 0x20004010],
    [0x00200000, 0x04200002, 0x04000802, 0x00000000, 0x00000800, 0x04000802, 0x00200802, 0x04200800,
     0x04200802, 0x00200000, 0x00000000, 0x04000002, 0x00000002, 0x04000000, 0x04200002, 0x00000802,
     0x04000800, 0x00200802, 0x00200002, 0x04000800, 0x04000002, 0x04200000, 0x04200800, 0x00200002,
     0x04200000, 0x00000800, 0x00000802, 0x04200802, 0x00200800, 0x00000002, 0x04000000, 0x00200800,
     0x04000000, 0x00200800, 0x00200000, 0x04000802, 0x04000802, 0x04200002, 0x04200002, 0x00000002,
     0x00200002, 0x04000000, 0x04000800, 0x00200000, 0x04200800, 0x00000802, 0x00200802, 0x04200800,
     0x00000802, 0x04000002, 0x04200802, 0x04200000, 0x00200800, 0x00000000, 0x00000002, 0x04200802,
     0x00000000, 0x00200802, 0x04200000, 0x00000800, 0x04000002, 0x04000800, 0x00000800, 0x00200002],
    [0x10001040, 0x00001000, 0x00040000, 0x10041040, 0x10000000, 0x10001040, 0x00000040, 0x10000000,
     0x00040040, 0x10040000, 0x10041040, 0x00041000, 0x10041000, 0x00041040, 0x00001000, 0x00000040,
     0x10040000, 0x10000040, 0x10001000, 0x00001040, 0x00041000, 0x00040040, 0x10040040, 0x10041000,
     0x00001040, 0x00000000, 0x00000000, 0x10040040, 0x10000040, 0x10001000, 0x00041040, 0x00040000,
     0x00041040, 0x00040000, 0x10041000, 0x00001000, 0x00000040, 0x10040040, 0x00001000, 0x00041040,
     0x10001000, 0x00000040, 0x10000040, 0x10040000, 0x10040040, 0x10000000, 0x00040000, 0x10001040,
     0x00000000, 0x10041040, 0x00040040, 0x10000040, 0x10040000, 0x10001000, 0x10001040, 0x00000000,
     0x10041040, 0x00041000, 0x00041000, 0x00001040, 0x00001040, 0x00040040, 0x10000000, 0x10041000]]"

definition pc1 :: "nat list" where
  "pc1 = [57, 49, 41, 33, 25, 17, 9, 1, 58, 50, 42, 34, 26, 18,
    10, 2, 59, 51, 43, 35, 27, 19, 11, 3, 60, 52, 44, 36,
    63, 55, 47, 39, 31, 23, 15, 7, 62, 54, 46, 38, 30, 22,
    14, 6, 61, 53, 45, 37, 29, 21, 13, 5, 28, 20, 12, 4]"

definition totrot :: "nat list" where
  "totrot = [1, 2, 4, 6, 8, 10, 12, 14, 15, 17, 19, 21, 23, 25, 27, 28]"

definition pc2 :: "nat list" where
  "pc2 = [14, 17, 11, 24, 1, 5, 3, 28, 15, 6, 21, 10,
    23, 19, 12, 4, 26, 8, 16, 7, 27, 20, 13, 2,
    41, 52, 31, 37, 47, 55, 30, 40, 51, 45, 33, 48,
    44, 49, 39, 56, 34, 53, 46, 42, 50, 36, 29, 32]"

definition bytebit :: "byte list" where
  "bytebit = [128, 64, 32, 16, 8, 4, 2, 1]"

definition weak_keys :: "byte list list" where
  "weak_keys = [
    [0x00, 0x00, 0x00, 0x00, 0x00, 0x00, 0x00, 0x00],
    [0xFE, 0xFE, 0xFE, 0xFE, 0xFE, 0xFE, 0xFE, 0xFE],
    [0x1E, 0x1E, 0x1E, 0x1E, 0x0E, 0x0E, 0x0E, 0x0E],
    [0xE0, 0xE0, 0xE0, 0xE0, 0xF0, 0xF0, 0xF0, 0xF0],
    [0x00, 0xFE, 0x00, 0xFE, 0x00, 0xFE, 0x00, 0xFE],
    [0xFE, 0x00, 0xFE, 0x00, 0xFE, 0x00, 0xFE, 0x00],
    [0x1E, 0xE0, 0x1E, 0xE0, 0x0E, 0xF0, 0x0E, 0xF0],
    [0xE0, 0x1E, 0xE0, 0x1E, 0xF0, 0x0E, 0xF0, 0x0E],
    [0x00, 0xE0, 0x00, 0xE0, 0x00, 0xF0, 0x00, 0xF0],
    [0xE0, 0x00, 0xE0, 0x00, 0xF0, 0x00, 0xF0, 0x00],
    [0x1E, 0xFE, 0x1E, 0xFE, 0x0E, 0xFE, 0x0E, 0xFE],
    [0xFE, 0x1E, 0xFE, 0x1E, 0xFE, 0x0E, 0xFE, 0x0E],
    [0x00, 0x1E, 0x00, 0x1E, 0x00, 0x0E, 0x00, 0x0E],
    [0x1E, 0x00, 0x1E, 0x00, 0x0E, 0x00, 0x0E, 0x00],
    [0xE0, 0xFE, 0xE0, 0xFE, 0xF0, 0xFE, 0xF0, 0xFE],
    [0xFE, 0xE0, 0xFE, 0xE0, 0xFE, 0xF0, 0xFE, 0xF0]]"

subsection \<open>Permutations\<close>

text \<open>\<open>work = (left ^ right) & m; left ^= work; right ^= work\<close>\<close>

definition exchange :: "32 word \<Rightarrow> 32 word \<Rightarrow> 32 word \<Rightarrow> 32 word \<times> 32 word" where
  "exchange m a b = (let work = (a XOR b) AND m in (a XOR work, b XOR work))"

definition IPerm :: "32 word \<times> 32 word \<Rightarrow> 32 word \<times> 32 word" where
  "IPerm = (\<lambda>(left, right).
     let right = rotlFixed right 4;
         (left, right) = exchange 0xF0F0F0F0 left right;
         right = rotrFixed right 20;
         (left, right) = exchange 0xFFFF0000 left right;
         right = rotrFixed right 18;
         (left, right) = exchange 0x33333333 left right;
         right = rotrFixed right 6;
         (left, right) = exchange 0x00FF00FF left right;
         right = rotlFixed right 9;
         (left, right) = exchange 0xAAAAAAAA left right;
         left = rotlFixed left 1
     in (left, right))"

definition FPerm :: "32 word \<times> 32 word \<Rightarrow> 32 word \<times> 32 word" where
  "FPerm = (\<lambda>(left, right).
     let right = rotrFixed right 1;
         (left, right) = exchange 0xAAAAAAAA left right;
         left = rotrFixed left 9;
         (left, right) = exchange 0x00FF00FF left right;
         left = rotlFixed left 6;
         (left, right) = exchange 0x33333333 left right;
         left = rotlFixed left 18;
         (left, right) = exchange 0xFFFF0000 left right;
         left = rotlFixed left 20;
         (left, right) = exchange 0xF0F0F0F0 left right;
         left = rotrFixed left 4
     in (left, right))"

subsection \<open>Rounds\<close>

definition sbox_at :: "nat \<Rightarrow> 32 word \<Rightarrow> 32 word" where
  "sbox_at j w = sbox ! j ! unat (w AND 0x3F)"

definition des_f :: "32 word \<Rightarrow> 32 word \<Rightarrow> 32 word \<Rightarrow> 32 word" where
  "des_f x k0 k1 =
     (let work = rotrFixed x 4 XOR k0;
          a = sbox_at 6 work XOR sbox_at 4 (drop_bit 8 work) XOR sbox_at 2 (drop_bit 16 work) XOR sbox_at 0 (drop_bit 24 work);
          work = x XOR k1
      in a XOR sbox_at 7 work XOR sbox_at 5 (drop_bit 8 work) XOR sbox_at 3 (drop_bit 16 work) XOR sbox_at 1 (drop_bit 24 work))"

definition des_step :: "32 word list \<Rightarrow> nat \<Rightarrow> 32 word \<times> 32 word \<Rightarrow> 32 word \<times> 32 word" where
  "des_step aKey i = (\<lambda>(l, r).
     let l = l XOR des_f r (aKey ! (4 * i + 0)) (aKey ! (4 * i + 1));
         r = r XOR des_f l (aKey ! (4 * i + 2)) (aKey ! (4 * i + 3))
     in (l, r))"

definition DES_DoTransform :: "32 word list \<Rightarrow> 32 word \<times> 32 word \<Rightarrow> 32 word \<times> 32 word" where
  "DES_DoTransform aKey s = fold (des_step aKey) [0..<8] s"

definition DES_Transform :: "32 word list \<Rightarrow> byte list \<Rightarrow> byte list result" where
  "DES_Transform iK1 aBlock =
     bindL (assertL (length aBlock = 8)) (\<lambda>_.
       let (l, r) = FPerm (DES_DoTransform iK1 (IPerm (GetBlockBigEndian aBlock)))
       in Ok (PutBlockBigEndian (r, l)))"

subsection \<open>Key schedule\<close>

definition des_key_bits :: "byte list \<Rightarrow> bool list" where
  "des_key_bits key =
     map (\<lambda>j. let l = pc1 ! j - 1 in key ! (l div 8) AND bytebit ! (l mod 8) \<noteq> 0) [0..<56]"

definition des_rotate :: "bool list \<Rightarrow> nat \<Rightarrow> bool list" where
  "des_rotate pc1m i =
     map (\<lambda>j. let l = j + totrot ! i in pc1m ! (if l < (if j < 28 then 28 else 56) then l else l - 28)) [0..<56]"

definition des_select :: "bool list \<Rightarrow> byte list" where
  "des_select pcr =
     fold (\<lambda>j ks. if pcr ! (pc2 ! j - 1) then ks[j div 6 := ks ! (j div 6) OR drop_bit 2 (bytebit ! (j mod 6))] else ks)
       [0..<48] (replicate 8 0)"

definition des_round_key :: "byte list \<Rightarrow> 32 word list" where
  "des_round_key ks =
     [push_bit 24 (ucast (ks ! 0)) OR push_bit 16 (ucast (ks ! 2)) OR push_bit 8 (ucast (ks ! 4)) OR ucast (ks ! 6),
      push_bit 24 (ucast (ks ! 1)) OR push_bit 16 (ucast (ks ! 3)) OR push_bit 8 (ucast (ks ! 5)) OR ucast (ks ! 7)]"

definition DES_SetKey :: "byte list \<Rightarrow> 32 word list" where
  "DES_SetKey aKey =
     concat (map (\<lambda>i. des_round_key (des_select (des_rotate (des_key_bits aKey) i))) [0..<16])"

definition ReverseKeySchedule :: "32 word list \<Rightarrow> 32 word list" where
  "ReverseKeySchedule aKey =
     fold (\<lambda>i k. swap_entries (i + 1) (31 - i) (swap_entries i (30 - i) k)) [0, 2, 4, 6, 8, 10, 12, 14] aKey"

definition DESDecryptor_SetKey :: "byte list \<Rightarrow> 32 word list" where
  "DESDecryptor_SetKey aKey = ReverseKeySchedule (DES_SetKey aKey)"

subsection \<open>Construction\<close>

text \<open>
  \<open>TCrypto\<close>: the largest number of key bits a build allows.  The parameter
  \<open>aCheckWeakKey\<close> of the constructors is not used.
\<close>

definition IsSymmetricWeakEnoughL :: "int \<Rightarrow> int \<Rightarrow> bool result" where
  "IsSymmetricWeakEnoughL maxBits aSymmetricKeyBits =
     (if aSymmetricKeyBits > maxBits then Leave KErrKeyNotWeakEnough else Ok True)"

definition IsWeakKey :: "byte list \<Rightarrow> bool" where
  "IsWeakKey aKey \<longleftrightarrow> (let key = map (\<lambda>b. b AND 0xFE) (take 8 aKey) in key \<in> set weak_keys)"

definition DESEncryptor_NewL :: "int \<Rightarrow> byte list \<Rightarrow> bool \<Rightarrow> 32 word list result" where
  "DESEncryptor_NewL maxBits aKey aCheckWeakKey =
     bindL (assertL (length aKey = 8)) (\<lambda>_.
     let iK1 = DES_SetKey aKey
     in bindL (IsSymmetricWeakEnoughL maxBits (int (8 * length aKey) - int (length aKey))) (\<lambda>_. Ok iK1))"

definition DESDecryptor_NewL :: "int \<Rightarrow> byte list \<Rightarrow> bool \<Rightarrow> 32 word list result" where
  "DESDecryptor_NewL maxBits aKey aCheckWeakKey =
     bindL (assertL (length aKey = 8)) (\<lambda>_.
     let iK1 = DESDecryptor_SetKey aKey
     in bindL (IsSymmetricWeakEnoughL maxBits (int (8 * length aKey) - int (length aKey))) (\<lambda>_. Ok iK1))"

subsection \<open>Triple DES\<close>

type_synonym key3 = "32 word list \<times> 32 word list \<times> 32 word list"

definition DES3_Transform :: "key3 \<Rightarrow> byte list \<Rightarrow> byte list result" where
  "DES3_Transform = (\<lambda>(iK1, iK2, iK3) aBlock.
     bindL (assertL (length aBlock = 8)) (\<lambda>_.
       let (l, r) = IPerm (GetBlockBigEndian aBlock);
           (l, r) = DES_DoTransform iK1 (l, r);
           (r, l) = DES_DoTransform iK2 (r, l);
           (l, r) = DES_DoTransform iK3 (l, r);
           (l, r) = FPerm (l, r)
       in Ok (PutBlockBigEndian (r, l))))"

text \<open>The middle key is cut with a length of sixteen bytes, of which \<open>SetKey\<close> reads eight.\<close>

definition DES3Encryptor_DoSetKey :: "byte list \<Rightarrow> key3" where
  "DES3Encryptor_DoSetKey aKey =
     (DES_SetKey (take 8 aKey), ReverseKeySchedule (DES_SetKey (take 16 (drop 8 aKey))), DES_SetKey (drop 16 aKey))"

definition DES3Decryptor_DoSetKey :: "byte list \<Rightarrow> key3" where
  "DES3Decryptor_DoSetKey aKey =
     (ReverseKeySchedule (DES_SetKey (drop 16 aKey)), DES_SetKey (take 16 (drop 8 aKey)),
      ReverseKeySchedule (DES_SetKey (take 8 aKey)))"

subsection \<open>Decryption inverts encryption\<close>

lemma exchange_undo: "exchange m a b = (a', b') \<Longrightarrow> exchange m b' a' = (b, a)"
  unfolding exchange_def Let_def
  by (auto simp: xor.assoc xor.left_commute)

lemma FPerm_IPerm: "IPerm (l, r) = (l', r') \<Longrightarrow> FPerm (r', l') = (r, l)"
proof -
  assume p: "IPerm (l, r) = (l', r')"
  obtain l1 r1 where 1: "exchange 0xF0F0F0F0 l (rotlFixed r 4) = (l1, r1)" by fastforce
  obtain l2 r2 where 2: "exchange 0xFFFF0000 l1 (rotrFixed r1 20) = (l2, r2)" by fastforce
  obtain l3 r3 where 3: "exchange 0x33333333 l2 (rotrFixed r2 18) = (l3, r3)" by fastforce
  obtain l4 r4 where 4: "exchange 0x00FF00FF l3 (rotrFixed r3 6) = (l4, r4)" by fastforce
  obtain l5 r5 where 5: "exchange 0xAAAAAAAA l4 (rotlFixed r4 9) = (l5, r5)" by fastforce
  have "l' = rotlFixed l5 1" "r' = r5"
    using p by (simp_all add: IPerm_def 1 2 3 4 5)
  then show ?thesis
    by (simp add: FPerm_def rotr_rotl rotl_rotr exchange_undo [OF 1] exchange_undo [OF 2] exchange_undo [OF 3]
        exchange_undo [OF 4] exchange_undo [OF 5])
qed

lemma IPerm_FPerm: "FPerm (l', r') = (l, r) \<Longrightarrow> IPerm (r, l) = (r', l')"
proof -
  assume p: "FPerm (l', r') = (l, r)"
  obtain l1 r1 where 1: "exchange 0xAAAAAAAA l' (rotrFixed r' (Suc 0)) = (l1, r1)" by fastforce
  obtain l2 r2 where 2: "exchange 0x00FF00FF (rotrFixed l1 9) r1 = (l2, r2)" by fastforce
  obtain l3 r3 where 3: "exchange 0x33333333 (rotlFixed l2 6) r2 = (l3, r3)" by fastforce
  obtain l4 r4 where 4: "exchange 0xFFFF0000 (rotlFixed l3 18) r3 = (l4, r4)" by fastforce
  obtain l5 r5 where 5: "exchange 0xF0F0F0F0 (rotlFixed l4 20) r4 = (l5, r5)" by fastforce
  have "l = rotrFixed l5 4" "r = r5"
    using p by (simp_all add: FPerm_def 1 2 3 4 5)
  then show ?thesis
    by (simp add: IPerm_def rotr_rotl rotl_rotr exchange_undo [OF 1] exchange_undo [OF 2] exchange_undo [OF 3]
        exchange_undo [OF 4] exchange_undo [OF 5])
qed

lemma length_ReverseKeySchedule [simp]: "length (ReverseKeySchedule K) = length K"
  by (simp add: ReverseKeySchedule_def swap_entries_def)

lemma upt_32: "[0..<32] = [0, 1, 2, 3, 4, 5, 6, 7, 8, 9, 10, 11, 12, 13, 14, 15, 16, 17, 18, 19, 20, 21, 22, 23,
    24, 25, 26, 27, 28, 29, 30, 31 :: nat]"
  by (simp add: upt_rec)

lemma ReverseKeySchedule_map:
  "ReverseKeySchedule (map f [0..<32]) = map (\<lambda>k. f (if even k then 30 - k else 32 - k)) [0..<32]"
  unfolding upt_32 ReverseKeySchedule_def swap_entries_def by simp

lemma ReverseKeySchedule_eq:
  "length K = 32 \<Longrightarrow> ReverseKeySchedule K = map (\<lambda>k. K ! (if even k then 30 - k else 32 - k)) [0..<32]"
  using ReverseKeySchedule_map [of "(!) K"] map_nth [of K] by simp

lemma ReverseKeySchedule_nth:
  assumes "length K = 32" "i < 8"
  shows "ReverseKeySchedule K ! (4 * i) = K ! (4 * (7 - i) + 2)" "ReverseKeySchedule K ! (4 * i + 1) = K ! (4 * (7 - i) + 3)"
    "ReverseKeySchedule K ! (4 * i + 2) = K ! (4 * (7 - i))" "ReverseKeySchedule K ! (4 * i + 3) = K ! (4 * (7 - i) + 1)"
proof -
  have "30 - 4 * i = 4 * (7 - i) + 2" "32 - (4 * i + 1) = 4 * (7 - i) + 3" "30 - (4 * i + 2) = 4 * (7 - i)"
      "32 - (4 * i + 3) = 4 * (7 - i) + 1" using assms(2) by simp_all
  then show "ReverseKeySchedule K ! (4 * i) = K ! (4 * (7 - i) + 2)" "ReverseKeySchedule K ! (4 * i + 1) = K ! (4 * (7 - i) + 3)"
    "ReverseKeySchedule K ! (4 * i + 2) = K ! (4 * (7 - i))" "ReverseKeySchedule K ! (4 * i + 3) = K ! (4 * (7 - i) + 1)"
    using assms(2) by (simp_all add: ReverseKeySchedule_eq [OF assms(1)])
qed

lemma ReverseKeySchedule_twice:
  assumes "length K = 32"
  shows "ReverseKeySchedule (ReverseKeySchedule K) = K"
proof (rule nth_equalityI)
  show "length (ReverseKeySchedule (ReverseKeySchedule K)) = length K" by simp
next
  fix j assume "j < length (ReverseKeySchedule (ReverseKeySchedule K))"
  then have "j < 32" using assms by simp
  then obtain i m where j: "j = 4 * i + m" "i < 8" "m = 0 \<or> m = 1 \<or> m = 2 \<or> m = 3"
    by (intro that [of "j div 4" "j mod 4"]) presburger+
  have len: "length (ReverseKeySchedule K) = 32" using assms by simp
  have k: "7 - i < 8" "7 - (7 - i) = i" using j(2) by simp_all
  show "ReverseKeySchedule (ReverseKeySchedule K) ! j = K ! j"
    using j(3) ReverseKeySchedule_nth [OF len j(2)] ReverseKeySchedule_nth [OF assms k(1)]
    unfolding j(1) k(2) by (elim disjE) simp_all
qed

lemma des_step_undo:
  assumes "length K = 32" "i < 8"
  shows "des_step (ReverseKeySchedule K) (7 - i) (prod.swap (des_step K i s)) = prod.swap s"
proof -
  have k: "7 - i < 8" "7 - (7 - i) = i" using assms(2) by simp_all
  show ?thesis
    using ReverseKeySchedule_nth [OF assms(1) k(1)]
    by (cases s) (simp add: des_step_def k(2) Let_def xor.assoc)
qed

lemma DES_DoTransform_undo:
  assumes "length K = 32"
  shows "DES_DoTransform (ReverseKeySchedule K) (prod.swap (DES_DoTransform K s)) = prod.swap s"
proof -
  have upt: "[0..<8] = [0, 1, 2, 3, 4, 5, 6, 7 :: nat]" by (simp add: upt_rec)
  note u = des_step_undo [OF assms]
  show ?thesis
    using u [of 0] u [of 1] u [of 2] u [of 3] u [of 4] u [of 5] u [of 6] u [of 7]
    by (simp add: DES_DoTransform_def upt)
qed

lemma des_inverse:
  assumes "length K = 32" "length b = 8"
  shows "\<exists>c. DES_Transform K b = Ok c \<and> length c = 8 \<and> DES_Transform (ReverseKeySchedule K) c = Ok b"
proof -
  obtain l r where 0: "IPerm (GetBlockBigEndian b) = (l, r)" by fastforce
  obtain l1 r1 where 1: "DES_DoTransform K (l, r) = (l1, r1)" by fastforce
  obtain l2 r2 where 2: "FPerm (l1, r1) = (l2, r2)" by fastforce
  obtain p q where b: "GetBlockBigEndian b = (p, q)" by fastforce
  have 3: "IPerm (r2, l2) = (r1, l1)" by (rule IPerm_FPerm [OF 2])
  have 4: "DES_DoTransform (ReverseKeySchedule K) (r1, l1) = (r, l)"
    using DES_DoTransform_undo [OF assms(1), of "(l, r)"] by (simp add: 1)
  have 5: "FPerm (r, l) = (q, p)" by (rule FPerm_IPerm [OF 0 [unfolded b]])
  have 6: "PutBlockBigEndian (p, q) = b" using Put_Get_BigEndian [OF assms(2)] by (simp add: b)
  show ?thesis
    using assms(2) by (simp add: DES_Transform_def assertL_def guardL_def 0 1 2 3 4 5 6 Get_Put_BigEndian)
qed

lemma length_DES_SetKey [simp]: "length (DES_SetKey k) = 32"
  by (simp add: DES_SetKey_def des_round_key_def length_concat comp_def sum_list_triv)

interpretation des: block_cipher "DES_Transform (DES_SetKey key)" "DES_Transform (DESDecryptor_SetKey key)" 8 for key
  by unfold_locales (simp_all add: des_inverse DESDecryptor_SetKey_def)

lemma des3_inverse:
  assumes "length b = 8"
  shows "\<exists>c. DES3_Transform (DES3Encryptor_DoSetKey key) b = Ok c \<and> length c = 8 \<and>
    DES3_Transform (DES3Decryptor_DoSetKey key) c = Ok b"
proof -
  define K1 K2 K3 where "K1 = DES_SetKey (take 8 key)" and "K2 = ReverseKeySchedule (DES_SetKey (take 16 (drop 8 key)))"
    and "K3 = DES_SetKey (drop 16 key)"
  have len: "length K1 = 32" "length K2 = 32" "length K3 = 32" by (simp_all add: K1_def K2_def K3_def)
  have keys: "DES3Encryptor_DoSetKey key = (K1, K2, K3)"
      "DES3Decryptor_DoSetKey key = (ReverseKeySchedule K3, ReverseKeySchedule K2, ReverseKeySchedule K1)"
    by (simp_all add: DES3Encryptor_DoSetKey_def DES3Decryptor_DoSetKey_def K1_def K2_def K3_def ReverseKeySchedule_twice)
  obtain p q where b: "GetBlockBigEndian b = (p, q)" by fastforce
  obtain l r where 0: "IPerm (p, q) = (l, r)" by fastforce
  obtain l1 r1 where 1: "DES_DoTransform K1 (l, r) = (l1, r1)" by fastforce
  obtain r2 l2 where 2: "DES_DoTransform K2 (r1, l1) = (r2, l2)" by fastforce
  obtain l3 r3 where 3: "DES_DoTransform K3 (l2, r2) = (l3, r3)" by fastforce
  obtain l4 r4 where 4: "FPerm (l3, r3) = (l4, r4)" by fastforce
  have 5: "IPerm (r4, l4) = (r3, l3)" by (rule IPerm_FPerm [OF 4])
  have 6: "DES_DoTransform (ReverseKeySchedule K3) (r3, l3) = (r2, l2)"
    using DES_DoTransform_undo [OF len(3), of "(l2, r2)"] by (simp add: 3)
  have 7: "DES_DoTransform (ReverseKeySchedule K2) (l2, r2) = (l1, r1)"
    using DES_DoTransform_undo [OF len(2), of "(r1, l1)"] by (simp add: 2)
  have 8: "DES_DoTransform (ReverseKeySchedule K1) (r1, l1) = (r, l)"
    using DES_DoTransform_undo [OF len(1), of "(l, r)"] by (simp add: 1)
  have 9: "FPerm (r, l) = (q, p)" by (rule FPerm_IPerm [OF 0])
  have 10: "PutBlockBigEndian (p, q) = b" using Put_Get_BigEndian [OF assms] by (simp add: b)
  show ?thesis
    using assms by (simp add: DES3_Transform_def keys assertL_def guardL_def b 0 1 2 3 4 5 6 7 8 9 10 Get_Put_BigEndian)
qed

interpretation des3: block_cipher "DES3_Transform (DES3Encryptor_DoSetKey key)" "DES3_Transform (DES3Decryptor_DoSetKey key)" 8 for key
  by unfold_locales (simp_all add: des3_inverse)

text \<open>The constructors build a cipher for every one of the listed weak keys, whatever the flag says.\<close>

lemma weak_keys_accepted:
  assumes "key \<in> set weak_keys" "56 \<le> maxBits"
  shows "IsWeakKey key \<and> DESEncryptor_NewL maxBits key True = Ok (DES_SetKey key)"
proof -
  have "length key = 8 \<and> map (\<lambda>b. b AND 0xFE) key = key" using assms(1) by (auto simp: weak_keys_def)
  then show ?thesis
    using assms by (simp add: IsWeakKey_def DESEncryptor_NewL_def assertL_def guardL_def IsSymmetricWeakEnoughL_def)
qed

end
