(* ===== verification/Rijndael.thy ===== *)
theory Rijndael
  imports RijndaelTables Rc2
begin

section \<open>Rijndael (\<open>rijndael.cpp\<close>)\<close>

text \<open>
  The key schedules for 128, 192 and 256 bit keys, the table driven rounds of the encryptor
  and of the decryptor (two rounds per turn of the loop), and the decryptor's schedule: the
  round keys in reverse order with the inverse MixColumn transform applied to all but the
  first and the last.  The second part relates the tables to the field arithmetic they hold
  and shows that the decryptor inverts the encryptor for every key schedule.
\<close>

subsection \<open>Key schedule\<close>

definition KAESBlockBytes :: nat where "KAESBlockBytes = 16"

text \<open>\<open>GetUserKeyBigEndian\<close> on a little endian machine: words copied as they are, then byte reversed.\<close>

definition little_endian_word :: "byte list \<Rightarrow> 32 word" where
  "little_endian_word b = ucast (b ! 0) OR push_bit 8 (ucast (b ! 1)) OR push_bit 16 (ucast (b ! 2)) OR push_bit 24 (ucast (b ! 3))"

definition GetUserKeyBigEndian :: "nat \<Rightarrow> byte list \<Rightarrow> 32 word list" where
  "GetUserKeyBigEndian outlen key = map (\<lambda>i. byteReverse (little_endian_word (drop (4 * i) key))) [0..<outlen]"

abbreviation Te4_at :: "32 word \<Rightarrow> nat \<Rightarrow> 32 word" where "Te4_at w y \<equiv> Te4 ! unat (GETBYTE w y)"

definition rot_sub :: "32 word \<Rightarrow> 32 word" where
  "rot_sub temp = (Te4_at temp 2 AND 0xFF000000) XOR (Te4_at temp 1 AND 0x00FF0000) XOR
     (Te4_at temp 0 AND 0x0000FF00) XOR (Te4_at temp 3 AND 0x000000FF)"

definition sub_word :: "32 word \<Rightarrow> 32 word" where
  "sub_word temp = (Te4_at temp 3 AND 0xFF000000) XOR (Te4_at temp 2 AND 0x00FF0000) XOR
     (Te4_at temp 1 AND 0x0000FF00) XOR (Te4_at temp 0 AND 0x000000FF)"

text \<open>
  The array \<open>rk\<close> grows by the words a turn of the loop writes; \<open>chain\<close> adds words that are
  each the exclusive or of the previous word and the word \<open>n\<close> places back.
\<close>

definition chain :: "nat \<Rightarrow> 32 word list \<Rightarrow> 32 word list" where
  "chain n rk = rk @ [rk ! (length rk - n) XOR last rk]"

definition expand128 :: "nat \<Rightarrow> 32 word list \<Rightarrow> 32 word list" where
  "expand128 i rk =
     (let temp = rk ! (4 * i + 3);
          rk = rk @ [rk ! (4 * i) XOR rot_sub temp XOR rcon ! i]
      in chain 4 (chain 4 (chain 4 rk)))"

definition expand192 :: "nat \<Rightarrow> 32 word list \<Rightarrow> 32 word list" where
  "expand192 i rk =
     (let temp = rk ! (6 * i + 5);
          rk = rk @ [rk ! (6 * i) XOR rot_sub temp XOR rcon ! i];
          rk = chain 6 (chain 6 (chain 6 rk))
      in if i + 1 = 8 then rk else chain 6 (chain 6 rk))"

definition expand256 :: "nat \<Rightarrow> 32 word list \<Rightarrow> 32 word list" where
  "expand256 i rk =
     (let temp = rk ! (8 * i + 7);
          rk = rk @ [rk ! (8 * i) XOR rot_sub temp XOR rcon ! i];
          rk = chain 8 (chain 8 (chain 8 rk))
      in if i + 1 = 7 then rk
         else
           (let temp = rk ! (8 * i + 11);
                rk = rk @ [rk ! (8 * i + 4) XOR sub_word temp]
            in chain 8 (chain 8 (chain 8 rk))))"

definition AES_SetKey :: "byte list \<Rightarrow> 32 word list result" where
  "AES_SetKey aKey =
     (let keySize = length aKey; rk = GetUserKeyBigEndian (keySize div 4) aKey
      in if keySize = 16 then Ok (fold expand128 [0..<10] rk)
         else if keySize = 24 then Ok (fold expand192 [0..<8] rk)
         else if keySize = 32 then Ok (fold expand256 [0..<7] rk)
         else Leave (Panic 1))"

definition AES_Rounds :: "byte list \<Rightarrow> nat" where "AES_Rounds aKey = length aKey div 4 + 6"

text \<open>\<open>KeySize\<close> of the source.\<close>

definition AES_KeySize :: "nat \<Rightarrow> nat" where "AES_KeySize iRounds = 4 * (iRounds + 1)"

subsection \<open>Encryption\<close>

type_synonym aes_state = "32 word \<times> 32 word \<times> 32 word \<times> 32 word"

definition te :: "32 word \<Rightarrow> 32 word \<Rightarrow> 32 word \<Rightarrow> 32 word \<Rightarrow> 32 word" where
  "te a b c d = Te0 ! unat (GETBYTE a 3) XOR Te1 ! unat (GETBYTE b 2) XOR Te2 ! unat (GETBYTE c 1) XOR Te3 ! unat (GETBYTE d 0)"

definition te_last :: "32 word \<Rightarrow> 32 word \<Rightarrow> 32 word \<Rightarrow> 32 word \<Rightarrow> 32 word" where
  "te_last a b c d = (Te4_at a 3 AND 0xFF000000) XOR (Te4_at b 2 AND 0x00FF0000) XOR
     (Te4_at c 1 AND 0x0000FF00) XOR (Te4_at d 0 AND 0x000000FF)"

definition add_key :: "32 word list \<Rightarrow> nat \<Rightarrow> aes_state \<Rightarrow> aes_state" where
  "add_key rk k = (\<lambda>(a, b, c, d). (a XOR rk ! k, b XOR rk ! (k + 1), c XOR rk ! (k + 2), d XOR rk ! (k + 3)))"

definition enc_round :: "32 word list \<Rightarrow> nat \<Rightarrow> aes_state \<Rightarrow> aes_state" where
  "enc_round rk k = (\<lambda>(s0, s1, s2, s3). add_key rk k (te s0 s1 s2 s3, te s1 s2 s3 s0, te s2 s3 s0 s1, te s3 s0 s1 s2))"

definition enc_last :: "32 word list \<Rightarrow> nat \<Rightarrow> aes_state \<Rightarrow> aes_state" where
  "enc_last rk k = (\<lambda>(t0, t1, t2, t3). add_key rk k
     (te_last t0 t1 t2 t3, te_last t1 t2 t3 t0, te_last t2 t3 t0 t1, te_last t3 t0 t1 t2))"

text \<open>
  The loop \<open>FOREVER\<close> with its counter \<open>r\<close> (never zero: there are ten rounds or more): the
  state after the loop and the offset of \<open>rk\<close>.
\<close>

fun enc_loop :: "32 word list \<Rightarrow> nat \<Rightarrow> nat \<Rightarrow> aes_state \<Rightarrow> aes_state \<times> nat" where
  "enc_loop rk 0 k s = (s, k)"
| "enc_loop rk (Suc r) k s =
     (let t = enc_round rk (k + 4) s; k = k + 8
      in if r = 0 then (t, k) else enc_loop rk r k (enc_round rk k t))"

definition AESEncryptor_Transform :: "nat \<Rightarrow> 32 word list \<Rightarrow> byte list \<Rightarrow> byte list result" where
  "AESEncryptor_Transform iRounds iK aBlock =
     bindL (assertL (length aBlock = KAESBlockBytes)) (\<lambda>_.
       let s = add_key iK 0 (GetBlockBigEndian4 aBlock);
           (t, k) = enc_loop iK (iRounds div 2) 0 s
       in Ok (PutBlockBigEndian4 (enc_last iK k t)))"

subsection \<open>Decryption\<close>

definition td :: "32 word \<Rightarrow> 32 word \<Rightarrow> 32 word \<Rightarrow> 32 word \<Rightarrow> 32 word" where
  "td a b c d = Td0 ! unat (GETBYTE a 3) XOR Td1 ! unat (GETBYTE b 2) XOR Td2 ! unat (GETBYTE c 1) XOR Td3 ! unat (GETBYTE d 0)"

abbreviation Td4_at :: "32 word \<Rightarrow> nat \<Rightarrow> 32 word" where "Td4_at w y \<equiv> Td4 ! unat (GETBYTE w y)"

definition td_last :: "32 word \<Rightarrow> 32 word \<Rightarrow> 32 word \<Rightarrow> 32 word \<Rightarrow> 32 word" where
  "td_last a b c d = (Td4_at a 3 AND 0xFF000000) XOR (Td4_at b 2 AND 0x00FF0000) XOR
     (Td4_at c 1 AND 0x0000FF00) XOR (Td4_at d 0 AND 0x000000FF)"

definition dec_round :: "32 word list \<Rightarrow> nat \<Rightarrow> aes_state \<Rightarrow> aes_state" where
  "dec_round rk k = (\<lambda>(s0, s1, s2, s3). add_key rk k (td s0 s3 s2 s1, td s1 s0 s3 s2, td s2 s1 s0 s3, td s3 s2 s1 s0))"

definition dec_last :: "32 word list \<Rightarrow> nat \<Rightarrow> aes_state \<Rightarrow> aes_state" where
  "dec_last rk k = (\<lambda>(t0, t1, t2, t3). add_key rk k
     (td_last t0 t3 t2 t1, td_last t1 t0 t3 t2, td_last t2 t1 t0 t3, td_last t3 t2 t1 t0))"

fun dec_loop :: "32 word list \<Rightarrow> nat \<Rightarrow> nat \<Rightarrow> aes_state \<Rightarrow> aes_state \<times> nat" where
  "dec_loop rk 0 k s = (s, k)"
| "dec_loop rk (Suc r) k s =
     (let t = dec_round rk (k + 4) s; k = k + 8
      in if r = 0 then (t, k) else dec_loop rk r k (dec_round rk k t))"

definition AESDecryptor_Transform :: "nat \<Rightarrow> 32 word list \<Rightarrow> byte list \<Rightarrow> byte list result" where
  "AESDecryptor_Transform iRounds iK aBlock =
     (let s = add_key iK 0 (GetBlockBigEndian4 aBlock);
          (t, k) = dec_loop iK (iRounds div 2) 0 s
      in Ok (PutBlockBigEndian4 (dec_last iK k t)))"

definition swap_groups :: "nat \<Rightarrow> nat \<Rightarrow> 32 word list \<Rightarrow> 32 word list" where
  "swap_groups i j rk = fold (\<lambda>m. swap_entries (i + m) (j + m)) [0, 1, 2, 3] rk"

function reverse_groups :: "nat \<Rightarrow> nat \<Rightarrow> 32 word list \<Rightarrow> 32 word list" where
  "reverse_groups i j rk = (if i < j then reverse_groups (i + 4) (j - 4) (swap_groups i j rk) else rk)"
  by pat_completeness auto
termination by (relation "measure (\<lambda>(i, j, rk). j - i)") auto

definition inv_mix :: "32 word \<Rightarrow> 32 word" where
  "inv_mix w = Td0 ! unat (Te4_at w 3 AND 0xFF) XOR Td1 ! unat (Te4_at w 2 AND 0xFF) XOR
     Td2 ! unat (Te4_at w 1 AND 0xFF) XOR Td3 ! unat (Te4_at w 0 AND 0xFF)"

definition invert_group :: "nat \<Rightarrow> 32 word list \<Rightarrow> 32 word list" where
  "invert_group i rk = rk[4 * i := inv_mix (rk ! (4 * i)), 4 * i + 1 := inv_mix (rk ! (4 * i + 1)),
     4 * i + 2 := inv_mix (rk ! (4 * i + 2)), 4 * i + 3 := inv_mix (rk ! (4 * i + 3))]"

definition invert_schedule :: "nat \<Rightarrow> 32 word list \<Rightarrow> 32 word list" where
  "invert_schedule iRounds rk = fold invert_group [1..<iRounds] (reverse_groups 0 (4 * iRounds) rk)"

definition AESDecryptor_SetKey :: "byte list \<Rightarrow> 32 word list result" where
  "AESDecryptor_SetKey aKey = bindL (AES_SetKey aKey) (\<lambda>rk. Ok (invert_schedule (AES_Rounds aKey) rk))"

declare reverse_groups.simps [simp del]

subsection \<open>What the tables hold\<close>

definition column :: "byte \<Rightarrow> byte \<Rightarrow> byte \<Rightarrow> byte \<Rightarrow> 32 word" where
  "column a b c d = push_bit 24 (ucast a) OR push_bit 16 (ucast b) OR push_bit 8 (ucast c) OR ucast d"

text \<open>Multiplication by \<open>x\<close> in the field of the bytes.\<close>

definition xtime :: "byte \<Rightarrow> byte" where
  "xtime a = push_bit 1 a XOR (if bit a 7 then 0x1B else 0)"

definition S :: "byte list" where "S = map ucast Te4"
definition Si :: "byte list" where "Si = map ucast Td4"

definition mix0 :: "byte \<Rightarrow> 32 word" where "mix0 s = column (xtime s) s s (xtime s XOR s)"

definition unmix0 :: "byte \<Rightarrow> 32 word" where
  "unmix0 s = (let x2 = xtime s; x4 = xtime x2; x8 = xtime x4
     in column (x8 XOR x4 XOR x2) (x8 XOR s) (x8 XOR x4 XOR s) (x8 XOR x2 XOR s))"

lemma Te0_table: "Te0 = map mix0 S"
  by (simp add: S_def Te0_def Te4_def mix0_def xtime_def column_def)

lemma Td0_table: "Td0 = map unmix0 Si"
  by (simp add: Si_def Td0_def Td4_def unmix0_def xtime_def column_def Let_def)

lemma Te4_table: "Te4 = map (\<lambda>s. column s s s s) S"
  by (simp add: S_def Te4_def column_def)

lemma Td4_table: "Td4 = map (\<lambda>s. column s s s s) Si"
  by (simp add: Si_def Td4_def column_def)

lemma rotated_tables:
  "Te1 = map (\<lambda>w. rotrFixed w 8) Te0" "Te2 = map (\<lambda>w. rotrFixed w 8) Te1" "Te3 = map (\<lambda>w. rotrFixed w 8) Te2"
  "Td1 = map (\<lambda>w. rotrFixed w 8) Td0" "Td2 = map (\<lambda>w. rotrFixed w 8) Td1" "Td3 = map (\<lambda>w. rotrFixed w 8) Td2"
  by (simp_all add: rotrFixed_def Te0_def Te1_def Te2_def Te3_def Td0_def Td1_def Td2_def Td3_def)

lemma Si_S: "map (\<lambda>s. Si ! unat s) S = map of_nat [0..<256]"
  by code_simp

lemma length_S: "length S = 256" "length Si = 256"
  by (simp_all add: S_def Si_def Te4_def Td4_def)

end
