(* ===== verification/RijndaelLaws.thy ===== *)
theory RijndaelLaws
  imports Rijndael
begin

section \<open>The Rijndael decryptor inverts the encryptor\<close>

text \<open>
  A column of the state is a word of four bytes.  The tables are columns of products in the
  field of bytes, of which only the linearity of \<open>xtime\<close> is needed: the inverse MixColumn
  transform undoes MixColumn, and the last round's tables hold mutually inverse
  substitutions.  The rounds of the decryptor then undo those of the encryptor one by one.
\<close>

subsection \<open>Linear algebra\<close>

lemma xor_left_cancel [simp]: "(a :: 'a :: len word) XOR (a XOR b) = b"
  by (simp add: xor.assoc [symmetric])

lemmas xor_ac = xor.assoc xor.commute xor.left_commute

lemma xtime_xor: "xtime (a XOR b) = xtime a XOR xtime b"
  by (rule bit_word_eqI) (auto simp: xtime_def bit_simps)

lemma column_xor: "column a b c d XOR column a' b' c' d' = column (a XOR a') (b XOR b') (c XOR c') (d XOR d')"
  by (rule bit_word_eqI) (auto simp: column_def bit_simps dest: bit_imp_le_length)

lemma GETBYTE_column: "GETBYTE (column a b c d) 3 = a" "GETBYTE (column a b c d) 2 = b"
    "GETBYTE (column a b c d) (Suc 0) = c" "GETBYTE (column a b c d) 0 = d"
  using byte_quad [of a b c d] by (simp_all add: GETBYTE_def column_def del: drop_bit_or)

lemma column_GETBYTE: "column (GETBYTE w 3) (GETBYTE w 2) (GETBYTE w 1) (GETBYTE w 0) = w"
  using quad_bytes [of w] by (simp add: column_def GETBYTE_def)

lemma rotr_column: "rotrFixed (column a b c d) 8 = column d a b c"
proof (rule bit_word_eqI)
  fix n assume n: "n < LENGTH(32)"
  then show "bit (rotrFixed (column a b c d) 8) n = bit (column d a b c) n"
    by (cases "n < 8"; cases "n < 16"; cases "n < 24")
      (auto simp: bit_rotrFixed column_def bit_simps dest: bit_imp_le_length)
qed

lemma mask_values:
  "(0xFF000000 :: 32 word) = push_bit 24 (mask 8)" "(0x00FF0000 :: 32 word) = push_bit 16 (mask 8)"
  "(0x0000FF00 :: 32 word) = push_bit 8 (mask 8)" "(0x000000FF :: 32 word) = mask 8"
  by (simp_all add: mask_eq_exp_minus_1)

lemma mask_column:
  "column a b c d AND 0xFF000000 = column a 0 0 0" "column a b c d AND 0x00FF0000 = column 0 b 0 0"
  "column a b c d AND 0x0000FF00 = column 0 0 c 0" "column a b c d AND 0x000000FF = column 0 0 0 d"
  unfolding mask_values
  by (rule bit_word_eqI, auto simp: column_def bit_simps dest: bit_imp_le_length)+

subsection \<open>Substitution\<close>

definition sb :: "byte \<Rightarrow> byte" where "sb a = S ! unat a"
definition si :: "byte \<Rightarrow> byte" where "si a = Si ! unat a"

lemma unat_byte_less [simp]: "unat (a :: byte) < 256"
  using unsigned_less [of a] by simp

lemma si_sb: "si (sb a) = a"
proof -
  have "si (sb a) = map (\<lambda>s. Si ! unat s) S ! unat a" by (simp add: si_def sb_def length_S)
  also have "\<dots> = a" unfolding Si_S by simp
  finally show ?thesis .
qed

lemma table_at:
  "Te4 ! unat a = column (sb a) (sb a) (sb a) (sb a)" "Td4 ! unat a = column (si a) (si a) (si a) (si a)"
  "Te0 ! unat a = mix0 (sb a)" "Td0 ! unat a = unmix0 (si a)"
  by (simp_all add: Te4_table Td4_table Te0_table Td0_table sb_def si_def length_S)

definition mixcol :: "32 word \<Rightarrow> 32 word" where
  "mixcol w = (let a = GETBYTE w 3; b = GETBYTE w 2; c = GETBYTE w 1; d = GETBYTE w 0
     in column (xtime a XOR xtime b XOR b XOR c XOR d) (a XOR xtime b XOR xtime c XOR c XOR d)
          (a XOR b XOR xtime c XOR xtime d XOR d) (xtime a XOR a XOR b XOR c XOR xtime d))"

definition mul14 :: "byte \<Rightarrow> byte" where "mul14 s = xtime (xtime (xtime s)) XOR xtime (xtime s) XOR xtime s"
definition mul9 :: "byte \<Rightarrow> byte" where "mul9 s = xtime (xtime (xtime s)) XOR s"
definition mul13 :: "byte \<Rightarrow> byte" where "mul13 s = xtime (xtime (xtime s)) XOR xtime (xtime s) XOR s"
definition mul11 :: "byte \<Rightarrow> byte" where "mul11 s = xtime (xtime (xtime s)) XOR xtime s XOR s"

lemmas mul_defs = mul14_def mul9_def mul13_def mul11_def

definition unmixcol :: "32 word \<Rightarrow> 32 word" where
  "unmixcol w = (let a = GETBYTE w 3; b = GETBYTE w 2; c = GETBYTE w 1; d = GETBYTE w 0
     in column (mul14 a XOR mul11 b XOR mul13 c XOR mul9 d) (mul9 a XOR mul14 b XOR mul11 c XOR mul13 d)
          (mul13 a XOR mul9 b XOR mul14 c XOR mul11 d) (mul11 a XOR mul13 b XOR mul9 c XOR mul14 d))"

lemma GETBYTE_xor: "GETBYTE (v XOR w) n = GETBYTE v n XOR GETBYTE w n"
  by (rule bit_word_eqI) (auto simp: GETBYTE_def bit_simps)

lemma unmixcol_xor: "unmixcol (v XOR w) = unmixcol v XOR unmixcol w"
  by (simp add: unmixcol_def Let_def GETBYTE_xor column_xor mul_defs xtime_xor xor_ac)

lemma unmixcol_mixcol: "unmixcol (mixcol w) = w"
proof -
  obtain a b c d where w: "w = column a b c d" by (metis column_GETBYTE)
  show ?thesis
    by (simp add: w unmixcol_def mixcol_def Let_def GETBYTE_column mul_defs xtime_xor xor_ac)
qed

lemma more_tables:
  "Te1 ! unat a = rotrFixed (mix0 (sb a)) 8" "Td1 ! unat a = rotrFixed (unmix0 (si a)) 8"
  "Te2 ! unat a = rotrFixed (rotrFixed (mix0 (sb a)) 8) 8" "Td2 ! unat a = rotrFixed (rotrFixed (unmix0 (si a)) 8) 8"
  "Te3 ! unat a = rotrFixed (rotrFixed (rotrFixed (mix0 (sb a)) 8) 8) 8"
  "Td3 ! unat a = rotrFixed (rotrFixed (rotrFixed (unmix0 (si a)) 8) 8) 8"
  by (simp_all add: rotated_tables Te0_table Td0_table sb_def si_def length_S)

lemma te_mixcol: "te a b c d = mixcol (column (sb (GETBYTE a 3)) (sb (GETBYTE b 2)) (sb (GETBYTE c 1)) (sb (GETBYTE d 0)))"
  by (simp add: te_def table_at more_tables mix0_def rotr_column column_xor mixcol_def Let_def GETBYTE_column xor_ac)

lemma td_unmixcol: "td a b c d = unmixcol (column (si (GETBYTE a 3)) (si (GETBYTE b 2)) (si (GETBYTE c 1)) (si (GETBYTE d 0)))"
  by (simp add: td_def table_at more_tables unmix0_def rotr_column column_xor unmixcol_def Let_def GETBYTE_column mul_defs xor_ac)

lemma te_last_column: "te_last a b c d = column (sb (GETBYTE a 3)) (sb (GETBYTE b 2)) (sb (GETBYTE c 1)) (sb (GETBYTE d 0))"
  by (simp add: te_last_def table_at mask_column column_xor)

lemma td_last_column: "td_last a b c d = column (si (GETBYTE a 3)) (si (GETBYTE b 2)) (si (GETBYTE c 1)) (si (GETBYTE d 0))"
  by (simp add: td_last_def table_at mask_column column_xor)

lemma inv_mix_unmixcol: "inv_mix w = unmixcol w"
proof -
  have low: "unat (column a a a a AND 0xFF) = unat a" for a
  proof -
    have "column a a a a AND 0xFF = ucast a" by (simp add: mask_column) (simp add: column_def)
    moreover have "unat (ucast a :: 32 word) = unat a"
      by (simp add: unsigned_ucast_eq take_bit_nat_eq_self_iff order.strict_trans [OF unat_byte_less])
    ultimately show ?thesis by simp
  qed
  show ?thesis
    by (simp add: inv_mix_def table_at(1) low) (simp add: table_at more_tables si_sb unmix0_def rotr_column
        column_xor unmixcol_def Let_def mul_defs xor_ac)
qed


subsection \<open>Rounds\<close>

definition sub_shift :: "aes_state \<Rightarrow> aes_state" where
  "sub_shift = (\<lambda>(s0, s1, s2, s3).
     (te_last s0 s1 s2 s3, te_last s1 s2 s3 s0, te_last s2 s3 s0 s1, te_last s3 s0 s1 s2))"

definition inv_sub_shift :: "aes_state \<Rightarrow> aes_state" where
  "inv_sub_shift = (\<lambda>(s0, s1, s2, s3).
     (td_last s0 s3 s2 s1, td_last s1 s0 s3 s2, td_last s2 s1 s0 s3, td_last s3 s2 s1 s0))"

definition map_state :: "(32 word \<Rightarrow> 32 word) \<Rightarrow> aes_state \<Rightarrow> aes_state" where
  "map_state f = (\<lambda>(a, b, c, d). (f a, f b, f c, f d))"

lemma inv_sub_shift_sub_shift: "inv_sub_shift (sub_shift s) = s"
  by (cases s) (simp add: sub_shift_def inv_sub_shift_def te_last_column td_last_column GETBYTE_column si_sb
      column_GETBYTE [simplified])

lemma enc_round_eq: "enc_round rk k s = add_key rk k (map_state mixcol (sub_shift s))"
  by (cases s) (simp add: enc_round_def map_state_def sub_shift_def te_mixcol te_last_column)

lemma dec_round_eq: "dec_round rk k s = add_key rk k (map_state unmixcol (inv_sub_shift s))"
  by (cases s) (simp add: dec_round_def map_state_def inv_sub_shift_def td_unmixcol td_last_column)

lemma last_eq: "enc_last rk k s = add_key rk k (sub_shift s)" "dec_last rk k s = add_key rk k (inv_sub_shift s)"
  by (cases s, simp add: enc_last_def sub_shift_def, cases s, simp add: dec_last_def inv_sub_shift_def)

lemma add_key_twice:
  assumes "\<And>m. m < 4 \<Longrightarrow> dk ! (k' + m) = rk ! (k + m)"
  shows "add_key dk k' (add_key rk k s) = s"
proof -
  have "dk ! k' = rk ! k" "dk ! (k' + 1) = rk ! (k + 1)" "dk ! (k' + 2) = rk ! (k + 2)" "dk ! (k' + 3) = rk ! (k + 3)"
    using assms [of 0] assms [of 1] assms [of 2] assms [of 3] by simp_all
  then show ?thesis by (cases s) (simp add: add_key_def xor.assoc)
qed

lemma unmix_add_key:
  assumes "\<And>m. m < 4 \<Longrightarrow> dk ! (k' + m) = unmixcol (rk ! (k + m))"
  shows "add_key dk k' (map_state unmixcol (add_key rk k s)) = map_state unmixcol s"
proof -
  have "dk ! k' = unmixcol (rk ! k)" "dk ! (k' + 1) = unmixcol (rk ! (k + 1))" "dk ! (k' + 2) = unmixcol (rk ! (k + 2))"
      "dk ! (k' + 3) = unmixcol (rk ! (k + 3))"
    using assms [of 0] assms [of 1] assms [of 2] assms [of 3] by simp_all
  then show ?thesis by (cases s) (simp add: add_key_def map_state_def unmixcol_xor xor.assoc)
qed

lemma map_state_inverse: "map_state unmixcol (map_state mixcol s) = s"
  by (cases s) (simp add: map_state_def unmixcol_mixcol)

lemma upt_two_more: "[1..<2 * Suc (Suc r)] = 1 # 2 # map (\<lambda>i. i + 2) [1..<2 * Suc r]"
  by (rule nth_equalityI) (auto simp: nth_Cons simp del: upt_Suc split: nat.split)

lemma enc_loop_fold:
  "enc_loop rk (Suc r) k s = (fold (\<lambda>i. enc_round rk (k + 4 * i)) [1..<2 * Suc r] s, k + 8 * Suc r)"
proof (induction r arbitrary: k s)
  case (Suc r)
  have "enc_loop rk (Suc (Suc r)) k s = enc_loop rk (Suc r) (k + 8) (enc_round rk (k + 8) (enc_round rk (k + 4) s))"
    by (subst enc_loop.simps) (simp add: Let_def del: enc_loop.simps)
  then show ?case
    unfolding upt_two_more by (simp add: Suc.IH fold_map comp_def algebra_simps del: enc_loop.simps upt_Suc)
qed (simp add: upt_conv_Cons Let_def)

lemma dec_loop_fold:
  "dec_loop rk (Suc r) k s = (fold (\<lambda>i. dec_round rk (k + 4 * i)) [1..<2 * Suc r] s, k + 8 * Suc r)"
proof (induction r arbitrary: k s)
  case (Suc r)
  have "dec_loop rk (Suc (Suc r)) k s = dec_loop rk (Suc r) (k + 8) (dec_round rk (k + 8) (dec_round rk (k + 4) s))"
    by (subst dec_loop.simps) (simp add: Let_def del: dec_loop.simps)
  then show ?case
    unfolding upt_two_more by (simp add: Suc.IH fold_map comp_def algebra_simps del: dec_loop.simps upt_Suc)
qed (simp add: upt_conv_Cons Let_def)

text \<open>The relation between the schedules of encryptor and decryptor with \<open>R\<close> rounds.\<close>

definition schedule_pair :: "nat \<Rightarrow> 32 word list \<Rightarrow> 32 word list \<Rightarrow> bool" where
  "schedule_pair R rk dk \<longleftrightarrow> (\<forall>g \<le> R. \<forall>m < 4. dk ! (4 * g + m) =
     (if g = 0 \<or> g = R then rk ! (4 * (R - g) + m) else unmixcol (rk ! (4 * (R - g) + m))))"

definition enc_state :: "32 word list \<Rightarrow> aes_state \<Rightarrow> nat \<Rightarrow> aes_state" where
  "enc_state rk s n = fold (\<lambda>i. enc_round rk (4 * i)) [1..<Suc n] (add_key rk 0 s)"

lemma enc_state_Suc: "enc_state rk s (Suc n) = enc_round rk (4 * Suc n) (enc_state rk s n)"
  by (simp add: enc_state_def)

lemma dec_round_undo:
  assumes "schedule_pair R rk dk" "0 < g" "g < R"
  shows "dec_round dk (4 * g) (sub_shift (enc_round rk (4 * (R - g)) s)) = sub_shift s"
proof -
  have k: "dk ! (4 * g + m) = unmixcol (rk ! (4 * (R - g) + m))" if "m < 4" for m
    using assms that by (auto simp: schedule_pair_def)
  show ?thesis
    unfolding dec_round_eq enc_round_eq inv_sub_shift_sub_shift
    by (subst unmix_add_key [where rk = rk and k = "4 * (R - g)"]) (simp_all only: k map_state_inverse)
qed

lemma dec_rounds_undo:
  assumes "schedule_pair R rk dk" "n < R"
  shows "fold (\<lambda>i. dec_round dk (4 * i)) [1..<Suc n] (sub_shift (enc_state rk s (R - 1))) =
    sub_shift (enc_state rk s (R - 1 - n))"
  using assms(2)
proof (induction n)
  case (Suc n)
  let ?q = "R - 1 - Suc n"
  have m: "R - 1 - n = Suc ?q" "Suc ?q = R - Suc n" using Suc.prems by simp_all
  have "enc_state rk s (R - 1 - n) = enc_round rk (4 * (R - Suc n)) (enc_state rk s ?q)"
    by (simp only: m(1) enc_state_Suc) (simp only: m(2))
  then have "dec_round dk (4 * Suc n) (sub_shift (enc_state rk s (R - 1 - n))) = sub_shift (enc_state rk s ?q)"
    using dec_round_undo [OF assms(1), of "Suc n"] Suc.prems by simp
  moreover have "fold (\<lambda>i. dec_round dk (4 * i)) [1..<Suc (Suc n)] x =
      dec_round dk (4 * Suc n) (fold (\<lambda>i. dec_round dk (4 * i)) [1..<Suc n] x)" for x by simp
  ultimately show ?case using Suc.IH Suc.prems by (simp only: Suc_lessD)
qed simp

lemma aes_inverse:
  assumes pair: "schedule_pair R rk dk" and R: "even R" "0 < R" and b: "length b = 16"
  shows "\<exists>c. AESEncryptor_Transform R rk b = Ok c \<and> length c = 16 \<and> AESDecryptor_Transform R dk c = Ok b"
proof -
  obtain r where r: "R div 2 = Suc r" "2 * Suc r = R" using R by (cases "R div 2") (auto elim: evenE)
  let ?s = "GetBlockBigEndian4 b"
  let ?c = "enc_last rk (4 * R) (enc_state rk ?s (R - 1))"
  have one: "[1..<R] = [1..<Suc (R - 1)]" using R(2) by simp
  have "8 * Suc r = 4 * R" and r2: "Suc (Suc (2 * r)) = R" "8 + 8 * r = 4 * R" "Suc (R - Suc 0) = R"
    using r(2) by simp_all
  then have enc: "AESEncryptor_Transform R rk b = Ok (PutBlockBigEndian4 ?c)"
    using b by (simp add: AESEncryptor_Transform_def r enc_loop_fold KAESBlockBytes_def assertL_def guardL_def
        enc_state_def r2 del: enc_loop.simps upt_Suc)
  have first: "add_key dk 0 ?c = sub_shift (enc_state rk ?s (R - 1))"
    unfolding last_eq by (rule add_key_twice) (use pair in \<open>auto simp: schedule_pair_def\<close>)
  have rounds: "fold (\<lambda>i. dec_round dk (4 * i)) [1..<R] (add_key dk 0 ?c) = sub_shift (enc_state rk ?s 0)"
    unfolding first one using dec_rounds_undo [OF pair, of "R - 1"] R(2) by simp
  have "dec_last dk (4 * R) (sub_shift (enc_state rk ?s 0)) = ?s"
    unfolding last_eq inv_sub_shift_sub_shift
    by (simp add: enc_state_def) (rule add_key_twice, use pair in \<open>auto simp: schedule_pair_def\<close>)
  then have "AESDecryptor_Transform R dk (PutBlockBigEndian4 ?c) = Ok b"
    using rounds b \<open>8 * Suc r = 4 * R\<close>
    by (simp add: AESDecryptor_Transform_def r dec_loop_fold Get_Put_BigEndian4 Put_Get_BigEndian4 r2 del: dec_loop.simps upt_Suc)
  then show ?thesis using enc by simp
qed


subsection \<open>The decryptor's schedule\<close>

lemma length_reverse_groups [simp]: "length (reverse_groups i j rk) = length rk"
  by (induction i j rk rule: reverse_groups.induct) (subst reverse_groups.simps, simp add: swap_groups_def)

lemma swap_groups_nth:
  assumes "g < h" "4 * h + 4 \<le> length rk" "m < 4"
  shows "swap_groups (4 * g) (4 * h) rk ! (4 * q + m) =
    (if q = g then rk ! (4 * h + m) else if q = h then rk ! (4 * g + m) else rk ! (4 * q + m))"
proof -
  have "m = 0 \<or> m = 1 \<or> m = 2 \<or> m = 3" using assms(3) by linarith
  moreover have "4 * a + c \<noteq> 4 * b + d" if "a \<noteq> b" "c < 4" "d < 4" for a b c d :: nat
    using that by presburger
  ultimately show ?thesis
    using assms by (elim disjE; simp add: swap_groups_def swap_entries_nth)
qed

lemma reverse_groups_nth:
  assumes "m < 4" "4 * h + 4 \<le> length rk"
  shows "reverse_groups (4 * g) (4 * h) rk ! (4 * q + m) =
    (if g \<le> q \<and> q \<le> h then rk ! (4 * (g + h - q) + m) else rk ! (4 * q + m))"
  using assms
proof (induction "h - g" arbitrary: g h rk rule: less_induct)
  case less
  show ?case
  proof (cases "g < h")
    case False
    then have "g + h - q = q" if "g \<le> q" "q \<le> h" using that by simp
    then show ?thesis using False by (subst reverse_groups.simps) auto
  next
    case True
    let ?sw = "swap_groups (4 * g) (4 * h) rk"
    have len: "length ?sw = length rk" by (simp add: swap_groups_def)
    have eq: "reverse_groups (4 * g) (4 * h) rk = reverse_groups (4 * Suc g) (4 * (h - 1)) ?sw"
      using True by (subst reverse_groups.simps) (simp add: diff_mult_distrib2 add.commute)
    have IH: "reverse_groups (4 * Suc g) (4 * (h - 1)) ?sw ! (4 * q + m) =
        (if Suc g \<le> q \<and> q \<le> h - 1 then ?sw ! (4 * (Suc g + (h - 1) - q) + m) else ?sw ! (4 * q + m))"
      using True less.prems len by (intro less.hyps) simp_all
    note sw = swap_groups_nth [OF True less.prems(2,1)]
    have "Suc g + (h - 1) - q = g + h - q" using True by simp
    then show ?thesis
      unfolding eq IH sw using True by (auto simp: sw)
  qed
qed

lemma length_invert_group [simp]: "length (invert_group i rk) = length rk"
  by (simp add: invert_group_def)

lemma invert_group_nth:
  assumes "m < 4" "4 * i + 4 \<le> length rk"
  shows "invert_group i rk ! (4 * q + m) = (if q = i then inv_mix (rk ! (4 * q + m)) else rk ! (4 * q + m))"
proof (cases "q = i")
  case True
  have "m = 0 \<or> m = 1 \<or> m = 2 \<or> m = 3" using assms(1) by linarith
  then show ?thesis using True assms(2) by (elim disjE) (simp_all add: invert_group_def nth_list_update)
next
  case False
  have "4 * a + c \<noteq> 4 * b + d" if "a \<noteq> b" "c < 4" "d < 4" for a b c d :: nat
    using that by presburger
  from this [OF False assms(1), of 0] this [OF False assms(1), of 1] this [OF False assms(1), of 2]
    this [OF False assms(1), of 3]
  show ?thesis using False by (simp add: invert_group_def)
qed

lemma length_invert_fold [simp]: "length (fold invert_group is rk) = length rk"
  by (induction "is" arbitrary: rk) simp_all

lemma invert_fold_nth:
  assumes "m < 4" "4 * n + 4 \<le> length rk"
  shows "fold invert_group [1..<Suc n] rk ! (4 * q + m) =
    (if 0 < q \<and> q \<le> n then inv_mix (rk ! (4 * q + m)) else rk ! (4 * q + m))"
  using assms(2)
proof (induction n)
  case 0
  then show ?case by (cases "q = 0") simp_all
next
  case (Suc n)
  have up: "[1..<Suc (Suc n)] = [1..<Suc n] @ [Suc n]" by simp
  have IH: "fold invert_group [1..<Suc n] rk ! (4 * q + m) =
      (if 0 < q \<and> q \<le> n then inv_mix (rk ! (4 * q + m)) else rk ! (4 * q + m))" using Suc by simp
  have g: "4 * Suc n + 4 \<le> length (fold invert_group [1..<Suc n] rk)" using Suc.prems by simp
  have "fold invert_group [1..<Suc (Suc n)] rk = invert_group (Suc n) (fold invert_group [1..<Suc n] rk)"
    unfolding up fold_append by simp
  then show ?case
    unfolding invert_group_nth [OF assms(1) g, of q] by (simp only: invert_group_nth [OF assms(1) g, of q] IH) auto
qed

lemma schedule_pair_invert:
  assumes "0 < R" "length rk = 4 * R + 4"
  shows "schedule_pair R rk (invert_schedule R rk)"
  unfolding schedule_pair_def
proof (intro allI impI)
  fix g m :: nat assume g: "g \<le> R" and m: "m < 4"
  have up: "[1..<R] = [1..<Suc (R - 1)]" using assms(1) by simp
  have "invert_schedule R rk ! (4 * g + m) =
      (if 0 < g \<and> g \<le> R - 1 then inv_mix (reverse_groups 0 (4 * R) rk ! (4 * g + m))
       else reverse_groups 0 (4 * R) rk ! (4 * g + m))"
    unfolding invert_schedule_def up
    using invert_fold_nth [OF m, of "R - 1" "reverse_groups 0 (4 * R) rk" g] assms(2) by (simp del: upt_Suc)
  moreover have "reverse_groups 0 (4 * R) rk ! (4 * g + m) = rk ! (4 * (R - g) + m)"
    using reverse_groups_nth [OF m, of R rk 0 g] assms(2) g by simp
  ultimately show "invert_schedule R rk ! (4 * g + m) =
      (if g = 0 \<or> g = R then rk ! (4 * (R - g) + m) else unmixcol (rk ! (4 * (R - g) + m)))"
    using g by (auto simp: inv_mix_unmixcol)
qed

lemma length_chain [simp]: "length (chain n rk) = Suc (length rk)"
  by (simp add: chain_def)

lemma length_AES_SetKey:
  assumes "AES_SetKey key = Ok rk"
  shows "length rk = 4 * AES_Rounds key + 4" "even (AES_Rounds key)" "0 < AES_Rounds key"
proof -
  have e128: "length (expand128 i rk) = length rk + 4" for i rk
    by (simp add: expand128_def Let_def)
  have e192: "length (expand192 i rk) = length rk + (if i + 1 = 8 then 4 else 6)" for i rk
    by (simp add: expand192_def Let_def)
  have e256: "length (expand256 i rk) = length rk + (if i + 1 = 7 then 4 else 8)" for i rk
    by (simp add: expand256_def Let_def)
  have f128: "length (fold expand128 is rk) = length rk + 4 * length is" for "is" rk
    by (induction "is" arbitrary: rk) (simp_all add: e128)
  have f192: "length (fold expand192 [0..<8] rk) = length rk + 46" for rk
    by (simp add: upt_rec e192)
  have f256: "length (fold expand256 [0..<7] rk) = length rk + 52" for rk
    by (simp add: upt_rec e256)
  show "length rk = 4 * AES_Rounds key + 4" "even (AES_Rounds key)" "0 < AES_Rounds key"
    using assms f128 [of "[0..<10]"] f192 f256
    by (auto simp: AES_SetKey_def AES_Rounds_def GetUserKeyBigEndian_def Let_def split: if_splits)
qed

text \<open>\<open>CAESDecryptor\<close> undoes \<open>CAESEncryptor\<close> for every key of the three sizes.\<close>

lemma aes_key_inverse:
  assumes "AES_SetKey key = Ok rk" "length b = 16"
  shows "\<exists>dk c. AESDecryptor_SetKey key = Ok dk \<and> AESEncryptor_Transform (AES_Rounds key) rk b = Ok c \<and>
    length c = 16 \<and> AESDecryptor_Transform (AES_Rounds key) dk c = Ok b"
proof -
  note l = length_AES_SetKey [OF assms(1)]
  show ?thesis
    using aes_inverse [OF schedule_pair_invert [OF l(3,1)] l(2,3) assms(2)] assms(1)
    by (simp add: AESDecryptor_SetKey_def)
qed

end
