(* ===== verification/PaddingLaws.thy ===== *)
theory PaddingLaws
  imports Buffered
begin

section \<open>What the padding systems promise\<close>

text \<open>
  \<open>UnPadL\<close> undoes \<open>PadL\<close> for every padding system; the SSLv3 and PKCS7 paddings satisfy the
  contract \<open>block_padding\<close> of the buffered ciphers and are interpreted at the block sizes of
  the ciphers of this library; and what the functions that remove padding accept.
\<close>

lemma read_last: "xs \<noteq> [] \<Longrightarrow> read_byte xs (int (length xs) - 1) = Ok (last xs)"
  by (cases xs) (simp_all add: read_byte_def last_conv_nth nat_diff_distrib')

lemma unat_byte: "k < 256 \<Longrightarrow> unat (of_nat k :: byte) = k"
  by (simp add: unat_of_nat take_bit_nat_eq_self_iff)

lemma read_padding:
  "0 < k \<Longrightarrow> read_byte (x @ replicate k v) (int (length (x @ replicate k v)) - 1) = Ok v"
  by (subst read_last) simp_all

lemma append_left_Ok:
  assumes "des_ok d" "Len d + length x \<le> MaxLength d"
  shows "\<exists>e. append_left (x @ y) (length x) d = Ok e \<and> Data e = Data d @ x"
  using Append_Ok [of d x] assms by (auto simp: append_left_def guardL_def)

lemma block_padding_SSLv3:
  assumes "0 < n" "n \<le> 256"
  shows "block_padding (CPaddingSSLv3 n) n (\<lambda>x. replicate (n - length x) (of_nat (n - length x - 1)))"
proof
  show "iBlockBytes (CPaddingSSLv3 n) = n" by simp
  fix m show "MaxPaddedLength (CPaddingSSLv3 n) m = m - m mod n + n" using assms(1) by simp
  fix x :: "byte list" and d and rnd :: "nat \<Rightarrow> byte list"
  assume x: "length x < n"
  then show "length x + length (replicate (n - length x) (of_nat (n - length x - 1) :: byte)) = n" by simp
  assume d: "des_ok d" "Len d + n \<le> MaxLength d"
  show "\<exists>e. PadL rnd (CPaddingSSLv3 n) x d = Some (Ok e) \<and>
      Data e = Data d @ x @ replicate (n - length x) (of_nat (n - length x - 1)) \<and> des_ok e \<and> MaxLength e = MaxLength d"
    using x d pad_block_Ok [OF d(1), of x "n - length x" "of_nat (n - length x - 1)"]
    by (simp add: PadL_def PadSSLv3L_def Let_def)
  have b: "unat (of_nat (n - length x - 1) :: byte) + 1 = n - length x"
    using x assms(2) unat_byte [of "n - length x - 1"] by linarith
  show "\<exists>e. UnPadL (CPaddingSSLv3 n) (x @ replicate (n - length x) (of_nat (n - length x - 1))) d = Ok e \<and> Data e = Data d @ x"
    using x d append_left_Ok [OF d(1), of x "replicate (n - length x) (of_nat (n - length x - 1))"] b
      read_padding [of "n - length x" x "of_nat (n - length x - 1)"]
    unfolding UnPadL.simps UnPadSSLv3L_def Let_def by (simp del: of_nat_diff)
qed

lemma block_padding_PKCS7:
  assumes "0 < n" "n < 256"
  shows "block_padding (CPaddingPKCS7 n) n (\<lambda>x. replicate (n - length x) (of_nat (n - length x)))"
proof
  show "iBlockBytes (CPaddingPKCS7 n) = n" by simp
  fix m show "MaxPaddedLength (CPaddingPKCS7 n) m = m - m mod n + n" using assms(1) by simp
  fix x :: "byte list" and d and rnd :: "nat \<Rightarrow> byte list"
  assume x: "length x < n"
  then show "length x + length (replicate (n - length x) (of_nat (n - length x) :: byte)) = n" by simp
  assume d: "des_ok d" "Len d + n \<le> MaxLength d"
  show "\<exists>e. PadL rnd (CPaddingPKCS7 n) x d = Some (Ok e) \<and>
      Data e = Data d @ x @ replicate (n - length x) (of_nat (n - length x)) \<and> des_ok e \<and> MaxLength e = MaxLength d"
    using x d pad_block_Ok [OF d(1), of x "n - length x" "of_nat (n - length x)"]
    by (simp add: PadL_def PadPKCS7L_def Let_def)
  have b: "unat (of_nat (n - length x) :: byte) = n - length x"
    using x assms(2) unat_byte [of "n - length x"] by linarith
  show "\<exists>e. UnPadL (CPaddingPKCS7 n) (x @ replicate (n - length x) (of_nat (n - length x))) d = Ok e \<and> Data e = Data d @ x"
    using x d append_left_Ok [OF d(1), of x "replicate (n - length x) (of_nat (n - length x))"] b
      read_padding [of "n - length x" x "of_nat (n - length x)"]
    unfolding UnPadL.simps UnPadPKCS7L_def Let_def by auto
qed

interpretation ssl3_8: block_padding "CPaddingSSLv3 8" 8 "\<lambda>x. replicate (8 - length x) (of_nat (8 - length x - 1))"
  by (rule block_padding_SSLv3) simp_all

interpretation ssl3_16: block_padding "CPaddingSSLv3 16" 16 "\<lambda>x. replicate (16 - length x) (of_nat (16 - length x - 1))"
  by (rule block_padding_SSLv3) simp_all

interpretation pkcs7_8: block_padding "CPaddingPKCS7 8" 8 "\<lambda>x. replicate (8 - length x) (of_nat (8 - length x))"
  by (rule block_padding_PKCS7) simp_all

interpretation pkcs7_16: block_padding "CPaddingPKCS7 16" 16 "\<lambda>x. replicate (16 - length x) (of_nat (16 - length x))"
  by (rule block_padding_PKCS7) simp_all



text \<open>
  C16: what \<open>CPaddingPKCS7::UnPadL\<close> lets through: the result followed by \<open>k\<close> bytes of value \<open>k\<close>;
  everything else leaves with \<open>KErrInvalidPadding\<close>.  \<open>k = 0\<close> is let through as well, so a last
  byte zero returns the whole input.
\<close>

theorem UnPadPKCS7_accepts:
  assumes "des_ok d" "Len d + length x \<le> MaxLength d" "x \<noteq> []"
  shows "case UnPadL (CPaddingPKCS7 b) x d of
      Inr e \<Rightarrow> (\<exists>y. Data e = Data d @ y \<and> x = y @ replicate (unat (last x)) (last x))
    | Inl err \<Rightarrow> err = KErrInvalidPadding \<and> (\<nexists>y. x = y @ replicate (unat (last x)) (last x))"
proof -
  let ?v = "last x"
  let ?k = "unat ?v"
  have r: "read_byte x (int (length x) - 1) = Ok ?v" by (rule read_last [OF assms(3)])
  show ?thesis
  proof (cases "?k \<le> length x")
    case False
    have "\<nexists>y. x = y @ replicate ?k ?v"
    proof
      assume "\<exists>y. x = y @ replicate ?k ?v"
      then obtain y where "length x = length y + ?k" by (metis length_append length_replicate)
      then show False using False by simp
    qed
    then show ?thesis using False r by (simp add: UnPadPKCS7L_def Let_def)
  next
    case True
    let ?y = "take (length x - ?k) x"
    have split: "x = ?y @ drop (length x - ?k) x" by simp
    have cap: "Len d + length ?y \<le> MaxLength d" using assms(2) by simp
    obtain e where e: "append_left x (length x - ?k) d = Ok e" "Data e = Data d @ ?y"
      using append_left_Ok [OF assms(1), of ?y "drop (length x - ?k) x"] cap True by auto
    show ?thesis
    proof (cases "\<exists>z \<in> set (drop (length x - ?k) x). z \<noteq> ?v")
      case True
      have "\<nexists>y. x = y @ replicate ?k ?v"
      proof
        assume "\<exists>y. x = y @ replicate ?k ?v"
        then obtain y where y: "x = y @ replicate ?k ?v" ..
        then have "length x - ?k = length y" by (metis add_diff_cancel_right' length_append length_replicate)
        then have "drop (length x - ?k) x = replicate ?k ?v" by (metis append_eq_conv_conj y)
        then show False using True by auto
      qed
      then show ?thesis using True \<open>?k \<le> length x\<close> r e by (simp add: UnPadPKCS7L_def Let_def)
    next
      case False
      then have "drop (length x - ?k) x = replicate ?k ?v"
        using \<open>?k \<le> length x\<close> replicate_eqI [of "drop (length x - ?k) x" ?k ?v] by auto
      then have "x = ?y @ replicate ?k ?v" using split by simp
      then show ?thesis using False \<open>?k \<le> length x\<close> r e by (auto simp: UnPadPKCS7L_def Let_def)
    qed
  qed
qed

theorem UnPadPKCS7_accepts_witness:
  "case UnPadL (CPaddingPKCS7 4) [9, 2, 2] (new_des 8) of
      Inr e \<Rightarrow> (\<exists>y. Data e = Data (new_des 8) @ y \<and> [9, 2, 2 :: byte] = y @ replicate (unat (last [9, 2, 2 :: byte])) (last [9, 2, 2]))
    | Inl err \<Rightarrow> err = KErrInvalidPadding \<and>
        (\<nexists>y. [9, 2, 2 :: byte] = y @ replicate (unat (last [9, 2, 2 :: byte])) (last [9, 2, 2]))"
  by (rule UnPadPKCS7_accepts) (simp_all add: new_des_props)

lemma UnPadPKCS7_zero:
  "UnPadL (CPaddingPKCS7 4) [1, 2, 3, 0] (new_des 4) = Ok \<lparr>Buf = [1, 2, 3, 0], Len = 4\<rparr>"
  by code_simp

end
