(* ===== verification/PbeCipher.thy ===== *)
theory PbeCipher
  imports Arc4 Des RijndaelLaws PaddingLaws
begin

section \<open>Ciphers for password based encryption (\<open>pbesymmetricfactory.cpp\<close>, \<open>pbencryptor.cpp\<close>)\<close>

text \<open>
  The factory that turns a cipher identifier, a key and an initialisation vector into a
  cipher object: ARC4, or a block cipher in CBC mode behind a buffer with SSLv3 padding.
  \<open>maxBits\<close> is the strength limit of the build (\<open>TCrypto\<close>).  The theorem composes the
  ciphers, the mode, the buffer and the padding.
\<close>

datatype TPBECipher =
    ECipherAES_CBC_128 | ECipherAES_CBC_192 | ECipherAES_CBC_256 | ECipherDES_CBC | ECipher3DES_CBC
  | ECipherRC2_CBC_40 | ECipherRC2_CBC_128 | ECipherRC2_CBC_40_16 | ECipherRC2_CBC_128_16
  | ECipherARC4_128 | ECipherARC4_40 | ECipher2Key3DES_CBC | ECipherRC2_CBC_40_5

fun GetBlockBytes :: "TPBECipher \<Rightarrow> nat" where
  "GetBlockBytes ECipherAES_CBC_128 = 16"
| "GetBlockBytes ECipherAES_CBC_192 = 16"
| "GetBlockBytes ECipherAES_CBC_256 = 16"
| "GetBlockBytes ECipherARC4_128 = 1"
| "GetBlockBytes ECipherARC4_40 = 1"
| "GetBlockBytes c = 8"

fun GetKeyBytes :: "TPBECipher \<Rightarrow> nat" where
  "GetKeyBytes ECipherAES_CBC_128 = 16"
| "GetKeyBytes ECipherAES_CBC_192 = 24"
| "GetKeyBytes ECipherAES_CBC_256 = 32"
| "GetKeyBytes ECipherDES_CBC = 8"
| "GetKeyBytes ECipher3DES_CBC = 24"
| "GetKeyBytes ECipher2Key3DES_CBC = 16"
| "GetKeyBytes ECipherRC2_CBC_128 = 16"
| "GetKeyBytes ECipherRC2_CBC_128_16 = 16"
| "GetKeyBytes ECipherRC2_CBC_40 = 5"
| "GetKeyBytes ECipherRC2_CBC_40_16 = 5"
| "GetKeyBytes ECipherRC2_CBC_40_5 = 5"
| "GetKeyBytes ECipherARC4_128 = 16"
| "GetKeyBytes ECipherARC4_40 = 5"

subsection \<open>Constructors of the block ciphers\<close>

type_synonym block_function = "byte list \<Rightarrow> byte list result"

definition AESEncryptor_NewL :: "int \<Rightarrow> byte list \<Rightarrow> block_function result" where
  "AESEncryptor_NewL maxBits aKey =
     bindL (AES_SetKey aKey) (\<lambda>iK. bindL (IsSymmetricWeakEnoughL maxBits (int (8 * length aKey))) (\<lambda>_.
       Ok (AESEncryptor_Transform (AES_Rounds aKey) iK)))"

definition AESDecryptor_NewL :: "int \<Rightarrow> byte list \<Rightarrow> block_function result" where
  "AESDecryptor_NewL maxBits aKey =
     bindL (AESDecryptor_SetKey aKey) (\<lambda>iK. bindL (IsSymmetricWeakEnoughL maxBits (int (8 * length aKey))) (\<lambda>_.
       Ok (AESDecryptor_Transform (AES_Rounds aKey) iK)))"

definition DES3Encryptor_NewL :: "int \<Rightarrow> byte list \<Rightarrow> block_function result" where
  "DES3Encryptor_NewL maxBits aKey =
     bindL (assertL (length aKey = 24)) (\<lambda>_.
     bindL (IsSymmetricWeakEnoughL maxBits (int (8 * length aKey) - int (length aKey))) (\<lambda>_.
       Ok (DES3_Transform (DES3Encryptor_DoSetKey aKey))))"

definition DES3Decryptor_NewL :: "int \<Rightarrow> byte list \<Rightarrow> block_function result" where
  "DES3Decryptor_NewL maxBits aKey =
     bindL (assertL (length aKey = 24)) (\<lambda>_.
     bindL (IsSymmetricWeakEnoughL maxBits (int (8 * length aKey) - int (length aKey))) (\<lambda>_.
       Ok (DES3_Transform (DES3Decryptor_DoSetKey aKey))))"

definition RC2Encryptor_NewL :: "int \<Rightarrow> byte list \<Rightarrow> nat \<Rightarrow> block_function result" where
  "RC2Encryptor_NewL maxBits aKey aEffectiveKeyLenBits =
     bindL (IsSymmetricWeakEnoughL maxBits (min (int aEffectiveKeyLenBits) (int (8 * length aKey)))) (\<lambda>_.
       Ok (RC2Encryptor_Transform (RC2_SetKey aKey aEffectiveKeyLenBits)))"

definition RC2Decryptor_NewL :: "int \<Rightarrow> byte list \<Rightarrow> nat \<Rightarrow> block_function result" where
  "RC2Decryptor_NewL maxBits aKey aEffectiveKeyLenBits =
     bindL (IsSymmetricWeakEnoughL maxBits (min (int aEffectiveKeyLenBits) (int (8 * length aKey)))) (\<lambda>_.
       Ok (RC2Decryptor_Transform (RC2_SetKey aKey aEffectiveKeyLenBits)))"

definition ARC4_NewL :: "int \<Rightarrow> byte list \<Rightarrow> nat \<Rightarrow> CARC4 result" where
  "ARC4_NewL maxBits aKey aDiscardBytes =
     bindL (IsSymmetricWeakEnoughL maxBits (int (8 * length aKey))) (\<lambda>_. Ok (NewCARC4 aKey aDiscardBytes))"

definition KSSLCompatibilityBits :: nat where "KSSLCompatibilityBits = 1024"
definition KPkcs8CompatibilityBits :: nat where "KPkcs8CompatibilityBits = 128"
definition KPkcs12CompatibilityBits :: nat where "KPkcs12CompatibilityBits = 40"

subsection \<open>The factory\<close>

datatype CSymmetricCipher =
    StreamCipher CARC4
  | BufferedEncryptor block_function nat CPadding "unit chaining buffered"
  | BufferedDecryptor block_function nat CPadding "unit chaining buffered"

fun block_encryptor :: "int \<Rightarrow> TPBECipher \<Rightarrow> byte list \<Rightarrow> block_function result" where
  "block_encryptor m ECipherAES_CBC_128 k = AESEncryptor_NewL m k"
| "block_encryptor m ECipherAES_CBC_192 k = AESEncryptor_NewL m k"
| "block_encryptor m ECipherAES_CBC_256 k = AESEncryptor_NewL m k"
| "block_encryptor m ECipherDES_CBC k = bindL (DESEncryptor_NewL m k True) (\<lambda>iK. Ok (DES_Transform iK))"
| "block_encryptor m ECipher3DES_CBC k = DES3Encryptor_NewL m k"
| "block_encryptor m ECipher2Key3DES_CBC k =
     bindL (guardL (length k + 8 \<le> 24) ETDes8Overflow) (\<lambda>_. DES3Encryptor_NewL m (k @ take 8 k))"
| "block_encryptor m ECipherRC2_CBC_40 k = RC2Encryptor_NewL m k KSSLCompatibilityBits"
| "block_encryptor m ECipherRC2_CBC_128 k = RC2Encryptor_NewL m k KSSLCompatibilityBits"
| "block_encryptor m ECipherRC2_CBC_40_16 k = RC2Encryptor_NewL m k KPkcs8CompatibilityBits"
| "block_encryptor m ECipherRC2_CBC_128_16 k = RC2Encryptor_NewL m k KPkcs8CompatibilityBits"
| "block_encryptor m ECipherRC2_CBC_40_5 k = RC2Encryptor_NewL m k KPkcs12CompatibilityBits"
| "block_encryptor m ECipherARC4_128 k = Leave (Panic 1)"
| "block_encryptor m ECipherARC4_40 k = Leave (Panic 1)"

fun block_decryptor :: "int \<Rightarrow> TPBECipher \<Rightarrow> byte list \<Rightarrow> block_function result" where
  "block_decryptor m ECipherAES_CBC_128 k = AESDecryptor_NewL m k"
| "block_decryptor m ECipherAES_CBC_192 k = AESDecryptor_NewL m k"
| "block_decryptor m ECipherAES_CBC_256 k = AESDecryptor_NewL m k"
| "block_decryptor m ECipherDES_CBC k = bindL (DESDecryptor_NewL m k True) (\<lambda>iK. Ok (DES_Transform iK))"
| "block_decryptor m ECipher3DES_CBC k = DES3Decryptor_NewL m k"
| "block_decryptor m ECipher2Key3DES_CBC k =
     bindL (guardL (length k + 8 \<le> 24) ETDes8Overflow) (\<lambda>_. DES3Decryptor_NewL m (k @ take 8 k))"
| "block_decryptor m ECipherRC2_CBC_40 k = RC2Decryptor_NewL m k KSSLCompatibilityBits"
| "block_decryptor m ECipherRC2_CBC_128 k = RC2Decryptor_NewL m k KSSLCompatibilityBits"
| "block_decryptor m ECipherRC2_CBC_40_16 k = RC2Decryptor_NewL m k KPkcs8CompatibilityBits"
| "block_decryptor m ECipherRC2_CBC_128_16 k = RC2Decryptor_NewL m k KPkcs8CompatibilityBits"
| "block_decryptor m ECipherRC2_CBC_40_5 k = RC2Decryptor_NewL m k KPkcs12CompatibilityBits"
| "block_decryptor m ECipherARC4_128 k = Leave (Panic 1)"
| "block_decryptor m ECipherARC4_40 k = Leave (Panic 1)"

definition MakeEncryptorL :: "int \<Rightarrow> TPBECipher \<Rightarrow> byte list \<Rightarrow> byte list \<Rightarrow> CSymmetricCipher result" where
  "MakeEncryptorL maxBits aCipher aKey aIV =
     (if aCipher = ECipherARC4_40 \<or> aCipher = ECipherARC4_128
      then bindL (ARC4_NewL maxBits aKey 0) (\<lambda>c. Ok (StreamCipher c))
      else bindL (block_encryptor maxBits aCipher aKey) (\<lambda>f.
        Ok (BufferedEncryptor f (GetBlockBytes aCipher) (CPaddingSSLv3 (GetBlockBytes aCipher))
          \<lparr>iTransformation = ConstructChaining () aIV, iInputStore = []\<rparr>)))"

definition MakeDecryptorL :: "int \<Rightarrow> TPBECipher \<Rightarrow> byte list \<Rightarrow> byte list \<Rightarrow> CSymmetricCipher result" where
  "MakeDecryptorL maxBits aCipher aKey aIV =
     (if aCipher = ECipherARC4_40 \<or> aCipher = ECipherARC4_128
      then bindL (ARC4_NewL maxBits aKey 0) (\<lambda>c. Ok (StreamCipher c))
      else bindL (block_decryptor maxBits aCipher aKey) (\<lambda>f.
        Ok (BufferedDecryptor f (GetBlockBytes aCipher) (CPaddingSSLv3 (GetBlockBytes aCipher))
          \<lparr>iTransformation = ConstructChaining () aIV, iInputStore = []\<rparr>)))"

text \<open>\<open>CPBEncryptorElement\<close> and \<open>CPBDecryptorElement\<close> delegate to the cipher's virtual functions.\<close>

fun CipherProcess :: "CSymmetricCipher \<Rightarrow> byte list \<Rightarrow> TDes8 \<Rightarrow> (TDes8 \<times> CSymmetricCipher) result" where
  "CipherProcess (StreamCipher s) x d = bindL (StreamProcess DoProcess s x d) (\<lambda>(d, s). Ok (d, StreamCipher s))"
| "CipherProcess (BufferedEncryptor f n p b) x d =
     bindL (Process n (CBCEncryptor_Transform n (stateless f)) b x d) (\<lambda>(d, b). Ok (d, BufferedEncryptor f n p b))"
| "CipherProcess (BufferedDecryptor f n p b) x d =
     bindL (Process n (CBCDecryptor_Transform n (stateless f)) b x d) (\<lambda>(d, b). Ok (d, BufferedDecryptor f n p b))"

fun CipherProcessFinalL ::
    "(nat \<Rightarrow> byte list) \<Rightarrow> CSymmetricCipher \<Rightarrow> byte list \<Rightarrow> TDes8 \<Rightarrow> (TDes8 \<times> CSymmetricCipher) result option" where
  "CipherProcessFinalL rnd (StreamCipher s) x d = Some (CipherProcess (StreamCipher s) x d)"
| "CipherProcessFinalL rnd (BufferedEncryptor f n p b) x d =
     map_option (\<lambda>m. bindL m (\<lambda>(d, b). Ok (d, BufferedEncryptor f n p b)))
       (EncryptFinalL rnd n (CBCEncryptor_Transform n (stateless f)) p b x d)"
| "CipherProcessFinalL rnd (BufferedDecryptor f n p b) x d =
     Some (bindL (DecryptFinalL n (CBCDecryptor_Transform n (stateless f)) p b x d)
       (\<lambda>(d, b). Ok (d, BufferedDecryptor f n p b)))"

subsection \<open>A client of the factory\<close>

fun CipherProcessAll :: "CSymmetricCipher \<Rightarrow> byte list list \<Rightarrow> TDes8 \<Rightarrow> (TDes8 \<times> CSymmetricCipher) result" where
  "CipherProcessAll c [] d = Ok (d, c)"
| "CipherProcessAll c (x # xs) d = bindL (CipherProcess c x d) (\<lambda>(d, c). CipherProcessAll c xs d)"

definition client :: "(nat \<Rightarrow> byte list) \<Rightarrow> CSymmetricCipher \<Rightarrow> byte list list \<Rightarrow> byte list \<Rightarrow> nat \<Rightarrow> byte list result option" where
  "client rnd c chunks x N =
     (case CipherProcessAll c chunks (new_des N) of
        Inl e \<Rightarrow> Some (Leave e)
      | Inr (d, c) \<Rightarrow> map_option (\<lambda>m. bindL m (\<lambda>(d, c). Ok (Data d))) (CipherProcessFinalL rnd c x d))"

lemma bindL_pair_Ok: "bindL (bindL m (\<lambda>(d, b). Ok (d, f b))) g = bindL m (\<lambda>(d, b). g (d, f b))"
  by (cases m) auto

lemma CipherProcessAll_encryptor:
  "CipherProcessAll (BufferedEncryptor f n p b) cs d =
    bindL (ProcessAll n (CBCEncryptor_Transform n (stateless f)) b cs d) (\<lambda>(d, b). Ok (d, BufferedEncryptor f n p b))"
proof (induction cs arbitrary: b d)
  case (Cons x xs)
  show ?case
    by (cases "Process n (CBCEncryptor_Transform n (stateless f)) b x d") (auto simp: Cons.IH)
qed simp

lemma CipherProcessAll_decryptor:
  "CipherProcessAll (BufferedDecryptor f n p b) cs d =
    bindL (ProcessAll n (CBCDecryptor_Transform n (stateless f)) b cs d) (\<lambda>(d, b). Ok (d, BufferedDecryptor f n p b))"
proof (induction cs arbitrary: b d)
  case (Cons x xs)
  show ?case
    by (cases "Process n (CBCDecryptor_Transform n (stateless f)) b x d") (auto simp: Cons.IH)
qed simp

lemma client_encryptor:
  "client rnd (BufferedEncryptor f n p \<lparr>iTransformation = s, iInputStore = []\<rparr>) cs x N =
    encrypt_all rnd n (CBCEncryptor_Transform n (stateless f)) p s cs x N"
  unfolding client_def encrypt_all_def CipherProcessAll_encryptor
  by (auto simp: bindL_def option.map_comp comp_def split: sum.splits prod.splits intro!: option.map_cong)

lemma client_decryptor:
  "client rnd (BufferedDecryptor f n p \<lparr>iTransformation = s, iInputStore = []\<rparr>) cs x N =
    Some (decrypt_all n (CBCDecryptor_Transform n (stateless f)) p s cs x N)"
  unfolding client_def decrypt_all_def CipherProcessAll_decryptor
  by (auto simp: bindL_def split: sum.splits prod.splits)


subsection \<open>Round trip\<close>

lemma aes_block_cipher:
  assumes "AES_SetKey key = Ok rk"
  shows "block_cipher (AESEncryptor_Transform (AES_Rounds key) rk)
    (AESDecryptor_Transform (AES_Rounds key) (invert_schedule (AES_Rounds key) rk)) 16"
  using aes_key_inverse [OF assms] assms by unfold_locales (auto simp: AESDecryptor_SetKey_def)

lemma length_expand128: "length (fold expand128 is rk) = length rk + 4 * length is"
  by (induction "is" arbitrary: rk) (simp_all add: expand128_def Let_def)

interpretation aes128: block_cipher "AESEncryptor_Transform 10 (fold expand128 [0..<10] (GetUserKeyBigEndian 4 key))"
  "AESDecryptor_Transform 10 (invert_schedule 10 (fold expand128 [0..<10] (GetUserKeyBigEndian 4 key)))" 16 for key
  by unfold_locales
    (simp_all add: aes_inverse schedule_pair_invert length_expand128 GetUserKeyBigEndian_def)

context block_cipher
begin

lemma cbc_pair:
  "transformation_pair (CBCEncryptor_Transform blk (stateless enc)) (CBCDecryptor_Transform blk (stateless dec)) (same_register blk) blk"
  by (rule cbc.transformation_pair_axioms)

end

lemma buffered_cbc_ssl3:
  assumes "block_cipher e d n" "n \<le> 256"
  shows "buffered_pair (CBCEncryptor_Transform n (stateless e)) (CBCDecryptor_Transform n (stateless d)) (same_register n) n
    (CPaddingSSLv3 n) (\<lambda>x. replicate (n - length x) (of_nat (n - length x - 1)))"
  by (intro buffered_pair.intro block_cipher.cbc_pair block_padding_SSLv3
      block_cipher.blk_pos [OF assms(1)] assms)

interpretation rc2_cbc: buffered_pair "CBCEncryptor_Transform 8 (stateless (RC2Encryptor_Transform iK))"
    "CBCDecryptor_Transform 8 (stateless (RC2Decryptor_Transform iK))" "same_register 8" 8
    "CPaddingSSLv3 8" "\<lambda>x. replicate (8 - length x) (of_nat (8 - length x - 1))" for iK
  by (rule buffered_cbc_ssl3 [OF rc2.block_cipher_axioms]) simp

interpretation des_cbc: buffered_pair "CBCEncryptor_Transform 8 (stateless (DES_Transform (DES_SetKey key)))"
    "CBCDecryptor_Transform 8 (stateless (DES_Transform (DESDecryptor_SetKey key)))" "same_register 8" 8
    "CPaddingSSLv3 8" "\<lambda>x. replicate (8 - length x) (of_nat (8 - length x - 1))" for key
  by (rule buffered_cbc_ssl3 [OF des.block_cipher_axioms]) simp

lemma cbc_client:
  assumes "block_cipher e d n" "n \<le> 256" "length iv = n" "length (concat cs @ x) + n \<le> N"
  shows "\<exists>C. client rnd (BufferedEncryptor e n (CPaddingSSLv3 n) \<lparr>iTransformation = ConstructChaining () iv, iInputStore = []\<rparr>) cs x N =
      Some (Ok C) \<and> length C = length (concat cs @ x) - length (concat cs @ x) mod n + n \<and>
    (\<forall>rnd' zs z. concat zs @ z = C \<longrightarrow> z \<noteq> [] \<longrightarrow>
      client rnd' (BufferedDecryptor d n (CPaddingSSLv3 n) \<lparr>iTransformation = ConstructChaining () iv, iInputStore = []\<rparr>) zs z N =
        Some (Ok (concat cs @ x)))"
proof -
  have "same_register n (ConstructChaining () iv) (ConstructChaining () iv)"
    by (simp add: same_register_def ConstructChaining_def assms(3))
  from buffered_pair.encrypt_decrypt_all [OF buffered_cbc_ssl3 [OF assms(1,2)] this assms(4)]
  show ?thesis by (simp add: client_encryptor client_decryptor)
qed

lemma bindL_weak_enough: "k \<le> m \<Longrightarrow> bindL (IsSymmetricWeakEnoughL m k) f = f True"
  by (simp add: IsSymmetricWeakEnoughL_def)

lemma bindL_assert: "c \<Longrightarrow> bindL (assertL c) f = f ()" "c \<Longrightarrow> bindL (guardL c e) f = f ()"
  by (simp_all add: assertL_def guardL_def)

lemma AES_NewL:
  assumes "length key = 16 \<or> length key = 24 \<or> length key = 32" "256 \<le> m"
  shows "\<exists>e d. AESEncryptor_NewL m key = Ok e \<and> AESDecryptor_NewL m key = Ok d \<and> block_cipher e d 16"
proof -
  obtain rk where rk: "AES_SetKey key = Ok rk" using assms(1) by (auto simp: AES_SetKey_def Let_def)
  have k: "8 * int (length key) \<le> m" using assms by auto
  show ?thesis
    using aes_block_cipher [OF rk]
    by (simp add: AESEncryptor_NewL_def AESDecryptor_NewL_def AESDecryptor_SetKey_def rk bindL_weak_enough [OF k])
qed

lemma DES3_NewL:
  assumes "length key = 24" "256 \<le> m"
  shows "\<exists>e d. DES3Encryptor_NewL m key = Ok e \<and> DES3Decryptor_NewL m key = Ok d \<and> block_cipher e d 8"
  using assms des3.block_cipher_axioms
  by (auto simp: DES3Encryptor_NewL_def DES3Decryptor_NewL_def bindL_assert bindL_weak_enough)

lemma RC2_NewL:
  assumes "length key \<le> 32" "256 \<le> m"
  shows "\<exists>e d. RC2Encryptor_NewL m key b = Ok e \<and> RC2Decryptor_NewL m key b = Ok d \<and> block_cipher e d 8"
proof -
  have "min (int b) (int (8 * length key)) \<le> m" using assms by (auto simp: min_def)
  then show ?thesis
    using rc2.block_cipher_axioms by (auto simp: RC2Encryptor_NewL_def RC2Decryptor_NewL_def bindL_weak_enough)
qed

lemma DES_NewL:
  assumes "length key = 8" "256 \<le> m"
  shows "\<exists>e d. bindL (DESEncryptor_NewL m key c) (\<lambda>iK. Ok (DES_Transform iK)) = Ok e \<and>
    bindL (DESDecryptor_NewL m key c) (\<lambda>iK. Ok (DES_Transform iK)) = Ok d \<and> block_cipher e d 8"
  using assms des.block_cipher_axioms
  by (auto simp: DESEncryptor_NewL_def DESDecryptor_NewL_def bindL_assert bindL_weak_enough Let_def)

definition is_stream :: "TPBECipher \<Rightarrow> bool" where
  "is_stream c \<longleftrightarrow> c = ECipherARC4_40 \<or> c = ECipherARC4_128"

lemma block_pairs:
  assumes "\<not> is_stream c" "length key = GetKeyBytes c" "256 \<le> m"
  shows "\<exists>e d. block_encryptor m c key = Ok e \<and> block_decryptor m c key = Ok d \<and> block_cipher e d (GetBlockBytes c)"
  using assms AES_NewL [of key m] DES3_NewL [of key m] DES3_NewL [of "key @ take 8 key" m] RC2_NewL [of key m] DES_NewL [of key m True]
  by (cases c) (auto simp: is_stream_def bindL_assert)

lemma StreamProcess_Ok:
  assumes "des_ok d" "Len d + length x \<le> MaxLength d" "DoProcess s x = (ys, t)"
  shows "\<exists>e. StreamProcess DoProcess s x d = Ok (e, t) \<and> Data e = Data d @ ys \<and> des_ok e \<and> MaxLength e = MaxLength d \<and>
    Len e = Len d + length x"
proof -
  have ly: "length ys = length x" using length_DoProcess [of s x] assms(3) by simp
  obtain e where e: "Append d x = Ok e" "Data e = Data d @ x" "MaxLength e = MaxLength d" "des_ok e" "Len e = Len d + length x"
    using Append_Ok [OF assms(1,2)] by blast
  have buf: "Buf e = Data d @ x @ drop (Len e) (Buf e)"
    using e(2) append_take_drop_id [of "Len e" "Buf e"] by (simp add: Data_def)
  have ld: "length (Data d) = Len d" by (rule length_Data [OF assms(1)])
  have "take (length x) (drop (Len d) (Buf e)) = x" by (subst buf) (simp add: ld [symmetric])
  moreover have "take (Len d) (Buf e) = Data d" by (subst buf) (simp add: ld [symmetric])
  ultimately show ?thesis
    using assms e ly ld
    by (simp add: StreamProcess_def guardL_def Let_def MaxLength_def des_ok_def) (simp add: Data_def)
qed

lemma CipherProcessAll_stream:
  assumes "des_ok d" "Len d + length (concat cs) \<le> MaxLength d" "DoProcess s (concat cs) = (ys, t)"
  shows "\<exists>e. CipherProcessAll (StreamCipher s) cs d = Ok (e, StreamCipher t) \<and> Data e = Data d @ ys \<and> des_ok e \<and>
    MaxLength e = MaxLength d \<and> Len e = Len d + length (concat cs)"
  using assms
proof (induction cs arbitrary: s d ys)
  case (Cons x xs)
  obtain us u where u: "DoProcess s x = (us, u)" by fastforce
  obtain vs v where v: "DoProcess u (concat xs) = (vs, v)" by fastforce
  have ys: "ys = us @ vs" "t = v" using Cons.prems(3) by (simp_all add: DoProcess_append u v)
  obtain e where e: "StreamProcess DoProcess s x d = Ok (e, u)" "Data e = Data d @ us" "des_ok e" "MaxLength e = MaxLength d"
      "Len e = Len d + length x"
    using StreamProcess_Ok [OF Cons.prems(1) _ u] Cons.prems(2) by auto
  show ?case using Cons.IH [OF e(3), of u vs] Cons.prems(2) e v ys by auto
qed simp

lemma stream_client:
  assumes "length (concat cs @ x) \<le> N" "DoProcess s (concat cs @ x) = (ys, t)"
  shows "client rnd (StreamCipher s) cs x N = Some (Ok ys)"
proof -
  obtain us u where u: "DoProcess s (concat cs) = (us, u)" by fastforce
  obtain vs v where v: "DoProcess u x = (vs, v)" by fastforce
  have ys: "ys = us @ vs" using assms(2) by (simp add: DoProcess_append u v)
  obtain e where e: "CipherProcessAll (StreamCipher s) cs (new_des N) = Ok (e, StreamCipher u)" "Data e = us" "des_ok e"
      "MaxLength e = N" "Len e = length (concat cs)"
    using CipherProcessAll_stream [of "new_des N" cs s us u] assms(1) u by (auto simp: new_des_props)
  obtain f where "StreamProcess DoProcess u x e = Ok (f, v)" "Data f = us @ vs"
    using StreamProcess_Ok [OF e(3) _ v] e(2,4,5) assms(1) by auto
  then show ?thesis using e(1) ys by (simp add: client_def)
qed

text \<open>
  C14: for every cipher identifier, key of the size the factory asks for and initialisation
  vector of one block, a message encrypted in any pieces is decrypted, in any other pieces,
  to the message; the ciphertext has the length that \<open>MaxFinalOutputLength\<close> announces.
\<close>

theorem PBE_cipher_roundtrip:
  assumes "length key = GetKeyBytes c" "length iv = GetBlockBytes c" "256 \<le> maxBits"
    and "length (concat cs @ x) + 16 \<le> N"
  shows "\<exists>E D C. MakeEncryptorL maxBits c key iv = Ok E \<and> MakeDecryptorL maxBits c key iv = Ok D \<and>
    client rnd E cs x N = Some (Ok C) \<and>
    (\<forall>rnd' zs z. concat zs @ z = C \<longrightarrow> z \<noteq> [] \<longrightarrow> client rnd' D zs z N = Some (Ok (concat cs @ x)))"
proof (cases "is_stream c")
  case True
  let ?s = "NewCARC4 key 0"
  have k: "8 * int (length key) \<le> maxBits" using assms(1,3) True by (auto simp: is_stream_def)
  obtain ys t where y: "DoProcess ?s (concat cs @ x) = (ys, t)" by fastforce
  have "client rnd' (StreamCipher ?s) zs z N = Some (Ok (concat cs @ x))" if "concat zs @ z = ys" for rnd' zs z
    using stream_client [of zs z N ?s] DoProcess_involution [OF y] that assms(4) length_DoProcess [of ?s "concat cs @ x"] y
    by auto
  moreover have "client rnd (StreamCipher ?s) cs x N = Some (Ok ys)"
    by (rule stream_client [OF _ y]) (use assms(4) in simp)
  ultimately show ?thesis
    using True by (simp add: MakeEncryptorL_def MakeDecryptorL_def is_stream_def ARC4_NewL_def bindL_weak_enough [OF k])
next
  case False
  obtain e d where ed: "block_encryptor maxBits c key = Ok e" "block_decryptor maxBits c key = Ok d"
      "block_cipher e d (GetBlockBytes c)"
    using block_pairs [OF False assms(1,3)] by blast
  have n: "GetBlockBytes c \<le> 16" by (cases c) simp_all
  then show ?thesis
    using cbc_client [OF ed(3) _ assms(2), of cs x N rnd] ed(1,2) assms(4) False
    by (auto simp: MakeEncryptorL_def MakeDecryptorL_def is_stream_def)
qed

theorem PBE_cipher_roundtrip_witness:
  "\<exists>E D C. MakeEncryptorL 1024 ECipher2Key3DES_CBC (replicate 16 7) (replicate 8 1) = Ok E \<and>
    MakeDecryptorL 1024 ECipher2Key3DES_CBC (replicate 16 7) (replicate 8 1) = Ok D \<and>
    client (\<lambda>k. []) E [[1, 2], [3]] [4, 5] 32 = Some (Ok C) \<and>
    (\<forall>rnd' zs z. concat zs @ z = C \<longrightarrow> z \<noteq> [] \<longrightarrow> client rnd' D zs z 32 = Some (Ok (concat [[1, 2], [3]] @ [4, 5])))"
  by (rule PBE_cipher_roundtrip) simp_all

end
