(* ===== verification/Digest.thy ===== *)
theory Digest
  imports Inlines
begin

section \<open>Message digests: buffering, padding, contract\<close>

text \<open>
  What the digests of \<open>source/hash\<close> share: the buffer \<open>iData\<close> of words that collects the
  message byte by byte, the padding of the last block, and the specification of a digest as
  a fold of a compression function over the blocks of the padded message
  (\<open>merkle_damgard\<close>).  The locale \<open>block_digest\<close> states what one byte of an update and the
  final call do to the state of a class; from it follows that the object computes the
  specification however the message is cut into updates.  The collection \<open>digest_simps\<close>
  holds the rules on word buffers.
\<close>

named_theorems digest_simps

subsection \<open>Words in the buffer\<close>

text \<open>
  \<open>pack sh w f\<close> is the word made of the bytes \<open>f 0, ..., f (w - 1)\<close>, the \<open>t\<close>-th shifted by
  \<open>sh t\<close>; \<open>byte_at\<close> reads zero behind the end of the bytes; \<open>word_at\<close> is the \<open>k\<close>-th word of
  a byte string and \<open>words_of\<close> the sixteen words of a block.
\<close>

definition pack :: "(nat \<Rightarrow> nat) \<Rightarrow> nat \<Rightarrow> (nat \<Rightarrow> byte) \<Rightarrow> 'w :: len word" where
  "pack sh w f = foldl (\<lambda>a t. a OR push_bit (sh t) (ucast (f t))) 0 [0..<w]"

definition byte_at :: "byte list \<Rightarrow> nat \<Rightarrow> byte" where
  "byte_at xs i = (if i < length xs then xs ! i else 0)"

definition word_at :: "(nat \<Rightarrow> nat) \<Rightarrow> nat \<Rightarrow> byte list \<Rightarrow> nat \<Rightarrow> 'w :: len word" where
  "word_at sh w xs k = pack sh w (\<lambda>t. byte_at xs (w * k + t))"

definition words_of :: "(nat \<Rightarrow> nat) \<Rightarrow> nat \<Rightarrow> byte list \<Rightarrow> 'w :: len word list" where
  "words_of sh w xs = map (word_at sh w xs) [0..<16]"

definition buffered :: "(nat \<Rightarrow> nat) \<Rightarrow> nat \<Rightarrow> 'w :: len word list \<Rightarrow> byte list \<Rightarrow> bool" where
  "buffered sh w d xs \<longleftrightarrow> (\<forall>k. w * k < length xs \<longrightarrow> d ! k = word_at sh w xs k)"

lemma pack_0 [digest_simps]: "pack sh 0 f = 0"
  by (simp add: pack_def)

lemma pack_Suc [digest_simps]: "pack sh (Suc w) f = pack sh w f OR push_bit (sh w) (ucast (f w))"
  by (simp add: pack_def)

lemma pack_cong: "(\<And>t. t < w \<Longrightarrow> f t = g t) \<Longrightarrow> pack sh w f = pack sh w g"
  by (induction w) (simp_all add: digest_simps)

lemma pack_zeros: "(\<And>t. u \<le> t \<Longrightarrow> t < w \<Longrightarrow> f t = 0) \<Longrightarrow> u \<le> w \<Longrightarrow> pack sh w f = pack sh u f"
proof (induction w)
  case (Suc w)
  then show ?case by (cases "u = Suc w") (simp_all add: digest_simps)
qed simp

lemma pack_0_zeros: "(\<And>t. t < w \<Longrightarrow> f t = 0) \<Longrightarrow> pack sh w f = 0"
  using pack_zeros [of 0 w f sh] by (simp add: digest_simps)

lemma word_at_append: "w * Suc k \<le> length xs \<Longrightarrow> word_at sh w (xs @ ys) k = word_at sh w xs k"
  unfolding word_at_def
  by (rule pack_cong) (simp add: byte_at_def nth_append)

lemma word_at_append_right: "length xs = w * m \<Longrightarrow> m \<le> k \<Longrightarrow> word_at sh w (xs @ ys) k = word_at sh w ys (k - m)"
  unfolding word_at_def
  by (rule pack_cong) (auto simp: byte_at_def nth_append algebra_simps diff_mult_distrib2 dest!: le_Suc_ex)

lemma word_at_zeros: "word_at sh w (xs @ replicate n 0) k = word_at sh w xs k"
  unfolding word_at_def
  by (rule pack_cong) (simp add: byte_at_def nth_append)

lemma word_at_behind: "length xs \<le> w * k \<Longrightarrow> word_at sh w xs k = 0"
  unfolding word_at_def by (rule pack_0_zeros) (simp add: byte_at_def)

lemma buffered_Nil [simp]: "buffered sh w d []"
  by (simp add: buffered_def)

text \<open>Storing one more byte, as the \<open>switch\<close> on \<open>iNl&3\<close> of the update functions does.\<close>

lemma word_at_last:
  assumes "0 < w" and "length xs = i"
  shows "word_at sh w xs (i div w) = pack sh (i mod w) (\<lambda>t. byte_at xs (w * (i div w) + t))"
  unfolding word_at_def
proof (rule pack_zeros)
  have i: "w * (i div w) + i mod w = i" by simp
  fix t assume "i mod w \<le> t"
  then have "\<not> w * (i div w) + t < length xs" using i assms(2) by linarith
  then show "byte_at xs (w * (i div w) + t) = 0" by (simp add: byte_at_def)
qed (use assms(1) in \<open>simp add: less_imp_le\<close>)

lemma word_at_snoc:
  assumes "0 < w" and "length xs = i"
  shows "word_at sh w (xs @ [b]) (i div w) =
    (if i mod w = 0 then 0 else word_at sh w xs (i div w)) OR push_bit (sh (i mod w)) (ucast b)"
proof -
  let ?t = "i mod w" and ?f = "\<lambda>xs t. byte_at xs (w * (i div w) + t)"
  have i: "w * (i div w) + ?t = i" by simp
  have t: "?t < w" using assms(1) by simp
  have "word_at sh w (xs @ [b]) (i div w) = (pack sh (Suc ?t) (?f (xs @ [b])) :: 'a word)"
    unfolding word_at_def
  proof (rule pack_zeros)
    fix t assume "Suc ?t \<le> t"
    then have "Suc i \<le> w * (i div w) + t" using i by linarith
    then have "\<not> w * (i div w) + t < length (xs @ [b])" using assms(2) by simp
    then show "?f (xs @ [b]) t = 0" by (simp add: byte_at_def)
  qed (use t in simp)
  moreover have "pack sh ?t (?f (xs @ [b])) = (pack sh ?t (?f xs) :: 'a word)"
  proof (rule pack_cong)
    fix t assume "t < ?t"
    then have "w * (i div w) + t < length xs" using i assms(2) by linarith
    then show "?f (xs @ [b]) t = ?f xs t" by (simp add: byte_at_def nth_append)
  qed
  moreover have "?f (xs @ [b]) ?t = b"
    using i assms(2) by (simp add: byte_at_def nth_append)
  ultimately show ?thesis by (simp add: digest_simps word_at_last [OF assms])
qed

text \<open>The final calls add the byte \<open>0x80\<close> where the updates use a bitwise or.\<close>

lemma bit_pack: "bit (pack sh w f :: 'w :: len word) i \<Longrightarrow> \<exists>u<w. sh u \<le> i \<and> i < sh u + 8"
proof (induction w)
  case (Suc w)
  then show ?case
    by (fastforce simp: digest_simps bit_simps less_Suc_eq dest: bit_imp_le_length)
qed (simp add: digest_simps)

lemma pack_plus:
  assumes "\<And>u. u < t \<Longrightarrow> sh u + 8 \<le> sh t \<or> sh t + 8 \<le> sh u"
  shows "pack sh t f + push_bit (sh t) (ucast (b :: byte)) = pack sh t f OR push_bit (sh t) (ucast b)"
proof (rule disjunctive_add)
  fix n
  show "\<not> bit (pack sh t f :: 'a word) n \<or> \<not> bit (push_bit (sh t) (ucast b) :: 'a word) n"
    using bit_pack [of sh t f n] assms by (fastforce simp: bit_simps dest: bit_imp_le_length)
qed

lemma word_at_plus:
  assumes "0 < w" and "length xs = i"
    and "\<And>u. u < i mod w \<Longrightarrow> sh u + 8 \<le> sh (i mod w) \<or> sh (i mod w) + 8 \<le> sh u"
  shows "word_at sh w xs (i div w) + push_bit (sh (i mod w)) (ucast (b :: byte)) =
    word_at sh w xs (i div w) OR push_bit (sh (i mod w)) (ucast b)"
  using pack_plus [where sh = sh and t = "i mod w", OF assms(3)] by (simp add: word_at_last [OF assms(1,2)])

lemma buffered_snoc:
  assumes "buffered sh w d xs" and "0 < w" and "length xs = i" and "i div w < length d"
    and v: "v = (if i mod w = 0 then 0 else d ! (i div w)) OR push_bit (sh (i mod w)) (ucast b)"
  shows "buffered sh w (d[i div w := v]) (xs @ [b])"
  unfolding buffered_def
proof (intro allI impI)
  fix k assume k: "w * k < length (xs @ [b])"
  show "d[i div w := v] ! k = word_at sh w (xs @ [b]) k"
  proof (cases "k = i div w")
    case True
    have "d ! (i div w) = word_at sh w xs (i div w)" if "i mod w \<noteq> 0"
    proof -
      have "w * (i div w) + i mod w = i" by simp
      then have "w * (i div w) < i" using that by linarith
      then show ?thesis using assms(1,3) by (simp add: buffered_def)
    qed
    then show ?thesis
      using True assms(4) v by (simp add: word_at_snoc [OF assms(2,3)])
  next
    case False
    have "k \<le> i div w" using k assms(2,3) by (simp add: less_eq_div_iff_mult_less_eq mult.commute)
    then have "Suc k \<le> i div w" using False by simp
    then have s: "w * Suc k \<le> length xs"
      using assms(2,3) less_eq_div_iff_mult_less_eq [of w "Suc k" i] by (simp add: mult.commute)
    have "w * k < w * Suc k" using assms(2) by simp
    then have "w * k < length xs" using s by linarith
    then show ?thesis using False assms(1) by (simp add: buffered_def word_at_append [OF s])
  qed
qed

text \<open>A full buffer, and buffers filled up with zeros.\<close>

lemma buffered_full:
  assumes "buffered sh w d xs" and "length xs = 16 * w" and "0 < w" and "16 \<le> length d"
  shows "take 16 d = words_of sh w xs"
  by (rule nth_equalityI) (use assms in \<open>simp_all add: words_of_def buffered_def\<close>)

lemma buffered_filled:
  assumes "buffered sh w d xs" and "length xs \<le> w * m" and "m \<le> 16" and "16 \<le> length d" and "0 < w"
    and zero: "\<And>k. length xs \<le> w * k \<Longrightarrow> k < m \<Longrightarrow> d ! k = 0"
    and tail: "\<And>k. m \<le> k \<Longrightarrow> k < 16 \<Longrightarrow> d ! k = word_at sh w ys (k - m)"
  shows "take 16 d = words_of sh w (xs @ replicate (w * m - length xs) 0 @ ys)"
proof (rule nth_equalityI)
  show "length (take 16 d) = length (words_of sh w (xs @ replicate (w * m - length xs) 0 @ ys) :: 'a word list)"
    using assms(4) by (simp add: words_of_def)
  fix k assume "k < length (take 16 d)"
  then have k: "k < 16" using assms(4) by simp
  let ?xs = "xs @ replicate (w * m - length xs) 0"
  have l: "length ?xs = w * m" using assms(2) by simp
  have "d ! k = word_at sh w (?xs @ ys) k"
  proof (cases "m \<le> k")
    case True
    then show ?thesis using tail k by (simp only: word_at_append_right [OF l True])
  next
    case False
    then have s: "w * Suc k \<le> length ?xs" using l by (simp del: mult_Suc_right)
    have "d ! k = word_at sh w xs k"
    proof (cases "length xs \<le> w * k")
      case True
      then show ?thesis using zero False by (simp add: word_at_behind)
    next
      case False
      then show ?thesis using assms(1) by (simp add: buffered_def)
    qed
    then show ?thesis
      by (simp only: word_at_append [OF s] word_at_zeros)
  qed
  then show "take 16 d ! k = words_of sh w (xs @ replicate (w * m - length xs) 0 @ ys) ! k"
    using k by (simp add: words_of_def)
qed

subsection \<open>The specification of a digest\<close>

text \<open>
  \<open>absorb\<close> adds one byte to the pair of chaining value and bytes waiting in the buffer;
  \<open>md_pad\<close> is the padding of a message of \<open>l\<close> bytes: the byte \<open>0x80\<close>, zeros, and
  \<open>2 * w\<close> bytes of length.
\<close>

definition absorb :: "nat \<Rightarrow> ('h \<Rightarrow> byte list \<Rightarrow> 'h) \<Rightarrow> 'h \<times> byte list \<Rightarrow> byte \<Rightarrow> 'h \<times> byte list" where
  "absorb n cf = (\<lambda>(h, xs) b. if length xs + 1 = n then (cf h (xs @ [b]), []) else (h, xs @ [b]))"

definition md_pad :: "nat \<Rightarrow> nat \<Rightarrow> (nat \<Rightarrow> byte list) \<Rightarrow> nat \<Rightarrow> byte list" where
  "md_pad n w len l =
     (let r = l mod n
      in 0x80 # replicate (if r < n - 2 * w then n - 2 * w - r - 1 else 2 * n - 2 * w - r - 1) 0 @ len l)"

fun blocks :: "nat \<Rightarrow> byte list \<Rightarrow> byte list list" where
  "blocks n xs = (if xs = [] \<or> n = 0 then [] else take n xs # blocks n (drop n xs))"

declare blocks.simps [simp del]

definition merkle_damgard ::
  "nat \<Rightarrow> nat \<Rightarrow> ('h \<Rightarrow> byte list \<Rightarrow> 'h) \<Rightarrow> 'h \<Rightarrow> (nat \<Rightarrow> byte list) \<Rightarrow> byte list \<Rightarrow> 'h" where
  "merkle_damgard n w cf iv len m = foldl cf iv (blocks n (m @ md_pad n w len (length m)))"

lemma blocks_simps [simp]: "blocks n [] = []" "0 < n \<Longrightarrow> xs \<noteq> [] \<Longrightarrow> blocks n xs = take n xs # blocks n (drop n xs)"
  by (simp_all add: blocks.simps)

lemma absorb_length [simp]: "length (snd (absorb n cf hx b)) = (if length (snd hx) + 1 = n then 0 else length (snd hx) + 1)"
  by (simp add: absorb_def split: prod.split)

lemma absorbs_short:
  "length xs + length ys < n \<Longrightarrow> foldl (absorb n cf) (h, xs) ys = (h, xs @ ys)"
proof (induction ys arbitrary: xs)
  case (Cons y ys)
  then show ?case using Cons.IH [of "xs @ [y]"] by (simp add: absorb_def)
qed simp

lemma absorbs_block:
  assumes "length xs + length ys = n" and "ys \<noteq> []"
  shows "foldl (absorb n cf) (h, xs) ys = (cf h (xs @ ys), [])"
proof -
  obtain zs z where ys: "ys = zs @ [z]" using assms(2) rev_exhaust by blast
  then have "foldl (absorb n cf) (h, xs) zs = (h, xs @ zs)"
    using assms(1) by (intro absorbs_short) simp
  then show ?thesis using ys assms(1) by (simp add: absorb_def)
qed

lemma absorbs_length:
  "length xs < n \<Longrightarrow> length (snd (foldl (absorb n cf) (h, xs) ys)) = (length xs + length ys) mod n"
proof (induction ys arbitrary: h xs)
  case (Cons y ys)
  have "\<exists>h' xs'. absorb n cf (h, xs) y = (h', xs') \<and> length xs' < n
      \<and> (length xs' + length ys) mod n = (length xs + length (y # ys)) mod n"
  proof (cases "length xs + 1 = n")
    case True
    then have "(length xs + length (y # ys)) mod n = length ys mod n" by (metis add.assoc add.commute
      length_Cons mod_add_self1 Suc_eq_plus1)
    then show ?thesis using True Cons.prems by (auto simp: absorb_def)
  next
    case False
    then show ?thesis using Cons.prems by (auto simp: absorb_def)
  qed
  then show ?case using Cons.IH by auto
qed simp

lemma absorbs_blocks:
  "0 < n \<Longrightarrow> length ys mod n = 0 \<Longrightarrow> foldl (absorb n cf) (h, []) ys = (foldl cf h (blocks n ys), [])"
proof (induction n ys arbitrary: h rule: blocks.induct)
  case (1 n ys)
  show ?case
  proof (cases "ys = []")
    case False
    then have l: "n \<le> length ys" using 1(3) by (metis dvd_imp_le length_greater_0_conv mod_0_imp_dvd)
    have "foldl (absorb n cf) (h, []) (take n ys @ drop n ys) =
        foldl (absorb n cf) (cf h (take n ys), []) (drop n ys)"
      using absorbs_block [of "[]" "take n ys" n cf h] l 1(2) False by (simp del: append_take_drop_id)
    moreover have "length (drop n ys) mod n = 0" using 1(3) l by (simp add: mod_if [of "length ys"])
    ultimately show ?thesis using 1(1,2) False l by simp
  qed simp
qed

lemma absorbs_pad_short:
  assumes "length xs = l mod n" and "l mod n < n - 2 * w" and "length (len l) = 2 * w"
  shows "foldl (absorb n cf) (h, xs) (md_pad n w len l) =
    (cf h ((xs @ [0x80]) @ replicate (n - 2 * w - length (xs @ [0x80])) 0 @ len l), [])"
proof -
  have "foldl (absorb n cf) (h, xs) (md_pad n w len l) = (cf h (xs @ md_pad n w len l), [])"
    by (rule absorbs_block) (use assms in \<open>simp_all add: md_pad_def Let_def\<close>)
  then show ?thesis using assms by (simp add: md_pad_def Let_def)
qed

lemma absorbs_pad_long:
  assumes "length xs = l mod n" and "n - 2 * w \<le> l mod n" and "length (len l) = 2 * w" and "0 < n" and "2 * w \<le> n" and "0 < w"
  shows "foldl (absorb n cf) (h, xs) (md_pad n w len l) =
    (cf (cf h ((xs @ [0x80]) @ replicate (n - length (xs @ [0x80])) 0)) (replicate (n - 2 * w) 0 @ len l), [])"
proof -
  let ?r = "l mod n" and ?a = "0x80 # replicate (n - l mod n - 1) (0 :: byte)"
  have r: "?r < n" using assms(4) by simp
  have "md_pad n w len l = ?a @ replicate (n - 2 * w) 0 @ len l"
    using assms(2,5) r by (simp add: md_pad_def Let_def replicate_add [symmetric])
  moreover have "foldl (absorb n cf) (h, xs) ?a = (cf h (xs @ ?a), [])"
    by (rule absorbs_block) (use assms(1) r in simp_all)
  moreover have "foldl (absorb n cf) (cf h (xs @ ?a), []) (replicate (n - 2 * w) 0 @ len l) =
      (cf (cf h (xs @ ?a)) ([] @ replicate (n - 2 * w) 0 @ len l), [])"
    by (rule absorbs_block) (use assms in \<open>auto simp: length_0_conv [symmetric] simp del: length_0_conv\<close>)
  ultimately show ?thesis using assms(1) by simp
qed

lemma md_pad_length:
  assumes "length (len l) = 2 * w" and "2 * w < n" and "0 < w"
  shows "(l + length (md_pad n w len l)) mod n = 0"
proof -
  have r: "r + length (md_pad n w len l) = (if r < n - 2 * w then 1 else 2) * n"
    if "r = l mod n" "r < n" for r
    using assms that(2) by (simp add: md_pad_def Let_def that(1) [symmetric])
  have "l mod n < n" using assms(2) by simp
  then show ?thesis using r [OF refl] by (metis mod_add_left_eq mod_mult_self2_is_0)
qed

lemma merkle_damgard_absorbs:
  assumes "length (len (length m)) = 2 * w" and "2 * w < n" and "0 < w"
  shows "foldl (absorb n cf) (foldl (absorb n cf) (iv, []) m) (md_pad n w len (length m)) =
    (merkle_damgard n w cf iv len m, [])"
  using absorbs_blocks [of n "m @ md_pad n w len (length m)" cf iv] md_pad_length [of len "length m" w n, OF assms]
    assms(2)
  by (simp add: merkle_damgard_def)

subsection \<open>Updates and the final call\<close>

fun update_bytes :: "('s \<Rightarrow> byte \<Rightarrow> 's result) \<Rightarrow> 's \<Rightarrow> byte list \<Rightarrow> 's result" where
  "update_bytes step s [] = Ok s"
| "update_bytes step s (b # bs) = bindL (step s b) (\<lambda>s. update_bytes step s bs)"

lemma update_bytes_append:
  "update_bytes step s (xs @ ys) = bindL (update_bytes step s xs) (\<lambda>s. update_bytes step s ys)"
  by (induction xs arbitrary: s) (simp_all add: bindL_def split: sum.split)

lemma update_bytes_Ok: "update_bytes (\<lambda>s b. Ok (f s b)) s xs = Ok (foldl f s xs)"
  by (induction xs arbitrary: s) simp_all

text \<open>
  The contract.  \<open>step\<close> is the update with one byte and \<open>final\<close> the padding with the last
  blocks; \<open>regs\<close> are the chaining registers, \<open>waits s xs\<close> says that the buffer holds the
  bytes \<open>xs\<close>, \<open>counts s l\<close> that the counter of processed bytes holds \<open>l\<close>.  The messages
  are shorter than \<open>lim\<close> bytes.
\<close>

locale block_digest =
  fixes step :: "'s \<Rightarrow> byte \<Rightarrow> 's result" and final :: "'s \<Rightarrow> 's result" and digest :: "'s \<Rightarrow> byte list"
    and regs :: "'s \<Rightarrow> 'h" and waits :: "'s \<Rightarrow> byte list \<Rightarrow> bool" and counts :: "'s \<Rightarrow> nat \<Rightarrow> bool"
    and n w lim :: nat and cf :: "'h \<Rightarrow> byte list \<Rightarrow> 'h" and iv :: 'h
    and len :: "nat \<Rightarrow> byte list" and outf :: "'h \<Rightarrow> byte list"
  assumes sizes: "0 < w" "2 * w < n" "\<And>l. length (len l) = 2 * w"
    and short: "waits s xs \<Longrightarrow> counts s l \<Longrightarrow> length xs + 1 < n \<Longrightarrow>
      \<exists>s'. step s b = Ok s' \<and> waits s' (xs @ [b]) \<and> regs s' = regs s \<and> counts s' l"
    and full: "waits s xs \<Longrightarrow> counts s l \<Longrightarrow> length xs + 1 = n \<Longrightarrow> l + n < lim \<Longrightarrow>
      \<exists>s'. step s b = Ok s' \<and> waits s' [] \<and> regs s' = cf (regs s) (xs @ [b]) \<and> counts s' (l + n)"
    and final: "waits s xs \<Longrightarrow> counts s l \<Longrightarrow> length xs < n \<Longrightarrow> length xs = (l + length xs) mod n \<Longrightarrow>
      l + length xs < lim \<Longrightarrow>
      \<exists>s'. final s = Ok s' \<and>
        digest s' = outf (fst (foldl (absorb n cf) (regs s, xs) (md_pad n w len (l + length xs))))"
begin

lemma n_pos: "0 < n"
  using sizes by simp

text \<open>\<open>reps s m\<close>: since the last reset the object has consumed \<open>m\<close>.\<close>

definition reps :: "'s \<Rightarrow> byte list \<Rightarrow> bool" where
  "reps s m \<longleftrightarrow> (\<exists>xs l. waits s xs \<and> counts s l \<and> l + length xs = length m \<and>
     (regs s, xs) = foldl (absorb n cf) (iv, []) m)"

lemma reps_init: "waits s [] \<Longrightarrow> counts s 0 \<Longrightarrow> regs s = iv \<Longrightarrow> reps s []"
  unfolding reps_def by (intro exI conjI) auto

lemma reps_step:
  assumes "reps s m" and "length m + 1 < lim"
  shows "\<exists>s'. step s b = Ok s' \<and> reps s' (m @ [b])"
proof -
  obtain xs l where r: "waits s xs" "counts s l" "l + length xs = length m"
    "foldl (absorb n cf) (iv, []) m = (regs s, xs)"
    using assms(1) unfolding reps_def by metis
  have "length xs < n" using absorbs_length [of "[]" n cf iv m] r(4) n_pos by simp
  then consider "length xs + 1 < n" | "length xs + 1 = n" by linarith
  then show ?thesis
  proof cases
    case 1
    obtain s' where "step s b = Ok s'" "waits s' (xs @ [b])" "regs s' = regs s" "counts s' l"
      using short [OF r(1,2) 1] by blast
    moreover from this have "(regs s', xs @ [b]) = foldl (absorb n cf) (iv, []) (m @ [b])"
      using r(4) 1 by (simp add: absorb_def)
    ultimately show ?thesis using r(3) by (auto simp: reps_def intro!: exI [of _ "xs @ [b]"] exI [of _ l])
  next
    case 2
    obtain s' where "step s b = Ok s'" "waits s' []" "regs s' = cf (regs s) (xs @ [b])" "counts s' (l + n)"
      using full [OF r(1,2) 2] r(3) 2 assms(2) by (metis add.assoc)
    moreover from this have "(regs s', []) = foldl (absorb n cf) (iv, []) (m @ [b])"
      using r(4) 2 by (simp add: absorb_def)
    moreover have "l + n + length ([] :: byte list) = length (m @ [b])" using r(3) 2 by simp
    ultimately show ?thesis unfolding reps_def by blast
  qed
qed

lemma reps_update:
  "reps s m \<Longrightarrow> length m + length xs < lim \<Longrightarrow> \<exists>s'. update_bytes step s xs = Ok s' \<and> reps s' (m @ xs)"
proof (induction xs arbitrary: s m)
  case (Cons x xs)
  obtain s1 where s1: "step s x = Ok s1" "reps s1 (m @ [x])"
    using reps_step [OF Cons.prems(1)] Cons.prems(2) by fastforce
  then show ?case using Cons.IH [OF s1(2)] Cons.prems(2) by simp
qed auto

theorem reps_final:
  assumes "reps s m" and "length m < lim"
  shows "\<exists>s'. final s = Ok s' \<and> digest s' = outf (merkle_damgard n w cf iv len m)"
proof -
  obtain xs l where r: "waits s xs" "counts s l" "l + length xs = length m"
    "foldl (absorb n cf) (iv, []) m = (regs s, xs)"
    using assms(1) unfolding reps_def by metis
  have "length xs = length m mod n" using absorbs_length [of "[]" n cf iv m] r(4) n_pos by simp
  then have "\<exists>s'. final s = Ok s' \<and>
      digest s' = outf (fst (foldl (absorb n cf) (regs s, xs) (md_pad n w len (length m))))"
    using final [OF r(1,2)] r(3) n_pos assms(2) by simp
  then show ?thesis
    using merkle_damgard_absorbs [of len m w n cf iv] sizes r(4) by simp
qed

end

end
