(* ===== verification/MessageDigest.thy ===== *)
theory MessageDigest
  imports Digest
begin

section \<open>The interface of \<open>CMessageDigest\<close>\<close>

text \<open>
  The virtual functions of \<open>CMessageDigest\<close> as a record of functions, which is what \<open>CHMAC\<close>
  and the factories see of a digest, and the calls a client can make as the type
  \<open>digest_call\<close>.  The locale \<open>message_digest\<close> is the promise of the interface: the object
  behaves as if it kept the whole message since the last reset.  Its theorem \<open>run_refines\<close>
  is the simulation of that abstract object by the implementation for every sequence of
  calls.  \<open>restorable_digest\<close> adds the promise of \<open>StoreState\<close> and \<open>RestoreState\<close>.
\<close>

record 's digest_ops =
  opBlockSize :: nat
  opHashSize :: nat
  opReset :: "'s \<Rightarrow> 's result"
  opUpdate :: "'s \<Rightarrow> byte list \<Rightarrow> 's result"
  opFinal :: "'s \<Rightarrow> (byte list \<times> 's) result"
  opFinalMessage :: "'s \<Rightarrow> byte list \<Rightarrow> (byte list \<times> 's) result"
  opHash :: "'s \<Rightarrow> byte list \<Rightarrow> (byte list \<times> 's) result"
  opCopyL :: "'s \<Rightarrow> 's"
  opReplicateL :: "'s \<Rightarrow> 's result"
  opStoreState :: "'s \<Rightarrow> 's"
  opRestoreState :: "'s \<Rightarrow> 's"
  opView :: "'s \<Rightarrow> byte list"

text \<open>
  \<open>CopyL\<close> and \<open>ReplicateL\<close> make a new object, with which the client goes on here.
  \<open>opView\<close> is the memory that the descriptor returned by \<open>Final\<close> refers to: \<open>CHMAC\<close> uses
  such descriptors after further calls of the object.
\<close>

datatype digest_call = Reset | Update "byte list" | Final | FinalMessage "byte list" | Hash "byte list" | CopyL | ReplicateL

fun call :: "'s digest_ops \<Rightarrow> 's \<Rightarrow> digest_call \<Rightarrow> (byte list \<times> 's) result" where
  "call ops s Reset = bindL (opReset ops s) (\<lambda>s. Ok ([], s))"
| "call ops s (Update x) = bindL (opUpdate ops s x) (\<lambda>s. Ok ([], s))"
| "call ops s Final = opFinal ops s"
| "call ops s (FinalMessage x) = opFinalMessage ops s x"
| "call ops s (Hash x) = opHash ops s x"
| "call ops s CopyL = Ok ([], opCopyL ops s)"
| "call ops s ReplicateL = bindL (opReplicateL ops s) (\<lambda>s. Ok ([], s))"

fun run_calls :: "'s digest_ops \<Rightarrow> 's \<Rightarrow> digest_call list \<Rightarrow> (byte list list \<times> 's) result" where
  "run_calls ops s [] = Ok ([], s)"
| "run_calls ops s (c # cs) =
     bindL (call ops s c) (\<lambda>(y, s). bindL (run_calls ops s cs) (\<lambda>(ys, s). Ok (y # ys, s)))"

text \<open>The abstract object: its state is the message since the last reset.\<close>

fun spec_call :: "(byte list \<Rightarrow> byte list) \<Rightarrow> byte list \<Rightarrow> digest_call \<Rightarrow> byte list \<times> byte list" where
  "spec_call H m Reset = ([], [])"
| "spec_call H m (Update x) = ([], m @ x)"
| "spec_call H m Final = (H m, [])"
| "spec_call H m (FinalMessage x) = (H (m @ x), [])"
| "spec_call H m (Hash x) = (H (m @ x), m @ x)"
| "spec_call H m CopyL = ([], m)"
| "spec_call H m ReplicateL = ([], [])"

fun spec_calls :: "(byte list \<Rightarrow> byte list) \<Rightarrow> byte list \<Rightarrow> digest_call list \<Rightarrow> byte list list \<times> byte list" where
  "spec_calls H m [] = ([], m)"
| "spec_calls H m (c # cs) =
     (let (y, m) = spec_call H m c; (ys, m) = spec_calls H m cs in (y # ys, m))"

fun call_length :: "digest_call \<Rightarrow> nat" where
  "call_length (Update x) = length x"
| "call_length (FinalMessage x) = length x"
| "call_length (Hash x) = length x"
| "call_length _ = 0"

abbreviation calls_length :: "digest_call list \<Rightarrow> nat" where
  "calls_length cs \<equiv> sum_list (map call_length cs)"

lemma spec_call_length: "length (snd (spec_call H m c)) \<le> length m + call_length c"
  by (cases c) simp_all

locale message_digest =
  fixes ops :: "'s digest_ops" and usable :: "'s \<Rightarrow> bool" and rep :: "'s \<Rightarrow> byte list \<Rightarrow> bool"
    and H :: "byte list \<Rightarrow> byte list" and lim :: nat
  assumes usable: "rep s m \<Longrightarrow> usable s"
    and reset: "usable s \<Longrightarrow> \<exists>s'. opReset ops s = Ok s' \<and> rep s' []"
    and update: "rep s m \<Longrightarrow> length m + length x < lim \<Longrightarrow>
      \<exists>s'. opUpdate ops s x = Ok s' \<and> rep s' (m @ x)"
    and final: "rep s m \<Longrightarrow> length m < lim \<Longrightarrow>
      \<exists>s'. opFinal ops s = Ok (H m, s') \<and> rep s' []"
    and final_message: "rep s m \<Longrightarrow> length m + length x < lim \<Longrightarrow>
      \<exists>s'. opFinalMessage ops s x = Ok (H (m @ x), s') \<and> rep s' []"
    and hash: "rep s m \<Longrightarrow> length m + length x < lim \<Longrightarrow>
      \<exists>s'. opHash ops s x = Ok (H (m @ x), s') \<and> rep s' (m @ x)"
    and copy: "rep s m \<Longrightarrow> rep (opCopyL ops s) m"
    and replicate: "usable s \<Longrightarrow> \<exists>s'. opReplicateL ops s = Ok s' \<and> rep s' []"
    and hash_length: "length (H m) = opHashSize ops"
begin

lemma call_refines:
  assumes "rep s m" and "length m + call_length c < lim"
  shows "\<exists>s'. call ops s c = Ok (fst (spec_call H m c), s') \<and> rep s' (snd (spec_call H m c))"
proof (cases c)
  case Reset
  then show ?thesis using reset [OF usable [OF assms(1)]] by auto
next
  case (Update x)
  then show ?thesis using update [of s m x] assms by auto
next
  case ReplicateL
  then show ?thesis using replicate [OF usable [OF assms(1)]] by auto
qed (use assms final final_message hash copy in simp_all)

theorem run_refines:
  "rep s m \<Longrightarrow> length m + calls_length cs < lim \<Longrightarrow>
    \<exists>s'. run_calls ops s cs = Ok (fst (spec_calls H m cs), s') \<and> rep s' (snd (spec_calls H m cs))"
proof (induction cs arbitrary: s m)
  case (Cons c cs)
  obtain y m1 where c: "spec_call H m c = (y, m1)" by fastforce
  obtain s1 where s1: "call ops s c = Ok (y, s1)" "rep s1 m1"
    using call_refines [OF Cons.prems(1), of c] Cons.prems(2) c by auto
  have "length m1 + calls_length cs < lim"
    using spec_call_length [of H m c] c Cons.prems(2) by simp
  from Cons.IH [OF s1(2) this] show ?case
    using s1 c by (auto split: prod.split)
qed simp

end

locale restorable_digest = message_digest +
  fixes saved :: "'s \<Rightarrow> byte list \<Rightarrow> bool"
  assumes store: "rep s m \<Longrightarrow> rep (opStoreState ops s) m \<and> saved (opStoreState ops s) m"
    and restore: "usable s \<Longrightarrow> saved s m \<Longrightarrow> rep (opRestoreState ops s) m"
    and saved_update: "rep s m' \<Longrightarrow> opUpdate ops s x = Ok s' \<Longrightarrow> saved s m \<Longrightarrow> saved s' m"
    and saved_final: "rep s m' \<Longrightarrow> opFinal ops s = Ok (y, s') \<Longrightarrow> saved s m \<Longrightarrow> saved s' m"
    and saved_final_message: "rep s m' \<Longrightarrow> opFinalMessage ops s x = Ok (y, s') \<Longrightarrow> saved s m \<Longrightarrow> saved s' m"
    and view_final: "rep s m \<Longrightarrow> opFinal ops s = Ok (y, s') \<Longrightarrow> opView ops s' = y"
    and view_final_message: "rep s m \<Longrightarrow> opFinalMessage ops s x = Ok (y, s') \<Longrightarrow> opView ops s' = y"
    and view_update: "rep s m \<Longrightarrow> opUpdate ops s x = Ok s' \<Longrightarrow> opView ops s' = opView ops s"
    and view_reset: "usable s \<Longrightarrow> opReset ops s = Ok s' \<Longrightarrow> opView ops s' = opView ops s"
    and view_restore: "opView ops (opRestoreState ops s) = opView ops s"

subsection \<open>Objects of several classes\<close>

text \<open>
  A virtual call: the function of the class applied to the object of the class.  \<open>wrap\<close> is the
  constructor of the class in a type of objects, \<open>peel\<close> its selector.
\<close>

definition lift_ops :: "('s \<Rightarrow> 'o) \<Rightarrow> ('o \<Rightarrow> 's) \<Rightarrow> 's digest_ops \<Rightarrow> 'o digest_ops" where
  "lift_ops wrap peel ops =
     \<lparr>opBlockSize = opBlockSize ops, opHashSize = opHashSize ops,
      opReset = (\<lambda>ob. bindL (opReset ops (peel ob)) (\<lambda>s. Ok (wrap s))),
      opUpdate = (\<lambda>ob x. bindL (opUpdate ops (peel ob) x) (\<lambda>s. Ok (wrap s))),
      opFinal = (\<lambda>ob. bindL (opFinal ops (peel ob)) (\<lambda>(y, s). Ok (y, wrap s))),
      opFinalMessage = (\<lambda>ob x. bindL (opFinalMessage ops (peel ob) x) (\<lambda>(y, s). Ok (y, wrap s))),
      opHash = (\<lambda>ob x. bindL (opHash ops (peel ob) x) (\<lambda>(y, s). Ok (y, wrap s))),
      opCopyL = (\<lambda>ob. wrap (opCopyL ops (peel ob))), opReplicateL = (\<lambda>ob. bindL (opReplicateL ops (peel ob)) (\<lambda>s. Ok (wrap s))),
      opStoreState = (\<lambda>ob. wrap (opStoreState ops (peel ob))), opRestoreState = (\<lambda>ob. wrap (opRestoreState ops (peel ob))),
      opView = (\<lambda>ob. opView ops (peel ob))\<rparr>"

context message_digest
begin

lemma lifted:
  assumes "\<And>s. peel (wrap s) = s"
  shows "message_digest (lift_ops wrap peel ops) (\<lambda>ob. usable (peel ob) \<and> wrap (peel ob) = ob)
    (\<lambda>ob m. rep (peel ob) m \<and> wrap (peel ob) = ob) H lim"
proof
  let ?ops = "lift_ops wrap peel ops"
  let ?R = "\<lambda>ob m. rep (peel ob) m \<and> wrap (peel ob) = ob"
  fix s m x
  show "?R s m \<Longrightarrow> usable (peel s) \<and> wrap (peel s) = s" using usable [of "peel s" m] by simp
  show "usable (peel s) \<and> wrap (peel s) = s \<Longrightarrow> \<exists>s'. opReset ?ops s = Ok s' \<and> ?R s' []"
    using reset [of "peel s"] by (auto simp: lift_ops_def assms)
  show "?R s m \<Longrightarrow> length m + length x < lim \<Longrightarrow> \<exists>s'. opUpdate ?ops s x = Ok s' \<and> ?R s' (m @ x)"
    using update [of "peel s" m x] by (auto simp: lift_ops_def assms)
  show "?R s m \<Longrightarrow> length m < lim \<Longrightarrow> \<exists>s'. opFinal ?ops s = Ok (H m, s') \<and> ?R s' []"
    using final [of "peel s" m] by (auto simp: lift_ops_def assms)
  show "?R s m \<Longrightarrow> length m + length x < lim \<Longrightarrow> \<exists>s'. opFinalMessage ?ops s x = Ok (H (m @ x), s') \<and> ?R s' []"
    using final_message [of "peel s" m x] by (auto simp: lift_ops_def assms)
  show "?R s m \<Longrightarrow> length m + length x < lim \<Longrightarrow> \<exists>s'. opHash ?ops s x = Ok (H (m @ x), s') \<and> ?R s' (m @ x)"
    using hash [of "peel s" m x] by (auto simp: lift_ops_def assms)
  show "?R s m \<Longrightarrow> ?R (opCopyL ?ops s) m" using copy by (simp add: lift_ops_def assms)
  show "usable (peel s) \<and> wrap (peel s) = s \<Longrightarrow> \<exists>s'. opReplicateL ?ops s = Ok s' \<and> ?R s' []"
    using replicate [of "peel s"] by (auto simp: lift_ops_def assms)
  show "length (H m) = opHashSize ?ops" using hash_length by (simp add: lift_ops_def)
qed

end

context restorable_digest
begin

lemma lifted_restorable:
  assumes "\<And>s. peel (wrap s) = s"
  shows "restorable_digest (lift_ops wrap peel ops) (\<lambda>ob. usable (peel ob) \<and> wrap (peel ob) = ob)
    (\<lambda>ob m. rep (peel ob) m \<and> wrap (peel ob) = ob) H lim (\<lambda>ob m. saved (peel ob) m \<and> wrap (peel ob) = ob)"
proof (rule restorable_digest.intro [OF lifted], rule assms, unfold_locales)
  let ?ops = "lift_ops wrap peel ops"
  let ?R = "\<lambda>ob m. rep (peel ob) m \<and> wrap (peel ob) = ob" and ?S = "\<lambda>ob m. saved (peel ob) m \<and> wrap (peel ob) = ob"
  fix s m m' x s' y
  show "?R s m \<Longrightarrow> ?R (opStoreState ?ops s) m \<and> ?S (opStoreState ?ops s) m"
    using store by (simp add: lift_ops_def assms)
  show "usable (peel s) \<and> wrap (peel s) = s \<Longrightarrow> ?S s m \<Longrightarrow> ?R (opRestoreState ?ops s) m"
    using restore by (simp add: lift_ops_def assms)
  show "?R s m' \<Longrightarrow> opUpdate ?ops s x = Ok s' \<Longrightarrow> ?S s m \<Longrightarrow> ?S s' m"
    using saved_update by (auto simp: lift_ops_def assms bindL_eq_Inr)
  show "?R s m' \<Longrightarrow> opFinal ?ops s = Ok (y, s') \<Longrightarrow> ?S s m \<Longrightarrow> ?S s' m"
    using saved_final by (auto simp: lift_ops_def assms bindL_eq_Inr)
  show "?R s m' \<Longrightarrow> opFinalMessage ?ops s x = Ok (y, s') \<Longrightarrow> ?S s m \<Longrightarrow> ?S s' m"
    using saved_final_message by (auto simp: lift_ops_def assms bindL_eq_Inr)
  show "?R s m \<Longrightarrow> opFinal ?ops s = Ok (y, s') \<Longrightarrow> opView ?ops s' = y"
    using view_final by (auto simp: lift_ops_def assms bindL_eq_Inr)
  show "?R s m \<Longrightarrow> opFinalMessage ?ops s x = Ok (y, s') \<Longrightarrow> opView ?ops s' = y"
    using view_final_message by (auto simp: lift_ops_def assms bindL_eq_Inr)
  show "?R s m \<Longrightarrow> opUpdate ?ops s x = Ok s' \<Longrightarrow> opView ?ops s' = opView ?ops s"
    using view_update by (auto simp: lift_ops_def assms bindL_eq_Inr)
  show "usable (peel s) \<and> wrap (peel s) = s \<Longrightarrow> opReset ?ops s = Ok s' \<Longrightarrow> opView ?ops s' = opView ?ops s"
    using view_reset by (auto simp: lift_ops_def assms bindL_eq_Inr)
  show "opView ?ops (opRestoreState ?ops s) = opView ?ops s"
    using view_restore by (simp add: lift_ops_def assms)
qed

end

subsection \<open>Digests made of blocks\<close>

text \<open>
  The state of the classes built on words: the chaining registers \<open>iA\<close>, \<open>iB\<close>, ... in a
  list, the buffer, the number of bytes in it, the counter, the digest, and the members with
  the suffix \<open>Copy\<close>.
\<close>

record ('w, 'c) digest_state =
  iRegs :: "'w list"
  iData :: "'w list"
  iNl :: nat
  iNh :: 'c
  iHash :: "byte list"
  iRegsCopy :: "'w list"
  iDataCopy :: "'w list"
  iNlCopy :: nat
  iNhCopy :: 'c

definition StoreState :: "('w, 'c) digest_state \<Rightarrow> ('w, 'c) digest_state" where
  "StoreState s = s\<lparr>iRegsCopy := iRegs s, iNlCopy := iNl s, iNhCopy := iNh s, iDataCopy := iData s\<rparr>"

definition RestoreState :: "('w, 'c) digest_state \<Rightarrow> ('w, 'c) digest_state" where
  "RestoreState s = s\<lparr>iRegs := iRegsCopy s, iNl := iNlCopy s, iNh := iNhCopy s, iData := iDataCopy s\<rparr>"

text \<open>
  Every class defines its functions over \<open>DoUpdate\<close>, \<open>DoFinal\<close> and \<open>Reset\<close> in the same
  way; \<open>hs\<close> is the hash size, which truncates \<open>iHash\<close> in \<open>CSHA2\<close>.
\<close>

definition class_copy :: "nat \<Rightarrow> ('w, 'c) digest_state \<Rightarrow> ('w, 'c) digest_state \<Rightarrow> ('w, 'c) digest_state" where
  "class_copy k fresh s = fresh\<lparr>iRegs := iRegs s, iHash := iHash s, iNl := iNl s, iNh := iNh s,
     iData := take k (iData s) @ drop k (iData fresh)\<rparr>"

definition class_ops ::
  "nat \<Rightarrow> nat \<Rightarrow> (('w, 'c) digest_state \<Rightarrow> byte list \<Rightarrow> ('w, 'c) digest_state result) \<Rightarrow>
   (('w, 'c) digest_state \<Rightarrow> ('w, 'c) digest_state result) \<Rightarrow>
   (('w, 'c) digest_state \<Rightarrow> ('w, 'c) digest_state) \<Rightarrow> nat \<Rightarrow> ('w, 'c) digest_state \<Rightarrow> ('w, 'c) digest_state digest_ops" where
  "class_ops bs hs doUpdate doFinal reset k fresh =
     \<lparr>opBlockSize = bs, opHashSize = hs, opReset = (\<lambda>s. Ok (reset s)), opUpdate = doUpdate,
      opFinal = (\<lambda>s. bindL (doFinal s) (\<lambda>s. Ok (take hs (iHash s), reset s))),
      opFinalMessage = (\<lambda>s x. bindL (doUpdate s x) (\<lambda>s. bindL (doFinal s) (\<lambda>s. Ok (take hs (iHash s), reset s)))),
      opHash = (\<lambda>s x. bindL (doUpdate s x) (\<lambda>s. bindL (doFinal (StoreState s))
        (\<lambda>s. Ok (take hs (iHash s), RestoreState s)))),
      opCopyL = class_copy k fresh, opReplicateL = (\<lambda>_. Ok (reset fresh)),
      opStoreState = StoreState, opRestoreState = RestoreState, opView = (\<lambda>s. take hs (iHash s))\<rparr>"

definition waits ::
  "(nat \<Rightarrow> nat) \<Rightarrow> nat \<Rightarrow> nat \<Rightarrow> nat \<Rightarrow> ('w :: len word, 'c) digest_state \<Rightarrow> byte list \<Rightarrow> bool" where
  "waits sh w N R s xs \<longleftrightarrow> buffered sh w (iData s) xs \<and> iNl s = length xs \<and> length xs < 16 * w \<and>
     length (iData s) = N \<and> length (iRegs s) = R"

definition same_frame :: "('w, 'c) digest_state \<Rightarrow> ('w, 'c) digest_state \<Rightarrow> bool" where
  "same_frame s s' \<longleftrightarrow> length (iData s') = length (iData s) \<and> length (iRegs s') = length (iRegs s) \<and>
     iRegsCopy s' = iRegsCopy s \<and> iDataCopy s' = iDataCopy s \<and> iNlCopy s' = iNlCopy s \<and> iNhCopy s' = iNhCopy s"

lemma same_frame_trans: "same_frame s t \<Longrightarrow> same_frame t u \<Longrightarrow> same_frame s u"
  by (simp add: same_frame_def)

lemma same_frame_refl [simp]: "same_frame s s"
  by (simp add: same_frame_def)

locale block_class = block_digest step final iHash iRegs "waits sh w N R" "\<lambda>s. cnt (iNh s)" "16 * w" w lim cf iv len outf
  for step :: "('w :: len word, 'c) digest_state \<Rightarrow> byte \<Rightarrow> ('w word, 'c) digest_state result"
    and final sh w N R cnt lim cf iv len outf +
  fixes zero :: 'c and hs k :: nat and fresh :: "('w word, 'c) digest_state" and update :: "('w word, 'c) digest_state \<Rightarrow> byte list \<Rightarrow> ('w word, 'c) digest_state result"
  assumes update_bytes: "length (iData s) = N \<Longrightarrow> length (iRegs s) = R \<Longrightarrow> iNl s < 16 * w \<Longrightarrow>
      update s xs = update_bytes step s xs"
    and zero: "cnt zero 0" and iv_length: "length iv = R" and out_length: "length h = R \<Longrightarrow> hs \<le> length (outf h)"
    and cf_length: "length h = R \<Longrightarrow> length (cf h xs) = R"
    and step_frame: "length (iData s) = N \<Longrightarrow> length (iRegs s) = R \<Longrightarrow> iNl s < 16 * w \<Longrightarrow>
      step s b = Ok s' \<Longrightarrow> same_frame s s' \<and> iHash s' = iHash s \<and> iNl s' < 16 * w"
    and fresh: "length (iData fresh) = N" "length (iRegs fresh) = R" "16 \<le> k" "16 \<le> N"
    and final_frame: "length (iData s) = N \<Longrightarrow> length (iRegs s) = R \<Longrightarrow> final s = Ok s' \<Longrightarrow> same_frame s s'"
begin

definition reset_state :: "('w word, 'c) digest_state \<Rightarrow> ('w word, 'c) digest_state" where
  "reset_state s = s\<lparr>iRegs := iv, iNh := zero, iNl := 0\<rparr>"

definition hash_of :: "byte list \<Rightarrow> byte list" where
  "hash_of m = take hs (outf (merkle_damgard (16 * w) w cf iv len m))"

definition saved_message :: "('w word, 'c) digest_state \<Rightarrow> byte list \<Rightarrow> bool" where
  "saved_message s m \<longleftrightarrow> reps (RestoreState s) m"

definition shaped :: "('w word, 'c) digest_state \<Rightarrow> bool" where
  "shaped s \<longleftrightarrow> length (iData s) = N \<and> length (iRegs s) = R"

lemma shaped_frame: "shaped s \<Longrightarrow> same_frame s s' \<Longrightarrow> shaped s'"
  by (simp add: shaped_def same_frame_def)

definition steady :: "('w word, 'c) digest_state \<Rightarrow> bool" where
  "steady s \<longleftrightarrow> shaped s \<and> iNl s < 16 * w"

lemma steady_step: "steady s \<Longrightarrow> step s b = Ok s' \<Longrightarrow> steady s' \<and> same_frame s s' \<and> iHash s' = iHash s"
  using step_frame [of s b s'] shaped_frame [of s s'] by (simp add: steady_def shaped_def)

lemma steady_update: "steady s \<Longrightarrow> update s xs = update_bytes step s xs"
  by (rule update_bytes) (simp_all add: steady_def shaped_def)

lemma final_shaped_frame: "shaped s \<Longrightarrow> final s = Ok s' \<Longrightarrow> same_frame s s'"
  using final_frame by (simp add: shaped_def)

lemma update_bytes_frame: "steady s \<Longrightarrow> update_bytes step s xs = Ok s' \<Longrightarrow> steady s' \<and> same_frame s s' \<and> iHash s' = iHash s"
proof (induction xs arbitrary: s)
  case (Cons x xs)
  then obtain t where t: "step s x = Ok t" "update_bytes step t xs = Ok s'"
    by (auto simp: bindL_eq_Inr)
  note s = steady_step [OF Cons.prems(1) t(1)]
  from Cons.IH [OF _ t(2)] s show ?case using same_frame_trans [of s t s'] by simp
qed simp

lemma update_frame: "steady s \<Longrightarrow> update s xs = Ok s' \<Longrightarrow> steady s' \<and> same_frame s s' \<and> iHash s' = iHash s"
  using update_bytes_frame by (simp add: steady_update)

lemma update_final_frame:
  "steady s \<Longrightarrow> update s xs = Ok t \<Longrightarrow> final t = Ok s' \<Longrightarrow> same_frame s s'"
  using update_frame final_shaped_frame same_frame_trans unfolding steady_def by blast

lemma merkle_length: "length (merkle_damgard (16 * w) w cf iv len m) = R"
proof -
  have "length h = R \<Longrightarrow> length (foldl cf h bs) = R" for h bs
    by (induction bs arbitrary: h) (simp_all add: cf_length)
  then show ?thesis using iv_length by (simp add: merkle_damgard_def)
qed

lemma hash_of_length: "length (hash_of m) = hs"
  using out_length [OF merkle_length] by (simp add: hash_of_def)

lemma saved_frame: "saved_message s m \<Longrightarrow> same_frame s s' \<Longrightarrow> saved_message s' m"
  by (simp add: saved_message_def same_frame_def reps_def waits_def RestoreState_def)

lemma reps_shaped: "reps s m \<Longrightarrow> shaped s"
  by (auto simp: reps_def waits_def shaped_def)

lemma reps_steady: "reps s m \<Longrightarrow> steady s"
  by (auto simp: reps_def waits_def shaped_def steady_def)

lemma reps_reset: "shaped s \<Longrightarrow> reps (reset_state s) []"
  by (rule reps_init) (use n_pos zero iv_length in \<open>simp_all add: waits_def shaped_def reset_state_def\<close>)

lemma reps_store: "reps s m \<Longrightarrow> reps (StoreState s) m \<and> saved_message (StoreState s) m"
  by (simp add: reps_def waits_def StoreState_def RestoreState_def saved_message_def)

lemma reps_replicate: "reps (reset_state fresh) []"
  by (rule reps_reset) (simp add: shaped_def fresh)

lemma waits_copy:
  assumes "waits sh w N R s xs"
  shows "waits sh w N R (class_copy k fresh s) xs"
proof -
  have "j < 16" if "w * j < length xs" for j
  proof -
    have "length xs < w * 16" using assms by (simp add: waits_def mult.commute)
    then have "w * j < w * 16" by (rule less_trans [OF that])
    then show ?thesis by simp
  qed
  then have "(take k (iData s) @ drop k (iData fresh)) ! j = iData s ! j" if "w * j < length xs" for j
    using that fresh assms by (fastforce simp: nth_append waits_def)
  then show ?thesis
    using assms fresh by (simp add: waits_def class_copy_def buffered_def)
qed

lemma reps_copy: "reps s m \<Longrightarrow> reps (class_copy k fresh s) m"
  unfolding reps_def using waits_copy by (fastforce simp: class_copy_def)

lemma shaped_reset: "shaped s \<Longrightarrow> shaped (reset_state s)"
  by (rule reps_shaped [OF reps_reset])

lemma reps_final_shaped:
  assumes "reps s m" and "length m < lim"
  shows "\<exists>s'. final s = Ok s' \<and> take hs (iHash s') = hash_of m \<and> shaped s' \<and> same_frame s s'"
  using reps_final [OF assms] final_shaped_frame shaped_frame reps_shaped [OF assms(1)]
  by (fastforce simp: hash_of_def)

lemma reps_updates:
  "reps s m \<Longrightarrow> length m + length xs < lim \<Longrightarrow> \<exists>s'. update s xs = Ok s' \<and> reps s' (m @ xs)"
  using reps_update reps_steady by (simp add: steady_update)

end

sublocale block_class \<subseteq> cls: restorable_digest "class_ops (16 * w) hs update final reset_state k fresh"
  shaped reps hash_of lim saved_message
proof
  let ?ops = "class_ops (16 * w) hs update final reset_state k fresh"
  fix s m x
  show "reps s m \<Longrightarrow> shaped s" by (rule reps_shaped)
  show "shaped s \<Longrightarrow> \<exists>s'. opReset ?ops s = Ok s' \<and> reps s' []" by (simp add: class_ops_def reps_reset)
  show "reps s m \<Longrightarrow> length m + length x < lim \<Longrightarrow> \<exists>s'. opUpdate ?ops s x = Ok s' \<and> reps s' (m @ x)"
    by (simp add: class_ops_def reps_updates)
  show "reps s m \<Longrightarrow> length m < lim \<Longrightarrow> \<exists>s'. opFinal ?ops s = Ok (hash_of m, s') \<and> reps s' []"
    using reps_final_shaped reps_reset by (fastforce simp: class_ops_def)
  show "\<exists>s'. opFinalMessage ?ops s x = Ok (hash_of (m @ x), s') \<and> reps s' []"
    if r: "reps s m" and l: "length m + length x < lim"
  proof -
    obtain t where "update s x = Ok t" "reps t (m @ x)" using reps_updates r l by blast
    then show ?thesis
      using reps_final_shaped [of t "m @ x"] reps_reset l by (auto simp: class_ops_def)
  qed
  show "\<exists>s'. opHash ?ops s x = Ok (hash_of (m @ x), s') \<and> reps s' (m @ x)"
    if r: "reps s m" and l: "length m + length x < lim"
  proof -
    obtain t where t: "update s x = Ok t" "reps t (m @ x)" using reps_updates r l by blast
    then show ?thesis
      using reps_final_shaped [of "StoreState t" "m @ x"] reps_store [OF t(2)] saved_frame l
      by (auto simp: class_ops_def saved_message_def)
  qed
  show "reps s m \<Longrightarrow> reps (opCopyL ?ops s) m" by (simp add: class_ops_def reps_copy)
  show "\<exists>s'. opReplicateL ?ops s = Ok s' \<and> reps s' []" by (simp add: class_ops_def reps_replicate)
  show "opView ?ops (opRestoreState ?ops s) = opView ?ops s" by (simp add: class_ops_def RestoreState_def)
  show "length (hash_of m) = opHashSize ?ops"
    by (simp add: class_ops_def hash_of_length)
  show "reps s m \<Longrightarrow> reps (opStoreState ?ops s) m \<and> saved_message (opStoreState ?ops s) m"
    by (simp add: class_ops_def reps_store)
  show "shaped s \<Longrightarrow> saved_message s m \<Longrightarrow> reps (opRestoreState ?ops s) m"
    by (simp add: class_ops_def saved_message_def)
  fix s' y m'
  show "shaped s \<Longrightarrow> opReset ?ops s = Ok s' \<Longrightarrow> opView ?ops s' = opView ?ops s"
    by (auto simp: class_ops_def reset_state_def)
  assume r: "reps s m'"
  note s = reps_steady [OF r] and s' = reps_shaped [OF r]
  show "opUpdate ?ops s x = Ok s' \<Longrightarrow> saved_message s m \<Longrightarrow> saved_message s' m"
    using update_frame [OF s] saved_frame by (auto simp: class_ops_def)
  show "opUpdate ?ops s x = Ok s' \<Longrightarrow> opView ?ops s' = opView ?ops s"
    using update_frame [OF s, of x s'] by (simp add: class_ops_def)
  show "opFinal ?ops s = Ok (y, s') \<Longrightarrow> opView ?ops s' = y"
    "opFinalMessage ?ops s x = Ok (y, s') \<Longrightarrow> opView ?ops s' = y"
    by (auto simp: class_ops_def bindL_eq_Inr reset_state_def)
  have reset: "saved_message t m \<Longrightarrow> saved_message (reset_state t) m" for t
    by (simp add: saved_message_def reset_state_def RestoreState_def reps_def waits_def)
  show "opFinal ?ops s = Ok (y, s') \<Longrightarrow> saved_message s m \<Longrightarrow> saved_message s' m"
    using reset saved_frame [OF _ final_shaped_frame [OF s']]
    by (auto simp only: class_ops_def bindL_eq_Inr digest_ops.simps prod.inject sum.inject)
  show "opFinalMessage ?ops s x = Ok (y, s') \<Longrightarrow> saved_message s m \<Longrightarrow> saved_message s' m"
    using reset saved_frame [OF _ update_final_frame [OF s]]
    by (auto simp only: class_ops_def bindL_eq_Inr digest_ops.simps prod.inject sum.inject)
qed

end
