(* ===== verification/WordDigest.thy ===== *)
theory WordDigest
  imports MessageDigest
begin

section \<open>Buffer handling of \<open>CMD4\<close>, \<open>CMD5\<close> and \<open>CSHA1\<close>\<close>

text \<open>
  The three classes collect bytes in an array of 32 bit words with the same code up to the
  byte order and the place of the length.  The byte loop of \<open>DoUpdate\<close> and \<open>DoFinal\<close> are
  written once here, over the shift \<open>sh\<close> of the bytes of a word and the function \<open>block\<close>;
  the theories of the classes instantiate them.  \<open>word_block_class\<close> shows that they keep
  the contract \<open>block_class\<close> for every \<open>block\<close> that maps the registers and the sixteen
  buffered words to new registers.
\<close>

type_synonym word_state = "(tuint, tuint) digest_state"

definition sh_little :: "nat \<Rightarrow> nat" where "sh_little t = 8 * t"
definition sh_big :: "nat \<Rightarrow> nat" where "sh_big t = 24 - 8 * t"

definition CMD_R :: "tuint \<Rightarrow> nat \<Rightarrow> tuint" where
  "CMD_R a s = push_bit s a OR drop_bit (32 - s) a"

definition put_byte :: "(nat \<Rightarrow> nat) \<Rightarrow> tuint list \<Rightarrow> nat \<Rightarrow> byte \<Rightarrow> tuint list" where
  "put_byte sh d nl b =
     d[nl div 4 := (if nl mod 4 = 0 then push_bit (sh 0) (ucast b)
       else if nl mod 4 = 1 then d ! (nl div 4) OR push_bit (sh 1) (ucast b)
       else if nl mod 4 = 2 then d ! (nl div 4) OR push_bit (sh 2) (ucast b)
       else d ! (nl div 4) OR push_bit (sh 3) (ucast b))]"

definition end_block :: "(word_state \<Rightarrow> word_state) \<Rightarrow> word_state \<Rightarrow> word_state" where
  "end_block block s =
     (if iNl s = 64 then (let s = block s in s\<lparr>iNh := iNh s + 64, iNl := 0\<rparr>) else s)"

definition byte_step :: "(nat \<Rightarrow> nat) \<Rightarrow> (word_state \<Rightarrow> word_state) \<Rightarrow> word_state \<Rightarrow> byte \<Rightarrow> word_state" where
  "byte_step sh block s b =
     end_block block (s\<lparr>iData := put_byte sh (iData s) (iNl s) b, iNl := iNl s + 1\<rparr>)"

text \<open>\<open>Mem::FillZ(iData+a,(b-a)*sizeof(TUint))\<close>.\<close>

definition FillZ :: "'w :: zero list \<Rightarrow> nat \<Rightarrow> nat \<Rightarrow> 'w list" where
  "FillZ d a b = take a d @ replicate (b - a) 0 @ drop b d"

definition put_80 :: "(nat \<Rightarrow> nat) \<Rightarrow> tuint list \<Rightarrow> nat \<Rightarrow> tuint list" where
  "put_80 sh d nl =
     d[nl div 4 := (if nl mod 4 = 0 then push_bit (sh 0) 128
       else if nl mod 4 = 1 then d ! (nl div 4) + push_bit (sh 1) 128
       else if nl mod 4 = 2 then d ! (nl div 4) + push_bit (sh 2) 128
       else d ! (nl div 4) + push_bit (sh 3) 128)]"

text \<open>The branch on the room left for the length, and the whole of \<open>DoFinal\<close>.\<close>

definition make_room :: "(word_state \<Rightarrow> word_state) \<Rightarrow> word_state \<Rightarrow> word_state" where
  "make_room block s =
     (if iNl s \<ge> 56 then
        (let s = (if iNl s < 60 then s\<lparr>iData := (iData s)[15 := 0]\<rparr> else s);
             s = block s
         in s\<lparr>iData := FillZ (iData s) 0 14\<rparr>)
      else (let offset = (iNl s + 4) div 4 in s\<lparr>iData := FillZ (iData s) offset 14\<rparr>))"

definition DoFinal ::
  "(nat \<Rightarrow> nat) \<Rightarrow> (tuint \<Rightarrow> tuint \<times> tuint) \<Rightarrow> (tuint \<Rightarrow> byte list) \<Rightarrow> (word_state \<Rightarrow> word_state) \<Rightarrow> word_state \<Rightarrow> word_state" where
  "DoFinal sh lengthWords outBytes block s =
     (let s = s\<lparr>iNh := iNh s + of_nat (iNl s)\<rparr>;
          s = s\<lparr>iData := put_80 sh (iData s) (iNl s)\<rparr>;
          s = make_room block s;
          s = s\<lparr>iData := (iData s)[14 := fst (lengthWords (iNh s)), 15 := snd (lengthWords (iNh s))]\<rparr>;
          s = block s
      in s\<lparr>iHash := concat (map outBytes (iRegs s))\<rparr>)"

text \<open>The words of the length and the bytes of the result, in the two orders.\<close>

definition little_length :: "tuint \<Rightarrow> tuint \<times> tuint" where
  "little_length nh = (push_bit 3 nh, 0)"

definition big_length :: "tuint \<Rightarrow> tuint \<times> tuint" where
  "big_length nh = (0, push_bit 3 nh)"

definition little_bytes :: "tuint \<Rightarrow> byte list" where
  "little_bytes tmp = [ucast (tmp AND 255), ucast (drop_bit 8 tmp AND 255),
     ucast (drop_bit 16 tmp AND 255), ucast (drop_bit 24 tmp AND 255)]"

definition big_bytes :: "tuint \<Rightarrow> byte list" where
  "big_bytes tmp = rev (little_bytes tmp)"

text \<open>The members of a fresh object are zero, as for every class derived from \<open>CBase\<close>.\<close>

definition fresh_words :: "nat \<Rightarrow> nat \<Rightarrow> word_state" where
  "fresh_words N R = \<lparr>iRegs = replicate R 0, iData = replicate N 0, iNl = 0, iNh = 0, iHash = replicate (4 * R) 0,
     iRegsCopy = replicate R 0, iDataCopy = replicate N 0, iNlCopy = 0, iNhCopy = 0\<rparr>"

subsection \<open>Correctness of the buffer handling\<close>

lemma put_byte_v: "put_byte sh d nl b = d[nl div 4 :=
    (if nl mod 4 = 0 then 0 else d ! (nl div 4)) OR push_bit (sh (nl mod 4)) (ucast b)]"
proof -
  have "nl mod 4 < 4" by simp
  then have "nl mod 4 = 0 \<or> nl mod 4 = 1 \<or> nl mod 4 = 2 \<or> nl mod 4 = 3" by linarith
  then show ?thesis by (elim disjE) (simp_all add: put_byte_def)
qed

lemma put_80_v: "put_80 sh d nl = d[nl div 4 :=
    (if nl mod 4 = 0 then 0 else d ! (nl div 4)) + push_bit (sh (nl mod 4)) (ucast (128 :: byte))]"
proof -
  have "nl mod 4 < 4" by simp
  then have "nl mod 4 = 0 \<or> nl mod 4 = 1 \<or> nl mod 4 = 2 \<or> nl mod 4 = 3" by linarith
  moreover have "ucast (128 :: byte) = (128 :: tuint)" by simp
  ultimately show ?thesis by (elim disjE) (simp_all add: put_80_def)
qed

definition spaced :: "(nat \<Rightarrow> nat) \<Rightarrow> bool" where
  "spaced sh \<longleftrightarrow> (\<forall>t<4. \<forall>u<t. sh u + 8 \<le> sh t \<or> sh t + 8 \<le> sh u)"

lemma spaced_little: "spaced sh_little" and spaced_big: "spaced sh_big"
  by (auto simp: spaced_def sh_little_def sh_big_def)

lemma buffered_put_byte:
  assumes "buffered sh 4 d xs" and "length xs < 64" and "16 \<le> length d"
  shows "buffered sh 4 (put_byte sh d (length xs) b) (xs @ [b])"
  using buffered_snoc [OF assms(1) _ refl _ refl, of b] assms(2,3) by (simp add: put_byte_v)

lemma buffered_put_80:
  assumes "buffered sh 4 d xs" and "length xs < 64" and "16 \<le> length d" and "spaced sh"
  shows "buffered sh 4 (put_80 sh d (length xs)) (xs @ [0x80])"
proof -
  let ?i = "length xs" and ?v = "push_bit (sh (length xs mod 4)) (ucast (128 :: byte)) :: tuint"
  let ?c = "if ?i mod 4 = 0 then 0 else d ! (?i div 4)"
  have "?c + ?v = ?c OR ?v"
  proof (cases "?i mod 4 = 0")
    case False
    have "4 * (?i div 4) + ?i mod 4 = ?i" by simp
    then have "4 * (?i div 4) < ?i" using False by linarith
    then have "d ! (?i div 4) = word_at sh 4 xs (?i div 4)" using assms(1) by (simp add: buffered_def)
    moreover have "u < ?i mod 4 \<Longrightarrow> sh u + 8 \<le> sh (?i mod 4) \<or> sh (?i mod 4) + 8 \<le> sh u" for u
      using assms(4) by (simp add: spaced_def)
    ultimately show ?thesis using False word_at_plus [of 4 xs ?i sh 128] by simp
  qed simp
  then have "put_80 sh d ?i = d[?i div 4 := ?c OR ?v]" by (simp only: put_80_v)
  then show ?thesis using buffered_snoc [OF assms(1) _ refl _ refl, of 128] assms(2,3) by simp
qed

lemma length_put [simp]: "length (put_byte sh d nl b) = length d" "length (put_80 sh d nl) = length d"
  by (simp_all add: put_byte_def put_80_def)

lemma length_FillZ [simp]: "a \<le> b \<Longrightarrow> b \<le> length d \<Longrightarrow> length (FillZ d a b) = length d"
  by (simp add: FillZ_def)

lemma nth_FillZ: "a \<le> b \<Longrightarrow> b \<le> length d \<Longrightarrow> k < length d \<Longrightarrow>
    FillZ d a b ! k = (if a \<le> k \<and> k < b then 0 else d ! k)"
  by (auto simp: FillZ_def nth_append min_def)

text \<open>The sixteen words of the last block, with the two words of length \<open>p\<close> and \<open>q\<close>.\<close>

lemma last_block:
  assumes "buffered sh w d xs" and "0 < w" and "off \<le> 14" and "length xs \<le> 14 * w"
    and "16 \<le> length d" and off: "\<And>k. w * k < length xs \<longleftrightarrow> k < off"
    and len: "p = word_at sh w len 0" "q = word_at sh w len 1"
  shows "take 16 ((FillZ d off 14)[14 := p, 15 := q]) =
    words_of sh w (xs @ replicate (14 * w - length xs) 0 @ len)"
proof -
  have "take 16 ((FillZ d off 14)[14 := p, 15 := q]) =
      words_of sh w (xs @ replicate (w * 14 - length xs) 0 @ len)"
  proof (rule buffered_filled)
    have "k < 14" if "w * k < length xs" for k using that assms(3) off by fastforce
    then show "buffered sh w ((FillZ d off 14)[14 := p, 15 := q]) xs"
      using assms(1,3,5) off by (auto simp: buffered_def nth_FillZ nth_list_update)
    show "(FillZ d off 14)[14 := p, 15 := q] ! k = word_at sh w len (k - 14)"
      if "14 \<le> k" "k < 16" for k
    proof -
      have "k = 14 \<or> k = 15" using that by linarith
      then show ?thesis using assms(3,5) len by auto
    qed
    show "(FillZ d off 14)[14 := p, 15 := q] ! k = 0" if "length xs \<le> w * k" "k < 14" for k
      using that off [of k] assms(3,5) by (simp add: nth_FillZ)
  qed (use assms in \<open>simp_all add: mult.commute\<close>)
  then show ?thesis by (simp add: mult.commute)
qed

lemma FillZ_buffered:
  assumes "buffered sh 4 d xs" and "length xs \<le> 56" and "16 \<le> length d"
  shows "buffered sh 4 (FillZ d ((length xs + 3) div 4) 14) xs"
  using assms by (auto simp: buffered_def nth_FillZ)

text \<open>The two last blocks when the length does not fit into the first.\<close>

lemma long_block:
  assumes "buffered sh w d xs" and "14 * w < length xs" and "length xs \<le> 16 * w" and "16 \<le> length d" and "0 < w"
    and d': "d' = (if length xs \<le> 15 * w then d[15 := 0] else d)"
  shows "take 16 d' = words_of sh w (xs @ replicate (16 * w - length xs) 0)"
proof -
  have "take 16 d' = words_of sh w (xs @ replicate (w * 16 - length xs) 0 @ [])"
  proof (rule buffered_filled)
    show "buffered sh w d' xs"
      using assms(1,4) by (auto simp: buffered_def d' nth_list_update mult.commute)
    show "d' ! k = 0" if "length xs \<le> w * k" "k < 16" for k
    proof -
      have "14 * w < k * w" using that(1) assms(2) by (metis mult.commute order_less_le_trans)
      then have "14 < k" by simp
      then have "k = 15" using that(2) by linarith
      then show ?thesis using that(1) assms(4) by (simp add: d' mult.commute)
    qed
  qed (use assms in \<open>simp_all add: mult.commute\<close>)
  then show ?thesis by (simp add: mult.commute)
qed

lemma byte_step_iNl: "iNl s < 64 \<Longrightarrow> iNl (byte_step sh block s b) < 64"
  by (simp add: byte_step_def end_block_def Let_def)

locale word_block =
  fixes sh :: "nat \<Rightarrow> nat" and lengthWords :: "tuint \<Rightarrow> tuint \<times> tuint" and outBytes :: "tuint \<Rightarrow> byte list"
    and block :: "word_state \<Rightarrow> word_state" and N R lim :: nat
    and cmp :: "tuint list \<Rightarrow> tuint list \<Rightarrow> tuint list" and iv :: "tuint list" and len :: "nat \<Rightarrow> byte list"
  assumes block: "length (iData s) = N \<Longrightarrow> length (iRegs s) = R \<Longrightarrow>
      \<exists>d. length d = N \<and> block s = s\<lparr>iRegs := cmp (iRegs s) (take 16 (iData s)), iData := d\<rparr>"
    and cmp: "length h = R \<Longrightarrow> length (cmp h ws) = R"
    and sizes: "16 \<le> N" "spaced sh" "length iv = R" "\<And>w. length (outBytes w) = 4"
    and len: "length (len l) = 8" "l < lim \<Longrightarrow> lengthWords (of_nat l) = (word_at sh 4 (len l) 0, word_at sh 4 (len l) 1)"
begin

definition cf :: "tuint list \<Rightarrow> byte list \<Rightarrow> tuint list" where
  "cf h xs = cmp h (words_of sh 4 xs)"

lemma block_E:
  assumes "length (iData s) = N" "length (iRegs s) = R"
  obtains d where "length d = N" "block s = s\<lparr>iRegs := cmp (iRegs s) (take 16 (iData s)), iData := d\<rparr>"
  using block [OF assms] by blast

lemma byte_step_short:
  assumes "waits sh 4 N R s xs" and "length xs + 1 < 64"
  shows "waits sh 4 N R (byte_step sh block s b) (xs @ [b])"
    and "iRegs (byte_step sh block s b) = iRegs s" and "iNh (byte_step sh block s b) = iNh s"
  using assms sizes(1) buffered_put_byte [of sh "iData s" xs b]
  by (simp_all add: byte_step_def end_block_def waits_def)

lemma byte_step_full:
  assumes "waits sh 4 N R s xs" and "length xs + 1 = 64"
  shows "waits sh 4 N R (byte_step sh block s b) []"
    and "iRegs (byte_step sh block s b) = cf (iRegs s) (xs @ [b])" and "iNh (byte_step sh block s b) = iNh s + 64"
proof -
  let ?t = "s\<lparr>iData := put_byte sh (iData s) (iNl s) b, iNl := iNl s + 1\<rparr>"
  have t: "length (iData ?t) = N" "length (iRegs ?t) = R" "iNl ?t = 64"
    using assms by (simp_all add: waits_def)
  obtain d where d: "length d = N" "block ?t = ?t\<lparr>iRegs := cmp (iRegs ?t) (take 16 (iData ?t)), iData := d\<rparr>"
    using block_E [OF t(1,2)] by blast
  have "buffered sh 4 (iData ?t) (xs @ [b])"
    using buffered_put_byte [of sh "iData s" xs b] assms sizes(1) by (simp add: waits_def)
  then have w: "take 16 (iData ?t) = words_of sh 4 (xs @ [b])"
    by (rule buffered_full) (use assms t(1) sizes(1) in simp_all)
  have e: "byte_step sh block s b = (block ?t)\<lparr>iNh := iNh s + 64, iNl := 0\<rparr>"
    using d(2) t(3) by (simp add: byte_step_def end_block_def)
  show "iRegs (byte_step sh block s b) = cf (iRegs s) (xs @ [b])" and "iNh (byte_step sh block s b) = iNh s + 64"
    using d(2) w by (simp_all add: e cf_def)
  show "waits sh 4 N R (byte_step sh block s b) []"
    using d t(2) cmp by (simp add: e waits_def)
qed

text \<open>
  After \<open>make_room\<close> the registers have absorbed all complete blocks of the padded message,
  and the buffer holds the bytes \<open>ys\<close> of the last one, which has room for the length.
\<close>

lemma make_room_frame:
  assumes "length (iData s) = N" "length (iRegs s) = R"
  shows "\<exists>d h. make_room block s = s\<lparr>iRegs := h, iData := d\<rparr> \<and> length d = N \<and> length h = R"
proof (cases "iNl s \<ge> 56")
  case True
  let ?s = "if iNl s < 60 then s\<lparr>iData := (iData s)[15 := 0]\<rparr> else s"
  have "length (iData ?s) = N" "length (iRegs ?s) = R" using assms by simp_all
  then obtain d where d: "length d = N" "block ?s = ?s\<lparr>iRegs := cmp (iRegs ?s) (take 16 (iData ?s)), iData := d\<rparr>"
    by (rule block_E)
  have "make_room block s = (block ?s)\<lparr>iData := FillZ (iData (block ?s)) 0 14\<rparr>"
    using True by (simp add: make_room_def Let_def)
  also have "\<dots> = s\<lparr>iRegs := cmp (iRegs s) (take 16 (iData ?s)), iData := FillZ d 0 14\<rparr>"
    using d(2) by simp
  finally have m: "make_room block s = s\<lparr>iRegs := cmp (iRegs s) (take 16 (iData ?s)), iData := FillZ d 0 14\<rparr>" .
  have "length (FillZ d 0 14) = N" using d(1) sizes(1) by simp
  with m cmp [OF assms(2)] show ?thesis by blast
next
  case False
  then have "make_room block s = s\<lparr>iRegs := iRegs s, iData := FillZ (iData s) ((iNl s + 4) div 4) 14\<rparr>"
    by (simp add: make_room_def Let_def)
  moreover have "length (FillZ (iData s) ((iNl s + 4) div 4) 14) = N" using False assms(1) sizes(1) by simp
  ultimately show ?thesis using assms(2) by blast
qed

lemma make_room_data:
  assumes "length (iData s) = N" "length (iRegs s) = R" "iNl s = length xs" "length xs < 64"
    and "buffered sh 4 (iData s) (xs @ [0x80])"
  shows "\<exists>d off ys. iData (make_room block s) = FillZ d off 14 \<and> length d = N \<and> off \<le> 14 \<and>
     buffered sh 4 d ys \<and> length ys \<le> 56 \<and> (\<forall>k. 4 * k < length ys \<longleftrightarrow> k < off) \<and>
     (if length xs < 56 then ys = xs @ [0x80] \<and> iRegs (make_room block s) = iRegs s
      else ys = [] \<and> iRegs (make_room block s) =
        cf (iRegs s) (xs @ [0x80] @ replicate (64 - length (xs @ [0x80])) 0))"
proof (cases "length xs < 56")
  case True
  have "4 * k < length (xs @ [0x80 :: byte]) \<longleftrightarrow> k < (length xs + 4) div 4" for k
    by simp presburger
  then show ?thesis
    using True assms by (intro exI [of _ "iData s"] exI [of _ "(length xs + 4) div 4"] exI [of _ "xs @ [0x80]"])
      (auto simp: make_room_def Let_def)
next
  case False
  let ?d = "if length (xs @ [0x80 :: byte]) \<le> 60 then (iData s)[15 := 0] else iData s"
  let ?s = "s\<lparr>iData := ?d\<rparr>"
  have w: "take 16 ?d = words_of sh 4 ((xs @ [0x80]) @ replicate (64 - length (xs @ [0x80])) 0)"
    using long_block [of sh 4 "iData s" "xs @ [0x80]" ?d] assms False sizes(1) by simp
  have "length (iData ?s) = N" "length (iRegs ?s) = R" using assms by simp_all
  then obtain d where d: "length d = N" "block ?s = ?s\<lparr>iRegs := cmp (iRegs ?s) (take 16 (iData ?s)), iData := d\<rparr>"
    by (rule block_E)
  have "make_room block s = (block ?s)\<lparr>iData := FillZ (iData (block ?s)) 0 14\<rparr>"
    using False assms(3) by (auto simp: make_room_def Let_def)
  then show ?thesis
    using False w d by (intro exI [of _ d] exI [of _ 0] exI [of _ "[]"]) (simp add: cf_def)
qed

lemma final_regs:
  assumes s: "waits sh 4 N R s xs" and l: "iNh s = of_nat l" "l + length xs < lim"
    and r: "length xs = (l + length xs) mod 64"
  shows "iRegs (DoFinal sh lengthWords outBytes block s) =
    fst (foldl (absorb 64 cf) (iRegs s, xs) (md_pad 64 4 len (l + length xs)))"
proof -
  let ?s = "s\<lparr>iNh := iNh s + of_nat (iNl s), iData := put_80 sh (iData s) (iNl s)\<rparr>"
  let ?m = "make_room block ?s"
  have w: "length (iData ?s) = N" "length (iRegs ?s) = R" "iNl ?s = length xs" "length xs < 64"
    using s by (simp_all add: waits_def)
  have b: "buffered sh 4 (iData ?s) (xs @ [0x80])"
    using buffered_put_80 [of sh "iData s" xs] s sizes by (simp add: waits_def)
  obtain d off ys where m: "iData ?m = FillZ d off 14" "length d = N" "off \<le> 14" "buffered sh 4 d ys"
      "length ys \<le> 56" "\<And>k. 4 * k < length ys \<longleftrightarrow> k < off"
      "if length xs < 56 then ys = xs @ [0x80] \<and> iRegs ?m = iRegs ?s
       else ys = [] \<and> iRegs ?m = cf (iRegs ?s) (xs @ [0x80] @ replicate (64 - length (xs @ [0x80])) 0)"
    using make_room_data [OF w b] by blast
  obtain d' h' where m': "?m = ?s\<lparr>iRegs := h', iData := d'\<rparr>" "length d' = N" "length h' = R"
    using make_room_frame [OF w(1,2)] by blast
  have nh: "iNh ?m = of_nat (l + length xs)" using m'(1) l(1) w(3) by simp
  let ?len = "len (l + length xs)"
  let ?t = "?m\<lparr>iData := (iData ?m)[14 := fst (lengthWords (iNh ?m)), 15 := snd (lengthWords (iNh ?m))]\<rparr>"
  have t: "take 16 (iData ?t) = words_of sh 4 (ys @ replicate (14 * 4 - length ys) 0 @ ?len)"
    using last_block [of sh 4 d ys off _ ?len, OF m(4) _ m(3) _ _ m(6)] m(1,2,5) sizes(1) len(2) [OF l(2)] nh
    by simp
  have "length (iData ?t) = N" "length (iRegs ?t) = R" using m' by simp_all
  then obtain e where e: "block ?t = ?t\<lparr>iRegs := cmp (iRegs ?t) (take 16 (iData ?t)), iData := e\<rparr>"
    by (rule block_E)
  have "DoFinal sh lengthWords outBytes block s = (block ?t)\<lparr>iHash := concat (map outBytes (iRegs (block ?t)))\<rparr>"
    by (simp add: DoFinal_def Let_def)
  then have f: "iRegs (DoFinal sh lengthWords outBytes block s) = cf (iRegs ?m) (ys @ replicate (56 - length ys) 0 @ ?len)"
    using e t by (simp add: cf_def)
  show ?thesis
  proof (cases "length xs < 56")
    case True
    then show ?thesis
      using absorbs_pad_short [of xs "l + length xs" 64 4 len cf "iRegs s"] r len(1) m(7) f by simp
  next
    case False
    then show ?thesis
      using absorbs_pad_long [of xs "l + length xs" 64 4 len cf "iRegs s"] r len(1) m(7) f by simp
  qed
qed

lemma final_frame:
  assumes "length (iData s) = N" "length (iRegs s) = R"
  shows "same_frame s (DoFinal sh lengthWords outBytes block s)"
    and "iHash (DoFinal sh lengthWords outBytes block s) = concat (map outBytes (iRegs (DoFinal sh lengthWords outBytes block s)))"
proof -
  let ?s = "s\<lparr>iNh := iNh s + of_nat (iNl s), iData := put_80 sh (iData s) (iNl s)\<rparr>"
  let ?m = "make_room block ?s"
  let ?t = "?m\<lparr>iData := (iData ?m)[14 := fst (lengthWords (iNh ?m)), 15 := snd (lengthWords (iNh ?m))]\<rparr>"
  have d: "DoFinal sh lengthWords outBytes block s = (block ?t)\<lparr>iHash := concat (map outBytes (iRegs (block ?t)))\<rparr>"
    by (simp add: DoFinal_def Let_def)
  then show "iHash (DoFinal sh lengthWords outBytes block s) = concat (map outBytes (iRegs (DoFinal sh lengthWords outBytes block s)))"
    by simp
  have "length (iData ?s) = N" "length (iRegs ?s) = R" using assms by simp_all
  then obtain d' h' where m: "?m = ?s\<lparr>iRegs := h', iData := d'\<rparr>" "length d' = N" "length h' = R"
    using make_room_frame by blast
  then have t: "length (iData ?t) = N" "length (iRegs ?t) = R" by simp_all
  then obtain e where "length e = N" "block ?t = ?t\<lparr>iRegs := cmp (iRegs ?t) (take 16 (iData ?t)), iData := e\<rparr>"
    by (rule block_E)
  then show "same_frame s (DoFinal sh lengthWords outBytes block s)"
    using d m assms cmp [OF t(2)] by (simp add: same_frame_def)
qed

lemma step_frame:
  assumes "length (iData s) = N" "length (iRegs s) = R"
  shows "same_frame s (byte_step sh block s b) \<and> iHash (byte_step sh block s b) = iHash s"
proof -
  obtain t where t: "t = s\<lparr>iData := put_byte sh (iData s) (iNl s) b, iNl := iNl s + 1\<rparr>" by simp
  then have l: "length (iData t) = N" "length (iRegs t) = R" and f: "same_frame s t"
    using assms by (simp_all add: same_frame_def)
  obtain d where d: "length d = N" "block t = t\<lparr>iRegs := cmp (iRegs t) (take 16 (iData t)), iData := d\<rparr>"
    using block_E [OF l] by blast
  have "byte_step sh block s b = (if iNl t = 64 then (block t)\<lparr>iNh := iNh (block t) + 64, iNl := 0\<rparr> else t)"
    by (simp only: byte_step_def end_block_def Let_def t)
  moreover have "same_frame t ((block t)\<lparr>iNh := iNh (block t) + 64, iNl := 0\<rparr>)" "iHash (block t) = iHash t"
    using d l cmp [OF l(2)] by (simp_all add: same_frame_def)
  moreover have "iHash t = iHash s" by (simp add: t)
  ultimately show ?thesis using f same_frame_trans by auto
qed

lemma steps_frame:
  "length (iData s) = N \<Longrightarrow> length (iRegs s) = R \<Longrightarrow> iNl s < 64 \<Longrightarrow>
    same_frame s (foldl (byte_step sh block) s xs) \<and> iNl (foldl (byte_step sh block) s xs) < 64"
proof (induction xs arbitrary: s)
  case (Cons x xs)
  let ?t = "byte_step sh block s x"
  have t: "same_frame s ?t" "iNl ?t < 64" using Cons.prems step_frame byte_step_iNl by auto
  have "same_frame ?t (foldl (byte_step sh block) ?t xs) \<and> iNl (foldl (byte_step sh block) ?t xs) < 64"
    by (rule Cons.IH) (use t Cons.prems in \<open>simp_all add: same_frame_def\<close>)
  then show ?case using t(1) same_frame_trans by auto
qed simp

lemma concat_out: "length (concat (map outBytes h)) = 4 * length h"
  by (induction h) (simp_all add: sizes(4))

end

locale word_class = word_block +
  fixes k :: nat and upd :: "word_state \<Rightarrow> byte list \<Rightarrow> word_state result"
  assumes k: "16 \<le> k" and upd: "length (iData s) = N \<Longrightarrow> length (iRegs s) = R \<Longrightarrow> iNl s < 64 \<Longrightarrow>
    upd s xs = Ok (foldl (byte_step sh block) s xs)"

sublocale word_class \<subseteq> wd: block_class "\<lambda>s b. Ok (byte_step sh block s b)"
  "\<lambda>s. Ok (DoFinal sh lengthWords outBytes block s)" sh 4 N R "\<lambda>c l. c = of_nat l" lim cf iv len
  "\<lambda>h. concat (map outBytes h)" 0 "4 * R" k "fresh_words N R" upd
proof
  fix s xs l b s'
  show "length (len l) = 2 * 4" by (simp add: len)
  show "\<exists>s'. Ok (byte_step sh block s b) = Ok s' \<and> waits sh 4 N R s' (xs @ [b]) \<and> iRegs s' = iRegs s \<and> iNh s' = of_nat l"
    if "waits sh 4 N R s xs" "iNh s = of_nat l" "length xs + 1 < 16 * 4"
    using byte_step_short [OF that(1)] that(2,3) by simp
  show "\<exists>s'. Ok (byte_step sh block s b) = Ok s' \<and> waits sh 4 N R s' [] \<and> iRegs s' = cf (iRegs s) (xs @ [b]) \<and>
      iNh s' = of_nat (l + 16 * 4)"
    if "waits sh 4 N R s xs" "iNh s = of_nat l" "length xs + 1 = 16 * 4"
    using byte_step_full [OF that(1)] that(2,3) by simp
  show "\<exists>s'. Ok (DoFinal sh lengthWords outBytes block s) = Ok s' \<and> iHash s' =
      concat (map outBytes (fst (foldl (absorb (16 * 4) cf) (iRegs s, xs) (md_pad (16 * 4) 4 len (l + length xs)))))"
    if "waits sh 4 N R s xs" "iNh s = of_nat l" "length xs = (l + length xs) mod (16 * 4)" "l + length xs < lim"
    using final_regs [OF that(1,2,4)] that(1,3) final_frame(2) [of s] by (simp add: waits_def)
  show "length (iData s) = N \<Longrightarrow> length (iRegs s) = R \<Longrightarrow> iNl s < 16 * 4 \<Longrightarrow>
      upd s xs = update_bytes (\<lambda>s b. Ok (byte_step sh block s b)) s xs"
    using upd by (simp add: update_bytes_Ok)
  show "length h = R \<Longrightarrow> 4 * R \<le> length (concat (map outBytes h))" for h
    by (simp add: concat_out)
  show "length h = R \<Longrightarrow> length (cf h xs) = R" for h by (simp add: cf_def cmp)
  show "length (iData s) = N \<Longrightarrow> length (iRegs s) = R \<Longrightarrow> iNl s < 16 * 4 \<Longrightarrow> Ok (byte_step sh block s b) = Ok s' \<Longrightarrow>
      same_frame s s' \<and> iHash s' = iHash s \<and> iNl s' < 16 * 4"
    using step_frame byte_step_iNl by auto
  show "length (iData s) = N \<Longrightarrow> length (iRegs s) = R \<Longrightarrow> Ok (DoFinal sh lengthWords outBytes block s) = Ok s' \<Longrightarrow> same_frame s s'"
    using final_frame(1) by auto
qed (use sizes k in \<open>simp_all add: fresh_words_def\<close>)

context word_class
begin

lemma hash_of_words: "wd.hash_of m = concat (map outBytes (merkle_damgard 64 4 cf iv len m))"
  using wd.merkle_length [of m] by (simp add: wd.hash_of_def concat_out)

end

end
