(* ===== verification/Rounds.thy ===== *)
theory Rounds
  imports WordDigest
begin

section \<open>Unrolled rounds\<close>

text \<open>
  The compression functions are written out round by round; instead of moving the contents
  of the working registers, the code rotates the names of the registers from call to call.
  \<open>reg n i r\<close> is the register that plays the role \<open>r\<close> in round \<open>i\<close> when \<open>n\<close> registers
  rotate, and \<open>unrolled_loop\<close> turns a fold over the written out calls into the loop of the
  standard.  A sequence of calls is a list, one entry per line of the code.
\<close>

definition reg :: "nat \<Rightarrow> nat \<Rightarrow> nat \<Rightarrow> nat" where
  "reg n i r = (n - i mod n + r) mod n"

lemma reg_less: "0 < n \<Longrightarrow> reg n i r < n"
  by (simp add: reg_def)

lemma reg_eq: "a < n \<Longrightarrow> b < n \<Longrightarrow> reg n i a = reg n i b \<longleftrightarrow> a = b"
proof
  assume ab: "a < n" "b < n" and "reg n i a = reg n i b"
  then have "(n - i mod n + a) mod n = (n - i mod n + b) mod n" by (simp only: reg_def)
  then have "a mod n = b mod n" by (simp add: mod_add_left_eq nat_mod_eq_iff)
  then show "a = b" using ab by simp
qed simp

lemma reg_Suc: "0 < n \<Longrightarrow> reg n (Suc i) (Suc r) = reg n i r" "0 < n \<Longrightarrow> reg n (Suc i) 0 = reg n i (n - 1)"
proof -
  assume n: "0 < n"
  then have i: "i mod n < n" by simp
  show "reg n (Suc i) (Suc r) = reg n i r"
  proof (cases "Suc (i mod n) = n")
    case True
    then have "n - i mod n + r = Suc r" by simp
    then show ?thesis using True by (simp add: reg_def mod_Suc)
  next
    case False
    then have "n - Suc (i mod n) + Suc r = n - i mod n + r" using i by simp
    then show ?thesis using False by (simp only: reg_def mod_Suc if_False)
  qed
  show "reg n (Suc i) 0 = reg n i (n - 1)"
  proof (cases "Suc (i mod n) = n")
    case True
    then have "n - i mod n + (n - 1) = n" by simp
    then show ?thesis using True by (simp add: reg_def mod_Suc)
  next
    case False
    then have "n - i mod n + (n - 1) = n + (n - Suc (i mod n))" using i by simp
    then show ?thesis using False by (simp add: reg_def mod_Suc)
  qed
qed

lemma unrolled_loop:
  assumes "\<And>i v. i < n \<Longrightarrow> P i v \<Longrightarrow> P (Suc i) (step v (op i)) \<and> view (Suc i) (step v (op i)) = round i (view i v)"
    and "P 0 v"
  shows "P n (foldl step v (map op [0..<n])) \<and>
    view n (foldl step v (map op [0..<n])) = fold round [0..<n] (view 0 v)"
  using assms
proof (induction n)
  case (Suc n)
  let ?v = "foldl step v (map op [0..<n])"
  have "P n ?v \<and> view n ?v = fold round [0..<n] (view 0 v)"
    by (rule Suc.IH) (use Suc.prems in auto)
  then show ?case using Suc.prems(1) [of n ?v] by simp
qed simp

text \<open>
  The message schedule of the SHA family: the sixteen words of the block, extended by words
  made of earlier ones; \<open>g\<close> gets the word \<open>k\<close> places before the new one as \<open>w k\<close>.
\<close>

fun schedule :: "((nat \<Rightarrow> 'w) \<Rightarrow> 'w) \<Rightarrow> 'w list \<Rightarrow> nat \<Rightarrow> 'w list" where
  "schedule g X 0 = X"
| "schedule g X (Suc n) = (let W = schedule g X n in W @ [g (\<lambda>k. W ! (length W - k))])"

lemma length_schedule [simp]: "length (schedule g X n) = length X + n"
  by (induction n) (simp_all add: Let_def)

lemma schedule_mono: "j < length X + n \<Longrightarrow> schedule g X (n + k) ! j = schedule g X n ! j"
  by (induction k) (simp_all add: Let_def nth_append)

lemma schedule_nth:
  assumes "j < length X + n" "n \<le> m" shows "schedule g X m ! j = schedule g X n ! j"
  using schedule_mono [OF assms(1), of g "m - n"] assms(2) by simp

lemma schedule_new:
  assumes "length X + n < length X + m"
    and "\<And>w w'. (\<And>k. 0 < k \<Longrightarrow> k \<le> 16 \<Longrightarrow> w k = w' k) \<Longrightarrow> g w = g w'" and "length X = 16"
  shows "schedule g X m ! (16 + n) = g (\<lambda>k. schedule g X m ! (16 + n - k))"
proof -
  have "schedule g X m ! (16 + n) = schedule g X (Suc n) ! (16 + n)"
    by (rule schedule_nth) (use assms in simp_all)
  also have "\<dots> = g (\<lambda>k. schedule g X n ! (16 + n - k))"
    using assms(3) by (simp add: Let_def nth_append)
  also have "\<dots> = g (\<lambda>k. schedule g X m ! (16 + n - k))"
    by (rule assms(2), rule schedule_nth [symmetric]) (use assms in simp_all)
  finally show ?thesis .
qed

lemma less_4_cases: "(i :: nat) < 4 \<Longrightarrow> i = 0 \<or> i = 1 \<or> i = 2 \<or> i = 3"
  by linarith

lemma list_4: "length v = 4 \<Longrightarrow> v = [v ! 0, v ! 1, v ! 2, v ! 3]"
  by (rule list_of_length_4)

lemma length_4_cases:
  assumes "length v = 4"
  obtains a b c d where "v = [a, b, c, d]"
  using assms list_of_length_4 by blast

text \<open>The little endian length of a message, in bits.\<close>

definition little_length_bytes :: "nat \<Rightarrow> byte list" where
  "little_length_bytes l = little_bytes (of_nat (8 * l)) @ little_bytes (of_nat (8 * l div 2 ^ 32))"

definition big_length_bytes :: "nat \<Rightarrow> byte list" where
  "big_length_bytes l = big_bytes (of_nat (8 * l div 2 ^ 32)) @ big_bytes (of_nat (8 * l))"

lemma length_bytes [simp]: "length (little_bytes w) = 4" "length (big_bytes w) = 4"
    "length (little_length_bytes l) = 8" "length (big_length_bytes l) = 8"
  by (simp_all add: little_bytes_def big_bytes_def little_length_bytes_def big_length_bytes_def)

lemma pack_4: "pack sh 4 f = push_bit (sh 0) (ucast (f 0)) OR push_bit (sh 1) (ucast (f 1)) OR
    push_bit (sh 2) (ucast (f 2)) OR push_bit (sh 3) (ucast (f 3))"
  by (simp add: numeral_eq_Suc pack_Suc pack_0 or.assoc)

lemma low_bytes: "ucast (x AND 255 :: tuint) = (ucast x :: byte)"
  using ucast_and_FF [of x] by simp

lemma word_of_bytes:
  "word_at sh_little 4 (little_bytes w @ ys) 0 = w" "word_at sh_big 4 (big_bytes w @ ys) 0 = w"
  using Get_Put_WordBigEndian [of w "[]"]
  by (simp_all add: word_at_def pack_4 byte_at_def little_bytes_def big_bytes_def sh_little_def sh_big_def
      GetWordBigEndian_def PutWordBigEndian_def low_bytes or.assoc or.commute or.left_commute)

lemma word_of_bytes_1:
  "length us = 4 \<Longrightarrow> word_at sh 4 (us @ vs) 1 = word_at sh 4 vs 0"
  using word_at_append_right [of us 4 1 1 sh vs] by simp

lemma of_nat_bits: "l < 2 ^ 29 \<Longrightarrow> (of_nat (8 * l div 2 ^ 32) :: tuint) = 0"
  by simp

lemma little_length_ok: "l < 2 ^ 29 \<Longrightarrow> little_length (of_nat l) =
    (word_at sh_little 4 (little_length_bytes l) 0, word_at sh_little 4 (little_length_bytes l) 1)"
  using word_of_bytes(1) [of _ "[]"]
  by (simp add: little_length_def little_length_bytes_def word_of_bytes word_of_bytes_1 [unfolded One_nat_def] push_bit_eq_mult)

lemma big_length_ok: "l < 2 ^ 29 \<Longrightarrow> big_length (of_nat l) =
    (word_at sh_big 4 (big_length_bytes l) 0, word_at sh_big 4 (big_length_bytes l) 1)"
  using word_of_bytes(2) [of _ "[]"]
  by (simp add: big_length_def big_length_bytes_def word_of_bytes word_of_bytes_1 [unfolded One_nat_def] push_bit_eq_mult)

end
