(* ===== verification/MdDigests.thy ===== *)
theory MdDigests
  imports Rounds
begin

section \<open>\<open>CMD5\<close> and \<open>CMD4\<close> (\<open>md5.cpp\<close>, \<open>md4.cpp\<close>)\<close>

text \<open>
  The sources hold three variants of \<open>Block\<close>, chosen by \<open>NOREFS\<close> and \<open>MACRO\<close>, which no
  project file defines; modelled is the one with reference parameters.  The registers
  \<open>tempA\<close> to \<open>tempD\<close> are the entries 0 to 3 of a list, and each call of the source is an
  entry of \<open>md5_calls\<close> or \<open>md4_calls\<close>.  \<open>md5_rounds\<close> and \<open>md4_rounds\<close> are the loops of RFC
  1321 and RFC 1320, which move the registers instead; the calls are shown to compute them.
\<close>

subsection \<open>MD5\<close>

definition CMD5_F :: "tuint \<Rightarrow> tuint \<Rightarrow> tuint \<Rightarrow> tuint" where "CMD5_F x y z = (x AND y) OR (NOT x AND z)"
definition CMD5_G :: "tuint \<Rightarrow> tuint \<Rightarrow> tuint \<Rightarrow> tuint" where "CMD5_G x y z = (x AND z) OR (y AND NOT z)"
definition CMD5_H :: "tuint \<Rightarrow> tuint \<Rightarrow> tuint \<Rightarrow> tuint" where "CMD5_H x y z = x XOR y XOR z"
definition CMD5_I :: "tuint \<Rightarrow> tuint \<Rightarrow> tuint \<Rightarrow> tuint" where "CMD5_I x y z = y XOR (x OR NOT z)"

type_synonym md5_round = "tuint \<Rightarrow> tuint \<Rightarrow> tuint \<Rightarrow> tuint \<Rightarrow> tuint \<Rightarrow> nat \<Rightarrow> tuint \<Rightarrow> tuint"

definition CMD5_FF :: md5_round where "CMD5_FF a b c d m s t = b + CMD_R (a + (CMD5_F b c d + m + t)) s"
definition CMD5_GG :: md5_round where "CMD5_GG a b c d m s t = b + CMD_R (a + (CMD5_G b c d + m + t)) s"
definition CMD5_HH :: md5_round where "CMD5_HH a b c d m s t = b + CMD_R (a + (CMD5_H b c d + m + t)) s"
definition CMD5_II :: md5_round where "CMD5_II a b c d m s t = b + CMD_R (a + (CMD5_I b c d + m + t)) s"

definition md5_call :: "tuint list \<Rightarrow> tuint list \<Rightarrow> md5_round \<times> nat \<times> nat \<times> nat \<times> nat \<times> nat \<times> nat \<times> tuint \<Rightarrow> tuint list" where
  "md5_call d v = (\<lambda>(f, a, b, c, e, k, s, t). v[a := f (v ! a) (v ! b) (v ! c) (v ! e) (d ! k) s t])"

definition md5_calls :: "(md5_round \<times> nat \<times> nat \<times> nat \<times> nat \<times> nat \<times> nat \<times> tuint) list" where
  "md5_calls = [
     (CMD5_FF, 0, 1, 2, 3, 0, 7, 0xd76aa478), (CMD5_FF, 3, 0, 1, 2, 1, 12, 0xe8c7b756),
     (CMD5_FF, 2, 3, 0, 1, 2, 17, 0x242070db), (CMD5_FF, 1, 2, 3, 0, 3, 22, 0xc1bdceee),
     (CMD5_FF, 0, 1, 2, 3, 4, 7, 0xf57c0faf), (CMD5_FF, 3, 0, 1, 2, 5, 12, 0x4787c62a),
     (CMD5_FF, 2, 3, 0, 1, 6, 17, 0xa8304613), (CMD5_FF, 1, 2, 3, 0, 7, 22, 0xfd469501),
     (CMD5_FF, 0, 1, 2, 3, 8, 7, 0x698098d8), (CMD5_FF, 3, 0, 1, 2, 9, 12, 0x8b44f7af),
     (CMD5_FF, 2, 3, 0, 1, 10, 17, 0xffff5bb1), (CMD5_FF, 1, 2, 3, 0, 11, 22, 0x895cd7be),
     (CMD5_FF, 0, 1, 2, 3, 12, 7, 0x6b901122), (CMD5_FF, 3, 0, 1, 2, 13, 12, 0xfd987193),
     (CMD5_FF, 2, 3, 0, 1, 14, 17, 0xa679438e), (CMD5_FF, 1, 2, 3, 0, 15, 22, 0x49b40821),
     (CMD5_GG, 0, 1, 2, 3, 1, 5, 0xf61e2562), (CMD5_GG, 3, 0, 1, 2, 6, 9, 0xc040b340),
     (CMD5_GG, 2, 3, 0, 1, 11, 14, 0x265e5a51), (CMD5_GG, 1, 2, 3, 0, 0, 20, 0xe9b6c7aa),
     (CMD5_GG, 0, 1, 2, 3, 5, 5, 0xd62f105d), (CMD5_GG, 3, 0, 1, 2, 10, 9, 0x02441453),
     (CMD5_GG, 2, 3, 0, 1, 15, 14, 0xd8a1e681), (CMD5_GG, 1, 2, 3, 0, 4, 20, 0xe7d3fbc8),
     (CMD5_GG, 0, 1, 2, 3, 9, 5, 0x21e1cde6), (CMD5_GG, 3, 0, 1, 2, 14, 9, 0xc33707d6),
     (CMD5_GG, 2, 3, 0, 1, 3, 14, 0xf4d50d87), (CMD5_GG, 1, 2, 3, 0, 8, 20, 0x455a14ed),
     (CMD5_GG, 0, 1, 2, 3, 13, 5, 0xa9e3e905), (CMD5_GG, 3, 0, 1, 2, 2, 9, 0xfcefa3f8),
     (CMD5_GG, 2, 3, 0, 1, 7, 14, 0x676f02d9), (CMD5_GG, 1, 2, 3, 0, 12, 20, 0x8d2a4c8a),
     (CMD5_HH, 0, 1, 2, 3, 5, 4, 0xfffa3942), (CMD5_HH, 3, 0, 1, 2, 8, 11, 0x8771f681),
     (CMD5_HH, 2, 3, 0, 1, 11, 16, 0x6d9d6122), (CMD5_HH, 1, 2, 3, 0, 14, 23, 0xfde5380c),
     (CMD5_HH, 0, 1, 2, 3, 1, 4, 0xa4beea44), (CMD5_HH, 3, 0, 1, 2, 4, 11, 0x4bdecfa9),
     (CMD5_HH, 2, 3, 0, 1, 7, 16, 0xf6bb4b60), (CMD5_HH, 1, 2, 3, 0, 10, 23, 0xbebfbc70),
     (CMD5_HH, 0, 1, 2, 3, 13, 4, 0x289b7ec6), (CMD5_HH, 3, 0, 1, 2, 0, 11, 0xeaa127fa),
     (CMD5_HH, 2, 3, 0, 1, 3, 16, 0xd4ef3085), (CMD5_HH, 1, 2, 3, 0, 6, 23, 0x04881d05),
     (CMD5_HH, 0, 1, 2, 3, 9, 4, 0xd9d4d039), (CMD5_HH, 3, 0, 1, 2, 12, 11, 0xe6db99e5),
     (CMD5_HH, 2, 3, 0, 1, 15, 16, 0x1fa27cf8), (CMD5_HH, 1, 2, 3, 0, 2, 23, 0xc4ac5665),
     (CMD5_II, 0, 1, 2, 3, 0, 6, 0xf4292244), (CMD5_II, 3, 0, 1, 2, 7, 10, 0x432aff97),
     (CMD5_II, 2, 3, 0, 1, 14, 15, 0xab9423a7), (CMD5_II, 1, 2, 3, 0, 5, 21, 0xfc93a039),
     (CMD5_II, 0, 1, 2, 3, 12, 6, 0x655b59c3), (CMD5_II, 3, 0, 1, 2, 3, 10, 0x8f0ccc92),
     (CMD5_II, 2, 3, 0, 1, 10, 15, 0xffeff47d), (CMD5_II, 1, 2, 3, 0, 1, 21, 0x85845dd1),
     (CMD5_II, 0, 1, 2, 3, 8, 6, 0x6fa87e4f), (CMD5_II, 3, 0, 1, 2, 15, 10, 0xfe2ce6e0),
     (CMD5_II, 2, 3, 0, 1, 6, 15, 0xa3014314), (CMD5_II, 1, 2, 3, 0, 13, 21, 0x4e0811a1),
     (CMD5_II, 0, 1, 2, 3, 4, 6, 0xf7537e82), (CMD5_II, 3, 0, 1, 2, 11, 10, 0xbd3af235),
     (CMD5_II, 2, 3, 0, 1, 2, 15, 0x2ad7d2bb), (CMD5_II, 1, 2, 3, 0, 9, 21, 0xeb86d391)]"

definition MD5_Block :: "word_state \<Rightarrow> word_state" where
  "MD5_Block s = (let v = foldl (md5_call (iData s)) (iRegs s) md5_calls
     in s\<lparr>iRegs := map2 (+) (iRegs s) v\<rparr>)"

definition MD5_DoUpdate :: "word_state \<Rightarrow> byte list \<Rightarrow> word_state result" where
  "MD5_DoUpdate s aData = Ok (foldl (byte_step sh_little MD5_Block) s aData)"

definition MD5_DoFinal :: "word_state \<Rightarrow> word_state result" where
  "MD5_DoFinal s = Ok (DoFinal sh_little little_length little_bytes MD5_Block s)"

definition MD5_Reset :: "word_state \<Rightarrow> word_state" where
  "MD5_Reset s = s\<lparr>iRegs := [0x67452301, 0xefcdab89, 0x98badcfe, 0x10325476], iNh := 0, iNl := 0\<rparr>"

definition MD5_ops :: "word_state digest_ops" where
  "MD5_ops = class_ops 64 16 MD5_DoUpdate MD5_DoFinal MD5_Reset 16 (fresh_words 16 4)"

definition MD5_NewL :: word_state where "MD5_NewL = MD5_Reset (fresh_words 16 4)"

subsection \<open>MD4\<close>

definition CMD4_F :: "tuint \<Rightarrow> tuint \<Rightarrow> tuint \<Rightarrow> tuint" where "CMD4_F x y z = (x AND y) OR (NOT x AND z)"
definition CMD4_G :: "tuint \<Rightarrow> tuint \<Rightarrow> tuint \<Rightarrow> tuint" where "CMD4_G x y z = (x AND y) OR (x AND z) OR (y AND z)"
definition CMD4_H :: "tuint \<Rightarrow> tuint \<Rightarrow> tuint \<Rightarrow> tuint" where "CMD4_H x y z = x XOR y XOR z"

type_synonym md4_round = "tuint \<Rightarrow> tuint \<Rightarrow> tuint \<Rightarrow> tuint \<Rightarrow> tuint \<Rightarrow> nat \<Rightarrow> tuint"

definition CMD4_FF :: md4_round where "CMD4_FF a b c d x s = CMD_R (a + (CMD4_F b c d + x)) s"
definition CMD4_GG :: md4_round where "CMD4_GG a b c d x s = CMD_R (a + (CMD4_G b c d + x + 0x5a827999)) s"
definition CMD4_HH :: md4_round where "CMD4_HH a b c d x s = CMD_R (a + (CMD4_H b c d + x + 0x6ed9eba1)) s"

definition md4_call :: "tuint list \<Rightarrow> tuint list \<Rightarrow> md4_round \<times> nat \<times> nat \<times> nat \<times> nat \<times> nat \<times> nat \<Rightarrow> tuint list" where
  "md4_call d v = (\<lambda>(f, a, b, c, e, k, s). v[a := f (v ! a) (v ! b) (v ! c) (v ! e) (d ! k) s])"

definition md4_calls :: "(md4_round \<times> nat \<times> nat \<times> nat \<times> nat \<times> nat \<times> nat) list" where
  "md4_calls = [
     (CMD4_FF, 0, 1, 2, 3, 0, 3), (CMD4_FF, 3, 0, 1, 2, 1, 7), (CMD4_FF, 2, 3, 0, 1, 2, 11),
     (CMD4_FF, 1, 2, 3, 0, 3, 19), (CMD4_FF, 0, 1, 2, 3, 4, 3), (CMD4_FF, 3, 0, 1, 2, 5, 7),
     (CMD4_FF, 2, 3, 0, 1, 6, 11), (CMD4_FF, 1, 2, 3, 0, 7, 19), (CMD4_FF, 0, 1, 2, 3, 8, 3),
     (CMD4_FF, 3, 0, 1, 2, 9, 7), (CMD4_FF, 2, 3, 0, 1, 10, 11), (CMD4_FF, 1, 2, 3, 0, 11, 19),
     (CMD4_FF, 0, 1, 2, 3, 12, 3), (CMD4_FF, 3, 0, 1, 2, 13, 7), (CMD4_FF, 2, 3, 0, 1, 14, 11),
     (CMD4_FF, 1, 2, 3, 0, 15, 19), (CMD4_GG, 0, 1, 2, 3, 0, 3), (CMD4_GG, 3, 0, 1, 2, 4, 5),
     (CMD4_GG, 2, 3, 0, 1, 8, 9), (CMD4_GG, 1, 2, 3, 0, 12, 13), (CMD4_GG, 0, 1, 2, 3, 1, 3),
     (CMD4_GG, 3, 0, 1, 2, 5, 5), (CMD4_GG, 2, 3, 0, 1, 9, 9), (CMD4_GG, 1, 2, 3, 0, 13, 13),
     (CMD4_GG, 0, 1, 2, 3, 2, 3), (CMD4_GG, 3, 0, 1, 2, 6, 5), (CMD4_GG, 2, 3, 0, 1, 10, 9),
     (CMD4_GG, 1, 2, 3, 0, 14, 13), (CMD4_GG, 0, 1, 2, 3, 3, 3), (CMD4_GG, 3, 0, 1, 2, 7, 5),
     (CMD4_GG, 2, 3, 0, 1, 11, 9), (CMD4_GG, 1, 2, 3, 0, 15, 13), (CMD4_HH, 0, 1, 2, 3, 0, 3),
     (CMD4_HH, 3, 0, 1, 2, 8, 9), (CMD4_HH, 2, 3, 0, 1, 4, 11), (CMD4_HH, 1, 2, 3, 0, 12, 15),
     (CMD4_HH, 0, 1, 2, 3, 2, 3), (CMD4_HH, 3, 0, 1, 2, 10, 9), (CMD4_HH, 2, 3, 0, 1, 6, 11),
     (CMD4_HH, 1, 2, 3, 0, 14, 15), (CMD4_HH, 0, 1, 2, 3, 1, 3), (CMD4_HH, 3, 0, 1, 2, 9, 9),
     (CMD4_HH, 2, 3, 0, 1, 5, 11), (CMD4_HH, 1, 2, 3, 0, 13, 15), (CMD4_HH, 0, 1, 2, 3, 3, 3),
     (CMD4_HH, 3, 0, 1, 2, 11, 9), (CMD4_HH, 2, 3, 0, 1, 7, 11), (CMD4_HH, 1, 2, 3, 0, 15, 15)]"

definition MD4_Block :: "word_state \<Rightarrow> word_state" where
  "MD4_Block s = (let v = foldl (md4_call (iData s)) (iRegs s) md4_calls
     in s\<lparr>iRegs := map2 (+) (iRegs s) v\<rparr>)"

definition MD4_DoUpdate :: "word_state \<Rightarrow> byte list \<Rightarrow> word_state result" where
  "MD4_DoUpdate s aData = Ok (foldl (byte_step sh_little MD4_Block) s aData)"

definition MD4_DoFinal :: "word_state \<Rightarrow> word_state result" where
  "MD4_DoFinal s = Ok (DoFinal sh_little little_length little_bytes MD4_Block s)"

definition MD4_Reset :: "word_state \<Rightarrow> word_state" where
  "MD4_Reset s = s\<lparr>iRegs := [0x67452301, 0xefcdab89, 0x98badcfe, 0x10325476], iNh := 0, iNl := 0\<rparr>"

definition MD4_ops :: "word_state digest_ops" where
  "MD4_ops = class_ops 64 16 MD4_DoUpdate MD4_DoFinal MD4_Reset 16 (fresh_words 16 4)"

definition MD4_NewL :: word_state where "MD4_NewL = MD4_Reset (fresh_words 16 4)"

subsection \<open>The loops of the standards\<close>

type_synonym regs4 = "tuint \<times> tuint \<times> tuint \<times> tuint"

definition md5_function :: "nat \<Rightarrow> tuint \<Rightarrow> tuint \<Rightarrow> tuint \<Rightarrow> tuint" where
  "md5_function i = (if i < 16 then CMD5_F else if i < 32 then CMD5_G else if i < 48 then CMD5_H else CMD5_I)"

definition md5_index :: "nat \<Rightarrow> nat" where
  "md5_index i = (if i < 16 then i else if i < 32 then 5 * i + 1 else if i < 48 then 3 * i + 5 else 7 * i) mod 16"

definition md5_shift :: "nat \<Rightarrow> nat" where
  "md5_shift i = [[7, 12, 17, 22], [5, 9, 14, 20], [4, 11, 16, 23], [6, 10, 15, 21]] ! (i div 16) ! (i mod 4)"

text \<open>The additive constants are the table \<open>T\<close> of the RFC.\<close>

definition md5_table :: "tuint list" where
  "md5_table = [
     0xd76aa478, 0xe8c7b756, 0x242070db, 0xc1bdceee, 0xf57c0faf, 0x4787c62a,
     0xa8304613, 0xfd469501, 0x698098d8, 0x8b44f7af, 0xffff5bb1, 0x895cd7be,
     0x6b901122, 0xfd987193, 0xa679438e, 0x49b40821, 0xf61e2562, 0xc040b340,
     0x265e5a51, 0xe9b6c7aa, 0xd62f105d, 0x02441453, 0xd8a1e681, 0xe7d3fbc8,
     0x21e1cde6, 0xc33707d6, 0xf4d50d87, 0x455a14ed, 0xa9e3e905, 0xfcefa3f8,
     0x676f02d9, 0x8d2a4c8a, 0xfffa3942, 0x8771f681, 0x6d9d6122, 0xfde5380c,
     0xa4beea44, 0x4bdecfa9, 0xf6bb4b60, 0xbebfbc70, 0x289b7ec6, 0xeaa127fa,
     0xd4ef3085, 0x04881d05, 0xd9d4d039, 0xe6db99e5, 0x1fa27cf8, 0xc4ac5665,
     0xf4292244, 0x432aff97, 0xab9423a7, 0xfc93a039, 0x655b59c3, 0x8f0ccc92,
     0xffeff47d, 0x85845dd1, 0x6fa87e4f, 0xfe2ce6e0, 0xa3014314, 0x4e0811a1,
     0xf7537e82, 0xbd3af235, 0x2ad7d2bb, 0xeb86d391]"

definition md5_round :: "tuint list \<Rightarrow> nat \<Rightarrow> regs4 \<Rightarrow> regs4" where
  "md5_round X i = (\<lambda>(a, b, c, d).
     (d, b + CMD_R (a + md5_function i b c d + X ! md5_index i + md5_table ! i) (md5_shift i), b, c))"

definition md5_compress :: "tuint list \<Rightarrow> tuint list \<Rightarrow> tuint list" where
  "md5_compress h X = (let (a, b, c, d) = fold (md5_round X) [0..<64] (h ! 0, h ! 1, h ! 2, h ! 3)
     in [h ! 0 + a, h ! 1 + b, h ! 2 + c, h ! 3 + d])"

definition md4_function :: "nat \<Rightarrow> tuint \<Rightarrow> tuint \<Rightarrow> tuint \<Rightarrow> tuint" where
  "md4_function i = (if i < 16 then CMD4_F else if i < 32 then CMD4_G else CMD4_H)"

definition md4_index :: "nat \<Rightarrow> nat" where
  "md4_index i = (if i < 16 then i else if i < 32 then 4 * (i mod 4) + (i - 16) div 4
     else [0, 8, 4, 12, 2, 10, 6, 14, 1, 9, 5, 13, 3, 11, 7, 15] ! (i - 32))"

definition md4_shift :: "nat \<Rightarrow> nat" where
  "md4_shift i = [[3, 7, 11, 19], [3, 5, 9, 13], [3, 9, 11, 15]] ! (i div 16) ! (i mod 4)"

definition md4_constant :: "nat \<Rightarrow> tuint" where
  "md4_constant i = (if i < 16 then 0 else if i < 32 then 0x5a827999 else 0x6ed9eba1)"

definition md4_round :: "tuint list \<Rightarrow> nat \<Rightarrow> regs4 \<Rightarrow> regs4" where
  "md4_round X i = (\<lambda>(a, b, c, d).
     (d, CMD_R (a + md4_function i b c d + X ! md4_index i + md4_constant i) (md4_shift i), b, c))"

definition md4_compress :: "tuint list \<Rightarrow> tuint list \<Rightarrow> tuint list" where
  "md4_compress h X = (let (a, b, c, d) = fold (md4_round X) [0..<48] (h ! 0, h ! 1, h ! 2, h ! 3)
     in [h ! 0 + a, h ! 1 + b, h ! 2 + c, h ! 3 + d])"

subsection \<open>The calls compute the loops\<close>

lemma upto_48: "[0..<48] = [0, 1, 2, 3, 4, 5, 6, 7, 8, 9, 10, 11, 12, 13, 14, 15, 16, 17, 18, 19, 20, 21, 22, 23, 24, 25, 26, 27, 28, 29, 30, 31, 32, 33, 34, 35, 36, 37, 38, 39, 40, 41, 42, 43, 44, 45, 46, 47]"
  and upto_64: "[0..<64] = [0, 1, 2, 3, 4, 5, 6, 7, 8, 9, 10, 11, 12, 13, 14, 15, 16, 17, 18, 19, 20, 21, 22, 23, 24, 25, 26, 27, 28, 29, 30, 31,
     32, 33, 34, 35, 36, 37, 38, 39, 40, 41, 42, 43, 44, 45, 46, 47, 48, 49, 50, 51, 52, 53, 54, 55, 56, 57, 58, 59, 60, 61, 62, 63]"
  by code_simp+

definition view4 :: "nat \<Rightarrow> tuint list \<Rightarrow> regs4" where
  "view4 i v = (v ! reg 4 i 0, v ! reg 4 i 1, v ! reg 4 i 2, v ! reg 4 i 3)"

lemma reg4_cases:
  "i mod 4 = 0 \<Longrightarrow> reg 4 i 0 = 0 \<and> reg 4 i 1 = 1 \<and> reg 4 i 2 = 2 \<and> reg 4 i 3 = 3"
  "i mod 4 = 1 \<Longrightarrow> reg 4 i 0 = 3 \<and> reg 4 i 1 = 0 \<and> reg 4 i 2 = 1 \<and> reg 4 i 3 = 2"
  "i mod 4 = 2 \<Longrightarrow> reg 4 i 0 = 2 \<and> reg 4 i 1 = 3 \<and> reg 4 i 2 = 0 \<and> reg 4 i 3 = 1"
  "i mod 4 = 3 \<Longrightarrow> reg 4 i 0 = 1 \<and> reg 4 i 1 = 2 \<and> reg 4 i 2 = 3 \<and> reg 4 i 3 = 0"
  by (simp_all add: reg_def)

lemma view4_update:
  assumes "length v = 4"
  shows "view4 (Suc i) (v[reg 4 i 0 := x]) = (v ! reg 4 i 3, x, v ! reg 4 i 1, v ! reg 4 i 2)"
proof -
  have "i mod 4 < 4" by simp
  then have "i mod 4 = 0 \<or> i mod 4 = 1 \<or> i mod 4 = 2 \<or> i mod 4 = 3" by (rule less_4_cases)
  then show ?thesis
    by (elim disjE) (use assms in \<open>simp_all add: view4_def reg4_cases reg4_cases [unfolded One_nat_def] mod_Suc\<close>)
qed

definition md5_line :: "nat \<Rightarrow> md5_round \<times> nat \<times> nat \<times> nat \<times> nat \<times> nat \<times> nat \<times> tuint" where
  "md5_line i = (if i < 16 then CMD5_FF else if i < 32 then CMD5_GG else if i < 48 then CMD5_HH else CMD5_II,
     reg 4 i 0, reg 4 i 1, reg 4 i 2, reg 4 i 3, md5_index i, md5_shift i, md5_table ! i)"

lemma md5_calls_lines: "md5_calls = map md5_line [0..<64]"
  by (simp add: md5_calls_def upto_64 md5_line_def md5_index_def md5_shift_def md5_table_def reg_def)

definition md4_line :: "nat \<Rightarrow> md4_round \<times> nat \<times> nat \<times> nat \<times> nat \<times> nat \<times> nat" where
  "md4_line i = (if i < 16 then CMD4_FF else if i < 32 then CMD4_GG else CMD4_HH,
     reg 4 i 0, reg 4 i 1, reg 4 i 2, reg 4 i 3, md4_index i, md4_shift i)"

lemma md4_calls_lines: "md4_calls = map md4_line [0..<48]"
  by (simp add: md4_calls_def upto_48 md4_line_def md4_index_def md4_shift_def reg_def)

lemma md5_call_view:
  assumes "i < 64" and "length v = 4"
  shows "view4 (Suc i) (md5_call d v (md5_line i)) = md5_round d i (view4 i v)"
  using view4_update [OF assms(2)] assms(1)
  by (simp add: md5_call_def md5_line_def md5_round_def view4_def md5_function_def
      CMD5_FF_def CMD5_GG_def CMD5_HH_def CMD5_II_def add.assoc)

lemma md4_call_view:
  assumes "i < 48" and "length v = 4"
  shows "view4 (Suc i) (md4_call d v (md4_line i)) = md4_round d i (view4 i v)"
  using view4_update [OF assms(2)] assms(1)
  by (simp add: md4_call_def md4_line_def md4_round_def view4_def md4_function_def md4_constant_def
      CMD4_FF_def CMD4_GG_def CMD4_HH_def add.assoc)

lemma view4_ends: "view4 0 v = (v ! 0, v ! 1, v ! 2, v ! 3)" "view4 64 v = (v ! 0, v ! 1, v ! 2, v ! 3)"
    "view4 48 v = (v ! 0, v ! 1, v ! 2, v ! 3)"
  by (simp_all add: view4_def reg_def)

lemma map2_add_4:
  assumes "length h = 4" "length v = 4"
  shows "map2 (+) h v = [h ! 0 + v ! 0, h ! 1 + v ! 1, h ! 2 + v ! 2, h ! 3 + (v ! 3 :: tuint)]"
proof -
  obtain a b c d where "h = [a, b, c, d]" using assms(1) by (rule length_4_cases)
  moreover obtain p q r s where "v = [p, q, r, s]" using assms(2) by (rule length_4_cases)
  ultimately show ?thesis by simp
qed

lemma MD5_Block_compress:
  assumes "length (iRegs s) = 4" and "length (iData s) = 16"
  shows "MD5_Block s = s\<lparr>iRegs := md5_compress (iRegs s) (take 16 (iData s))\<rparr>"
proof -
  let ?v = "foldl (md5_call (iData s)) (iRegs s) md5_calls"
  have "length ?v = 4 \<and> view4 64 ?v = fold (md5_round (iData s)) [0..<64] (view4 0 (iRegs s))"
    unfolding md5_calls_lines
    by (rule unrolled_loop [where P = "\<lambda>_ v. length v = 4"])
      (use assms in \<open>simp_all add: md5_call_view, simp add: md5_call_def md5_line_def\<close>)
  then have l: "length ?v = 4" and f: "fold (md5_round (iData s)) [0..<64] (iRegs s ! 0, iRegs s ! 1, iRegs s ! 2, iRegs s ! 3) =
      (?v ! 0, ?v ! 1, ?v ! 2, ?v ! 3)"
    by (simp_all only: view4_ends)
  have "md5_compress (iRegs s) (iData s) = map2 (+) (iRegs s) ?v"
    by (simp only: md5_compress_def f Let_def prod.case map2_add_4 [OF assms(1) l])
  then show ?thesis
    using assms(2) by (simp add: MD5_Block_def)
qed

lemma MD4_Block_compress:
  assumes "length (iRegs s) = 4" and "length (iData s) = 16"
  shows "MD4_Block s = s\<lparr>iRegs := md4_compress (iRegs s) (take 16 (iData s))\<rparr>"
proof -
  let ?v = "foldl (md4_call (iData s)) (iRegs s) md4_calls"
  have "length ?v = 4 \<and> view4 48 ?v = fold (md4_round (iData s)) [0..<48] (view4 0 (iRegs s))"
    unfolding md4_calls_lines
    by (rule unrolled_loop [where P = "\<lambda>_ v. length v = 4"])
      (use assms in \<open>simp_all add: md4_call_view, simp add: md4_call_def md4_line_def\<close>)
  then have l: "length ?v = 4" and f: "fold (md4_round (iData s)) [0..<48] (iRegs s ! 0, iRegs s ! 1, iRegs s ! 2, iRegs s ! 3) =
      (?v ! 0, ?v ! 1, ?v ! 2, ?v ! 3)"
    by (simp_all only: view4_ends)
  have "md4_compress (iRegs s) (iData s) = map2 (+) (iRegs s) ?v"
    by (simp only: md4_compress_def f Let_def prod.case map2_add_4 [OF assms(1) l])
  then show ?thesis
    using assms(2) by (simp add: MD4_Block_def)
qed

subsection \<open>The contract of the classes\<close>

definition md_initial :: "tuint list" where
  "md_initial = [0x67452301, 0xefcdab89, 0x98badcfe, 0x10325476]"

text \<open>The digests of RFC 1321 and RFC 1320.\<close>

definition rfc1321 :: "byte list \<Rightarrow> byte list" where
  "rfc1321 m = concat (map little_bytes
     (merkle_damgard 64 4 (\<lambda>h xs. md5_compress h (words_of sh_little 4 xs)) md_initial little_length_bytes m))"

definition rfc1320 :: "byte list \<Rightarrow> byte list" where
  "rfc1320 m = concat (map little_bytes
     (merkle_damgard 64 4 (\<lambda>h xs. md4_compress h (words_of sh_little 4 xs)) md_initial little_length_bytes m))"

interpretation md5: word_class sh_little little_length little_bytes MD5_Block 16 4 "2 ^ 29" md5_compress
  md_initial little_length_bytes 16 MD5_DoUpdate
proof
  show "\<exists>d. length d = 16 \<and> MD5_Block s = s\<lparr>iRegs := md5_compress (iRegs s) (take 16 (iData s)), iData := d\<rparr>"
    if "length (iData s) = 16" "length (iRegs s) = 4" for s
    using MD5_Block_compress [OF that(2,1)] that(1) by (intro exI [of _ "iData s"]) simp
  show "length (md5_compress h ws) = 4" for h ws by (simp add: md5_compress_def split: prod.split)
qed (use little_length_ok in \<open>simp_all add: spaced_little md_initial_def MD5_DoUpdate_def\<close>)

interpretation md4: word_class sh_little little_length little_bytes MD4_Block 16 4 "2 ^ 29" md4_compress
  md_initial little_length_bytes 16 MD4_DoUpdate
proof
  show "\<exists>d. length d = 16 \<and> MD4_Block s = s\<lparr>iRegs := md4_compress (iRegs s) (take 16 (iData s)), iData := d\<rparr>"
    if "length (iData s) = 16" "length (iRegs s) = 4" for s
    using MD4_Block_compress [OF that(2,1)] that(1) by (intro exI [of _ "iData s"]) simp
  show "length (md4_compress h ws) = 4" for h ws by (simp add: md4_compress_def split: prod.split)
qed (use little_length_ok in \<open>simp_all add: spaced_little md_initial_def MD4_DoUpdate_def\<close>)

end
