(* ===== verification/Sha1.thy ===== *)
theory Sha1
  imports Rounds
begin

section \<open>\<open>CSHA1\<close> (\<open>sha1.cpp\<close>)\<close>

text \<open>
  Of the variants of \<open>Block\<close> the one the build selects is modelled: \<open>EXPANDLOOP\<close> is defined
  at the top of the file, \<open>MACRO\<close> and \<open>WEIDAI\<close> nowhere.  The six working registers
  \<open>tempA\<close> to \<open>tempE\<close> and \<open>temp\<close> are the entries 0 to 5 of a list; the schedule overwrites
  \<open>iData[16..79]\<close> in place.  \<open>sha1_compress\<close> is the algorithm of FIPS 180 with the schedule
  computed first.  \<open>DoUpdate\<close> takes whole words while the buffer is aligned and bytes
  otherwise; it is shown equal to the update byte by byte.
\<close>

definition CSHA1_F :: "tuint \<Rightarrow> tuint \<Rightarrow> tuint \<Rightarrow> tuint" where "CSHA1_F x y z = (x AND y) OR (NOT x AND z)"
definition CSHA1_G :: "tuint \<Rightarrow> tuint \<Rightarrow> tuint \<Rightarrow> tuint" where "CSHA1_G x y z = x XOR y XOR z"
definition CSHA1_H :: "tuint \<Rightarrow> tuint \<Rightarrow> tuint \<Rightarrow> tuint" where "CSHA1_H x y z = (x AND y) OR (x AND z) OR (y AND z)"

type_synonym sha1_work = "tuint list \<times> tuint list"

definition CSHA1_16 :: "nat \<Rightarrow> nat \<Rightarrow> nat \<Rightarrow> nat \<Rightarrow> nat \<Rightarrow> nat \<Rightarrow> nat \<Rightarrow> sha1_work \<Rightarrow> sha1_work" where
  "CSHA1_16 x y z u t v w = (\<lambda>(r, d).
     let r = r[v := CMD_R (r ! x) 5 + CSHA1_F (r ! y) (r ! z) (r ! u) + r ! t + d ! w + 0x5a827999];
         r = r[y := CMD_R (r ! y) 30]
     in (r[t := r ! v], d))"

definition schedule_word :: "nat \<Rightarrow> nat \<Rightarrow> nat \<Rightarrow> nat \<Rightarrow> nat \<Rightarrow> nat \<Rightarrow> sha1_work \<Rightarrow> sha1_work" where
  "schedule_word v w0 w3 w8 w14 w16 = (\<lambda>(r, d).
     let r = r[v := d ! w3 XOR d ! w8 XOR d ! w14 XOR d ! w16] in (r, d[w0 := CMD_R (r ! v) 1]))"

definition CSHA1_20 :: "nat \<Rightarrow> nat \<Rightarrow> nat \<Rightarrow> nat \<Rightarrow> nat \<Rightarrow> nat \<Rightarrow> nat \<Rightarrow> nat \<Rightarrow> nat \<Rightarrow> nat \<Rightarrow> nat \<Rightarrow> sha1_work \<Rightarrow> sha1_work" where
  "CSHA1_20 x y z u t v w0 w3 w8 w14 w16 work = CSHA1_16 x y z u t v w0 (schedule_word v w0 w3 w8 w14 w16 work)"

definition CSHA1_40 :: "nat \<Rightarrow> nat \<Rightarrow> nat \<Rightarrow> nat \<Rightarrow> nat \<Rightarrow> nat \<Rightarrow> nat \<Rightarrow> nat \<Rightarrow> nat \<Rightarrow> nat \<Rightarrow> nat \<Rightarrow> sha1_work \<Rightarrow> sha1_work" where
  "CSHA1_40 x y z u t v w0 w3 w8 w14 w16 work =
     (let (r, d) = schedule_word v w0 w3 w8 w14 w16 work;
          r = r[v := CMD_R (r ! x) 5 + CSHA1_G (r ! y) (r ! z) (r ! u) + r ! t + d ! w0 + 0x6ed9eba1];
          r = r[y := CMD_R (r ! y) 30]
      in (r[t := r ! v], d))"

definition CSHA1_60 :: "nat \<Rightarrow> nat \<Rightarrow> nat \<Rightarrow> nat \<Rightarrow> nat \<Rightarrow> nat \<Rightarrow> nat \<Rightarrow> nat \<Rightarrow> nat \<Rightarrow> nat \<Rightarrow> nat \<Rightarrow> sha1_work \<Rightarrow> sha1_work" where
  "CSHA1_60 x y z u t v w0 w3 w8 w14 w16 work =
     (let (r, d) = schedule_word v w0 w3 w8 w14 w16 work;
          r = r[v := CMD_R (r ! x) 5 + CSHA1_H (r ! y) (r ! z) (r ! u) + r ! t + d ! w0 + 0x8f1bbcdc];
          r = r[y := CMD_R (r ! y) 30]
      in (r[t := r ! v], d))"

definition CSHA1_80 :: "nat \<Rightarrow> nat \<Rightarrow> nat \<Rightarrow> nat \<Rightarrow> nat \<Rightarrow> nat \<Rightarrow> nat \<Rightarrow> nat \<Rightarrow> nat \<Rightarrow> nat \<Rightarrow> nat \<Rightarrow> sha1_work \<Rightarrow> sha1_work" where
  "CSHA1_80 x y z u t v w0 w3 w8 w14 w16 work =
     (let (r, d) = schedule_word v w0 w3 w8 w14 w16 work;
          r = r[v := CMD_R (r ! x) 5 + CSHA1_G (r ! y) (r ! z) (r ! u) + r ! t + d ! w0 + 0xca62c1d6];
          r = r[y := CMD_R (r ! y) 30]
      in (r[t := r ! v], d))"

definition sha1_calls :: "(sha1_work \<Rightarrow> sha1_work) list" where
  "sha1_calls = [
     CSHA1_16 0 1 2 3 4 5 0, CSHA1_16 5 0 1 2 3 4 1,
     CSHA1_16 4 5 0 1 2 3 2, CSHA1_16 3 4 5 0 1 2 3,
     CSHA1_16 2 3 4 5 0 1 4, CSHA1_16 1 2 3 4 5 0 5,
     CSHA1_16 0 1 2 3 4 5 6, CSHA1_16 5 0 1 2 3 4 7,
     CSHA1_16 4 5 0 1 2 3 8, CSHA1_16 3 4 5 0 1 2 9,
     CSHA1_16 2 3 4 5 0 1 10, CSHA1_16 1 2 3 4 5 0 11,
     CSHA1_16 0 1 2 3 4 5 12, CSHA1_16 5 0 1 2 3 4 13,
     CSHA1_16 4 5 0 1 2 3 14, CSHA1_16 3 4 5 0 1 2 15,
     CSHA1_20 2 3 4 5 0 1 16 13 8 2 0, CSHA1_20 1 2 3 4 5 0 17 14 9 3 1,
     CSHA1_20 0 1 2 3 4 5 18 15 10 4 2, CSHA1_20 5 0 1 2 3 4 19 16 11 5 3,
     CSHA1_40 4 5 0 1 2 3 20 17 12 6 4, CSHA1_40 3 4 5 0 1 2 21 18 13 7 5,
     CSHA1_40 2 3 4 5 0 1 22 19 14 8 6, CSHA1_40 1 2 3 4 5 0 23 20 15 9 7,
     CSHA1_40 0 1 2 3 4 5 24 21 16 10 8, CSHA1_40 5 0 1 2 3 4 25 22 17 11 9,
     CSHA1_40 4 5 0 1 2 3 26 23 18 12 10, CSHA1_40 3 4 5 0 1 2 27 24 19 13 11,
     CSHA1_40 2 3 4 5 0 1 28 25 20 14 12, CSHA1_40 1 2 3 4 5 0 29 26 21 15 13,
     CSHA1_40 0 1 2 3 4 5 30 27 22 16 14, CSHA1_40 5 0 1 2 3 4 31 28 23 17 15,
     CSHA1_40 4 5 0 1 2 3 32 29 24 18 16, CSHA1_40 3 4 5 0 1 2 33 30 25 19 17,
     CSHA1_40 2 3 4 5 0 1 34 31 26 20 18, CSHA1_40 1 2 3 4 5 0 35 32 27 21 19,
     CSHA1_40 0 1 2 3 4 5 36 33 28 22 20, CSHA1_40 5 0 1 2 3 4 37 34 29 23 21,
     CSHA1_40 4 5 0 1 2 3 38 35 30 24 22, CSHA1_40 3 4 5 0 1 2 39 36 31 25 23,
     CSHA1_60 2 3 4 5 0 1 40 37 32 26 24, CSHA1_60 1 2 3 4 5 0 41 38 33 27 25,
     CSHA1_60 0 1 2 3 4 5 42 39 34 28 26, CSHA1_60 5 0 1 2 3 4 43 40 35 29 27,
     CSHA1_60 4 5 0 1 2 3 44 41 36 30 28, CSHA1_60 3 4 5 0 1 2 45 42 37 31 29,
     CSHA1_60 2 3 4 5 0 1 46 43 38 32 30, CSHA1_60 1 2 3 4 5 0 47 44 39 33 31,
     CSHA1_60 0 1 2 3 4 5 48 45 40 34 32, CSHA1_60 5 0 1 2 3 4 49 46 41 35 33,
     CSHA1_60 4 5 0 1 2 3 50 47 42 36 34, CSHA1_60 3 4 5 0 1 2 51 48 43 37 35,
     CSHA1_60 2 3 4 5 0 1 52 49 44 38 36, CSHA1_60 1 2 3 4 5 0 53 50 45 39 37,
     CSHA1_60 0 1 2 3 4 5 54 51 46 40 38, CSHA1_60 5 0 1 2 3 4 55 52 47 41 39,
     CSHA1_60 4 5 0 1 2 3 56 53 48 42 40, CSHA1_60 3 4 5 0 1 2 57 54 49 43 41,
     CSHA1_60 2 3 4 5 0 1 58 55 50 44 42, CSHA1_60 1 2 3 4 5 0 59 56 51 45 43,
     CSHA1_80 0 1 2 3 4 5 60 57 52 46 44, CSHA1_80 5 0 1 2 3 4 61 58 53 47 45,
     CSHA1_80 4 5 0 1 2 3 62 59 54 48 46, CSHA1_80 3 4 5 0 1 2 63 60 55 49 47,
     CSHA1_80 2 3 4 5 0 1 64 61 56 50 48, CSHA1_80 1 2 3 4 5 0 65 62 57 51 49,
     CSHA1_80 0 1 2 3 4 5 66 63 58 52 50, CSHA1_80 5 0 1 2 3 4 67 64 59 53 51,
     CSHA1_80 4 5 0 1 2 3 68 65 60 54 52, CSHA1_80 3 4 5 0 1 2 69 66 61 55 53,
     CSHA1_80 2 3 4 5 0 1 70 67 62 56 54, CSHA1_80 1 2 3 4 5 0 71 68 63 57 55,
     CSHA1_80 0 1 2 3 4 5 72 69 64 58 56, CSHA1_80 5 0 1 2 3 4 73 70 65 59 57,
     CSHA1_80 4 5 0 1 2 3 74 71 66 60 58, CSHA1_80 3 4 5 0 1 2 75 72 67 61 59,
     CSHA1_80 2 3 4 5 0 1 76 73 68 62 60, CSHA1_80 1 2 3 4 5 0 77 74 69 63 61,
     CSHA1_80 0 1 2 3 4 5 78 75 70 64 62, CSHA1_80 5 0 1 2 3 4 79 76 71 65 63]"

definition SHA1_Block :: "word_state \<Rightarrow> word_state" where
  "SHA1_Block s =
     (let (r, d) = foldl (\<lambda>work c. c work) (iRegs s @ [0], iData s) sha1_calls
      in s\<lparr>iRegs := map2 (+) (iRegs s) [r ! 4, r ! 5, r ! 0, r ! 1, r ! 2], iData := d\<rparr>)"

text \<open>The two loops of \<open>DoUpdate\<close>.\<close>

fun SHA1_words :: "word_state \<Rightarrow> byte list \<Rightarrow> word_state \<times> byte list" where
  "SHA1_words s (a # b # c # d # aData) =
     (if iNl s mod 4 = 0 then
        SHA1_words (end_block SHA1_Block (s\<lparr>iData := (iData s)[iNl s div 4 :=
          push_bit 24 (ucast a) OR push_bit 16 (ucast b) OR push_bit 8 (ucast c) OR ucast d], iNl := iNl s + 4\<rparr>)) aData
      else (s, a # b # c # d # aData))"
| "SHA1_words s aData = (s, aData)"

definition SHA1_DoUpdate :: "word_state \<Rightarrow> byte list \<Rightarrow> word_state result" where
  "SHA1_DoUpdate s aData = (let (s, aData) = SHA1_words s aData
     in Ok (foldl (byte_step sh_big SHA1_Block) s aData))"

definition SHA1_DoFinal :: "word_state \<Rightarrow> word_state result" where
  "SHA1_DoFinal s = Ok (DoFinal sh_big big_length big_bytes SHA1_Block s)"

definition sha1_initial :: "tuint list" where
  "sha1_initial = [0x67452301, 0xefcdab89, 0x98badcfe, 0x10325476, 0xc3d2e1f0]"

definition SHA1_Reset :: "word_state \<Rightarrow> word_state" where
  "SHA1_Reset s = s\<lparr>iRegs := sha1_initial, iNh := 0, iNl := 0\<rparr>"

definition SHA1_ops :: "word_state digest_ops" where
  "SHA1_ops = class_ops 64 20 SHA1_DoUpdate SHA1_DoFinal SHA1_Reset 20 (fresh_words 80 5)"

definition SHA1_NewL :: word_state where "SHA1_NewL = SHA1_Reset (fresh_words 80 5)"

subsection \<open>The algorithm of the standard\<close>

type_synonym regs5 = "tuint \<times> tuint \<times> tuint \<times> tuint \<times> tuint"

definition sha1_function :: "nat \<Rightarrow> tuint \<Rightarrow> tuint \<Rightarrow> tuint \<Rightarrow> tuint" where
  "sha1_function i = (if i < 20 then CSHA1_F else if i < 40 then CSHA1_G else if i < 60 then CSHA1_H else CSHA1_G)"

definition sha1_constant :: "nat \<Rightarrow> tuint" where
  "sha1_constant i = (if i < 20 then 0x5a827999 else if i < 40 then 0x6ed9eba1 else if i < 60 then 0x8f1bbcdc else 0xca62c1d6)"

definition sha1_new_word :: "(nat \<Rightarrow> tuint) \<Rightarrow> tuint" where
  "sha1_new_word w = CMD_R (w 3 XOR w 8 XOR w 14 XOR w 16) 1"

definition sha1_round :: "tuint list \<Rightarrow> nat \<Rightarrow> regs5 \<Rightarrow> regs5" where
  "sha1_round W i = (\<lambda>(a, b, c, d, e).
     (CMD_R a 5 + sha1_function i b c d + e + W ! i + sha1_constant i, a, CMD_R b 30, c, d))"

definition sha1_compress :: "tuint list \<Rightarrow> tuint list \<Rightarrow> tuint list" where
  "sha1_compress h X =
     (let W = schedule sha1_new_word X 64;
          (a, b, c, d, e) = fold (sha1_round W) [0..<80] (h ! 0, h ! 1, h ! 2, h ! 3, h ! 4)
      in [h ! 0 + a, h ! 1 + b, h ! 2 + c, h ! 3 + d, h ! 4 + e])"

definition fips180_sha1 :: "byte list \<Rightarrow> byte list" where
  "fips180_sha1 m = concat (map big_bytes
     (merkle_damgard 64 4 (\<lambda>h xs. sha1_compress h (words_of sh_big 4 xs)) sha1_initial big_length_bytes m))"

subsection \<open>The calls compute the rounds\<close>

lemma upto_80: "[0..<80] = [0, 1, 2, 3, 4, 5, 6, 7, 8, 9, 10, 11, 12, 13, 14, 15, 16, 17, 18, 19, 20, 21, 22, 23,
     24, 25, 26, 27, 28, 29, 30, 31, 32, 33, 34, 35, 36, 37, 38, 39, 40, 41, 42, 43, 44, 45, 46, 47,
     48, 49, 50, 51, 52, 53, 54, 55, 56, 57, 58, 59, 60, 61, 62, 63, 64, 65, 66, 67, 68, 69, 70, 71,
     72, 73, 74, 75, 76, 77, 78, 79]"
  by code_simp

definition sha1_line :: "nat \<Rightarrow> sha1_work \<Rightarrow> sha1_work" where
  "sha1_line i =
     (if i < 16 then CSHA1_16 (reg 6 i 0) (reg 6 i 1) (reg 6 i 2) (reg 6 i 3) (reg 6 i 4) (reg 6 i 5) i
      else (if i < 20 then CSHA1_20 else if i < 40 then CSHA1_40 else if i < 60 then CSHA1_60 else CSHA1_80)
        (reg 6 i 0) (reg 6 i 1) (reg 6 i 2) (reg 6 i 3) (reg 6 i 4) (reg 6 i 5) i (i - 3) (i - 8) (i - 14) (i - 16))"

lemma sha1_calls_lines: "sha1_calls = map sha1_line [0..<80]"
  by (simp add: sha1_calls_def upto_80 sha1_line_def reg_def numeral_2_eq_2 [symmetric])


definition view5 :: "nat \<Rightarrow> sha1_work \<Rightarrow> regs5" where
  "view5 i = (\<lambda>(r, d). (r ! reg 6 i 0, r ! reg 6 i 1, r ! reg 6 i 2, r ! reg 6 i 3, r ! reg 6 i 4))"

definition sha1_work_ok :: "tuint list \<Rightarrow> nat \<Rightarrow> sha1_work \<Rightarrow> bool" where
  "sha1_work_ok W i = (\<lambda>(r, d). length r = 6 \<and> length d = 80 \<and> (\<forall>j. j < 16 \<or> j < i \<longrightarrow> d ! j = W ! j))"

lemma view5_Suc:
  assumes "length r = 6"
  shows "view5 (Suc i) (r[reg 6 i 5 := p, reg 6 i 1 := q, reg 6 i 4 := p], d) =
    (p, r ! reg 6 i 0, q, r ! reg 6 i 2, r ! reg 6 i 3)"
  using assms reg_Suc [of 6 i] reg_Suc(1) [of 6 i 0] reg_Suc(1) [of 6 i 1] reg_Suc(1) [of 6 i 2] reg_Suc(1) [of 6 i 3]
  by (simp add: view5_def reg_less reg_eq nth_list_update numeral_eq_Suc)

lemma schedule_word_eq:
  assumes "sha1_work_ok W i (r, d)" and "16 \<le> i" "i < 80" "v < 6"
    and W: "W ! i = sha1_new_word (\<lambda>k. W ! (i - k))"
  shows "\<exists>q. schedule_word v i (i - 3) (i - 8) (i - 14) (i - 16) (r, d) = (r[v := q], d[i := W ! i])"
  using assms by (auto simp: schedule_word_def sha1_work_ok_def sha1_new_word_def)

lemma sha1_line_view:
  assumes ok: "sha1_work_ok W i (r, d)" and i: "i < 80"
    and W: "16 \<le> i \<Longrightarrow> W ! i = sha1_new_word (\<lambda>k. W ! (i - k))"
  shows "\<exists>d'. sha1_line i (r, d) = (r[reg 6 i 5 := fst (sha1_round W i (view5 i (r, d))), reg 6 i 1 := CMD_R (r ! reg 6 i 1) 30,
      reg 6 i 4 := fst (sha1_round W i (view5 i (r, d)))], d') \<and> sha1_work_ok W (Suc i) (r, d')"
proof (cases "i < 16")
  case True
  then show ?thesis using ok
    by (intro exI [of _ d]) (auto simp: sha1_line_def CSHA1_16_def sha1_round_def view5_def sha1_work_ok_def
        sha1_function_def sha1_constant_def reg_less reg_eq nth_list_update less_Suc_eq)
next
  case False
  then obtain q where q: "schedule_word (reg 6 i 5) i (i - 3) (i - 8) (i - 14) (i - 16) (r, d) = (r[reg 6 i 5 := q], d[i := W ! i])"
    using schedule_word_eq [OF ok _ i reg_less W] by auto
  have len: "length r = 6" "length d = 80" using ok by (simp_all add: sha1_work_ok_def)
  have "sha1_work_ok W (Suc i) (r, d[i := W ! i])"
    using ok i by (auto simp: sha1_work_ok_def nth_list_update less_Suc_eq)
  moreover have "sha1_line i (r, d) = (r[reg 6 i 5 := fst (sha1_round W i (view5 i (r, d))),
      reg 6 i 1 := CMD_R (r ! reg 6 i 1) 30, reg 6 i 4 := fst (sha1_round W i (view5 i (r, d)))], d[i := W ! i])"
    using False i len
    by (simp add: sha1_line_def CSHA1_20_def CSHA1_40_def CSHA1_60_def CSHA1_80_def CSHA1_16_def q
        sha1_round_def view5_def sha1_function_def sha1_constant_def reg_less reg_eq nth_list_update ac_simps)
  ultimately show ?thesis by blast
qed

lemma sha1_line_step:
  assumes "sha1_work_ok W i work" and "i < 80"
    and "16 \<le> i \<Longrightarrow> W ! i = sha1_new_word (\<lambda>k. W ! (i - k))"
  shows "sha1_work_ok W (Suc i) (sha1_line i work) \<and> view5 (Suc i) (sha1_line i work) = sha1_round W i (view5 i work)"
proof -
  obtain r d where work: "work = (r, d)" by fastforce
  obtain d' where d': "sha1_line i (r, d) = (r[reg 6 i 5 := fst (sha1_round W i (view5 i (r, d))),
      reg 6 i 1 := CMD_R (r ! reg 6 i 1) 30, reg 6 i 4 := fst (sha1_round W i (view5 i (r, d)))], d')"
      "sha1_work_ok W (Suc i) (r, d')"
    using sha1_line_view [OF assms(1) [unfolded work] assms(2,3)] by blast
  have "length r = 6" using assms(1) by (simp add: work sha1_work_ok_def)
  then have "view5 (Suc i) (sha1_line i (r, d)) = sha1_round W i (view5 i (r, d))"
    using view5_Suc [of r i] by (simp add: d'(1) sha1_round_def view5_def)
  then show ?thesis using d' by (simp add: work sha1_work_ok_def)
qed

lemma sha1_schedule:
  assumes "length X = 16" and "16 \<le> i" "i < 80"
  shows "schedule sha1_new_word X 64 ! i = sha1_new_word (\<lambda>k. schedule sha1_new_word X 64 ! (i - k))"
  using schedule_new [of X "i - 16" 64 sha1_new_word] assms by (simp add: sha1_new_word_def)

lemma length_5_cases:
  assumes "length v = 5"
  shows "v = [v ! 0, v ! 1, v ! 2, v ! 3, v ! 4]"
  by (rule nth_equalityI) (use assms in \<open>auto simp: less_Suc_eq numeral_eq_Suc\<close>)

lemma SHA1_Block_compress:
  assumes "length (iRegs s) = 5" and "length (iData s) = 80"
  shows "\<exists>d. length d = 80 \<and> SHA1_Block s = s\<lparr>iRegs := sha1_compress (iRegs s) (take 16 (iData s)), iData := d\<rparr>"
proof -
  let ?X = "take 16 (iData s)"
  define W where "W = schedule sha1_new_word ?X 64"
  have X: "length ?X = 16" using assms(2) by simp
  have W: "16 \<le> i \<Longrightarrow> i < 80 \<Longrightarrow> W ! i = sha1_new_word (\<lambda>k. W ! (i - k))" for i
    using sha1_schedule [OF X] by (simp add: W_def)
  have start: "sha1_work_ok W 0 (iRegs s @ [0], iData s)"
    using assms schedule_nth [of _ ?X 0 64 sha1_new_word] X by (simp add: sha1_work_ok_def W_def)
  obtain r d where rd: "foldl (\<lambda>work c. c work) (iRegs s @ [0], iData s) (map sha1_line [0..<80]) = (r, d)"
    by fastforce
  have "sha1_work_ok W 80 (r, d) \<and> view5 80 (r, d) = fold (sha1_round W) [0..<80] (view5 0 (iRegs s @ [0], iData s))"
    unfolding rd [symmetric]
    by (rule unrolled_loop) (use W start sha1_line_step in simp_all)
  moreover have "view5 0 (iRegs s @ [0], iData s) = (iRegs s ! 0, iRegs s ! 1, iRegs s ! 2, iRegs s ! 3, iRegs s ! 4)"
    using assms(1) by (simp add: view5_def reg_def nth_append)
  moreover have "view5 80 (r, d) = (r ! 4, r ! 5, r ! 0, r ! 1, r ! 2)"
    by (simp add: view5_def reg_def)
  ultimately have f: "fold (sha1_round W) [0..<80] (iRegs s ! 0, iRegs s ! 1, iRegs s ! 2, iRegs s ! 3, iRegs s ! 4) =
      (r ! 4, r ! 5, r ! 0, r ! 1, r ! 2)" and d: "length d = 80"
    by (simp_all add: sha1_work_ok_def)
  have "sha1_compress (iRegs s) ?X = map2 (+) (iRegs s) [r ! 4, r ! 5, r ! 0, r ! 1, r ! 2]"
    by (subst (2) length_5_cases [OF assms(1)]) (simp only: sha1_compress_def W_def [symmetric] f Let_def prod.case, simp)
  then show ?thesis
    using d by (intro exI [of _ d]) (simp add: SHA1_Block_def sha1_calls_lines rd)
qed

interpretation sha1_block: word_block sh_big big_length big_bytes SHA1_Block 80 5 "2 ^ 29" sha1_compress
  sha1_initial big_length_bytes
proof
  show "\<exists>d. length d = 80 \<and> SHA1_Block s = s\<lparr>iRegs := sha1_compress (iRegs s) (take 16 (iData s)), iData := d\<rparr>"
    if "length (iData s) = 80" "length (iRegs s) = 5" for s
    using SHA1_Block_compress that by blast
  show "length (sha1_compress h ws) = 5" for h ws by (simp add: sha1_compress_def Let_def split: prod.split)
qed (use big_length_ok in \<open>simp_all add: spaced_big sha1_initial_def\<close>)

subsection \<open>Words and bytes\<close>

text \<open>An aligned word is the same as its four bytes.\<close>

lemma end_block_noop: "iNl s \<noteq> 64 \<Longrightarrow> end_block block s = s"
  by (simp add: end_block_def)

lemma four_steps:
  assumes "iNl s mod 4 = 0" and "iNl s < 64" and "iNl s div 4 < length (iData s)"
  shows "foldl (byte_step sh_big block) s [a, b, c, d] =
    end_block block (s\<lparr>iData := (iData s)[iNl s div 4 :=
      push_bit 24 (ucast a) OR push_bit 16 (ucast b) OR push_bit 8 (ucast c) OR ucast d], iNl := iNl s + 4\<rparr>)"
proof -
  obtain k where k: "iNl s = 4 * k" using assms(1) by auto
  have "k < 16" using assms(2) k by simp
  have four: "4 * k + 4 = Suc (Suc (Suc (Suc (4 * k))))" by simp
  have "Suc (4 * k) mod 4 = 1" "Suc (Suc (4 * k)) mod 4 = 2" "Suc (Suc (Suc (4 * k))) mod 4 = 3"
    "Suc (4 * k) div 4 = k" "Suc (Suc (4 * k)) div 4 = k" "Suc (Suc (Suc (4 * k))) div 4 = k"
    by presburger+
  then show ?thesis
    using assms(3) k \<open>k < 16\<close> by (simp add: byte_step_def end_block_noop put_byte_def sh_big_def or.assoc four)
qed

lemma SHA1_words_steps:
  "iNl s < 64 \<Longrightarrow> length (iData s) = 80 \<Longrightarrow> length (iRegs s) = 5 \<Longrightarrow>
    foldl (byte_step sh_big SHA1_Block) (fst (SHA1_words s xs)) (snd (SHA1_words s xs)) =
    foldl (byte_step sh_big SHA1_Block) s xs"
proof (induction s xs rule: SHA1_words.induct)
  case (1 s a b c d xs)
  show ?case
  proof (cases "iNl s mod 4 = 0")
    case True
    obtain t where t: "t = foldl (byte_step sh_big SHA1_Block) s [a, b, c, d]" by simp
    have four: "t = end_block SHA1_Block (s\<lparr>iData := (iData s)[iNl s div 4 :=
      push_bit 24 (ucast a) OR push_bit 16 (ucast b) OR push_bit 8 (ucast c) OR ucast d], iNl := iNl s + 4\<rparr>)"
      unfolding t by (rule four_steps) (use True 1(2,3) in simp_all)
    have "same_frame s t \<and> iNl t < 64"
      unfolding t by (rule sha1_block.steps_frame) (use 1(2-4) in simp_all)
    then have "foldl (byte_step sh_big SHA1_Block) (fst (SHA1_words t xs)) (snd (SHA1_words t xs)) =
        foldl (byte_step sh_big SHA1_Block) t xs"
      using 1(1) [OF True] 1(3,4) by (simp only: four [symmetric] same_frame_def)
    then show ?thesis using True by (simp add: four [symmetric]) (simp add: t)
  qed simp
qed simp_all

lemma SHA1_DoUpdate_bytes:
  "iNl s < 64 \<Longrightarrow> length (iData s) = 80 \<Longrightarrow> length (iRegs s) = 5 \<Longrightarrow>
    SHA1_DoUpdate s xs = Ok (foldl (byte_step sh_big SHA1_Block) s xs)"
  using SHA1_words_steps [of s xs] by (cases "SHA1_words s xs") (simp add: SHA1_DoUpdate_def)

interpretation sha1: word_class sh_big big_length big_bytes SHA1_Block 80 5 "2 ^ 29" sha1_compress
  sha1_initial big_length_bytes 20 SHA1_DoUpdate
  by unfold_locales (simp_all add: SHA1_DoUpdate_bytes)

end
