(* ===== verification/Sha2Buffer.thy ===== *)
theory Sha2Buffer
  imports Rounds
begin

section \<open>Buffer handling of \<open>CSHA224And256\<close> and \<open>CSHA384And512\<close>\<close>

text \<open>
  The two classes have the same functions, once over 32 bit words with a 64 bit counter and
  once over 64 bit words with a 128 bit counter.  They are written here over the number
  \<open>w\<close> of bytes in a word, \<open>AddLength\<close> and \<open>Block\<close>; unlike in the older digests, \<open>Block\<close>
  itself clears the index (\<open>iNl\<close> here; \<open>iBlockIndex\<close> in \<open>CSHA384And512\<close>) and the counter
  panics when it overflows.  The locale \<open>sha2_class\<close> shows the contract \<open>block_class\<close>.
\<close>

type_synonym ('w, 'c) sha2_state = "('w word, 'c) digest_state"

text \<open>\<open>(w - 1 - iNl & (w - 1)) << 3\<close>: the subtraction binds stronger than the mask.\<close>

definition sha2_shift :: "nat \<Rightarrow> nat \<Rightarrow> nat" where
  "sha2_shift w nl = 8 * nat ((int w - 1 - int nl) mod int w)"

definition sha2_put :: "nat \<Rightarrow> 'w :: len word list \<Rightarrow> nat \<Rightarrow> byte \<Rightarrow> 'w word list" where
  "sha2_put w d nl b =
     (let d = (if nl mod w = 0 then d[nl div w := 0] else d)
      in d[nl div w := d ! (nl div w) OR push_bit (sha2_shift w nl) (ucast b)])"

definition sha2_end_block ::
  "nat \<Rightarrow> (nat \<Rightarrow> 'c \<Rightarrow> 'c result) \<Rightarrow> (('w :: len, 'c) sha2_state \<Rightarrow> ('w, 'c) sha2_state) \<Rightarrow> ('w, 'c) sha2_state \<Rightarrow> ('w, 'c) sha2_state result" where
  "sha2_end_block w addLength block s =
     (if iNl s = 16 * w then
        (let s = block s in bindL (addLength (16 * w) (iNh s)) (\<lambda>n. Ok (s\<lparr>iNh := n\<rparr>)))
      else Ok s)"

definition sha2_byte ::
  "nat \<Rightarrow> (nat \<Rightarrow> 'c \<Rightarrow> 'c result) \<Rightarrow> (('w :: len, 'c) sha2_state \<Rightarrow> ('w, 'c) sha2_state) \<Rightarrow> ('w, 'c) sha2_state \<Rightarrow> byte \<Rightarrow> ('w, 'c) sha2_state result" where
  "sha2_byte w addLength block s b =
     sha2_end_block w addLength block (s\<lparr>iData := sha2_put w (iData s) (iNl s) b, iNl := iNl s + 1\<rparr>)"

text \<open>\<open>MakeWord\<close> and \<open>Make64BitWord\<close>.\<close>

definition MakeWord :: "nat \<Rightarrow> byte list \<Rightarrow> 'w :: len word" where
  "MakeWord w aData = foldr (OR) (map (\<lambda>t. push_bit (8 * (w - 1 - t)) (ucast (aData ! t))) [0..<w]) 0"

function sha2_words ::
  "nat \<Rightarrow> (nat \<Rightarrow> 'c \<Rightarrow> 'c result) \<Rightarrow> (('w :: len, 'c) sha2_state \<Rightarrow> ('w, 'c) sha2_state) \<Rightarrow> ('w, 'c) sha2_state \<Rightarrow> byte list \<Rightarrow> (('w, 'c) sha2_state \<times> byte list) result" where
  "sha2_words w addLength block s aData =
     (if 0 < w \<and> length aData div w > 0 \<and> iNl s mod w = 0 then
        bindL (sha2_end_block w addLength block
            (s\<lparr>iData := (iData s)[iNl s div w := MakeWord w aData], iNl := iNl s + w\<rparr>))
          (\<lambda>s. sha2_words w addLength block s (drop w aData))
      else Ok (s, aData))"
  by pat_completeness auto
termination
  by (relation "measure (\<lambda>(w, _, _, _, aData). length aData)") (auto simp: div_greater_zero_iff)

declare sha2_words.simps [simp del]

definition sha2_Update ::
  "nat \<Rightarrow> (nat \<Rightarrow> 'c \<Rightarrow> 'c result) \<Rightarrow> (('w :: len, 'c) sha2_state \<Rightarrow> ('w, 'c) sha2_state) \<Rightarrow> ('w, 'c) sha2_state \<Rightarrow> byte list \<Rightarrow> ('w, 'c) sha2_state result" where
  "sha2_Update w addLength block s aData =
     bindL (sha2_words w addLength block s aData) (\<lambda>(s, aData). update_bytes (sha2_byte w addLength block) s aData)"

definition sha2_make_room ::
  "nat \<Rightarrow> (('w :: len, 'c) sha2_state \<Rightarrow> ('w, 'c) sha2_state) \<Rightarrow> ('w, 'c) sha2_state \<Rightarrow> ('w, 'c) sha2_state" where
  "sha2_make_room w block s =
     (if iNl s \<ge> 16 * w - 2 * w then
        (let s = (if iNl s < 16 * w - w then s\<lparr>iData := (iData s)[15 := 0]\<rparr> else s);
             s = block s
         in s\<lparr>iData := FillZ (iData s) 0 16\<rparr>)
      else (let offset = (iNl s + w) div w in s\<lparr>iData := FillZ (iData s) offset 16\<rparr>))"

definition sha2_PadMessage ::
  "nat \<Rightarrow> ('c \<Rightarrow> 'w :: len word \<times> 'w word) \<Rightarrow> (('w, 'c) sha2_state \<Rightarrow> ('w, 'c) sha2_state) \<Rightarrow> ('w, 'c) sha2_state \<Rightarrow> ('w, 'c) sha2_state" where
  "sha2_PadMessage w lengthWords block s =
     (let s = s\<lparr>iData := sha2_put w (iData s) (iNl s) 0x80\<rparr>;
          s = sha2_make_room w block s
      in s\<lparr>iData := (iData s)[14 := fst (lengthWords (iNh s)), 15 := snd (lengthWords (iNh s))]\<rparr>)"

text \<open>
  \<open>CopyWordToHash\<close> reverses the bytes of a word with \<open>MakeWord\<close> and copies its memory, which
  on the little endian target leaves the bytes of the word most significant first.
\<close>

definition CopyWordToHash :: "nat \<Rightarrow> 'w :: len word \<Rightarrow> byte list" where
  "CopyWordToHash w aVal = map (\<lambda>t. ucast (drop_bit (8 * (w - 1 - t)) aVal)) [0..<w]"

definition sha2_Final ::
  "nat \<Rightarrow> (nat \<Rightarrow> 'c \<Rightarrow> 'c result) \<Rightarrow> ('c \<Rightarrow> 'w :: len word \<times> 'w word) \<Rightarrow> (('w, 'c) sha2_state \<Rightarrow> ('w, 'c) sha2_state) \<Rightarrow> ('w, 'c) sha2_state \<Rightarrow> ('w, 'c) sha2_state result" where
  "sha2_Final w addLength lengthWords block s =
     bindL (addLength (iNl s) (iNh s)) (\<lambda>n.
       let s = sha2_PadMessage w lengthWords block (s\<lparr>iNh := n\<rparr>);
           s = block s
       in Ok (s\<lparr>iHash := concat (map (CopyWordToHash w) (iRegs s))\<rparr>))"

subsection \<open>Correctness of the buffer handling\<close>

definition sh_sha2 :: "nat \<Rightarrow> nat \<Rightarrow> nat" where
  "sh_sha2 w t = 8 * (w - 1 - t)"

lemma sha2_shift_mod: "0 < w \<Longrightarrow> sha2_shift w nl = sh_sha2 w (nl mod w)"
proof -
  assume w: "0 < w"
  then have "nl mod w < w" by simp
  have "(int w - 1 - int nl) mod int w = (int w - 1 - int nl mod int w) mod int w"
    by (simp add: mod_diff_right_eq)
  also have "int w - 1 - int nl mod int w = int (w - 1 - nl mod w)"
    using \<open>nl mod w < w\<close> unfolding zmod_int [symmetric] by linarith
  also have "int (w - 1 - nl mod w) mod int w = int (w - 1 - nl mod w)"
    using w by (intro mod_pos_pos_trivial) simp_all
  finally show ?thesis by (simp add: sha2_shift_def sh_sha2_def)
qed

lemma sha2_put_v:
  assumes "0 < w" and "nl div w < length d"
  shows "sha2_put w d nl b = d[nl div w := (if nl mod w = 0 then 0 else d ! (nl div w)) OR push_bit (sh_sha2 w (nl mod w)) (ucast b)]"
  using assms by (simp add: sha2_put_def Let_def sha2_shift_mod)

lemma length_sha2_put [simp]: "length (sha2_put w d nl b) = length d"
  by (simp add: sha2_put_def Let_def)

lemma buffered_sha2_put:
  assumes "buffered (sh_sha2 w) w d xs" and "length xs < 16 * w" and "16 \<le> length d" and "0 < w"
  shows "buffered (sh_sha2 w) w (sha2_put w d (length xs) b) (xs @ [b])"
proof -
  have "length xs div w < 16" using assms(2,4) by (simp add: div_less_iff_less_mult)
  then show ?thesis
    using buffered_snoc [OF assms(1,4) refl _ refl, of b] assms(3,4) by (simp add: sha2_put_v)
qed

lemma sha2_last_words:
  "off \<le> 14 \<Longrightarrow> 16 \<le> length d \<Longrightarrow> (FillZ d off 16)[14 := p, 15 := q] = (FillZ d off 14)[14 := p, 15 := q]"
  by (rule nth_equalityI) (auto simp: nth_FillZ nth_list_update)


lemma sha2_short_offset:
  fixes w k n :: nat
  assumes w: "0 < w"
  shows "k < (n + w) div w \<longleftrightarrow> w * k < n + 1"
proof -
  have "k < (n + w) div w \<longleftrightarrow> Suc k \<le> (n + w) div w" by linarith
  also have "\<dots> \<longleftrightarrow> Suc k * w \<le> n + w" using w by (simp only: less_eq_div_iff_mult_less_eq)
  also have "\<dots> \<longleftrightarrow> w * k < n + 1" by (simp add: mult.commute less_Suc_eq_le)
  finally show ?thesis .
qed

locale sha2_block =
  fixes w N lim :: nat and addLength :: "nat \<Rightarrow> 'c \<Rightarrow> 'c result" and lengthWords :: "'c \<Rightarrow> 'w :: len word \<times> 'w word"
    and block :: "('w, 'c) sha2_state \<Rightarrow> ('w, 'c) sha2_state"
    and cnt :: "'c \<Rightarrow> nat \<Rightarrow> bool" and cmp :: "'w word list \<Rightarrow> 'w word list \<Rightarrow> 'w word list"
    and iv :: "'w word list" and len :: "nat \<Rightarrow> byte list"
  assumes block: "length (iData s) = N \<Longrightarrow> length (iRegs s) = 8 \<Longrightarrow>
      \<exists>d. length d = N \<and> block s = s\<lparr>iRegs := cmp (iRegs s) (take 16 (iData s)), iData := d, iNl := 0\<rparr>"
    and cmp: "length h = 8 \<Longrightarrow> length (cmp h ws) = 8"
    and sizes: "0 < w" "16 \<le> N" "length iv = 8"
    and addLength: "cnt c l \<Longrightarrow> k \<le> 16 * w \<Longrightarrow> l + k < lim \<Longrightarrow> \<exists>c'. addLength k c = Ok c' \<and> cnt c' (l + k)"
    and len: "length (len l) = 2 * w" "cnt c l \<Longrightarrow> l < lim \<Longrightarrow>
      lengthWords c = (word_at (sh_sha2 w) w (len l) 0, word_at (sh_sha2 w) w (len l) 1)"
begin

definition cf :: "'w word list \<Rightarrow> byte list \<Rightarrow> 'w word list" where
  "cf h xs = cmp h (words_of (sh_sha2 w) w xs)"

abbreviation "sh \<equiv> sh_sha2 w"
abbreviation "step \<equiv> sha2_byte w addLength block"

lemma block_E:
  assumes "length (iData s) = N" "length (iRegs s) = 8"
  obtains d where "length d = N" "block s = s\<lparr>iRegs := cmp (iRegs s) (take 16 (iData s)), iData := d, iNl := 0\<rparr>"
  using block [OF assms] by blast

lemma step_short:
  assumes "waits sh w N 8 s xs" and "length xs + 1 < 16 * w"
  shows "\<exists>s'. step s b = Ok s' \<and> waits sh w N 8 s' (xs @ [b]) \<and> iRegs s' = iRegs s \<and> iNh s' = iNh s"
  using assms sizes buffered_sha2_put [of w "iData s" xs b]
  by (simp add: sha2_byte_def sha2_end_block_def waits_def)

lemma step_full:
  assumes "waits sh w N 8 s xs" and "length xs + 1 = 16 * w" and "cnt (iNh s) l" "l + 16 * w < lim"
  shows "\<exists>s'. step s b = Ok s' \<and> waits sh w N 8 s' [] \<and> iRegs s' = cf (iRegs s) (xs @ [b]) \<and> cnt (iNh s') (l + 16 * w)"
proof -
  let ?t = "s\<lparr>iData := sha2_put w (iData s) (iNl s) b, iNl := iNl s + 1\<rparr>"
  have t: "length (iData ?t) = N" "length (iRegs ?t) = 8" "iNl ?t = 16 * w"
    using assms by (simp_all add: waits_def)
  obtain d where d: "length d = N" "block ?t = ?t\<lparr>iRegs := cmp (iRegs ?t) (take 16 (iData ?t)), iData := d, iNl := 0\<rparr>"
    using block_E [OF t(1,2)] by blast
  have "buffered sh w (iData ?t) (xs @ [b])"
    using buffered_sha2_put [of w "iData s" xs b] assms sizes by (simp add: waits_def)
  then have v: "take 16 (iData ?t) = words_of sh w (xs @ [b])"
    by (rule buffered_full) (use assms t(1) sizes in simp_all)
  have "iNh (block ?t) = iNh s" using d(2) by simp
  then obtain c where c: "addLength (16 * w) (iNh (block ?t)) = Ok c" "cnt c (l + 16 * w)"
    using addLength [OF assms(3) _ assms(4)] by auto
  have "step s b = bindL (addLength (16 * w) (iNh (block ?t))) (\<lambda>n. Ok ((block ?t)\<lparr>iNh := n\<rparr>))"
    using t(3) by (simp only: sha2_byte_def sha2_end_block_def Let_def simp_thms if_True)
  then have "step s b = Ok ((block ?t)\<lparr>iNh := c\<rparr>)" using c by simp
  then show ?thesis
    using d t(2) cmp v c sizes(1) by (simp add: waits_def cf_def)
qed

lemma step_frame:
  assumes "length (iData s) = N" "length (iRegs s) = 8" "iNl s < 16 * w" "step s b = Ok s'"
  shows "same_frame s s' \<and> iHash s' = iHash s \<and> iNl s' < 16 * w"
proof -
  obtain t where t: "t = s\<lparr>iData := sha2_put w (iData s) (iNl s) b, iNl := iNl s + 1\<rparr>" by simp
  then have l: "length (iData t) = N" "length (iRegs t) = 8" and f: "same_frame s t" and n: "iNl t \<le> 16 * w"
    using assms by (simp_all add: same_frame_def)
  obtain d where d: "length d = N" "block t = t\<lparr>iRegs := cmp (iRegs t) (take 16 (iData t)), iData := d, iNl := 0\<rparr>"
    using block_E [OF l] by blast
  have "sha2_end_block w addLength block t = Ok s'"
    using assms(4) by (simp only: sha2_byte_def t)
  moreover have "same_frame t ((block t)\<lparr>iNh := c\<rparr>)" "iHash ((block t)\<lparr>iNh := c\<rparr>) = iHash t" "iNl ((block t)\<lparr>iNh := c\<rparr>) < 16 * w" for c
    using d l cmp [OF l(2)] sizes(1) by (simp_all add: same_frame_def)
  moreover have "iHash t = iHash s" by (simp add: t)
  ultimately show ?thesis
    using f n same_frame_trans [OF f]
    by (cases "iNl t = 16 * w") (auto simp only: sha2_end_block_def Let_def bindL_eq_Inr if_True if_False sum.inject simp_thms)
qed

lemma make_room_frame:
  assumes "length (iData s) = N" "length (iRegs s) = 8"
  shows "\<exists>d h n. sha2_make_room w block s = s\<lparr>iRegs := h, iData := d, iNl := n\<rparr> \<and> length d = N \<and> length h = 8"
proof (cases "iNl s \<ge> 16 * w - 2 * w")
  case True
  let ?s = "if iNl s < 16 * w - w then s\<lparr>iData := (iData s)[15 := 0]\<rparr> else s"
  have "length (iData ?s) = N" "length (iRegs ?s) = 8" using assms by simp_all
  then obtain d where d: "length d = N" "block ?s = ?s\<lparr>iRegs := cmp (iRegs ?s) (take 16 (iData ?s)), iData := d, iNl := 0\<rparr>"
    by (rule block_E)
  have "sha2_make_room w block s = (block ?s)\<lparr>iData := FillZ (iData (block ?s)) 0 16\<rparr>"
    using True by (simp add: sha2_make_room_def Let_def)
  also have "\<dots> = s\<lparr>iRegs := cmp (iRegs s) (take 16 (iData ?s)), iData := FillZ d 0 16, iNl := 0\<rparr>"
    using d(2) by simp
  finally have m: "sha2_make_room w block s = s\<lparr>iRegs := cmp (iRegs s) (take 16 (iData ?s)), iData := FillZ d 0 16, iNl := 0\<rparr>" .
  have "length (FillZ d 0 16) = N" using d(1) sizes by simp
  with m cmp [OF assms(2)] show ?thesis by blast
next
  case False
  then have "sha2_make_room w block s = s\<lparr>iRegs := iRegs s, iData := FillZ (iData s) ((iNl s + w) div w) 16, iNl := iNl s\<rparr>"
    by (simp add: sha2_make_room_def Let_def)
  moreover have "(iNl s + w) div w \<le> 16"
    using False sizes(1) by (intro less_mult_imp_div_less [THEN less_imp_le]) auto
  then have "length (FillZ (iData s) ((iNl s + w) div w) 16) = N" using assms(1) sizes by simp
  ultimately show ?thesis using assms(2) by blast
qed

lemma make_room_data:
  assumes "length (iData s) = N" "length (iRegs s) = 8" "iNl s = length xs" "length xs < 16 * w"
    and b: "buffered sh w (iData s) (xs @ [0x80])"
  shows "\<exists>d off ys. iData (sha2_make_room w block s) = FillZ d off 16 \<and> length d = N \<and> off \<le> 14 \<and>
     buffered sh w d ys \<and> length ys \<le> 14 * w \<and> (\<forall>k. w * k < length ys \<longleftrightarrow> k < off) \<and>
     (if length xs < 14 * w then ys = xs @ [0x80] \<and> iRegs (sha2_make_room w block s) = iRegs s
      else ys = [] \<and> iRegs (sha2_make_room w block s) =
        cf (iRegs s) (xs @ [0x80] @ replicate (16 * w - length (xs @ [0x80])) 0))"
proof (cases "length xs < 14 * w")
  case True
  let ?off = "(length xs + w) div w"
  have n: "\<not> iNl s \<ge> 16 * w - 2 * w" using True assms(3) by simp
  then have "sha2_make_room w block s = s\<lparr>iData := FillZ (iData s) ?off 16\<rparr>"
    using assms(3) by (simp add: sha2_make_room_def Let_def)
  moreover have off: "w * k < length (xs @ [0x80 :: byte]) \<longleftrightarrow> k < ?off" for k
    using sha2_short_offset [OF sizes(1), of k "length xs"] by simp
  moreover have "?off \<le> 14"
  proof (rule ccontr)
    assume "\<not> ?off \<le> 14"
    then have "w * 14 < length (xs @ [0x80 :: byte])" using off [of 14] by simp
    then show False using True by simp
  qed
  ultimately show ?thesis
    using True b assms(1) by (intro exI [of _ "iData s"] exI [of _ ?off] exI [of _ "xs @ [0x80]"]) simp
next
  case False
  let ?d = "if length (xs @ [0x80 :: byte]) \<le> 15 * w then (iData s)[15 := 0] else iData s"
  let ?s = "s\<lparr>iData := ?d\<rparr>"
  have v: "take 16 ?d = words_of sh w ((xs @ [0x80]) @ replicate (16 * w - length (xs @ [0x80])) 0)"
    using long_block [OF b, of ?d] assms False sizes by simp
  have "length (iData ?s) = N" "length (iRegs ?s) = 8" using assms by simp_all
  then obtain d where d: "length d = N" "block ?s = ?s\<lparr>iRegs := cmp (iRegs ?s) (take 16 (iData ?s)), iData := d, iNl := 0\<rparr>"
    by (rule block_E)
  have "(if iNl s < 16 * w - w then s\<lparr>iData := (iData s)[15 := 0]\<rparr> else s) = ?s"
    using assms(3) by (auto simp: less_eq_Suc_le)
  then have "sha2_make_room w block s = (block ?s)\<lparr>iData := FillZ (iData (block ?s)) 0 16\<rparr>"
    using False assms(3) by (simp add: sha2_make_room_def Let_def)
  then show ?thesis
    using False v d by (intro exI [of _ d] exI [of _ 0] exI [of _ "[]"]) (simp add: cf_def)
qed

lemma final_result:
  assumes s: "waits sh w N 8 s xs" and c: "cnt (iNh s) l" and l: "l + length xs < lim"
    and r: "length xs = (l + length xs) mod (16 * w)"
  shows "\<exists>s'. sha2_Final w addLength lengthWords block s = Ok s' \<and>
    iHash s' = concat (map (CopyWordToHash w)
      (fst (foldl (absorb (16 * w) cf) (iRegs s, xs) (md_pad (16 * w) w len (l + length xs)))))"
proof -
  obtain n where n: "addLength (iNl s) (iNh s) = Ok n" "cnt n (l + length xs)"
    using addLength [OF c _ l] s by (auto simp: waits_def)
  obtain t where t: "t = s\<lparr>iNh := n, iData := sha2_put w (iData s) (iNl s) 0x80\<rparr>" by simp
  let ?m = "sha2_make_room w block t"
  have ts: "length (iData t) = N" "length (iRegs t) = 8" "iNl t = length xs" "length xs < 16 * w"
    using s by (simp_all add: waits_def t)
  have b: "buffered sh w (iData t) (xs @ [0x80])"
    using buffered_sha2_put [of w "iData s" xs "0x80"] s sizes by (simp add: waits_def t)
  obtain d off ys where m: "iData ?m = FillZ d off 16" "length d = N" "off \<le> 14" "buffered sh w d ys"
      "length ys \<le> 14 * w" "\<And>k. w * k < length ys \<longleftrightarrow> k < off"
      "if length xs < 14 * w then ys = xs @ [0x80] \<and> iRegs ?m = iRegs t
       else ys = [] \<and> iRegs ?m = cf (iRegs t) (xs @ [0x80] @ replicate (16 * w - length (xs @ [0x80])) 0)"
    using make_room_data [OF ts b] by blast
  obtain d' h' i' where m': "?m = t\<lparr>iRegs := h', iData := d', iNl := i'\<rparr>" "length d' = N" "length h' = 8"
    using make_room_frame [OF ts(1,2)] by blast
  have nh: "iNh ?m = n" using m'(1) by (simp add: t)
  let ?len = "len (l + length xs)"
  obtain u where u: "u = ?m\<lparr>iData := (iData ?m)[14 := fst (lengthWords (iNh ?m)), 15 := snd (lengthWords (iNh ?m))]\<rparr>" by simp
  have "take 16 ((FillZ d off 14)[14 := fst (lengthWords n), 15 := snd (lengthWords n)]) =
      words_of sh w (ys @ replicate (14 * w - length ys) 0 @ ?len)"
    by (rule last_block) (use m sizes len(2) [OF n(2) l] in simp_all)
  then have v: "take 16 (iData u) = words_of sh w (ys @ replicate (14 * w - length ys) 0 @ ?len)"
    using m(1-3) sizes(2) nh by (simp add: u sha2_last_words)
  have "length (iData u) = N" "length (iRegs u) = 8" using m' by (simp_all add: u)
  then obtain e where e: "block u = u\<lparr>iRegs := cmp (iRegs u) (take 16 (iData u)), iData := e, iNl := 0\<rparr>"
    by (rule block_E)
  have "sha2_PadMessage w lengthWords block (s\<lparr>iNh := n\<rparr>) = u"
    by (simp add: sha2_PadMessage_def Let_def u t)
  then have F: "sha2_Final w addLength lengthWords block s = Ok ((block u)\<lparr>iHash := concat (map (CopyWordToHash w) (iRegs (block u)))\<rparr>)"
    using n(1) by (simp add: sha2_Final_def Let_def)
  have "iRegs (block u) = cf (iRegs ?m) (ys @ replicate (14 * w - length ys) 0 @ ?len)"
    using e v by (simp add: cf_def u)
  also have "\<dots> = fst (foldl (absorb (16 * w) cf) (iRegs s, xs) (md_pad (16 * w) w len (l + length xs)))"
  proof (cases "length xs < 14 * w")
    case True
    then show ?thesis
      using absorbs_pad_short [of xs "l + length xs" "16 * w" w len cf "iRegs s"] r len(1) m(7) by (simp add: t)
  next
    case False
    then show ?thesis
      using absorbs_pad_long [of xs "l + length xs" "16 * w" w len cf "iRegs s"] r len(1) m(7) sizes(1) by (simp add: t)
  qed
  finally show ?thesis using F by simp
qed

lemma final_frame:
  assumes "length (iData s) = N" "length (iRegs s) = 8" and "sha2_Final w addLength lengthWords block s = Ok s'"
  shows "same_frame s s'"
proof -
  obtain n where n: "addLength (iNl s) (iNh s) = Ok n"
    "s' = (let s = sha2_PadMessage w lengthWords block (s\<lparr>iNh := n\<rparr>); s = block s
       in s\<lparr>iHash := concat (map (CopyWordToHash w) (iRegs s))\<rparr>)"
    using assms(3) by (auto simp: sha2_Final_def bindL_eq_Inr Let_def)
  obtain t where t: "t = s\<lparr>iNh := n, iData := sha2_put w (iData s) (iNl s) 0x80\<rparr>" by simp
  have ts: "length (iData t) = N" "length (iRegs t) = 8" using assms by (simp_all add: t)
  let ?m = "sha2_make_room w block t"
  obtain d h i where m: "?m = t\<lparr>iRegs := h, iData := d, iNl := i\<rparr>" "length d = N" "length h = 8"
    using make_room_frame [OF ts] by blast
  obtain u where u: "u = ?m\<lparr>iData := (iData ?m)[14 := fst (lengthWords (iNh ?m)), 15 := snd (lengthWords (iNh ?m))]\<rparr>" by simp
  have us: "length (iData u) = N" "length (iRegs u) = 8" using m by (simp_all add: u)
  then obtain e where e: "length e = N" "block u = u\<lparr>iRegs := cmp (iRegs u) (take 16 (iData u)), iData := e, iNl := 0\<rparr>"
    by (rule block_E)
  have "sha2_PadMessage w lengthWords block (s\<lparr>iNh := n\<rparr>) = u"
    by (simp add: sha2_PadMessage_def Let_def u t)
  then have s': "s' = (block u)\<lparr>iHash := concat (map (CopyWordToHash w) (iRegs (block u)))\<rparr>"
    using n(2) by (simp add: Let_def)
  have "same_frame s u" using m assms(1,2) by (simp add: u t same_frame_def)
  moreover have "same_frame u s'" using e us cmp [OF us(2)] by (simp add: s' same_frame_def)
  ultimately show ?thesis by (rule same_frame_trans)
qed

lemma length_CopyWordToHash: "length (concat (map (CopyWordToHash w) h)) = w * length h"
  by (induction h) (simp_all add: CopyWordToHash_def)

text \<open>The word loop of \<open>Update\<close> does what the byte loop does.\<close>

lemma word_steps:
  assumes "iNl s mod w = 0" and "iNl s + w \<le> 16 * w" and "iNl s div w < length (iData s)"
  shows "t < w \<Longrightarrow> t \<le> length xs \<Longrightarrow> update_bytes step s (take t xs) =
    Ok (s\<lparr>iData := (iData s)[iNl s div w := if t = 0 then iData s ! (iNl s div w) else pack sh t (nth xs)], iNl := iNl s + t\<rparr>)"
proof (induction t)
  case (Suc t)
  let ?s = "s\<lparr>iData := (iData s)[iNl s div w := if t = 0 then iData s ! (iNl s div w) else pack sh t (nth xs)], iNl := iNl s + t\<rparr>"
  have tk: "take (Suc t) xs = take t xs @ [xs ! t]" using Suc.prems(2) by (simp add: take_Suc_conv_app_nth)
  have n: "(iNl s + t) div w = iNl s div w" "(iNl s + t) mod w = t"
    using assms(1) Suc.prems(1) by (simp_all add: div_add1_eq [of "iNl s" t] mod_add_eq [symmetric, of "iNl s" t])
  have "step ?s (xs ! t) = Ok (?s\<lparr>iData := sha2_put w (iData ?s) (iNl ?s) (xs ! t), iNl := iNl ?s + 1\<rparr>)"
    using assms(2) Suc.prems(1) by (simp add: sha2_byte_def sha2_end_block_def)
  also have "\<dots> = Ok (s\<lparr>iData := (iData s)[iNl s div w := pack sh (Suc t) (nth xs)], iNl := iNl s + Suc t\<rparr>)"
    using assms(3) sizes(1) n by (simp add: sha2_put_v pack_Suc pack_0)
  finally show ?case using Suc by (simp add: tk update_bytes_append)
qed simp

lemma bindL_unit: "bindL m (\<lambda>a. Ok a) = m"
  by (cases m) simp_all

lemma foldr_or: "foldr (OR) (map g ts) (a OR b) = foldr (OR) (map g ts) a OR (b :: 'w word)"
  by (induction ts) (simp_all add: or.assoc)

lemma foldl_or: "foldl (\<lambda>a t. a OR g t) (z :: 'w word) ts = foldr (OR) (map g ts) z"
proof (induction ts arbitrary: z)
  case (Cons t ts)
  then show ?case using foldr_or [of g ts z "g t"] by (simp add: or.commute)
qed simp

lemma MakeWord_pack: "MakeWord w xs = (pack sh w (nth xs) :: 'w word)"
  using foldl_or [of "\<lambda>t. push_bit (8 * (w - 1 - t)) (ucast (xs ! t))" 0 "[0..<w]"]
  by (simp add: MakeWord_def pack_def sh_sha2_def)

lemma word_step:
  assumes "iNl s mod w = 0" and "iNl s + w \<le> 16 * w" and "iNl s div w < length (iData s)" and "w \<le> length xs"
  shows "update_bytes step s (take w xs) = sha2_end_block w addLength block
    (s\<lparr>iData := (iData s)[iNl s div w := MakeWord w xs], iNl := iNl s + w\<rparr>)"
proof -
  obtain t where t: "w = Suc t" using sizes(1) by (cases w) simp_all
  let ?s = "s\<lparr>iData := (iData s)[iNl s div w := if t = 0 then iData s ! (iNl s div w) else pack sh t (nth xs)], iNl := iNl s + t\<rparr>"
  have tk: "take w xs = take t xs @ [xs ! t]" using assms(4) by (simp add: t take_Suc_conv_app_nth)
  have n: "(iNl s + t) div w = iNl s div w" "(iNl s + t) mod w = t"
    using assms(1) by (simp_all add: div_add1_eq [of "iNl s" t] mod_add_eq [symmetric, of "iNl s" t] t)
  have "pack sh w (nth xs) = pack sh t (nth xs) OR push_bit (sh t) (ucast (xs ! t) :: 'w word)"
    using pack_Suc [of sh t "nth xs"] by (simp add: t)
  then have "sha2_put w (iData ?s) (iNl ?s) (xs ! t) = (iData s)[iNl s div w := pack sh w (nth xs)]"
    using assms(3) sizes(1) n by (simp add: sha2_put_v pack_0)
  then have "step ?s (xs ! t) = sha2_end_block w addLength block
      (s\<lparr>iData := (iData s)[iNl s div w := pack sh w (nth xs)], iNl := iNl s + w\<rparr>)"
    by (simp add: sha2_byte_def t)
  moreover have "update_bytes step s (take t xs) = Ok ?s"
    by (rule word_steps [OF assms(1-3)]) (use t assms(4) in simp_all)
  ultimately show ?thesis
    by (simp only: tk update_bytes_append bindL_Inr update_bytes.simps bindL_unit MakeWord_pack)
qed

lemma steps_frame:
  "length (iData s) = N \<Longrightarrow> length (iRegs s) = 8 \<Longrightarrow> iNl s < 16 * w \<Longrightarrow> update_bytes step s xs = Ok s' \<Longrightarrow>
    length (iData s') = N \<and> length (iRegs s') = 8 \<and> iNl s' < 16 * w"
proof (induction xs arbitrary: s)
  case (Cons x xs)
  obtain t where t: "step s x = Ok t" "update_bytes step t xs = Ok s'"
    using Cons.prems(4) by (auto simp: bindL_eq_Inr)
  then show ?case using Cons.IH [OF _ _ _ t(2)] step_frame [OF Cons.prems(1-3) t(1)] Cons.prems(1,2)
    by (simp add: same_frame_def)
qed simp

lemma Update_bytes:
  "length (iData s) = N \<Longrightarrow> length (iRegs s) = 8 \<Longrightarrow> iNl s < 16 * w \<Longrightarrow>
    sha2_Update w addLength block s xs = update_bytes step s xs"
proof (induction xs arbitrary: s rule: length_induct)
  case (1 xs)
  show ?case
  proof (cases "length xs div w > 0 \<and> iNl s mod w = 0")
    case True
    then have l: "w \<le> length xs" and a: "iNl s mod w = 0" by (auto simp: div_greater_zero_iff)
    obtain k where k: "iNl s = w * k" using a by auto
    have k16: "k < 16" using k 1(4) sizes(1) by (simp add: mult.commute)
    then have "w * Suc k \<le> w * 16" by (intro mult_left_mono) simp_all
    then have n: "iNl s + w \<le> 16 * w" by (simp add: k)
    let ?u = "sha2_end_block w addLength block (s\<lparr>iData := (iData s)[iNl s div w := MakeWord w xs], iNl := iNl s + w\<rparr>)"
    have u: "?u = update_bytes step s (take w xs)"
      by (rule word_step [symmetric]) (use a n l k k16 1(2) sizes in simp_all)
    have "sha2_Update w addLength block s xs = bindL ?u (\<lambda>s. sha2_Update w addLength block s (drop w xs))"
      using True sizes(1) by (simp add: sha2_Update_def sha2_words.simps [of w addLength block s xs] bindL_def split: sum.split)
    also have "\<dots> = bindL (update_bytes step s (take w xs)) (\<lambda>s. update_bytes step s (drop w xs))"
    proof (cases "update_bytes step s (take w xs)")
      case (Inr t)
      have "length (iData t) = N \<and> length (iRegs t) = 8 \<and> iNl t < 16 * w"
        using steps_frame [OF 1(2-4) Inr] .
      moreover have "length (drop w xs) < length xs" using l sizes(1) by simp
      ultimately show ?thesis using 1(1) Inr by (simp add: u)
    qed (simp add: u)
    finally show ?thesis by (simp add: update_bytes_append [symmetric])
  next
    case False
    then show ?thesis by (auto simp: sha2_Update_def sha2_words.simps [of w addLength block s xs])
  qed
qed

end

locale sha2_class = sha2_block +
  fixes zero :: 'a and hs :: nat and fresh :: "('b, 'a) sha2_state"
  assumes zero: "cnt zero 0" and hs: "hs \<le> 8 * w" and fresh: "length (iData fresh) = N" "length (iRegs fresh) = 8"

sublocale sha2_class \<subseteq> sd: block_class "sha2_byte w addLength block" "sha2_Final w addLength lengthWords block"
  "sh_sha2 w" w N 8 cnt lim cf iv len "\<lambda>h. concat (map (CopyWordToHash w) h)" zero hs N fresh "sha2_Update w addLength block"
proof
  fix s xs l b s'
  show "0 < w" "2 * w < 16 * w" using sizes(1) by simp_all
  show "length (len l) = 2 * w" by (rule len)
  show "\<exists>s'. sha2_byte w addLength block s b = Ok s' \<and> waits (sh_sha2 w) w N 8 s' (xs @ [b]) \<and> iRegs s' = iRegs s \<and> cnt (iNh s') l"
    if "waits (sh_sha2 w) w N 8 s xs" "cnt (iNh s) l" "length xs + 1 < 16 * w"
    using step_short [OF that(1,3), of b] that(2) by auto
  show "\<exists>s'. sha2_byte w addLength block s b = Ok s' \<and> waits (sh_sha2 w) w N 8 s' [] \<and> iRegs s' = cf (iRegs s) (xs @ [b]) \<and>
      cnt (iNh s') (l + 16 * w)"
    if "waits (sh_sha2 w) w N 8 s xs" "cnt (iNh s) l" "length xs + 1 = 16 * w" "l + 16 * w < lim"
    using step_full [OF that(1,3,2,4)] .
  show "\<exists>s'. sha2_Final w addLength lengthWords block s = Ok s' \<and> iHash s' =
      concat (map (CopyWordToHash w) (fst (foldl (absorb (16 * w) cf) (iRegs s, xs) (md_pad (16 * w) w len (l + length xs)))))"
    if "waits (sh_sha2 w) w N 8 s xs" "cnt (iNh s) l" "length xs = (l + length xs) mod (16 * w)" "l + length xs < lim"
    using final_result [OF that(1,2,4,3)] .
  show "length (iData s) = N \<Longrightarrow> length (iRegs s) = 8 \<Longrightarrow> iNl s < 16 * w \<Longrightarrow>
      sha2_Update w addLength block s xs = update_bytes (sha2_byte w addLength block) s xs"
    by (rule Update_bytes)
  show "length h = 8 \<Longrightarrow> hs \<le> length (concat (map (CopyWordToHash w) h))" for h :: "'b word list"
    using hs by (simp add: length_CopyWordToHash mult.commute)
  show "length h = 8 \<Longrightarrow> length (cf h xs) = 8" for h by (simp add: cf_def cmp)
  show "length (iData s) = N \<Longrightarrow> length (iRegs s) = 8 \<Longrightarrow> iNl s < 16 * w \<Longrightarrow> sha2_byte w addLength block s b = Ok s' \<Longrightarrow>
      same_frame s s' \<and> iHash s' = iHash s \<and> iNl s' < 16 * w"
    by (rule step_frame)
  show "length (iData s) = N \<Longrightarrow> length (iRegs s) = 8 \<Longrightarrow> sha2_Final w addLength lengthWords block s = Ok s' \<Longrightarrow> same_frame s s'"
    by (rule final_frame)
qed (use sizes zero fresh in simp_all)

end
