(* ===== verification/Sha2Blocks.thy ===== *)
theory Sha2Blocks
  imports Sha2Buffer
begin

section \<open>The compression functions of SHA-2 (\<open>sha224and256.cpp\<close>, \<open>sha384and512.cpp\<close>)\<close>

text \<open>
  As for SHA-1, the working registers \<open>tempA\<close> to \<open>tempH\<close> are the entries 0 to 7 of a list and
  every call of \<open>Block\<close> is an entry of \<open>sha256_calls\<close> or \<open>sha512_calls\<close>.  The comments of the
  sources claim that the calls are \<open>the expanded version\<close> of a loop over \<open>i\<close>, which they
  quote; \<open>sha2_round\<close> is the body of that loop and \<open>sha256_Block_loop\<close>,
  \<open>sha512_Block_loop\<close> show the claim.
\<close>

type_synonym 'w sha2_work = "'w word list \<times> 'w word list"

definition SHA_Ch :: "'w :: len word \<Rightarrow> 'w word \<Rightarrow> 'w word \<Rightarrow> 'w word" where
  "SHA_Ch aX aY aZ = (aX AND aY) XOR (NOT aX AND aZ)"
definition SHA_Maj :: "'w :: len word \<Rightarrow> 'w word \<Rightarrow> 'w word \<Rightarrow> 'w word" where
  "SHA_Maj aX aY aZ = (aX AND aY) XOR (aX AND aZ) XOR (aY AND aZ)"
definition SHA_SHR :: "nat \<Rightarrow> 'w :: len word \<Rightarrow> 'w word" where
  "SHA_SHR aBits aWord = drop_bit aBits aWord"
definition SHA_ROTR :: "nat \<Rightarrow> 'w :: len word \<Rightarrow> 'w word" where
  "SHA_ROTR aBits aWord = drop_bit aBits aWord OR push_bit (LENGTH('w) - aBits) aWord"

subsection \<open>CSHA224And256\<close>

definition K256 :: "32 word list" where
  "K256 = concat [
     [0x428a2f98, 0x71374491, 0xb5c0fbcf, 0xe9b5dba5,
      0x3956c25b, 0x59f111f1, 0x923f82a4, 0xab1c5ed5],
     [0xd807aa98, 0x12835b01, 0x243185be, 0x550c7dc3,
      0x72be5d74, 0x80deb1fe, 0x9bdc06a7, 0xc19bf174],
     [0xe49b69c1, 0xefbe4786, 0x0fc19dc6, 0x240ca1cc,
      0x2de92c6f, 0x4a7484aa, 0x5cb0a9dc, 0x76f988da],
     [0x983e5152, 0xa831c66d, 0xb00327c8, 0xbf597fc7,
      0xc6e00bf3, 0xd5a79147, 0x06ca6351, 0x14292967],
     [0x27b70a85, 0x2e1b2138, 0x4d2c6dfc, 0x53380d13,
      0x650a7354, 0x766a0abb, 0x81c2c92e, 0x92722c85],
     [0xa2bfe8a1, 0xa81a664b, 0xc24b8b70, 0xc76c51a3,
      0xd192e819, 0xd6990624, 0xf40e3585, 0x106aa070],
     [0x19a4c116, 0x1e376c08, 0x2748774c, 0x34b0bcb5,
      0x391c0cb3, 0x4ed8aa4a, 0x5b9cca4f, 0x682e6ff3],
     [0x748f82ee, 0x78a5636f, 0x84c87814, 0x8cc70208,
      0x90befffa, 0xa4506ceb, 0xbef9a3f7, 0xc67178f2]]"

definition SHA256_SIGMA0 :: "32 word \<Rightarrow> 32 word" where
  "SHA256_SIGMA0 aWord = SHA_ROTR 2 aWord XOR SHA_ROTR 13 aWord XOR SHA_ROTR 22 aWord"
definition SHA256_SIGMA1 :: "32 word \<Rightarrow> 32 word" where
  "SHA256_SIGMA1 aWord = SHA_ROTR 6 aWord XOR SHA_ROTR 11 aWord XOR SHA_ROTR 25 aWord"
definition SHA256_sigma0 :: "32 word \<Rightarrow> 32 word" where
  "SHA256_sigma0 aWord = SHA_ROTR 7 aWord XOR SHA_ROTR 18 aWord XOR SHA_SHR 3 aWord"
definition SHA256_sigma1 :: "32 word \<Rightarrow> 32 word" where
  "SHA256_sigma1 aWord = SHA_ROTR 17 aWord XOR SHA_ROTR 19 aWord XOR SHA_SHR 10 aWord"

definition CSHA256_16 :: "nat \<Rightarrow> nat \<Rightarrow> nat \<Rightarrow> nat \<Rightarrow> nat \<Rightarrow> nat \<Rightarrow> nat \<Rightarrow> nat \<Rightarrow> nat \<Rightarrow> nat \<Rightarrow> 32 sha2_work \<Rightarrow> 32 sha2_work" where
  "CSHA256_16 a b c d e f g h k w = (\<lambda>(r, D).
     let temp1 = r ! h + SHA256_SIGMA1 (r ! e) + SHA_Ch (r ! e) (r ! f) (r ! g) + K256 ! k + D ! w;
         temp2 = SHA256_SIGMA0 (r ! a) + SHA_Maj (r ! a) (r ! b) (r ! c);
         r = r[d := r ! d + temp1]
     in (r[h := temp1 + temp2], D))"

definition CSHA256_48 :: "nat \<Rightarrow> nat \<Rightarrow> nat \<Rightarrow> nat \<Rightarrow> nat \<Rightarrow> nat \<Rightarrow> nat \<Rightarrow> nat \<Rightarrow> nat \<Rightarrow> nat \<Rightarrow> nat \<Rightarrow> nat \<Rightarrow> nat \<Rightarrow> nat \<Rightarrow> 32 sha2_work \<Rightarrow> 32 sha2_work" where
  "CSHA256_48 a b c d e f g h k w0 w2 w7 w15 w16 = (\<lambda>(r, D).
     CSHA256_16 a b c d e f g h k w0
       (r, D[w0 := SHA256_sigma1 (D ! w2) + D ! w7 + SHA256_sigma0 (D ! w15) + D ! w16]))"

definition sha256_calls :: "(32 sha2_work \<Rightarrow> 32 sha2_work) list" where
  "sha256_calls = [
     CSHA256_16 0 1 2 3 4 5 6 7 0 0, CSHA256_16 7 0 1 2 3 4 5 6 1 1,
     CSHA256_16 6 7 0 1 2 3 4 5 2 2, CSHA256_16 5 6 7 0 1 2 3 4 3 3,
     CSHA256_16 4 5 6 7 0 1 2 3 4 4, CSHA256_16 3 4 5 6 7 0 1 2 5 5,
     CSHA256_16 2 3 4 5 6 7 0 1 6 6, CSHA256_16 1 2 3 4 5 6 7 0 7 7,
     CSHA256_16 0 1 2 3 4 5 6 7 8 8, CSHA256_16 7 0 1 2 3 4 5 6 9 9,
     CSHA256_16 6 7 0 1 2 3 4 5 10 10, CSHA256_16 5 6 7 0 1 2 3 4 11 11,
     CSHA256_16 4 5 6 7 0 1 2 3 12 12, CSHA256_16 3 4 5 6 7 0 1 2 13 13,
     CSHA256_16 2 3 4 5 6 7 0 1 14 14, CSHA256_16 1 2 3 4 5 6 7 0 15 15,
     CSHA256_48 0 1 2 3 4 5 6 7 16 16 14 9 1 0, CSHA256_48 7 0 1 2 3 4 5 6 17 17 15 10 2 1,
     CSHA256_48 6 7 0 1 2 3 4 5 18 18 16 11 3 2, CSHA256_48 5 6 7 0 1 2 3 4 19 19 17 12 4 3,
     CSHA256_48 4 5 6 7 0 1 2 3 20 20 18 13 5 4, CSHA256_48 3 4 5 6 7 0 1 2 21 21 19 14 6 5,
     CSHA256_48 2 3 4 5 6 7 0 1 22 22 20 15 7 6, CSHA256_48 1 2 3 4 5 6 7 0 23 23 21 16 8 7,
     CSHA256_48 0 1 2 3 4 5 6 7 24 24 22 17 9 8, CSHA256_48 7 0 1 2 3 4 5 6 25 25 23 18 10 9,
     CSHA256_48 6 7 0 1 2 3 4 5 26 26 24 19 11 10, CSHA256_48 5 6 7 0 1 2 3 4 27 27 25 20 12 11,
     CSHA256_48 4 5 6 7 0 1 2 3 28 28 26 21 13 12, CSHA256_48 3 4 5 6 7 0 1 2 29 29 27 22 14 13,
     CSHA256_48 2 3 4 5 6 7 0 1 30 30 28 23 15 14, CSHA256_48 1 2 3 4 5 6 7 0 31 31 29 24 16 15,
     CSHA256_48 0 1 2 3 4 5 6 7 32 32 30 25 17 16, CSHA256_48 7 0 1 2 3 4 5 6 33 33 31 26 18 17,
     CSHA256_48 6 7 0 1 2 3 4 5 34 34 32 27 19 18, CSHA256_48 5 6 7 0 1 2 3 4 35 35 33 28 20 19,
     CSHA256_48 4 5 6 7 0 1 2 3 36 36 34 29 21 20, CSHA256_48 3 4 5 6 7 0 1 2 37 37 35 30 22 21,
     CSHA256_48 2 3 4 5 6 7 0 1 38 38 36 31 23 22, CSHA256_48 1 2 3 4 5 6 7 0 39 39 37 32 24 23,
     CSHA256_48 0 1 2 3 4 5 6 7 40 40 38 33 25 24, CSHA256_48 7 0 1 2 3 4 5 6 41 41 39 34 26 25,
     CSHA256_48 6 7 0 1 2 3 4 5 42 42 40 35 27 26, CSHA256_48 5 6 7 0 1 2 3 4 43 43 41 36 28 27,
     CSHA256_48 4 5 6 7 0 1 2 3 44 44 42 37 29 28, CSHA256_48 3 4 5 6 7 0 1 2 45 45 43 38 30 29,
     CSHA256_48 2 3 4 5 6 7 0 1 46 46 44 39 31 30, CSHA256_48 1 2 3 4 5 6 7 0 47 47 45 40 32 31,
     CSHA256_48 0 1 2 3 4 5 6 7 48 48 46 41 33 32, CSHA256_48 7 0 1 2 3 4 5 6 49 49 47 42 34 33,
     CSHA256_48 6 7 0 1 2 3 4 5 50 50 48 43 35 34, CSHA256_48 5 6 7 0 1 2 3 4 51 51 49 44 36 35,
     CSHA256_48 4 5 6 7 0 1 2 3 52 52 50 45 37 36, CSHA256_48 3 4 5 6 7 0 1 2 53 53 51 46 38 37,
     CSHA256_48 2 3 4 5 6 7 0 1 54 54 52 47 39 38, CSHA256_48 1 2 3 4 5 6 7 0 55 55 53 48 40 39,
     CSHA256_48 0 1 2 3 4 5 6 7 56 56 54 49 41 40, CSHA256_48 7 0 1 2 3 4 5 6 57 57 55 50 42 41,
     CSHA256_48 6 7 0 1 2 3 4 5 58 58 56 51 43 42, CSHA256_48 5 6 7 0 1 2 3 4 59 59 57 52 44 43,
     CSHA256_48 4 5 6 7 0 1 2 3 60 60 58 53 45 44, CSHA256_48 3 4 5 6 7 0 1 2 61 61 59 54 46 45,
     CSHA256_48 2 3 4 5 6 7 0 1 62 62 60 55 47 46, CSHA256_48 1 2 3 4 5 6 7 0 63 63 61 56 48 47]"

subsection \<open>CSHA384And512\<close>

definition K512 :: "64 word list" where
  "K512 = concat [
     [0x428a2f98d728ae22, 0x7137449123ef65cd, 0xb5c0fbcfec4d3b2f, 0xe9b5dba58189dbbc,
      0x3956c25bf348b538, 0x59f111f1b605d019, 0x923f82a4af194f9b, 0xab1c5ed5da6d8118],
     [0xd807aa98a3030242, 0x12835b0145706fbe, 0x243185be4ee4b28c, 0x550c7dc3d5ffb4e2,
      0x72be5d74f27b896f, 0x80deb1fe3b1696b1, 0x9bdc06a725c71235, 0xc19bf174cf692694],
     [0xe49b69c19ef14ad2, 0xefbe4786384f25e3, 0x0fc19dc68b8cd5b5, 0x240ca1cc77ac9c65,
      0x2de92c6f592b0275, 0x4a7484aa6ea6e483, 0x5cb0a9dcbd41fbd4, 0x76f988da831153b5],
     [0x983e5152ee66dfab, 0xa831c66d2db43210, 0xb00327c898fb213f, 0xbf597fc7beef0ee4,
      0xc6e00bf33da88fc2, 0xd5a79147930aa725, 0x06ca6351e003826f, 0x142929670a0e6e70],
     [0x27b70a8546d22ffc, 0x2e1b21385c26c926, 0x4d2c6dfc5ac42aed, 0x53380d139d95b3df,
      0x650a73548baf63de, 0x766a0abb3c77b2a8, 0x81c2c92e47edaee6, 0x92722c851482353b],
     [0xa2bfe8a14cf10364, 0xa81a664bbc423001, 0xc24b8b70d0f89791, 0xc76c51a30654be30,
      0xd192e819d6ef5218, 0xd69906245565a910, 0xf40e35855771202a, 0x106aa07032bbd1b8],
     [0x19a4c116b8d2d0c8, 0x1e376c085141ab53, 0x2748774cdf8eeb99, 0x34b0bcb5e19b48a8,
      0x391c0cb3c5c95a63, 0x4ed8aa4ae3418acb, 0x5b9cca4f7763e373, 0x682e6ff3d6b2b8a3],
     [0x748f82ee5defb2fc, 0x78a5636f43172f60, 0x84c87814a1f0ab72, 0x8cc702081a6439ec,
      0x90befffa23631e28, 0xa4506cebde82bde9, 0xbef9a3f7b2c67915, 0xc67178f2e372532b],
     [0xca273eceea26619c, 0xd186b8c721c0c207, 0xeada7dd6cde0eb1e, 0xf57d4f7fee6ed178,
      0x06f067aa72176fba, 0x0a637dc5a2c898a6, 0x113f9804bef90dae, 0x1b710b35131c471b],
     [0x28db77f523047d84, 0x32caab7b40c72493, 0x3c9ebe0a15c9bebc, 0x431d67c49c100d4c,
      0x4cc5d4becb3e42b6, 0x597f299cfc657e2a, 0x5fcb6fab3ad6faec, 0x6c44198c4a475817]]"

definition SHA512_SIGMA0 :: "64 word \<Rightarrow> 64 word" where
  "SHA512_SIGMA0 aWord = SHA_ROTR 28 aWord XOR SHA_ROTR 34 aWord XOR SHA_ROTR 39 aWord"
definition SHA512_SIGMA1 :: "64 word \<Rightarrow> 64 word" where
  "SHA512_SIGMA1 aWord = SHA_ROTR 14 aWord XOR SHA_ROTR 18 aWord XOR SHA_ROTR 41 aWord"
definition SHA512_sigma0 :: "64 word \<Rightarrow> 64 word" where
  "SHA512_sigma0 aWord = SHA_ROTR 1 aWord XOR SHA_ROTR 8 aWord XOR SHA_SHR 7 aWord"
definition SHA512_sigma1 :: "64 word \<Rightarrow> 64 word" where
  "SHA512_sigma1 aWord = SHA_ROTR 19 aWord XOR SHA_ROTR 61 aWord XOR SHA_SHR 6 aWord"

definition CSHA512_16 :: "nat \<Rightarrow> nat \<Rightarrow> nat \<Rightarrow> nat \<Rightarrow> nat \<Rightarrow> nat \<Rightarrow> nat \<Rightarrow> nat \<Rightarrow> nat \<Rightarrow> nat \<Rightarrow> 64 sha2_work \<Rightarrow> 64 sha2_work" where
  "CSHA512_16 a b c d e f g h k w = (\<lambda>(r, D).
     let temp1 = r ! h + SHA512_SIGMA1 (r ! e) + SHA_Ch (r ! e) (r ! f) (r ! g) + K512 ! k + D ! w;
         temp2 = SHA512_SIGMA0 (r ! a) + SHA_Maj (r ! a) (r ! b) (r ! c);
         r = r[d := r ! d + temp1]
     in (r[h := temp1 + temp2], D))"

definition CSHA512_64 :: "nat \<Rightarrow> nat \<Rightarrow> nat \<Rightarrow> nat \<Rightarrow> nat \<Rightarrow> nat \<Rightarrow> nat \<Rightarrow> nat \<Rightarrow> nat \<Rightarrow> nat \<Rightarrow> nat \<Rightarrow> nat \<Rightarrow> nat \<Rightarrow> nat \<Rightarrow> 64 sha2_work \<Rightarrow> 64 sha2_work" where
  "CSHA512_64 a b c d e f g h k w0 w2 w7 w15 w16 = (\<lambda>(r, D).
     CSHA512_16 a b c d e f g h k w0
       (r, D[w0 := SHA512_sigma1 (D ! w2) + D ! w7 + SHA512_sigma0 (D ! w15) + D ! w16]))"

definition sha512_calls :: "(64 sha2_work \<Rightarrow> 64 sha2_work) list" where
  "sha512_calls = [
     CSHA512_16 0 1 2 3 4 5 6 7 0 0, CSHA512_16 7 0 1 2 3 4 5 6 1 1,
     CSHA512_16 6 7 0 1 2 3 4 5 2 2, CSHA512_16 5 6 7 0 1 2 3 4 3 3,
     CSHA512_16 4 5 6 7 0 1 2 3 4 4, CSHA512_16 3 4 5 6 7 0 1 2 5 5,
     CSHA512_16 2 3 4 5 6 7 0 1 6 6, CSHA512_16 1 2 3 4 5 6 7 0 7 7,
     CSHA512_16 0 1 2 3 4 5 6 7 8 8, CSHA512_16 7 0 1 2 3 4 5 6 9 9,
     CSHA512_16 6 7 0 1 2 3 4 5 10 10, CSHA512_16 5 6 7 0 1 2 3 4 11 11,
     CSHA512_16 4 5 6 7 0 1 2 3 12 12, CSHA512_16 3 4 5 6 7 0 1 2 13 13,
     CSHA512_16 2 3 4 5 6 7 0 1 14 14, CSHA512_16 1 2 3 4 5 6 7 0 15 15,
     CSHA512_64 0 1 2 3 4 5 6 7 16 16 14 9 1 0, CSHA512_64 7 0 1 2 3 4 5 6 17 17 15 10 2 1,
     CSHA512_64 6 7 0 1 2 3 4 5 18 18 16 11 3 2, CSHA512_64 5 6 7 0 1 2 3 4 19 19 17 12 4 3,
     CSHA512_64 4 5 6 7 0 1 2 3 20 20 18 13 5 4, CSHA512_64 3 4 5 6 7 0 1 2 21 21 19 14 6 5,
     CSHA512_64 2 3 4 5 6 7 0 1 22 22 20 15 7 6, CSHA512_64 1 2 3 4 5 6 7 0 23 23 21 16 8 7,
     CSHA512_64 0 1 2 3 4 5 6 7 24 24 22 17 9 8, CSHA512_64 7 0 1 2 3 4 5 6 25 25 23 18 10 9,
     CSHA512_64 6 7 0 1 2 3 4 5 26 26 24 19 11 10, CSHA512_64 5 6 7 0 1 2 3 4 27 27 25 20 12 11,
     CSHA512_64 4 5 6 7 0 1 2 3 28 28 26 21 13 12, CSHA512_64 3 4 5 6 7 0 1 2 29 29 27 22 14 13,
     CSHA512_64 2 3 4 5 6 7 0 1 30 30 28 23 15 14, CSHA512_64 1 2 3 4 5 6 7 0 31 31 29 24 16 15,
     CSHA512_64 0 1 2 3 4 5 6 7 32 32 30 25 17 16, CSHA512_64 7 0 1 2 3 4 5 6 33 33 31 26 18 17,
     CSHA512_64 6 7 0 1 2 3 4 5 34 34 32 27 19 18, CSHA512_64 5 6 7 0 1 2 3 4 35 35 33 28 20 19,
     CSHA512_64 4 5 6 7 0 1 2 3 36 36 34 29 21 20, CSHA512_64 3 4 5 6 7 0 1 2 37 37 35 30 22 21,
     CSHA512_64 2 3 4 5 6 7 0 1 38 38 36 31 23 22, CSHA512_64 1 2 3 4 5 6 7 0 39 39 37 32 24 23,
     CSHA512_64 0 1 2 3 4 5 6 7 40 40 38 33 25 24, CSHA512_64 7 0 1 2 3 4 5 6 41 41 39 34 26 25,
     CSHA512_64 6 7 0 1 2 3 4 5 42 42 40 35 27 26, CSHA512_64 5 6 7 0 1 2 3 4 43 43 41 36 28 27,
     CSHA512_64 4 5 6 7 0 1 2 3 44 44 42 37 29 28, CSHA512_64 3 4 5 6 7 0 1 2 45 45 43 38 30 29,
     CSHA512_64 2 3 4 5 6 7 0 1 46 46 44 39 31 30, CSHA512_64 1 2 3 4 5 6 7 0 47 47 45 40 32 31,
     CSHA512_64 0 1 2 3 4 5 6 7 48 48 46 41 33 32, CSHA512_64 7 0 1 2 3 4 5 6 49 49 47 42 34 33,
     CSHA512_64 6 7 0 1 2 3 4 5 50 50 48 43 35 34, CSHA512_64 5 6 7 0 1 2 3 4 51 51 49 44 36 35,
     CSHA512_64 4 5 6 7 0 1 2 3 52 52 50 45 37 36, CSHA512_64 3 4 5 6 7 0 1 2 53 53 51 46 38 37,
     CSHA512_64 2 3 4 5 6 7 0 1 54 54 52 47 39 38, CSHA512_64 1 2 3 4 5 6 7 0 55 55 53 48 40 39,
     CSHA512_64 0 1 2 3 4 5 6 7 56 56 54 49 41 40, CSHA512_64 7 0 1 2 3 4 5 6 57 57 55 50 42 41,
     CSHA512_64 6 7 0 1 2 3 4 5 58 58 56 51 43 42, CSHA512_64 5 6 7 0 1 2 3 4 59 59 57 52 44 43,
     CSHA512_64 4 5 6 7 0 1 2 3 60 60 58 53 45 44, CSHA512_64 3 4 5 6 7 0 1 2 61 61 59 54 46 45,
     CSHA512_64 2 3 4 5 6 7 0 1 62 62 60 55 47 46, CSHA512_64 1 2 3 4 5 6 7 0 63 63 61 56 48 47,
     CSHA512_64 0 1 2 3 4 5 6 7 64 64 62 57 49 48, CSHA512_64 7 0 1 2 3 4 5 6 65 65 63 58 50 49,
     CSHA512_64 6 7 0 1 2 3 4 5 66 66 64 59 51 50, CSHA512_64 5 6 7 0 1 2 3 4 67 67 65 60 52 51,
     CSHA512_64 4 5 6 7 0 1 2 3 68 68 66 61 53 52, CSHA512_64 3 4 5 6 7 0 1 2 69 69 67 62 54 53,
     CSHA512_64 2 3 4 5 6 7 0 1 70 70 68 63 55 54, CSHA512_64 1 2 3 4 5 6 7 0 71 71 69 64 56 55,
     CSHA512_64 0 1 2 3 4 5 6 7 72 72 70 65 57 56, CSHA512_64 7 0 1 2 3 4 5 6 73 73 71 66 58 57,
     CSHA512_64 6 7 0 1 2 3 4 5 74 74 72 67 59 58, CSHA512_64 5 6 7 0 1 2 3 4 75 75 73 68 60 59,
     CSHA512_64 4 5 6 7 0 1 2 3 76 76 74 69 61 60, CSHA512_64 3 4 5 6 7 0 1 2 77 77 75 70 62 61,
     CSHA512_64 2 3 4 5 6 7 0 1 78 78 76 71 63 62, CSHA512_64 1 2 3 4 5 6 7 0 79 79 77 72 64 63]"

subsection \<open>The quoted loop\<close>

text \<open>
  \<open>Sg0\<close>, \<open>Sg1\<close> stand for the functions \<open>SIGMA\<close> of either size and \<open>K\<close> for the table; the
  words are the schedule over \<open>sigma0\<close> and \<open>sigma1\<close>.
\<close>

type_synonym 'w regs8 = "'w word \<times> 'w word \<times> 'w word \<times> 'w word \<times> 'w word \<times> 'w word \<times> 'w word \<times> 'w word"

definition sha2_new_word :: "('w :: len word \<Rightarrow> 'w word) \<Rightarrow> ('w word \<Rightarrow> 'w word) \<Rightarrow> (nat \<Rightarrow> 'w word) \<Rightarrow> 'w word" where
  "sha2_new_word sg0 sg1 w = sg1 (w 2) + w 7 + sg0 (w 15) + w 16"

definition sha2_round ::
  "('w :: len word \<Rightarrow> 'w word) \<Rightarrow> ('w word \<Rightarrow> 'w word) \<Rightarrow> 'w word list \<Rightarrow> 'w word list \<Rightarrow> nat \<Rightarrow> 'w regs8 \<Rightarrow> 'w regs8" where
  "sha2_round Sg0 Sg1 K W i = (\<lambda>(a, b, c, d, e, f, g, h).
     let temp1 = h + Sg1 e + SHA_Ch e f g + K ! i + W ! i;
         temp2 = Sg0 a + SHA_Maj a b c
     in (temp1 + temp2, a, b, c, d + temp1, e, f, g))"

definition sha2_compress ::
  "nat \<Rightarrow> ('w :: len word \<Rightarrow> 'w word) \<Rightarrow> ('w word \<Rightarrow> 'w word) \<Rightarrow> ('w word \<Rightarrow> 'w word) \<Rightarrow> ('w word \<Rightarrow> 'w word) \<Rightarrow>
   'w word list \<Rightarrow> 'w word list \<Rightarrow> 'w word list \<Rightarrow> 'w word list" where
  "sha2_compress n Sg0 Sg1 sg0 sg1 K H X =
     (let W = schedule (sha2_new_word sg0 sg1) X (n - 16);
          (a, b, c, d, e, f, g, h) = fold (sha2_round Sg0 Sg1 K W) [0..<n]
            (H ! 0, H ! 1, H ! 2, H ! 3, H ! 4, H ! 5, H ! 6, H ! 7)
      in [H ! 0 + a, H ! 1 + b, H ! 2 + c, H ! 3 + d, H ! 4 + e, H ! 5 + f, H ! 6 + g, H ! 7 + h])"

definition view8 :: "nat \<Rightarrow> 'w :: len sha2_work \<Rightarrow> 'w regs8" where
  "view8 i = (\<lambda>(r, d). (r ! reg 8 i 0, r ! reg 8 i 1, r ! reg 8 i 2, r ! reg 8 i 3, r ! reg 8 i 4, r ! reg 8 i 5,
     r ! reg 8 i 6, r ! reg 8 i 7))"

definition sha2_work_ok :: "nat \<Rightarrow> 'w :: len word list \<Rightarrow> nat \<Rightarrow> 'w sha2_work \<Rightarrow> bool" where
  "sha2_work_ok N W i = (\<lambda>(r, d). length r = 8 \<and> length d = N \<and> (\<forall>j. j < 16 \<or> j < i \<longrightarrow> d ! j = W ! j))"

lemma view8_Suc:
  assumes "length r = 8"
  shows "view8 (Suc i) (r[reg 8 i 3 := p, reg 8 i 7 := q], d) =
    (q, r ! reg 8 i 0, r ! reg 8 i 1, r ! reg 8 i 2, p, r ! reg 8 i 4, r ! reg 8 i 5, r ! reg 8 i 6)"
  using assms reg_Suc(2) [of 8 i] reg_Suc(1) [of 8 i 0] reg_Suc(1) [of 8 i 1] reg_Suc(1) [of 8 i 2] reg_Suc(1) [of 8 i 3]
    reg_Suc(1) [of 8 i 4] reg_Suc(1) [of 8 i 5] reg_Suc(1) [of 8 i 6]
  by (simp add: view8_def reg_less reg_eq nth_list_update numeral_eq_Suc)

definition sha256_line :: "nat \<Rightarrow> 32 sha2_work \<Rightarrow> 32 sha2_work" where
  "sha256_line i =
     (if i < 16 then CSHA256_16 (reg 8 i 0) (reg 8 i 1) (reg 8 i 2) (reg 8 i 3) (reg 8 i 4) (reg 8 i 5) (reg 8 i 6) (reg 8 i 7) i i
      else CSHA256_48 (reg 8 i 0) (reg 8 i 1) (reg 8 i 2) (reg 8 i 3) (reg 8 i 4) (reg 8 i 5) (reg 8 i 6) (reg 8 i 7) i
        i (i - 2) (i - 7) (i - 15) (i - 16))"

definition sha512_line :: "nat \<Rightarrow> 64 sha2_work \<Rightarrow> 64 sha2_work" where
  "sha512_line i =
     (if i < 16 then CSHA512_16 (reg 8 i 0) (reg 8 i 1) (reg 8 i 2) (reg 8 i 3) (reg 8 i 4) (reg 8 i 5) (reg 8 i 6) (reg 8 i 7) i i
      else CSHA512_64 (reg 8 i 0) (reg 8 i 1) (reg 8 i 2) (reg 8 i 3) (reg 8 i 4) (reg 8 i 5) (reg 8 i 6) (reg 8 i 7) i
        i (i - 2) (i - 7) (i - 15) (i - 16))"

lemma upto_sha2: "[0..<64] = [0, 1, 2, 3, 4, 5, 6, 7, 8, 9, 10, 11, 12, 13, 14, 15, 16, 17, 18, 19, 20, 21, 22, 23,
     24, 25, 26, 27, 28, 29, 30, 31, 32, 33, 34, 35, 36, 37, 38, 39, 40, 41, 42, 43, 44, 45, 46, 47,
     48, 49, 50, 51, 52, 53, 54, 55, 56, 57, 58, 59, 60, 61, 62, 63]" "[0..<80] = [0, 1, 2, 3, 4, 5, 6, 7, 8, 9, 10, 11, 12, 13, 14, 15, 16, 17, 18, 19, 20, 21, 22, 23,
     24, 25, 26, 27, 28, 29, 30, 31, 32, 33, 34, 35, 36, 37, 38, 39, 40, 41, 42, 43, 44, 45, 46, 47,
     48, 49, 50, 51, 52, 53, 54, 55, 56, 57, 58, 59, 60, 61, 62, 63, 64, 65, 66, 67, 68, 69, 70, 71,
     72, 73, 74, 75, 76, 77, 78, 79]"
  by code_simp+

lemma sha256_calls_lines: "sha256_calls = map sha256_line [0..<64]"
  by (simp add: sha256_calls_def upto_sha2 sha256_line_def reg_def numeral_2_eq_2 [symmetric])

lemma sha512_calls_lines: "sha512_calls = map sha512_line [0..<80]"
  by (simp add: sha512_calls_def upto_sha2 sha512_line_def reg_def numeral_2_eq_2 [symmetric])

text \<open>One call, for both sizes.\<close>

definition sha2_line ::
  "('w :: len word \<Rightarrow> 'w word) \<Rightarrow> ('w word \<Rightarrow> 'w word) \<Rightarrow> ('w word \<Rightarrow> 'w word) \<Rightarrow> ('w word \<Rightarrow> 'w word) \<Rightarrow>
   'w word list \<Rightarrow> nat \<Rightarrow> 'w sha2_work \<Rightarrow> 'w sha2_work" where
  "sha2_line Sg0 Sg1 sg0 sg1 K i = (\<lambda>(r, D).
     let D = (if i < 16 then D else D[i := sg1 (D ! (i - 2)) + D ! (i - 7) + sg0 (D ! (i - 15)) + D ! (i - 16)]);
         temp1 = r ! reg 8 i 7 + Sg1 (r ! reg 8 i 4) + SHA_Ch (r ! reg 8 i 4) (r ! reg 8 i 5) (r ! reg 8 i 6) + K ! i + D ! i;
         temp2 = Sg0 (r ! reg 8 i 0) + SHA_Maj (r ! reg 8 i 0) (r ! reg 8 i 1) (r ! reg 8 i 2)
     in (r[reg 8 i 3 := r ! reg 8 i 3 + temp1, reg 8 i 7 := temp1 + temp2], D))"

lemma sha256_line_eq: "sha256_line = sha2_line SHA256_SIGMA0 SHA256_SIGMA1 SHA256_sigma0 SHA256_sigma1 K256"
  by (intro ext) (simp add: sha256_line_def sha2_line_def CSHA256_16_def CSHA256_48_def Let_def split: prod.split)

lemma sha512_line_eq: "sha512_line = sha2_line SHA512_SIGMA0 SHA512_SIGMA1 SHA512_sigma0 SHA512_sigma1 K512"
  by (intro ext) (simp add: sha512_line_def sha2_line_def CSHA512_16_def CSHA512_64_def Let_def split: prod.split)

lemma sha2_line_step:
  assumes ok: "sha2_work_ok N W i work" and i: "i < N"
    and W: "16 \<le> i \<Longrightarrow> W ! i = sha2_new_word sg0 sg1 (\<lambda>k. W ! (i - k))"
  shows "sha2_work_ok N W (Suc i) (sha2_line Sg0 Sg1 sg0 sg1 K i work) \<and>
    view8 (Suc i) (sha2_line Sg0 Sg1 sg0 sg1 K i work) = sha2_round Sg0 Sg1 K W i (view8 i work)"
proof -
  obtain r D where work: "work = (r, D)" by fastforce
  have len: "length r = 8" "length D = N" using ok by (simp_all add: work sha2_work_ok_def)
  let ?D = "if i < 16 then D else D[i := sg1 (D ! (i - 2)) + D ! (i - 7) + sg0 (D ! (i - 15)) + D ! (i - 16)]"
  have "D ! (i - k) = W ! (i - k)" if "16 \<le> i" "0 < k" for k
    using ok that by (simp add: work sha2_work_ok_def)
  then have D: "?D = (if i < 16 then D else D[i := W ! i])"
    using W by (simp add: sha2_new_word_def)
  have "sha2_work_ok N W (Suc i) (r, ?D)"
    unfolding D using ok i by (auto simp: work sha2_work_ok_def nth_list_update less_Suc_eq)
  moreover have "?D ! i = W ! i"
    unfolding D using ok i len by (auto simp: work sha2_work_ok_def)
  ultimately show ?thesis
    using view8_Suc [OF len(1), of i] by (simp add: work sha2_line_def Let_def sha2_work_ok_def sha2_round_def view8_def [of i])
qed

lemma length_8_cases:
  assumes "length v = 8"
  shows "v = [v ! 0, v ! 1, v ! 2, v ! 3, v ! 4, v ! 5, v ! 6, v ! 7]"
  by (rule nth_equalityI) (use assms in \<open>auto simp: less_Suc_eq numeral_eq_Suc\<close>)

lemma map2_add_8:
  assumes "length h = 8" "length v = 8"
  shows "map2 (+) h v = [h ! 0 + v ! 0, h ! 1 + v ! 1, h ! 2 + v ! 2, h ! 3 + v ! 3, h ! 4 + v ! 4, h ! 5 + v ! 5,
    h ! 6 + v ! 6, h ! 7 + (v ! 7 :: 'w :: len word)]"
  by (rule nth_equalityI) (use assms in \<open>auto simp: less_Suc_eq numeral_eq_Suc\<close>)

lemma sha2_calls_loop:
  assumes len: "length H = 8" "length D = N" and n: "n mod 8 = 0" "16 \<le> n" "n \<le> N"
    and rd: "foldl (\<lambda>work c. c work) (H, D) (map (sha2_line Sg0 Sg1 sg0 sg1 K) [0..<n]) = (r, d)"
  shows "length d = N" and "map2 (+) H r = sha2_compress n Sg0 Sg1 sg0 sg1 K H (take 16 D)"
proof -
  let ?X = "take 16 D"
  define W where "W = schedule (sha2_new_word sg0 sg1) ?X (n - 16)"
  have X: "length ?X = 16" using len n by simp
  have W: "W ! i = sha2_new_word sg0 sg1 (\<lambda>k. W ! (i - k))" if "16 \<le> i" "i < n" for i
    using schedule_new [of ?X "i - 16" "n - 16" "sha2_new_word sg0 sg1"] that X by (simp add: sha2_new_word_def W_def)
  have start: "sha2_work_ok N W 0 (H, D)"
    using len n schedule_nth [of _ ?X 0 "n - 16" "sha2_new_word sg0 sg1"] X by (simp add: sha2_work_ok_def W_def)
  have "sha2_work_ok N W n (r, d) \<and> view8 n (r, d) = fold (sha2_round Sg0 Sg1 K W) [0..<n] (view8 0 (H, D))"
    unfolding rd [symmetric]
  proof (rule unrolled_loop)
    fix i and v :: "'a sha2_work"
    assume i: "i < n" and v: "sha2_work_ok N W i v"
    have "i < N" using i n(3) by simp
    then show "sha2_work_ok N W (Suc i) (sha2_line Sg0 Sg1 sg0 sg1 K i v) \<and>
        view8 (Suc i) (sha2_line Sg0 Sg1 sg0 sg1 K i v) = sha2_round Sg0 Sg1 K W i (view8 i v)"
      by (rule sha2_line_step [OF v]) (use W i in simp)
  qed (rule start)
  moreover have "view8 0 (H, D) = (H ! 0, H ! 1, H ! 2, H ! 3, H ! 4, H ! 5, H ! 6, H ! 7)"
    by (simp add: view8_def reg_def)
  moreover have "view8 n (r, d) = (r ! 0, r ! 1, r ! 2, r ! 3, r ! 4, r ! 5, r ! 6, r ! 7)"
    using n(1) by (simp add: view8_def reg_def)
  ultimately have f: "fold (sha2_round Sg0 Sg1 K W) [0..<n] (H ! 0, H ! 1, H ! 2, H ! 3, H ! 4, H ! 5, H ! 6, H ! 7) =
      (r ! 0, r ! 1, r ! 2, r ! 3, r ! 4, r ! 5, r ! 6, r ! 7)" and l: "length d = N" "length r = 8"
    by (simp_all add: sha2_work_ok_def)
  show "length d = N" by (rule l)
  show "map2 (+) H r = sha2_compress n Sg0 Sg1 sg0 sg1 K H ?X"
    by (simp only: sha2_compress_def W_def [symmetric] f Let_def prod.case map2_add_8 [OF len(1) l(2)])
qed

subsection \<open>\<open>Block\<close>\<close>

definition SHA256_Block :: "(32, 64 word) sha2_state \<Rightarrow> (32, 64 word) sha2_state" where
  "SHA256_Block s = (let (r, d) = foldl (\<lambda>work c. c work) (iRegs s, iData s) sha256_calls
     in s\<lparr>iRegs := map2 (+) (iRegs s) r, iData := d, iNl := 0\<rparr>)"

definition SHA512_Block :: "(64, 64 word \<times> 64 word) sha2_state \<Rightarrow> (64, 64 word \<times> 64 word) sha2_state" where
  "SHA512_Block s = (let (r, d) = foldl (\<lambda>work c. c work) (iRegs s, iData s) sha512_calls
     in s\<lparr>iRegs := map2 (+) (iRegs s) r, iData := d, iNl := 0\<rparr>)"

definition sha256_compress :: "32 word list \<Rightarrow> 32 word list \<Rightarrow> 32 word list" where
  "sha256_compress = sha2_compress 64 SHA256_SIGMA0 SHA256_SIGMA1 SHA256_sigma0 SHA256_sigma1 K256"

definition sha512_compress :: "64 word list \<Rightarrow> 64 word list \<Rightarrow> 64 word list" where
  "sha512_compress = sha2_compress 80 SHA512_SIGMA0 SHA512_SIGMA1 SHA512_sigma0 SHA512_sigma1 K512"

lemma sha256_Block_loop:
  assumes "length (iRegs s) = 8" and "length (iData s) = 64"
  shows "\<exists>d. length d = 64 \<and> SHA256_Block s = s\<lparr>iRegs := sha256_compress (iRegs s) (take 16 (iData s)), iData := d, iNl := 0\<rparr>"
proof -
  obtain r d where rd: "foldl (\<lambda>work c. c work) (iRegs s, iData s) sha256_calls = (r, d)" by fastforce
  note loop = sha2_calls_loop [OF assms _ _ _ rd [unfolded sha256_calls_lines sha256_line_eq]]
  show ?thesis
    using loop by (intro exI [of _ d]) (simp add: SHA256_Block_def rd sha256_compress_def)
qed

lemma sha512_Block_loop:
  assumes "length (iRegs s) = 8" and "length (iData s) = 128"
  shows "\<exists>d. length d = 128 \<and> SHA512_Block s = s\<lparr>iRegs := sha512_compress (iRegs s) (take 16 (iData s)), iData := d, iNl := 0\<rparr>"
proof -
  obtain r d where rd: "foldl (\<lambda>work c. c work) (iRegs s, iData s) sha512_calls = (r, d)" by fastforce
  note loop = sha2_calls_loop [OF assms _ _ _ rd [unfolded sha512_calls_lines sha512_line_eq]]
  show ?thesis
    using loop by (intro exI [of _ d]) (simp add: SHA512_Block_def rd sha512_compress_def)
qed

lemma length_sha2_compress [simp]: "length (sha256_compress h ws) = 8" "length (sha512_compress v us) = 8"
  by (simp_all add: sha256_compress_def sha512_compress_def sha2_compress_def Let_def split: prod.split)

end
