(* ===== verification/Sha2.thy ===== *)
theory Sha2
  imports Sha2Blocks
begin

section \<open>\<open>CSHA2\<close> (\<open>sha2.cpp\<close>)\<close>

text \<open>
  The counters of the two implementation classes, which panic when the length of the message
  no longer fits, the choice of initial values and hash size by \<open>CSHA2::ConstructL\<close>, and the
  digests of FIPS 180 that the four algorithms compute.
\<close>

subsection \<open>\<open>AddLength\<close>\<close>

text \<open>Reason \<open>9\<close> stands for \<open>KErrOverflow\<close>, which is \<open>-9\<close>.\<close>

definition SHA256_AddLength :: "nat \<Rightarrow> 64 word \<Rightarrow> 64 word result" where
  "SHA256_AddLength aLength nh =
     (let temp = nh;
          nh = nh + ucast (push_bit 3 (of_nat aLength :: tuint))
      in if temp \<le> nh then Ok nh else Leave (Panic 9))"

definition SHA512_AddLength :: "nat \<Rightarrow> 64 word \<times> 64 word \<Rightarrow> (64 word \<times> 64 word) result" where
  "SHA512_AddLength aLength = (\<lambda>(nh, nl).
     let temp = nl;
         nl = nl + push_bit 3 (of_nat aLength)
     in if nh \<noteq> - 1 \<or> temp \<le> nl then Ok (nh + (if temp > nl then 1 else 0), nl) else Leave (Panic 9))"

definition SHA256_lengthWords :: "64 word \<Rightarrow> 32 word \<times> 32 word" where
  "SHA256_lengthWords nh = (ucast (drop_bit 32 nh), ucast (nh AND 0xFFFFFFFF))"

subsection \<open>The algorithms\<close>

datatype TSH2Algo = E224Bit | E256Bit | E384Bit | E512Bit

definition SHA224InitVals :: "32 word list" where
  "SHA224InitVals = [0xc1059ed8, 0x367cd507, 0x3070dd17, 0xf70e5939, 0xffc00b31, 0x68581511, 0x64f98fa7, 0xbefa4fa4]"
definition SHA256InitVals :: "32 word list" where
  "SHA256InitVals = [0x6a09e667, 0xbb67ae85, 0x3c6ef372, 0xa54ff53a, 0x510e527f, 0x9b05688c, 0x1f83d9ab, 0x5be0cd19]"
definition SHA384InitVals :: "64 word list" where
  "SHA384InitVals = [0xcbbb9d5dc1059ed8, 0x629a292a367cd507, 0x9159015a3070dd17, 0x152fecd8f70e5939,
     0x67332667ffc00b31, 0x8eb44a8768581511, 0xdb0c2e0d64f98fa7, 0x47b5481dbefa4fa4]"
definition SHA512InitVals :: "64 word list" where
  "SHA512InitVals = [0x6a09e667f3bcc908, 0xbb67ae8584caa73b, 0x3c6ef372fe94f82b, 0xa54ff53a5f1d36f1,
     0x510e527fade682d1, 0x9b05688c2b3e6c1f, 0x1f83d9abfb41bd6b, 0x5be0cd19137e2179]"

type_synonym sha256_state = "(32, 64 word) sha2_state"
type_synonym sha512_state = "(64, 64 word \<times> 64 word) sha2_state"

text \<open>\<open>iImplementation\<close> is of one of two classes; the constructor fixes which.\<close>

datatype sha2_impl = Impl256 (the_256: sha256_state) | Impl512 (the_512: sha512_state)

definition fresh256 :: sha256_state where
  "fresh256 = \<lparr>iRegs = replicate 8 0, iData = replicate 64 0, iNl = 0, iNh = 0, iHash = replicate 32 0,
     iRegsCopy = replicate 8 0, iDataCopy = replicate 64 0, iNlCopy = 0, iNhCopy = 0\<rparr>"

definition fresh512 :: sha512_state where
  "fresh512 = \<lparr>iRegs = replicate 8 0, iData = replicate 128 0, iNl = 0, iNh = (0, 0), iHash = replicate 64 0,
     iRegsCopy = replicate 8 0, iDataCopy = replicate 128 0, iNlCopy = 0, iNhCopy = (0, 0)\<rparr>"

definition SHA256_Reset :: "32 word list \<Rightarrow> sha256_state \<Rightarrow> sha256_state" where
  "SHA256_Reset values s = s\<lparr>iRegs := take 8 values, iNh := 0, iNl := 0\<rparr>"

definition SHA512_Reset :: "64 word list \<Rightarrow> sha512_state \<Rightarrow> sha512_state" where
  "SHA512_Reset values s = s\<lparr>iRegs := take 8 values, iNh := (0, 0), iNl := 0\<rparr>"

definition SHA256_Update :: "sha256_state \<Rightarrow> byte list \<Rightarrow> sha256_state result" where
  "SHA256_Update = sha2_Update 4 SHA256_AddLength SHA256_Block"

definition SHA512_Update :: "sha512_state \<Rightarrow> byte list \<Rightarrow> sha512_state result" where
  "SHA512_Update = sha2_Update 8 SHA512_AddLength SHA512_Block"

definition SHA256_Final :: "sha256_state \<Rightarrow> sha256_state result" where
  "SHA256_Final = sha2_Final 4 SHA256_AddLength SHA256_lengthWords SHA256_Block"

definition SHA512_Final :: "sha512_state \<Rightarrow> sha512_state result" where
  "SHA512_Final = sha2_Final 8 SHA512_AddLength (\<lambda>n. n) SHA512_Block"

definition sha2_HashSize :: "TSH2Algo \<Rightarrow> nat" where
  "sha2_HashSize a = (case a of E224Bit \<Rightarrow> 28 | E256Bit \<Rightarrow> 32 | E384Bit \<Rightarrow> 48 | E512Bit \<Rightarrow> 64)"

definition SHA224_ops :: "sha256_state digest_ops" where
  "SHA224_ops = class_ops 64 28 SHA256_Update SHA256_Final (SHA256_Reset SHA224InitVals) 64 fresh256"
definition SHA256_ops :: "sha256_state digest_ops" where
  "SHA256_ops = class_ops 64 32 SHA256_Update SHA256_Final (SHA256_Reset SHA256InitVals) 64 fresh256"
definition SHA384_ops :: "sha512_state digest_ops" where
  "SHA384_ops = class_ops 128 48 SHA512_Update SHA512_Final (SHA512_Reset SHA384InitVals) 128 fresh512"
definition SHA512_ops :: "sha512_state digest_ops" where
  "SHA512_ops = class_ops 128 64 SHA512_Update SHA512_Final (SHA512_Reset SHA512InitVals) 128 fresh512"

text \<open>
  \<open>CSHA2\<close> calls its implementation object; the functions for each algorithm.
\<close>

definition CSHA2_ops :: "TSH2Algo \<Rightarrow> sha2_impl digest_ops" where
  "CSHA2_ops a = (case a of E224Bit \<Rightarrow> lift_ops Impl256 the_256 SHA224_ops | E256Bit \<Rightarrow> lift_ops Impl256 the_256 SHA256_ops
     | E384Bit \<Rightarrow> lift_ops Impl512 the_512 SHA384_ops | E512Bit \<Rightarrow> lift_ops Impl512 the_512 SHA512_ops)"

fun CSHA2_NewL :: "TSH2Algo \<Rightarrow> sha2_impl" where
  "CSHA2_NewL E224Bit = Impl256 (SHA256_Reset SHA224InitVals fresh256)"
| "CSHA2_NewL E256Bit = Impl256 (SHA256_Reset SHA256InitVals fresh256)"
| "CSHA2_NewL E384Bit = Impl512 (SHA512_Reset SHA384InitVals fresh512)"
| "CSHA2_NewL E512Bit = Impl512 (SHA512_Reset SHA512InitVals fresh512)"

subsection \<open>The specification\<close>

definition sha256_length_bytes :: "nat \<Rightarrow> byte list" where
  "sha256_length_bytes l = CopyWordToHash 4 (of_nat (8 * l div 2 ^ 32) :: 32 word) @ CopyWordToHash 4 (of_nat (8 * l) :: 32 word)"

definition sha512_length_bytes :: "nat \<Rightarrow> byte list" where
  "sha512_length_bytes l = CopyWordToHash 8 (of_nat (8 * l div 2 ^ 64) :: 64 word) @ CopyWordToHash 8 (of_nat (8 * l) :: 64 word)"

definition fips180_256 :: "nat \<Rightarrow> 32 word list \<Rightarrow> byte list \<Rightarrow> byte list" where
  "fips180_256 hs iv m = take hs (concat (map (CopyWordToHash 4) (merkle_damgard 64 4
     (\<lambda>h xs. sha256_compress h (words_of (sh_sha2 4) 4 xs)) iv sha256_length_bytes m)))"

definition fips180_512 :: "nat \<Rightarrow> 64 word list \<Rightarrow> byte list \<Rightarrow> byte list" where
  "fips180_512 hs iv m = take hs (concat (map (CopyWordToHash 8) (merkle_damgard 128 8
     (\<lambda>h xs. sha512_compress h (words_of (sh_sha2 8) 8 xs)) iv sha512_length_bytes m)))"

definition fips180_sha2 :: "TSH2Algo \<Rightarrow> byte list \<Rightarrow> byte list" where
  "fips180_sha2 a = (case a of E224Bit \<Rightarrow> fips180_256 28 SHA224InitVals | E256Bit \<Rightarrow> fips180_256 32 SHA256InitVals
     | E384Bit \<Rightarrow> fips180_512 48 SHA384InitVals | E512Bit \<Rightarrow> fips180_512 64 SHA512InitVals)"

subsection \<open>Counters\<close>

lemma bit_pack_iff:
  "bit (pack sh w f :: 'w :: len word) n \<longleftrightarrow> n < LENGTH('w) \<and> (\<exists>t<w. sh t \<le> n \<and> bit (f t) (n - sh t))"
  by (induction w) (auto simp: digest_simps bit_simps less_Suc_eq dest: bit_imp_le_length)

lemma word_of_copy:
  assumes "LENGTH('w :: len) = 8 * w"
  shows "word_at (sh_sha2 w) w (CopyWordToHash w (v :: 'w word) @ ys) 0 = v"
proof (rule bit_word_eqI)
  fix n assume n: "n < LENGTH('w)"
  have b: "byte_at (CopyWordToHash w v @ ys) t = ucast (drop_bit (8 * (w - 1 - t)) v)" if "t < w" for t
    using that by (simp add: byte_at_def CopyWordToHash_def nth_append)
  let ?t = "w - 1 - n div 8"
  have "n div 8 < w" using n assms by (simp add: less_mult_imp_div_less mult.commute)
  then have t: "?t < w" "w - 1 - ?t = n div 8" by simp_all
  have m: "n = 8 * (n div 8) + n mod 8" by simp
  have p: "bit (ucast (drop_bit (8 * k) v) :: byte) (n - 8 * k) \<longleftrightarrow> n - 8 * k < 8 \<and> bit v n"
    if "8 * k \<le> n" for k
    using that by (simp add: bit_simps)
  have "n - 8 * (n div 8) < 8" "8 * (n div 8) \<le> n" using m by linarith+
  then have "bit v n \<Longrightarrow> bit (ucast (drop_bit (8 * (n div 8)) v) :: byte) (n - 8 * (n div 8))"
    using p by simp
  moreover have "bit (word_at (sh_sha2 w) w (CopyWordToHash w v @ ys) 0 :: 'w word) n \<longleftrightarrow>
      (\<exists>t<w. 8 * (w - 1 - t) \<le> n \<and> bit (ucast (drop_bit (8 * (w - 1 - t)) v) :: byte) (n - 8 * (w - 1 - t)))"
    using n b by (auto simp: word_at_def bit_pack_iff sh_sha2_def)
  ultimately show "bit (word_at (sh_sha2 w) w (CopyWordToHash w v @ ys) 0 :: 'w word) n \<longleftrightarrow> bit v n"
    using p t \<open>8 * (n div 8) \<le> n\<close> by metis
qed

lemma word_of_copy_1: "length us = w \<Longrightarrow> word_at sh w (us @ vs) 1 = word_at sh w vs 0"
  using word_at_append_right [of us w 1 1 sh vs] by simp

lemma length_CopyWord [simp]: "length (CopyWordToHash w v) = w"
  by (simp add: CopyWordToHash_def)

definition cnt256 :: "64 word \<Rightarrow> nat \<Rightarrow> bool" where
  "cnt256 c l \<longleftrightarrow> c = of_nat (8 * l)"

definition cnt512 :: "64 word \<times> 64 word \<Rightarrow> nat \<Rightarrow> bool" where
  "cnt512 c l \<longleftrightarrow> c = (of_nat (8 * l div 2 ^ 64), of_nat (8 * l))"

lemma bits_of_length:
  assumes "k \<le> 128"
  shows "(ucast (push_bit 3 (of_nat k :: tuint)) :: 64 word) = of_nat (8 * k)"
proof -
  have small: "m < 2 ^ 32 \<Longrightarrow> unat (of_nat m :: tuint) = m" for m by (simp add: unat_of_nat)
  have "unat (of_nat (8 * k) :: tuint) = 8 * k" by (rule small) (use assms in simp)
  moreover have "push_bit 3 (of_nat k :: tuint) = of_nat (8 * k)" by (simp add: push_bit_eq_mult)
  ultimately show ?thesis by (metis of_nat_unat)
qed

lemma of_nat_le: "a < 2 ^ 64 \<Longrightarrow> b < 2 ^ 64 \<Longrightarrow> (of_nat a :: 64 word) \<le> of_nat b \<longleftrightarrow> a \<le> b"
  by (simp add: word_le_nat_alt unat_of_nat)

lemma of_nat_wrap: "a < 2 ^ 64 \<Longrightarrow> b mod 2 ^ 64 < a \<Longrightarrow> \<not> (of_nat a :: 64 word) \<le> of_nat b"
  by (simp add: word_le_nat_alt unat_of_nat)

lemma SHA256_AddLength_ok:
  assumes "cnt256 c l" "k \<le> 128" "l + k < 2 ^ 61"
  shows "\<exists>c'. SHA256_AddLength k c = Ok c' \<and> cnt256 c' (l + k)"
proof -
  have "c + ucast (push_bit 3 (of_nat k :: tuint)) = of_nat (8 * (l + k))"
    using assms(1) bits_of_length [OF assms(2)] by (simp add: cnt256_def distrib_left)
  moreover have "(of_nat (8 * l) :: 64 word) \<le> of_nat (8 * (l + k))"
    using assms(3) by (subst of_nat_le) simp_all
  ultimately show ?thesis using assms(1) by (simp add: SHA256_AddLength_def Let_def cnt256_def)
qed

lemma SHA256_AddLength_panics:
  assumes "k \<le> 128" "l < 2 ^ 61" "2 ^ 61 \<le> l + k"
  shows "SHA256_AddLength k (of_nat (8 * l)) = Leave (Panic 9)"
proof -
  have s: "of_nat (8 * l) + ucast (push_bit 3 (of_nat k :: tuint)) = (of_nat (8 * (l + k)) :: 64 word)"
    using bits_of_length [OF assms(1)] by (simp add: distrib_left)
  have "(8 * (l + k)) mod 2 ^ 64 < 8 * l"
  proof -
    have "(8 * (l + k)) mod 2 ^ 64 = (8 * (l + k) - 2 ^ 64) mod 2 ^ 64"
      by (rule le_mod_geq) (use assms(3) in simp)
    also have "\<dots> \<le> 8 * (l + k) - 2 ^ 64" by (rule mod_less_eq_dividend)
    also have "\<dots> < 8 * l" using assms by (simp add: algebra_simps)
    finally show ?thesis .
  qed
  then have "\<not> (of_nat (8 * l) :: 64 word) \<le> of_nat (8 * (l + k))"
    by (intro of_nat_wrap) (use assms(2) in simp_all)
  then show ?thesis by (simp only: SHA256_AddLength_def Let_def s if_False)
qed


lemma of_nat_compare: "(of_nat a :: 64 word) \<le> of_nat b \<longleftrightarrow> a mod 2 ^ 64 \<le> b mod 2 ^ 64"
  by (simp add: word_le_nat_alt unat_of_nat)

lemma of_nat_max: "(of_nat a :: 64 word) = - 1 \<Longrightarrow> a < 2 ^ 64 \<Longrightarrow> a = 2 ^ 64 - 1"
proof -
  assume a: "(of_nat a :: 64 word) = - 1"
  assume "a < 2 ^ 64"
  then have "unat (of_nat a :: 64 word) = a" by (simp add: unat_of_nat del: of_nat_eq_iff)
  moreover have "unat (- 1 :: 64 word) = 2 ^ 64 - 1" by (simp add: unsigned_minus_1_eq_mask mask_eq_exp_minus_1)
  ultimately show ?thesis using a by simp
qed

lemma add_high_low:
  fixes a b :: nat
  assumes "b < M"
  shows "(a + b) div M = a div M + (if (a + b) mod M < a mod M then 1 else 0)"
proof -
  have M: "0 < M" using assms by simp
  have "(a + b) div M = a div M + (a mod M + b) div M"
    using assms by (simp add: div_add1_eq [of a b M])
  moreover have "(a + b) mod M = (a mod M + b) mod M" by (simp add: mod_add_left_eq)
  moreover have "a mod M < M" using M by simp
  moreover have "(a mod M + b) div M = 1 \<and> (a mod M + b) mod M = a mod M + b - M" if "\<not> a mod M + b < M"
  proof -
    have "a mod M + b - M < M" using assms \<open>a mod M < M\<close> by linarith
    then show ?thesis using that M le_div_geq [of M "a mod M + b"] le_mod_geq [of M "a mod M + b"] by simp
  qed
  ultimately show ?thesis
    using assms by (cases "a mod M + b < M") simp_all
qed

lemma SHA512_AddLength_ok:
  assumes "cnt512 c l" "k \<le> 128" "l + k < 2 ^ 125"
  shows "\<exists>c'. SHA512_AddLength k c = Ok c' \<and> cnt512 c' (l + k)"
proof -
  have c: "c = (of_nat (8 * l div 2 ^ 64), of_nat (8 * l))" using assms(1) by (simp only: cnt512_def)
  have s: "(of_nat (8 * l) :: 64 word) + push_bit 3 (of_nat k) = of_nat (8 * l + 8 * k)"
    by (simp add: push_bit_eq_mult)
  let ?carry = "(8 * l + 8 * k) mod 2 ^ 64 < (8 * l) mod 2 ^ 64"
  have le: "(of_nat (8 * l) :: 64 word) \<le> of_nat (8 * l + 8 * k) \<longleftrightarrow> \<not> ?carry"
    by (simp only: of_nat_compare not_less)
  then have lt: "(of_nat (8 * l + 8 * k) :: 64 word) < of_nat (8 * l) \<longleftrightarrow> ?carry"
    by (metis not_le)
  have div: "(8 * l + 8 * k) div 2 ^ 64 = 8 * l div 2 ^ 64 + (if ?carry then 1 else 0)"
    by (rule add_high_low) (use assms(2) in simp)
  have "8 * l + 8 * k < 2 ^ 64 * 2 ^ 64" using assms(3) by simp
  then have "(8 * l + 8 * k) div 2 ^ 64 < 2 ^ 64" by (rule less_mult_imp_div_less)
  then have "?carry \<Longrightarrow> 8 * l div 2 ^ 64 + 1 < 2 ^ 64" using div by simp
  then have top: "?carry \<Longrightarrow> (of_nat (8 * l div 2 ^ 64) :: 64 word) \<noteq> - 1"
    using of_nat_max [of "8 * l div 2 ^ 64"] by force
  have "SHA512_AddLength k c = Ok (of_nat (8 * l div 2 ^ 64) + (if ?carry then 1 else 0), of_nat (8 * l + 8 * k))"
    using top by (cases ?carry) (simp_all only: c SHA512_AddLength_def prod.case Let_def s le lt if_True if_False simp_thms not_True_eq_False not_False_eq_True)
  moreover have "(of_nat (8 * l div 2 ^ 64) + (if ?carry then 1 else 0) :: 64 word) = of_nat ((8 * l + 8 * k) div 2 ^ 64)"
    by (simp only: div of_nat_add) simp
  moreover have "8 * (l + k) = 8 * l + 8 * k" by simp
  ultimately show ?thesis by (simp only: cnt512_def) blast
qed

subsection \<open>The contract of the four algorithms\<close>

lemma low_and_high_word:
  assumes "N < 2 ^ 64"
  shows "SHA256_lengthWords (of_nat N) = (of_nat (N div 2 ^ 32), of_nat N)"
proof -
  have n: "unat (of_nat N :: 64 word) = N" using assms by (simp add: unat_of_nat)
  have "unat (ucast (drop_bit 32 (of_nat N :: 64 word)) :: 32 word) = N div 2 ^ 32 mod 2 ^ 32"
    by (simp add: unsigned_ucast_eq unsigned_drop_bit_eq n take_bit_eq_mod drop_bit_eq_div unat_div)
  moreover have mask: "(of_nat N :: 64 word) AND 0xFFFFFFFF = take_bit 32 (of_nat N)"
    by (simp add: take_bit_eq_mask mask_eq_exp_minus_1)
  moreover have "unat (ucast (take_bit 32 (of_nat N :: 64 word)) :: 32 word) = N mod 2 ^ 32"
    by (simp add: unsigned_ucast_eq n take_bit_eq_mod unat_mod_distrib)
  ultimately show ?thesis
    by (simp only: SHA256_lengthWords_def mask prod.inject word_unat_eq_iff) (simp add: unat_of_nat)
qed

lemma word_of_copy_32: "word_at (sh_sha2 4) 4 (CopyWordToHash 4 (v :: 32 word) @ ys) 0 = v"
  and word_of_copy_64: "word_at (sh_sha2 8) 8 (CopyWordToHash 8 (u :: 64 word) @ ys) 0 = u"
  by (rule word_of_copy, simp)+

lemma sha256_length_ok:
  assumes "l < 2 ^ 61"
  shows "SHA256_lengthWords (of_nat (8 * l)) =
    (word_at (sh_sha2 4) 4 (sha256_length_bytes l) 0, word_at (sh_sha2 4) 4 (sha256_length_bytes l) 1)"
proof -
  have "SHA256_lengthWords (of_nat (8 * l)) = (of_nat (8 * l div 2 ^ 32), of_nat (8 * l))"
    by (rule low_and_high_word) (use assms in simp)
  then show ?thesis
    using word_of_copy_32 [of "of_nat (8 * l)" "[]"]
    by (simp only: sha256_length_bytes_def word_of_copy_32 word_of_copy_1 length_CopyWord append_Nil2)
qed

lemma sha512_length_ok:
  "(of_nat (8 * l div 2 ^ 64) :: 64 word, of_nat (8 * l) :: 64 word) =
    (word_at (sh_sha2 8) 8 (sha512_length_bytes l) 0, word_at (sh_sha2 8) 8 (sha512_length_bytes l) 1)"
  using word_of_copy_64 [of "of_nat (8 * l)" "[]"]
  by (simp only: sha512_length_bytes_def word_of_copy_64 word_of_copy_1 length_CopyWord append_Nil2)

lemma length_initial [simp]: "length SHA224InitVals = 8" "length SHA256InitVals = 8"
    "length SHA384InitVals = 8" "length SHA512InitVals = 8"
  by (simp_all add: SHA224InitVals_def SHA256InitVals_def SHA384InitVals_def SHA512InitVals_def)

lemma sha256_class:
  assumes "length iv = 8" "hs \<le> 32"
  shows "sha2_class 4 64 (2 ^ 61) SHA256_AddLength SHA256_lengthWords SHA256_Block cnt256 sha256_compress iv sha256_length_bytes 0 hs fresh256"
proof
  show "\<exists>d. length d = 64 \<and> SHA256_Block s = s\<lparr>iRegs := sha256_compress (iRegs s) (take 16 (iData s)), iData := d, iNl := 0\<rparr>"
    if "length (iData s) = 64" "length (iRegs s) = 8" for s
    using sha256_Block_loop that by blast
  show "\<exists>c'. SHA256_AddLength k c = Ok c' \<and> cnt256 c' (l + k)"
    if "cnt256 c l" "k \<le> 16 * 4" "l + k < 2 ^ 61" for c l k
    using SHA256_AddLength_ok [OF that(1) _ that(3)] that(2) by simp
  show "length (sha256_length_bytes l) = 2 * 4" for l by (simp add: sha256_length_bytes_def)
  show "SHA256_lengthWords c = (word_at (sh_sha2 4) 4 (sha256_length_bytes l) 0, word_at (sh_sha2 4) 4 (sha256_length_bytes l) 1)"
    if "cnt256 c l" "l < 2 ^ 61" for c l
    using sha256_length_ok [OF that(2)] that(1) by (simp only: cnt256_def)
  show "cnt256 0 0" by (simp add: cnt256_def)
qed (use assms in \<open>simp_all add: fresh256_def\<close>)

lemma sha512_class:
  assumes "length iv = 8" "hs \<le> 64"
  shows "sha2_class 8 128 (2 ^ 125) SHA512_AddLength (\<lambda>n. n) SHA512_Block cnt512 sha512_compress iv sha512_length_bytes (0, 0) hs fresh512"
proof
  show "\<exists>d. length d = 128 \<and> SHA512_Block s = s\<lparr>iRegs := sha512_compress (iRegs s) (take 16 (iData s)), iData := d, iNl := 0\<rparr>"
    if "length (iData s) = 128" "length (iRegs s) = 8" for s
    using sha512_Block_loop that by blast
  show "\<exists>c'. SHA512_AddLength k c = Ok c' \<and> cnt512 c' (l + k)"
    if "cnt512 c l" "k \<le> 16 * 8" "l + k < 2 ^ 125" for c l k
    using SHA512_AddLength_ok [OF that(1) _ that(3)] that(2) by simp
  show "length (sha512_length_bytes l) = 2 * 8" for l by (simp add: sha512_length_bytes_def)
  show "c = (word_at (sh_sha2 8) 8 (sha512_length_bytes l) 0, word_at (sh_sha2 8) 8 (sha512_length_bytes l) 1)"
    if "cnt512 c l" for c l
    using sha512_length_ok [of l] that by (simp only: cnt512_def)
  show "cnt512 (0, 0) 0" by (simp add: cnt512_def)
qed (use assms in \<open>simp_all add: fresh512_def\<close>)

interpretation sha224: sha2_class 4 64 "2 ^ 61" SHA256_AddLength SHA256_lengthWords SHA256_Block cnt256 sha256_compress
  SHA224InitVals sha256_length_bytes 0 28 fresh256
  by (rule sha256_class) simp_all

interpretation sha256: sha2_class 4 64 "2 ^ 61" SHA256_AddLength SHA256_lengthWords SHA256_Block cnt256 sha256_compress
  SHA256InitVals sha256_length_bytes 0 32 fresh256
  by (rule sha256_class) simp_all

interpretation sha384: sha2_class 8 128 "2 ^ 125" SHA512_AddLength "\<lambda>n. n" SHA512_Block cnt512 sha512_compress
  SHA384InitVals sha512_length_bytes "(0, 0)" 48 fresh512
  by (rule sha512_class) simp_all

interpretation sha512: sha2_class 8 128 "2 ^ 125" SHA512_AddLength "\<lambda>n. n" SHA512_Block cnt512 sha512_compress
  SHA512InitVals sha512_length_bytes "(0, 0)" 64 fresh512
  by (rule sha512_class) simp_all

end
