(* ===== verification/Md2.thy ===== *)
theory Md2
  imports MessageDigest
begin

section \<open>\<open>CMD2\<close> (\<open>md2.cpp\<close>)\<close>

text \<open>
  MD2 buffers whole bytes and copies them in pieces; checksum and state are arrays of words
  that hold bytes.  The inner loop of \<open>Block\<close> is unrolled eight times over an array of 48
  entries, which makes no difference to the order of its steps.  \<open>rfc1319\<close> is the digest as
  a function of the message.  \<open>StoreState\<close> does not save \<open>iNum\<close>, so this class does not
  keep the contract \<open>restorable_digest\<close>: see \<open>MD2_restore_forgets\<close>.
\<close>

record CMD2 =
  mHash :: "byte list"
  mData :: "byte list"
  mChecksum :: "tuint list"
  mState :: "tuint list"
  mNum :: nat
  mDataTemp :: "byte list"
  mChecksumTemp :: "tuint list"
  mStateTemp :: "tuint list"

definition MD2_S :: "byte list" where
  "MD2_S = [
     0x29, 0x2E, 0x43, 0xC9, 0xA2, 0xD8, 0x7C, 0x01, 0x3D, 0x36, 0x54, 0xA1, 0xEC, 0xF0, 0x06, 0x13,
     0x62, 0xA7, 0x05, 0xF3, 0xC0, 0xC7, 0x73, 0x8C, 0x98, 0x93, 0x2B, 0xD9, 0xBC, 0x4C, 0x82, 0xCA,
     0x1E, 0x9B, 0x57, 0x3C, 0xFD, 0xD4, 0xE0, 0x16, 0x67, 0x42, 0x6F, 0x18, 0x8A, 0x17, 0xE5, 0x12,
     0xBE, 0x4E, 0xC4, 0xD6, 0xDA, 0x9E, 0xDE, 0x49, 0xA0, 0xFB, 0xF5, 0x8E, 0xBB, 0x2F, 0xEE, 0x7A,
     0xA9, 0x68, 0x79, 0x91, 0x15, 0xB2, 0x07, 0x3F, 0x94, 0xC2, 0x10, 0x89, 0x0B, 0x22, 0x5F, 0x21,
     0x80, 0x7F, 0x5D, 0x9A, 0x5A, 0x90, 0x32, 0x27, 0x35, 0x3E, 0xCC, 0xE7, 0xBF, 0xF7, 0x97, 0x03,
     0xFF, 0x19, 0x30, 0xB3, 0x48, 0xA5, 0xB5, 0xD1, 0xD7, 0x5E, 0x92, 0x2A, 0xAC, 0x56, 0xAA, 0xC6,
     0x4F, 0xB8, 0x38, 0xD2, 0x96, 0xA4, 0x7D, 0xB6, 0x76, 0xFC, 0x6B, 0xE2, 0x9C, 0x74, 0x04, 0xF1,
     0x45, 0x9D, 0x70, 0x59, 0x64, 0x71, 0x87, 0x20, 0x86, 0x5B, 0xCF, 0x65, 0xE6, 0x2D, 0xA8, 0x02,
     0x1B, 0x60, 0x25, 0xAD, 0xAE, 0xB0, 0xB9, 0xF6, 0x1C, 0x46, 0x61, 0x69, 0x34, 0x40, 0x7E, 0x0F,
     0x55, 0x47, 0xA3, 0x23, 0xDD, 0x51, 0xAF, 0x3A, 0xC3, 0x5C, 0xF9, 0xCE, 0xBA, 0xC5, 0xEA, 0x26,
     0x2C, 0x53, 0x0D, 0x6E, 0x85, 0x28, 0x84, 0x09, 0xD3, 0xDF, 0xCD, 0xF4, 0x41, 0x81, 0x4D, 0x52,
     0x6A, 0xDC, 0x37, 0xC8, 0x6C, 0xC1, 0xAB, 0xFA, 0x24, 0xE1, 0x7B, 0x08, 0x0C, 0xBD, 0xB1, 0x4A,
     0x78, 0x88, 0x95, 0x8B, 0xE3, 0x63, 0xE8, 0x6D, 0xE9, 0xCB, 0xD5, 0xFE, 0x3B, 0x00, 0x1D, 0x39,
     0xF2, 0xEF, 0xB7, 0x0E, 0x66, 0x58, 0xD0, 0xE4, 0xA6, 0x77, 0x72, 0xF8, 0xEB, 0x75, 0x4B, 0x0A,
     0x31, 0x44, 0x50, 0xB4, 0x8F, 0xED, 0x1F, 0x1A, 0xDB, 0x99, 0x8D, 0x33, 0x9F, 0x11, 0x83, 0x14]"

definition CMD2_S :: "tuint \<Rightarrow> byte \<Rightarrow> tuint" where "CMD2_S elt v = elt XOR ucast v"

text \<open>The loop over the sixteen bytes: checksum with the running value \<open>j\<close>.\<close>

fun md2_checksum :: "tuint \<Rightarrow> tuint list \<Rightarrow> byte list \<Rightarrow> tuint list" where
  "md2_checksum j (c # cs) (d # ds) =
     (let temp = ucast d; c = CMD2_S c (MD2_S ! unat (temp XOR j)) in c # md2_checksum c cs ds)"
| "md2_checksum j _ _ = []"

text \<open>One pass over the array, and the eighteen passes.\<close>

fun md2_pass :: "tuint \<Rightarrow> tuint list \<Rightarrow> tuint \<times> tuint list" where
  "md2_pass temp [] = (temp, [])"
| "md2_pass temp (x # xs) =
     (let temp = CMD2_S x (MD2_S ! unat temp); (t, ys) = md2_pass temp xs in (t, temp # ys))"

fun md2_passes :: "nat list \<Rightarrow> tuint \<Rightarrow> tuint list \<Rightarrow> tuint list" where
  "md2_passes [] temp state = state"
| "md2_passes (i # is) temp state =
     (let (temp, state) = md2_pass temp state in md2_passes is ((temp + of_nat i) AND 0xff) state)"

definition md2_compress :: "tuint list \<times> tuint list \<Rightarrow> byte list \<Rightarrow> tuint list \<times> tuint list" where
  "md2_compress = (\<lambda>(st, ck) data.
     let state = take 16 st @ map ucast (take 16 data) @ map2 (\<lambda>d s. ucast d XOR s) (take 16 data) (take 16 st);
         ck = md2_checksum (ck ! 15) ck (take 16 data)
     in (take 16 (md2_passes [0..<18] 0 state), ck))"

definition MD2_Block :: "CMD2 \<Rightarrow> byte list \<Rightarrow> CMD2" where
  "MD2_Block s data = (let (st, ck) = md2_compress (mState s, mChecksum s) data in s\<lparr>mState := st, mChecksum := ck\<rparr>)"

text \<open>\<open>Mem::Copy(iData+i, aData, n)\<close>.\<close>

definition copy_at :: "byte list \<Rightarrow> nat \<Rightarrow> byte list \<Rightarrow> byte list" where
  "copy_at d i xs = take i d @ xs @ drop (i + length xs) d"

function md2_blocks :: "CMD2 \<Rightarrow> byte list \<Rightarrow> CMD2 \<times> byte list" where
  "md2_blocks s aData = (if length aData \<ge> 16 then md2_blocks (MD2_Block s aData) (drop 16 aData) else (s, aData))"
  by pat_completeness auto
termination by (relation "measure (\<lambda>(_, aData). length aData)") auto

declare md2_blocks.simps [simp del]

definition MD2_DoUpdate :: "CMD2 \<Rightarrow> byte list \<Rightarrow> CMD2" where
  "MD2_DoUpdate s aData =
     (let (s, aData, carryOn) =
        (if mNum s \<noteq> 0 then
           (if mNum s + length aData \<ge> 16 then
              (let temp = 16 - mNum s;
                   s = s\<lparr>mData := copy_at (mData s) (mNum s) (take temp aData)\<rparr>;
                   s = MD2_Block s (mData s)
               in (s\<lparr>mNum := 0\<rparr>, drop temp aData, True))
            else (s\<lparr>mData := copy_at (mData s) (mNum s) aData, mNum := mNum s + length aData\<rparr>, aData, False))
         else (s, aData, True))
      in if carryOn then
           (let (s, aData) = md2_blocks s aData in s\<lparr>mData := copy_at (mData s) 0 aData, mNum := length aData\<rparr>)
         else s)"

definition MD2_DoFinal :: "CMD2 \<Rightarrow> CMD2" where
  "MD2_DoFinal s =
     (let pad = 16 - mNum s;
          s = (if pad > 0 then s\<lparr>mData := copy_at (mData s) (mNum s) (replicate pad (of_nat pad))\<rparr> else s);
          s = MD2_Block s (mData s);
          s = s\<lparr>mData := map ucast (take 16 (mChecksum s))\<rparr>;
          s = MD2_Block s (mData s)
      in s\<lparr>mHash := map (\<lambda>x. ucast (x AND 0xff)) (take 16 (mState s))\<rparr>)"

definition MD2_Reset :: "CMD2 \<Rightarrow> CMD2" where
  "MD2_Reset s = s\<lparr>mData := replicate 16 0, mChecksum := replicate 16 0, mState := replicate 16 0, mNum := 0\<rparr>"

definition MD2_StoreState :: "CMD2 \<Rightarrow> CMD2" where
  "MD2_StoreState s = s\<lparr>mDataTemp := mData s, mChecksumTemp := mChecksum s, mStateTemp := mState s\<rparr>"

definition MD2_RestoreState :: "CMD2 \<Rightarrow> CMD2" where
  "MD2_RestoreState s = s\<lparr>mData := mDataTemp s, mChecksum := mChecksumTemp s, mState := mStateTemp s\<rparr>"

definition MD2_NewL :: CMD2 where
  "MD2_NewL = \<lparr>mHash = replicate 16 0, mData = replicate 16 0, mChecksum = replicate 16 0, mState = replicate 16 0,
     mNum = 0, mDataTemp = replicate 16 0, mChecksumTemp = replicate 16 0, mStateTemp = replicate 16 0\<rparr>"

definition MD2_CopyL :: "CMD2 \<Rightarrow> CMD2" where
  "MD2_CopyL s = MD2_NewL\<lparr>mHash := mHash s, mNum := mNum s, mData := mData s, mChecksum := mChecksum s, mState := mState s\<rparr>"

definition MD2_ops :: "CMD2 digest_ops" where
  "MD2_ops = \<lparr>opBlockSize = 16, opHashSize = 16, opReset = (\<lambda>s. Ok (MD2_Reset s)),
     opUpdate = (\<lambda>s x. Ok (MD2_DoUpdate s x)),
     opFinal = (\<lambda>s. let s = MD2_DoFinal s in Ok (mHash s, MD2_Reset s)),
     opFinalMessage = (\<lambda>s x. let s = MD2_DoFinal (MD2_DoUpdate s x) in Ok (mHash s, MD2_Reset s)),
     opHash = (\<lambda>s x. let s = MD2_DoFinal (MD2_StoreState (MD2_DoUpdate s x)) in Ok (mHash s, MD2_RestoreState s)),
     opCopyL = MD2_CopyL, opReplicateL = (\<lambda>_. Ok MD2_NewL),
     opStoreState = MD2_StoreState, opRestoreState = MD2_RestoreState, opView = mHash\<rparr>"

subsection \<open>The digest of RFC 1319\<close>

definition md2_start :: "tuint list \<times> tuint list" where
  "md2_start = (replicate 16 0, replicate 16 0)"

definition md2_padding :: "nat \<Rightarrow> byte list" where
  "md2_padding l = replicate (16 - l mod 16) (of_nat (16 - l mod 16))"

definition rfc1319 :: "byte list \<Rightarrow> byte list" where
  "rfc1319 m =
     (let (st, ck) = foldl md2_compress md2_start (blocks 16 (m @ md2_padding (length m)));
          (st, ck) = md2_compress (st, ck) (map ucast ck)
      in map (\<lambda>x. ucast (x AND 0xff)) st)"

subsection \<open>The object computes it\<close>

definition md2_ok :: "CMD2 \<Rightarrow> bool" where
  "md2_ok s \<longleftrightarrow> length (mData s) = 16 \<and> length (mState s) = 16 \<and> length (mChecksum s) = 16 \<and> mNum s < 16"

definition md2_view :: "CMD2 \<Rightarrow> (tuint list \<times> tuint list) \<times> byte list" where
  "md2_view s = ((mState s, mChecksum s), take (mNum s) (mData s))"

lemma length_md2_pass: "length (snd (md2_pass t xs)) = length xs"
  by (induction t xs rule: md2_pass.induct) (auto simp: Let_def split: prod.split)

lemma length_md2_passes: "length (md2_passes is t xs) = length xs"
proof (induction "is" t xs rule: md2_passes.induct)
  case (2 i "is" t xs)
  then show ?case using length_md2_pass [of t xs] by (auto simp: Let_def split: prod.split)
qed simp

lemma length_md2_checksum: "length cs = length ds \<Longrightarrow> length (md2_checksum j cs ds) = length ds"
  by (induction j cs ds rule: md2_checksum.induct) (simp_all add: Let_def)

lemma length_md2_compress:
  assumes "length st = 16" "length ck = 16" "16 \<le> length data"
  shows "length (fst (md2_compress (st, ck) data)) = 16 \<and> length (snd (md2_compress (st, ck) data)) = 16"
  using assms by (simp add: md2_compress_def Let_def length_md2_passes length_md2_checksum)

lemma md2_compress_take: "md2_compress h (take 16 data) = md2_compress h data"
  by (cases h) (simp add: md2_compress_def)

lemma MD2_Block_view:
  assumes "md2_ok s" "16 \<le> length data"
  shows "md2_ok (MD2_Block s data) \<and> (mState (MD2_Block s data), mChecksum (MD2_Block s data)) = md2_compress (mState s, mChecksum s) data
    \<and> mData (MD2_Block s data) = mData s \<and> mNum (MD2_Block s data) = mNum s"
  using assms length_md2_compress [of "mState s" "mChecksum s" data]
  by (cases "md2_compress (mState s, mChecksum s) data") (simp add: MD2_Block_def md2_ok_def)

lemma md2_blocks_view:
  "md2_ok s \<Longrightarrow> mNum s = 0 \<Longrightarrow> md2_blocks s xs = (t, ys) \<Longrightarrow>
    md2_ok t \<and> length ys < 16 \<and> mData t = mData s \<and>
    ((mState t, mChecksum t), ys) = foldl (absorb 16 md2_compress) ((mState s, mChecksum s), []) xs"
proof (induction s xs arbitrary: t ys rule: md2_blocks.induct)
  case (1 s xs)
  show ?case
  proof (cases "16 \<le> length xs")
    case True
    let ?s = "MD2_Block s xs"
    have s: "md2_ok ?s" "mNum ?s = 0" "mData ?s = mData s"
      "(mState ?s, mChecksum ?s) = md2_compress (mState s, mChecksum s) (take 16 xs)"
      using MD2_Block_view [OF 1(2) True] 1(3) by (simp_all add: md2_compress_take)
    have "md2_blocks ?s (drop 16 xs) = (t, ys)" using 1(4) True by (simp add: md2_blocks.simps [of s xs])
    note ih = 1(1) [OF True s(1,2) this]
    have "foldl (absorb 16 md2_compress) ((mState s, mChecksum s), []) (take 16 xs @ drop 16 xs) =
        foldl (absorb 16 md2_compress) ((mState ?s, mChecksum ?s), []) (drop 16 xs)"
      using absorbs_block [of "[]" "take 16 xs" 16 md2_compress "(mState s, mChecksum s)"] True s(4)
      by (cases "xs = []") (auto simp del: append_take_drop_id)
    then show ?thesis using ih s(3) by simp
  next
    case False
    then have "t = s" "ys = xs" using 1(4) by (simp_all add: md2_blocks.simps [of s xs])
    then show ?thesis using False 1(2) absorbs_short [of "[]" xs 16 md2_compress "(mState s, mChecksum s)"] by simp
  qed
qed

lemma take_copy_at [simp]: "i \<le> length d \<Longrightarrow> take (i + length xs) (copy_at d i xs) = take i d @ xs"
  by (simp add: copy_at_def)

lemma take_copy_at_start [simp]: "take (length xs) (copy_at d 0 xs) = xs"
  by (simp add: copy_at_def)

lemma length_copy_at [simp]: "i + length xs \<le> length d \<Longrightarrow> length (copy_at d i xs) = length d"
  by (simp add: copy_at_def)

lemma copy_at_end: "i + length xs = length d \<Longrightarrow> copy_at d i xs = take i d @ xs"
  by (simp add: copy_at_def)

definition md2_rest :: "CMD2 \<Rightarrow> byte list \<Rightarrow> CMD2" where
  "md2_rest s aData = (let (s, aData) = md2_blocks s aData in s\<lparr>mData := copy_at (mData s) 0 aData, mNum := length aData\<rparr>)"

definition md2_seen :: "CMD2 \<Rightarrow> byte list \<Rightarrow> CMD2 \<Rightarrow> bool" where
  "md2_seen s xs t \<longleftrightarrow> md2_ok t \<and> md2_view t = foldl (absorb 16 md2_compress) (md2_view s) xs"

lemma md2_rest_seen:
  assumes "md2_ok s" "mNum s = 0"
  shows "md2_seen s xs (md2_rest s xs)"
proof -
  obtain t ys where b: "md2_blocks s xs = (t, ys)" by fastforce
  have "md2_ok t" "length ys < 16" "((mState t, mChecksum t), ys) = foldl (absorb 16 md2_compress) ((mState s, mChecksum s), []) xs"
    using md2_blocks_view [OF assms b] by simp_all
  then show ?thesis using assms(2) b by (simp add: md2_rest_def md2_seen_def md2_ok_def md2_view_def)
qed

lemma MD2_DoUpdate_start: "mNum s = 0 \<Longrightarrow> MD2_DoUpdate s xs = md2_rest s xs"
  by (simp add: MD2_DoUpdate_def md2_rest_def)

lemma MD2_DoUpdate_short:
  "mNum s \<noteq> 0 \<Longrightarrow> mNum s + length xs < 16 \<Longrightarrow>
    MD2_DoUpdate s xs = s\<lparr>mData := copy_at (mData s) (mNum s) xs, mNum := mNum s + length xs\<rparr>"
  by (simp add: MD2_DoUpdate_def)

definition md2_fill :: "CMD2 \<Rightarrow> byte list \<Rightarrow> CMD2" where
  "md2_fill s xs = s\<lparr>mData := copy_at (mData s) (mNum s) xs\<rparr>"

lemma MD2_DoUpdate_long:
  "mNum s \<noteq> 0 \<Longrightarrow> 16 \<le> mNum s + length xs \<Longrightarrow>
    MD2_DoUpdate s xs =
      md2_rest ((MD2_Block (md2_fill s (take (16 - mNum s) xs)) (mData (md2_fill s (take (16 - mNum s) xs))))\<lparr>mNum := 0\<rparr>)
        (drop (16 - mNum s) xs)"
  by (simp add: MD2_DoUpdate_def md2_rest_def md2_fill_def Let_def)

lemma md2_fill_seen:
  assumes s: "md2_ok s" and l: "mNum s + length xs = 16" "xs \<noteq> []"
  shows "md2_seen s xs ((MD2_Block (md2_fill s xs) (mData (md2_fill s xs)))\<lparr>mNum := 0\<rparr>)"
proof -
  let ?f = "md2_fill s xs" and ?h = "(mState s, mChecksum s)"
  have f: "md2_ok ?f" "mData ?f = take (mNum s) (mData s) @ xs" "mState ?f = mState s" "mChecksum ?f = mChecksum s"
    using assms by (simp_all add: md2_ok_def md2_fill_def copy_at_end)
  have "foldl (absorb 16 md2_compress) (?h, take (mNum s) (mData s)) xs = (md2_compress ?h (mData ?f), [])"
    unfolding f(2) by (rule absorbs_block) (use s l in \<open>simp_all add: md2_ok_def\<close>)
  then show ?thesis
    using MD2_Block_view [OF f(1), of "mData ?f"] f s by (simp add: md2_seen_def md2_view_def md2_ok_def)
qed

lemma md2_seen_trans: "md2_seen s xs t \<Longrightarrow> md2_seen t ys u \<Longrightarrow> md2_seen s (xs @ ys) u"
  by (simp add: md2_seen_def)

text \<open>\<open>DoUpdate\<close> has the effect of taking the bytes one at a time.\<close>

lemma MD2_DoUpdate_seen:
  assumes s: "md2_ok s"
  shows "md2_seen s xs (MD2_DoUpdate s xs)"
proof -
  let ?n = "16 - mNum s"
  consider (start) "mNum s = 0" | (short) "mNum s \<noteq> 0" "mNum s + length xs < 16"
    | (long) "mNum s \<noteq> 0" "16 \<le> mNum s + length xs" by linarith
  then show ?thesis
  proof cases
    case start
    then show ?thesis using md2_rest_seen [OF s] by (simp add: MD2_DoUpdate_start)
  next
    case short
    then show ?thesis using s absorbs_short [of "take (mNum s) (mData s)" xs 16 md2_compress "(mState s, mChecksum s)"]
      by (simp add: MD2_DoUpdate_short md2_seen_def md2_ok_def md2_view_def)
  next
    case long
    let ?t = "(MD2_Block (md2_fill s (take ?n xs)) (mData (md2_fill s (take ?n xs))))\<lparr>mNum := 0\<rparr>"
    have t: "md2_seen s (take ?n xs) ?t"
      by (rule md2_fill_seen [OF s]) (use s long in \<open>auto simp: md2_ok_def\<close>)
    moreover have "md2_seen ?t (drop ?n xs) (md2_rest ?t (drop ?n xs))"
      by (rule md2_rest_seen) (use t in \<open>simp_all add: md2_seen_def\<close>)
    ultimately have "md2_seen s (take ?n xs @ drop ?n xs) (md2_rest ?t (drop ?n xs))" by (rule md2_seen_trans)
    then show ?thesis using long by (simp add: MD2_DoUpdate_long)
  qed
qed

definition md2_rep :: "CMD2 \<Rightarrow> byte list \<Rightarrow> bool" where
  "md2_rep s m \<longleftrightarrow> md2_ok s \<and> md2_view s = foldl (absorb 16 md2_compress) (md2_start, []) m"

lemma md2_rep_update: "md2_rep s m \<Longrightarrow> md2_rep (MD2_DoUpdate s x) (m @ x)"
  using MD2_DoUpdate_seen [of s x] by (simp add: md2_rep_def md2_seen_def)

lemma md2_rep_reset: "length (mData s) = 16 \<Longrightarrow> md2_rep (MD2_Reset s) []"
  by (simp add: md2_rep_def md2_ok_def md2_view_def MD2_Reset_def md2_start_def)

lemma md2_rep_num: "md2_rep s m \<Longrightarrow> mNum s = length m mod 16"
proof -
  assume r: "md2_rep s m"
  have "length (snd (md2_view s)) = length m mod 16"
    using r absorbs_length [of "[]" 16 md2_compress md2_start m] by (simp add: md2_rep_def)
  then show ?thesis using r by (simp add: md2_rep_def md2_ok_def md2_view_def)
qed

text \<open>The two blocks of \<open>DoFinal\<close>: the padding and the checksum.\<close>

definition md2_last :: "CMD2 \<Rightarrow> CMD2" where
  "md2_last s = (let s = s\<lparr>mData := map ucast (take 16 (mChecksum s))\<rparr>; s = MD2_Block s (mData s)
     in s\<lparr>mHash := map (\<lambda>x. ucast (x AND 0xff)) (take 16 (mState s))\<rparr>)"

lemma MD2_DoFinal_last:
  "mNum s < 16 \<Longrightarrow>
    MD2_DoFinal s = md2_last (MD2_Block (md2_fill s (md2_padding (mNum s))) (mData (md2_fill s (md2_padding (mNum s)))))"
  by (simp add: MD2_DoFinal_def md2_last_def md2_fill_def md2_padding_def Let_def)

lemma md2_last_hash:
  assumes "md2_ok s"
  shows "mHash (md2_last s) = (let (st, ck) = md2_compress (mState s, mChecksum s) (map ucast (mChecksum s))
      in map (\<lambda>x. ucast (x AND 0xff)) st) \<and> length (mData (md2_last s)) = 16 \<and> length (mHash (md2_last s)) = 16"
proof -
  let ?s = "s\<lparr>mData := map ucast (mChecksum s)\<rparr>"
  have s: "md2_ok ?s" "16 \<le> length (mData ?s)" using assms by (simp_all add: md2_ok_def)
  obtain st ck where c: "md2_compress (mState s, mChecksum s) (map ucast (mChecksum s)) = (st, ck)" by fastforce
  have "length st = 16" using length_md2_compress [of "mState s" "mChecksum s" "map ucast (mChecksum s)"] assms c
    by (simp add: md2_ok_def)
  moreover have "mState (MD2_Block ?s (mData ?s)) = st" "length (mData (MD2_Block ?s (mData ?s))) = 16"
    using MD2_Block_view [OF s] c assms by (simp_all add: md2_ok_def)
  moreover have "take 16 (mChecksum s) = mChecksum s" using assms by (simp add: md2_ok_def)
  ultimately show ?thesis using c by (simp add: md2_last_def Let_def)
qed

lemma padded_length: "(l + (16 - l mod 16)) mod 16 = (0 :: nat)"
  by presburger

lemma MD2_DoFinal_rep:
  assumes r: "md2_rep s m"
  shows "mHash (MD2_DoFinal s) = rfc1319 m \<and> length (mData (MD2_DoFinal s)) = 16 \<and> length (rfc1319 m) = 16"
proof -
  let ?p = "md2_padding (mNum s)" and ?f = "md2_fill s (md2_padding (mNum s))"
  let ?t = "MD2_Block ?f (mData ?f)" and ?u = "(MD2_Block ?f (mData ?f))\<lparr>mNum := 0\<rparr>"
  have s: "md2_ok s" "mNum s < 16" and p: "?p = md2_padding (length m)" "length ?p = 16 - mNum s"
    using r md2_rep_num [OF r] by (simp_all add: md2_rep_def md2_ok_def md2_padding_def)
  have u: "md2_seen s ?p ?u"
    by (rule md2_fill_seen) (use s p(2) in \<open>simp_all add: md2_padding_def\<close>)
  have "(length m + length ?p) mod 16 = 0"
    using padded_length [of "length m"] p(2) md2_rep_num [OF r] by simp
  then have "foldl (absorb 16 md2_compress) (md2_start, []) (m @ ?p) =
      (foldl md2_compress md2_start (blocks 16 (m @ ?p)), [])"
    by (intro absorbs_blocks) simp_all
  then have "md2_view ?u = (foldl md2_compress md2_start (blocks 16 (m @ ?p)), [])"
    using u r by (simp add: md2_seen_def md2_rep_def)
  then have h: "foldl md2_compress md2_start (blocks 16 (m @ ?p)) = (mState ?t, mChecksum ?t)"
    by (simp add: md2_view_def)
  have "md2_ok ?f" "16 \<le> length (mData ?f)" using s p(2) by (simp_all add: md2_ok_def md2_fill_def)
  then have "md2_ok ?t" using MD2_Block_view [of ?f "mData ?f"] by simp
  then show ?thesis
    using md2_last_hash [of ?t] h MD2_DoFinal_last [OF s(2)] by (simp only: rfc1319_def p(1) [symmetric] split: prod.split) auto
qed

lemma md2_frames [simp]:
  "mDataTemp (MD2_Block s d) = mDataTemp s" "mChecksumTemp (MD2_Block s d) = mChecksumTemp s"
  "mStateTemp (MD2_Block s d) = mStateTemp s" "mNum (MD2_Block s d) = mNum s"
  by (simp_all add: MD2_Block_def split: prod.split)

lemma MD2_DoFinal_frame [simp]:
  "mDataTemp (MD2_DoFinal s) = mDataTemp s" "mChecksumTemp (MD2_DoFinal s) = mChecksumTemp s"
  "mStateTemp (MD2_DoFinal s) = mStateTemp s" "mNum (MD2_DoFinal s) = mNum s"
  by (simp_all add: MD2_DoFinal_def Let_def)

text \<open>\<open>Hash\<close> restores what \<open>DoFinal\<close> has changed, because \<open>DoFinal\<close> leaves \<open>iNum\<close>.\<close>

lemma MD2_hash_restores:
  "md2_rep s m \<Longrightarrow> md2_rep (MD2_RestoreState (MD2_DoFinal (MD2_StoreState s))) m"
  by (simp add: MD2_RestoreState_def MD2_StoreState_def md2_rep_def md2_ok_def md2_view_def)

lemma md2_rep_store: "md2_rep s m \<Longrightarrow> md2_rep (MD2_StoreState s) m"
  by (simp add: MD2_StoreState_def md2_rep_def md2_ok_def md2_view_def)

lemma md2_rep_new: "md2_rep MD2_NewL []"
  by (simp add: md2_rep_def md2_ok_def md2_view_def MD2_NewL_def md2_start_def)

lemma length_rfc1319: "length (rfc1319 m) = 16"
  using MD2_DoFinal_rep [OF md2_rep_update [OF md2_rep_new, of m]] by simp

interpretation md2: message_digest MD2_ops "\<lambda>s. length (mData s) = 16" md2_rep rfc1319 N for N
proof
  fix s :: CMD2 and m x :: "byte list"
  show "md2_rep s m \<Longrightarrow> length (mData s) = 16" by (simp add: md2_rep_def md2_ok_def)
  show "length (mData s) = 16 \<Longrightarrow> \<exists>s'. opReset MD2_ops s = Ok s' \<and> md2_rep s' []"
    by (simp add: MD2_ops_def md2_rep_reset)
  show "md2_rep s m \<Longrightarrow> \<exists>s'. opUpdate MD2_ops s x = Ok s' \<and> md2_rep s' (m @ x)"
    by (simp add: MD2_ops_def md2_rep_update)
  show "md2_rep s m \<Longrightarrow> \<exists>s'. opFinal MD2_ops s = Ok (rfc1319 m, s') \<and> md2_rep s' []"
    using MD2_DoFinal_rep [of s m] by (simp add: MD2_ops_def Let_def md2_rep_reset)
  show "md2_rep s m \<Longrightarrow> \<exists>s'. opFinalMessage MD2_ops s x = Ok (rfc1319 (m @ x), s') \<and> md2_rep s' []"
    using MD2_DoFinal_rep [OF md2_rep_update, of s m x] by (simp add: MD2_ops_def Let_def md2_rep_reset)
  show "md2_rep s m \<Longrightarrow> \<exists>s'. opHash MD2_ops s x = Ok (rfc1319 (m @ x), s') \<and> md2_rep s' (m @ x)"
    using MD2_DoFinal_rep [OF md2_rep_store [OF md2_rep_update], of s m x] MD2_hash_restores [OF md2_rep_update, of s m x]
    by (simp add: MD2_ops_def Let_def)
  show "md2_rep s m \<Longrightarrow> md2_rep (opCopyL MD2_ops s) m"
    by (simp add: MD2_ops_def MD2_CopyL_def md2_rep_def md2_ok_def md2_view_def)
  show "\<exists>s'. opReplicateL MD2_ops s = Ok s' \<and> md2_rep s' []" by (simp add: MD2_ops_def md2_rep_new)
  show "length (rfc1319 m) = opHashSize MD2_ops" by (simp add: MD2_ops_def length_rfc1319)
qed

end
