(* ===== verification/Hmac.thy ===== *)
theory Hmac
  imports MessageDigest
begin

section \<open>\<open>CHMAC\<close> (\<open>hmac.cpp\<close>)\<close>

text \<open>
  The keyed hash over any digest object.  \<open>Final\<close> and \<open>Hash\<close> keep descriptors into the
  buffer of the inner digest while they call it again: these are the uses of \<open>opView\<close>.
  \<open>hmac_of\<close> is the function of RFC 2104; the locale \<open>hmac_class\<close> derives from the contract
  \<open>restorable_digest\<close> of the inner digest that the object computes it.
\<close>

record 's hmac =
  iDigest :: 's
  iInnerPad :: "byte list"
  iOuterPad :: "byte list"
  iInnerPadCopy :: "byte list"
  iOuterPadCopy :: "byte list"
  iBlockSize :: nat

definition KMaxBlockSize :: nat where "KMaxBlockSize = 128"

definition HMAC_InitBlockSizeL :: "'s digest_ops \<Rightarrow> 's hmac \<Rightarrow> 's hmac result" where
  "HMAC_InitBlockSizeL ops s =
     (let bs = opBlockSize ops in
      if bs > KMaxBlockSize then Leave KErrNotSupported
      else Ok (s\<lparr>iBlockSize := bs, iInnerPadCopy := replicate bs 0, iOuterPadCopy := replicate bs 0\<rparr>))"

definition HMAC_InitialiseL :: "'s digest_ops \<Rightarrow> 's hmac \<Rightarrow> byte list \<Rightarrow> 's hmac result" where
  "HMAC_InitialiseL ops s aKey =
     bindL (HMAC_InitBlockSizeL ops s) (\<lambda>s.
     bindL (opReset ops (iDigest s)) (\<lambda>d.
     bindL (if length aKey > iBlockSize s then opFinalMessage ops d aKey else Ok (aKey, d)) (\<lambda>(pad, d).
       let pad = pad @ replicate (iBlockSize s - length pad) 0;
           s = s\<lparr>iInnerPad := map (\<lambda>x. x XOR 0x36) pad, iOuterPad := map (\<lambda>x. x XOR 0x5c) pad\<rparr>
       in bindL (opHash ops d (iInnerPad s)) (\<lambda>(_, d). Ok (s\<lparr>iDigest := d\<rparr>)))))"

definition HMAC_NewL :: "'s digest_ops \<Rightarrow> byte list \<Rightarrow> 's \<Rightarrow> 's hmac result" where
  "HMAC_NewL ops aKey aDigest =
     HMAC_InitialiseL ops \<lparr>iDigest = aDigest, iInnerPad = [], iOuterPad = [], iInnerPadCopy = [], iOuterPadCopy = [],
       iBlockSize = 0\<rparr> aKey"

definition HMAC_Reset :: "'s digest_ops \<Rightarrow> 's hmac \<Rightarrow> 's hmac result" where
  "HMAC_Reset ops s =
     bindL (opReset ops (iDigest s)) (\<lambda>d. bindL (opUpdate ops d (iInnerPad s)) (\<lambda>d. Ok (s\<lparr>iDigest := d\<rparr>)))"

definition HMAC_StoreState :: "'s digest_ops \<Rightarrow> 's hmac \<Rightarrow> 's hmac" where
  "HMAC_StoreState ops s =
     s\<lparr>iOuterPadCopy := iOuterPad s, iInnerPadCopy := iInnerPad s, iDigest := opStoreState ops (iDigest s)\<rparr>"

definition HMAC_RestoreState :: "'s digest_ops \<Rightarrow> 's hmac \<Rightarrow> 's hmac" where
  "HMAC_RestoreState ops s =
     s\<lparr>iOuterPad := iOuterPadCopy s, iInnerPad := iInnerPadCopy s, iDigest := opRestoreState ops (iDigest s)\<rparr>"

text \<open>The steps shared by \<open>Final\<close> and \<open>Hash\<close>, from the inner digest \<open>ptr\<close> on.\<close>

definition HMAC_outer :: "'s digest_ops \<Rightarrow> 's hmac \<Rightarrow> 's \<Rightarrow> 's hmac result" where
  "HMAC_outer ops s d =
     bindL (opUpdate ops d (iOuterPad s)) (\<lambda>d.
     bindL (opFinalMessage ops d (opView ops d)) (\<lambda>(_, d). Ok (s\<lparr>iDigest := d\<rparr>)))"

definition HMAC_Hash :: "'s digest_ops \<Rightarrow> 's hmac \<Rightarrow> byte list \<Rightarrow> (byte list \<times> 's hmac) result" where
  "HMAC_Hash ops s aMessage =
     (let s = HMAC_StoreState ops s in
      bindL (opFinalMessage ops (iDigest s) aMessage) (\<lambda>(_, d).
      bindL (HMAC_outer ops s d) (\<lambda>s.
        let s = HMAC_RestoreState ops s in
        bindL (opUpdate ops (iDigest s) aMessage) (\<lambda>d. Ok (opView ops d, s\<lparr>iDigest := d\<rparr>)))))"

definition HMAC_Update :: "'s digest_ops \<Rightarrow> 's hmac \<Rightarrow> byte list \<Rightarrow> 's hmac result" where
  "HMAC_Update ops s aMessage = bindL (opUpdate ops (iDigest s) aMessage) (\<lambda>d. Ok (s\<lparr>iDigest := d\<rparr>))"

definition HMAC_FinalMessage :: "'s digest_ops \<Rightarrow> 's hmac \<Rightarrow> byte list \<Rightarrow> (byte list \<times> 's hmac) result" where
  "HMAC_FinalMessage ops s aMessage =
     bindL (opFinalMessage ops (iDigest s) aMessage) (\<lambda>(_, d).
     bindL (HMAC_outer ops s d) (\<lambda>s. bindL (HMAC_Reset ops s) (\<lambda>s. Ok (opView ops (iDigest s), s))))"

definition HMAC_Final :: "'s digest_ops \<Rightarrow> 's hmac \<Rightarrow> (byte list \<times> 's hmac) result" where
  "HMAC_Final ops s =
     bindL (opFinal ops (iDigest s)) (\<lambda>(_, d).
     bindL (HMAC_outer ops s d) (\<lambda>s. bindL (HMAC_Reset ops s) (\<lambda>s. Ok (opView ops (iDigest s), s))))"

text \<open>The copy constructor leaves the members with the suffix \<open>Copy\<close> empty.\<close>

definition HMAC_CopyL :: "'s digest_ops \<Rightarrow> 's hmac \<Rightarrow> 's hmac" where
  "HMAC_CopyL ops s = s\<lparr>iDigest := opCopyL ops (iDigest s), iInnerPadCopy := [], iOuterPadCopy := []\<rparr>"

definition HMAC_ReplicateL :: "'s digest_ops \<Rightarrow> 's hmac \<Rightarrow> 's hmac result" where
  "HMAC_ReplicateL ops s = bindL (opReplicateL ops (iDigest s))
     (\<lambda>d. HMAC_Reset ops (s\<lparr>iDigest := d, iInnerPadCopy := [], iOuterPadCopy := []\<rparr>))"

definition HMAC_ops :: "'s digest_ops \<Rightarrow> 's hmac digest_ops" where
  "HMAC_ops ops = \<lparr>opBlockSize = opBlockSize ops, opHashSize = opHashSize ops, opReset = HMAC_Reset ops,
     opUpdate = HMAC_Update ops, opFinal = HMAC_Final ops, opFinalMessage = HMAC_FinalMessage ops,
     opHash = HMAC_Hash ops, opCopyL = HMAC_CopyL ops, opReplicateL = HMAC_ReplicateL ops,
     opStoreState = HMAC_StoreState ops, opRestoreState = HMAC_RestoreState ops, opView = (\<lambda>s. opView ops (iDigest s))\<rparr>"

subsection \<open>The function of RFC 2104\<close>

definition hmac_key :: "(byte list \<Rightarrow> byte list) \<Rightarrow> nat \<Rightarrow> byte list \<Rightarrow> byte list" where
  "hmac_key H B K = (let K = (if length K > B then H K else K) in K @ replicate (B - length K) 0)"

definition ipad :: "(byte list \<Rightarrow> byte list) \<Rightarrow> nat \<Rightarrow> byte list \<Rightarrow> byte list" where
  "ipad H B K = map (\<lambda>x. x XOR 0x36) (hmac_key H B K)"

definition opad :: "(byte list \<Rightarrow> byte list) \<Rightarrow> nat \<Rightarrow> byte list \<Rightarrow> byte list" where
  "opad H B K = map (\<lambda>x. x XOR 0x5c) (hmac_key H B K)"

definition hmac_of :: "(byte list \<Rightarrow> byte list) \<Rightarrow> nat \<Rightarrow> byte list \<Rightarrow> byte list \<Rightarrow> byte list" where
  "hmac_of H B K m = H (opad H B K @ H (ipad H B K @ m))"

subsection \<open>The object computes it\<close>

locale hmac_class = restorable_digest +
  assumes block_size: "opHashSize ops \<le> opBlockSize ops" "opBlockSize ops \<le> 128" "opBlockSize ops + opHashSize ops < lim"
begin

abbreviation B :: nat where "B \<equiv> opBlockSize ops"

definition keyed :: "byte list \<Rightarrow> 'a hmac \<Rightarrow> bool" where
  "keyed K s \<longleftrightarrow> iInnerPad s = ipad H B K \<and> iOuterPad s = opad H B K"

definition keyed_usable :: "byte list \<Rightarrow> 'a hmac \<Rightarrow> bool" where
  "keyed_usable K s \<longleftrightarrow> keyed K s \<and> usable (iDigest s)"

definition keyed_rep :: "byte list \<Rightarrow> 'a hmac \<Rightarrow> byte list \<Rightarrow> bool" where
  "keyed_rep K s m \<longleftrightarrow> keyed K s \<and> rep (iDigest s) (ipad H B K @ m)"

lemma length_pads [simp]: "length (ipad H B K) = B" "length (opad H B K) = B"
  using block_size hash_length [of K] by (simp_all add: ipad_def opad_def hmac_key_def)

lemma outer:
  assumes s: "keyed K s" and r: "rep d []" and v: "opView ops d = H m"
  shows "\<exists>d'. HMAC_outer ops s d = Ok (s\<lparr>iDigest := d'\<rparr>) \<and> rep d' [] \<and> opView ops d' = H (opad H B K @ H m)
    \<and> (saved d x \<longrightarrow> saved d' x)"
proof -
  obtain d1 where d1: "opUpdate ops d (opad H B K) = Ok d1" "rep d1 (opad H B K)"
    using update [OF r, of "opad H B K"] block_size by auto
  have v1: "opView ops d1 = H m" using view_update [OF r d1(1)] v by simp
  obtain d2 where d2: "opFinalMessage ops d1 (H m) = Ok (H (opad H B K @ H m), d2)" "rep d2 []"
    using final_message [OF d1(2), of "H m"] hash_length [of m] block_size by auto
  have "opView ops d2 = H (opad H B K @ H m)" by (rule view_final_message [OF d1(2) d2(1)])
  moreover have "saved d x \<longrightarrow> saved d2 x"
    using saved_update [OF r d1(1)] saved_final_message [OF d1(2) d2(1)] by blast
  moreover have "HMAC_outer ops s d = Ok (s\<lparr>iDigest := d2\<rparr>)"
    using s d1(1) d2(1) v1 by (simp add: HMAC_outer_def keyed_def)
  ultimately show ?thesis using d2(2) by blast
qed

lemma reset_keyed:
  assumes "keyed K s" "usable (iDigest s)"
  shows "\<exists>s'. HMAC_Reset ops s = Ok s' \<and> keyed_rep K s' [] \<and> opView ops (iDigest s') = opView ops (iDigest s)"
proof -
  obtain d where d: "opReset ops (iDigest s) = Ok d" "rep d []" using reset [OF assms(2)] by blast
  obtain e where e: "opUpdate ops d (ipad H B K) = Ok e" "rep e (ipad H B K)"
    using update [OF d(2), of "ipad H B K"] block_size by auto
  have "opView ops e = opView ops (iDigest s)"
    using view_reset [OF assms(2) d(1)] view_update [OF d(2) e(1)] by simp
  then show ?thesis using assms(1) d e by (simp add: HMAC_Reset_def keyed_def keyed_rep_def)
qed

lemma finish:
  assumes "keyed K s" and r: "rep d []" and v: "opView ops d = H (ipad H B K @ m)"
  shows "\<exists>s'. bindL (HMAC_outer ops s d) (\<lambda>s. bindL (HMAC_Reset ops s) (\<lambda>s. Ok (opView ops (iDigest s), s)))
      = Ok (hmac_of H B K m, s') \<and> keyed_rep K s' []"
proof -
  obtain e where e: "HMAC_outer ops s d = Ok (s\<lparr>iDigest := e\<rparr>)" "rep e []" "opView ops e = hmac_of H B K m"
    using outer [OF assms] unfolding hmac_of_def by blast
  obtain t where t: "HMAC_Reset ops (s\<lparr>iDigest := e\<rparr>) = Ok t" "keyed_rep K t []"
    "opView ops (iDigest t) = opView ops e"
    using reset_keyed [of K "s\<lparr>iDigest := e\<rparr>"] usable [OF e(2)] assms(1) by (auto simp: keyed_def)
  then show ?thesis using e by simp
qed

lemma hash_keyed:
  assumes k: "keyed_rep K s m" and l: "B + length m + length x < lim"
  shows "\<exists>s'. HMAC_Hash ops s x = Ok (hmac_of H B K (m @ x), s') \<and> keyed_rep K s' (m @ x)"
proof -
  let ?M = "ipad H B K @ m" and ?s = "HMAC_StoreState ops s"
  have s: "keyed K ?s" "rep (iDigest ?s) ?M" "saved (iDigest ?s) ?M" "iOuterPadCopy ?s = opad H B K" "iInnerPadCopy ?s = ipad H B K"
    using k store [of "iDigest s" ?M] by (simp_all add: keyed_rep_def keyed_def HMAC_StoreState_def)
  obtain d where d: "opFinalMessage ops (iDigest ?s) x = Ok (H (?M @ x), d)" "rep d []"
    using final_message [OF s(2), of x] l by auto
  have dv: "opView ops d = H (?M @ x)" and ds: "saved d ?M"
    using view_final_message [OF s(2) d(1)] saved_final_message [OF s(2) d(1) s(3)] by simp_all
  obtain e where e: "HMAC_outer ops ?s d = Ok (?s\<lparr>iDigest := e\<rparr>)" "rep e []"
    "opView ops e = H (opad H B K @ H (?M @ x))" "saved e ?M"
    using outer [OF s(1) d(2) dv] ds by blast
  let ?r = "HMAC_RestoreState ops (?s\<lparr>iDigest := e\<rparr>)"
  have r: "keyed K ?r" "rep (iDigest ?r) ?M" "opView ops (iDigest ?r) = hmac_of H B K (m @ x)"
    using s e(3) restore [OF usable [OF e(2)] e(4)] view_restore
    by (simp_all add: HMAC_RestoreState_def keyed_def hmac_of_def)
  obtain f where f: "opUpdate ops (iDigest ?r) x = Ok f" "rep f (?M @ x)"
    using update [OF r(2), of x] l by auto
  then have "opView ops f = hmac_of H B K (m @ x)" using view_update [OF r(2) f(1)] r(3) by simp
  then show ?thesis using d(1) e(1) f r(1)
    by (simp add: HMAC_Hash_def Let_def keyed_rep_def keyed_def)
qed

lemma new_keyed:
  assumes u: "usable d" and l: "length K < lim"
  shows "\<exists>s. HMAC_NewL ops K d = Ok s \<and> keyed_rep K s []"
proof -
  obtain d0 where d0: "opReset ops d = Ok d0" "rep d0 []" using reset [OF u] by blast
  obtain d1 where d1: "rep d1 []"
    "(if length K > B then opFinalMessage ops d0 K else Ok (K, d0)) = Ok (if length K > B then H K else K, d1)"
    using final_message [OF d0(2), of K] d0(2) l by (cases "length K > B") auto
  obtain d2 where d2: "opHash ops d1 (ipad H B K) = Ok (H (ipad H B K), d2)" "rep d2 (ipad H B K)"
    using hash [OF d1(1), of "ipad H B K"] block_size by auto
  show ?thesis
    using d0(1) d1(2) d2 block_size
    by (simp add: HMAC_NewL_def HMAC_InitialiseL_def HMAC_InitBlockSizeL_def KMaxBlockSize_def Let_def
      ipad_def opad_def hmac_key_def keyed_rep_def keyed_def)
qed

end

sublocale hmac_class \<subseteq> hm: message_digest "HMAC_ops ops" "keyed_usable K" "keyed_rep K" "hmac_of H B K" "lim - B" for K
proof
  fix s m x
  show "keyed_rep K s m \<Longrightarrow> keyed_usable K s" using usable by (auto simp: keyed_rep_def keyed_usable_def)
  show "keyed_usable K s \<Longrightarrow> \<exists>s'. opReset (HMAC_ops ops) s = Ok s' \<and> keyed_rep K s' []"
    using reset_keyed by (fastforce simp: HMAC_ops_def keyed_usable_def)
  show "\<exists>s'. opUpdate (HMAC_ops ops) s x = Ok s' \<and> keyed_rep K s' (m @ x)"
    if r: "keyed_rep K s m" and l: "length m + length x < lim - B"
  proof -
    have "B + length m + length x < lim" using l by linarith
    then obtain d where "opUpdate ops (iDigest s) x = Ok d" "rep d (ipad H B K @ m @ x)"
      using update [of "iDigest s" "ipad H B K @ m" x] r by (auto simp: keyed_rep_def)
    then show ?thesis using r by (simp add: HMAC_ops_def HMAC_Update_def keyed_rep_def keyed_def)
  qed
  show "\<exists>s'. opFinal (HMAC_ops ops) s = Ok (hmac_of H B K m, s') \<and> keyed_rep K s' []"
    if r: "keyed_rep K s m" and l: "length m < lim - B"
  proof -
    have "B + length m < lim" using l by linarith
    then obtain d where d: "opFinal ops (iDigest s) = Ok (H (ipad H B K @ m), d)" "rep d []"
      using final [of "iDigest s" "ipad H B K @ m"] r by (auto simp: keyed_rep_def)
    then have "opView ops d = H (ipad H B K @ m)" using view_final r unfolding keyed_rep_def by blast
    then show ?thesis using finish [of K s d m] d r by (simp add: HMAC_ops_def HMAC_Final_def keyed_rep_def)
  qed
  show "\<exists>s'. opFinalMessage (HMAC_ops ops) s x = Ok (hmac_of H B K (m @ x), s') \<and> keyed_rep K s' []"
    if r: "keyed_rep K s m" and l: "length m + length x < lim - B"
  proof -
    have "B + length m + length x < lim" using l by linarith
    then obtain d where d: "opFinalMessage ops (iDigest s) x = Ok (H (ipad H B K @ m @ x), d)" "rep d []"
      using final_message [of "iDigest s" "ipad H B K @ m" x] r by (auto simp: keyed_rep_def)
    then have "opView ops d = H (ipad H B K @ m @ x)" using view_final_message r unfolding keyed_rep_def by blast
    then show ?thesis using finish [of K s d "m @ x"] d r by (simp add: HMAC_ops_def HMAC_FinalMessage_def keyed_rep_def)
  qed
  show "\<exists>s'. opHash (HMAC_ops ops) s x = Ok (hmac_of H B K (m @ x), s') \<and> keyed_rep K s' (m @ x)"
    if "keyed_rep K s m" "length m + length x < lim - B"
    using hash_keyed [OF that(1), of x] that(2) by (simp add: HMAC_ops_def)
  show "keyed_rep K s m \<Longrightarrow> keyed_rep K (opCopyL (HMAC_ops ops) s) m"
    using copy by (simp add: HMAC_ops_def HMAC_CopyL_def keyed_rep_def keyed_def)
  show "\<exists>s'. opReplicateL (HMAC_ops ops) s = Ok s' \<and> keyed_rep K s' []" if u: "keyed_usable K s"
  proof -
    obtain d where d: "opReplicateL ops (iDigest s) = Ok d" "rep d []"
      using replicate u unfolding keyed_usable_def by blast
    then show ?thesis
      using reset_keyed [of K "s\<lparr>iDigest := d, iInnerPadCopy := [], iOuterPadCopy := []\<rparr>"] usable [OF d(2)] u
      by (auto simp: HMAC_ops_def HMAC_ReplicateL_def keyed_usable_def keyed_def)
  qed
  show "length (hmac_of H B K m) = opHashSize (HMAC_ops ops)"
    using hash_length by (simp add: HMAC_ops_def hmac_of_def)
qed

context hmac_class
begin

lemma runs:
  assumes "keyed_rep K s []" and "B + calls_length cs < lim"
  shows "\<exists>s'. run_calls (HMAC_ops ops) s cs = Ok (fst (spec_calls (hmac_of H B K) [] cs), s')"
proof -
  have "length [] + calls_length cs < lim - B" using assms(2) by simp
  then show ?thesis using hm.run_refines [OF assms(1), of cs] by blast
qed

end

end
