(* ===== verification/Digests.thy ===== *)
theory Digests
  imports MdDigests Sha1 Sha2 Md2 Hmac
begin

section \<open>The factory of digests (\<open>hash.cpp\<close>)\<close>

text \<open>
  \<open>CMessageDigestFactory\<close> chooses a class for an identifier, plain or under \<open>CHMAC\<close>; the
  objects of the classes form the type \<open>digest_object\<close>.  The theorems say that an object made
  by the factory answers every sequence of calls as the abstract object that remembers the
  message and applies the digest of the standard.
\<close>

datatype THashId = EMD2 | EMD5 | ESHA1 | EMD4 | HMAC | ESHA224 | ESHA256 | ESHA384 | ESHA512

datatype digest_object = MD2 (the_MD2: CMD2) | MD5 (the_MD5: word_state) | MD4 (the_MD4: word_state)
  | SHA1 (the_SHA1: word_state) | SHA2 (the_SHA2: sha2_impl)

fun NewDigestL :: "THashId \<Rightarrow> digest_object result" where
  "NewDigestL EMD2 = Ok (MD2 MD2_NewL)"
| "NewDigestL EMD5 = Ok (MD5 MD5_NewL)"
| "NewDigestL ESHA1 = Ok (SHA1 SHA1_NewL)"
| "NewDigestL EMD4 = Ok (MD4 MD4_NewL)"
| "NewDigestL ESHA224 = Ok (SHA2 (CSHA2_NewL E224Bit))"
| "NewDigestL ESHA256 = Ok (SHA2 (CSHA2_NewL E256Bit))"
| "NewDigestL ESHA384 = Ok (SHA2 (CSHA2_NewL E384Bit))"
| "NewDigestL ESHA512 = Ok (SHA2 (CSHA2_NewL E512Bit))"
| "NewDigestL HMAC = Leave KErrNotSupported"

text \<open>The virtual functions of the object that the factory makes for an identifier.\<close>

fun object_ops :: "THashId \<Rightarrow> digest_object digest_ops" where
  "object_ops EMD2 = lift_ops MD2 the_MD2 MD2_ops"
| "object_ops EMD5 = lift_ops MD5 the_MD5 MD5_ops"
| "object_ops ESHA1 = lift_ops SHA1 the_SHA1 SHA1_ops"
| "object_ops EMD4 = lift_ops MD4 the_MD4 MD4_ops"
| "object_ops ESHA224 = lift_ops SHA2 the_SHA2 (CSHA2_ops E224Bit)"
| "object_ops ESHA256 = lift_ops SHA2 the_SHA2 (CSHA2_ops E256Bit)"
| "object_ops ESHA384 = lift_ops SHA2 the_SHA2 (CSHA2_ops E384Bit)"
| "object_ops ESHA512 = lift_ops SHA2 the_SHA2 (CSHA2_ops E512Bit)"
| "object_ops HMAC = lift_ops MD2 the_MD2 MD2_ops"

definition NewHMACL :: "THashId \<Rightarrow> byte list \<Rightarrow> digest_object hmac result" where
  "NewHMACL aHashId aKey = bindL (NewDigestL aHashId) (HMAC_NewL (object_ops aHashId) aKey)"

text \<open>The standards, and the length at which the counters of the classes overflow.\<close>

fun digest_of :: "THashId \<Rightarrow> byte list \<Rightarrow> byte list" where
  "digest_of EMD5 = rfc1321"
| "digest_of EMD4 = rfc1320"
| "digest_of ESHA1 = fips180_sha1"
| "digest_of ESHA224 = fips180_sha2 E224Bit"
| "digest_of ESHA256 = fips180_sha2 E256Bit"
| "digest_of ESHA384 = fips180_sha2 E384Bit"
| "digest_of ESHA512 = fips180_sha2 E512Bit"
| "digest_of _ = rfc1319"

fun digest_limit :: "THashId \<Rightarrow> nat" where
  "digest_limit ESHA224 = 2 ^ 61"
| "digest_limit ESHA256 = 2 ^ 61"
| "digest_limit ESHA384 = 2 ^ 125"
| "digest_limit ESHA512 = 2 ^ 125"
| "digest_limit _ = 2 ^ 29"

subsection \<open>The classes keep the contract\<close>

text \<open>
  The functions of the classes are those of the sublocales of the interfaces, and the digest
  in terms of the registers is that of the standard.
\<close>

lemma resets:
  "md5.wd.reset_state = MD5_Reset" "md4.wd.reset_state = MD4_Reset" "sha1.wd.reset_state = SHA1_Reset"
  unfolding md5.wd.reset_state_def md4.wd.reset_state_def sha1.wd.reset_state_def
  by (simp_all add: fun_eq_iff MD5_Reset_def MD4_Reset_def SHA1_Reset_def md_initial_def)

lemma same_reset: "MD5_Reset = MD4_Reset"
  by (simp add: fun_eq_iff MD5_Reset_def MD4_Reset_def)

lemma sha2_resets:
  "sha224.sd.reset_state = SHA256_Reset SHA224InitVals" "sha256.sd.reset_state = SHA256_Reset SHA256InitVals"
  "sha384.sd.reset_state = SHA512_Reset SHA384InitVals" "sha512.sd.reset_state = SHA512_Reset SHA512InitVals"
  unfolding sha224.sd.reset_state_def sha256.sd.reset_state_def sha384.sd.reset_state_def sha512.sd.reset_state_def
  by (simp_all add: fun_eq_iff SHA256_Reset_def SHA512_Reset_def)

lemma word_digests:
  "md5.wd.hash_of = rfc1321" "md4.wd.hash_of = rfc1320" "sha1.wd.hash_of = fips180_sha1"
  unfolding fun_eq_iff md5.hash_of_words md4.hash_of_words sha1.hash_of_words
  by (simp_all add: rfc1321_def rfc1320_def fips180_sha1_def md5.cf_def [abs_def] md4.cf_def [abs_def] sha1_block.cf_def [abs_def])

lemma sha2_digests:
  "sha224.sd.hash_of = fips180_sha2 E224Bit" "sha256.sd.hash_of = fips180_sha2 E256Bit"
  "sha384.sd.hash_of = fips180_sha2 E384Bit" "sha512.sd.hash_of = fips180_sha2 E512Bit"
  unfolding fun_eq_iff sha224.sd.hash_of_def sha256.sd.hash_of_def sha384.sd.hash_of_def sha512.sd.hash_of_def
  by (simp_all add: fips180_sha2_def fips180_256_def fips180_512_def sha224.cf_def [abs_def] sha384.cf_def [abs_def])

text \<open>Each class keeps the contract of a digest whose state can be stored.\<close>

interpretation MD5: restorable_digest MD5_ops md5.wd.shaped md5.wd.reps rfc1321 "2 ^ 29" md5.wd.saved_message
  using md5.wd.cls.restorable_digest_axioms unfolding resets word_digests by (simp add: MD5_ops_def MD5_DoFinal_def [abs_def])

interpretation MD4: restorable_digest MD4_ops md4.wd.shaped md4.wd.reps rfc1320 "2 ^ 29" md4.wd.saved_message
  using md4.wd.cls.restorable_digest_axioms unfolding resets(2) word_digests by (simp add: MD4_ops_def MD4_DoFinal_def [abs_def])

interpretation SHA1: restorable_digest SHA1_ops sha1.wd.shaped sha1.wd.reps fips180_sha1 "2 ^ 29" sha1.wd.saved_message
  using sha1.wd.cls.restorable_digest_axioms unfolding resets word_digests by (simp add: SHA1_ops_def SHA1_DoFinal_def [abs_def])

interpretation SHA224: restorable_digest SHA224_ops sha224.sd.shaped sha224.sd.reps "fips180_sha2 E224Bit" "2 ^ 61" sha224.sd.saved_message
  using sha224.sd.cls.restorable_digest_axioms unfolding sha2_resets sha2_digests
  by (simp add: SHA224_ops_def SHA256_Update_def SHA256_Final_def)

interpretation SHA256: restorable_digest SHA256_ops sha256.sd.shaped sha256.sd.reps "fips180_sha2 E256Bit" "2 ^ 61" sha256.sd.saved_message
  using sha256.sd.cls.restorable_digest_axioms unfolding sha2_resets sha2_digests
  by (simp add: SHA256_ops_def SHA256_Update_def SHA256_Final_def)

interpretation SHA384: restorable_digest SHA384_ops sha384.sd.shaped sha384.sd.reps "fips180_sha2 E384Bit" "2 ^ 125" sha384.sd.saved_message
  using sha384.sd.cls.restorable_digest_axioms unfolding sha2_resets sha2_digests
  by (simp add: SHA384_ops_def SHA512_Update_def SHA512_Final_def)

interpretation SHA512: restorable_digest SHA512_ops sha512.sd.shaped sha512.sd.reps "fips180_sha2 E512Bit" "2 ^ 125" sha512.sd.saved_message
  using sha512.sd.cls.restorable_digest_axioms unfolding sha2_resets sha2_digests
  by (simp add: SHA512_ops_def SHA512_Update_def SHA512_Final_def)

subsection \<open>The objects of the factory\<close>

lemma CSHA2_NewL_state:
  "sha224.sd.reps (the_256 (CSHA2_NewL E224Bit)) []" "sha256.sd.reps (the_256 (CSHA2_NewL E256Bit)) []"
  "sha384.sd.reps (the_512 (CSHA2_NewL E384Bit)) []" "sha512.sd.reps (the_512 (CSHA2_NewL E512Bit)) []"
  using sha224.sd.reps_replicate sha256.sd.reps_replicate sha384.sd.reps_replicate sha512.sd.reps_replicate
  unfolding sha2_resets by simp_all

lemma NewL_states: "md5.wd.reps MD5_NewL []" "md4.wd.reps MD4_NewL []" "sha1.wd.reps SHA1_NewL []"
  using md5.wd.reps_replicate md4.wd.reps_replicate sha1.wd.reps_replicate
  unfolding resets(1,3) by (simp_all add: MD5_NewL_def MD4_NewL_def SHA1_NewL_def same_reset)

definition keeps_contract :: "digest_object digest_ops \<Rightarrow> (byte list \<Rightarrow> byte list) \<Rightarrow> nat \<Rightarrow> digest_object \<Rightarrow> bool" where
  "keeps_contract ops H lim ob \<longleftrightarrow> (\<exists>usable rep saved. restorable_digest ops usable rep H lim saved \<and> rep ob [])"

lemma lifted_contract:
  assumes "restorable_digest ops usable rep H lim saved" "\<And>s. peel (wrap s) = s" "rep s []"
  shows "keeps_contract (lift_ops wrap peel ops) H lim (wrap s)"
  unfolding keeps_contract_def
  using restorable_digest.lifted_restorable [OF assms(1), of peel wrap] assms(2,3) by fastforce

text \<open>For SHA-2 the lifting is done twice: to the implementation and to the digest object.\<close>

lemma lift_ops_lift_ops:
  "lift_ops wrap peel (lift_ops wrap' peel' ops) = lift_ops (\<lambda>s. wrap (wrap' s)) (\<lambda>ob. peel' (peel ob)) ops"
  by (simp add: lift_ops_def fun_eq_iff bindL_def split: sum.split prod.split)

lemma factory_contract:
  assumes "NewDigestL i = Ok ob" "i \<noteq> EMD2"
  shows "keeps_contract (object_ops i) (digest_of i) (digest_limit i) ob"
proof (cases i)
  case EMD5
  then show ?thesis using assms lifted_contract [OF MD5.restorable_digest_axioms _ NewL_states(1), of the_MD5 MD5] by simp
next
  case EMD4
  then show ?thesis using assms lifted_contract [OF MD4.restorable_digest_axioms _ NewL_states(2), of the_MD4 MD4] by simp
next
  case ESHA1
  then show ?thesis using assms lifted_contract [OF SHA1.restorable_digest_axioms _ NewL_states(3), of the_SHA1 SHA1] by simp
next
  case ESHA224
  then show ?thesis
    using assms lifted_contract [OF SHA224.restorable_digest_axioms _ CSHA2_NewL_state(1), of "\<lambda>ob. the_256 (the_SHA2 ob)" "\<lambda>s. SHA2 (Impl256 s)"]
    by (simp add: CSHA2_ops_def lift_ops_lift_ops)
next
  case ESHA256
  then show ?thesis
    using assms lifted_contract [OF SHA256.restorable_digest_axioms _ CSHA2_NewL_state(2), of "\<lambda>ob. the_256 (the_SHA2 ob)" "\<lambda>s. SHA2 (Impl256 s)"]
    by (simp add: CSHA2_ops_def lift_ops_lift_ops)
next
  case ESHA384
  then show ?thesis
    using assms lifted_contract [OF SHA384.restorable_digest_axioms _ CSHA2_NewL_state(3), of "\<lambda>ob. the_512 (the_SHA2 ob)" "\<lambda>s. SHA2 (Impl512 s)"]
    by (simp add: CSHA2_ops_def lift_ops_lift_ops)
next
  case ESHA512
  then show ?thesis
    using assms lifted_contract [OF SHA512.restorable_digest_axioms _ CSHA2_NewL_state(4), of "\<lambda>ob. the_512 (the_SHA2 ob)" "\<lambda>s. SHA2 (Impl512 s)"]
    by (simp add: CSHA2_ops_def lift_ops_lift_ops)
qed (use assms in simp_all)

lemma object_sizes:
  "i \<noteq> HMAC \<Longrightarrow> opHashSize (object_ops i) \<le> opBlockSize (object_ops i) \<and> opBlockSize (object_ops i) \<le> 128 \<and>
    opBlockSize (object_ops i) + opHashSize (object_ops i) < digest_limit i"
  by (cases i) (simp_all add: lift_ops_def CSHA2_ops_def MD2_ops_def MD5_ops_def MD4_ops_def SHA1_ops_def
    SHA224_ops_def SHA256_ops_def SHA384_ops_def SHA512_ops_def class_ops_def)

lemma MD2_object: "message_digest (object_ops EMD2) (\<lambda>ob. length (mData (the_MD2 ob)) = 16 \<and> MD2 (the_MD2 ob) = ob)
    (\<lambda>ob m. md2_rep (the_MD2 ob) m \<and> MD2 (the_MD2 ob) = ob) rfc1319 N"
  using md2.lifted [of the_MD2 MD2] by simp

text \<open>
  C19: an object of the factory answers every sequence of calls as the abstract object, which
  keeps the message and applies the digest of the standard, while the messages together stay
  below the size of the counter.
\<close>

theorem NewDigestL_refines:
  assumes "NewDigestL i = Ok ob" and "calls_length cs < digest_limit i"
  shows "\<exists>ob'. run_calls (object_ops i) ob cs = Ok (fst (spec_calls (digest_of i) [] cs), ob')"
proof (cases "i = EMD2")
  case True
  then show ?thesis
    using message_digest.run_refines [OF MD2_object, of ob "[]" cs "digest_limit i"] assms md2_rep_new by auto
next
  case False
  then obtain U R S where "restorable_digest (object_ops i) U R (digest_of i) (digest_limit i) S" "R ob []"
    using factory_contract [OF assms(1)] unfolding keeps_contract_def by blast
  then show ?thesis
    using message_digest.run_refines [OF restorable_digest.axioms(1), of "object_ops i" U R "digest_of i" "digest_limit i" S ob "[]" cs]
      assms(2) by auto
qed

theorem NewDigestL_refines_witness:
  "\<exists>ob'. run_calls (object_ops ESHA256) (SHA2 (CSHA2_NewL E256Bit)) [Update [1, 2], Hash [3], CopyL, Update [4], Final, Final]
    = Ok ([[], fips180_sha2 E256Bit [1, 2, 3], [], [], fips180_sha2 E256Bit [1, 2, 3, 4], fips180_sha2 E256Bit []], ob')"
  using NewDigestL_refines [of ESHA256 "SHA2 (CSHA2_NewL E256Bit)" "[Update [1, 2], Hash [3], CopyL, Update [4], Final, Final]"] by simp



lemma forgotten_number: "m mod 16 \<noteq> 0 \<Longrightarrow> x mod 16 \<noteq> (m + x) mod (16 :: nat)"
  using mod_eq_dvd_iff_nat [of x "m + x" 16] by auto

lemma MD2_DoUpdate_num: "md2_ok s \<Longrightarrow> mNum (MD2_DoUpdate s x) = (mNum s + length x) mod 16"
proof -
  assume s: "md2_ok s"
  have "length (snd (md2_view (MD2_DoUpdate s x))) = (mNum s + length x) mod 16"
    using MD2_DoUpdate_seen [OF s, of x] absorbs_length [of "take (mNum s) (mData s)" 16 md2_compress "(mState s, mChecksum s)" x] s
    by (simp only: md2_seen_def md2_view_def md2_ok_def length_take snd_conv min_absorb2 less_imp_le)
  then show ?thesis using MD2_DoUpdate_seen [OF s, of x] by (simp add: md2_seen_def md2_view_def md2_ok_def)
qed

definition md2_saved :: "CMD2 \<Rightarrow> byte list \<times> tuint list \<times> tuint list" where
  "md2_saved s = (mDataTemp s, mChecksumTemp s, mStateTemp s)"

lemma md2_saved_blocks: "md2_saved (fst (md2_blocks s x)) = md2_saved s"
proof (induction s x rule: md2_blocks.induct)
  case (1 s x)
  then show ?case by (subst md2_blocks.simps) (simp add: md2_saved_def)
qed

lemma md2_saved_simps [simp]:
  "md2_saved (MD2_Block s d) = md2_saved s" "md2_saved (MD2_DoFinal s) = md2_saved s" "md2_saved (MD2_Reset s) = md2_saved s"
  "md2_saved (s\<lparr>mData := d\<rparr>) = md2_saved s" "md2_saved (s\<lparr>mNum := n\<rparr>) = md2_saved s" "md2_saved (md2_rest s x) = md2_saved s"
  using md2_saved_blocks [of s x]
  by (cases "md2_blocks s x", simp_all add: md2_saved_def MD2_Reset_def md2_rest_def)+

lemma md2_saved_DoUpdate [simp]: "md2_saved (MD2_DoUpdate s x) = md2_saved s"
proof -
  consider "mNum s = 0" | "mNum s \<noteq> 0" "mNum s + length x < 16" | "mNum s \<noteq> 0" "16 \<le> mNum s + length x" by linarith
  then show ?thesis
    by cases (simp_all add: MD2_DoUpdate_start MD2_DoUpdate_short MD2_DoUpdate_long md2_fill_def)
qed

text \<open>
  C21: \<open>CMD2::StoreState\<close> does not save the number of bytes in the buffer, so \<open>CHMAC::Hash\<close>
  over MD2 forgets the bytes that were waiting there: afterwards the buffer holds only the
  last message, and the object no longer represents what it has consumed.
\<close>

theorem HMAC_MD2_Hash_forgets:
  assumes "md2_rep (iDigest s) m" and "HMAC_Hash MD2_ops s x = Ok (y, s')" and "length m mod 16 \<noteq> 0"
  shows "mNum (iDigest s') = length x mod 16 \<and> \<not> md2_rep (iDigest s') (m @ x)"
proof -
  let ?d = "MD2_StoreState (iDigest s)"
  let ?e = "MD2_Reset (MD2_DoFinal (MD2_DoUpdate ?d x))"
  let ?f = "MD2_DoUpdate ?e (iOuterPad s)"
  let ?g = "MD2_Reset (MD2_DoFinal (MD2_DoUpdate ?f (mHash ?f)))"
  have "md2_ok (iDigest s)" using assms(1) by (simp add: md2_rep_def)
  moreover have "md2_saved ?g = md2_saved ?d" by simp
  ultimately have "md2_ok (MD2_RestoreState ?g)" "mNum (MD2_RestoreState ?g) = 0"
    by (simp_all add: md2_saved_def md2_ok_def MD2_RestoreState_def MD2_StoreState_def MD2_Reset_def)
  moreover have "iDigest s' = MD2_DoUpdate (MD2_RestoreState ?g) x"
    using assms(2) by (auto simp: HMAC_Hash_def HMAC_outer_def HMAC_StoreState_def HMAC_RestoreState_def MD2_ops_def Let_def)
  ultimately have n: "mNum (iDigest s') = length x mod 16" using MD2_DoUpdate_num by simp
  moreover have "length x mod 16 \<noteq> (length m + length x) mod 16"
    using forgotten_number [OF assms(3)] .
  ultimately show ?thesis using md2_rep_num by fastforce
qed

theorem HMAC_MD2_Hash_forgets_witness:
  "\<exists>y s'. HMAC_Hash MD2_ops \<lparr>iDigest = MD2_DoUpdate MD2_NewL [1, 2, 3], iInnerPad = [], iOuterPad = replicate 16 0x5c,
      iInnerPadCopy = [], iOuterPadCopy = [], iBlockSize = 16\<rparr> [4] = Ok (y, s') \<and> mNum (iDigest s') = 1 \<and>
    \<not> md2_rep (iDigest s') [1, 2, 3, 4]"
proof -
  let ?s = "\<lparr>iDigest = MD2_DoUpdate MD2_NewL [1, 2, 3], iInnerPad = [], iOuterPad = replicate 16 0x5c,
      iInnerPadCopy = [], iOuterPadCopy = [], iBlockSize = 16\<rparr>"
  obtain y s' where h: "HMAC_Hash MD2_ops ?s [4] = Ok (y, s')"
    by (simp add: HMAC_Hash_def HMAC_outer_def MD2_ops_def Let_def)
  have "md2_rep (iDigest ?s) [1, 2, 3]" using md2_rep_update [OF md2_rep_new, of "[1, 2, 3]"] by simp
  from HMAC_MD2_Hash_forgets [OF this h] h show ?thesis by auto
qed

end
