(* ===== verification/UpsPolicy.thy ===== *)
theory UpsPolicy
  imports Prelude
begin

section \<open>Policies of the user prompt service (\<open>authorisation/userpromptservice/policies\<close>)\<close>

text \<open>
  A policy (\<open>policies/source/policy.cpp\<close>), the policy file reader (\<open>policyreader.cpp\<close>) and the
  policy list (\<open>policylist.cpp\<close>).  Text descriptors are strings.  The code relies on three
  parts of the platform that are not in the repository; they are the fields of the parameter
  \<open>policy_env\<close>: \<open>TDesC::MatchF\<close> on a wildcard pattern, \<open>CResourceFile\<close> (from the bytes of a
  resource file to its second UID and the bytes of resource 1) and \<open>RResourceReader::ReadHBufCL\<close>.
\<close>

subsection \<open>Policies\<close>

datatype TSystemServerSecurity =
    ESystemServerSecurityPassedOrFailed
  | ESystemServerSecurityFailed
  | ESystemServerSecurityPassed

definition EYes :: tuint where "EYes = 0x01"
definition ENo :: tuint where "ENo = 0x02"
definition ESessionYes :: tuint where "ESessionYes = 0x04"
definition EAlways :: tuint where "EAlways = 0x08"
definition ENever :: tuint where "ENever = 0x10"
definition ESessionNo :: tuint where "ESessionNo = 0x20"

lemmas TOptions_defs = EYes_def ENo_def ESessionYes_def EAlways_def ENever_def ESessionNo_def

record CPolicy =
  iSidClasses :: "16 word"
  iSidList :: "tuint list"
  iDestination :: string
  iOptions :: tuint
  iPolicyEvaluator :: tuint
  iDialogCreator :: tuint
  iFlags :: "16 word"
  iSystemServerSecurity :: TSystemServerSecurity
  iMajorVersion :: "16 word"
  iMinorVersion :: "16 word"
  iDefault :: bool

record policy_env =
  MatchF :: "string \<Rightarrow> string \<Rightarrow> bool"
  OpenResource :: "byte list \<Rightarrow> (tuint \<times> byte list) result"
  ReadHBufCL :: "byte list \<Rightarrow> (string option \<times> byte list) result"

definition TSidClasses_Contains :: "16 word \<Rightarrow> tuint \<Rightarrow> bool" where
  "TSidClasses_Contains sidClasses aSid =
     (let sidClass = unat (drop_bit 28 (aSid AND 0xf0000000))
      in push_bit sidClass (1 :: tuint) AND ucast sidClasses \<noteq> 0)"

definition CPolicy_Matches :: "policy_env \<Rightarrow> CPolicy \<Rightarrow> tuint \<Rightarrow> string \<Rightarrow> bool \<Rightarrow> bool" where
  "CPolicy_Matches env p aClientSid aDestination aSecurityResult =
     (if iSystemServerSecurity p = ESystemServerSecurityPassed \<and> \<not> aSecurityResult then False
      else if iSystemServerSecurity p = ESystemServerSecurityFailed \<and> aSecurityResult then False
      else
        let sidMatch = (if iSidList p \<noteq> [] then aClientSid \<in> set (iSidList p)
                        else TSidClasses_Contains (iSidClasses p) aClientSid)
        in sidMatch \<and> MatchF env aDestination (iDestination p))"

definition PromptRequired :: "CPolicy \<Rightarrow> bool" where
  "PromptRequired p \<longleftrightarrow>
     iOptions p AND (EYes OR ESessionYes OR EAlways) \<noteq> 0 \<and>
     iOptions p AND (ENo OR ESessionNo OR ENever) \<noteq> 0"

subsection \<open>The decision for a set of options (\<open>authoriser.cpp\<close>)\<close>

datatype TUpsDecision = EUpsDecYes | EUpsDecNo | EUpsDecSessionYes | EUpsDecSessionNo

definition MapCPolicyTOptions2TUpsDecision :: "CPolicy \<Rightarrow> tuint \<Rightarrow> TUpsDecision" where
  "MapCPolicyTOptions2TUpsDecision iPolicy aOptions =
     (if aOptions AND (ENever OR ESessionNo) \<noteq> 0 then
        (if iOptions iPolicy AND ESessionNo \<noteq> 0 then EUpsDecSessionNo else EUpsDecNo)
      else if aOptions AND (EAlways OR ESessionYes) \<noteq> 0 then
        (if iOptions iPolicy AND ESessionYes \<noteq> 0 then EUpsDecSessionYes else EUpsDecYes)
      else if aOptions AND ENo \<noteq> 0 then EUpsDecNo
      else if aOptions AND EYes = 0 then EUpsDecNo
      else EUpsDecYes)"

definition positive :: "TUpsDecision \<Rightarrow> bool" where
  "positive d \<longleftrightarrow> d = EUpsDecYes \<or> d = EUpsDecSessionYes"

lemma word_and_or_eq_0: "(a :: 'a :: len word) AND (b OR c) = 0 \<longleftrightarrow> a AND b = 0 \<and> a AND c = 0"
  by (simp add: bit.conj_disj_distrib or_eq_0_iff)

lemma MapCPolicy_positive:
  "positive (MapCPolicyTOptions2TUpsDecision p aOptions) \<longleftrightarrow>
     aOptions AND (ENo OR ESessionNo OR ENever) = 0 \<and> aOptions AND (EYes OR ESessionYes OR EAlways) \<noteq> 0
   \<or> aOptions AND (ESessionNo OR ENever) = 0 \<and> aOptions AND (ESessionYes OR EAlways) \<noteq> 0"
  by (simp add: MapCPolicyTOptions2TUpsDecision_def positive_def word_and_or_eq_0) blast

subsection \<open>Reading a policy file\<close>

text \<open>The little endian reads of \<open>RResourceReader\<close>, which leave at the end of the resource.\<close>

fun ReadUint8L :: "byte list \<Rightarrow> (byte \<times> byte list) result" where
  "ReadUint8L (a # bs) = Ok (a, bs)"
| "ReadUint8L _ = Leave KErrEof"

fun ReadUint16L :: "byte list \<Rightarrow> (16 word \<times> byte list) result" where
  "ReadUint16L (a # b # bs) = Ok (ucast a OR push_bit 8 (ucast b), bs)"
| "ReadUint16L _ = Leave KErrEof"

fun ReadUint32L :: "byte list \<Rightarrow> (tuint \<times> byte list) result" where
  "ReadUint32L (a # b # c # d # bs) =
     Ok (ucast a OR push_bit 8 (ucast b) OR push_bit 16 (ucast c) OR push_bit 24 (ucast d), bs)"
| "ReadUint32L _ = Leave KErrEof"

record TPolicyHeader =
  hMajorVersion :: "16 word"
  hMinorVersion :: "16 word"
  iAuthPolicy :: int
  iDefaultPolicyEvaluator :: tuint
  iDefaultDialogCreator :: tuint

definition KPolicyFormatVersion :: "16 word" where "KPolicyFormatVersion = 1"
definition KUidUpsPolicyResourceFile :: tuint where "KUidUpsPolicyResourceFile = 0x102836B3"

definition ReadPolicyHeaderL :: "byte list \<Rightarrow> (TPolicyHeader \<times> byte list) result" where
  "ReadPolicyHeaderL rd =
     bindL (ReadUint16L rd) (\<lambda>(formatVersion, rd).
     bindL (guardL (formatVersion = KPolicyFormatVersion) KErrUpsBadPolicyFile) (\<lambda>_.
     bindL (ReadUint32L rd) (\<lambda>(_, rd).
     bindL (ReadUint16L rd) (\<lambda>(major, rd).
     bindL (ReadUint16L rd) (\<lambda>(minor, rd).
     bindL (ReadUint8L rd) (\<lambda>(auth, rd).
     bindL (ReadUint32L rd) (\<lambda>(evaluator, rd).
     bindL (ReadUint32L rd) (\<lambda>(creator, rd).
     bindL (guardL (creator \<noteq> 0) KErrUpsBadPolicyFile) (\<lambda>_.
     Ok (\<lparr>hMajorVersion = major, hMinorVersion = minor, iAuthPolicy = sint auth,
          iDefaultPolicyEvaluator = evaluator, iDefaultDialogCreator = creator\<rparr>, rd))))))))))"

record CPolicyReader =
  iReader :: "byte list"
  iHeader :: TPolicyHeader
  iPolicyCount :: nat
  iPolicyNum :: nat

definition CPolicyReader_NewL :: "policy_env \<Rightarrow> byte list \<Rightarrow> CPolicyReader result" where
  "CPolicyReader_NewL env file =
     bindL (OpenResource env file) (\<lambda>(uid1, rd).
     bindL (guardL (uid1 = KUidUpsPolicyResourceFile) KErrUpsBadPolicyFile) (\<lambda>_.
     bindL (ReadPolicyHeaderL rd) (\<lambda>(hdr, rd).
     bindL (ReadUint16L rd) (\<lambda>(policyCount, rd).
     Ok \<lparr>iReader = rd, iHeader = hdr, iPolicyCount = unat policyCount, iPolicyNum = 0\<rparr>))))"

definition DefaultPolicyL :: "CPolicyReader \<Rightarrow> CPolicy" where
  "DefaultPolicyL r =
     \<lparr>iSidClasses = 0xFFFF, iSidList = [], iDestination = ''*'', iOptions = EYes OR ENo,
      iPolicyEvaluator = iDefaultPolicyEvaluator (iHeader r),
      iDialogCreator = iDefaultDialogCreator (iHeader r), iFlags = 0,
      iSystemServerSecurity = ESystemServerSecurityPassedOrFailed,
      iMajorVersion = hMajorVersion (iHeader r), iMinorVersion = hMinorVersion (iHeader r),
      iDefault = True\<rparr>"

fun read_sids :: "nat \<Rightarrow> byte list \<Rightarrow> (tuint list \<times> byte list) result" where
  "read_sids 0 rd = Ok ([], rd)"
| "read_sids (Suc n) rd =
     bindL (ReadUint32L rd) (\<lambda>(sid, rd).
     bindL (read_sids n rd) (\<lambda>(sids, rd). Ok (sid # sids, rd)))"

definition read_security :: "byte \<Rightarrow> TSystemServerSecurity result" where
  "read_security ssSecurity =
     (if ssSecurity = 0 then Ok ESystemServerSecurityPassedOrFailed
      else if ssSecurity = 2 then Ok ESystemServerSecurityPassed
      else if ssSecurity = 1 then Ok ESystemServerSecurityFailed
      else Leave KErrUpsBadPolicyFile)"

definition ReadPolicyL :: "policy_env \<Rightarrow> TPolicyHeader \<Rightarrow> byte list \<Rightarrow> (CPolicy \<times> byte list) result" where
  "ReadPolicyL env hdr rd =
     bindL (ReadUint32L rd) (\<lambda>(classes, rd).
     bindL (ReadUint16L rd) (\<lambda>(numSids, rd).
     bindL (guardL (\<not> sint numSids < 0) KErrUpsBadPolicyFile) (\<lambda>_.
     bindL (read_sids (unat numSids) rd) (\<lambda>(sidList, rd).
     bindL (ReadUint8L rd) (\<lambda>(ssSecurity, rd).
     bindL (read_security ssSecurity) (\<lambda>systemServerSecurity.
     bindL (ReadHBufCL env rd) (\<lambda>(destination, rd).
     bindL (ReadUint32L rd) (\<lambda>(options, rd).
     bindL (guardL (options AND NOT (EYes OR ENo OR ESessionYes OR ESessionNo OR EAlways OR ENever) = 0)
              KErrUpsBadPolicyFile) (\<lambda>_.
     bindL (ReadUint32L rd) (\<lambda>(policyEvaluator, rd).
     bindL (ReadUint32L rd) (\<lambda>(dialogCreator, rd).
     bindL (ReadUint16L rd) (\<lambda>(flags, rd).
     bindL (ReadUint16L rd) (\<lambda>(_, rd).
     bindL (ReadUint32L rd) (\<lambda>(_, rd).
     Ok (\<lparr>iSidClasses = ucast classes, iSidList = sidList,
          iDestination = (case destination of None \<Rightarrow> [] | Some s \<Rightarrow> s), iOptions = options,
          iPolicyEvaluator = (if policyEvaluator = 0 then iDefaultPolicyEvaluator hdr else policyEvaluator),
          iDialogCreator = (if dialogCreator = 0 then iDefaultDialogCreator hdr else dialogCreator),
          iFlags = flags, iSystemServerSecurity = systemServerSecurity,
          iMajorVersion = hMajorVersion hdr, iMinorVersion = hMinorVersion hdr,
          iDefault = False\<rparr>, rd)))))))))))))))"

definition NextPolicyL :: "policy_env \<Rightarrow> CPolicyReader \<Rightarrow> (CPolicy option \<times> CPolicyReader) result" where
  "NextPolicyL env r =
     (if iPolicyNum r < iPolicyCount r then
        bindL (ReadPolicyL env (iHeader r) (iReader r)) (\<lambda>(p, rd).
        Ok (Some p, r\<lparr>iReader := rd, iPolicyNum := iPolicyNum r + 1\<rparr>))
      else Ok (None, r))"

lemma NextPolicyL_Some:
  "NextPolicyL env r = Ok (Some p, r') \<Longrightarrow>
     iPolicyNum r < iPolicyCount r \<and> iPolicyCount r' = iPolicyCount r \<and>
     iPolicyNum r' = iPolicyNum r + 1 \<and> iHeader r' = iHeader r"
  by (auto simp: NextPolicyL_def bindL_eq_Inr split: if_splits prod.splits)

lemma NextPolicyL_None: "NextPolicyL env r = Ok (None, r') \<longleftrightarrow> \<not> iPolicyNum r < iPolicyCount r \<and> r' = r"
  by (auto simp: NextPolicyL_def bindL_eq_Inr split: if_splits prod.splits)

subsection \<open>Policy lists\<close>

record TId =
  iServerSid :: tuint
  iServiceId :: tuint

record TServiceConfig =
  scServiceId :: tuint
  scPolicy :: int
  scMajorVersion :: "16 word"
  scMinorVersion :: "16 word"

record CPolicyList =
  iId :: TId
  iPolicies :: "CPolicy list"
  iDefaultPolicy :: CPolicy
  iServiceConfig :: TServiceConfig

record CPromptRequest =
  reqClientSid :: tuint
  reqServerSid :: tuint
  reqServiceId :: tuint
  reqDestination :: string
  reqSecurityResult :: bool

text \<open>The loop of \<open>CPolicyList::ConstructL\<close>.\<close>

function (sequential) read_policies ::
    "policy_env \<Rightarrow> CPolicyReader \<Rightarrow> CPolicy list \<Rightarrow> (CPolicy list \<times> CPolicyReader) result" where
  "read_policies env r ps =
     (case NextPolicyL env r of
        Inl e \<Rightarrow> Leave e
      | Inr (None, r') \<Rightarrow> Ok (ps, r')
      | Inr (Some p, r') \<Rightarrow> read_policies env r' (ps @ [p]))"
  by pat_completeness auto

termination
  by (relation "measure (\<lambda>(env, r, ps). iPolicyCount r - iPolicyNum r)")
     (auto dest!: NextPolicyL_Some)

declare read_policies.simps [simp del]

definition CPolicyList_NewL :: "policy_env \<Rightarrow> TId \<Rightarrow> CPolicyReader \<Rightarrow> CPolicyList result" where
  "CPolicyList_NewL env aId aReader =
     bindL (read_policies env aReader []) (\<lambda>(ps, r).
     Ok \<lparr>iId = aId, iPolicies = ps, iDefaultPolicy = DefaultPolicyL r,
         iServiceConfig = \<lparr>scServiceId = iServiceId aId, scPolicy = iAuthPolicy (iHeader aReader),
           scMajorVersion = hMajorVersion (iHeader aReader),
           scMinorVersion = hMinorVersion (iHeader aReader)\<rparr>\<rparr>)"

fun first_match :: "(CPolicy \<Rightarrow> bool) \<Rightarrow> CPolicy list \<Rightarrow> CPolicy option" where
  "first_match P [] = None"
| "first_match P (p # ps) = (if P p then Some p else first_match P ps)"

definition CPolicyList_Match :: "policy_env \<Rightarrow> CPolicyList \<Rightarrow> CPromptRequest \<Rightarrow> CPolicy" where
  "CPolicyList_Match env l aRequest =
     (case first_match (\<lambda>p. CPolicy_Matches env p (reqClientSid aRequest) (reqDestination aRequest)
                              (reqSecurityResult aRequest)) (iPolicies l) of
        Some p \<Rightarrow> p
      | None \<Rightarrow> iDefaultPolicy l)"

lemma first_match_Some:
  "first_match P ps = Some p \<longleftrightarrow>
     (\<exists>i < length ps. ps ! i = p \<and> P p \<and> (\<forall>j < i. \<not> P (ps ! j)))"
proof (induction ps)
  case Nil
  then show ?case by simp
next
  case (Cons q ps)
  show ?case
  proof (cases "P q")
    case True
    then show ?thesis
      by (auto simp: Ex_less_Suc2 All_less_Suc2)
  next
    case False
    then have "first_match P (q # ps) = Some p \<longleftrightarrow>
        (\<exists>i < length ps. ps ! i = p \<and> P p \<and> (\<forall>j < i. \<not> P (ps ! j)))"
      using Cons.IH by simp
    also have "\<dots> \<longleftrightarrow> (\<exists>i < length (q # ps). (q # ps) ! i = p \<and> P p \<and> (\<forall>j < i. \<not> P ((q # ps) ! j)))"
      using False by (auto simp: Ex_less_Suc2 All_less_Suc2)
    finally show ?thesis .
  qed
qed

lemma first_match_None: "first_match P ps = None \<longleftrightarrow> (\<forall>p \<in> set ps. \<not> P p)"
  by (induction ps) auto

end
