(* ===== verification/UpsPolicyCache.thy ===== *)
theory UpsPolicyCache
  imports UpsPolicy
begin

section \<open>Policy files and the policy cache (\<open>policylist.cpp\<close>, \<open>policycache.cpp\<close>)\<close>

text \<open>
  The names of policy files (\<open>CPolicyList::TId\<close>) and the lazily filled cache of policy lists.
  The file server (\<open>RFs\<close>) is a parameter: \<open>Entry\<close> gives what a path names, \<open>GetDir\<close> the names
  in a directory.  \<open>cache_ok\<close> is the invariant of the cache with respect to a file system.
\<close>

subsection \<open>Names of policy files\<close>

definition hex_digit :: "nat \<Rightarrow> char" where
  "hex_digit n = ''0123456789abcdef'' ! (n mod 16)"

text \<open>\<open>AppendFormat\<close> with \<open>%08x\<close>: eight lower case digits.\<close>

definition format_08x :: "tuint \<Rightarrow> string" where
  "format_08x w = map (\<lambda>i. hex_digit (unat w div 16 ^ i)) (rev [0..<8])"

definition digit_value :: "char \<Rightarrow> nat option" where
  "digit_value c =
     (let n = of_char c :: nat in
      if 48 \<le> n \<and> n \<le> 57 then Some (n - 48)
      else if 97 \<le> n \<and> n \<le> 102 then Some (n - 87)
      else if 65 \<le> n \<and> n \<le> 70 then Some (n - 55)
      else None)"

text \<open>
  \<open>TLex::Val(TUint32&, EHex)\<close>: the longest prefix of hexadecimal digits; no digit is
  \<open>KErrGeneral\<close>, a value above 32 bits \<open>KErrOverflow\<close>.
\<close>

fun lex_digits :: "nat \<Rightarrow> string \<Rightarrow> nat" where
  "lex_digits v [] = v"
| "lex_digits v (c # cs) = (case digit_value c of None \<Rightarrow> v | Some d \<Rightarrow> lex_digits (v * 16 + d) cs)"

definition lex_Val :: "string \<Rightarrow> tuint result" where
  "lex_Val s =
     (if s = [] \<or> digit_value (hd s) = None then Leave KErrGeneral
      else if lex_digits 0 s < 2 ^ 32 then Ok (of_nat (lex_digits 0 s))
      else Leave KErrOverflow)"

definition policy_name :: "TId \<Rightarrow> string" where
  "policy_name aId = ''ups_'' @ format_08x (iServerSid aId) @ ''_'' @ format_08x (iServiceId aId) @ ''.rsc''"

definition AppendNameToPath :: "TId \<Rightarrow> string \<Rightarrow> string" where
  "AppendNameToPath aId aFileName = aFileName @ policy_name aId"

text \<open>\<open>TParse::NameAndExt\<close>: what follows the last backslash.\<close>

definition NameAndExt :: "string \<Rightarrow> string" where
  "NameAndExt f = rev (takeWhile (\<lambda>c. of_char c \<noteq> (92 :: nat)) (rev f))"

definition KPolicyFilePattern :: string where
  "KPolicyFilePattern = ''ups_????????_????????.rsc''"

definition lex_error :: "tuint result \<Rightarrow> bool" where
  "lex_error r = (case r of Inl _ \<Rightarrow> True | Inr _ \<Rightarrow> False)"

text \<open>
  \<open>CPolicyList::TId::IdL\<close> (the copy of the caller's \<open>aId\<close> is returned).  A name that does not match the pattern
  leaves \<open>err\<close> at \<open>KErrNone\<close>, so the function returns and \<open>aId\<close> is unchanged.
\<close>

definition IdL :: "policy_env \<Rightarrow> string \<Rightarrow> TId \<Rightarrow> TId result" where
  "IdL env aPolicyFile aId =
     (let n = NameAndExt aPolicyFile in
      if MatchF env n KPolicyFilePattern then
        (case lex_Val (take 8 (drop 4 n)) of
           Inl _ \<Rightarrow> Leave KErrUpsInvalidPolicyFileName
         | Inr serverSid \<Rightarrow>
             (case lex_Val (take 8 (drop 13 n)) of
                Inl _ \<Rightarrow> Leave KErrUpsInvalidPolicyFileName
              | Inr serviceId \<Rightarrow> Ok \<lparr>iServerSid = serverSid, iServiceId = serviceId\<rparr>))
      else Ok aId)"

lemma digit_value_hex_digit: "digit_value (hex_digit n) = Some (n mod 16)"
proof -
  have "\<forall>k \<in> {..<16}. digit_value (''0123456789abcdef'' ! k) = Some k"
    by code_simp
  then show ?thesis by (simp add: hex_digit_def)
qed

lemma lex_digits_hex:
  "lex_digits v (map (\<lambda>i. hex_digit (n div 16 ^ i)) (rev [0..<k]) @ r) =
     lex_digits (v * 16 ^ k + n mod 16 ^ k) r"
proof (induction k arbitrary: v)
  case 0
  then show ?case by simp
next
  case (Suc k)
  have "n mod 16 ^ Suc k = 16 ^ k * (n div 16 ^ k mod 16) + n mod 16 ^ k"
    using mod_mult2_eq [of n "16 ^ k" 16] by (simp add: mult.commute)
  then show ?case
    by (simp add: Suc.IH digit_value_hex_digit algebra_simps)
qed

lemma unat_tuint_less: "unat (w :: tuint) < 4294967296"
  using unsigned_less [of w, where 'a = nat] by simp

lemma lex_Val_format_08x: "lex_Val (format_08x w) = Ok w"
proof -
  have "lex_digits 0 (format_08x w) = unat w"
    using lex_digits_hex [of 0 "unat w" 8 "[]"] unat_tuint_less [of w]
    by (simp add: format_08x_def)
  moreover have "rev [0..<8] = [7, 6, 5, 4, 3, 2, 1, 0 :: nat]"
    by code_simp
  then have "hd (format_08x w) = hex_digit (unat w div 16 ^ 7)" "format_08x w \<noteq> []"
    unfolding format_08x_def by simp_all
  ultimately show ?thesis
    using unat_tuint_less [of w] by (simp add: lex_Val_def digit_value_hex_digit)
qed

text \<open>Rules that evaluate the names of concrete identifiers.\<close>

lemma upt_8: "rev [0..<8] = [7, 6, 5, 4, 3, 2, 1, 0 :: nat]"
  by code_simp

lemmas policy_name_eval = policy_name_def format_08x_def upt_8 hex_digit_def

lemma length_format_08x [simp]: "length (format_08x w) = 8"
  by (simp add: format_08x_def)

lemma hex_digit_no_backslash: "of_char (hex_digit n) \<noteq> (92 :: nat)"
proof -
  have "\<forall>k \<in> {..<16}. of_char (''0123456789abcdef'' ! k) \<noteq> (92 :: nat)"
    by code_simp
  then show ?thesis by (simp add: hex_digit_def)
qed

lemma policy_name_no_backslash: "c \<in> set (policy_name aId) \<Longrightarrow> of_char c \<noteq> (92 :: nat)"
  by (auto simp: policy_name_def format_08x_def hex_digit_no_backslash)

lemma takeWhile_append_all: "(\<forall>x \<in> set xs. P x) \<Longrightarrow> takeWhile P (xs @ ys) = xs @ takeWhile P ys"
  by (induction xs) auto

lemma NameAndExt_append:
  assumes "path = [] \<or> of_char (last path) = (92 :: nat)"
    and "\<forall>c \<in> set n. of_char c \<noteq> (92 :: nat)"
  shows "NameAndExt (path @ n) = n"
proof -
  have "takeWhile (\<lambda>c. of_char c \<noteq> (92 :: nat)) (rev path) = []"
    using assms(1) by (cases path rule: rev_cases) auto
  then show ?thesis
    using assms(2) by (simp add: NameAndExt_def takeWhile_append_all)
qed

lemma policy_name_fields:
  "take 8 (drop 4 (policy_name aId)) = format_08x (iServerSid aId)"
  "take 8 (drop 13 (policy_name aId)) = format_08x (iServiceId aId)"
  by (simp_all add: policy_name_def)

subsection \<open>The cache\<close>

record rfs =
  Entry :: "string \<Rightarrow> bool option"
  Open :: "string \<Rightarrow> byte list result"
  GetDir :: "string \<Rightarrow> string list result"

text \<open>\<open>Entry\<close> is \<open>None\<close> for a path that does not exist and tells a directory otherwise.\<close>

record CPolicyCache =
  iPolicyLists :: "CPolicyList list"
  iPolicyPath :: string
  iSystemDriveChar :: char

definition EUpsPoliciesCorruptRomPolicy :: leave where "EUpsPoliciesCorruptRomPolicy = Panic 0"

definition FileExistsL :: "rfs \<Rightarrow> string \<Rightarrow> bool" where
  "FileExistsL fs aFileName \<longleftrightarrow> Entry fs aFileName = Some False"

definition ParseListL :: "policy_env \<Rightarrow> rfs \<Rightarrow> TId \<Rightarrow> string \<Rightarrow> CPolicyList result" where
  "ParseListL env fs aId fn =
     bindL (Open fs fn) (\<lambda>bytes. bindL (CPolicyReader_NewL env bytes) (CPolicyList_NewL env aId))"

definition LocatePolicyFileL :: "rfs \<Rightarrow> CPolicyCache \<Rightarrow> TId \<Rightarrow> string result" where
  "LocatePolicyFileL fs c aId =
     (let fn = AppendNameToPath aId (''!:'' @ iPolicyPath c);
          fn = fn[0 := iSystemDriveChar c] in
      if FileExistsL fs fn then Ok fn
      else let fn = fn[0 := CHR ''Z''] in
        if FileExistsL fs fn then Ok fn else Leave KErrUpsMissingPolicyFile)"

definition read_list :: "policy_env \<Rightarrow> rfs \<Rightarrow> CPolicyCache \<Rightarrow> TId \<Rightarrow> CPolicyList result" where
  "read_list env fs c aId =
     bindL (LocatePolicyFileL fs c aId) (\<lambda>fn.
     case ParseListL env fs aId fn of
       Inr l \<Rightarrow> Ok l
     | Inl err \<Rightarrow>
         if err = KErrNoMemory then Leave err
         else if fn ! 0 = CHR ''Z'' then Leave EUpsPoliciesCorruptRomPolicy
         else (case ParseListL env fs aId (fn[0 := CHR ''Z'']) of
             Inr l \<Rightarrow> Ok l
           | Inl err \<Rightarrow> if err \<noteq> KErrNotFound \<and> err \<noteq> KErrNoMemory
               then Leave EUpsPoliciesCorruptRomPolicy else Leave err))"

definition LoadPolicyListL ::
    "policy_env \<Rightarrow> rfs \<Rightarrow> CPolicyCache \<Rightarrow> TId \<Rightarrow> CPolicyList result \<times> CPolicyCache" where
  "LoadPolicyListL env fs c aId =
     (case read_list env fs c aId of
        Inl e \<Rightarrow> (Leave e, c)
      | Inr l \<Rightarrow> (Ok l, c\<lparr>iPolicyLists := iPolicyLists c @ [l]\<rparr>))"

definition PolicyList :: "CPolicyCache \<Rightarrow> TId \<Rightarrow> CPolicyList option" where
  "PolicyList c aId = List.find (\<lambda>l. iId l = aId) (iPolicyLists c)"

definition request_id :: "CPromptRequest \<Rightarrow> TId" where
  "request_id aRequest = \<lparr>iServerSid = reqServerSid aRequest, iServiceId = reqServiceId aRequest\<rparr>"

definition CachedListL ::
    "policy_env \<Rightarrow> rfs \<Rightarrow> CPolicyCache \<Rightarrow> TId \<Rightarrow> CPolicyList result \<times> CPolicyCache" where
  "CachedListL env fs c aId =
     (case PolicyList c aId of Some l \<Rightarrow> (Ok l, c) | None \<Rightarrow> LoadPolicyListL env fs c aId)"

definition CPolicyCache_MatchL ::
    "policy_env \<Rightarrow> rfs \<Rightarrow> CPolicyCache \<Rightarrow> CPromptRequest \<Rightarrow> CPolicy result \<times> CPolicyCache" where
  "CPolicyCache_MatchL env fs c aRequest =
     (case CachedListL env fs c (request_id aRequest) of
        (Inl e, c) \<Rightarrow> (Leave e, c)
      | (Inr l, c) \<Rightarrow> (Ok (CPolicyList_Match env l aRequest), c))"

text \<open>\<open>RArray<TUint>::InsertInOrder\<close>: the array stays sorted and a value that is there is not added.\<close>

fun InsertInOrder :: "'a :: linorder \<Rightarrow> 'a list \<Rightarrow> 'a list" where
  "InsertInOrder a [] = [a]"
| "InsertInOrder a (b # bs) =
     (if a < b then a # b # bs else if a = b then b # bs else b # InsertInOrder a bs)"

definition services_pattern :: "tuint \<Rightarrow> string" where
  "services_pattern aServerSid = ''ups_'' @ format_08x aServerSid @ ''_????????.rsc''"

fun find_names :: "policy_env \<Rightarrow> string \<Rightarrow> string \<Rightarrow> string list \<Rightarrow> tuint list \<Rightarrow> tuint list result" where
  "find_names env pattern dir [] aServices = Ok aServices"
| "find_names env pattern dir (n # ns) aServices =
     (if MatchF env n pattern then
        (case IdL env (dir @ n) \<lparr>iServerSid = 0, iServiceId = 0\<rparr> of
           Inl e \<Rightarrow> if e = KErrNoMemory then Leave e else find_names env pattern dir ns aServices
         | Inr i \<Rightarrow> find_names env pattern dir ns (InsertInOrder (iServiceId i) aServices))
      else find_names env pattern dir ns aServices)"

fun find_on_drives :: "policy_env \<Rightarrow> rfs \<Rightarrow> string \<Rightarrow> tuint \<Rightarrow> char list \<Rightarrow> tuint list \<Rightarrow> tuint list result" where
  "find_on_drives env fs path aServerSid [] aServices = Ok aServices"
| "find_on_drives env fs path aServerSid (d # ds) aServices =
     (let fn = d # '':'' @ path in
      case GetDir fs fn of
        Inl e \<Rightarrow> if e = KErrPathNotFound then find_on_drives env fs path aServerSid ds aServices else Leave e
      | Inr ns \<Rightarrow> bindL (find_names env (services_pattern aServerSid) fn ns aServices)
          (find_on_drives env fs path aServerSid ds))"

definition FindServicesL :: "policy_env \<Rightarrow> rfs \<Rightarrow> CPolicyCache \<Rightarrow> tuint \<Rightarrow> tuint list result" where
  "FindServicesL env fs c aServerSid =
     find_on_drives env fs (iPolicyPath c) aServerSid [CHR ''Z'', iSystemDriveChar c] []"

fun configs_of ::
    "policy_env \<Rightarrow> rfs \<Rightarrow> tuint \<Rightarrow> tuint list \<Rightarrow> TServiceConfig list \<Rightarrow> CPolicyCache \<Rightarrow>
       TServiceConfig list result \<times> CPolicyCache" where
  "configs_of env fs aServerSid [] aConfigs c = (Ok aConfigs, c)"
| "configs_of env fs aServerSid (s # ss) aConfigs c =
     (case CachedListL env fs c \<lparr>iServerSid = aServerSid, iServiceId = s\<rparr> of
        (Inl e, c) \<Rightarrow> (Leave e, c)
      | (Inr l, c) \<Rightarrow> configs_of env fs aServerSid ss (aConfigs @ [iServiceConfig l]) c)"

definition ServiceConfigL ::
    "policy_env \<Rightarrow> rfs \<Rightarrow> CPolicyCache \<Rightarrow> tuint \<Rightarrow> TServiceConfig list \<Rightarrow>
       TServiceConfig list result \<times> CPolicyCache" where
  "ServiceConfigL env fs c aServerSid aConfigs =
     (case FindServicesL env fs c aServerSid of
        Inl e \<Rightarrow> (Leave e, c)
      | Inr services \<Rightarrow> configs_of env fs aServerSid services aConfigs c)"

subsection \<open>The invariant of the cache\<close>

definition cache_ok :: "policy_env \<Rightarrow> rfs \<Rightarrow> CPolicyCache \<Rightarrow> bool" where
  "cache_ok env fs c \<longleftrightarrow>
     (\<forall>l \<in> set (iPolicyLists c). read_list env fs c (iId l) = Ok l) \<and> distinct (map iId (iPolicyLists c))"

text \<open>What a cache answers, without a cache.\<close>

definition policy_for :: "policy_env \<Rightarrow> rfs \<Rightarrow> CPolicyCache \<Rightarrow> CPromptRequest \<Rightarrow> CPolicy result" where
  "policy_for env fs c aRequest =
     bindL (read_list env fs c (request_id aRequest)) (\<lambda>l. Ok (CPolicyList_Match env l aRequest))"

lemma read_list_update [simp]: "read_list env fs (c\<lparr>iPolicyLists := ls\<rparr>) = read_list env fs c"
  by (rule ext) (simp add: read_list_def LocatePolicyFileL_def)

lemma CPolicyList_NewL_iId: "CPolicyList_NewL env aId r = Ok l \<Longrightarrow> iId l = aId"
  by (auto simp: CPolicyList_NewL_def bindL_eq_Inr)

lemma ParseListL_iId: "ParseListL env fs aId fn = Ok l \<Longrightarrow> iId l = aId"
  by (auto simp: ParseListL_def bindL_eq_Inr dest: CPolicyList_NewL_iId)

lemma read_list_iId: "read_list env fs c aId = Ok l \<Longrightarrow> iId l = aId"
proof -
  assume "read_list env fs c aId = Ok l"
  then obtain fn where "ParseListL env fs aId fn = Ok l \<or> ParseListL env fs aId (fn[0 := CHR ''Z'']) = Ok l"
    unfolding read_list_def bindL_eq_Inr
    by (cases "LocatePolicyFileL fs c aId") (fastforce split: sum.split_asm if_split_asm)+
  then show "iId l = aId" by (auto dest: ParseListL_iId)
qed

lemma PolicyList_None: "PolicyList c aId = None \<longleftrightarrow> aId \<notin> iId ` set (iPolicyLists c)"
  by (auto simp: PolicyList_def find_None_iff)

lemma PolicyList_Some: "PolicyList c aId = Some l \<Longrightarrow> l \<in> set (iPolicyLists c) \<and> iId l = aId"
  by (auto simp: PolicyList_def find_Some_iff)

lemma CachedListL_cases:
  assumes "CachedListL env fs c aId = (r, c')" and "cache_ok env fs c"
  shows "r = read_list env fs c aId \<and> cache_ok env fs c' \<and> (\<exists>ls. c' = c\<lparr>iPolicyLists := iPolicyLists c @ ls\<rparr>)"
proof (cases "PolicyList c aId")
  case (Some l)
  then have "read_list env fs c aId = Ok l"
    using assms(2) by (auto simp: cache_ok_def dest!: PolicyList_Some)
  then show ?thesis
    using Some assms by (auto simp: CachedListL_def intro: exI [of _ "[]"])
next
  case None
  show ?thesis
  proof (cases "read_list env fs c aId")
    case (Inl e)
    then show ?thesis
      using None assms by (auto simp: CachedListL_def LoadPolicyListL_def intro: exI [of _ "[]"])
  next
    case (Inr l)
    have "iId l = aId" by (rule read_list_iId [OF Inr])
    then have "cache_ok env fs (c\<lparr>iPolicyLists := iPolicyLists c @ [l]\<rparr>)"
      using assms(2) None Inr by (auto simp: cache_ok_def PolicyList_None)
    then show ?thesis
      using None Inr assms(1) by (auto simp: CachedListL_def LoadPolicyListL_def)
  qed
qed

lemma MatchL_cases:
  assumes "CPolicyCache_MatchL env fs c aRequest = (r, c')" and "cache_ok env fs c"
  shows "r = policy_for env fs c aRequest \<and> cache_ok env fs c' \<and>
    (\<exists>ls. c' = c\<lparr>iPolicyLists := iPolicyLists c @ ls\<rparr>)"
proof (cases "CachedListL env fs c (request_id aRequest)")
  case (Pair r' c'')
  then show ?thesis
    using CachedListL_cases [OF Pair assms(2)] assms(1)
    by (auto simp: CPolicyCache_MatchL_def policy_for_def split: sum.splits)
qed

lemma policy_for_update [simp]: "policy_for env fs (c\<lparr>iPolicyLists := ls\<rparr>) = policy_for env fs c"
  by (rule ext) (simp add: policy_for_def)

text \<open>The answers to a sequence of requests.\<close>

fun match_all ::
    "policy_env \<Rightarrow> rfs \<Rightarrow> CPolicyCache \<Rightarrow> CPromptRequest list \<Rightarrow> CPolicy result list \<times> CPolicyCache" where
  "match_all env fs c [] = ([], c)"
| "match_all env fs c (q # qs) =
     (case CPolicyCache_MatchL env fs c q of
        (r, c) \<Rightarrow> (case match_all env fs c qs of (rs, c) \<Rightarrow> (r # rs, c)))"

lemma match_all_cases:
  "cache_ok env fs c \<Longrightarrow> match_all env fs c qs = (rs, c') \<Longrightarrow>
     rs = map (policy_for env fs c) qs \<and> cache_ok env fs c'"
proof (induction qs arbitrary: c rs)
  case Nil
  then show ?case by simp
next
  case (Cons q qs)
  obtain r d where m: "CPolicyCache_MatchL env fs c q = (r, d)" by fastforce
  then have r: "r = policy_for env fs c q" "cache_ok env fs d"
      and d: "policy_for env fs d = policy_for env fs c"
    using MatchL_cases [OF m Cons.prems(1)] by auto
  obtain rs' e where "match_all env fs d qs = (rs', e)" by fastforce
  then show ?case
    using Cons.IH [OF r(2)] Cons.prems(2) m r(1) d by simp
qed

lemma set_InsertInOrder [simp]: "set (InsertInOrder a bs) = insert a (set bs)"
  by (induction bs) auto

lemma sorted_InsertInOrder: "sorted_wrt (<) bs \<Longrightarrow> sorted_wrt (<) (InsertInOrder a bs)"
  by (induction bs) auto

lemma find_names_sorted:
  "find_names env pattern dir ns ss = Ok ss' \<Longrightarrow> sorted_wrt (<) ss \<Longrightarrow> sorted_wrt (<) ss'"
  by (induction env pattern dir ns ss rule: find_names.induct)
     (auto simp: sorted_InsertInOrder split: if_splits sum.splits)

lemma find_on_drives_sorted:
  "find_on_drives env fs path s ds ss = Ok ss' \<Longrightarrow> sorted_wrt (<) ss \<Longrightarrow> sorted_wrt (<) ss'"
  by (induction env fs path s ds ss rule: find_on_drives.induct)
     (auto simp: Let_def bindL_eq_Inr split: if_splits sum.splits dest: find_names_sorted)

lemma FindServicesL_sorted: "FindServicesL env fs c s = Ok ss \<Longrightarrow> sorted_wrt (<) ss"
  unfolding FindServicesL_def by (erule find_on_drives_sorted) simp

lemma configs_of_cases:
  "configs_of env fs s ss cs c = (r, c') \<Longrightarrow> cache_ok env fs c \<Longrightarrow>
     cache_ok env fs c' \<and>
     (\<forall>cs'. r = Ok cs' \<longrightarrow> (\<exists>ls. cs' = cs @ map iServiceConfig ls \<and>
        list_all2 (\<lambda>t l. read_list env fs c \<lparr>iServerSid = s, iServiceId = t\<rparr> = Ok l) ss ls))"
proof (induction ss arbitrary: cs c)
  case Nil
  then show ?case by auto
next
  case (Cons t ss)
  obtain q d where q: "CachedListL env fs c \<lparr>iServerSid = s, iServiceId = t\<rparr> = (q, d)" by fastforce
  have d: "q = read_list env fs c \<lparr>iServerSid = s, iServiceId = t\<rparr>" "cache_ok env fs d"
      "read_list env fs d = read_list env fs c"
    using CachedListL_cases [OF q Cons.prems(2)] by auto
  show ?case
  proof (cases q)
    case (Inl e)
    then show ?thesis using Cons.prems(1) q d(2) by auto
  next
    case (Inr l)
    then have "configs_of env fs s ss (cs @ [iServiceConfig l]) d = (r, c')"
      using Cons.prems(1) q by simp
    note IH = Cons.IH [OF this d(2)]
    have "\<exists>ls'. cs' = cs @ map iServiceConfig ls' \<and>
        list_all2 (\<lambda>t l. read_list env fs c \<lparr>iServerSid = s, iServiceId = t\<rparr> = Ok l) (t # ss) ls'"
      if r: "r = Ok cs'" for cs'
    proof -
      obtain ls where "cs' = (cs @ [iServiceConfig l]) @ map iServiceConfig ls"
          "list_all2 (\<lambda>t l. read_list env fs c \<lparr>iServerSid = s, iServiceId = t\<rparr> = Ok l) ss ls"
        using IH r d(3) by auto
      then show ?thesis
        using Inr d(1) by (intro exI [of _ "l # ls"]) simp
    qed
    then show ?thesis using IH by blast
  qed
qed

subsection \<open>Properties\<close>

text \<open>
  A concrete platform for the witnesses: a pattern of wildcards, a resource file that is its
  second UID (four bytes) and its resource, and an empty string for every text.
\<close>

fun glob :: "string \<Rightarrow> string \<Rightarrow> bool" where
  "glob [] [] \<longleftrightarrow> True"
| "glob [] (p # ps) \<longleftrightarrow> p = CHR ''*'' \<and> glob [] ps"
| "glob (c # cs) [] \<longleftrightarrow> False"
| "glob (c # cs) (p # ps) \<longleftrightarrow>
     (if p = CHR ''*'' then glob (c # cs) ps \<or> glob cs (p # ps)
      else (p = CHR ''?'' \<or> p = c) \<and> glob cs ps)"

definition demo_env :: policy_env where
  "demo_env = \<lparr>MatchF = glob, OpenResource = ReadUint32L, ReadHBufCL = (\<lambda>bs. Ok (Some ''*'', bs))\<rparr>"

text \<open>One policy: every SID of class 0, options \<open>EYes\<close> and \<open>ENo\<close>, evaluator and dialog creator of the header.\<close>

definition demo_file :: "byte list" where
  "demo_file = [0xB3, 0x36, 0x28, 0x10,  1, 0,  0, 0, 0, 0,  3, 0,  1, 0,  0,  5, 0, 0, 0,  6, 0, 0, 0,  1, 0,
     1, 0, 0, 0,  0, 0,  0,  3, 0, 0, 0,  0, 0, 0, 0,  0, 0, 0, 0,  0, 0,  0, 0,  0, 0, 0, 0]"

definition demo_fs :: rfs where
  "demo_fs = \<lparr>
     Entry = (\<lambda>fn. if fn = ''Z:'' @ CHR 0x5C # ''p'' @ CHR 0x5C # ''ups_00000001_00000002.rsc'' then Some False else None),
     Open = (\<lambda>fn. Ok demo_file), GetDir = (\<lambda>fn. Leave KErrPathNotFound)\<rparr>"

definition demo_cache :: CPolicyCache where
  "demo_cache = \<lparr>iPolicyLists = [], iPolicyPath = CHR 0x5C # ''p'' @ [CHR 0x5C], iSystemDriveChar = CHR ''C''\<rparr>"

definition demo_request :: "tuint \<Rightarrow> CPromptRequest" where
  "demo_request sid = \<lparr>reqClientSid = sid, reqServerSid = 1, reqServiceId = 2, reqDestination = ''x'', reqSecurityResult = True\<rparr>"


definition demo_policy :: "16 word \<Rightarrow> CPolicy" where
  "demo_policy classes = \<lparr>iSidClasses = classes, iSidList = [], iDestination = ''*'', iOptions = EYes OR ENo,
     iPolicyEvaluator = 5, iDialogCreator = 6, iFlags = 0,
     iSystemServerSecurity = ESystemServerSecurityPassedOrFailed, iMajorVersion = 3, iMinorVersion = 1,
     iDefault = False\<rparr>"

definition demo_list :: CPolicyList where
  "demo_list = \<lparr>iId = \<lparr>iServerSid = 1, iServiceId = 2\<rparr>, iPolicies = [demo_policy 2, demo_policy 1, demo_policy 3],
     iDefaultPolicy = demo_policy 0,
     iServiceConfig = \<lparr>scServiceId = 2, scPolicy = 0, scMajorVersion = 3, scMinorVersion = 1\<rparr>\<rparr>"


text \<open>
  C22: The policy cache is transparent: as long as the policy files do not change, a cache that
  satisfies its invariant answers any sequence of requests as if each policy file were read
  anew for each request, errors included, and keeps the invariant.
\<close>

theorem policy_cache_transparent:
  assumes "cache_ok env fs c"
  shows "fst (match_all env fs c qs) = map (policy_for env fs c) qs \<and> cache_ok env fs (snd (match_all env fs c qs))"
proof (cases "match_all env fs c qs")
  case (Pair rs c')
  then show ?thesis using match_all_cases [OF assms Pair] by simp
qed

lemma demo_policy_for: "policy_for demo_env demo_fs demo_cache (demo_request 7) = Ok (demo_policy 1)"
proof -
  let ?id = "\<lparr>iServerSid = 1, iServiceId = 2\<rparr>"
  let ?l = "demo_list\<lparr>iPolicies := [demo_policy 1], iDefaultPolicy := DefaultPolicyL \<lparr>iReader = [],
      iHeader = \<lparr>hMajorVersion = 3, hMinorVersion = 1, iAuthPolicy = 0, iDefaultPolicyEvaluator = 5,
        iDefaultDialogCreator = 6\<rparr>, iPolicyCount = 1, iPolicyNum = 1\<rparr>\<rparr>"
  have "LocatePolicyFileL demo_fs demo_cache ?id = Ok (''Z:'' @ CHR 0x5C # ''p'' @ CHR 0x5C # ''ups_00000001_00000002.rsc'')"
    by (simp add: LocatePolicyFileL_def FileExistsL_def demo_fs_def demo_cache_def AppendNameToPath_def
        policy_name_eval)
  moreover have "bindL (CPolicyReader_NewL demo_env demo_file) (CPolicyList_NewL demo_env ?id) = Ok ?l"
    by code_simp
  ultimately have "read_list demo_env demo_fs demo_cache ?id = Ok ?l"
    by (simp add: read_list_def ParseListL_def demo_fs_def)
  moreover have "request_id (demo_request 7) = ?id"
    by (simp add: request_id_def demo_request_def)
  moreover have "CPolicyList_Match demo_env ?l (demo_request 7) = demo_policy 1"
    by code_simp
  ultimately show ?thesis by (simp add: policy_for_def)
qed

theorem policy_cache_transparent_witness:
  "fst (match_all demo_env demo_fs demo_cache [demo_request 7, demo_request 8]) =
     map (policy_for demo_env demo_fs demo_cache) [demo_request 7, demo_request 8] \<and>
   policy_for demo_env demo_fs demo_cache (demo_request 7) = Ok (demo_policy 1)"
proof -
  have "cache_ok demo_env demo_fs demo_cache"
    by (simp add: cache_ok_def demo_cache_def)
  from policy_cache_transparent [OF this, of "[demo_request 7, demo_request 8]"]
  have "fst (match_all demo_env demo_fs demo_cache [demo_request 7, demo_request 8]) =
     map (policy_for demo_env demo_fs demo_cache) [demo_request 7, demo_request 8]"
    by blast
  moreover have "policy_for demo_env demo_fs demo_cache (demo_request 7) = Ok (demo_policy 1)"
    by (rule demo_policy_for)
  ultimately show ?thesis by blast
qed

text \<open>
  C24: The name under which a policy file is looked up determines the system server and the
  service: \<open>IdL\<close> on the path built by \<open>AppendNameToPath\<close> gives the pair back.
\<close>

theorem IdL_AppendNameToPath:
  assumes "path = [] \<or> of_char (last path) = (92 :: nat)"
    and "MatchF env (policy_name i) KPolicyFilePattern"
  shows "IdL env (AppendNameToPath i path) j = Ok i"
  using assms policy_name_no_backslash
  by (simp add: IdL_def AppendNameToPath_def NameAndExt_append policy_name_fields lex_Val_format_08x)

theorem IdL_AppendNameToPath_witness:
  "IdL demo_env (AppendNameToPath \<lparr>iServerSid = 0x102836C3, iServiceId = 0xFFFFFFFF\<rparr> [])
     \<lparr>iServerSid = 0, iServiceId = 0\<rparr> = Ok \<lparr>iServerSid = 0x102836C3, iServiceId = 0xFFFFFFFF\<rparr>"
proof -
  have "MatchF demo_env (policy_name \<lparr>iServerSid = 0x102836C3, iServiceId = 0xFFFFFFFF\<rparr>) KPolicyFilePattern"
    by (simp add: policy_name_eval KPolicyFilePattern_def demo_env_def)
  then show ?thesis by (intro IdL_AppendNameToPath) simp_all
qed

text \<open>
  A name whose fields begin with a hexadecimal digit is accepted, whatever follows the digits;
  the configuration of the whole server then fails on the missing file of the truncated UID.
\<close>

lemma IdL_accepts_bad_name:
  "IdL demo_env ''ups_00000001_12zzzzzz.rsc'' \<lparr>iServerSid = 0, iServiceId = 0\<rparr> =
     Ok \<lparr>iServerSid = 1, iServiceId = 0x12\<rparr>"
  by (simp add: IdL_def NameAndExt_def KPolicyFilePattern_def demo_env_def lex_Val_def digit_value_def Let_def)

lemma ServiceConfigL_bad_name:
  "fst (ServiceConfigL demo_env (demo_fs\<lparr>GetDir := (\<lambda>fn. Ok [''ups_00000001_12zzzzzz.rsc''])\<rparr>) demo_cache 1 []) =
     Leave KErrUpsMissingPolicyFile"
proof -
  let ?fs = "demo_fs\<lparr>GetDir := (\<lambda>fn. Ok [''ups_00000001_12zzzzzz.rsc''])\<rparr>"
  have "find_names demo_env (services_pattern 1) (d # CHR '':'' # CHR 0x5C # CHR ''p'' # [CHR 0x5C]) [''ups_00000001_12zzzzzz.rsc''] ss =
      Ok (InsertInOrder 0x12 ss)" if "d = CHR ''Z'' \<or> d = CHR ''C''" for d ss
    using that
    by (auto simp: services_pattern_def policy_name_eval IdL_def NameAndExt_def KPolicyFilePattern_def
        demo_env_def lex_Val_def digit_value_def)
  then have "FindServicesL demo_env ?fs demo_cache 1 = Ok [0x12]"
    by (simp add: FindServicesL_def demo_cache_def)
  moreover have "read_list demo_env ?fs demo_cache \<lparr>iServerSid = 1, iServiceId = 0x12\<rparr> = Leave KErrUpsMissingPolicyFile"
    by (simp add: read_list_def LocatePolicyFileL_def FileExistsL_def demo_fs_def demo_cache_def
        AppendNameToPath_def policy_name_eval)
  ultimately show ?thesis
    by (simp add: ServiceConfigL_def CachedListL_def PolicyList_def LoadPolicyListL_def demo_cache_def)
qed

end
