(* ===== verification/UpsClient.thy ===== *)
theory UpsClient
  imports UpsPolicyCache
begin

section \<open>The client side of the user prompt service (\<open>server/source/upsclient\<close>)\<close>

text \<open>
  \<open>CUpsClientConfig\<close> and \<open>RUpsSession::RetrieveClientConfigL\<close> (\<open>rupssession.cpp\<close>) decide whether
  the server has to be asked at all; \<open>RUpsSubsession::AuthoriseInternal\<close> (\<open>rupssubsession.cpp\<close>)
  acts on it.  The outcomes of the calls to the server and of opening the client process are
  arguments.
\<close>

subsection \<open>CUpsClientConfig\<close>

definition EAlwaysCheck :: int where "EAlwaysCheck = 0"
definition ECheckPostManufacture :: int where "ECheckPostManufacture = 1"
definition ECheckUnprotectedSids :: int where "ECheckUnprotectedSids = 2"
definition ECheckIfFailed :: int where "ECheckIfFailed = 3"
definition ENeverCheck :: int where "ENeverCheck = 4"

lemmas TAuthorisationPolicy_defs =
  EAlwaysCheck_def ECheckPostManufacture_def ECheckUnprotectedSids_def ECheckIfFailed_def ENeverCheck_def

datatype TQueryUpsResult = EAllow | EQueryUps | EReject

text \<open>\<open>InsertInUnsignedKeyOrderL\<close> leaves when the key is there; \<open>FindInUnsignedKeyOrder\<close> looks a key up.\<close>

fun InsertInUnsignedKeyOrderL :: "TServiceConfig \<Rightarrow> TServiceConfig list \<Rightarrow> TServiceConfig list result" where
  "InsertInUnsignedKeyOrderL a [] = Ok [a]"
| "InsertInUnsignedKeyOrderL a (b # bs) =
     (if scServiceId a < scServiceId b then Ok (a # b # bs)
      else if scServiceId a = scServiceId b then Leave KErrAlreadyExists
      else bindL (InsertInUnsignedKeyOrderL a bs) (\<lambda>bs. Ok (b # bs)))"

definition FindInUnsignedKeyOrder :: "tuint \<Rightarrow> TServiceConfig list \<Rightarrow> TServiceConfig option" where
  "FindInUnsignedKeyOrder key cs = List.find (\<lambda>c. scServiceId c = key) cs"

fun CUpsClientConfig_NewL :: "TServiceConfig list \<Rightarrow> TServiceConfig list \<Rightarrow> TServiceConfig list result" where
  "CUpsClientConfig_NewL [] acc = Ok acc"
| "CUpsClientConfig_NewL (c # cs) acc = bindL (InsertInUnsignedKeyOrderL c acc) (CUpsClientConfig_NewL cs)"

definition isProtected :: "tuint \<Rightarrow> bool" where
  "isProtected aClientSid \<longleftrightarrow> aClientSid AND 0x80000000 = 0"

definition QueryUps :: "TServiceConfig list \<Rightarrow> bool \<Rightarrow> tuint \<Rightarrow> tuint \<Rightarrow> string option \<Rightarrow> TQueryUpsResult" where
  "QueryUps config aServerChecksPassed aServiceId aClientSid clientExe =
     (case FindInUnsignedKeyOrder aServiceId config of
        None \<Rightarrow> if aServerChecksPassed then EAllow else EReject
      | Some sc \<Rightarrow>
          if scPolicy sc = EAlwaysCheck then EQueryUps
          else if scPolicy sc = ECheckPostManufacture then
            (if \<not> isProtected aClientSid then EQueryUps
             else case clientExe of
                 None \<Rightarrow> EReject
               | Some name \<Rightarrow>
                   if aServerChecksPassed \<and> (hd name = CHR ''z'' \<or> hd name = CHR ''Z'') then EAllow
                   else EQueryUps)
          else if scPolicy sc = ECheckUnprotectedSids then
            (if aServerChecksPassed \<and> isProtected aClientSid then EAllow else EQueryUps)
          else if scPolicy sc = ECheckIfFailed then
            (if aServerChecksPassed then EAllow else EQueryUps)
          else (if aServerChecksPassed then EAllow else EReject))"

subsection \<open>RUpsSubsession::AuthoriseInternal\<close>

text \<open>
  \<open>Completed e d\<close>: the request status is completed with \<open>e\<close> (\<open>None\<close> is \<open>KErrNone\<close>) and \<open>d\<close> was
  written to the caller's decision; \<open>Executing\<close>: the request is with the server.
\<close>

datatype authorise_outcome = Completed "leave option" "TUpsDecision option" | Executing

definition AuthoriseInternal ::
    "TServiceConfig list \<Rightarrow> bool \<Rightarrow> tuint \<Rightarrow> tuint \<Rightarrow> string option \<Rightarrow> bool \<Rightarrow> unit result \<Rightarrow> unit result \<Rightarrow>
       authorise_outcome \<times> bool" where
  "AuthoriseInternal config aServerCheckOk aServiceId iClientSid clientExe iSubsessionCreated
      createSubsession preparePrompt =
     (let result = QueryUps config aServerCheckOk aServiceId iClientSid clientExe;
          (decided, err, aDecision) =
            (case result of EAllow \<Rightarrow> (True, None, Some EUpsDecYes)
             | EQueryUps \<Rightarrow> (False, None, None)
             | EReject \<Rightarrow> (True, None, Some EUpsDecNo));
          (decided, err, aDecision, iSubsessionCreated) =
            (if \<not> decided \<and> \<not> iSubsessionCreated then
               (case createSubsession of
                  Inl e \<Rightarrow> (True, Some e, Some EUpsDecNo, False)
                | Inr _ \<Rightarrow> (False, err, aDecision, True))
             else (decided, err, aDecision, iSubsessionCreated))
      in if decided then (Completed err aDecision, iSubsessionCreated)
         else (case preparePrompt of
             Inl e \<Rightarrow> (Completed (Some e) aDecision, iSubsessionCreated)
           | Inr _ \<Rightarrow> (Executing, iSubsessionCreated)))"

subsection \<open>Properties\<close>

lemma QueryUps_EAllow: "QueryUps cs passed s sid exe = EAllow \<Longrightarrow> passed"
  by (auto simp: QueryUps_def Let_def split: option.splits if_splits)

lemma QueryUps_asks:
  "QueryUps cs passed s sid exe = EQueryUps \<longleftrightarrow>
     (\<exists>sc. FindInUnsignedKeyOrder s cs = Some sc \<and>
        (scPolicy sc = EAlwaysCheck
         \<or> scPolicy sc = ECheckPostManufacture \<and> (isProtected sid \<longrightarrow> (\<exists>name. exe = Some name \<and>
             \<not> (passed \<and> (hd name = CHR ''z'' \<or> hd name = CHR ''Z''))))
         \<or> scPolicy sc = ECheckUnprotectedSids \<and> \<not> (passed \<and> isProtected sid)
         \<or> scPolicy sc = ECheckIfFailed \<and> \<not> passed))"
  by (cases "FindInUnsignedKeyOrder s cs"; cases exe)
     (auto simp: QueryUps_def TAuthorisationPolicy_defs)



end
