(* ===== verification/UpsFilter.thy ===== *)
theory UpsFilter
  imports UpsPolicy
begin

section \<open>Decision records and filters (\<open>upsclientserver.cpp\<close>, \<open>upstypes.h\<close>)\<close>

text \<open>
  The decision record and the decision filter that the client library, the server and the
  decision database share, with their constructors, setters, validation and externalisation.
  The streams of the store library are byte lists; how it lays out a descriptor is the parameter
  \<open>des_stream\<close>, of which only \<open>reads_back\<close> is used.
\<close>

subsection \<open>The data\<close>

record CDecisionRecord =
  rClientSid :: tuint
  rEvaluatorId :: tuint
  rServiceId :: tuint
  rServerSid :: tuint
  rFingerprint :: "byte list"
  rClientEntity :: "byte list"
  rDescription :: string
  rResult :: byte
  rMajorPolicyVersion :: "16 word"
  rRecordId :: tuint
  rEvaluatorInfo :: tuint

record CDecisionFilter =
  fClientSid :: tuint
  fEvaluatorId :: tuint
  fServiceId :: tuint
  fServerSid :: tuint
  fFingerprint :: "byte list option"
  fClientEntity :: "byte list option"
  fSetFlag :: "tuint list"
  fMajorPolicyVersion :: "16 word"
  fRecordId :: tuint
  fDescription :: "string option"
  fResult :: byte
  fEvaluatorInfo :: tuint

definition KFilterKeysNumber :: nat where "KFilterKeysNumber = 11"
definition KUpsMaxFingerprintLength :: nat where "KUpsMaxFingerprintLength = 32"
definition KUpsMaxClientEntityLength :: nat where "KUpsMaxClientEntityLength = 32"

text \<open>\<open>KPos...\<close> and \<open>KSet...\<close> of \<open>upscommon.h\<close>: the flag of column \<open>i\<close> is bit \<open>i\<close>.\<close>

definition KPosClientSid :: nat where "KPosClientSid = 0"
definition KPosEvaluatorId :: nat where "KPosEvaluatorId = 1"
definition KPosServiceId :: nat where "KPosServiceId = 2"
definition KPosServerSid :: nat where "KPosServerSid = 3"
definition KPosFingerprint :: nat where "KPosFingerprint = 4"
definition KPosClientEntity :: nat where "KPosClientEntity = 5"
definition KPosMajorPolicyVersion :: nat where "KPosMajorPolicyVersion = 6"
definition KPosRecordId :: nat where "KPosRecordId = 7"
definition KPosDescription :: nat where "KPosDescription = 8"
definition KPosResult :: nat where "KPosResult = 9"
definition KPosEvaluatorInfo :: nat where "KPosEvaluatorInfo = 10"

lemmas KPos_defs = KPosClientSid_def KPosEvaluatorId_def KPosServiceId_def KPosServerSid_def
  KPosFingerprint_def KPosClientEntity_def KPosMajorPolicyVersion_def KPosRecordId_def
  KPosDescription_def KPosResult_def KPosEvaluatorInfo_def

definition KSet :: "nat \<Rightarrow> tuint" where "KSet i = push_bit i 1"

definition EEqual :: tuint where "EEqual = 0x00010000"
definition ENotEqual :: tuint where "ENotEqual = 0x00020000"
definition ELessThan :: tuint where "ELessThan = 0x00040000"
definition EGreaterThan :: tuint where "EGreaterThan = 0x00080000"
definition ELessThanOrEqual :: tuint where "ELessThanOrEqual = 0x00100000"
definition EGreaterThanOrEqual :: tuint where "EGreaterThanOrEqual = 0x00200000"

lemmas TComparisonOp_defs = EEqual_def ENotEqual_def ELessThan_def EGreaterThan_def
  ELessThanOrEqual_def EGreaterThanOrEqual_def

definition is_set :: "CDecisionFilter \<Rightarrow> nat \<Rightarrow> bool" where
  "is_set f pos \<longleftrightarrow> fSetFlag f ! pos AND KSet pos \<noteq> 0"

subsection \<open>Construction and setters\<close>

definition CDecisionRecord_ValidateL :: "CDecisionRecord \<Rightarrow> CDecisionRecord result" where
  "CDecisionRecord_ValidateL r =
     (if length (rFingerprint r) > KUpsMaxFingerprintLength then Leave KErrUpsBadFingerprintLength
      else if length (rClientEntity r) > KUpsMaxClientEntityLength then Leave KErrUpsBadClientEntityLength
      else Ok r)"

definition CDecisionFilter_ValidateL :: "CDecisionFilter \<Rightarrow> CDecisionFilter result" where
  "CDecisionFilter_ValidateL f =
     (if is_set f KPosFingerprint \<and>
          (case fFingerprint f of None \<Rightarrow> True | Some s \<Rightarrow> length s > KUpsMaxFingerprintLength)
      then Leave KErrUpsBadFingerprintLength
      else if is_set f KPosClientEntity \<and>
          (case fClientEntity f of None \<Rightarrow> True | Some s \<Rightarrow> length s > KUpsMaxClientEntityLength)
      then Leave KErrUpsBadClientEntityLength
      else Ok f)"

definition empty_filter :: CDecisionFilter where
  "empty_filter = \<lparr>fClientSid = 0, fEvaluatorId = 0, fServiceId = 0, fServerSid = 0, fFingerprint = None,
     fClientEntity = None, fSetFlag = replicate KFilterKeysNumber 0, fMajorPolicyVersion = 0, fRecordId = 0,
     fDescription = None, fResult = 0, fEvaluatorInfo = 0\<rparr>"

definition mark :: "nat \<Rightarrow> tuint \<Rightarrow> CDecisionFilter \<Rightarrow> CDecisionFilter" where
  "mark pos aOp f = f\<lparr>fSetFlag := (fSetFlag f)[pos := fSetFlag f ! pos OR KSet pos OR aOp]\<rparr>"

definition CDecisionFilter_NewLC ::
    "tuint \<Rightarrow> tuint \<Rightarrow> tuint \<Rightarrow> tuint \<Rightarrow> byte list \<Rightarrow> byte list \<Rightarrow> 16 word \<Rightarrow> CDecisionFilter result" where
  "CDecisionFilter_NewLC clientSid evaluatorId serviceId serverSid fingerprint clientEntity version =
     CDecisionFilter_ValidateL
       (mark KPosClientEntity 0 (mark KPosFingerprint 0
         (mark KPosMajorPolicyVersion EEqual (mark KPosServerSid EEqual (mark KPosServiceId EEqual
           (mark KPosEvaluatorId EEqual (mark KPosClientSid EEqual
             (empty_filter\<lparr>fClientSid := clientSid, fEvaluatorId := evaluatorId, fServiceId := serviceId,
                fServerSid := serverSid, fMajorPolicyVersion := version,
                fFingerprint := Some fingerprint, fClientEntity := Some clientEntity\<rparr>))))))))"

definition SetClientSid :: "tuint \<Rightarrow> tuint \<Rightarrow> CDecisionFilter \<Rightarrow> CDecisionFilter" where
  "SetClientSid aSid aOp f = mark KPosClientSid aOp (f\<lparr>fClientSid := aSid\<rparr>)"
definition SetEvaluatorId :: "tuint \<Rightarrow> tuint \<Rightarrow> CDecisionFilter \<Rightarrow> CDecisionFilter" where
  "SetEvaluatorId aUid aOp f = mark KPosEvaluatorId aOp (f\<lparr>fEvaluatorId := aUid\<rparr>)"
definition SetServiceId :: "tuint \<Rightarrow> tuint \<Rightarrow> CDecisionFilter \<Rightarrow> CDecisionFilter" where
  "SetServiceId aUid aOp f = mark KPosServiceId aOp (f\<lparr>fServiceId := aUid\<rparr>)"
definition SetServerSid :: "tuint \<Rightarrow> tuint \<Rightarrow> CDecisionFilter \<Rightarrow> CDecisionFilter" where
  "SetServerSid aSid aOp f = mark KPosServerSid aOp (f\<lparr>fServerSid := aSid\<rparr>)"
definition SetFingerprintL :: "byte list \<Rightarrow> tuint \<Rightarrow> CDecisionFilter \<Rightarrow> CDecisionFilter result" where
  "SetFingerprintL aFingerprint aOp f =
     (if length aFingerprint > KUpsMaxFingerprintLength then Leave KErrUpsBadFingerprintLength
      else Ok (mark KPosFingerprint aOp (f\<lparr>fFingerprint := Some aFingerprint\<rparr>)))"
definition SetClientEntityL :: "byte list \<Rightarrow> tuint \<Rightarrow> CDecisionFilter \<Rightarrow> CDecisionFilter result" where
  "SetClientEntityL aClientEntity aOp f =
     (if length aClientEntity > KUpsMaxClientEntityLength then Leave KErrUpsBadClientEntityLength
      else Ok (mark KPosClientEntity aOp (f\<lparr>fClientEntity := Some aClientEntity\<rparr>)))"
definition SetMajorPolicyVersion :: "16 word \<Rightarrow> tuint \<Rightarrow> CDecisionFilter \<Rightarrow> CDecisionFilter" where
  "SetMajorPolicyVersion aVersion aOp f = mark KPosMajorPolicyVersion aOp (f\<lparr>fMajorPolicyVersion := aVersion\<rparr>)"
definition SetRecordId :: "tuint \<Rightarrow> tuint \<Rightarrow> CDecisionFilter \<Rightarrow> CDecisionFilter" where
  "SetRecordId aId aOp f = mark KPosRecordId aOp (f\<lparr>fRecordId := aId\<rparr>)"
definition SetDescriptionL :: "string \<Rightarrow> tuint \<Rightarrow> CDecisionFilter \<Rightarrow> CDecisionFilter" where
  "SetDescriptionL aDescription aOp f = mark KPosDescription aOp (f\<lparr>fDescription := Some aDescription\<rparr>)"
definition SetResult :: "byte \<Rightarrow> tuint \<Rightarrow> CDecisionFilter \<Rightarrow> CDecisionFilter" where
  "SetResult aResult aOp f = mark KPosResult aOp (f\<lparr>fResult := aResult\<rparr>)"
definition SetEvaluatorInfo :: "tuint \<Rightarrow> tuint \<Rightarrow> CDecisionFilter \<Rightarrow> CDecisionFilter" where
  "SetEvaluatorInfo aEvaluatorInfo aOp f = mark KPosEvaluatorInfo aOp (f\<lparr>fEvaluatorInfo := aEvaluatorInfo\<rparr>)"

subsection \<open>Streams\<close>

record des_stream =
  put8 :: "byte list \<Rightarrow> byte list"
  get8 :: "byte list \<Rightarrow> (byte list \<times> byte list) result"
  put16 :: "string \<Rightarrow> byte list"
  get16 :: "byte list \<Rightarrow> (string \<times> byte list) result"

definition reads_back :: "des_stream \<Rightarrow> bool" where
  "reads_back st \<longleftrightarrow> (\<forall>s r. get8 st (put8 st s @ r) = Ok (s, r)) \<and> (\<forall>s r. get16 st (put16 st s @ r) = Ok (s, r))"

definition WriteUint8 :: "byte \<Rightarrow> byte list" where "WriteUint8 w = [w]"
definition WriteUint16 :: "16 word \<Rightarrow> byte list" where "WriteUint16 w = [ucast w, ucast (drop_bit 8 w)]"
definition WriteUint32 :: "tuint \<Rightarrow> byte list" where
  "WriteUint32 w = [ucast w, ucast (drop_bit 8 w), ucast (drop_bit 16 w), ucast (drop_bit 24 w)]"

lemma ReadUint8L_Write [simp]: "ReadUint8L (WriteUint8 w @ r) = Ok (w, r)"
  by (simp add: WriteUint8_def)

lemma ReadUint16L_Write [simp]: "ReadUint16L (WriteUint16 w @ r) = Ok (w, r)"
  by (simp add: WriteUint16_def) (auto simp: bit_simps intro!: bit_word_eqI)

lemma tuint_of_bytes:
  "ucast (ucast w :: byte) OR push_bit 8 (ucast (ucast (drop_bit 8 w) :: byte)) OR
     push_bit 16 (ucast (ucast (drop_bit 16 w) :: byte)) OR
     push_bit 24 (ucast (ucast (drop_bit 24 w) :: byte)) = (w :: tuint)"
proof (rule bit_word_eqI)
  fix n assume "n < LENGTH(32)"
  then have "n < 8 \<or> 8 \<le> n \<and> n < 16 \<or> 16 \<le> n \<and> n < 24 \<or> 24 \<le> n \<and> n < 32" by auto
  then show "bit (ucast (ucast w :: byte) OR push_bit 8 (ucast (ucast (drop_bit 8 w) :: byte)) OR
      push_bit 16 (ucast (ucast (drop_bit 16 w) :: byte)) OR
      push_bit 24 (ucast (ucast (drop_bit 24 w) :: byte)) :: tuint) n = bit w n"
    by (elim disjE) (simp_all add: bit_simps less_diff_conv2)
qed

lemma ReadUint32L_Write [simp]: "ReadUint32L (WriteUint32 w @ r) = Ok (w, r)"
  by (simp add: WriteUint32_def tuint_of_bytes)

definition CDecisionRecord_ExternalizeL :: "des_stream \<Rightarrow> CDecisionRecord \<Rightarrow> byte list" where
  "CDecisionRecord_ExternalizeL st r =
     WriteUint32 (rClientSid r) @ WriteUint32 (rEvaluatorId r) @ WriteUint32 (rServiceId r) @
     WriteUint32 (rServerSid r) @ put8 st (rFingerprint r) @ put8 st (rClientEntity r) @
     put16 st (rDescription r) @ WriteUint8 (rResult r) @ WriteUint16 (rMajorPolicyVersion r) @
     WriteUint32 (rRecordId r) @ WriteUint32 (rEvaluatorInfo r)"

definition CDecisionRecord_InternalizeL :: "des_stream \<Rightarrow> byte list \<Rightarrow> (CDecisionRecord \<times> byte list) result" where
  "CDecisionRecord_InternalizeL st s =
     bindL (ReadUint32L s) (\<lambda>(clientSid, s).
     bindL (ReadUint32L s) (\<lambda>(evaluatorId, s).
     bindL (ReadUint32L s) (\<lambda>(serviceId, s).
     bindL (ReadUint32L s) (\<lambda>(serverSid, s).
     bindL (get8 st s) (\<lambda>(fingerprint, s).
     bindL (get8 st s) (\<lambda>(clientEntity, s).
     bindL (get16 st s) (\<lambda>(description, s).
     bindL (ReadUint8L s) (\<lambda>(res, s).
     bindL (ReadUint16L s) (\<lambda>(version, s).
     bindL (ReadUint32L s) (\<lambda>(recordId, s).
     bindL (ReadUint32L s) (\<lambda>(info, s).
     bindL (CDecisionRecord_ValidateL \<lparr>rClientSid = clientSid, rEvaluatorId = evaluatorId,
        rServiceId = serviceId, rServerSid = serverSid, rFingerprint = fingerprint,
        rClientEntity = clientEntity, rDescription = description, rResult = res,
        rMajorPolicyVersion = version, rRecordId = recordId, rEvaluatorInfo = info\<rparr>) (\<lambda>r.
     Ok (r, s)))))))))))))"

definition CDecisionFilter_ExternalizeL :: "des_stream \<Rightarrow> CDecisionFilter \<Rightarrow> byte list" where
  "CDecisionFilter_ExternalizeL st f =
     WriteUint32 (fClientSid f) @ WriteUint32 (fEvaluatorId f) @ WriteUint32 (fServiceId f) @
     WriteUint32 (fServerSid f) @
     put8 st (case fFingerprint f of Some s \<Rightarrow> s | None \<Rightarrow> []) @
     put8 st (case fClientEntity f of Some s \<Rightarrow> s | None \<Rightarrow> []) @
     concat (map (\<lambda>i. WriteUint16 (ucast (fSetFlag f ! i))) [0..<KFilterKeysNumber]) @
     WriteUint16 (fMajorPolicyVersion f) @ WriteUint32 (fRecordId f)"

fun read_flags :: "nat \<Rightarrow> byte list \<Rightarrow> (tuint list \<times> byte list) result" where
  "read_flags 0 s = Ok ([], s)"
| "read_flags (Suc n) s =
     bindL (ReadUint16L s) (\<lambda>(w, s). bindL (read_flags n s) (\<lambda>(ws, s). Ok (ucast w # ws, s)))"

definition CDecisionFilter_InternalizeL ::
    "des_stream \<Rightarrow> CDecisionFilter \<Rightarrow> byte list \<Rightarrow> (CDecisionFilter \<times> byte list) result" where
  "CDecisionFilter_InternalizeL st f s =
     bindL (ReadUint32L s) (\<lambda>(clientSid, s).
     bindL (ReadUint32L s) (\<lambda>(evaluatorId, s).
     bindL (ReadUint32L s) (\<lambda>(serviceId, s).
     bindL (ReadUint32L s) (\<lambda>(serverSid, s).
     bindL (get8 st s) (\<lambda>(fingerprint, s).
     bindL (get8 st s) (\<lambda>(clientEntity, s).
     bindL (read_flags KFilterKeysNumber s) (\<lambda>(flags, s).
     bindL (ReadUint16L s) (\<lambda>(version, s).
     bindL (ReadUint32L s) (\<lambda>(recordId, s).
     bindL (CDecisionFilter_ValidateL
        (f\<lparr>fClientSid := clientSid, fEvaluatorId := evaluatorId, fServiceId := serviceId,
           fServerSid := serverSid,
           fFingerprint := (if flags ! KPosFingerprint AND KSet KPosFingerprint = 0 then None else Some fingerprint),
           fClientEntity := (if flags ! KPosClientEntity AND KSet KPosClientEntity = 0 then None
                             else Some clientEntity),
           fSetFlag := flags, fMajorPolicyVersion := version, fRecordId := recordId\<rparr>)) (\<lambda>f.
     Ok (f, s)))))))))))"

subsection \<open>What the setters keep\<close>

text \<open>
  A filter has one flag word per column; a fingerprint or client entity is present exactly when
  its flag is set and is then at most 32 bytes long.
\<close>

definition filter_ok :: "CDecisionFilter \<Rightarrow> bool" where
  "filter_ok f \<longleftrightarrow>
     length (fSetFlag f) = KFilterKeysNumber \<and>
     (is_set f KPosFingerprint \<longleftrightarrow> fFingerprint f \<noteq> None) \<and>
     (is_set f KPosClientEntity \<longleftrightarrow> fClientEntity f \<noteq> None) \<and>
     (\<forall>s. fFingerprint f = Some s \<longrightarrow> length s \<le> KUpsMaxFingerprintLength) \<and>
     (\<forall>s. fClientEntity f = Some s \<longrightarrow> length s \<le> KUpsMaxClientEntityLength)"

lemma is_set_mark:
  assumes "pos < length (fSetFlag f)" and "pos < KFilterKeysNumber"
  shows "is_set (mark pos aOp f) i \<longleftrightarrow> is_set f i \<or> i = pos"
proof (cases "i = pos")
  case True
  have "KSet pos \<noteq> 0"
    using assms(2) by (simp add: KSet_def KFilterKeysNumber_def push_bit_eq_0_iff)
  then show ?thesis
    using assms(1) True by (simp add: is_set_def mark_def bit.conj_disj_distrib2 or_eq_0_iff)
next
  case False
  then show ?thesis by (simp add: is_set_def mark_def)
qed

lemma mark_sel [simp]:
  "length (fSetFlag (mark pos aOp f)) = length (fSetFlag f)"
  "fFingerprint (mark pos aOp f) = fFingerprint f"
  "fClientEntity (mark pos aOp f) = fClientEntity f"
  by (simp_all add: mark_def)

lemma is_set_sel [simp]:
  "is_set (f\<lparr>fClientSid := a\<rparr>) i = is_set f i" "is_set (f\<lparr>fEvaluatorId := a\<rparr>) i = is_set f i"
  "is_set (f\<lparr>fServiceId := a\<rparr>) i = is_set f i" "is_set (f\<lparr>fServerSid := a\<rparr>) i = is_set f i"
  "is_set (f\<lparr>fFingerprint := b\<rparr>) i = is_set f i" "is_set (f\<lparr>fClientEntity := b\<rparr>) i = is_set f i"
  "is_set (f\<lparr>fMajorPolicyVersion := c\<rparr>) i = is_set f i" "is_set (f\<lparr>fRecordId := a\<rparr>) i = is_set f i"
  "is_set (f\<lparr>fDescription := d\<rparr>) i = is_set f i" "is_set (f\<lparr>fResult := e\<rparr>) i = is_set f i"
  "is_set (f\<lparr>fEvaluatorInfo := a\<rparr>) i = is_set f i"
  by (simp_all add: is_set_def)

lemma filter_ok_empty: "filter_ok empty_filter"
  by (simp add: filter_ok_def empty_filter_def is_set_def KPos_defs KFilterKeysNumber_def)

lemmas filter_setters = SetClientSid_def SetEvaluatorId_def SetServiceId_def SetServerSid_def
  SetFingerprintL_def SetClientEntityL_def SetMajorPolicyVersion_def SetRecordId_def
  SetDescriptionL_def SetResult_def SetEvaluatorInfo_def

lemma filter_ok_sel [simp]:
  "filter_ok (f\<lparr>fClientSid := a\<rparr>) = filter_ok f" "filter_ok (f\<lparr>fEvaluatorId := a\<rparr>) = filter_ok f"
  "filter_ok (f\<lparr>fServiceId := a\<rparr>) = filter_ok f" "filter_ok (f\<lparr>fServerSid := a\<rparr>) = filter_ok f"
  "filter_ok (f\<lparr>fMajorPolicyVersion := c\<rparr>) = filter_ok f" "filter_ok (f\<lparr>fRecordId := a\<rparr>) = filter_ok f"
  "filter_ok (f\<lparr>fDescription := d\<rparr>) = filter_ok f" "filter_ok (f\<lparr>fResult := e\<rparr>) = filter_ok f"
  "filter_ok (f\<lparr>fEvaluatorInfo := a\<rparr>) = filter_ok f"
  by (simp_all add: filter_ok_def)

lemma filter_ok_mark:
  assumes "filter_ok f" and "pos < KFilterKeysNumber" and "pos \<noteq> KPosFingerprint" and "pos \<noteq> KPosClientEntity"
  shows "filter_ok (mark pos aOp f)"
  using assms by (simp add: filter_ok_def is_set_mark)

lemma filter_ok_mark_fingerprint:
  "filter_ok f \<Longrightarrow> length b \<le> KUpsMaxFingerprintLength \<Longrightarrow>
     filter_ok (mark KPosFingerprint aOp (f\<lparr>fFingerprint := Some b\<rparr>))"
  by (simp add: filter_ok_def is_set_mark KPos_defs KFilterKeysNumber_def)

lemma filter_ok_mark_entity:
  "filter_ok f \<Longrightarrow> length b \<le> KUpsMaxClientEntityLength \<Longrightarrow>
     filter_ok (mark KPosClientEntity aOp (f\<lparr>fClientEntity := Some b\<rparr>))"
  by (simp add: filter_ok_def is_set_mark KPos_defs KFilterKeysNumber_def)

lemma filter_ok_setters [intro]:
  assumes "filter_ok f"
  shows "filter_ok (SetClientSid a aOp f)" "filter_ok (SetEvaluatorId a aOp f)"
    "filter_ok (SetServiceId a aOp f)" "filter_ok (SetServerSid a aOp f)"
    "filter_ok (SetMajorPolicyVersion v aOp f)" "filter_ok (SetRecordId a aOp f)"
    "filter_ok (SetDescriptionL d aOp f)" "filter_ok (SetResult e aOp f)"
    "filter_ok (SetEvaluatorInfo a aOp f)"
  unfolding filter_setters
  by (rule filter_ok_mark; simp add: assms KPos_defs KFilterKeysNumber_def)+

lemma SetFingerprintL_ok: "SetFingerprintL b aOp f = Ok f' \<Longrightarrow> filter_ok f \<Longrightarrow> filter_ok f'"
  by (auto simp: SetFingerprintL_def filter_ok_mark_fingerprint split: if_splits)

lemma SetClientEntityL_ok: "SetClientEntityL b aOp f = Ok f' \<Longrightarrow> filter_ok f \<Longrightarrow> filter_ok f'"
  by (auto simp: SetClientEntityL_def filter_ok_mark_entity split: if_splits)

subsection \<open>What survives a stream\<close>

text \<open>
  The flags are written as 16 bits, so the comparison operators (bits 16 and above) are lost; the
  description, the result and the evaluator information are not written at all.
\<close>

definition transmitted :: "CDecisionFilter \<Rightarrow> CDecisionFilter" where
  "transmitted f = f\<lparr>fSetFlag := map (\<lambda>w. take_bit 16 w) (fSetFlag f),
     fDescription := None, fResult := 0, fEvaluatorInfo := 0\<rparr>"

lemma read_flags_Write:
  "read_flags (length ws) (concat (map (\<lambda>w. WriteUint16 (ucast w)) ws) @ r) =
     Ok (map (\<lambda>w. take_bit 16 w) ws, r)"
proof (induction ws)
  case Nil
  then show ?case by simp
next
  case (Cons w ws)
  have "ucast (ucast w :: 16 word) = take_bit 16 w"
    by (rule bit_word_eqI) (auto simp: bit_simps)
  then show ?case using Cons by simp
qed

lemma is_set_take_bit:
  assumes "length (fSetFlag f) = KFilterKeysNumber" and "i < KFilterKeysNumber"
  shows "map (take_bit 16) (fSetFlag f) ! i AND KSet i = 0 \<longleftrightarrow> \<not> is_set f i"
proof -
  have "take_bit 16 (fSetFlag f ! i) AND KSet i = fSetFlag f ! i AND KSet i"
    using assms(2) by (auto simp: KSet_def KFilterKeysNumber_def bit_simps intro!: bit_word_eqI)
  then show ?thesis using assms by (simp add: is_set_def)
qed

lemma filter_stream:
  assumes "filter_ok f" and "reads_back st"
  shows "CDecisionFilter_InternalizeL st empty_filter (CDecisionFilter_ExternalizeL st f @ r) =
    Ok (transmitted f, r)"
proof -
  have len: "length (fSetFlag f) = KFilterKeysNumber"
    using assms(1) by (simp add: filter_ok_def)
  have flags: "read_flags KFilterKeysNumber
      (concat (map (\<lambda>i. WriteUint16 (ucast (fSetFlag f ! i))) [0..<KFilterKeysNumber]) @ r) =
      Ok (map (take_bit 16) (fSetFlag f), r)" for r
  proof -
    have "map (\<lambda>i. WriteUint16 (ucast (fSetFlag f ! i))) [0..<KFilterKeysNumber] =
        map (\<lambda>w. WriteUint16 (ucast w)) (fSetFlag f)"
      using len by (intro nth_equalityI) simp_all
    then show ?thesis using read_flags_Write [of "fSetFlag f" r] len by simp
  qed
  let ?fp = "case fFingerprint f of Some s \<Rightarrow> s | None \<Rightarrow> []"
  let ?ce = "case fClientEntity f of Some s \<Rightarrow> s | None \<Rightarrow> []"
  have fp: "(if \<not> is_set f KPosFingerprint then None else Some ?fp) = fFingerprint f"
    and ce: "(if \<not> is_set f KPosClientEntity then None else Some ?ce) = fClientEntity f"
    using assms(1) by (auto simp: filter_ok_def split: option.splits)
  have "is_set (transmitted f) i = is_set f i" if "i < KFilterKeysNumber" for i
    using is_set_take_bit [OF len that] by (simp add: is_set_def transmitted_def)
  then have valid: "CDecisionFilter_ValidateL (transmitted f) = Ok (transmitted f)"
    using assms(1)
    by (auto simp: CDecisionFilter_ValidateL_def filter_ok_def transmitted_def KPos_defs KFilterKeysNumber_def
        split: option.splits)
  have eq: "empty_filter\<lparr>fClientSid := fClientSid f, fEvaluatorId := fEvaluatorId f, fServiceId := fServiceId f,
      fServerSid := fServerSid f, fFingerprint := fFingerprint f, fClientEntity := fClientEntity f,
      fSetFlag := map (take_bit 16) (fSetFlag f), fMajorPolicyVersion := fMajorPolicyVersion f,
      fRecordId := fRecordId f\<rparr> = transmitted f"
    by (simp add: transmitted_def empty_filter_def)
  have "KPosFingerprint < KFilterKeysNumber" "KPosClientEntity < KFilterKeysNumber"
    by (simp_all add: KPos_defs KFilterKeysNumber_def)
  then show ?thesis
    using assms(2) fp ce valid eq
    by (simp add: CDecisionFilter_InternalizeL_def CDecisionFilter_ExternalizeL_def reads_back_def flags
        is_set_take_bit [OF len])
qed

lemma record_stream:
  assumes "CDecisionRecord_ValidateL x = Ok x" and "reads_back st"
  shows "CDecisionRecord_InternalizeL st (CDecisionRecord_ExternalizeL st x @ r) = Ok (x, r)"
  using assms
  by (cases x) (simp add: CDecisionRecord_InternalizeL_def CDecisionRecord_ExternalizeL_def reads_back_def)

subsection \<open>Properties\<close>

text \<open>A concrete stream for the witnesses: every item is preceded by a 1, the end is a 0.\<close>

fun put_items :: "byte list \<Rightarrow> byte list" where
  "put_items [] = [0]"
| "put_items (b # bs) = 1 # b # put_items bs"

fun get_items :: "byte list \<Rightarrow> (byte list \<times> byte list) result" where
  "get_items [] = Leave KErrEof"
| "get_items [a] = (if a = 0 then Ok ([], []) else Leave KErrEof)"
| "get_items (a # b # bs) =
     (if a = 0 then Ok ([], b # bs) else bindL (get_items bs) (\<lambda>(s, r). Ok (b # s, r)))"

lemma get_put_items: "get_items (put_items s @ r) = Ok (s, r)"
proof (induction s)
  case Nil
  then show ?case by (cases r) simp_all
next
  case (Cons b s)
  then show ?case by simp
qed

definition demo_stream :: des_stream where
  "demo_stream = \<lparr>put8 = put_items, get8 = get_items,
     put16 = (\<lambda>s. put_items (map (\<lambda>c. of_nat (of_char c)) s)),
     get16 = (\<lambda>bs. bindL (get_items bs) (\<lambda>(s, r). Ok (map (\<lambda>b. char_of (unat b)) s, r)))\<rparr>"

lemma char_of_byte: "char_of (unat (of_nat (of_char c) :: byte)) = c"
  by (simp add: unat_of_nat)

lemma reads_back_demo: "reads_back demo_stream"
  by (simp add: reads_back_def demo_stream_def get_put_items comp_def char_of_byte)

text \<open>
  C26: Externalising a decision record and internalising it gives the record back and leaves the
  rest of the stream, for every record that its own validation accepts.
\<close>

theorem CDecisionRecord_roundtrip:
  assumes "CDecisionRecord_ValidateL x = Ok x" and "reads_back st"
  shows "CDecisionRecord_InternalizeL st (CDecisionRecord_ExternalizeL st x @ r) = Ok (x, r)"
  using record_stream [OF assms] .

definition demo_record :: CDecisionRecord where
  "demo_record = \<lparr>rClientSid = 1, rEvaluatorId = 2, rServiceId = 3, rServerSid = 0xFFFFFFFF, rFingerprint = [9, 0],
     rClientEntity = [], rDescription = ''d'', rResult = 1, rMajorPolicyVersion = 0x0102, rRecordId = 7,
     rEvaluatorInfo = 0x80000000\<rparr>"

theorem CDecisionRecord_roundtrip_witness:
  "CDecisionRecord_InternalizeL demo_stream (CDecisionRecord_ExternalizeL demo_stream demo_record @ [5]) =
     Ok (demo_record, [5])"
  by (rule CDecisionRecord_roundtrip [OF _ reads_back_demo])
     (simp add: demo_record_def CDecisionRecord_ValidateL_def KUpsMaxFingerprintLength_def KUpsMaxClientEntityLength_def)

text \<open>
  C27: What a client's filter becomes on its way to the server: the seven key columns, the record
  identifier and the marks of the columns arrive; every comparison operator, the description, the
  result and the evaluator information are lost.
\<close>

theorem CDecisionFilter_transmitted:
  assumes "filter_ok f" and "reads_back st"
  shows "CDecisionFilter_InternalizeL st empty_filter (CDecisionFilter_ExternalizeL st f @ r) = Ok (transmitted f, r)"
  using filter_stream [OF assms] .

theorem CDecisionFilter_transmitted_witness:
  "CDecisionFilter_InternalizeL demo_stream empty_filter
     (CDecisionFilter_ExternalizeL demo_stream (SetResult 1 EEqual (SetRecordId 9 ELessThan empty_filter))) =
   Ok (SetResult 0 0 (SetRecordId 9 0 empty_filter), [])"
proof -
  let ?f = "SetResult 1 EEqual (SetRecordId 9 ELessThan empty_filter)"
  have "filter_ok ?f" by (intro filter_ok_setters filter_ok_empty)
  from CDecisionFilter_transmitted [OF this reads_back_demo, of "[]"]
  have "CDecisionFilter_InternalizeL demo_stream empty_filter (CDecisionFilter_ExternalizeL demo_stream ?f) =
      Ok (transmitted ?f, [])"
    by simp
  moreover have "transmitted ?f = SetResult 0 0 (SetRecordId 9 0 empty_filter)"
    by code_simp
  ultimately show ?thesis by simp
qed

end
