(* ===== verification/Numerals.thy ===== *)
theory Numerals
  imports Prelude
begin

section \<open>Decimal numerals\<close>

text \<open>
  The digits that \<open>TDes::AppendNum\<close> appends for a number that is not negative, and a reader of a run
  of digits, which is what \<open>TLex\<close> does with them.
\<close>

definition digit_char :: "nat \<Rightarrow> char" where
  "digit_char d = ''0123456789'' ! d"

fun dec :: "nat \<Rightarrow> string" where
  "dec n = (if n < 10 then [digit_char n] else dec (n div 10) @ [digit_char (n mod 10)])"

declare dec.simps [simp del]

definition char_digit :: "char \<Rightarrow> nat option" where
  "char_digit c = (let n = of_char c :: nat in if 48 \<le> n \<and> n \<le> 57 then Some (n - 48) else None)"

fun read_digits :: "nat \<Rightarrow> string \<Rightarrow> nat \<times> string" where
  "read_digits v [] = (v, [])"
| "read_digits v (c # cs) = (case char_digit c of None \<Rightarrow> (v, c # cs) | Some d \<Rightarrow> read_digits (v * 10 + d) cs)"

lemma char_digit_digit_char: "d < 10 \<Longrightarrow> char_digit (digit_char d) = Some d"
proof -
  have "\<forall>d \<in> {..<10}. char_digit (digit_char d) = Some d"
    by code_simp
  then show "d < 10 \<Longrightarrow> char_digit (digit_char d) = Some d" by blast
qed

lemma read_digits_dec: "read_digits v (dec n @ r) = read_digits (v * 10 ^ length (dec n) + n) r"
proof (induction n arbitrary: v r rule: dec.induct)
  case (1 n)
  show ?case
  proof (cases "n < 10")
    case True
    then show ?thesis by (simp add: dec.simps [of n] char_digit_digit_char)
  next
    case False
    have "(v * 10 ^ length (dec (n div 10)) + n div 10) * 10 + n mod 10 =
        v * 10 ^ Suc (length (dec (n div 10))) + n"
      by (simp add: algebra_simps)
    moreover have "read_digits v (dec n @ r) =
        read_digits ((v * 10 ^ length (dec (n div 10)) + n div 10) * 10 + n mod 10) r"
      using False 1 by (simp add: dec.simps [of n] char_digit_digit_char)
    ultimately show ?thesis
      using False by (simp only:) (simp add: dec.simps [of n])
  qed
qed

lemma length_dec: "n < 10 ^ Suc k \<Longrightarrow> length (dec n) \<le> Suc k"
proof (induction k arbitrary: n)
  case 0
  then show ?case by (simp add: dec.simps [of n])
next
  case (Suc k)
  then have "n div 10 < 10 ^ Suc k" by auto
  then show ?case using Suc.IH [of "n div 10"] by (subst dec.simps) simp
qed

lemma dec_digits: "\<exists>d ds. dec n = digit_char d # ds \<and> d < 10"
proof (induction n rule: dec.induct)
  case (1 n)
  then show ?case by (cases "n < 10") (auto simp: dec.simps [of n])
qed

end
