(* ===== verification/UpsSql.thy ===== *)
theory UpsSql
  imports UpsFilter Numerals
begin

section \<open>The SQL statement of a filter (\<open>database/source/upsdb.cpp\<close>)\<close>

text \<open>
  \<open>CDecisionDb::CreateSqlStatementLC\<close> builds the statement in a buffer whose length it estimates
  first; an append that does not fit panics (\<open>USER 11\<close>), a condition on the description reads
  through the null pointer \<open>iDescription\<close> when the filter has none (\<open>KERN-EXEC 3\<close>).
  \<open>parse_sql\<close> reads a statement back: it is the grammar of the statements that the database
  evaluates, so the theorems say which conditions the database sees.
\<close>

subsection \<open>Quoting\<close>

definition quote :: char where "quote = CHR 0x27"

fun double_quotes :: "string \<Rightarrow> string" where
  "double_quotes [] = []"
| "double_quotes (c # cs) = (if c = quote then c # c # double_quotes cs else c # double_quotes cs)"

definition DoubleSingleQuotesL :: "string \<Rightarrow> string" where
  "DoubleSingleQuotesL aSource = (if quote \<in> set aSource then double_quotes aSource else aSource)"

lemma double_quotes_id: "quote \<notin> set s \<Longrightarrow> double_quotes s = s"
  by (induction s) auto

lemma DoubleSingleQuotesL_eq: "DoubleSingleQuotesL s = double_quotes s"
  by (simp add: DoubleSingleQuotesL_def double_quotes_id)

text \<open>A literal of the statement, after its opening quote: its value and what follows it.\<close>

fun read_literal :: "string \<Rightarrow> (string \<times> string) option" where
  "read_literal [] = None"
| "read_literal [c] = (if c = quote then Some ([], []) else None)"
| "read_literal (c # d # cs) =
     (if c \<noteq> quote then map_option (\<lambda>(s, r). (c # s, r)) (read_literal (d # cs))
      else if d = quote then map_option (\<lambda>(s, r). (c # s, r)) (read_literal cs)
      else Some ([], d # cs))"

lemma read_literal_double_quotes:
  "r = [] \<or> hd r \<noteq> quote \<Longrightarrow> read_literal (double_quotes s @ quote # r) = Some (s, r)"
proof (induction s)
  case Nil
  then show ?case by (cases r) auto
next
  case (Cons c s)
  have "double_quotes s @ quote # r \<noteq> []" by simp
  then obtain d ds where "double_quotes s @ quote # r = d # ds" by (meson neq_Nil_conv)
  then show ?case using Cons by (cases "c = quote") simp_all
qed

subsection \<open>The statement\<close>

definition GetComparisonOperator :: "tuint \<Rightarrow> string" where
  "GetComparisonOperator aFlag =
     (let op' = aFlag AND 0xFFFF0000 in
      if op' = EEqual then ''=''
      else if op' = ENotEqual then ''<>''
      else if op' = ELessThan then ''<''
      else if op' = EGreaterThan then ''>''
      else if op' = ELessThanOrEqual then ''<=''
      else if op' = EGreaterThanOrEqual then ''>=''
      else ''='')"

type_synonym sql_buffer = "string \<times> bool"

definition append_to :: "nat \<Rightarrow> string \<Rightarrow> string \<Rightarrow> string result" where
  "append_to maxLen sql s = (if length (sql @ s) \<le> maxLen then Ok (sql @ s) else Leave (Panic 11))"

definition append_and :: "nat \<Rightarrow> sql_buffer \<Rightarrow> string result" where
  "append_and maxLen b = (if snd b then append_to maxLen (fst b) '' AND '' else Ok (fst b))"

definition AppendQueryInteger ::
    "nat \<Rightarrow> nat \<Rightarrow> tuint \<Rightarrow> tuint \<Rightarrow> string \<Rightarrow> sql_buffer \<Rightarrow> sql_buffer result" where
  "AppendQueryInteger maxLen aValue aFlag aSetCol aColName b =
     (if aFlag AND aSetCol \<noteq> 0 then
        bindL (append_and maxLen b) (\<lambda>sql.
        bindL (append_to maxLen sql aColName) (\<lambda>sql.
        bindL (append_to maxLen sql (GetComparisonOperator aFlag)) (\<lambda>sql.
        bindL (append_to maxLen sql (dec aValue)) (\<lambda>sql. Ok (sql, True)))))
      else Ok b)"

definition AppendQueryStringL ::
    "nat \<Rightarrow> string option \<Rightarrow> tuint \<Rightarrow> tuint \<Rightarrow> string \<Rightarrow> sql_buffer \<Rightarrow> sql_buffer result" where
  "AppendQueryStringL maxLen aValue aFlag aSetCol aColName b =
     (if aFlag AND aSetCol \<noteq> 0 then
        bindL (append_and maxLen b) (\<lambda>sql.
        bindL (append_to maxLen sql aColName) (\<lambda>sql.
        case aValue of
          None \<Rightarrow> Leave (Panic 3)
        | Some aValue \<Rightarrow>
            if length aValue \<noteq> 0 then
              bindL (append_to maxLen sql (GetComparisonOperator aFlag)) (\<lambda>sql.
              bindL (append_to maxLen sql (quote # DoubleSingleQuotesL aValue @ [quote])) (\<lambda>sql.
              Ok (sql, True)))
            else bindL (append_to maxLen sql '' IS NULL'') (\<lambda>sql. Ok (sql, True))))
      else Ok b)"

definition KBaseSQLLength :: nat where "KBaseSQLLength = 33"
definition KMaxIntCondition :: nat where "KMaxIntCondition = 26"
definition KMaxStringCondition :: nat where "KMaxStringCondition = 52"

lemma word_and_pred_less: "(w :: 'a :: len word) \<noteq> 0 \<Longrightarrow> w AND (w - 1) < w"
proof -
  assume "w \<noteq> 0"
  then have "w - 1 < w"
    by (simp add: word_less_nat_alt) (metis diff_less less_numeral_extra(1) unat_gt_0 unat_minus_one)
  moreover have "w AND (w - 1) \<le> w - 1"
    by (metis and.commute word_and_le1)
  ultimately show ?thesis by simp
qed

text \<open>The counting loop \<open>while(flag != 0) flag &= (flag-1)\<close>.\<close>

function count_flags :: "16 word \<Rightarrow> nat" where
  "count_flags flag = (if flag = 0 then 0 else Suc (count_flags (flag AND (flag - 1))))"
  by pat_completeness auto

termination
  by (relation "measure unat") (simp_all add: word_and_pred_less flip: word_less_nat_alt)

declare count_flags.simps [simp del]

definition combinedFlags :: "CDecisionFilter \<Rightarrow> tuint" where
  "combinedFlags f = fold (OR) (fSetFlag f) 0"

definition sql_maxLen :: "CDecisionFilter \<Rightarrow> nat" where
  "sql_maxLen f = KBaseSQLLength
     + KMaxIntCondition * count_flags (ucast (combinedFlags f AND 0x000006CF))
     + KMaxStringCondition * count_flags (ucast (combinedFlags f AND 0x00000130))"

text \<open>An 8 bit descriptor copied into a 16 bit one.\<close>

definition widen :: "byte list \<Rightarrow> string" where
  "widen bs = map (\<lambda>b. char_of (unat b)) bs"

definition CreateSqlStatementLC :: "CDecisionFilter \<Rightarrow> string result" where
  "CreateSqlStatementLC f =
     (let m = sql_maxLen f in
      if m = KBaseSQLLength then append_to m [] ''SELECT * FROM UPSDecisions''
      else
        bindL (append_to m [] ''SELECT * FROM UPSDecisions'') (\<lambda>sql.
        bindL (append_to m sql '' WHERE '') (\<lambda>sql.
        let int_col = (\<lambda>v pos name. AppendQueryInteger m v (fSetFlag f ! pos) (KSet pos) name);
            str_col = (\<lambda>v pos name. AppendQueryStringL m v (fSetFlag f ! pos) (KSet pos) name) in
        bindL (int_col (unat (fServerSid f)) KPosServerSid ''ServerSid'' (sql, False)) (\<lambda>b.
        bindL (int_col (unat (fServiceId f)) KPosServiceId ''ServiceId'' b) (\<lambda>b.
        bindL (int_col (unat (fClientSid f)) KPosClientSid ''ClientSid'' b) (\<lambda>b.
        bindL (int_col (unat (fEvaluatorId f)) KPosEvaluatorId ''EvaluatorId'' b) (\<lambda>b.
        bindL (int_col (unat (fMajorPolicyVersion f)) KPosMajorPolicyVersion ''MajorPolicyVersion'' b) (\<lambda>b.
        bindL (int_col (unat (fRecordId f)) KPosRecordId ''RecordId'' b) (\<lambda>b.
        bindL (int_col (unat (fResult f)) KPosResult ''Result'' b) (\<lambda>b.
        bindL (int_col (unat (fEvaluatorInfo f)) KPosEvaluatorInfo ''EvaluatorInfo'' b) (\<lambda>b.
        bindL (str_col (fDescription f) KPosDescription ''Description'' b) (\<lambda>b.
        bindL (case fFingerprint f of None \<Rightarrow> Ok b
               | Some s \<Rightarrow> str_col (Some (widen s)) KPosFingerprint ''Fingerprint'' b) (\<lambda>b.
        bindL (case fClientEntity f of None \<Rightarrow> Ok b
               | Some s \<Rightarrow> str_col (Some (widen s)) KPosClientEntity ''ClientEntity'' b) (\<lambda>b.
        Ok (fst b)))))))))))))))"

subsection \<open>The conditions of a filter\<close>

datatype sql_value = SqlInt nat | SqlText string | SqlNull

type_synonym sql_cond = "string \<times> string \<times> sql_value"

fun print_cond :: "sql_cond \<Rightarrow> string" where
  "print_cond (col, op', SqlInt n) = col @ op' @ dec n"
| "print_cond (col, op', SqlText t) = col @ op' @ quote # double_quotes t @ [quote]"
| "print_cond (col, op', SqlNull) = col @ '' IS NULL''"

fun join_conds :: "sql_cond list \<Rightarrow> string" where
  "join_conds [] = []"
| "join_conds [c] = print_cond c"
| "join_conds (c # d # cs) = print_cond c @ '' AND '' @ join_conds (d # cs)"

definition int_cond :: "nat \<Rightarrow> tuint \<Rightarrow> tuint \<Rightarrow> string \<Rightarrow> sql_cond list" where
  "int_cond v flag setCol col = (if flag AND setCol \<noteq> 0 then [(col, GetComparisonOperator flag, SqlInt v)] else [])"

definition text_cond :: "string \<Rightarrow> tuint \<Rightarrow> tuint \<Rightarrow> string \<Rightarrow> sql_cond list" where
  "text_cond v flag setCol col =
     (if flag AND setCol \<noteq> 0 then
        [if v = [] then (col, [], SqlNull) else (col, GetComparisonOperator flag, SqlText v)]
      else [])"

definition opt_cond :: "string option \<Rightarrow> tuint \<Rightarrow> tuint \<Rightarrow> string \<Rightarrow> sql_cond list" where
  "opt_cond v flag setCol col = (case v of None \<Rightarrow> [] | Some t \<Rightarrow> text_cond t flag setCol col)"

definition conditions :: "CDecisionFilter \<Rightarrow> sql_cond list" where
  "conditions f =
     int_cond (unat (fServerSid f)) (fSetFlag f ! KPosServerSid) (KSet KPosServerSid) ''ServerSid'' @
     int_cond (unat (fServiceId f)) (fSetFlag f ! KPosServiceId) (KSet KPosServiceId) ''ServiceId'' @
     int_cond (unat (fClientSid f)) (fSetFlag f ! KPosClientSid) (KSet KPosClientSid) ''ClientSid'' @
     int_cond (unat (fEvaluatorId f)) (fSetFlag f ! KPosEvaluatorId) (KSet KPosEvaluatorId) ''EvaluatorId'' @
     int_cond (unat (fMajorPolicyVersion f)) (fSetFlag f ! KPosMajorPolicyVersion)
       (KSet KPosMajorPolicyVersion) ''MajorPolicyVersion'' @
     int_cond (unat (fRecordId f)) (fSetFlag f ! KPosRecordId) (KSet KPosRecordId) ''RecordId'' @
     int_cond (unat (fResult f)) (fSetFlag f ! KPosResult) (KSet KPosResult) ''Result'' @
     int_cond (unat (fEvaluatorInfo f)) (fSetFlag f ! KPosEvaluatorInfo) (KSet KPosEvaluatorInfo)
       ''EvaluatorInfo'' @
     opt_cond (fDescription f) (fSetFlag f ! KPosDescription) (KSet KPosDescription) ''Description'' @
     opt_cond (map_option widen (fFingerprint f)) (fSetFlag f ! KPosFingerprint) (KSet KPosFingerprint)
       ''Fingerprint'' @
     opt_cond (map_option widen (fClientEntity f)) (fSetFlag f ! KPosClientEntity) (KSet KPosClientEntity)
       ''ClientEntity''"

fun add_conds :: "nat \<Rightarrow> sql_cond list \<Rightarrow> sql_buffer \<Rightarrow> sql_buffer result" where
  "add_conds m [] b = Ok b"
| "add_conds m (c # cs) (sql, multiple) =
     (let t = sql @ (if multiple then '' AND '' else []) @ print_cond c
      in if length t \<le> m then add_conds m cs (t, True) else Leave (Panic 11))"

lemma add_conds_append: "add_conds m (cs @ ds) b = bindL (add_conds m cs b) (add_conds m ds)"
  by (induction m cs b rule: add_conds.induct) (simp_all add: Let_def)

lemma AppendQueryInteger_eq:
  "AppendQueryInteger m v flag setCol col b = add_conds m (int_cond v flag setCol col) b"
  by (cases b) (auto simp: AppendQueryInteger_def int_cond_def append_to_def append_and_def)

lemma AppendQueryStringL_eq:
  "AppendQueryStringL m (Some v) flag setCol col b = add_conds m (text_cond v flag setCol col) b"
  by (cases b) (auto simp: AppendQueryStringL_def text_cond_def append_to_def append_and_def DoubleSingleQuotesL_eq)

lemma AppendQueryStringL_unset: "flag AND setCol = 0 \<Longrightarrow> AppendQueryStringL m v flag setCol col b = Ok b"
  by (simp add: AppendQueryStringL_def)

lemma AppendQueryStringL_opt:
  "(flag AND setCol \<noteq> 0 \<longrightarrow> v \<noteq> None) \<Longrightarrow>
     AppendQueryStringL m v flag setCol col b = add_conds m (opt_cond v flag setCol col) b"
  by (cases v) (auto simp: opt_cond_def AppendQueryStringL_eq AppendQueryStringL_unset)

lemma case_AppendQueryStringL:
  "(case v of None \<Rightarrow> Ok b | Some s \<Rightarrow> AppendQueryStringL m (Some (widen s)) flag setCol col b) =
     add_conds m (opt_cond (map_option widen v) flag setCol col) b"
  by (cases v) (simp_all add: opt_cond_def AppendQueryStringL_eq)

lemma add_conds_eq:
  "add_conds m cs (sql, multiple) =
     (let t = sql @ (if multiple \<and> cs \<noteq> [] then '' AND '' else []) @ join_conds cs
      in if cs = [] then Ok (sql, multiple) else if length t \<le> m then Ok (t, True) else Leave (Panic 11))"
proof (induction cs arbitrary: sql multiple)
  case Nil
  then show ?case by simp
next
  case (Cons c cs)
  show ?case
    using Cons.IH [of "sql @ (if multiple then '' AND '' else []) @ print_cond c" True]
    by (cases cs) (auto simp: Let_def)
qed

definition sql_text :: "CDecisionFilter \<Rightarrow> string" where
  "sql_text f = ''SELECT * FROM UPSDecisions WHERE '' @ join_conds (conditions f)"

lemma KBaseSQLLength_le: "KBaseSQLLength \<le> sql_maxLen f"
  by (simp add: sql_maxLen_def)

lemma CreateSqlStatementLC_eq:
  assumes "is_set f KPosDescription \<longrightarrow> fDescription f \<noteq> None"
  shows "CreateSqlStatementLC f =
    (if sql_maxLen f = KBaseSQLLength then Ok ''SELECT * FROM UPSDecisions''
     else if conditions f = [] \<or> length (sql_text f) \<le> sql_maxLen f then Ok (sql_text f)
     else Leave (Panic 11))"
proof (cases "sql_maxLen f = KBaseSQLLength")
  case True
  then show ?thesis by (simp add: CreateSqlStatementLC_def append_to_def KBaseSQLLength_def)
next
  case False
  let ?m = "sql_maxLen f" and ?w = "''SELECT * FROM UPSDecisions WHERE ''"
  have m: "33 \<le> ?m" using KBaseSQLLength_le [of f] by (simp add: KBaseSQLLength_def)
  have desc: "AppendQueryStringL ?m (fDescription f) (fSetFlag f ! KPosDescription) (KSet KPosDescription) col b =
      add_conds ?m (opt_cond (fDescription f) (fSetFlag f ! KPosDescription) (KSet KPosDescription) col) b" for col b
    by (rule AppendQueryStringL_opt) (use assms in \<open>simp add: is_set_def\<close>)
  have "CreateSqlStatementLC f = bindL (add_conds ?m (conditions f) (?w, False)) (\<lambda>b. Ok (fst b))"
    using False m
    by (simp add: CreateSqlStatementLC_def append_to_def conditions_def add_conds_append bindL_assoc
        AppendQueryInteger_eq case_AppendQueryStringL desc Let_def)
  also have "\<dots> = (if conditions f = [] \<or> length (sql_text f) \<le> ?m then Ok (sql_text f) else Leave (Panic 11))"
    by (auto simp: add_conds_eq sql_text_def Let_def)
  finally show ?thesis using False by simp
qed

subsection \<open>Reading a statement\<close>

definition is_letter :: "char \<Rightarrow> bool" where
  "is_letter c \<longleftrightarrow> c \<in> set ''ABCDEFGHIJKLMNOPQRSTUVWXYZabcdefghijklmnopqrstuvwxyz''"

definition is_op_char :: "char \<Rightarrow> bool" where
  "is_op_char c \<longleftrightarrow> c \<in> set ''<=>''"

definition parse_cond :: "string \<Rightarrow> (sql_cond \<times> string) option" where
  "parse_cond s =
     (let col = takeWhile is_letter s; r = dropWhile is_letter s in
      if take 8 r = '' IS NULL'' then Some ((col, [], SqlNull), drop 8 r)
      else let op' = takeWhile is_op_char r; r = dropWhile is_op_char r in
        if r = [] then None
        else if hd r = quote then map_option (\<lambda>(t, r). ((col, op', SqlText t), r)) (read_literal (tl r))
        else if char_digit (hd r) \<noteq> None then (case read_digits 0 r of (n, r) \<Rightarrow> Some ((col, op', SqlInt n), r))
        else None)"

fun parse_conds :: "nat \<Rightarrow> string \<Rightarrow> sql_cond list option" where
  "parse_conds 0 s = None"
| "parse_conds (Suc k) s =
     (case parse_cond s of
        None \<Rightarrow> None
      | Some (c, r) \<Rightarrow>
          if r = [] then Some [c]
          else if take 5 r = '' AND '' then map_option ((#) c) (parse_conds k (drop 5 r))
          else None)"

definition parse_sql :: "string \<Rightarrow> sql_cond list option" where
  "parse_sql s =
     (if s = ''SELECT * FROM UPSDecisions'' then Some []
      else if take 33 s = ''SELECT * FROM UPSDecisions WHERE '' then parse_conds (length s) (drop 33 s)
      else None)"

fun cond_ok :: "sql_cond \<Rightarrow> bool" where
  "cond_ok (col, op', v) \<longleftrightarrow>
     list_all is_letter col \<and> list_all is_op_char op' \<and> (v = SqlNull \<longrightarrow> op' = [])"

lemma is_op_char_cases: "is_op_char c \<Longrightarrow> \<not> is_letter c \<and> c \<noteq> quote \<and> char_digit c = None \<and> c \<noteq> CHR '' ''"
  by (auto simp: is_op_char_def is_letter_def quote_def char_digit_def)

lemma digit_char_cases:
  assumes "d < 10"
  shows "\<not> is_letter (digit_char d) \<and> \<not> is_op_char (digit_char d) \<and> digit_char d \<noteq> quote \<and> digit_char d \<noteq> CHR '' ''"
proof -
  have "\<forall>d \<in> {..<10}. \<not> is_letter (digit_char d) \<and> \<not> is_op_char (digit_char d) \<and> digit_char d \<noteq> quote \<and>
      digit_char d \<noteq> CHR '' ''"
    by code_simp
  then show ?thesis using assms by blast
qed

lemma quote_cases: "\<not> is_letter quote" "\<not> is_op_char quote" "quote \<noteq> CHR '' ''"
  by (simp_all add: quote_def is_letter_def is_op_char_def)

lemma space_cases: "\<not> is_letter (CHR '' '')" "\<not> is_op_char (CHR '' '')" "char_digit (CHR '' '') = None"
  by (simp_all add: is_letter_def is_op_char_def char_digit_def)

lemma read_digits_stop: "r = [] \<or> hd r = CHR '' '' \<Longrightarrow> read_digits v r = (v, r)"
  by (cases r) (auto simp: space_cases)

lemma takeWhile_stop:
  assumes "list_all P xs" and "ys = [] \<or> \<not> P (hd ys)"
  shows "takeWhile P (xs @ ys) = xs \<and> dropWhile P (xs @ ys) = ys"
  using assms by (induction xs) (cases ys; auto)+

lemma parse_cond_value:
  assumes "list_all is_letter col" and "list_all is_op_char op'"
    and "t \<noteq> []" and "\<not> is_letter (hd t)" and "\<not> is_op_char (hd t)" and "hd t \<noteq> CHR '' ''"
  shows "parse_cond (col @ op' @ t) =
    (if hd t = quote then map_option (\<lambda>(t, r). ((col, op', SqlText t), r)) (read_literal (tl t))
     else if char_digit (hd t) \<noteq> None then (case read_digits 0 t of (n, r) \<Rightarrow> Some ((col, op', SqlInt n), r))
     else None)"
proof -
  have op_hd: "\<not> is_letter (hd (op' @ t)) \<and> hd (op' @ t) \<noteq> CHR '' ''"
    using assms(2,4,6) by (cases op') (auto dest: is_op_char_cases)
  then have "takeWhile is_letter (col @ op' @ t) = col" "dropWhile is_letter (col @ op' @ t) = op' @ t"
    using takeWhile_stop [OF assms(1), of "op' @ t"] by auto
  moreover have "take 8 (op' @ t) \<noteq> '' IS NULL''"
    using op_hd assms(3) by (cases "op' @ t") auto
  moreover have "takeWhile is_op_char (op' @ t) = op'" "dropWhile is_op_char (op' @ t) = t"
    using takeWhile_stop [OF assms(2), of t] assms(5) by auto
  ultimately show ?thesis using assms(3) by (simp add: parse_cond_def Let_def)
qed

lemma parse_cond_print:
  assumes "cond_ok c" and "r = [] \<or> hd r = CHR '' ''"
  shows "parse_cond (print_cond c @ r) = Some (c, r)"
proof -
  obtain col op' v where c: "c = (col, op', v)" by (cases c)
  show ?thesis
  proof (cases v)
    case (SqlInt n)
    obtain d ds where d: "dec n = digit_char d # ds" "d < 10" using dec_digits by blast
    have "read_digits 0 (dec n @ r) = (n, r)"
      by (simp add: read_digits_dec read_digits_stop [OF assms(2)])
    then show ?thesis
      using assms(1) c SqlInt d digit_char_cases [OF d(2)] parse_cond_value [of col op' "dec n @ r"]
      by (simp add: char_digit_digit_char)
  next
    case (SqlText t)
    have "read_literal (double_quotes t @ quote # r) = Some (t, r)"
      using assms(2) quote_cases(3) by (intro read_literal_double_quotes) auto
    then show ?thesis
      using assms(1) c SqlText quote_cases parse_cond_value [of col op' "quote # double_quotes t @ quote # r"]
      by simp
  next
    case SqlNull
    have "takeWhile is_letter (col @ '' IS NULL'' @ r) = col"
      "dropWhile is_letter (col @ '' IS NULL'' @ r) = '' IS NULL'' @ r"
      using assms(1) c takeWhile_stop [of is_letter col "'' IS NULL'' @ r"] by (auto simp: space_cases)
    then show ?thesis using assms(1) c SqlNull by (simp add: parse_cond_def Let_def)
  qed
qed

lemma print_cond_ne: "cond_ok c \<Longrightarrow> print_cond c \<noteq> []"
  by (cases c; cases "snd (snd c)") (auto simp: dec.simps)

lemma parse_conds_join:
  "cs \<noteq> [] \<Longrightarrow> list_all cond_ok cs \<Longrightarrow> length (join_conds cs) \<le> k \<Longrightarrow> 0 < k \<Longrightarrow>
     parse_conds k (join_conds cs) = Some cs"
proof (induction cs arbitrary: k rule: join_conds.induct)
  case 1
  then show ?case by simp
next
  case (2 c)
  then obtain k' where "k = Suc k'" by (cases k) auto
  then show ?case using 2 parse_cond_print [of c "[]"] by simp
next
  case (3 c d cs)
  then obtain k' where k: "k = Suc k'" by (cases k) auto
  have "parse_conds k' (join_conds (d # cs)) = Some (d # cs)"
    using 3 k by (intro "3.IH") auto
  then show ?case
    using 3 k parse_cond_print [of c "'' AND '' @ join_conds (d # cs)"] by simp
qed

lemma cond_ok_lists:
  "list_all is_letter col \<Longrightarrow> list_all cond_ok (int_cond v flag setCol col)"
  "list_all is_letter col \<Longrightarrow> list_all cond_ok (text_cond t flag setCol col)"
  "list_all is_letter col \<Longrightarrow> list_all cond_ok (opt_cond u flag setCol col)"
  by (auto simp: int_cond_def text_cond_def opt_cond_def GetComparisonOperator_def is_op_char_def Let_def
      split: option.splits)

lemma conditions_ok: "list_all cond_ok (conditions f)"
  unfolding conditions_def list_all_append
  by (intro conjI cond_ok_lists) (simp_all add: is_letter_def)

lemma CreateSqlStatementLC_parse:
  assumes "is_set f KPosDescription \<longrightarrow> fDescription f \<noteq> None"
    and "CreateSqlStatementLC f = Ok sql" and "conditions f \<noteq> []" and "sql_maxLen f \<noteq> KBaseSQLLength"
  shows "parse_sql sql = Some (conditions f)"
proof -
  have sql: "sql = sql_text f"
    using assms by (simp add: CreateSqlStatementLC_eq split: if_splits)
  have "parse_conds (length sql) (join_conds (conditions f)) = Some (conditions f)"
    using assms(3) conditions_ok by (intro parse_conds_join) (auto simp: sql sql_text_def)
  then show ?thesis by (simp add: parse_sql_def sql sql_text_def)
qed

subsection \<open>The estimate of the length\<close>

fun bits_of :: "nat \<Rightarrow> int \<Rightarrow> nat" where
  "bits_of 0 x = 0"
| "bits_of (Suc k) x = of_bool (odd x) + bits_of k (x div 2)"

lemma bits_of_sum: "bits_of k x = (\<Sum>i<k. of_bool (bit x i))"
  by (induction k arbitrary: x) (simp_all add: sum.lessThan_Suc_shift bit_Suc bit_0 del: sum.lessThan_Suc)

lemma and_div_2: "(a AND b :: int) div 2 = (a div 2) AND (b div 2)"
  using drop_bit_and [of 1 a b] by (simp add: drop_bit_eq_div)

lemma bits_of_and_pred: "0 < x \<Longrightarrow> x < 2 ^ k \<Longrightarrow> Suc (bits_of k (x AND (x - 1))) = bits_of k x"
proof (induction k arbitrary: x)
  case 0
  then show ?case by simp
next
  case (Suc k)
  show ?case
  proof (cases "odd x")
    case True
    then have "(x - 1) div 2 = x div 2" by (auto elim!: oddE)
    then show ?thesis using True by (simp add: and_div_2 even_and_iff)
  next
    case False
    then have "(x - 1) div 2 = x div 2 - 1" by (auto elim!: evenE)
    moreover have "0 < x div 2" "x div 2 < 2 ^ k" using False Suc.prems by auto
    ultimately show ?thesis using False Suc.IH [of "x div 2"] by (simp add: and_div_2 even_and_iff)
  qed
qed

lemma count_flags_bits: "count_flags w = bits_of 16 (uint w)"
proof (induction w rule: count_flags.induct)
  case (1 w)
  show ?case
  proof (cases "w = 0")
    case True
    then show ?thesis by (simp add: count_flags.simps bits_of_sum)
  next
    case False
    then have "1 \<le> uint w" by (rule uint_ge_1)
    then have "uint (w AND (w - 1)) = uint w AND (uint w - 1)"
      using uint_lt2p [of w] by (simp add: unsigned_and_eq uint_word_ariths)
    moreover have "uint w < 2 ^ 16" using uint_lt2p [of w] by simp
    ultimately show ?thesis
      using False 1 \<open>1 \<le> uint w\<close> bits_of_and_pred [of "uint w" 16] by (subst count_flags.simps) simp
  qed
qed

lemma count_flags_sum: "count_flags w = (\<Sum>i<16. of_bool (bit w i))"
  by (simp add: count_flags_bits bits_of_sum bit_uint_iff)

lemma sum_lessThan_16: "(\<Sum>i<(16 :: nat). g i) =
    g 0 + g 1 + g 2 + g 3 + g 4 + g 5 + g 6 + g 7 + g 8 + g 9 + g 10 + g 11 + g 12 + g 13 + g 14 + (g 15 :: nat)"
  by (simp add: numeral_eq_Suc)

lemma count_int_flags:
  "count_flags (ucast (w AND 0x000006CF :: tuint)) =
     of_bool (bit w 0) + of_bool (bit w 1) + of_bool (bit w 2) + of_bool (bit w 3) + of_bool (bit w 6) +
     of_bool (bit w 7) + of_bool (bit w 9) + of_bool (bit w 10)"
  unfolding count_flags_sum sum_lessThan_16 by (simp add: bit_simps)

lemma count_text_flags:
  "count_flags (ucast (w AND 0x00000130 :: tuint)) = of_bool (bit w 4) + of_bool (bit w 5) + of_bool (bit w 8)"
  unfolding count_flags_sum sum_lessThan_16 by (simp add: bit_simps)

lemma bit_fold_or: "bit (fold (OR) ws a) i \<longleftrightarrow> bit a i \<or> (\<exists>w \<in> set ws. bit (w :: tuint) i)"
  by (induction ws arbitrary: a) (auto simp: bit_simps)

lemma is_set_bit: "is_set f i \<longleftrightarrow> bit (fSetFlag f ! i) i"
  by (simp add: is_set_def KSet_def bit_iff_and_push_bit_not_eq_0)

lemma is_set_combined:
  "length (fSetFlag f) = KFilterKeysNumber \<Longrightarrow> i < KFilterKeysNumber \<Longrightarrow> is_set f i \<Longrightarrow> bit (combinedFlags f) i"
  by (auto simp: combinedFlags_def bit_fold_or is_set_bit intro!: bexI [of _ "fSetFlag f ! i"])

lemma length_join_conds:
  "cs \<noteq> [] \<Longrightarrow> length (join_conds cs) + 5 = sum_list (map (\<lambda>c. length (print_cond c) + 5) cs)"
  by (induction cs rule: join_conds.induct) auto

lemma sum_print_int:
  assumes "length col + length (GetComparisonOperator flag) + length (dec v) + 5 \<le> b"
  shows "sum_list (map (\<lambda>c. length (print_cond c) + 5) (int_cond v flag setCol col))
    \<le> b * of_bool (flag AND setCol \<noteq> 0)"
  using assms by (simp add: int_cond_def)

lemma sum_print_text:
  assumes "length col + length (GetComparisonOperator flag) + length t + 7 \<le> b" and "length col + 13 \<le> b"
    and "quote \<notin> set t"
  shows "sum_list (map (\<lambda>c. length (print_cond c) + 5) (text_cond t flag setCol col))
    \<le> b * of_bool (flag AND setCol \<noteq> 0)"
  using assms by (simp add: text_cond_def double_quotes_id)

lemma sum_print_opt:
  assumes "\<And>t. u = Some t \<Longrightarrow> length col + length (GetComparisonOperator flag) + length t + 7 \<le> b \<and> quote \<notin> set t"
    and "length col + 13 \<le> b"
  shows "sum_list (map (\<lambda>c. length (print_cond c) + 5) (opt_cond u flag setCol col))
    \<le> b * of_bool (flag AND setCol \<noteq> 0)"
  using assms by (cases u) (simp_all add: opt_cond_def sum_print_text)

lemma GetComparisonOperator_low: "take_bit 16 w = w \<Longrightarrow> GetComparisonOperator w = ''=''"
proof -
  assume w: "take_bit 16 w = w"
  have "take_bit 16 w AND 0xFFFF0000 = (0 :: tuint)"
  proof (rule bit_word_eqI)
    fix n
    have "(0xFFFF0000 :: tuint) = push_bit 16 (mask 16)" by (simp add: mask_eq_exp_minus_1)
    then show "bit (take_bit 16 w AND 0xFFFF0000) n = bit (0 :: tuint) n"
      by (simp only: bit_simps) auto
  qed
  then show ?thesis by (simp add: w GetComparisonOperator_def TComparisonOp_defs)
qed

lemma length_dec_word: "length (dec (unat (w :: tuint))) \<le> 10"
proof -
  have "unat w < 10 ^ Suc 9" using unsigned_less [of w, where 'a = nat] by simp
  then show ?thesis using length_dec [of "unat w" 9] by simp
qed

lemma length_dec_word16: "length (dec (unat (w :: 16 word))) \<le> 5"
proof -
  have "unat w < 10 ^ Suc 4" using unsigned_less [of w, where 'a = nat] by simp
  then show ?thesis using length_dec [of "unat w" 4] by simp
qed

lemma length_dec_byte: "length (dec (unat (w :: byte))) \<le> 3"
proof -
  have "unat w < 10 ^ Suc 2" using unsigned_less [of w, where 'a = nat] by simp
  then show ?thesis using length_dec [of "unat w" 2] by simp
qed

lemma length_widen [simp]: "length (widen s) = length s"
  by (simp add: widen_def)

lemma quote_widen: "quote \<in> set (widen s) \<longleftrightarrow> 0x27 \<in> set s"
proof -
  have "char_of (unat b) = quote \<longleftrightarrow> b = 0x27" for b :: byte
  proof -
    have "unat b < 256" using unsigned_less [of b, where 'a = nat] by simp
    then have "char_of (unat b) = quote \<longleftrightarrow> unat b = of_char quote"
      by (metis char_of_char of_char_of mod_less)
    also have "\<dots> \<longleftrightarrow> b = 0x27"
      using word_unat_eq_iff [of b "0x27"] by (simp add: quote_def)
    finally show ?thesis .
  qed
  moreover have "quote \<in> set (widen s) \<longleftrightarrow> (\<exists>b \<in> set s. char_of (unat b) = quote)"
    unfolding widen_def set_map image_iff by metis
  ultimately show ?thesis by simp
qed

text \<open>
  A filter as it arrives from a client: the flags are 16 bits wide, there is no description and no
  evaluator information.
\<close>

definition plain_filter :: "CDecisionFilter \<Rightarrow> bool" where
  "plain_filter f \<longleftrightarrow>
     filter_ok f \<and> (\<forall>i < KFilterKeysNumber. take_bit 16 (fSetFlag f ! i) = fSetFlag f ! i) \<and>
     \<not> is_set f KPosDescription \<and> fEvaluatorInfo f = 0 \<and>
     (\<forall>s. fFingerprint f = Some s \<longrightarrow> 0x27 \<notin> set s) \<and> (\<forall>s. fClientEntity f = Some s \<longrightarrow> 0x27 \<notin> set s)"

lemma sum_print_conditions:
  assumes "plain_filter f"
  shows "sum_list (map (\<lambda>c. length (print_cond c) + 5) (conditions f)) \<le>
    25 * of_bool (is_set f KPosServerSid) + 25 * of_bool (is_set f KPosServiceId) +
    25 * of_bool (is_set f KPosClientSid) + 27 * of_bool (is_set f KPosEvaluatorId) +
    29 * of_bool (is_set f KPosMajorPolicyVersion) + 24 * of_bool (is_set f KPosRecordId) +
    15 * of_bool (is_set f KPosResult) + 20 * of_bool (is_set f KPosEvaluatorInfo) +
    51 * of_bool (is_set f KPosFingerprint) + 52 * of_bool (is_set f KPosClientEntity)"
proof -
  have eq: "GetComparisonOperator (fSetFlag f ! i) = ''=''" if "i < KFilterKeysNumber" for i
    using assms that by (intro GetComparisonOperator_low) (simp add: plain_filter_def)
  note eqs = eq [of KPosServerSid] eq [of KPosServiceId] eq [of KPosClientSid] eq [of KPosEvaluatorId]
    eq [of KPosMajorPolicyVersion] eq [of KPosRecordId] eq [of KPosResult] eq [of KPosEvaluatorInfo]
    eq [of KPosFingerprint] eq [of KPosClientEntity]
  have pos: "i < KFilterKeysNumber" if "i \<in> {KPosServerSid, KPosServiceId, KPosClientSid, KPosEvaluatorId,
      KPosMajorPolicyVersion, KPosRecordId, KPosResult, KPosEvaluatorInfo, KPosFingerprint, KPosClientEntity}" for i
    using that by (auto simp: KPos_defs KFilterKeysNumber_def)
  have desc: "opt_cond (fDescription f) (fSetFlag f ! KPosDescription) (KSet KPosDescription) col = []" for col
    using assms by (auto simp: plain_filter_def is_set_def opt_cond_def text_cond_def split: option.splits)
  have fp: "length s \<le> 32 \<and> 0x27 \<notin> set s" if "fFingerprint f = Some s \<or> fClientEntity f = Some s" for s
    using assms that
    by (auto simp: plain_filter_def filter_ok_def KUpsMaxFingerprintLength_def KUpsMaxClientEntityLength_def)
  have info: "fEvaluatorInfo f = 0" using assms by (simp add: plain_filter_def)
  show ?thesis
    unfolding conditions_def map_append sum_list_append is_set_def desc
    by (simp only: add.assoc list.map sum_list.Nil add_0_left, intro add_mono sum_print_int sum_print_opt)
       (use length_dec_word length_dec_word16 length_dec_byte fp in
         \<open>auto simp: eqs pos quote_widen info dec.simps [of 0] intro: order_trans [OF add_mono]\<close>)
qed

lemma estimate_suffices:
  fixes x0 x1 x2 x3 x4 x5 x6 x7 x9 x10 :: nat
  assumes "x0 \<le> c0" "x1 \<le> c1" "x2 \<le> c2" "x3 \<le> c3" "x4 \<le> c4" "x5 \<le> c5" "x6 \<le> c6" "x7 \<le> c7"
    "x9 \<le> c9" "x10 \<le> c10" "x1 \<le> 1" "x6 \<le> 1"
  shows "28 + (25 * x3 + 25 * x2 + 25 * x0 + 27 * x1 + 29 * x6 + 24 * x7 + 15 * x9 + 20 * x10 + 51 * x4 + 52 * x5)
    \<le> 33 + 26 * (c0 + c1 + c2 + c3 + c6 + c7 + c9 + c10) + 52 * (c4 + c5 + c8)"
  using assms by (simp add: algebra_simps)

lemma plain_filter_fits:
  assumes "plain_filter f"
  shows "conditions f = [] \<or> length (sql_text f) \<le> sql_maxLen f"
proof (cases "conditions f = []")
  case False
  have len: "length (fSetFlag f) = KFilterKeysNumber"
    using assms by (simp add: plain_filter_def filter_ok_def)
  have bits: "of_bool (is_set f i) \<le> (of_bool (bit (combinedFlags f) i) :: nat)" if "i < KFilterKeysNumber" for i
    using is_set_combined [OF len that] by auto
  have "length (sql_text f) = 28 + sum_list (map (\<lambda>c. length (print_cond c) + 5) (conditions f))"
    using length_join_conds [OF False] by (simp add: sql_text_def)
  also have "\<dots> \<le> 28 + (25 * of_bool (is_set f 3) + 25 * of_bool (is_set f 2) + 25 * of_bool (is_set f 0) +
      27 * of_bool (is_set f 1) + 29 * of_bool (is_set f 6) + 24 * of_bool (is_set f 7) + 15 * of_bool (is_set f 9) +
      20 * of_bool (is_set f 10) + 51 * of_bool (is_set f 4) + 52 * of_bool (is_set f 5))"
    using sum_print_conditions [OF assms] by (simp only: KPos_defs add_le_cancel_left)
  also have "\<dots> \<le> 33 + 26 * (of_bool (bit (combinedFlags f) 0) + of_bool (bit (combinedFlags f) 1) +
      of_bool (bit (combinedFlags f) 2) + of_bool (bit (combinedFlags f) 3) + of_bool (bit (combinedFlags f) 6) +
      of_bool (bit (combinedFlags f) 7) + of_bool (bit (combinedFlags f) 9) + of_bool (bit (combinedFlags f) 10)) +
    52 * (of_bool (bit (combinedFlags f) 4) + of_bool (bit (combinedFlags f) 5) + of_bool (bit (combinedFlags f) 8))"
    by (rule estimate_suffices; (rule bits)?; simp add: KFilterKeysNumber_def)
  also have "\<dots> = sql_maxLen f"
    by (simp only: sql_maxLen_def count_int_flags count_text_flags KBaseSQLLength_def KMaxIntCondition_def
        KMaxStringCondition_def)
  finally show ?thesis by blast
qed simp

lemma estimate_of_flags:
  "sql_maxLen f = 33 + 26 * (of_bool (bit (combinedFlags f) 0) + of_bool (bit (combinedFlags f) 1) +
      of_bool (bit (combinedFlags f) 2) + of_bool (bit (combinedFlags f) 3) + of_bool (bit (combinedFlags f) 6) +
      of_bool (bit (combinedFlags f) 7) + of_bool (bit (combinedFlags f) 9) + of_bool (bit (combinedFlags f) 10)) +
    52 * (of_bool (bit (combinedFlags f) 4) + of_bool (bit (combinedFlags f) 5) + of_bool (bit (combinedFlags f) 8))"
  by (simp only: sql_maxLen_def count_int_flags count_text_flags KBaseSQLLength_def KMaxIntCondition_def
      KMaxStringCondition_def)

subsection \<open>Properties\<close>


definition demo_filter :: CDecisionFilter where
  "demo_filter = SetRecordId 9 0 (SetMajorPolicyVersion 65535 0 empty_filter)"

lemma demo_filter_flags: "fSetFlag demo_filter = [0, 0, 0, 0, 0, 0, 0x40, 0x80, 0, 0, 0]"
proof -
  have "replicate 11 (0 :: tuint) = [0, 0, 0, 0, 0, 0, 0, 0, 0, 0, 0]"
    by (simp add: numeral_eq_Suc)
  then show ?thesis
    by (simp add: demo_filter_def SetRecordId_def SetMajorPolicyVersion_def mark_def empty_filter_def KSet_def
        KPos_defs KFilterKeysNumber_def)
qed

lemma demo_filter_plain: "plain_filter demo_filter"
proof -
  have "\<forall>w \<in> set (fSetFlag demo_filter). take_bit 16 w = w"
    by (simp add: demo_filter_flags)
  moreover have "length (fSetFlag demo_filter) = KFilterKeysNumber"
    by (simp add: demo_filter_flags KFilterKeysNumber_def)
  moreover have "filter_ok demo_filter"
    unfolding demo_filter_def by (intro filter_ok_setters filter_ok_empty)
  moreover have "fEvaluatorInfo demo_filter = 0 \<and> fFingerprint demo_filter = None \<and> fClientEntity demo_filter = None"
    by (simp add: demo_filter_def SetRecordId_def SetMajorPolicyVersion_def empty_filter_def mark_def)
  moreover have "\<not> is_set demo_filter KPosDescription"
    by (simp add: is_set_def demo_filter_flags KPos_defs)
  ultimately show ?thesis
    unfolding plain_filter_def by (metis nth_mem option.distinct(1))
qed


text \<open>
  C28: Nothing in a filter can change the meaning of the statement: read back by the grammar of
  the statements, it has exactly the conditions of the columns that the filter sets, with their
  values, whatever characters (quotes included) the descriptors contain.
\<close>

theorem CreateSqlStatementLC_reads_back:
  assumes "is_set f KPosDescription \<longrightarrow> fDescription f \<noteq> None"
    and "CreateSqlStatementLC f = Ok sql" and "conditions f \<noteq> []" and "sql_maxLen f \<noteq> KBaseSQLLength"
  shows "parse_sql sql = Some (conditions f)"
  using CreateSqlStatementLC_parse [OF assms] .

definition quote_filter :: CDecisionFilter where
  "quote_filter = mark KPosFingerprint EEqual (empty_filter\<lparr>fFingerprint := Some [0x27, 0x20, 0x4F]\<rparr>)"

theorem CreateSqlStatementLC_reads_back_witness:
  "\<exists>sql. CreateSqlStatementLC quote_filter = Ok sql \<and>
     parse_sql sql = Some [(''Fingerprint'', ''='', SqlText [CHR 0x27, CHR '' '', CHR ''O''])]"
proof -
  have c: "conditions quote_filter = [(''Fingerprint'', ''='', SqlText [CHR 0x27, CHR '' '', CHR ''O''])]"
    by code_simp
  have "combinedFlags quote_filter = 0x00010010"
    by code_simp
  then have m: "sql_maxLen quote_filter = 85"
    by (simp add: estimate_of_flags)
  have d: "is_set quote_filter KPosDescription \<longrightarrow> fDescription quote_filter \<noteq> None"
    by (simp add: quote_filter_def is_set_def mark_def empty_filter_def KPos_defs KFilterKeysNumber_def)
  have "length (sql_text quote_filter) \<le> 85"
    by (simp add: sql_text_def c quote_def)
  then have "CreateSqlStatementLC quote_filter = Ok (sql_text quote_filter)"
    by (simp add: CreateSqlStatementLC_eq [OF d] m KBaseSQLLength_def)
  then show ?thesis
    using CreateSqlStatementLC_reads_back [OF d] c m by (auto simp: KBaseSQLLength_def)
qed

text \<open>
  The estimate ignores that quotes are doubled: the longest fingerprint of quotes, which the
  validation accepts, overruns the buffer.  A filter with a description, which a stream does not
  carry, makes the statement read a null pointer.
\<close>

lemma quotes_overrun:
  defines "f \<equiv> mark KPosFingerprint 0 (empty_filter\<lparr>fFingerprint := Some (replicate 32 0x27)\<rparr>)"
  shows "filter_ok f \<and> CreateSqlStatementLC f = Leave (Panic 11)"
proof -
  have c: "conditions f = [(''Fingerprint'', ''='', SqlText (replicate 32 quote))]"
    unfolding f_def by code_simp
  have "combinedFlags f = 0x00000010"
    unfolding f_def by code_simp
  then have m: "sql_maxLen f = 85"
    by (simp add: estimate_of_flags)
  have d: "is_set f KPosDescription \<longrightarrow> fDescription f \<noteq> None"
    by (simp add: f_def is_set_def mark_def empty_filter_def KPos_defs KFilterKeysNumber_def)
  have "length (double_quotes (replicate n quote)) = 2 * n" for n
    by (induction n) simp_all
  then have "\<not> length (sql_text f) \<le> 85"
    by (simp add: sql_text_def c)
  then have "CreateSqlStatementLC f = Leave (Panic 11)"
    using c m by (simp add: CreateSqlStatementLC_eq [OF d] KBaseSQLLength_def)
  moreover have "filter_ok f"
    unfolding f_def by (rule filter_ok_mark_fingerprint) (simp_all add: filter_ok_empty KUpsMaxFingerprintLength_def)
  ultimately show ?thesis by blast
qed

lemma description_null:
  "CreateSqlStatementLC (transmitted (SetDescriptionL ''x'' EEqual empty_filter)) = Leave (Panic 3)"
  by code_simp

end
