(* ===== verification/UpsDatabase.thy ===== *)
theory UpsDatabase
  imports UpsSql
begin

section \<open>The decision database (\<open>database/source/upsdbw.cpp\<close>, \<open>upsdb.cpp\<close>)\<close>

text \<open>
  \<open>CDecisionDbW\<close> over the database library: one table with a unique index on the seven key
  columns and another on the record identifier, which the library increments.  An empty
  fingerprint, client entity or description is a \<open>NULL\<close> column; the library is documented to
  treat two \<open>NULL\<close>s of an index as equal.  The errors of the library are arguments:
  \<open>fault\<close> is the error with which an operation leaves before it changes the table, and
  \<open>remove_faults\<close> are the errors of the calls of \<open>DoRemoveDecisionL\<close>.
\<close>

subsection \<open>Rows and keys\<close>

type_synonym decision_key = "tuint \<times> tuint \<times> tuint \<times> tuint \<times> byte list \<times> byte list \<times> 16 word"

record CDecisionDb =
  rows :: "CDecisionRecord list"
  nextId :: tuint
  inTransaction :: bool

definition record_key :: "CDecisionRecord \<Rightarrow> decision_key" where
  "record_key r = (rClientSid r, rEvaluatorId r, rServiceId r, rServerSid r, rFingerprint r, rClientEntity r,
     rMajorPolicyVersion r)"

definition UpdateCurrentRowL :: "CDecisionRecord \<Rightarrow> CDecisionRecord \<Rightarrow> CDecisionRecord" where
  "UpdateCurrentRowL row aRecord =
     row\<lparr>rClientSid := rClientSid aRecord, rEvaluatorId := rEvaluatorId aRecord,
       rServiceId := rServiceId aRecord, rServerSid := rServerSid aRecord,
       rFingerprint := (if length (rFingerprint aRecord) \<noteq> 0 then rFingerprint aRecord else rFingerprint row),
       rClientEntity := (if length (rClientEntity aRecord) \<noteq> 0 then rClientEntity aRecord else rClientEntity row),
       rDescription := (if length (rDescription aRecord) \<noteq> 0 then rDescription aRecord else rDescription row),
       rResult := rResult aRecord, rEvaluatorInfo := rEvaluatorInfo aRecord,
       rMajorPolicyVersion := rMajorPolicyVersion aRecord\<rparr>"

text \<open>The row that \<open>RDbTable::InsertL\<close> adds: all columns \<open>NULL\<close> but the incremented identifier.\<close>

definition inserted_row :: "tuint \<Rightarrow> CDecisionRecord" where
  "inserted_row i = \<lparr>rClientSid = 0, rEvaluatorId = 0, rServiceId = 0, rServerSid = 0, rFingerprint = [],
     rClientEntity = [], rDescription = [], rResult = 0, rMajorPolicyVersion = 0, rRecordId = i,
     rEvaluatorInfo = 0\<rparr>"

definition CreateDecisionL :: "leave option \<Rightarrow> CDecisionDb \<Rightarrow> CDecisionRecord \<Rightarrow> unit result \<times> CDecisionDb" where
  "CreateDecisionL fault db aRecord =
     (case fault of Some e \<Rightarrow> (Leave e, db)
      | None \<Rightarrow>
          let row = UpdateCurrentRowL (inserted_row (nextId db)) aRecord in
          if record_key row \<in> record_key ` set (rows db) \<or> rRecordId row \<in> rRecordId ` set (rows db)
          then (Leave KErrAlreadyExists, db)
          else (Ok (), db\<lparr>rows := rows db @ [row], nextId := nextId db + 1\<rparr>))"

definition PrepareForSearchL :: "CDecisionFilter \<Rightarrow> decision_key result" where
  "PrepareForSearchL f =
     (let combinedFlags = fold (OR) (take 7 (fSetFlag f)) 0 in
      if combinedFlags AND 0x7F \<noteq> 0x7F then Leave KErrUpsMissingArgument
      else case (fFingerprint f, fClientEntity f) of
          (Some fp, Some ce) \<Rightarrow>
            Ok (fClientSid f, fEvaluatorId f, fServiceId f, fServerSid f, fp, ce, fMajorPolicyVersion f)
        | _ \<Rightarrow> Leave (Panic 3))"

definition SeekL :: "CDecisionDb \<Rightarrow> decision_key \<Rightarrow> CDecisionRecord option" where
  "SeekL db k = List.find (\<lambda>r. record_key r = k) (rows db)"

definition GetDecisionL :: "leave option \<Rightarrow> CDecisionDb \<Rightarrow> CDecisionFilter \<Rightarrow> CDecisionRecord option result" where
  "GetDecisionL fault db f =
     (case fault of Some e \<Rightarrow> Leave e | None \<Rightarrow> bindL (PrepareForSearchL f) (\<lambda>k. Ok (SeekL db k)))"

definition UpdateDecisionL ::
    "leave option \<Rightarrow> CDecisionDb \<Rightarrow> CDecisionFilter \<Rightarrow> CDecisionRecord \<Rightarrow> bool result \<times> CDecisionDb" where
  "UpdateDecisionL fault db f aNewRecord =
     (case fault of Some e \<Rightarrow> (Leave e, db)
      | None \<Rightarrow>
          (case PrepareForSearchL f of
             Inl e \<Rightarrow> (Leave e, db)
           | Inr k \<Rightarrow>
               (case SeekL db k of
                  None \<Rightarrow> (Ok False, db)
                | Some row \<Rightarrow>
                    let row' = UpdateCurrentRowL row aNewRecord in
                    if record_key row' \<noteq> k \<and> record_key row' \<in> record_key ` set (rows db)
                    then (Leave KErrAlreadyExists, db)
                    else (Ok True, db\<lparr>rows := map (\<lambda>r. if record_key r = k then row' else r) (rows db)\<rparr>))))"

subsection \<open>Removing decisions\<close>

text \<open>
  The rows that a condition of a statement selects.  A comparison with a \<open>NULL\<close> column selects
  nothing; \<open>coll\<close> is the collation of the database.
\<close>

definition compare_nat :: "string \<Rightarrow> nat \<Rightarrow> nat \<Rightarrow> bool" where
  "compare_nat op' a b =
     (if op' = ''='' then a = b else if op' = ''<>'' then a \<noteq> b else if op' = ''<'' then a < b
      else if op' = ''>'' then a > b else if op' = ''<='' then a \<le> b else a \<ge> b)"

definition compare_text :: "(string \<Rightarrow> string \<Rightarrow> bool) \<Rightarrow> string \<Rightarrow> string \<Rightarrow> string \<Rightarrow> bool" where
  "compare_text coll op' a b \<longleftrightarrow> a \<noteq> [] \<and>
     (if op' = ''='' then a = b else if op' = ''<>'' then a \<noteq> b else if op' = ''<'' then coll a b
      else if op' = ''>'' then coll b a else if op' = ''<='' then \<not> coll b a else \<not> coll a b)"

definition int_column :: "CDecisionRecord \<Rightarrow> string \<Rightarrow> nat" where
  "int_column r col =
     (if col = ''ServerSid'' then unat (rServerSid r) else if col = ''ServiceId'' then unat (rServiceId r)
      else if col = ''ClientSid'' then unat (rClientSid r) else if col = ''EvaluatorId'' then unat (rEvaluatorId r)
      else if col = ''MajorPolicyVersion'' then unat (rMajorPolicyVersion r)
      else if col = ''RecordId'' then unat (rRecordId r) else if col = ''Result'' then unat (rResult r)
      else unat (rEvaluatorInfo r))"

definition text_column :: "CDecisionRecord \<Rightarrow> string \<Rightarrow> string" where
  "text_column r col =
     (if col = ''Description'' then rDescription r
      else if col = ''Fingerprint'' then widen (rFingerprint r) else widen (rClientEntity r))"

fun selects :: "(string \<Rightarrow> string \<Rightarrow> bool) \<Rightarrow> CDecisionRecord \<Rightarrow> sql_cond \<Rightarrow> bool" where
  "selects coll r (col, op', SqlInt n) \<longleftrightarrow> compare_nat op' (int_column r col) n"
| "selects coll r (col, op', SqlText t) \<longleftrightarrow> compare_text coll op' (text_column r col) t"
| "selects coll r (col, op', SqlNull) \<longleftrightarrow> text_column r col = []"

record remove_faults =
  prepareErr :: "leave option"
  syntaxErr :: leave
  beginErr :: "leave option"
  deleteErr :: "(nat \<times> leave) option"
  commitErr :: "leave option"

definition DoRemoveDecisionL ::
    "(string \<Rightarrow> string \<Rightarrow> bool) \<Rightarrow> remove_faults \<Rightarrow> CDecisionDb \<Rightarrow> CDecisionFilter \<Rightarrow> unit result \<times> CDecisionDb" where
  "DoRemoveDecisionL coll flt db f =
     (case CreateSqlStatementLC f of
        Inl e \<Rightarrow> (Leave e, db)
      | Inr sql \<Rightarrow>
          (case (parse_sql sql, prepareErr flt, beginErr flt) of
             (None, _, _) \<Rightarrow> (Leave (syntaxErr flt), db)
           | (Some cs, Some e, _) \<Rightarrow> (Leave e, db)
           | (Some cs, None, Some e) \<Rightarrow> (Leave e, db)
           | (Some cs, None, None) \<Rightarrow>
               let selected = filter (\<lambda>r. list_all (selects coll r) cs) (rows db) in
               (case (case deleteErr flt of Some (n, e) \<Rightarrow> if n < length selected then Some (n, e) else None
                      | None \<Rightarrow> None) of
                  Some (n, e) \<Rightarrow>
                    (Leave e, db\<lparr>rows := filter (\<lambda>r. r \<notin> set (take n selected)) (rows db), inTransaction := True\<rparr>)
                | None \<Rightarrow>
                    (case commitErr flt of
                       Some e \<Rightarrow> (Leave e, db)
                     | None \<Rightarrow> (Ok (), db\<lparr>rows := filter (\<lambda>r. r \<notin> set selected) (rows db)\<rparr>)))))"

text \<open>
  The loop of \<open>RemoveDecisionsL\<close>: the errors of the attempts and of \<open>RDbNamedDatabase::Recover\<close> are
  given per value of \<open>loopCount\<close>.  The result is the error of the last attempt, \<open>None\<close> for \<open>KErrNone\<close>.
\<close>

function remove_loop ::
    "(string \<Rightarrow> string \<Rightarrow> bool) \<Rightarrow> (nat \<Rightarrow> remove_faults) \<Rightarrow> (nat \<Rightarrow> leave option) \<Rightarrow> CDecisionFilter \<Rightarrow> nat \<Rightarrow>
       CDecisionDb \<Rightarrow> leave option \<times> CDecisionDb" where
  "remove_loop coll flt recover f loopCount db =
     (let loopCount' = loopCount + 1;
          (r, db') = DoRemoveDecisionL coll (flt loopCount') db f;
          error = (case r of Inr _ \<Rightarrow> None
                   | Inl e \<Rightarrow> if e = KErrCorrupt then recover loopCount' else Some e)
      in if error = Some KErrCorrupt \<and> loopCount' < 2 then remove_loop coll flt recover f loopCount' db'
         else (error, db'))"
  by pat_completeness auto

termination
  by (relation "measure (\<lambda>(coll, flt, recover, f, loopCount, db). 2 - loopCount)") auto

declare remove_loop.simps [simp del]

definition RemoveDecisionsL ::
    "(string \<Rightarrow> string \<Rightarrow> bool) \<Rightarrow> (nat \<Rightarrow> remove_faults) \<Rightarrow> (nat \<Rightarrow> leave option) \<Rightarrow> CDecisionDb \<Rightarrow>
       CDecisionFilter \<Rightarrow> unit result \<times> CDecisionDb" where
  "RemoveDecisionsL coll flt recover db f =
     (case remove_loop coll flt recover f 1 db of
        (None, db) \<Rightarrow> (Ok (), db)
      | (Some e, db) \<Rightarrow> (Leave e, db))"

subsection \<open>The invariant of the table\<close>

definition db_ok :: "CDecisionDb \<Rightarrow> bool" where
  "db_ok db \<longleftrightarrow> distinct (map record_key (rows db)) \<and> distinct (map rRecordId (rows db))"

text \<open>The table as a map from keys to records.\<close>

definition db_map :: "CDecisionDb \<Rightarrow> decision_key \<Rightarrow> CDecisionRecord option" where
  "db_map db = map_of (map (\<lambda>r. (record_key r, r)) (rows db))"

lemma SeekL_db_map: "SeekL db k = db_map db k"
proof -
  have "List.find (\<lambda>r. record_key r = k) rs = map_of (map (\<lambda>r. (record_key r, r)) rs) k" for rs
    by (induction rs) auto
  then show ?thesis by (simp add: SeekL_def db_map_def)
qed

lemma db_map_Some: "db_map db k = Some r \<Longrightarrow> r \<in> set (rows db) \<and> record_key r = k"
  by (auto simp: db_map_def dest: map_of_SomeD)

lemma db_map_None: "db_map db k = None \<longleftrightarrow> k \<notin> record_key ` set (rows db)"
  by (force simp: db_map_def map_of_eq_None_iff image_iff)

lemma db_map_row: "db_ok db \<Longrightarrow> r \<in> set (rows db) \<Longrightarrow> db_map db (record_key r) = Some r"
  by (auto simp: db_map_def db_ok_def comp_def intro!: map_of_is_SomeI)

lemma UpdateCurrentRowL_id [simp]: "rRecordId (UpdateCurrentRowL row x) = rRecordId row"
  by (simp add: UpdateCurrentRowL_def)

lemma UpdateCurrentRowL_inserted: "UpdateCurrentRowL (inserted_row i) x = x\<lparr>rRecordId := i\<rparr>"
  by (cases x) (simp add: UpdateCurrentRowL_def inserted_row_def)

lemma record_key_id [simp]: "record_key (x\<lparr>rRecordId := i\<rparr>) = record_key x"
  by (simp add: record_key_def)

lemma CreateDecisionL_ok:
  assumes "CreateDecisionL fault db x = (r, db')" and "db_ok db"
  shows "db_ok db' \<and>
    (r = Ok () \<longrightarrow> db_map db (record_key x) = None \<and>
       db_map db' = (db_map db)(record_key x \<mapsto> x\<lparr>rRecordId := nextId db\<rparr>)) \<and>
    (r \<noteq> Ok () \<longrightarrow> db' = db)"
proof (cases "fault = None \<and> r = Ok ()")
  case True
  then have db': "db' = db\<lparr>rows := rows db @ [x\<lparr>rRecordId := nextId db\<rparr>], nextId := nextId db + 1\<rparr>"
      and new: "record_key x \<notin> record_key ` set (rows db)" "nextId db \<notin> rRecordId ` set (rows db)"
    using assms(1) by (auto simp: CreateDecisionL_def UpdateCurrentRowL_inserted Let_def split: if_splits)
  have none: "map_of (map (\<lambda>r. (record_key r, r)) (rows db)) (record_key x) = None"
    using new(1) db_map_None [of db "record_key x"] by (simp add: db_map_def)
  have "db_map db' k = ((db_map db)(record_key x \<mapsto> x\<lparr>rRecordId := nextId db\<rparr>)) k" for k
    by (auto simp: db_map_def db' map_add_def none split: option.splits)
  then show ?thesis
    using True assms(2) new by (auto simp: db_ok_def db' db_map_None fun_eq_iff)
next
  case False
  then show ?thesis
    using assms by (auto simp: CreateDecisionL_def Let_def split: option.splits if_splits)
qed

subsection \<open>Searching and updating\<close>

lemma is_set_low: "i < 7 \<Longrightarrow> bit (0x7F :: tuint) i"
proof -
  have "(0x7F :: tuint) = mask 7" by (simp add: mask_eq_exp_minus_1)
  then show "i < 7 \<Longrightarrow> bit (0x7F :: tuint) i" by (simp only: bit_simps) simp
qed

lemma all_low_flags: "w AND 0x7F = (0x7F :: tuint) \<longleftrightarrow> (\<forall>i < 7. bit w i)"
proof
  assume w: "w AND 0x7F = (0x7F :: tuint)"
  then show "\<forall>i < 7. bit w i" using is_set_low by (metis bit_and_iff)
next
  assume w: "\<forall>i < 7. bit w i"
  have m: "(0x7F :: tuint) = mask 7" by (simp add: mask_eq_exp_minus_1)
  show "w AND 0x7F = (0x7F :: tuint)"
    unfolding m using w by (intro bit_word_eqI) (auto simp: bit_simps)
qed

lemma PrepareForSearchL_Ok:
  assumes "length (fSetFlag f) = KFilterKeysNumber" and "\<forall>i < 7. is_set f i"
    and "fFingerprint f = Some fp" and "fClientEntity f = Some ce"
  shows "PrepareForSearchL f =
    Ok (fClientSid f, fEvaluatorId f, fServiceId f, fServerSid f, fp, ce, fMajorPolicyVersion f)"
proof -
  have "bit (fold (OR) (take 7 (fSetFlag f)) 0) i" if "i < 7" for i
  proof -
    have "fSetFlag f ! i \<in> set (take 7 (fSetFlag f))"
      using assms(1) that by (auto simp: in_set_conv_nth KFilterKeysNumber_def intro!: exI [of _ i])
    then show ?thesis using assms(2) that by (auto simp: bit_fold_or is_set_bit)
  qed
  then have "fold (OR) (take 7 (fSetFlag f)) 0 AND 0x7F = (0x7F :: tuint)"
    by (simp add: all_low_flags)
  then show ?thesis using assms(3,4) by (simp add: PrepareForSearchL_def Let_def)
qed

text \<open>A filter built by the constructor with all keys, possibly with another fingerprint.\<close>

definition full_filter :: "CDecisionFilter \<Rightarrow> bool" where
  "full_filter f \<longleftrightarrow> filter_ok f \<and> (\<forall>i < 7. is_set f i)"

lemma NewLC_full:
  assumes "CDecisionFilter_NewLC c e s v fp ce m = Ok f"
  shows "full_filter f \<and> fClientSid f = c \<and> fEvaluatorId f = e \<and> fServiceId f = s \<and> fServerSid f = v \<and>
    fFingerprint f = Some fp \<and> fClientEntity f = Some ce \<and> fMajorPolicyVersion f = m"
proof -
  let ?e = "empty_filter\<lparr>fClientSid := c, fEvaluatorId := e, fServiceId := s, fServerSid := v,
    fMajorPolicyVersion := m, fFingerprint := Some fp, fClientEntity := Some ce\<rparr>"
  let ?f = "mark KPosClientEntity 0 (mark KPosFingerprint 0
         (mark KPosMajorPolicyVersion EEqual (mark KPosServerSid EEqual (mark KPosServiceId EEqual
           (mark KPosEvaluatorId EEqual (mark KPosClientSid EEqual ?e))))))"
  have f: "f = ?f"
    using assms by (auto simp: CDecisionFilter_NewLC_def CDecisionFilter_ValidateL_def split: if_splits)
  have len: "length (fSetFlag ?e) = 11" by (simp add: empty_filter_def KFilterKeysNumber_def)
  have "is_set f i" if "i < 7" for i
  proof -
    have "i \<in> {0, 1, 2, 3, 4, 5, 6}" using that by auto
    then show ?thesis unfolding f using len by (auto simp: is_set_mark KPos_defs KFilterKeysNumber_def)
  qed
  moreover have "fFingerprint f = Some fp" "fClientEntity f = Some ce" "length (fSetFlag f) = 11"
    unfolding f using len by simp_all
  moreover have "length fp \<le> KUpsMaxFingerprintLength \<and> length ce \<le> KUpsMaxClientEntityLength"
    using assms calculation f
    by (auto simp: CDecisionFilter_NewLC_def CDecisionFilter_ValidateL_def KPos_defs split: if_splits)
  ultimately show ?thesis
    by (auto simp: full_filter_def filter_ok_def KFilterKeysNumber_def KPos_defs f mark_def)
qed

lemma full_filter_search:
  "full_filter f \<Longrightarrow> \<exists>fp ce. fFingerprint f = Some fp \<and> fClientEntity f = Some ce \<and>
     PrepareForSearchL f = Ok (fClientSid f, fEvaluatorId f, fServiceId f, fServerSid f, fp, ce, fMajorPolicyVersion f)"
proof -
  assume f: "full_filter f"
  then obtain fp ce where "fFingerprint f = Some fp" "fClientEntity f = Some ce"
    by (auto simp: full_filter_def filter_ok_def KPos_defs)
  then show ?thesis using f PrepareForSearchL_Ok [of f fp ce] by (auto simp: full_filter_def filter_ok_def)
qed

lemma SetFingerprintL_full:
  assumes "SetFingerprintL fp aOp f = Ok f'" and "full_filter f"
  shows "full_filter f' \<and> fFingerprint f' = Some fp \<and> fClientEntity f' = fClientEntity f \<and>
    fClientSid f' = fClientSid f \<and> fEvaluatorId f' = fEvaluatorId f \<and> fServiceId f' = fServiceId f \<and>
    fServerSid f' = fServerSid f \<and> fMajorPolicyVersion f' = fMajorPolicyVersion f"
proof -
  have f': "f' = mark KPosFingerprint aOp (f\<lparr>fFingerprint := Some fp\<rparr>)"
    using assms(1) by (auto simp: SetFingerprintL_def split: if_splits)
  have "filter_ok f'" using assms SetFingerprintL_ok by (auto simp: full_filter_def)
  moreover have "is_set f' i" if "i < 7" for i
    using assms(2) that unfolding f' full_filter_def filter_ok_def
    by (subst is_set_mark) (auto simp: KPos_defs KFilterKeysNumber_def)
  ultimately show ?thesis by (simp add: full_filter_def f' mark_def)
qed

lemma GetDecisionL_full:
  assumes "full_filter f" and "fFingerprint f = Some fp" and "fClientEntity f = Some ce"
  shows "GetDecisionL None db f =
    Ok (db_map db (fClientSid f, fEvaluatorId f, fServiceId f, fServerSid f, fp, ce, fMajorPolicyVersion f))"
  using full_filter_search [OF assms(1)] assms(2,3) by (auto simp: GetDecisionL_def SeekL_db_map)

lemma UpdateDecisionL_ok:
  assumes "UpdateDecisionL fault db f x = (r, db')" and "db_ok db"
  shows "db_ok db' \<and> map rRecordId (rows db') = map rRecordId (rows db) \<and> nextId db' = nextId db \<and>
    (r \<noteq> Ok True \<longrightarrow> db' = db)"
proof (cases "r = Ok True")
  case False
  then show ?thesis
    using assms by (auto simp: UpdateDecisionL_def Let_def split: option.splits sum.splits if_splits)
next
  case True
  then obtain k row where k: "PrepareForSearchL f = Ok k" "SeekL db k = Some row"
      and db': "db' = db\<lparr>rows := map (\<lambda>r. if record_key r = k then UpdateCurrentRowL row x else r) (rows db)\<rparr>"
      and new: "record_key (UpdateCurrentRowL row x) = k \<or>
        record_key (UpdateCurrentRowL row x) \<notin> record_key ` set (rows db)"
    using assms(1) by (auto simp: UpdateDecisionL_def Let_def split: option.splits sum.splits if_splits)
  let ?row = "UpdateCurrentRowL row x"
  let ?h = "\<lambda>q. if q = k then record_key ?row else q"
  have row: "row \<in> set (rows db)" "record_key row = k"
    using k(2) db_map_Some by (auto simp: SeekL_db_map)
  have "map record_key (rows db') = map ?h (map record_key (rows db))"
    by (simp add: db' comp_def)
  moreover have "record_key ?row \<noteq> record_key r" if "record_key ?row \<noteq> k" "r \<in> set (rows db)" for r
    using that new by (metis imageI)
  then have "inj_on ?h (set (map record_key (rows db)))"
    by (auto simp: inj_on_def) metis+
  ultimately have "distinct (map record_key (rows db'))"
    using assms(2) by (simp add: distinct_map db_ok_def comp_inj_on del: map_map)
  moreover have "rRecordId ?row = rRecordId r" if "r \<in> set (rows db)" "record_key r = k" for r
    using that row assms(2) by (auto simp: db_ok_def distinct_map inj_on_def)
  then have "map rRecordId (rows db') = map rRecordId (rows db)"
    by (auto simp: db')
  moreover have "nextId db' = nextId db" by (simp add: db')
  ultimately show ?thesis using assms(2) True by (simp only: db_ok_def) simp
qed

subsection \<open>What is removed\<close>

lemma db_ok_filter: "db_ok db \<Longrightarrow> db_ok (db\<lparr>rows := filter P (rows db)\<rparr>)"
  by (simp add: db_ok_def distinct_map_filter)

lemma db_ok_transaction [simp]: "db_ok (db\<lparr>inTransaction := b\<rparr>) = db_ok db"
  by (simp add: db_ok_def)

lemma DoRemoveDecisionL_rows:
  assumes "DoRemoveDecisionL coll flt db f = (r, db')"
  shows "\<exists>P b. db' = db\<lparr>rows := filter P (rows db), inTransaction := b\<rparr>"
proof (cases "db' = db")
  case True
  then show ?thesis by (intro exI [of _ "\<lambda>r. True"] exI [of _ "inTransaction db"]) simp
next
  case False
  then consider P b where "db' = db\<lparr>rows := filter P (rows db), inTransaction := b\<rparr>"
      | P where "db' = db\<lparr>rows := filter P (rows db)\<rparr>"
    using assms unfolding DoRemoveDecisionL_def
    by (auto simp: Let_def split: sum.splits option.splits prod.splits if_splits)
  then show ?thesis
  proof cases
    case (2 P)
    then have "db' = db\<lparr>rows := filter P (rows db), inTransaction := inTransaction db\<rparr>" by simp
    then show ?thesis by blast
  qed blast
qed

lemma RemoveDecisionsL_once:
  "RemoveDecisionsL coll flt recover db f =
     (case DoRemoveDecisionL coll (flt 2) db f of
        (Inr u, db) \<Rightarrow> (Ok (), db)
      | (Inl e, db) \<Rightarrow>
          if e = KErrCorrupt then (case recover 2 of None \<Rightarrow> (Ok (), db) | Some e \<Rightarrow> (Leave e, db))
          else (Leave e, db))"
proof -
  have "remove_loop coll flt recover f 1 db =
     (case DoRemoveDecisionL coll (flt 2) db f of
        (Inr u, db) \<Rightarrow> (None, db)
      | (Inl e, db) \<Rightarrow> (if e = KErrCorrupt then recover 2 else Some e, db))"
    by (subst remove_loop.simps)
      (simp add: Let_def numeral_2_eq_2 [symmetric] split: prod.splits sum.splits)
  then show ?thesis
    by (auto simp: RemoveDecisionsL_def split: prod.splits sum.splits option.splits)
qed

lemma RemoveDecisionsL_ok:
  assumes "RemoveDecisionsL coll flt recover db f = (r, db')" and "db_ok db"
  shows "db_ok db'"
proof -
  obtain r' where "DoRemoveDecisionL coll (flt 2) db f = (r', db')"
    using assms(1) by (auto simp: RemoveDecisionsL_once split: prod.splits sum.splits option.splits if_splits)
  then show ?thesis using DoRemoveDecisionL_rows assms(2) db_ok_filter [of db] by fastforce
qed

text \<open>An execution in which the database library reports no error.\<close>

definition no_faults :: "remove_faults \<Rightarrow> bool" where
  "no_faults flt \<longleftrightarrow> prepareErr flt = None \<and> beginErr flt = None \<and> deleteErr flt = None \<and> commitErr flt = None"

lemma filter_not_selected [simp]:
  "filter (\<lambda>r. r \<in> set xs \<longrightarrow> \<not> P r) xs = filter (\<lambda>r. \<not> P r) xs"
  by (rule filter_cong) auto

lemma RemoveDecisionsL_Ok:
  assumes "CreateSqlStatementLC f = Ok sql" and "parse_sql sql = Some cs" and "no_faults (flt 2)"
  shows "RemoveDecisionsL coll flt recover db f =
    (Ok (), db\<lparr>rows := filter (\<lambda>r. \<not> list_all (selects coll r) cs) (rows db)\<rparr>)"
  using assms by (simp add: RemoveDecisionsL_once DoRemoveDecisionL_def no_faults_def Let_def)

subsection \<open>Runs of the database\<close>

text \<open>The calls of the clients of the database that change the table, with their faults.\<close>

datatype db_call =
    DbCreate "leave option" CDecisionRecord
  | DbUpdate "leave option" CDecisionFilter CDecisionRecord
  | DbRemove "nat \<Rightarrow> remove_faults" "nat \<Rightarrow> leave option" CDecisionFilter

primrec db_call_result :: "(string \<Rightarrow> string \<Rightarrow> bool) \<Rightarrow> db_call \<Rightarrow> CDecisionDb \<Rightarrow> CDecisionDb" where
  "db_call_result coll (DbCreate fault x) db = snd (CreateDecisionL fault db x)"
| "db_call_result coll (DbUpdate fault f x) db = snd (UpdateDecisionL fault db f x)"
| "db_call_result coll (DbRemove flt recover f) db = snd (RemoveDecisionsL coll flt recover db f)"

definition empty_db :: CDecisionDb where
  "empty_db = \<lparr>rows = [], nextId = 1, inTransaction = False\<rparr>"

lemma db_call_ok: "db_ok db \<Longrightarrow> db_ok (db_call_result coll c db)"
proof (cases c)
  case (DbCreate fault x)
  then show "db_ok db \<Longrightarrow> ?thesis"
    using CreateDecisionL_ok [of fault db x] by (metis db_call_result.simps(1) prod.collapse)
next
  case (DbUpdate fault f x)
  then show "db_ok db \<Longrightarrow> ?thesis"
    using UpdateDecisionL_ok [of fault db f x] by (metis db_call_result.simps(2) prod.collapse)
next
  case (DbRemove flt recover f)
  then show "db_ok db \<Longrightarrow> ?thesis"
    using RemoveDecisionsL_ok [of coll flt recover db f] by (metis db_call_result.simps(3) prod.collapse)
qed



definition stored_record :: CDecisionRecord where
  "stored_record = (inserted_row 0)\<lparr>rClientSid := 7, rServiceId := 3, rFingerprint := [1, 2], rResult := 1\<rparr>"



definition faultless :: remove_faults where
  "faultless = \<lparr>prepareErr = None, syntaxErr = KErrArgument, beginErr = None, deleteErr = None, commitErr = None\<rparr>"

lemma remove_nine:
  "is_set (SetRecordId 9 0 empty_filter) KPosDescription \<longrightarrow> fDescription (SetRecordId 9 0 empty_filter) \<noteq> None"
  "CreateSqlStatementLC (SetRecordId 9 0 empty_filter) = Ok (sql_text (SetRecordId 9 0 empty_filter))"
  "conditions (SetRecordId 9 0 empty_filter) = [(''RecordId'', ''='', SqlInt 9)]"
  "sql_maxLen (SetRecordId 9 0 empty_filter) = 59"
proof -
  let ?f = "SetRecordId 9 0 empty_filter"
  show c: "conditions ?f = [(''RecordId'', ''='', SqlInt 9)]"
    by code_simp
  have "combinedFlags ?f = 0x80"
    by code_simp
  then show m: "sql_maxLen ?f = 59"
    by (simp add: estimate_of_flags)
  show d: "is_set ?f KPosDescription \<longrightarrow> fDescription ?f \<noteq> None"
    by code_simp
  have "length (sql_text ?f) \<le> 59"
    by (simp add: sql_text_def c dec.simps [of 9])
  then show "CreateSqlStatementLC ?f = Ok (sql_text ?f)"
    by (simp add: CreateSqlStatementLC_eq [OF d] m KBaseSQLLength_def)
qed




end
