(* ===== verification/UpsServer.thy ===== *)
theory UpsServer
  imports UpsPolicyCache UpsDatabase
begin

section \<open>The user prompt server (\<open>server/source/upsserver\<close>)\<close>

text \<open>
  The requests in progress (\<open>authoriser.cpp\<close>), the gate keeper with its two queues and the
  disputed records (\<open>upsserver.cpp\<close>), \<open>ExecutePromptL\<close> (\<open>upssubsession.cpp\<close>) and the parts of the
  server framework that start, cancel and complete them (\<open>asyncrequest.cpp\<close>, \<open>scsserver.cpp\<close>),
  over the policy cache and the decision database.  A request is named by a number; the fields
  \<open>written\<close> and \<open>completed\<close> record what the client's message received.  What the plugins, the
  file server and the database library answer is the parameter \<open>run_env\<close>.  The panics of the server
  are recorded: \<open>panicked\<close> for a call out of order, \<open>dialogPanic\<close> for a dialog plugin that gives no
  fingerprint with a permanent answer.
\<close>

subsection \<open>State\<close>

type_synonym aid = nat

datatype TAuthoriserState = ECheckPolicy | ECreatingFingerprints | ECheckDatabase | EPreparingDialog | EExecutingDialog

datatype TAuthoriserEvent = EInternalRequestComplete | EClearedToDisplayDialog | ECancel

record CAuthoriser =
  aSession :: nat
  aSubsession :: nat
  aCache :: nat
  aRequest :: CPromptRequest
  aState :: TAuthoriserState
  aActive :: bool
  aUserInput :: bool
  aPolicy :: "CPolicy option"
  aFingerprints :: "byte list list"
  aClientEntity :: "byte list option"
  aDialogFingerprint :: "(byte list \<times> string) option"
  aDialogEvaluatorInfo :: tuint
  aDialogSelectedOption :: tuint
  aPromptForced :: bool
  aPromptForcedRecordId :: tuint

text \<open>\<open>aUserInput\<close> tells that the priority is the one that \<open>WakeupNextPendingL\<close> sets.\<close>

record CUpsServer =
  iAsyncRequests :: "aid list"
  auth :: "aid \<Rightarrow> CAuthoriser"
  iFlurryQueue :: "aid list"
  iFlurryQueueBeingProcessed :: "aid list"
  iCurrentDialog :: "aid option"
  iDisputed :: "tuint list"
  iDbHandle :: CDecisionDb
  iPolicyCache :: "nat option"
  caches :: "nat \<Rightarrow> CPolicyCache"
  nextCache :: nat
  nextRequest :: aid
  written :: "(aid \<times> TUpsDecision) list"
  completed :: "(aid \<times> leave option) list"
  panicked :: bool
  dialogPanic :: bool

record run_env =
  envPolicy :: policy_env
  envFs :: rfs
  envStatus :: "leave option"
  envEvaluatorErr :: "leave option"
  envFingerprints :: "byte list list"
  envEntity :: "byte list option"
  envCreatorErr :: "leave option"
  envForcePromptL :: "CDecisionRecord \<Rightarrow> tuint \<Rightarrow> (bool \<times> tuint) result"
  envSelected :: tuint
  envDialogFingerprint :: "(byte list \<times> string) option"
  envInfo :: tuint
  envFilterErr :: "leave option"
  envGetFault :: "nat \<Rightarrow> leave option"
  envUpdateFault :: "leave option"
  envCreateFault :: "leave option"
  envRemoveFaults :: "nat \<Rightarrow> remove_faults"
  envRecover :: "nat \<Rightarrow> leave option"
  envCollation :: "string \<Rightarrow> string \<Rightarrow> bool"
  envDeleteErr :: "leave option"
  envPushErr :: "leave option"
  envDisputeErr :: "leave option"
  envWriteErr :: "leave option"

text \<open>A member function of the server or of a request changes the server and may leave.\<close>

type_synonym 'a srv = "CUpsServer \<Rightarrow> 'a result \<times> CUpsServer"

definition thenL :: "'a srv \<Rightarrow> ('a \<Rightarrow> 'b srv) \<Rightarrow> 'b srv" where
  "thenL m f s = (case m s of (Inl e, s) \<Rightarrow> (Leave e, s) | (Inr x, s) \<Rightarrow> f x s)"

definition returnL :: "'a \<Rightarrow> 'a srv" where "returnL x s = (Ok x, s)"
definition leaveL :: "leave \<Rightarrow> 'a srv" where "leaveL e s = (Leave e, s)"
definition changeL :: "(CUpsServer \<Rightarrow> CUpsServer) \<Rightarrow> unit srv" where "changeL g s = (Ok (), g s)"
definition getL :: "(CUpsServer \<Rightarrow> 'a) \<Rightarrow> 'a srv" where "getL g s = (Ok (g s), s)"
definition liftL :: "'a result \<Rightarrow> 'a srv" where "liftL r s = (r, s)"

definition faultL :: "leave option \<Rightarrow> unit srv" where
  "faultL fault = (case fault of None \<Rightarrow> returnL () | Some e \<Rightarrow> leaveL e)"

definition upd :: "aid \<Rightarrow> (CAuthoriser \<Rightarrow> CAuthoriser) \<Rightarrow> CUpsServer \<Rightarrow> CUpsServer" where
  "upd a g s = s\<lparr>auth := (auth s)(a := g (auth s a))\<rparr>"

definition panic :: "CUpsServer \<Rightarrow> CUpsServer" where "panic s = s\<lparr>panicked := True\<rparr>"

subsection \<open>Waking requests up\<close>

text \<open>\<open>CActive::SetActive\<close> panics on an active object, \<open>CompleteSelf\<close> where a plugin is at work.\<close>

definition SetActive :: "aid \<Rightarrow> CUpsServer \<Rightarrow> CUpsServer" where
  "SetActive a s = upd a (\<lambda>x. x\<lparr>aActive := True\<rparr>) (if aActive (auth s a) then panic s else s)"

definition CompleteSelf :: "aid \<Rightarrow> CUpsServer \<Rightarrow> CUpsServer" where
  "CompleteSelf a s =
     (case aState (auth s a) of
        ECheckPolicy \<Rightarrow> s
      | ECheckDatabase \<Rightarrow> s
      | ECreatingFingerprints \<Rightarrow> panic s
      | EPreparingDialog \<Rightarrow> panic s
      | EExecutingDialog \<Rightarrow> panic s)"

definition Wakeup :: "aid \<Rightarrow> CUpsServer \<Rightarrow> CUpsServer" where
  "Wakeup a s = CompleteSelf a (SetActive a s)"

definition WakeupNextPendingL :: "CUpsServer \<Rightarrow> CUpsServer" where
  "WakeupNextPendingL s =
     (case iFlurryQueueBeingProcessed s of
        [] \<Rightarrow> s
      | a # q \<Rightarrow> Wakeup a (upd a (\<lambda>x. x\<lparr>aUserInput := True\<rparr>) (s\<lparr>iFlurryQueueBeingProcessed := q\<rparr>)))"

subsection \<open>Disputed records\<close>

definition IsRecordIdDisputed :: "tuint \<Rightarrow> CUpsServer \<Rightarrow> bool" where
  "IsRecordIdDisputed aRecordId s \<longleftrightarrow> aRecordId \<in> set (iDisputed s)"

definition DisputeRecordIdL :: "run_env \<Rightarrow> tuint \<Rightarrow> unit srv" where
  "DisputeRecordIdL env aRecordId s =
     (case envDisputeErr env of
        Some e \<Rightarrow> (Leave e, s)
      | None \<Rightarrow> if aRecordId \<in> set (iDisputed s) then (Leave KErrAlreadyExists, s)
          else (Ok (), s\<lparr>iDisputed := InsertInOrder aRecordId (iDisputed s)\<rparr>))"

definition UnDisputeRecordIdL :: "tuint \<Rightarrow> unit srv" where
  "UnDisputeRecordIdL aRecordId s =
     (if aRecordId \<in> set (iDisputed s) then (Ok (), s\<lparr>iDisputed := remove1 aRecordId (iDisputed s)\<rparr>)
      else (Leave KErrNotFound, s))"

subsection \<open>The end of a request\<close>

definition AuthoriserDoneL :: "aid \<Rightarrow> CUpsServer \<Rightarrow> CUpsServer" where
  "AuthoriserDoneL a s =
     (let s = s\<lparr>iFlurryQueue := remove1 a (iFlurryQueue s),
            iFlurryQueueBeingProcessed := remove1 a (iFlurryQueueBeingProcessed s)\<rparr> in
      if iCurrentDialog s = Some a then
        let s = s\<lparr>iCurrentDialog := None\<rparr>;
            s = (if iFlurryQueueBeingProcessed s = []
                 then s\<lparr>iFlurryQueue := iFlurryQueueBeingProcessed s, iFlurryQueueBeingProcessed := iFlurryQueue s\<rparr>
                 else s)
        in WakeupNextPendingL s
      else s)"

text \<open>\<open>ProcessEventL(ECancel)\<close>: where a plugin is at work, its \<open>Cancel\<close> completes the request.\<close>

definition cancel_event :: "aid \<Rightarrow> CUpsServer \<Rightarrow> CUpsServer" where
  "cancel_event a s =
     (case aState (auth s a) of
        ECheckPolicy \<Rightarrow> CompleteSelf a s
      | ECreatingFingerprints \<Rightarrow> s
      | ECheckDatabase \<Rightarrow> CompleteSelf a s
      | EPreparingDialog \<Rightarrow> s
      | EExecutingDialog \<Rightarrow> s)"

definition DoCancel :: "aid \<Rightarrow> CUpsServer \<Rightarrow> CUpsServer" where
  "DoCancel a s = cancel_event a (WakeupNextPendingL s)"

definition Cancel :: "aid \<Rightarrow> CUpsServer \<Rightarrow> CUpsServer" where
  "Cancel a s = (if aActive (auth s a) then upd a (\<lambda>x. x\<lparr>aActive := False\<rparr>) (DoCancel a s) else s)"

definition undispute :: "aid \<Rightarrow> CUpsServer \<Rightarrow> CUpsServer" where
  "undispute a s =
     (if aPromptForced (auth s a)
      then upd a (\<lambda>x. x\<lparr>aPromptForced := False\<rparr>) (snd (UnDisputeRecordIdL (aPromptForcedRecordId (auth s a)) s))
      else s)"

definition DoCleanup :: "aid \<Rightarrow> CUpsServer \<Rightarrow> CUpsServer" where
  "DoCleanup a s = AuthoriserDoneL a (Cancel a (undispute a s))"

text \<open>
  The request is marked by clearing \<open>iSession\<close>, so it is not found again, and a callback of the
  highest priority deletes it.
\<close>

definition MarkForDeletion :: "aid \<Rightarrow> CUpsServer \<Rightarrow> CUpsServer" where
  "MarkForDeletion a s = (let s = DoCleanup a s in s\<lparr>iAsyncRequests := remove1 a (iAsyncRequests s)\<rparr>)"

text \<open>Completing with \<open>KErrBadDescriptor\<close> stands for the panic of the client.\<close>

definition CompleteAndMarkForDeletion :: "aid \<Rightarrow> leave option \<Rightarrow> CUpsServer \<Rightarrow> CUpsServer" where
  "CompleteAndMarkForDeletion a aError s = MarkForDeletion a (s\<lparr>completed := (a, aError) # completed s\<rparr>)"

subsection \<open>The steps of a request\<close>

definition WriteDecisionL :: "run_env \<Rightarrow> aid \<Rightarrow> TUpsDecision \<Rightarrow> unit srv" where
  "WriteDecisionL env a d =
     thenL (faultL (envWriteErr env)) (\<lambda>_. changeL (\<lambda>s. s\<lparr>written := (a, d) # written s\<rparr>))"

definition CreateFingerprintsL :: "run_env \<Rightarrow> aid \<Rightarrow> unit srv" where
  "CreateFingerprintsL env a =
     thenL (changeL (upd a (\<lambda>x. x\<lparr>aState := ECreatingFingerprints\<rparr>))) (\<lambda>_.
     thenL (faultL (envEvaluatorErr env)) (\<lambda>_.
     changeL (SetActive a)))"

definition MatchL :: "run_env \<Rightarrow> aid \<Rightarrow> CPolicy srv" where
  "MatchL env a s =
     (let c = aCache (auth s a) in
      case CPolicyCache_MatchL (envPolicy env) (envFs env) (caches s c) (aRequest (auth s a)) of
        (r, cache) \<Rightarrow> (r, s\<lparr>caches := (caches s)(c := cache)\<rparr>))"

definition LookupPolicyL :: "run_env \<Rightarrow> aid \<Rightarrow> unit srv" where
  "LookupPolicyL env a =
     thenL (MatchL env a) (\<lambda>p.
     thenL (changeL (upd a (\<lambda>x. x\<lparr>aPolicy := Some p\<rparr>))) (\<lambda>_.
     if PromptRequired p then CreateFingerprintsL env a
     else thenL (WriteDecisionL env a (MapCPolicyTOptions2TUpsDecision p (iOptions p))) (\<lambda>_.
       changeL (CompleteAndMarkForDeletion a None))))"

definition PrepareDialogL :: "run_env \<Rightarrow> aid \<Rightarrow> unit srv" where
  "PrepareDialogL env a =
     thenL (changeL (upd a (\<lambda>x. x\<lparr>aState := EPreparingDialog\<rparr>))) (\<lambda>_.
     thenL (faultL (envCreatorErr env)) (\<lambda>_.
     changeL (SetActive a)))"

text \<open>\<open>ProcessEventL(EClearedToDisplayDialog)\<close>: an assertion in all other states.\<close>

definition ClearedToDisplayL :: "run_env \<Rightarrow> aid \<Rightarrow> unit srv" where
  "ClearedToDisplayL env a s =
     (if aState (auth s a) = ECheckDatabase then PrepareDialogL env a s else (Ok (), panic s))"

definition GateKeeperL :: "run_env \<Rightarrow> aid \<Rightarrow> unit srv" where
  "GateKeeperL env a s =
     (if iCurrentDialog s \<noteq> None then
        (case envPushErr env of
           Some e \<Rightarrow> (Leave e, s)
         | None \<Rightarrow> (Ok (), s\<lparr>iFlurryQueue := iFlurryQueue s @ [a]\<rparr>))
      else ClearedToDisplayL env a (s\<lparr>iCurrentDialog := Some a\<rparr>))"

definition HandleDbErrorL :: "run_env \<Rightarrow> leave \<Rightarrow> unit srv" where
  "HandleDbErrorL env aError s =
     (if aError \<noteq> KErrNoMemory \<and> aError \<noteq> KErrDiskFull then
        (case envDeleteErr env of
           Some e \<Rightarrow> (Leave e, s)
         | None \<Rightarrow> (Leave aError, s\<lparr>iDbHandle := empty_db\<rparr>))
      else (Ok (), s))"

definition handleL :: "run_env \<Rightarrow> leave option \<Rightarrow> unit srv" where
  "handleL env err = (case err of None \<Rightarrow> returnL () | Some e \<Rightarrow> HandleDbErrorL env e)"

definition KDefaultFingerprint :: "byte list" where "KDefaultFingerprint = [0x2A]"

definition entity_name :: "CAuthoriser \<Rightarrow> byte list" where
  "entity_name x = (case aClientEntity x of None \<Rightarrow> [] | Some n \<Rightarrow> n)"

definition request_policy :: "CAuthoriser \<Rightarrow> CPolicy" where
  "request_policy x = the (aPolicy x)"

definition request_filter :: "run_env \<Rightarrow> byte list \<Rightarrow> CAuthoriser \<Rightarrow> CDecisionFilter result" where
  "request_filter env fingerprint x =
     (case envFilterErr env of
        Some e \<Rightarrow> Leave e
      | None \<Rightarrow> CDecisionFilter_NewLC (reqClientSid (aRequest x)) (iPolicyEvaluator (request_policy x))
          (reqServiceId (aRequest x)) (reqServerSid (aRequest x)) fingerprint (entity_name x)
          (iMajorVersion (request_policy x)))"

fun find_record ::
    "run_env \<Rightarrow> nat \<Rightarrow> CDecisionFilter \<Rightarrow> byte list list \<Rightarrow> (CDecisionFilter \<times> CDecisionRecord option) srv" where
  "find_record env i flt [] s = (Ok (flt, None), s)"
| "find_record env i flt (fp # fps) s =
     (case SetFingerprintL fp EEqual flt of
        Inl e \<Rightarrow> (Leave e, s)
      | Inr flt \<Rightarrow>
          (case GetDecisionL (envGetFault env i) (iDbHandle s) flt of
             Inl e \<Rightarrow> thenL (HandleDbErrorL env e) (\<lambda>_. find_record env (Suc i) flt fps) s
           | Inr (Some record) \<Rightarrow> (Ok (flt, Some record), s)
           | Inr None \<Rightarrow> find_record env (Suc i) flt fps s))"

definition UpdateDbL :: "run_env \<Rightarrow> CDecisionFilter \<Rightarrow> CDecisionRecord \<Rightarrow> leave option srv" where
  "UpdateDbL env flt record s =
     (case UpdateDecisionL (envUpdateFault env) (iDbHandle s) flt record of
        (r, db) \<Rightarrow> (Ok (case r of Inl e \<Rightarrow> Some e | Inr _ \<Rightarrow> None), s\<lparr>iDbHandle := db\<rparr>))"

text \<open>The part of \<open>LookupFingerprintsL\<close> for a record that is found and not disputed.\<close>

definition forget_forced :: "aid \<Rightarrow> CDecisionRecord \<Rightarrow> unit srv" where
  "forget_forced a record s =
     (let x = auth s a in
      if aPromptForced x \<and> rRecordId record \<noteq> aPromptForcedRecordId x
      then UnDisputeRecordIdL (aPromptForcedRecordId x) (upd a (\<lambda>x. x\<lparr>aPromptForced := False\<rparr>) s)
      else (Ok (), s))"

definition force_prompt :: "run_env \<Rightarrow> aid \<Rightarrow> CDecisionRecord \<Rightarrow> unit srv" where
  "force_prompt env a record =
     thenL (changeL (upd a (\<lambda>x. x\<lparr>aPromptForced := True, aPromptForcedRecordId := rRecordId record\<rparr>))) (\<lambda>_.
     DisputeRecordIdL env (rRecordId record))"

definition stored_decision :: "run_env \<Rightarrow> aid \<Rightarrow> CDecisionFilter \<Rightarrow> CDecisionRecord \<Rightarrow> bool srv" where
  "stored_decision env a flt record =
     thenL (forget_forced a record) (\<lambda>_.
     thenL (liftL (envForcePromptL env record (rEvaluatorInfo record))) (\<lambda>(forcePrompt, info).
     thenL (if forcePrompt then force_prompt env a record else returnL ()) (\<lambda>_.
     thenL (if info \<noteq> rEvaluatorInfo record then
              thenL (changeL (upd a (\<lambda>x. x\<lparr>aDialogEvaluatorInfo := info\<rparr>))) (\<lambda>_.
              if forcePrompt then returnL ()
              else thenL (UpdateDbL env flt (record\<lparr>rEvaluatorInfo := info\<rparr>)) (handleL env))
            else returnL ()) (\<lambda>_.
     returnL forcePrompt))))"

definition LookupFingerprintsL :: "run_env \<Rightarrow> aid \<Rightarrow> unit srv" where
  "LookupFingerprintsL env a =
     thenL (changeL (upd a (\<lambda>x. x\<lparr>aState := ECheckDatabase\<rparr>))) (\<lambda>_.
     thenL (getL (\<lambda>s. auth s a)) (\<lambda>x.
     thenL (liftL (request_filter env KDefaultFingerprint x)) (\<lambda>flt.
     thenL (find_record env 0 flt (aFingerprints x)) (\<lambda>(flt, found).
     case found of
       None \<Rightarrow> GateKeeperL env a
     | Some record \<Rightarrow>
         thenL (changeL (upd a (\<lambda>x. x\<lparr>aDialogEvaluatorInfo := rEvaluatorInfo record\<rparr>))) (\<lambda>_.
         thenL (getL (IsRecordIdDisputed (rRecordId record))) (\<lambda>disputed.
         if disputed then GateKeeperL env a
         else
           thenL (stored_decision env a flt record) (\<lambda>forcePrompt.
           if forcePrompt then GateKeeperL env a
           else
             thenL (WriteDecisionL env a
               (MapCPolicyTOptions2TUpsDecision (request_policy x) (if rResult record \<noteq> 0 then EAlways else ENever))) (\<lambda>_.
             changeL (CompleteAndMarkForDeletion a None)))))))))"

definition ExecuteDialogL :: "aid \<Rightarrow> unit srv" where
  "ExecuteDialogL a = changeL (\<lambda>s. SetActive a (upd a (\<lambda>x. x\<lparr>aState := EExecutingDialog\<rparr>) s))"

subsection \<open>The answer of the user\<close>

definition RemoveDbL :: "run_env \<Rightarrow> CDecisionFilter \<Rightarrow> leave option srv" where
  "RemoveDbL env flt s =
     (case RemoveDecisionsL (envCollation env) (envRemoveFaults env) (envRecover env) (iDbHandle s) flt of
        (r, db) \<Rightarrow> (Ok (case r of Inl e \<Rightarrow> Some e | Inr _ \<Rightarrow> None), s\<lparr>iDbHandle := db\<rparr>))"

definition CreateDbL :: "run_env \<Rightarrow> CDecisionRecord \<Rightarrow> leave option srv" where
  "CreateDbL env record s =
     (case CreateDecisionL (envCreateFault env) (iDbHandle s) record of
        (r, db) \<Rightarrow> (Ok (case r of Inl e \<Rightarrow> Some e | Inr _ \<Rightarrow> None), s\<lparr>iDbHandle := db\<rparr>))"

definition delete_forced :: "run_env \<Rightarrow> aid \<Rightarrow> unit srv" where
  "delete_forced env a =
     thenL (getL (\<lambda>s. auth s a)) (\<lambda>x.
     if aPromptForced x then
       thenL (faultL (envFilterErr env)) (\<lambda>_.
       thenL (RemoveDbL env (SetRecordId (aPromptForcedRecordId x) EEqual empty_filter)) (\<lambda>err.
       thenL (handleL env err) (\<lambda>_.
       thenL (changeL (upd a (\<lambda>x. x\<lparr>aPromptForced := False\<rparr>))) (\<lambda>_.
       UnDisputeRecordIdL (aPromptForcedRecordId x)))))
     else returnL ())"

definition decision_record :: "CAuthoriser \<Rightarrow> byte list \<times> string \<Rightarrow> CDecisionRecord" where
  "decision_record x fp =
     \<lparr>rClientSid = reqClientSid (aRequest x), rEvaluatorId = iPolicyEvaluator (request_policy x),
      rServiceId = reqServiceId (aRequest x), rServerSid = reqServerSid (aRequest x), rFingerprint = fst fp,
      rClientEntity = entity_name x, rDescription = snd fp,
      rResult = (if aDialogSelectedOption x AND EAlways \<noteq> 0 then 1 else 0),
      rMajorPolicyVersion = iMajorVersion (request_policy x), rRecordId = 0,
      rEvaluatorInfo = aDialogEvaluatorInfo x\<rparr>"

definition store_decision :: "run_env \<Rightarrow> CAuthoriser \<Rightarrow> unit srv" where
  "store_decision env x =
     (if aDialogSelectedOption x AND EAlways \<noteq> 0 \<or> aDialogSelectedOption x AND ENever \<noteq> 0 then
        (case aDialogFingerprint x of
           None \<Rightarrow> thenL (changeL (\<lambda>s. s\<lparr>dialogPanic := True\<rparr>)) (\<lambda>_. leaveL KErrUpsBadFingerprintLength)
         | Some fp \<Rightarrow>
             thenL (faultL (envFilterErr env)) (\<lambda>_.
             thenL (liftL (CDecisionRecord_ValidateL (decision_record x fp))) (\<lambda>record.
             thenL (CreateDbL env record) (\<lambda>err.
             thenL (if err = Some KErrAlreadyExists then
                      thenL (liftL (request_filter env (fst fp) x)) (\<lambda>flt. UpdateDbL env flt record)
                    else returnL err) (\<lambda>err.
             handleL env err)))))
      else returnL ())"

definition ProcessDialogResultL :: "run_env \<Rightarrow> aid \<Rightarrow> unit srv" where
  "ProcessDialogResultL env a =
     thenL (delete_forced env a) (\<lambda>_.
     thenL (changeL (upd a (\<lambda>x. x\<lparr>aDialogSelectedOption := aDialogSelectedOption x AND iOptions (request_policy x)\<rparr>))) (\<lambda>_.
     thenL (getL (\<lambda>s. auth s a)) (\<lambda>x.
     thenL (store_decision env x) (\<lambda>_.
     thenL (WriteDecisionL env a (MapCPolicyTOptions2TUpsDecision (request_policy x) (aDialogSelectedOption x))) (\<lambda>_.
     changeL (CompleteAndMarkForDeletion a None))))))"

subsection \<open>The state machine\<close>

definition ProcessEventL :: "run_env \<Rightarrow> TAuthoriserEvent \<Rightarrow> aid \<Rightarrow> unit srv" where
  "ProcessEventL env aEvent a s =
     (case aEvent of
        EInternalRequestComplete \<Rightarrow>
          (case aState (auth s a) of
             ECheckPolicy \<Rightarrow> LookupPolicyL env a s
           | ECreatingFingerprints \<Rightarrow> LookupFingerprintsL env a s
           | ECheckDatabase \<Rightarrow> LookupFingerprintsL env a s
           | EPreparingDialog \<Rightarrow> ExecuteDialogL a s
           | EExecutingDialog \<Rightarrow> ProcessDialogResultL env a s)
      | EClearedToDisplayDialog \<Rightarrow> ClearedToDisplayL env a s
      | ECancel \<Rightarrow> (Ok (), cancel_event a s))"

definition RunL :: "run_env \<Rightarrow> aid \<Rightarrow> unit srv" where
  "RunL env a =
     thenL (changeL WakeupNextPendingL) (\<lambda>_.
     thenL (changeL (upd a (\<lambda>x. x\<lparr>aUserInput := False\<rparr>))) (\<lambda>_.
     thenL (faultL (envStatus env)) (\<lambda>_.
     ProcessEventL env EInternalRequestComplete a)))"

text \<open>What a plugin has stored in the members of the request when it completes.\<close>

definition plugin_results :: "run_env \<Rightarrow> CAuthoriser \<Rightarrow> CAuthoriser" where
  "plugin_results env x =
     (case aState x of
        ECreatingFingerprints \<Rightarrow> x\<lparr>aFingerprints := envFingerprints env, aClientEntity := envEntity env\<rparr>
      | EExecutingDialog \<Rightarrow> x\<lparr>aDialogSelectedOption := envSelected env,
            aDialogFingerprint := envDialogFingerprint env, aDialogEvaluatorInfo := envInfo env\<rparr>
      | _ \<Rightarrow> x)"

text \<open>The active scheduler runs a request: \<open>RunL\<close>, and \<open>RunError\<close> when it leaves.\<close>

definition run_request :: "run_env \<Rightarrow> aid \<Rightarrow> CUpsServer \<Rightarrow> CUpsServer" where
  "run_request env a s =
     (case RunL env a (upd a (\<lambda>x. (plugin_results env x)\<lparr>aActive := False\<rparr>) s) of
        (Inl e, s) \<Rightarrow> CompleteAndMarkForDeletion a (Some e) s
      | (Inr _, s) \<Rightarrow> s)"

subsection \<open>Messages of the clients\<close>

definition FindAsyncRequest :: "nat \<Rightarrow> nat \<Rightarrow> CUpsServer \<Rightarrow> aid option" where
  "FindAsyncRequest session subsession s =
     List.find (\<lambda>a. aSession (auth s a) = session \<and> aSubsession (auth s a) = subsession) (rev (iAsyncRequests s))"

definition new_cache :: CPolicyCache where
  "new_cache = \<lparr>iPolicyLists = [], iPolicyPath = [CHR 0x5C] @ ''private'' @ [CHR 0x5C] @ ''10283558'' @ [CHR 0x5C] @
      ''policies'' @ [CHR 0x5C], iSystemDriveChar = CHR ''C''\<rparr>"

definition new_authoriser :: "nat \<Rightarrow> nat \<Rightarrow> nat \<Rightarrow> CPromptRequest \<Rightarrow> CAuthoriser" where
  "new_authoriser session subsession cache request =
     \<lparr>aSession = session, aSubsession = subsession, aCache = cache, aRequest = request, aState = ECheckPolicy,
      aActive = False, aUserInput = False, aPolicy = None, aFingerprints = [], aClientEntity = None,
      aDialogFingerprint = None, aDialogEvaluatorInfo = 0, aDialogSelectedOption = 0, aPromptForced = False,
      aPromptForcedRecordId = 0\<rparr>"

text \<open>\<open>AddAsyncRequestL\<close> and the first \<open>Wakeup\<close>.\<close>

definition AddAsyncRequestL :: "nat \<Rightarrow> nat \<Rightarrow> CPromptRequest \<Rightarrow> unit srv" where
  "AddAsyncRequestL session subsession request s =
     (if FindAsyncRequest session subsession s \<noteq> None then (Leave KErrScsAsyncAlreadyQueued, s)
      else
        let a = nextRequest s in
        (Ok (), Wakeup a (s\<lparr>nextRequest := a + 1, iAsyncRequests := iAsyncRequests s @ [a],
           auth := (auth s)(a := new_authoriser session subsession (the (iPolicyCache s)) request)\<rparr>)))"

text \<open>
  \<open>ExecutePromptL\<close>: \<open>openErr\<close> is the error of opening the policy cache, \<open>newErr\<close> the one of
  \<open>CAuthoriser::NewL\<close>, on which the server's handle of the cache is released.
\<close>

definition ExecutePromptL ::
    "leave option \<Rightarrow> leave option \<Rightarrow> nat \<Rightarrow> nat \<Rightarrow> CPromptRequest \<Rightarrow> unit srv" where
  "ExecutePromptL openErr newErr session subsession request =
     thenL (getL iPolicyCache) (\<lambda>handle.
     thenL (if handle = None then
              thenL (faultL openErr) (\<lambda>_.
              changeL (\<lambda>s. s\<lparr>iPolicyCache := Some (nextCache s), caches := (caches s)(nextCache s := new_cache),
                nextCache := nextCache s + 1\<rparr>))
            else returnL ()) (\<lambda>_.
     thenL (if newErr = None then returnL ()
            else thenL (changeL (\<lambda>s. s\<lparr>iPolicyCache := None\<rparr>)) (\<lambda>_. faultL newErr)) (\<lambda>_.
     AddAsyncRequestL session subsession request)))"

definition CancelAsyncRequest :: "nat \<Rightarrow> nat \<Rightarrow> CUpsServer \<Rightarrow> CUpsServer" where
  "CancelAsyncRequest session subsession s =
     (case FindAsyncRequest session subsession s of
        None \<Rightarrow> s
      | Some a \<Rightarrow> CompleteAndMarkForDeletion a (Some KErrCancel) s)"

text \<open>No subsession stands for \<open>KWildSubsession\<close>.\<close>

definition cancel_one :: "bool \<Rightarrow> aid \<Rightarrow> CUpsServer \<Rightarrow> CUpsServer" where
  "cancel_one aCompleteClientRequests a s =
     (if aCompleteClientRequests then CompleteAndMarkForDeletion a (Some KErrCancel) s
      else MarkForDeletion a (DoCleanup a s))"

definition CancelOutstandingRequests :: "nat \<Rightarrow> nat option \<Rightarrow> bool \<Rightarrow> CUpsServer \<Rightarrow> CUpsServer" where
  "CancelOutstandingRequests session subsession aCompleteClientRequests s =
     fold (cancel_one aCompleteClientRequests)
       (filter (\<lambda>a. aSession (auth s a) = session \<and> (subsession = None \<or> subsession = Some (aSubsession (auth s a))))
         (rev (iAsyncRequests s))) s"

text \<open>The management functions of \<open>CUpsSession::DoServiceL\<close> that change the database or the cache.\<close>

datatype management =
    EDeleteDatabase
  | ERemoveDecisions CDecisionFilter
  | EDeleteDecisionsForExe tuint
  | ENotifyPolicyFilesChanged

definition DoServiceL :: "run_env \<Rightarrow> management \<Rightarrow> unit srv" where
  "DoServiceL env f =
     (case f of
        EDeleteDatabase \<Rightarrow>
          thenL (faultL (envDeleteErr env)) (\<lambda>_. changeL (\<lambda>s. s\<lparr>iDbHandle := empty_db\<rparr>))
      | ERemoveDecisions flt \<Rightarrow> thenL (RemoveDbL env flt) faultL
      | EDeleteDecisionsForExe exeSid \<Rightarrow>
          thenL (RemoveDbL env (SetClientSid exeSid EEqual empty_filter)) faultL
      | ENotifyPolicyFilesChanged \<Rightarrow> changeL (\<lambda>s. s\<lparr>iPolicyCache := None\<rparr>))"

subsection \<open>Runs of the server\<close>

datatype server_event =
    Execute "leave option" "leave option" nat nat CPromptRequest
  | Run run_env aid
  | CancelPrompt nat nat
  | CloseSession nat "nat option" bool
  | Manage run_env management

fun server_step :: "server_event \<Rightarrow> CUpsServer \<Rightarrow> CUpsServer" where
  "server_step (Execute openErr newErr session subsession request) s =
     snd (ExecutePromptL openErr newErr session subsession request s)"
| "server_step (Run env a) s = run_request env a s"
| "server_step (CancelPrompt session subsession) s = CancelAsyncRequest session subsession s"
| "server_step (CloseSession session subsession complete) s = CancelOutstandingRequests session subsession complete s"
| "server_step (Manage env f) s = snd (DoServiceL env f s)"

text \<open>
  The active scheduler: a request that \<open>WakeupNextPendingL\<close> woke is ready at once and runs before
  messages and before requests of standard priority; any other active request runs when its plugin
  has completed.  A request that completed itself has the status \<open>KErrNone\<close>.
\<close>

definition woken :: "CUpsServer \<Rightarrow> aid set" where
  "woken s = {a \<in> set (iAsyncRequests s). aActive (auth s a) \<and> aUserInput (auth s a)}"

fun enabled :: "server_event \<Rightarrow> CUpsServer \<Rightarrow> bool" where
  "enabled (Run env a) s \<longleftrightarrow> a \<in> set (iAsyncRequests s) \<and> aActive (auth s a) \<and>
     (woken s \<noteq> {} \<longrightarrow> a \<in> woken s) \<and>
     (aState (auth s a) \<in> {ECheckPolicy, ECheckDatabase} \<longrightarrow> envStatus env = None)"
| "enabled _ s \<longleftrightarrow> woken s = {}"

definition started :: "CUpsServer \<Rightarrow> bool" where
  "started s \<longleftrightarrow> iAsyncRequests s = [] \<and> iFlurryQueue s = [] \<and> iFlurryQueueBeingProcessed s = [] \<and>
     iCurrentDialog s = None \<and> iDisputed s = [] \<and> db_ok (iDbHandle s) \<and> written s = [] \<and> completed s = [] \<and>
     \<not> panicked s"

inductive server_reachable :: "CUpsServer \<Rightarrow> bool" where
  start: "started s \<Longrightarrow> server_reachable s"
| event: "server_reachable s \<Longrightarrow> enabled e s \<Longrightarrow> server_reachable (server_step e s)"

end
