(* ===== verification/UpsServerLaws.thy ===== *)
theory UpsServerLaws
  imports UpsServer
begin

section \<open>Laws of the user prompt server\<close>

text \<open>
  Hoare triples over the leaving member functions, the invariant of the queues (\<open>queue_ok\<close>), its
  preservation by every event, and the bound on the runs of a round.  While a request \<open>r\<close> runs it is
  neither active nor queued; \<open>queue_ok {r}\<close> is the invariant of the others.
\<close>

named_theorems srv

definition triple ::
    "(CUpsServer \<Rightarrow> bool) \<Rightarrow> 'a srv \<Rightarrow> ('a \<Rightarrow> CUpsServer \<Rightarrow> bool) \<Rightarrow> (CUpsServer \<Rightarrow> bool) \<Rightarrow> bool" where
  "triple P m Q E \<longleftrightarrow>
     (\<forall>s. P s \<longrightarrow> (case m s of (Inl e, s') \<Rightarrow> E s' | (Inr x, s') \<Rightarrow> Q x s'))"

lemma triple_thenL [srv]:
  "triple P m Q E \<Longrightarrow> (\<And>x. triple (Q x) (f x) R E) \<Longrightarrow> triple P (thenL m f) R E"
  by (fastforce simp: triple_def thenL_def split: prod.splits sum.splits)

lemma triple_returnL [srv]: "(\<And>s. P s \<Longrightarrow> Q x s) \<Longrightarrow> triple P (returnL x) Q E"
  by (simp add: triple_def returnL_def)

lemma triple_leaveL [srv]: "(\<And>s. P s \<Longrightarrow> E s) \<Longrightarrow> triple P (leaveL e) Q E"
  by (simp add: triple_def leaveL_def)

lemma triple_changeL [srv]: "(\<And>s. P s \<Longrightarrow> Q () (g s)) \<Longrightarrow> triple P (changeL g) Q E"
  by (simp add: triple_def changeL_def)

lemma triple_getL: "triple P (getL g) (\<lambda>x s. P s \<and> x = g s) E"
  by (simp add: triple_def getL_def)

lemma triple_weaken:
  "triple P m Q E \<Longrightarrow> (\<And>s. P' s \<Longrightarrow> P s) \<Longrightarrow> (\<And>x s. Q x s \<Longrightarrow> Q' x s) \<Longrightarrow> (\<And>s. E s \<Longrightarrow> E' s) \<Longrightarrow>
    triple P' m Q' E'"
  by (fastforce simp: triple_def split: prod.splits sum.splits)

lemma tripleD:
  "triple P m Q E \<Longrightarrow> P s \<Longrightarrow> m s = (r, s') \<Longrightarrow> (case r of Inl e \<Rightarrow> E s' | Inr x \<Rightarrow> Q x s')"
  by (fastforce simp: triple_def split: prod.splits sum.splits)

lemma triple_snd: "triple P m (\<lambda>_. Q) Q \<Longrightarrow> P s \<Longrightarrow> Q (snd (m s))"
  using tripleD [of P m "\<lambda>_. Q" Q s "fst (m s)" "snd (m s)"] by (cases "m s"; cases "fst (m s)") auto

lemma triple_if [srv]:
  "(b \<Longrightarrow> triple P m Q E) \<Longrightarrow> (\<not> b \<Longrightarrow> triple P m' Q E) \<Longrightarrow> triple P (if b then m else m') Q E"
  by simp

lemma triple_option [srv]:
  "(v = None \<Longrightarrow> triple P m Q E) \<Longrightarrow> (\<And>x. v = Some x \<Longrightarrow> triple P (f x) Q E) \<Longrightarrow>
    triple P (case v of None \<Rightarrow> m | Some x \<Rightarrow> f x) Q E"
  by (cases v) auto

text \<open>A predicate that a function leaves alone, whatever its outcome.\<close>

definition keeps :: "(CUpsServer \<Rightarrow> bool) \<Rightarrow> 'a srv \<Rightarrow> bool" where
  "keeps P m \<longleftrightarrow> (\<forall>s. P s \<longrightarrow> P (snd (m s)))"

lemma triple_keeps: "keeps P m \<Longrightarrow> triple P m (\<lambda>_. P) P"
  by (fastforce simp: triple_def keeps_def split: prod.splits sum.splits)

lemma keeps_thenL [srv]: "keeps P m \<Longrightarrow> (\<And>x. keeps P (f x)) \<Longrightarrow> keeps P (thenL m f)"
  by (fastforce simp: keeps_def thenL_def split: prod.splits sum.splits)

lemma keeps_simple [srv]: "keeps P (returnL x)" "keeps P (leaveL e)" "keeps P (getL g)" "keeps P (liftL r)"
  by (simp_all add: keeps_def returnL_def leaveL_def getL_def liftL_def)

lemma keeps_faultL [srv]: "keeps P (faultL fault)"
  by (cases fault) (simp_all add: faultL_def keeps_simple)

lemma keeps_changeL [srv]: "(\<And>s. P s \<Longrightarrow> P (g s)) \<Longrightarrow> keeps P (changeL g)"
  by (simp add: keeps_def changeL_def)

lemma keeps_if [srv]: "(b \<Longrightarrow> keeps P m) \<Longrightarrow> (\<not> b \<Longrightarrow> keeps P m') \<Longrightarrow> keeps P (if b then m else m')"
  by simp

lemma keeps_option [srv]:
  "keeps P m \<Longrightarrow> (\<And>x. keeps P (f x)) \<Longrightarrow> keeps P (case v of None \<Rightarrow> m | Some x \<Rightarrow> f x)"
  by (cases v) auto

lemma keeps_pair [srv]: "(\<And>x y. keeps P (f x y)) \<Longrightarrow> keeps P (case v of (x, y) \<Rightarrow> f x y)"
  by (cases v) auto

subsection \<open>The invariant of the queues\<close>

definition queued :: "CUpsServer \<Rightarrow> aid set" where
  "queued s = set (iFlurryQueue s) \<union> set (iFlurryQueueBeingProcessed s)"

definition queue_ok :: "aid set \<Rightarrow> CUpsServer \<Rightarrow> bool" where
  "queue_ok X s \<longleftrightarrow>
     distinct (iAsyncRequests s) \<and> (\<forall>a \<in> set (iAsyncRequests s). a < nextRequest s) \<and>
     distinct (iFlurryQueue s @ iFlurryQueueBeingProcessed s) \<and> queued s \<subseteq> set (iAsyncRequests s) \<and>
     (\<forall>a \<in> queued s. \<not> aActive (auth s a) \<and> aState (auth s a) = ECheckDatabase) \<and>
     (\<forall>a \<in> set (iAsyncRequests s) - X. aActive (auth s a) \<or> a \<in> queued s) \<and>
     (\<forall>a \<in> set (iAsyncRequests s) - X.
        aState (auth s a) \<in> {EPreparingDialog, EExecutingDialog} \<longleftrightarrow> iCurrentDialog s = Some a) \<and>
     (\<forall>a. iCurrentDialog s = Some a \<longrightarrow> a \<in> set (iAsyncRequests s)) \<and>
     (\<forall>a \<in> set (iAsyncRequests s) - X. aUserInput (auth s a) \<longrightarrow> aActive (auth s a) \<and> aState (auth s a) = ECheckDatabase) \<and>
     (iFlurryQueue s \<noteq> [] \<longrightarrow> iCurrentDialog s \<noteq> None) \<and>
     \<not> panicked s"

definition ready :: "CUpsServer \<Rightarrow> bool" where
  "ready s \<longleftrightarrow> (iFlurryQueueBeingProcessed s \<noteq> [] \<longrightarrow> woken s \<noteq> {})"

text \<open>The part of the state that these notions see.\<close>

definition same_queues :: "CUpsServer \<Rightarrow> CUpsServer \<Rightarrow> bool" where
  "same_queues s s' \<longleftrightarrow>
     iAsyncRequests s' = iAsyncRequests s \<and> iFlurryQueue s' = iFlurryQueue s \<and>
     iFlurryQueueBeingProcessed s' = iFlurryQueueBeingProcessed s \<and> iCurrentDialog s' = iCurrentDialog s \<and>
     nextRequest s' = nextRequest s \<and> panicked s' = panicked s \<and>
     (\<forall>a. aState (auth s' a) = aState (auth s a) \<and> aActive (auth s' a) = aActive (auth s a) \<and>
          aUserInput (auth s' a) = aUserInput (auth s a))"

lemma woken_same: "same_queues s s' \<Longrightarrow> woken s' = woken s"
  by (simp add: same_queues_def woken_def)

lemma queue_ok_same: "same_queues s s' \<Longrightarrow> queue_ok X s' = queue_ok X s"
  by (simp add: same_queues_def queue_ok_def queued_def)

lemma ready_same: "same_queues s s' \<Longrightarrow> ready s' = ready s"
  using woken_same [of s s'] by (simp add: ready_def) (simp add: same_queues_def)

lemma queue_okD:
  assumes "queue_ok X s"
  shows "distinct (iAsyncRequests s)" "a \<in> set (iAsyncRequests s) \<Longrightarrow> a < nextRequest s"
    "distinct (iFlurryQueue s @ iFlurryQueueBeingProcessed s)" "a \<in> queued s \<Longrightarrow> a \<in> set (iAsyncRequests s)"
    "a \<in> queued s \<Longrightarrow> \<not> aActive (auth s a)" "a \<in> queued s \<Longrightarrow> aState (auth s a) = ECheckDatabase"
    "a \<in> set (iAsyncRequests s) \<Longrightarrow> a \<notin> X \<Longrightarrow> a \<notin> queued s \<Longrightarrow> aActive (auth s a)"
    "a \<in> set (iAsyncRequests s) \<Longrightarrow> a \<notin> X \<Longrightarrow>
       aState (auth s a) \<in> {EPreparingDialog, EExecutingDialog} \<longleftrightarrow> iCurrentDialog s = Some a"
    "iCurrentDialog s = Some a \<Longrightarrow> a \<in> set (iAsyncRequests s)"
    "a \<in> set (iAsyncRequests s) \<Longrightarrow> a \<notin> X \<Longrightarrow> aUserInput (auth s a) \<Longrightarrow>
       aActive (auth s a) \<and> aState (auth s a) = ECheckDatabase"
    "iFlurryQueue s \<noteq> [] \<Longrightarrow> iCurrentDialog s \<noteq> None" "\<not> panicked s"
  using assms unfolding queue_ok_def by blast+

lemma queue_okI:
  assumes "distinct (iAsyncRequests s)" "\<And>a. a \<in> set (iAsyncRequests s) \<Longrightarrow> a < nextRequest s"
    "distinct (iFlurryQueue s @ iFlurryQueueBeingProcessed s)" "\<And>a. a \<in> queued s \<Longrightarrow> a \<in> set (iAsyncRequests s)"
    "\<And>a. a \<in> queued s \<Longrightarrow> \<not> aActive (auth s a)" "\<And>a. a \<in> queued s \<Longrightarrow> aState (auth s a) = ECheckDatabase"
    "\<And>a. a \<in> set (iAsyncRequests s) \<Longrightarrow> a \<notin> X \<Longrightarrow> a \<notin> queued s \<Longrightarrow> aActive (auth s a)"
    "\<And>a. a \<in> set (iAsyncRequests s) \<Longrightarrow> a \<notin> X \<Longrightarrow>
       aState (auth s a) \<in> {EPreparingDialog, EExecutingDialog} \<longleftrightarrow> iCurrentDialog s = Some a"
    "\<And>a. iCurrentDialog s = Some a \<Longrightarrow> a \<in> set (iAsyncRequests s)"
    "\<And>a. a \<in> set (iAsyncRequests s) \<Longrightarrow> a \<notin> X \<Longrightarrow> aUserInput (auth s a) \<Longrightarrow>
       aActive (auth s a) \<and> aState (auth s a) = ECheckDatabase"
    "iFlurryQueue s \<noteq> [] \<Longrightarrow> iCurrentDialog s \<noteq> None" "\<not> panicked s"
  shows "queue_ok X s"
  unfolding queue_ok_def using assms by (intro conjI ballI allI impI) blast+

lemma upd_sel [simp]:
  "iAsyncRequests (upd a g s) = iAsyncRequests s" "iFlurryQueue (upd a g s) = iFlurryQueue s"
  "iFlurryQueueBeingProcessed (upd a g s) = iFlurryQueueBeingProcessed s"
  "iCurrentDialog (upd a g s) = iCurrentDialog s" "iDisputed (upd a g s) = iDisputed s"
  "iDbHandle (upd a g s) = iDbHandle s" "nextRequest (upd a g s) = nextRequest s"
  "written (upd a g s) = written s" "completed (upd a g s) = completed s" "panicked (upd a g s) = panicked s"
  "caches (upd a g s) = caches s" "iPolicyCache (upd a g s) = iPolicyCache s"
  "auth (upd a g s) b = (if b = a then g (auth s a) else auth s b)"
  by (simp_all add: upd_def)

lemma panic_sel [simp]:
  "iAsyncRequests (panic s) = iAsyncRequests s" "iFlurryQueue (panic s) = iFlurryQueue s"
  "iFlurryQueueBeingProcessed (panic s) = iFlurryQueueBeingProcessed s" "iCurrentDialog (panic s) = iCurrentDialog s"
  "iDisputed (panic s) = iDisputed s" "nextRequest (panic s) = nextRequest s" "auth (panic s) = auth s"
  "written (panic s) = written s" "completed (panic s) = completed s" "panicked (panic s)"
  "iDbHandle (panic s) = iDbHandle s"
  by (simp_all add: panic_def)

text \<open>The running request: neither active nor queued, and the last one to hold a dialog up.\<close>

definition running :: "aid \<Rightarrow> CUpsServer \<Rightarrow> bool" where
  "running r s \<longleftrightarrow> queue_ok {r} s \<and> ready s \<and> r \<in> set (iAsyncRequests s) \<and> r \<notin> queued s \<and>
     \<not> aActive (auth s r) \<and> \<not> aUserInput (auth s r) \<and>
     (iCurrentDialog s = Some r \<longrightarrow> iFlurryQueue s = [] \<or> iFlurryQueueBeingProcessed s = [])"

definition steady :: "CUpsServer \<Rightarrow> bool" where
  "steady s \<longleftrightarrow> queue_ok {} s \<and> ready s"

lemma running_same: "same_queues s s' \<Longrightarrow> running r s' = running r s"
  by (simp add: running_def queue_ok_same ready_same) (simp add: same_queues_def queued_def)

lemma WakeupNextPendingL_queues:
  assumes "queue_ok X s" and "X \<inter> queued s = {}"
  shows "queue_ok X (WakeupNextPendingL s) \<and> ready (WakeupNextPendingL s) \<and>
    queued (WakeupNextPendingL s) \<subseteq> queued s \<and> iFlurryQueue (WakeupNextPendingL s) = iFlurryQueue s \<and>
    set (iFlurryQueueBeingProcessed (WakeupNextPendingL s)) \<subseteq> set (iFlurryQueueBeingProcessed s) \<and>
    iCurrentDialog (WakeupNextPendingL s) = iCurrentDialog s \<and>
    iAsyncRequests (WakeupNextPendingL s) = iAsyncRequests s \<and>
    (\<forall>a \<in> X. auth (WakeupNextPendingL s) a = auth s a) \<and>
    (iFlurryQueueBeingProcessed s \<noteq> [] \<longrightarrow> woken (WakeupNextPendingL s) \<inter> queued s \<noteq> {}) \<and>
    (\<forall>a. aState (auth (WakeupNextPendingL s) a) = aState (auth s a))"
proof (cases "iFlurryQueueBeingProcessed s")
  case Nil
  then show ?thesis using assms by (simp add: WakeupNextPendingL_def ready_def)
next
  case (Cons b q)
  then have b: "b \<in> queued s" "b \<notin> X" "\<not> aActive (auth s b)" "aState (auth s b) = ECheckDatabase"
      "b \<in> set (iAsyncRequests s)" "b \<notin> set q" "b \<notin> set (iFlurryQueue s)"
    using assms by (auto simp: queue_ok_def queued_def)
  let ?s = "upd b (\<lambda>x. x\<lparr>aActive := True\<rparr>) (upd b (\<lambda>x. x\<lparr>aUserInput := True\<rparr>) (s\<lparr>iFlurryQueueBeingProcessed := q\<rparr>))"
  have eq: "WakeupNextPendingL s = ?s"
    using b Cons by (simp add: WakeupNextPendingL_def Wakeup_def SetActive_def CompleteSelf_def)
  have q: "a \<in> queued ?s \<longleftrightarrow> a \<in> queued s \<and> a \<noteq> b" for a
    using b Cons by (auto simp: queued_def)
  note d = queue_okD [OF assms(1)]
  have "queue_ok X ?s"
  proof (rule queue_okI)
    show "distinct (iFlurryQueue ?s @ iFlurryQueueBeingProcessed ?s)" using d(3) Cons by simp
    fix a
    show "aActive (auth ?s a)" if "a \<in> set (iAsyncRequests ?s)" "a \<notin> X" "a \<notin> queued ?s"
      using that d(7) [of a] q [of a] by auto
    show "aState (auth ?s a) \<in> {EPreparingDialog, EExecutingDialog} \<longleftrightarrow> iCurrentDialog ?s = Some a"
      if "a \<in> set (iAsyncRequests ?s)" "a \<notin> X"
      using that d(8) [of a] by auto
    show "aActive (auth ?s a) \<and> aState (auth ?s a) = ECheckDatabase"
      if "a \<in> set (iAsyncRequests ?s)" "a \<notin> X" "aUserInput (auth ?s a)"
      using that d(10) [of a] b by auto
  qed (use d q in \<open>auto split: if_splits\<close>)
  moreover have "b \<in> woken ?s" using b by (simp add: woken_def)
  ultimately show ?thesis
    using b Cons by (auto simp: eq ready_def queued_def)
qed

lemma queue_ok_mono: "queue_ok {} s \<Longrightarrow> queue_ok X s"
  unfolding queue_ok_def by blast

lemma cancel_event_id [simp]: "cancel_event a s = s"
  by (simp add: cancel_event_def CompleteSelf_def split: TAuthoriserState.split)

lemma undispute_queues: "same_queues s (undispute a s)"
  by (simp add: same_queues_def undispute_def UnDisputeRecordIdL_def)

definition quiet :: "aid \<Rightarrow> CUpsServer \<Rightarrow> bool" where
  "quiet a s \<longleftrightarrow> (iCurrentDialog s = Some a \<longrightarrow> iFlurryQueue s = [] \<or> iFlurryQueueBeingProcessed s = [])"

definition calm :: "CUpsServer \<Rightarrow> bool" where
  "calm s \<longleftrightarrow> (iCurrentDialog s \<noteq> None \<longrightarrow> iFlurryQueueBeingProcessed s = [])"

lemma calm_quiet: "calm s \<Longrightarrow> quiet a s"
  by (auto simp: calm_def quiet_def)

lemma Cancel_queues:
  assumes "queue_ok {a} s" and "ready s" and "a \<in> set (iAsyncRequests s)"
    and "aActive (auth s a) \<Longrightarrow> queue_ok {} s"
  defines "t \<equiv> Cancel a s"
  shows "queue_ok {a} t \<and> ready t \<and> \<not> aActive (auth t a) \<and> iAsyncRequests t = iAsyncRequests s \<and>
    (quiet a s \<longrightarrow> quiet a t) \<and> (calm s \<longrightarrow> calm t)"
proof (cases "aActive (auth s a)")
  case False
  then show ?thesis using assms(1,2) by (simp add: Cancel_def t_def)
next
  case True
  let ?w = "WakeupNextPendingL s"
  have ok: "queue_ok {} s" using True assms(4) by blast
  have a: "a \<notin> queued s" using True queue_okD(5) [OF ok] by blast
  note w = WakeupNextPendingL_queues [OF ok, simplified]
  have t: "t = upd a (\<lambda>x. x\<lparr>aActive := False\<rparr>) ?w"
    using True by (simp add: t_def Cancel_def DoCancel_def)
  note d = queue_okD [OF conjunct1 [OF w]]
  have q: "queued t = queued ?w" by (simp add: t queued_def)
  have "queue_ok {a} t"
  proof (rule queue_okI)
    fix b
    show "aState (auth t b) \<in> {EPreparingDialog, EExecutingDialog} \<longleftrightarrow> iCurrentDialog t = Some b"
      if "b \<in> set (iAsyncRequests t)" "b \<notin> {a}"
      using that d(8) [of b] by (auto simp: t)
    show "aActive (auth t b) \<and> aState (auth t b) = ECheckDatabase"
      if "b \<in> set (iAsyncRequests t)" "b \<notin> {a}" "aUserInput (auth t b)"
      using that d(10) [of b] by (auto simp: t)
  qed (use d q in \<open>auto simp: t split: if_splits\<close>)
  moreover have "ready t"
  proof (cases "iFlurryQueueBeingProcessed s")
    case Nil
    then show ?thesis by (simp add: t ready_def WakeupNextPendingL_def)
  next
    case (Cons b q)
    then obtain c where "c \<in> woken ?w" "c \<in> queued s" using w by auto
    then have "c \<in> woken t" using a by (auto simp: woken_def t)
    then show ?thesis by (auto simp: ready_def)
  qed
  ultimately show ?thesis
    using w by (auto simp: t quiet_def calm_def)
qed

lemma WakeupNextPendingL_requests [simp]:
  "WakeupNextPendingL (s\<lparr>iAsyncRequests := as\<rparr>) = (WakeupNextPendingL s)\<lparr>iAsyncRequests := as\<rparr>"
  by (simp add: WakeupNextPendingL_def Wakeup_def SetActive_def CompleteSelf_def upd_def panic_def
      split: list.split TAuthoriserState.split)

lemma AuthoriserDoneL_queues:
  assumes "queue_ok {a} s" and "ready s" and "a \<in> set (iAsyncRequests s)" and "\<not> aActive (auth s a)" and "quiet a s"
  defines "t \<equiv> (AuthoriserDoneL a s)\<lparr>iAsyncRequests := remove1 a (iAsyncRequests s)\<rparr>"
  shows "steady t \<and> (calm s \<longrightarrow> calm t) \<and> set (iAsyncRequests t) = set (iAsyncRequests s) - {a}"
proof -
  note d = queue_okD [OF assms(1)]
  let ?u = "s\<lparr>iFlurryQueue := remove1 a (iFlurryQueue s), iAsyncRequests := remove1 a (iAsyncRequests s),
    iFlurryQueueBeingProcessed := remove1 a (iFlurryQueueBeingProcessed s)\<rparr>"
  have set: "set (remove1 a (iAsyncRequests s)) = set (iAsyncRequests s) - {a}"
    using d(1) by simp
  have q: "b \<in> queued ?u \<longleftrightarrow> b \<in> queued s \<and> b \<noteq> a" for b
    using d(3) by (auto simp: queued_def)
  have w: "woken ?u = woken s" using set assms(4) by (auto simp: woken_def)
  show ?thesis
  proof (cases "iCurrentDialog s = Some a")
    case False
    then have t: "t = ?u" by (simp add: t_def AuthoriserDoneL_def)
    have "queue_ok {} ?u"
    proof (rule queue_okI)
      fix b
      show "aState (auth ?u b) \<in> {EPreparingDialog, EExecutingDialog} \<longleftrightarrow> iCurrentDialog ?u = Some b"
        if "b \<in> set (iAsyncRequests ?u)"
        using that d(8) [of b] set by auto
      show "aActive (auth ?u b)" if "b \<in> set (iAsyncRequests ?u)" "b \<notin> queued ?u"
        using that d(7) [of b] q [of b] set by auto
      show "b \<in> set (iAsyncRequests ?u)" if "iCurrentDialog ?u = Some b"
        using that False set d(9) [of b] by auto
      show "iFlurryQueue ?u \<noteq> [] \<Longrightarrow> iCurrentDialog ?u \<noteq> None"
        using d(11) by (cases "iFlurryQueue s") auto
    qed (use d q set in auto)
    moreover have "ready ?u" using assms(2) w by (cases "iFlurryQueueBeingProcessed s") (auto simp: ready_def)
    moreover have "calm s \<Longrightarrow> calm ?u" by (auto simp: calm_def)
    ultimately show ?thesis using set by (simp add: t steady_def)
  next
    case True
    let ?v = "?u\<lparr>iCurrentDialog := None, iFlurryQueue := [],
      iFlurryQueueBeingProcessed := remove1 a (if iFlurryQueueBeingProcessed s = [] \<or> remove1 a (iFlurryQueueBeingProcessed s) = []
        then iFlurryQueue s else iFlurryQueueBeingProcessed s)\<rparr>"
    have fl: "iFlurryQueue s = [] \<or> iFlurryQueueBeingProcessed s = []"
      using assms(5) True by (simp add: quiet_def)
    have t: "t = WakeupNextPendingL ?v"
      using fl True by (auto simp: t_def AuthoriserDoneL_def Let_def simp flip: WakeupNextPendingL_requests
          intro!: arg_cong [of _ _ WakeupNextPendingL])
    have "set (remove1 a (iFlurryQueueBeingProcessed s)) = set (iFlurryQueueBeingProcessed s) - {a}"
      using d(3) by simp
    then have "set (iFlurryQueueBeingProcessed s) \<subseteq> {a}" if "remove1 a (iFlurryQueueBeingProcessed s) = []"
      using that by auto
    then have qv: "b \<in> queued ?v \<longleftrightarrow> b \<in> queued s \<and> b \<noteq> a" for b
      using d(3) fl by (auto simp: queued_def)
    have "queue_ok {} ?v"
    proof (rule queue_okI)
      show "distinct (iFlurryQueue ?v @ iFlurryQueueBeingProcessed ?v)" using d(3) by simp
      fix b
      show "aState (auth ?v b) \<in> {EPreparingDialog, EExecutingDialog} \<longleftrightarrow> iCurrentDialog ?v = Some b"
        if "b \<in> set (iAsyncRequests ?v)"
        using that d(8) [of b] set True by auto
      show "aActive (auth ?v b)" if "b \<in> set (iAsyncRequests ?v)" "b \<notin> queued ?v"
        using that d(7) [of b] qv [of b] set by auto
      show "b \<in> set (iAsyncRequests ?v)" if "b \<in> queued ?v"
        using that d(4) [of b] qv [of b] set by auto
      show "\<not> aActive (auth ?v b)" if "b \<in> queued ?v"
        using that d(5) [of b] qv [of b] by auto
      show "aState (auth ?v b) = ECheckDatabase" if "b \<in> queued ?v"
        using that d(6) [of b] qv [of b] by auto
    qed (use d set in auto)
    then show ?thesis
      using WakeupNextPendingL_queues [of "{}" ?v] set by (auto simp: t steady_def calm_def)
  qed
qed

lemma same_queues_refl [simp]: "same_queues s s"
  by (simp add: same_queues_def)

lemma same_queues_trans: "same_queues s t \<Longrightarrow> same_queues t u \<Longrightarrow> same_queues s u"
  by (simp add: same_queues_def)

lemma quiet_same: "same_queues s s' \<Longrightarrow> quiet a s' = quiet a s"
  by (simp add: same_queues_def quiet_def)

lemma calm_same: "same_queues s s' \<Longrightarrow> calm s' = calm s"
  by (simp add: same_queues_def calm_def)

lemma MarkForDeletion_steady:
  assumes "queue_ok {a} s" and "ready s" and "a \<in> set (iAsyncRequests s)" and "quiet a s"
    and "aActive (auth s a) \<Longrightarrow> queue_ok {} s"
  shows "steady (MarkForDeletion a s) \<and> (calm s \<longrightarrow> calm (MarkForDeletion a s)) \<and>
    set (iAsyncRequests (MarkForDeletion a s)) = set (iAsyncRequests s) - {a}"
proof -
  let ?u = "undispute a s" let ?c = "Cancel a ?u"
  note same = undispute_queues [of s a]
  have u: "queue_ok {a} ?u" "ready ?u" "a \<in> set (iAsyncRequests ?u)" "quiet a ?u" "calm ?u = calm s"
      "iAsyncRequests ?u = iAsyncRequests s" "aActive (auth ?u a) \<Longrightarrow> queue_ok {} ?u"
    using assms queue_ok_same [OF same] ready_same [OF same] quiet_same [OF same] calm_same [OF same] same
    by (simp_all add: same_queues_def)
  note c = Cancel_queues [OF u(1,2,3,7)]
  have "iAsyncRequests (AuthoriserDoneL a ?c) = iAsyncRequests ?c"
    by (simp add: AuthoriserDoneL_def Let_def WakeupNextPendingL_def Wakeup_def SetActive_def CompleteSelf_def
        split: list.split TAuthoriserState.split)
  then show ?thesis
    using AuthoriserDoneL_queues [of a ?c] c u by (simp add: MarkForDeletion_def DoCleanup_def Let_def)
qed

lemma completed_queues: "same_queues s (s\<lparr>completed := cs\<rparr>)"
  by (simp add: same_queues_def)

lemma CompleteAndMarkForDeletion_steady:
  assumes "queue_ok {a} s" and "ready s" and "a \<in> set (iAsyncRequests s)" and "quiet a s"
    and "aActive (auth s a) \<Longrightarrow> queue_ok {} s"
  shows "steady (CompleteAndMarkForDeletion a e s) \<and> (calm s \<longrightarrow> calm (CompleteAndMarkForDeletion a e s)) \<and>
    set (iAsyncRequests (CompleteAndMarkForDeletion a e s)) = set (iAsyncRequests s) - {a}"
proof -
  let ?s = "s\<lparr>completed := (a, e) # completed s\<rparr>"
  note same = completed_queues [of s "(a, e) # completed s"]
  show ?thesis
    using MarkForDeletion_steady [of a ?s] assms queue_ok_same [OF same] ready_same [OF same] quiet_same [OF same]
      calm_same [OF same] by (simp add: CompleteAndMarkForDeletion_def)
qed

lemma running_completes: "running r s \<Longrightarrow> steady (CompleteAndMarkForDeletion r e s)"
  using CompleteAndMarkForDeletion_steady [of r s e] by (simp add: running_def quiet_def)

text \<open>Cleaning up a second time changes nothing.\<close>

lemma WakeupNextPendingL_other:
  "a \<notin> set (iFlurryQueueBeingProcessed s) \<Longrightarrow> auth (WakeupNextPendingL s) a = auth s a"
  by (auto simp: WakeupNextPendingL_def Wakeup_def SetActive_def CompleteSelf_def
      split: list.split TAuthoriserState.split)

lemma WakeupNextPendingL_fields [simp]:
  "iCurrentDialog (WakeupNextPendingL s) = iCurrentDialog s" "iFlurryQueue (WakeupNextPendingL s) = iFlurryQueue s"
  "iAsyncRequests (WakeupNextPendingL s) = iAsyncRequests s" "iDisputed (WakeupNextPendingL s) = iDisputed s"
  "iFlurryQueueBeingProcessed (WakeupNextPendingL s) = tl (iFlurryQueueBeingProcessed s)"
  "written (WakeupNextPendingL s) = written s" "completed (WakeupNextPendingL s) = completed s"
  "nextRequest (WakeupNextPendingL s) = nextRequest s" "iDbHandle (WakeupNextPendingL s) = iDbHandle s"
  by (auto simp: WakeupNextPendingL_def Wakeup_def SetActive_def CompleteSelf_def
      split: list.split TAuthoriserState.split)

lemma WakeupNextPendingL_forced [simp]:
  "aPromptForced (auth (WakeupNextPendingL s) a) = aPromptForced (auth s a)"
  "aPromptForcedRecordId (auth (WakeupNextPendingL s) a) = aPromptForcedRecordId (auth s a)"
  "aPolicy (auth (WakeupNextPendingL s) a) = aPolicy (auth s a)"
  "aState (auth (WakeupNextPendingL s) a) = aState (auth s a)"
  by (auto simp: WakeupNextPendingL_def Wakeup_def SetActive_def CompleteSelf_def
      split: list.split TAuthoriserState.split)

lemma in_set_tlD: "a \<in> set (tl xs) \<Longrightarrow> a \<in> set xs"
  by (cases xs) auto

lemma AuthoriserDoneL_done:
  assumes "distinct (iFlurryQueue s @ iFlurryQueueBeingProcessed s)"
  shows "auth (AuthoriserDoneL a s) a = auth s a \<and> a \<notin> queued (AuthoriserDoneL a s) \<and>
    iCurrentDialog (AuthoriserDoneL a s) \<noteq> Some a"
  using assms by (auto simp: AuthoriserDoneL_def Let_def queued_def WakeupNextPendingL_other dest: list.set_sel(2)
      in_set_tlD notin_set_remove1)

lemma AuthoriserDoneL_again:
  "a \<notin> queued s \<Longrightarrow> iCurrentDialog s \<noteq> Some a \<Longrightarrow> AuthoriserDoneL a s = s"
  by (simp add: AuthoriserDoneL_def queued_def remove1_idem)

lemma DoCleanup_twice:
  assumes "distinct (iFlurryQueue s @ iFlurryQueueBeingProcessed s)"
  shows "DoCleanup a (DoCleanup a s) = DoCleanup a s"
proof -
  let ?u = "Cancel a (undispute a s)" let ?t = "AuthoriserDoneL a ?u"
  have "distinct (iFlurryQueue ?u @ iFlurryQueueBeingProcessed ?u)"
    using assms by (auto simp: Cancel_def DoCancel_def undispute_def UnDisputeRecordIdL_def distinct_tl
        dest: in_set_tlD)
  note t = AuthoriserDoneL_done [OF this, of a]
  have "\<not> aActive (auth ?u a)" by (simp add: Cancel_def)
  moreover have "\<not> aPromptForced (auth ?u a)"
    by (simp add: Cancel_def DoCancel_def) (simp add: undispute_def)
  ultimately have "Cancel a (undispute a ?t) = ?t"
    using t by (simp add: Cancel_def undispute_def)
  then show ?thesis using t by (simp add: DoCleanup_def AuthoriserDoneL_again)
qed

lemma cancel_one_steady:
  assumes "steady s" and "a \<in> set (iAsyncRequests s)" and "calm s"
  shows "steady (cancel_one complete a s) \<and> calm (cancel_one complete a s) \<and>
    set (iAsyncRequests (cancel_one complete a s)) = set (iAsyncRequests s) - {a}"
proof -
  have s: "queue_ok {a} s" "ready s" "quiet a s" "queue_ok {} s"
    using assms queue_ok_mono calm_quiet by (auto simp: steady_def)
  have "MarkForDeletion a (DoCleanup a s) = MarkForDeletion a s"
    using queue_okD(3) [OF s(4)] by (simp add: MarkForDeletion_def DoCleanup_twice)
  then show ?thesis
    using MarkForDeletion_steady [of a s] CompleteAndMarkForDeletion_steady [of a s] s assms
    by (simp add: cancel_one_def)
qed

lemma cancel_all_steady:
  assumes "steady s" and "calm s" and "set as \<subseteq> set (iAsyncRequests s)" and "distinct as"
  shows "steady (fold (cancel_one complete) as s)"
  using assms
proof (induction as arbitrary: s)
  case Nil
  then show ?case by simp
next
  case (Cons a as)
  have "steady (fold (cancel_one complete) as (cancel_one complete a s))"
    by (rule Cons.IH) (use Cons.prems cancel_one_steady [of s a complete] in auto)
  then show ?case by simp
qed

lemma idle_calm: "steady s \<Longrightarrow> woken s = {} \<Longrightarrow> calm s"
  by (auto simp: steady_def ready_def calm_def)

lemma FindAsyncRequest_Some: "FindAsyncRequest session subsession s = Some a \<Longrightarrow> a \<in> set (iAsyncRequests s)"
  unfolding FindAsyncRequest_def find_Some_iff by (metis length_rev nth_mem set_rev)

lemma CancelAsyncRequest_steady:
  "steady s \<Longrightarrow> woken s = {} \<Longrightarrow> steady (CancelAsyncRequest session subsession s)"
  using cancel_one_steady [where complete = True] idle_calm FindAsyncRequest_Some
  by (auto simp: CancelAsyncRequest_def cancel_one_def split: option.split)

lemma CancelOutstandingRequests_steady:
  "steady s \<Longrightarrow> woken s = {} \<Longrightarrow> steady (CancelOutstandingRequests session subsession complete s)"
  unfolding CancelOutstandingRequests_def
  by (rule cancel_all_steady) (auto simp: idle_calm steady_def dest: queue_okD(1))

subsection \<open>Running a request\<close>

lemma frame_triple:
  assumes "\<And>s0. keeps (same_queues s0) m" and "\<And>s s'. same_queues s s' \<Longrightarrow> P s \<Longrightarrow> P s'"
  shows "triple P m (\<lambda>_. P) P"
proof (rule triple_keeps, unfold keeps_def, intro allI impI)
  fix s
  assume "P s"
  moreover have "same_queues s (snd (m s))" using assms(1) [of s] by (simp add: keeps_def)
  ultimately show "P (snd (m s))" using assms(2) by blast
qed

lemma frame_leave:
  assumes "\<And>s0. keeps (same_queues s0) m" and "\<And>s s'. same_queues s s' \<Longrightarrow> P s \<Longrightarrow> P s'"
    and "\<And>s. P s \<Longrightarrow> E s"
  shows "triple P m (\<lambda>_. P) E"
  by (rule triple_weaken [OF frame_triple [where P = P and m = m]]) (auto intro: assms)

lemma same_updI:
  assumes "\<And>x. aState (g x) = aState x \<and> aActive (g x) = aActive x \<and> aUserInput (g x) = aUserInput x"
  shows "same_queues s0 s \<Longrightarrow> same_queues s0 (upd a g s)"
  using assms by (auto simp: same_queues_def)

lemma HandleDbErrorL_same [srv]: "keeps (same_queues s0) (HandleDbErrorL env e)"
  by (auto simp: keeps_def HandleDbErrorL_def same_queues_def split: option.split)

lemma handleL_same [srv]: "keeps (same_queues s0) (handleL env err)"
  unfolding handleL_def by (intro srv)

lemma db_same [srv]:
  "keeps (same_queues s0) (UpdateDbL env flt record)" "keeps (same_queues s0) (RemoveDbL env flt)"
  "keeps (same_queues s0) (CreateDbL env record)" "keeps (same_queues s0) (MatchL env a)"
  by (auto simp: keeps_def UpdateDbL_def RemoveDbL_def CreateDbL_def MatchL_def Let_def same_queues_def
      split: prod.split)

lemma find_record_same [srv]: "keeps (same_queues s0) (find_record env i flt fps)"
proof (induction fps arbitrary: i flt)
  case Nil
  then show ?case by (simp add: keeps_def)
next
  case (Cons fp fps)
  have "keeps (same_queues s0) (thenL (HandleDbErrorL env e) (\<lambda>_. find_record env (Suc i) flt fps))" for e flt
    by (intro srv Cons.IH)
  then show ?case
    using Cons.IH by (auto simp: keeps_def split: sum.split option.split)
qed

lemma stored_decision_same [srv]: "keeps (same_queues s0) (stored_decision env a flt record)"
proof -
  have "keeps (same_queues s0) (forget_forced a record)"
    by (auto simp: keeps_def forget_forced_def UnDisputeRecordIdL_def Let_def same_queues_def)
  moreover have "keeps (same_queues s0) (force_prompt env a record)"
    by (auto simp: keeps_def force_prompt_def DisputeRecordIdL_def thenL_def changeL_def same_queues_def
        split: option.split prod.split)
  ultimately show ?thesis
    unfolding stored_decision_def by (intro srv same_updI) simp_all
qed

lemma WriteDecisionL_same [srv]: "keeps (same_queues s0) (WriteDecisionL env a d)"
  unfolding WriteDecisionL_def by (intro srv) (simp add: same_queues_def)

lemma delete_forced_same [srv]: "keeps (same_queues s0) (delete_forced env a)"
  unfolding delete_forced_def
  by (intro srv same_updI) (simp_all add: keeps_def UnDisputeRecordIdL_def same_queues_def)

lemma store_decision_same [srv]: "keeps (same_queues s0) (store_decision env x)"
  unfolding store_decision_def by (intro srv) (simp_all add: same_queues_def)

text \<open>
  \<open>runs N W r\<close> adds bounds: \<open>N\<close> requests, and \<open>W\<close> that are woken or wait in the queue being
  processed.  \<open>stopped N W\<close> is what a run establishes: one request less, or no more work of the second kind.
\<close>

definition work :: "CUpsServer \<Rightarrow> nat" where
  "work s = card (woken s) + length (iFlurryQueueBeingProcessed s)"

definition runs :: "nat \<Rightarrow> nat \<Rightarrow> aid \<Rightarrow> CUpsServer \<Rightarrow> bool" where
  "runs N W r s \<longleftrightarrow> running r s \<and> length (iAsyncRequests s) = N \<and> work s \<le> W"

definition stopped :: "nat \<Rightarrow> nat \<Rightarrow> CUpsServer \<Rightarrow> bool" where
  "stopped N W s \<longleftrightarrow> steady s \<and> (length (iAsyncRequests s) < N \<or> length (iAsyncRequests s) = N \<and> work s \<le> W)"

definition idle :: "nat \<Rightarrow> nat \<Rightarrow> aid \<Rightarrow> CUpsServer \<Rightarrow> bool" where
  "idle N W r s \<longleftrightarrow> runs N W r s \<and> iCurrentDialog s \<noteq> Some r"

definition looking :: "nat \<Rightarrow> nat \<Rightarrow> aid \<Rightarrow> CUpsServer \<Rightarrow> bool" where
  "looking N W r s \<longleftrightarrow> idle N W r s \<and> aState (auth s r) = ECheckDatabase"

lemma same_queuesD:
  assumes "same_queues s s'"
  shows "iCurrentDialog s' = iCurrentDialog s" "aState (auth s' a) = aState (auth s a)"
    "iAsyncRequests s' = iAsyncRequests s"
  using assms by (simp_all add: same_queues_def)

lemma work_same: "same_queues s s' \<Longrightarrow> work s' = work s"
  using woken_same [of s s'] by (simp add: work_def) (simp add: same_queues_def)

lemma runs_same: "same_queues s s' \<Longrightarrow> runs N W r s \<Longrightarrow> runs N W r s'"
  by (simp add: runs_def work_same running_same same_queuesD(3))

lemma idle_same: "same_queues s s' \<Longrightarrow> idle N W r s \<Longrightarrow> idle N W r s'"
  by (simp add: idle_def runs_same same_queuesD(1))

lemma looking_same: "same_queues s s' \<Longrightarrow> looking N W r s \<Longrightarrow> looking N W r s'"
  by (simp add: looking_def idle_same same_queuesD(2))

text \<open>The state of the running request is free.\<close>

lemma queue_ok_state:
  "queue_ok {r} s \<Longrightarrow> r \<notin> queued s \<Longrightarrow> queue_ok {r} (upd r g s)"
  unfolding queue_ok_def queued_def by (intro conjI ballI) auto

lemma running_state: "running r s \<Longrightarrow> running r (upd r (\<lambda>x. x\<lparr>aState := st\<rparr>) s)"
  using queue_ok_state [of r s "\<lambda>x. x\<lparr>aState := st\<rparr>"]
  by (auto simp: running_def ready_def woken_def queued_def)

lemma SetActive_steady:
  assumes "running r s"
    and "aState (auth s r) \<in> {EPreparingDialog, EExecutingDialog} \<longleftrightarrow> iCurrentDialog s = Some r"
  shows "steady (SetActive r s)"
proof -
  have r: "queue_ok {r} s" "ready s" "r \<notin> queued s" "\<not> aActive (auth s r)" "\<not> aUserInput (auth s r)"
    using assms(1) by (auto simp: running_def)
  note d = queue_okD [OF r(1)]
  let ?t = "upd r (\<lambda>x. x\<lparr>aActive := True\<rparr>) s"
  have q: "queued ?t = queued s" by (simp add: queued_def)
  have "queue_ok {} ?t"
  proof (rule queue_okI)
    fix b
    show "aState (auth ?t b) \<in> {EPreparingDialog, EExecutingDialog} \<longleftrightarrow> iCurrentDialog ?t = Some b"
      if "b \<in> set (iAsyncRequests ?t)"
      using that d(8) [of b] assms(2) by auto
    show "aActive (auth ?t b) \<and> aState (auth ?t b) = ECheckDatabase"
      if "b \<in> set (iAsyncRequests ?t)" "aUserInput (auth ?t b)"
      using that d(10) [of b] r by (auto split: if_splits)
  qed (use d q r in \<open>auto split: if_splits\<close>)
  moreover have "ready ?t" using r by (auto simp: ready_def woken_def)
  ultimately show ?thesis using r by (simp add: SetActive_def steady_def)
qed

lemma work_state:
  assumes "\<not> aActive (auth s r)" and "\<not> aActive (g (auth s r))"
  shows "work (upd r g s) = work s"
proof -
  have "woken (upd r g s) = woken s" using assms by (auto simp: woken_def)
  then show ?thesis by (simp add: work_def)
qed

lemma runs_state: "runs N W r s \<Longrightarrow> runs N W r (upd r (\<lambda>x. x\<lparr>aState := st\<rparr>) s)"
  using running_state [of r s st] work_state [of s r "\<lambda>x. x\<lparr>aState := st\<rparr>"] by (auto simp: runs_def running_def)

lemma SetActive_stopped:
  assumes "runs N W r s"
    and "aState (auth s r) \<in> {EPreparingDialog, EExecutingDialog} \<longleftrightarrow> iCurrentDialog s = Some r"
  shows "stopped N W (SetActive r s)"
proof -
  have "woken (SetActive r s) = woken s"
    using assms(1) by (auto simp: runs_def running_def woken_def SetActive_def)
  then show ?thesis
    using SetActive_steady [OF _ assms(2)] assms(1) by (auto simp: runs_def stopped_def work_def SetActive_def)
qed

lemma GateKeeperL_triple: "triple (looking N W r) (GateKeeperL env r) (\<lambda>_. stopped N W) (runs N W r)"
  unfolding triple_def
proof (intro allI impI)
  fix s
  assume "looking N W r s"
  then have r: "runs N W r s" "running r s" "iCurrentDialog s \<noteq> Some r" "aState (auth s r) = ECheckDatabase"
    by (auto simp: looking_def idle_def runs_def)
  then have q: "queue_ok {r} s" "r \<notin> queued s" "r \<in> set (iAsyncRequests s)" "\<not> aActive (auth s r)"
      "\<not> aUserInput (auth s r)" "ready s"
    by (auto simp: running_def)
  note d = queue_okD [OF q(1)]
  show "case GateKeeperL env r s of (Inl e, s') \<Rightarrow> runs N W r s' | (Inr x, s') \<Rightarrow> stopped N W s'"
  proof (cases "iCurrentDialog s")
    case None
    let ?s = "s\<lparr>iCurrentDialog := Some r\<rparr>"
    have "iFlurryQueue s = []" using None d(11) by blast
    moreover have "queue_ok {r} ?s"
    proof (rule queue_okI)
      fix b
      show "aState (auth ?s b) \<in> {EPreparingDialog, EExecutingDialog} \<longleftrightarrow> iCurrentDialog ?s = Some b"
        if "b \<in> set (iAsyncRequests ?s)" "b \<notin> {r}"
        using that d(8) [of b] None by auto
    qed (use d q None in \<open>auto simp: queued_def\<close>)
    ultimately have "running r ?s"
      using q by (simp add: running_def queued_def ready_def woken_def)
    then have "runs N W r ?s" using r(1) by (simp add: runs_def work_def woken_def)
    then have "runs N W r (upd r (\<lambda>x. x\<lparr>aState := EPreparingDialog\<rparr>) ?s)"
      by (rule runs_state)
    then show ?thesis
      using None r(4) SetActive_stopped [of N W r "upd r (\<lambda>x. x\<lparr>aState := EPreparingDialog\<rparr>) ?s"]
      by (auto simp: GateKeeperL_def ClearedToDisplayL_def PrepareDialogL_def thenL_def changeL_def faultL_def
          returnL_def leaveL_def split: option.split)
  next
    case (Some c)
    let ?s = "s\<lparr>iFlurryQueue := iFlurryQueue s @ [r]\<rparr>"
    have qs: "b \<in> queued ?s \<longleftrightarrow> b \<in> queued s \<or> b = r" for b by (auto simp: queued_def)
    have "queue_ok {} ?s"
    proof (rule queue_okI)
      show "distinct (iFlurryQueue ?s @ iFlurryQueueBeingProcessed ?s)"
        using d(3) q(2) by (auto simp: queued_def)
      fix b
      show "aActive (auth ?s b)" if "b \<in> set (iAsyncRequests ?s)" "b \<notin> queued ?s"
        using that d(7) [of b] qs [of b] by auto
      show "aState (auth ?s b) \<in> {EPreparingDialog, EExecutingDialog} \<longleftrightarrow> iCurrentDialog ?s = Some b"
        if "b \<in> set (iAsyncRequests ?s)"
        using that d(8) [of b] r by (cases "b = r") auto
      show "aActive (auth ?s b) \<and> aState (auth ?s b) = ECheckDatabase"
        if "b \<in> set (iAsyncRequests ?s)" "aUserInput (auth ?s b)"
        using that d(10) [of b] q by auto
    qed (use d q qs r Some in auto)
    moreover have "ready ?s" using q by (simp add: ready_def woken_def)
    moreover have "work ?s = work s" by (simp add: work_def woken_def)
    ultimately show ?thesis
      using r Some by (simp add: GateKeeperL_def steady_def stopped_def runs_def split: option.split)
  qed
qed

lemma running_stops: "running r s \<Longrightarrow> stopped (length (iAsyncRequests s)) W (CompleteAndMarkForDeletion r e s)"
proof -
  assume r: "running r s"
  let ?t = "CompleteAndMarkForDeletion r e s"
  have t: "steady ?t" using r by (rule running_completes)
  have "set (iAsyncRequests ?t) = set (iAsyncRequests s) - {r}"
    using CompleteAndMarkForDeletion_steady [of r s e] r by (simp add: running_def quiet_def)
  moreover have "distinct (iAsyncRequests ?t)" "distinct (iAsyncRequests s)" "r \<in> set (iAsyncRequests s)"
    using t r queue_okD(1) by (auto simp: steady_def running_def)
  ultimately have "length (iAsyncRequests ?t) < length (iAsyncRequests s)"
    by (metis card_Diff1_less distinct_card finite_set)
  then show ?thesis using t by (simp add: stopped_def)
qed

lemma finish_triple: "triple (runs N W r) (changeL (CompleteAndMarkForDeletion r e)) (\<lambda>_. stopped N W) E"
  by (rule triple_changeL) (use running_stops in \<open>auto simp: runs_def\<close>)

lemma runs_frame: "(\<And>s0. keeps (same_queues s0) m) \<Longrightarrow> triple (runs N W r) m (\<lambda>_. runs N W r) (runs N W r)"
  by (rule frame_triple) (auto intro: runs_same)

lemma write_and_finish:
  "triple (runs N W r) (thenL (WriteDecisionL env r d) (\<lambda>_. changeL (CompleteAndMarkForDeletion r None))) (\<lambda>_. stopped N W) (runs N W r)"
  by (rule triple_thenL [OF runs_frame finish_triple]) (rule srv)

lemma fault_triple: "triple P (faultL fault) (\<lambda>_. P) P"
  by (rule triple_keeps) (rule keeps_faultL)

lemma CreateFingerprintsL_triple:
  "triple (idle N W r) (CreateFingerprintsL env r) (\<lambda>_. stopped N W) (runs N W r)"
proof -
  let ?P = "\<lambda>s. idle N W r s \<and> aState (auth s r) = ECreatingFingerprints"
  have "triple ?P (changeL (SetActive r)) (\<lambda>_. stopped N W) (runs N W r)"
    by (rule triple_changeL) (use SetActive_stopped in \<open>auto simp: idle_def\<close>)
  moreover have "triple ?P (faultL (envEvaluatorErr env)) (\<lambda>_. ?P) (runs N W r)"
  proof (rule frame_leave)
    show "idle N W r s' \<and> aState (auth s' r) = ECreatingFingerprints"
      if "same_queues s s'" "idle N W r s \<and> aState (auth s r) = ECreatingFingerprints" for s s'
      using idle_same [OF that(1)] that by (auto simp: same_queues_def)
  qed (auto intro: srv simp: idle_def)
  ultimately show ?thesis
    unfolding CreateFingerprintsL_def
    by (intro triple_thenL [where Q = "\<lambda>_. ?P"]) (rule triple_changeL, auto simp: idle_def runs_state)
qed

lemma LookupPolicyL_triple: "triple (idle N W r) (LookupPolicyL env r) (\<lambda>_. stopped N W) (runs N W r)"
proof -
  have m: "triple (idle N W r) (MatchL env r) (\<lambda>_. idle N W r) (runs N W r)"
    by (rule frame_leave) (rule srv, erule (1) idle_same, simp add: idle_def)
  have p: "idle N W r (upd r (\<lambda>x. x\<lparr>aPolicy := Some p\<rparr>) s)" if "idle N W r s" for s p
    using that by (rule idle_same [rotated]) (rule same_updI, simp_all)
  show ?thesis
    unfolding LookupPolicyL_def
    by (rule triple_thenL [OF m], rule triple_thenL [where Q = "\<lambda>_. idle N W r"], rule triple_changeL, rule p, assumption,
        rule triple_if, rule CreateFingerprintsL_triple, rule triple_weaken [OF write_and_finish])
      (auto simp: idle_def)
qed

lemma looking_frame:
  "(\<And>s0. keeps (same_queues s0) m) \<Longrightarrow> triple (looking N W r) m (\<lambda>_. looking N W r) (runs N W r)"
  by (rule frame_leave, assumption, erule (1) looking_same, simp add: looking_def idle_def)

lemma LookupFingerprintsL_triple: "triple (idle N W r) (LookupFingerprintsL env r) (\<lambda>_. stopped N W) (runs N W r)"
proof -
  have start: "looking N W r (upd r (\<lambda>x. x\<lparr>aState := ECheckDatabase\<rparr>) s)" if "idle N W r s" for s
    using that runs_state by (auto simp: looking_def idle_def)
  have finish: "triple (looking N W r) (thenL (WriteDecisionL env r d) (\<lambda>_. changeL (CompleteAndMarkForDeletion r None)))
      (\<lambda>_. stopped N W) (runs N W r)" for d
    by (rule triple_weaken [OF write_and_finish]) (auto simp: looking_def idle_def)
  show ?thesis
    unfolding LookupFingerprintsL_def
    apply (rule triple_thenL [where Q = "\<lambda>_. looking N W r"])
     apply (rule triple_changeL, rule start, assumption)
    apply (rule triple_thenL [OF looking_frame], intro srv)
    apply (rule triple_thenL [OF looking_frame], intro srv)
    apply (rule triple_thenL [OF looking_frame], intro srv)
    subgoal for _ x flt found
    proof (cases "snd found")
      case None
      then show ?thesis using GateKeeperL_triple by (simp add: split_beta)
    next
      case (Some rec)
      let ?answer = "\<lambda>d forcePrompt. if forcePrompt then GateKeeperL env r
        else thenL (WriteDecisionL env r d) (\<lambda>_. changeL (CompleteAndMarkForDeletion r None))"
      let ?undisputed = "\<lambda>d. thenL (stored_decision env r (fst found) rec) (?answer d)"
      have 1: "triple (looking N W r) (?answer d b) (\<lambda>_. stopped N W) (runs N W r)" for d b
        by (rule triple_if, rule GateKeeperL_triple, rule finish)
      have 2: "triple (looking N W r) (?undisputed d) (\<lambda>_. stopped N W) (runs N W r)" for d
        by (rule triple_thenL [OF looking_frame 1]) (intro srv)
      have 3: "triple (looking N W r) (if b then GateKeeperL env r else ?undisputed d) (\<lambda>_. stopped N W) (runs N W r)" for b d
        by (rule triple_if, rule GateKeeperL_triple, rule 2)
      have 4: "triple (looking N W r) (thenL (getL g) (\<lambda>b. if b then GateKeeperL env r else ?undisputed d))
          (\<lambda>_. stopped N W) (runs N W r)" for g d
        by (rule triple_thenL [OF looking_frame 3]) (intro srv)
      have "triple (looking N W r) (thenL (changeL (upd r (\<lambda>x. x\<lparr>aDialogEvaluatorInfo := i\<rparr>)))
          (\<lambda>_. thenL (getL g) (\<lambda>b. if b then GateKeeperL env r else ?undisputed d))) (\<lambda>_. stopped N W) (runs N W r)" for i g d
        by (rule triple_thenL [OF looking_frame 4]) (intro srv same_updI, simp_all)
      then show ?thesis using Some by (simp add: split_beta)
    qed
    done
qed

lemma ProcessDialogResultL_triple:
  "triple (runs N W r) (ProcessDialogResultL env r) (\<lambda>_. stopped N W) (runs N W r)"
  unfolding ProcessDialogResultL_def
  by (intro triple_thenL [OF runs_frame] write_and_finish srv same_updI) simp_all

definition has_dialog :: "aid \<Rightarrow> CUpsServer \<Rightarrow> bool" where
  "has_dialog r s \<longleftrightarrow>
     (aState (auth s r) \<in> {EPreparingDialog, EExecutingDialog} \<longleftrightarrow> iCurrentDialog s = Some r)"

lemma ProcessEventL_triple:
  "triple (\<lambda>s. runs N W r s \<and> has_dialog r s) (ProcessEventL env EInternalRequestComplete r)
     (\<lambda>_. stopped N W) (runs N W r)"
  unfolding triple_def
proof (intro allI impI)
  fix s
  assume s: "runs N W r s \<and> has_dialog r s"
  have execute: "triple (\<lambda>s. runs N W r s \<and> iCurrentDialog s = Some r) (ExecuteDialogL r) (\<lambda>_. stopped N W) (runs N W r)"
    unfolding ExecuteDialogL_def
    by (rule triple_changeL, rule SetActive_stopped) (auto simp: runs_state)
  note branch = tripleD [OF LookupPolicyL_triple [of N W r env], of s]
    tripleD [OF LookupFingerprintsL_triple [of N W r env], of s] tripleD [OF execute, of s]
    tripleD [OF ProcessDialogResultL_triple [of N W r env], of s]
  show "case ProcessEventL env EInternalRequestComplete r s of (Inl e, s') \<Rightarrow> runs N W r s' | (Inr x, s') \<Rightarrow> stopped N W s'"
    using s branch
    by (cases "aState (auth s r)") (auto simp: ProcessEventL_def has_dialog_def idle_def split: prod.split sum.split)
qed

lemma plugin_results_same:
  "aState (plugin_results env x) = aState x" "aUserInput (plugin_results env x) = aUserInput x"
  "aPromptForced (plugin_results env x) = aPromptForced x" "aPolicy (plugin_results env x) = aPolicy x"
  "aPromptForcedRecordId (plugin_results env x) = aPromptForcedRecordId x"
  by (simp_all add: plugin_results_def split: TAuthoriserState.split)

lemma run_starts:
  assumes "steady s" and "enabled (Run env r) s"
  defines "t \<equiv> upd r (\<lambda>x. x\<lparr>aUserInput := False\<rparr>) (WakeupNextPendingL (upd r (\<lambda>x. (plugin_results env x)\<lparr>aActive := False\<rparr>) s))"
  shows "running r t \<and> has_dialog r t"
proof -
  let ?u = "upd r (\<lambda>x. (plugin_results env x)\<lparr>aActive := False\<rparr>) s" let ?w = "WakeupNextPendingL ?u"
  have r: "r \<in> set (iAsyncRequests s)" "aActive (auth s r)" "woken s \<noteq> {} \<longrightarrow> r \<in> woken s"
    using assms(2) by auto
  have s: "queue_ok {} s" "ready s" using assms(1) by (auto simp: steady_def)
  note d = queue_okD [OF s(1)]
  have nq: "r \<notin> queued s" using d(5) r(2) by blast
  have dialog: "iFlurryQueueBeingProcessed s = []" if "iCurrentDialog s = Some r"
  proof -
    have "aState (auth s r) \<in> {EPreparingDialog, EExecutingDialog}" using d(8) [of r] r(1) that by blast
    then have "r \<notin> woken s" using d(10) [of r] by (auto simp: woken_def)
    then show ?thesis using r(3) s(2) by (auto simp: ready_def)
  qed
  have q: "queued ?u = queued s" by (simp add: queued_def)
  have u: "queue_ok {r} ?u"
  proof (rule queue_okI)
    fix b
    show "aState (auth ?u b) \<in> {EPreparingDialog, EExecutingDialog} \<longleftrightarrow> iCurrentDialog ?u = Some b"
      if "b \<in> set (iAsyncRequests ?u)" "b \<notin> {r}"
      using that d(8) [of b] by auto
    show "aActive (auth ?u b) \<and> aState (auth ?u b) = ECheckDatabase"
      if "b \<in> set (iAsyncRequests ?u)" "b \<notin> {r}" "aUserInput (auth ?u b)"
      using that d(10) [of b] by auto
  qed (use d q nq in \<open>auto split: if_splits\<close>)
  have w: "queue_ok {r} ?w \<and> ready ?w \<and> queued ?w \<subseteq> queued s \<and> auth ?w r = auth ?u r"
    using WakeupNextPendingL_queues [OF u] nq by (simp add: q)
  have qt: "queued t = queued ?w" by (simp add: t_def queued_def)
  have "queue_ok {r} t"
    unfolding t_def by (rule queue_ok_state) (use w nq in auto)
  moreover have "woken t = woken ?w" using w by (auto simp: woken_def t_def)
  then have "ready t" using w by (simp add: ready_def t_def)
  ultimately have "running r t"
    using w nq r dialog by (auto simp: running_def qt) (auto simp: t_def)
  moreover have "has_dialog r t"
    using d(8) [of r] r(1) w by (simp add: has_dialog_def t_def plugin_results_same)
  ultimately show ?thesis by blast
qed

lemma run_request_stopped:
  assumes "running r t \<and> has_dialog r t" and "length (iAsyncRequests t) = N" and "work t \<le> W"
    and "t = upd r (\<lambda>x. x\<lparr>aUserInput := False\<rparr>) (WakeupNextPendingL (upd r (\<lambda>x. (plugin_results env x)\<lparr>aActive := False\<rparr>) s))"
  shows "stopped N W (run_request env r s)"
proof -
  let ?u = "upd r (\<lambda>x. (plugin_results env x)\<lparr>aActive := False\<rparr>) s"
  let ?m = "thenL (faultL (envStatus env)) (\<lambda>_. ProcessEventL env EInternalRequestComplete r)"
  have run: "RunL env r ?u = ?m t"
    by (simp add: RunL_def thenL_def changeL_def assms(4))
  have "triple (\<lambda>s. runs N W r s \<and> has_dialog r s) (faultL (envStatus env)) (\<lambda>_ s. runs N W r s \<and> has_dialog r s) (runs N W r)"
  proof (rule frame_leave)
    show "runs N W r s' \<and> has_dialog r s'" if "same_queues s s'" "runs N W r s \<and> has_dialog r s" for s s'
      using runs_same [OF that(1)] that by (auto simp: has_dialog_def same_queues_def)
  qed (auto intro: srv)
  then have "triple (\<lambda>s. runs N W r s \<and> has_dialog r s) ?m (\<lambda>_. stopped N W) (runs N W r)"
    by (rule triple_thenL) (rule ProcessEventL_triple)
  then have "case ?m t of (Inl e, s') \<Rightarrow> runs N W r s' | (Inr x, s') \<Rightarrow> stopped N W s'"
    using assms by (auto simp: triple_def runs_def)
  moreover have "stopped N W (CompleteAndMarkForDeletion r e s')" if "runs N W r s'" for e s'
    using running_stops [of r s' W e] that by (auto simp: runs_def)
  ultimately show ?thesis
    by (auto simp: run_request_def run split: prod.splits sum.splits)
qed

lemma run_request_steady:
  assumes "steady s" and "enabled (Run env r) s"
  shows "steady (run_request env r s)"
  using run_request_stopped [OF run_starts [OF assms] refl order_refl refl] by (simp add: stopped_def)

lemma steady_same: "same_queues s s' \<Longrightarrow> steady s \<Longrightarrow> steady s'"
  by (simp add: steady_def queue_ok_same ready_same)

lemma new_request_steady:
  assumes "steady t"
  shows "steady (Wakeup (nextRequest t) (t\<lparr>nextRequest := nextRequest t + 1,
      iAsyncRequests := iAsyncRequests t @ [nextRequest t],
      auth := (auth t)(nextRequest t := new_authoriser session subsession c request)\<rparr>))" (is "steady (Wakeup ?a ?t)")
proof -
  have t: "queue_ok {} t" "ready t" using assms by (auto simp: steady_def)
  note d = queue_okD [OF t(1)]
  have a: "?a \<notin> set (iAsyncRequests t)" using d(2) by blast
  then have aq: "?a \<notin> queued t" "iCurrentDialog t \<noteq> Some ?a" using d(4,9) by blast+
  have q: "queued ?t = queued t" by (simp add: queued_def)
  have "queue_ok {?a} ?t"
  proof (rule queue_okI)
    fix b
    show "b < nextRequest ?t" if "b \<in> set (iAsyncRequests ?t)" using that d(2) [of b] by auto
    show "aState (auth ?t b) \<in> {EPreparingDialog, EExecutingDialog} \<longleftrightarrow> iCurrentDialog ?t = Some b"
      if "b \<in> set (iAsyncRequests ?t)" "b \<notin> {?a}"
      using that d(8) [of b] by auto
  qed (use d q a aq in \<open>auto split: if_splits\<close>)
  moreover have "woken t \<subseteq> woken ?t" using a by (auto simp: woken_def)
  then have "ready ?t" using t(2) by (auto simp: ready_def)
  ultimately have "running ?a ?t"
    using aq q by (simp add: running_def new_authoriser_def)
  then have "steady (SetActive ?a ?t)"
    by (rule SetActive_steady) (use aq in \<open>simp add: new_authoriser_def\<close>)
  then show ?thesis by (simp add: Wakeup_def CompleteSelf_def SetActive_def new_authoriser_def)
qed

lemma steady_frame:
  "(\<And>s0. keeps (same_queues s0) m) \<Longrightarrow> triple steady m (\<lambda>_. steady) steady"
  by (rule frame_triple) (auto intro: steady_same)

lemma ExecutePromptL_steady:
  assumes "steady s"
  shows "steady (snd (ExecutePromptL openErr newErr session subsession request s))"
proof -
  have "triple steady (AddAsyncRequestL session subsession request) (\<lambda>_. steady) steady"
    using new_request_steady by (simp add: triple_def AddAsyncRequestL_def Let_def)
  then have "triple steady (ExecutePromptL openErr newErr session subsession request) (\<lambda>_. steady) steady"
    unfolding ExecutePromptL_def
    by (intro triple_thenL [OF steady_frame] srv) (simp_all add: same_queues_def)
  then show ?thesis using assms by (rule triple_snd)
qed

lemma DoServiceL_steady:
  assumes "steady s"
  shows "steady (snd (DoServiceL env f s))"
proof -
  have "keeps (same_queues s) (DoServiceL env f)"
    unfolding DoServiceL_def
    by (cases f) (auto intro!: srv simp: same_queues_def)
  then have "same_queues s (snd (DoServiceL env f s))" by (simp add: keeps_def)
  then show ?thesis using assms steady_same by blast
qed

lemma server_step_steady: "steady s \<Longrightarrow> enabled e s \<Longrightarrow> steady (server_step e s)"
  by (cases e) (simp_all add: run_request_steady ExecutePromptL_steady DoServiceL_steady CancelAsyncRequest_steady
      CancelOutstandingRequests_steady del: enabled.simps(1))

lemma started_steady: "started s \<Longrightarrow> steady s"
  by (simp add: started_def steady_def queue_ok_def queued_def ready_def)

lemma reachable_steady: "server_reachable s \<Longrightarrow> steady s"
  by (induction rule: server_reachable.induct) (auto simp: started_steady server_step_steady)

subsection \<open>The work of a round ends\<close>

lemma woken_run:
  assumes "steady s" and "enabled (Run env r) s" and "r \<in> woken s"
  defines "t \<equiv> upd r (\<lambda>x. x\<lparr>aUserInput := False\<rparr>) (WakeupNextPendingL (upd r (\<lambda>x. (plugin_results env x)\<lparr>aActive := False\<rparr>) s))"
  shows "length (iAsyncRequests t) = length (iAsyncRequests s) \<and> work t < work s"
proof -
  let ?u = "upd r (\<lambda>x. (plugin_results env x)\<lparr>aActive := False\<rparr>) s" let ?w = "WakeupNextPendingL ?u"
  have fin: "finite (woken s)" by (simp add: woken_def)
  have s: "queue_ok {} s" using assms(1) by (simp add: steady_def)
  have nq: "r \<notin> queued s" using queue_okD(5) [OF s] assms(3) by (auto simp: woken_def)
  have u: "woken ?u = woken s - {r}" by (auto simp: woken_def plugin_results_same)
  show ?thesis
  proof (cases "iFlurryQueueBeingProcessed s")
    case Nil
    then have "?w = ?u" by (simp add: WakeupNextPendingL_def)
    then have "woken t = woken s - {r}" using u by (auto simp: t_def woken_def)
    moreover have "card (woken s - {r}) < card (woken s)" using fin assms(3) by (rule card_Diff1_less)
    ultimately show ?thesis using Nil by (simp add: work_def t_def)
  next
    case (Cons b q)
    then have "b \<noteq> r" using nq by (auto simp: queued_def)
    have "woken t \<subseteq> insert b (woken s - {r})"
      using Cons \<open>b \<noteq> r\<close>
      by (auto simp: t_def WakeupNextPendingL_def Wakeup_def SetActive_def CompleteSelf_def woken_def
          plugin_results_same split: TAuthoriserState.splits if_splits)
    then have "card (woken t) \<le> card (insert b (woken s - {r}))" using fin by (intro card_mono) auto
    also have "\<dots> \<le> Suc (card (woken s - {r}))" by (rule card_insert_le_m1) (auto simp: fin)
    also have "\<dots> = card (woken s)" using fin assms(3) by (rule card_Suc_Diff1)
    finally show ?thesis using Cons by (simp add: work_def t_def)
  qed
qed

text \<open>Requests that \<open>WakeupNextPendingL\<close> woke, run one after the other.\<close>

inductive woken_runs :: "aid list \<Rightarrow> CUpsServer \<Rightarrow> CUpsServer \<Rightarrow> bool" where
  none: "woken_runs [] s s"
| run: "woken_runs rs s t \<Longrightarrow> r \<in> woken t \<Longrightarrow> enabled (Run env r) t \<Longrightarrow>
    woken_runs (rs @ [r]) s (run_request env r t)"

definition rank :: "CUpsServer \<Rightarrow> nat" where
  "rank s = length (iAsyncRequests s) * (length (iAsyncRequests s) + 1) + work s"

lemma work_le:
  assumes "steady s"
  shows "work s \<le> length (iAsyncRequests s)"
proof -
  have s: "queue_ok {} s" using assms by (simp add: steady_def)
  note d = queue_okD [OF s]
  have "distinct (iFlurryQueueBeingProcessed s)" using d(3) by simp
  then have "work s = card (woken s) + card (set (iFlurryQueueBeingProcessed s))"
    by (simp add: work_def distinct_card)
  also have "\<dots> = card (woken s \<union> set (iFlurryQueueBeingProcessed s))"
    by (rule card_Un_disjoint [symmetric]) (use d(5) in \<open>auto simp: woken_def queued_def\<close>)
  also have "\<dots> \<le> card (set (iAsyncRequests s))"
    by (rule card_mono) (use d(4) in \<open>auto simp: woken_def queued_def\<close>)
  also have "\<dots> = length (iAsyncRequests s)" using d(1) by (rule distinct_card)
  finally show ?thesis .
qed

lemma rank_less:
  assumes "stopped N W t" and "N = length (iAsyncRequests s)" and "W < work s"
  shows "rank t < rank s"
proof (cases "length (iAsyncRequests t) < N")
  case True
  let ?n = "length (iAsyncRequests t)"
  have "rank t \<le> ?n * (?n + 1) + ?n" using work_le assms(1) by (auto simp: rank_def stopped_def)
  also have "\<dots> < (?n + 1) * (?n + 2)" by (simp add: algebra_simps)
  also have "\<dots> \<le> N * (N + 1)" using True by (intro mult_le_mono) auto
  finally show ?thesis using assms(2) by (simp add: rank_def)
next
  case False
  then show ?thesis using assms by (auto simp: rank_def stopped_def)
qed

lemma woken_run_rank:
  assumes "steady s" and "enabled (Run env r) s" and "r \<in> woken s"
  shows "rank (run_request env r s) < rank s"
  using rank_less [OF run_request_stopped [OF run_starts [OF assms(1,2)] _ order_refl refl] refl] woken_run [OF assms]
  by blast

lemma woken_runs_rank: "woken_runs rs s t \<Longrightarrow> steady s \<Longrightarrow> steady t \<and> rank t + length rs \<le> rank s"
proof (induction rule: woken_runs.induct)
  case (none s)
  then show ?case by simp
next
  case (run rs s t r env)
  then show ?case using woken_run_rank [of t env r] run_request_steady [of t env r] by auto
qed

end
