(* ===== verification/UpsServerDecisions.thy ===== *)
theory UpsServerDecisions
  imports UpsServerLaws
begin

section \<open>Disputed records of the user prompt server\<close>

text \<open>
  \<open>dispute_ok\<close>: the disputed records are those of the requests that force a prompt, and no two
  requests force one for the same record.  Every event of the server keeps it.
\<close>

subsection \<open>Disputed records\<close>

definition owners :: "CUpsServer \<Rightarrow> aid set" where
  "owners s = {a \<in> set (iAsyncRequests s). aPromptForced (auth s a)}"

definition forced_id :: "CUpsServer \<Rightarrow> aid \<Rightarrow> tuint" where
  "forced_id s a = aPromptForcedRecordId (auth s a)"

definition dispute_ok :: "CUpsServer \<Rightarrow> bool" where
  "dispute_ok s \<longleftrightarrow> sorted (iDisputed s) \<and> distinct (iDisputed s) \<and> inj_on (forced_id s) (owners s) \<and>
     set (iDisputed s) = forced_id s ` owners s"

definition same_disputes :: "CUpsServer \<Rightarrow> CUpsServer \<Rightarrow> bool" where
  "same_disputes s s' \<longleftrightarrow> iDisputed s' = iDisputed s \<and> owners s' = owners s \<and>
     (\<forall>a \<in> owners s. forced_id s' a = forced_id s a)"

lemma dispute_ok_same: "same_disputes s s' \<Longrightarrow> dispute_ok s \<Longrightarrow> dispute_ok s'"
  unfolding dispute_ok_def same_disputes_def by (metis (no_types, lifting) image_cong inj_on_cong)

lemma same_disputes_refl [simp]: "same_disputes s s"
  by (simp add: same_disputes_def)

lemma same_disputes_trans: "same_disputes s t \<Longrightarrow> same_disputes t u \<Longrightarrow> same_disputes s u"
  by (simp add: same_disputes_def)

text \<open>The weaker relation that most functions keep: nothing of the disputes is touched.\<close>

definition same_forced :: "CUpsServer \<Rightarrow> CUpsServer \<Rightarrow> bool" where
  "same_forced s s' \<longleftrightarrow> iDisputed s' = iDisputed s \<and> iAsyncRequests s' = iAsyncRequests s \<and>
     (\<forall>a. aPromptForced (auth s' a) = aPromptForced (auth s a) \<and>
          aPromptForcedRecordId (auth s' a) = aPromptForcedRecordId (auth s a))"

lemma same_forced_disputes: "same_forced s s' \<Longrightarrow> same_disputes s s'"
  by (simp add: same_forced_def same_disputes_def owners_def forced_id_def)

lemma same_forced_refl [simp]: "same_forced s s"
  by (simp add: same_forced_def)

lemma same_forced_trans: "same_forced s t \<Longrightarrow> same_forced t u \<Longrightarrow> same_forced s u"
  by (simp add: same_forced_def)

lemma dispute_ok_forced: "same_forced s s' \<Longrightarrow> dispute_ok s \<Longrightarrow> dispute_ok s'"
  using same_forced_disputes dispute_ok_same by blast

lemma set_InsertInOrder_new: "a \<notin> set xs \<Longrightarrow> distinct xs \<Longrightarrow> distinct (InsertInOrder a xs)"
  by (induction xs) (auto simp: set_InsertInOrder)

lemma undispute_ok:
  assumes "dispute_ok s" and "a \<in> set (iAsyncRequests s)"
  shows "dispute_ok (undispute a s)"
proof (cases "aPromptForced (auth s a)")
  case False
  then show ?thesis using assms by (simp add: undispute_def)
next
  case True
  let ?i = "forced_id s a" let ?t = "undispute a s"
  have a: "a \<in> owners s" using True assms(2) by (simp add: owners_def)
  have s: "inj_on (forced_id s) (owners s)" "set (iDisputed s) = forced_id s ` owners s" "distinct (iDisputed s)"
      "sorted (iDisputed s)"
    using assms(1) by (auto simp: dispute_ok_def)
  have i: "?i \<in> set (iDisputed s)" using a s(2) by blast
  have o: "owners ?t = owners s - {a}"
    using True i by (auto simp: undispute_def UnDisputeRecordIdL_def owners_def forced_id_def)
  have d: "iDisputed ?t = remove1 ?i (iDisputed s)"
    using True i by (simp add: undispute_def UnDisputeRecordIdL_def forced_id_def)
  have f: "forced_id ?t b = forced_id s b" for b
    using True i by (simp add: undispute_def UnDisputeRecordIdL_def forced_id_def)
  have "forced_id s ` (owners s - {a}) = set (iDisputed s) - {?i}"
    using inj_on_image_set_diff [OF s(1), of "owners s" "{a}"] a s(2) by auto
  then show ?thesis
    using s by (simp add: dispute_ok_def o d f [abs_def] sorted_remove1 inj_on_diff)
qed

text \<open>
  What holds when a running request leaves: either all is well, or it has just forced a prompt for a
  record that is not in the list.  The clean up makes both well.
\<close>

definition disputing :: "aid \<Rightarrow> CUpsServer \<Rightarrow> bool" where
  "disputing r s \<longleftrightarrow> r \<in> set (iAsyncRequests s) \<and> dispute_ok s"

definition aborting :: "aid \<Rightarrow> CUpsServer \<Rightarrow> bool" where
  "aborting r s \<longleftrightarrow> r \<in> set (iAsyncRequests s) \<and> dispute_ok (undispute r s)"

lemma disputing_aborting: "disputing r s \<Longrightarrow> aborting r s"
  by (simp add: disputing_def aborting_def undispute_ok)

lemma WakeupNextPendingL_same_forced [simp]: "same_forced s (WakeupNextPendingL s)"
  by (simp add: same_forced_def)

lemma Cancel_same_forced: "same_forced s (Cancel a s)"
  by (auto simp: Cancel_def DoCancel_def same_forced_def)

lemma AuthoriserDoneL_same_forced: "same_forced s (AuthoriserDoneL a s)"
  by (auto simp: AuthoriserDoneL_def Let_def same_forced_def)

lemma undispute_requests [simp]: "iAsyncRequests (undispute a s) = iAsyncRequests s"
  by (simp add: undispute_def UnDisputeRecordIdL_def)

lemma undispute_forced [simp]: "\<not> aPromptForced (auth (undispute a s) a)"
  by (simp add: undispute_def)

lemma MarkForDeletion_disputes: "same_disputes (undispute a s) (MarkForDeletion a s)"
proof -
  let ?u = "undispute a s" let ?c = "AuthoriserDoneL a (Cancel a ?u)"
  have "same_forced ?u ?c"
    using Cancel_same_forced AuthoriserDoneL_same_forced same_forced_trans by blast
  then show ?thesis
    by (auto simp: MarkForDeletion_def DoCleanup_def Let_def same_forced_def same_disputes_def owners_def forced_id_def
        dest: notin_set_remove1) (metis in_set_remove1 undispute_forced)+
qed

lemma CompleteAndMarkForDeletion_disputes:
  assumes "aborting r s"
  shows "dispute_ok (CompleteAndMarkForDeletion r e s)"
proof -
  let ?s = "s\<lparr>completed := (r, e) # completed s\<rparr>"
  have "same_forced (undispute r s) (undispute r ?s)"
    by (simp add: same_forced_def undispute_def UnDisputeRecordIdL_def)
  then have "dispute_ok (undispute r ?s)"
    using assms dispute_ok_forced by (simp add: aborting_def)
  then show ?thesis
    using dispute_ok_same [OF MarkForDeletion_disputes [of r ?s]] by (simp add: CompleteAndMarkForDeletion_def)
qed

lemma forced_frame:
  assumes "\<And>s0. keeps (same_forced s0) m" and "\<And>s s'. same_forced s s' \<Longrightarrow> P s \<Longrightarrow> P s'" and "\<And>s. P s \<Longrightarrow> E s"
  shows "triple P m (\<lambda>_. P) E"
proof (rule triple_weaken [OF triple_keeps [of P]])
  show "keeps P m"
    unfolding keeps_def
  proof (intro allI impI)
    fix s
    assume "P s"
    moreover have "same_forced s (snd (m s))" using assms(1) [of s] by (simp add: keeps_def)
    ultimately show "P (snd (m s))" using assms(2) by blast
  qed
qed (auto intro: assms(3))

lemma disputing_forced: "same_forced s s' \<Longrightarrow> disputing r s \<Longrightarrow> disputing r s'"
  using dispute_ok_forced by (simp add: disputing_def) (simp add: same_forced_def)

lemma disputing_frame:
  "(\<And>s0. keeps (same_forced s0) m) \<Longrightarrow> triple (disputing r) m (\<lambda>_. disputing r) (aborting r)"
  by (rule forced_frame, assumption, erule (1) disputing_forced, erule disputing_aborting)

lemma forced_updI:
  assumes "\<And>x. aPromptForced (g x) = aPromptForced x \<and> aPromptForcedRecordId (g x) = aPromptForcedRecordId x"
  shows "same_forced s0 s \<Longrightarrow> same_forced s0 (upd a g s)"
  using assms by (auto simp: same_forced_def)

lemma SetActive_forced: "same_forced s0 s \<Longrightarrow> same_forced s0 (SetActive a s)"
  by (auto simp: SetActive_def same_forced_def)

lemma HandleDbErrorL_forced [srv]: "keeps (same_forced s0) (HandleDbErrorL env e)"
  by (auto simp: keeps_def HandleDbErrorL_def same_forced_def split: option.split)

lemma handleL_forced [srv]: "keeps (same_forced s0) (handleL env err)"
  unfolding handleL_def by (intro srv)

lemma db_forced [srv]:
  "keeps (same_forced s0) (UpdateDbL env flt record)" "keeps (same_forced s0) (RemoveDbL env flt)"
  "keeps (same_forced s0) (CreateDbL env record)" "keeps (same_forced s0) (MatchL env a)"
  by (auto simp: keeps_def UpdateDbL_def RemoveDbL_def CreateDbL_def MatchL_def Let_def same_forced_def
      split: prod.split)

lemma find_record_forced [srv]: "keeps (same_forced s0) (find_record env i flt fps)"
proof (induction fps arbitrary: i flt)
  case Nil
  then show ?case by (simp add: keeps_def)
next
  case (Cons fp fps)
  have "keeps (same_forced s0) (thenL (HandleDbErrorL env e) (\<lambda>_. find_record env (Suc i) flt fps))" for e flt
    by (intro srv Cons.IH)
  then show ?case
    using Cons.IH by (auto simp: keeps_def split: sum.split option.split)
qed

lemma WriteDecisionL_forced [srv]: "keeps (same_forced s0) (WriteDecisionL env a d)"
  unfolding WriteDecisionL_def by (intro srv) (simp add: same_forced_def)

lemma store_decision_forced [srv]: "keeps (same_forced s0) (store_decision env x)"
  unfolding store_decision_def by (intro srv) (simp_all add: same_forced_def)

lemma PrepareDialogL_forced [srv]: "keeps (same_forced s0) (PrepareDialogL env a)"
  unfolding PrepareDialogL_def by (intro srv forced_updI SetActive_forced) simp_all

lemma CreateFingerprintsL_forced [srv]: "keeps (same_forced s0) (CreateFingerprintsL env a)"
  unfolding CreateFingerprintsL_def by (intro srv forced_updI SetActive_forced) simp_all

lemma ExecuteDialogL_forced [srv]: "keeps (same_forced s0) (ExecuteDialogL a)"
  unfolding ExecuteDialogL_def by (intro srv forced_updI SetActive_forced) simp_all

lemma GateKeeperL_forced [srv]: "keeps (same_forced s0) (GateKeeperL env a)"
  unfolding keeps_def
proof (intro allI impI)
  fix s
  assume s: "same_forced s0 s"
  then have "same_forced s0 (s\<lparr>iCurrentDialog := Some a\<rparr>)" by (simp add: same_forced_def)
  then have "same_forced s0 (snd (PrepareDialogL env a (s\<lparr>iCurrentDialog := Some a\<rparr>)))"
    using PrepareDialogL_forced by (simp add: keeps_def)
  then show "same_forced s0 (snd (GateKeeperL env a s))"
    using s by (auto simp: GateKeeperL_def ClearedToDisplayL_def same_forced_def split: option.split)
qed

lemma disputes_finish: "triple (disputing r) (changeL (CompleteAndMarkForDeletion r e)) (\<lambda>_. dispute_ok) E"
  by (rule triple_changeL) (rule CompleteAndMarkForDeletion_disputes, rule disputing_aborting)

lemma disputes_GateKeeperL: "triple (disputing r) (GateKeeperL env r) (\<lambda>_. dispute_ok) (aborting r)"
  by (rule triple_weaken [OF disputing_frame [OF GateKeeperL_forced]]) (auto simp: disputing_def)

subsection \<open>Forcing a prompt\<close>

text \<open>The record \<open>i\<close> is not disputed and the request does not force a prompt.\<close>

definition forcing :: "tuint \<Rightarrow> aid \<Rightarrow> CUpsServer \<Rightarrow> bool" where
  "forcing i r s \<longleftrightarrow> disputing r s \<and> i \<notin> set (iDisputed s) \<and> \<not> aPromptForced (auth s r)"

lemma forget_forced_triple:
  "triple (\<lambda>s. disputing r s \<and> rRecordId record \<notin> set (iDisputed s)) (forget_forced r record)
     (\<lambda>_. forcing (rRecordId record) r) (aborting r)"
  unfolding triple_def
proof (intro allI impI)
  fix s
  assume s: "disputing r s \<and> rRecordId record \<notin> set (iDisputed s)"
  show "case forget_forced r record s of (Inl e, s') \<Rightarrow> aborting r s' | (Inr x, s') \<Rightarrow> forcing (rRecordId record) r s'"
  proof (cases "aPromptForced (auth s r)")
    case False
    then show ?thesis using s by (simp add: forget_forced_def forcing_def)
  next
    case True
    then have o: "aPromptForcedRecordId (auth s r) \<in> set (iDisputed s)"
      using s by (auto simp: disputing_def dispute_ok_def owners_def forced_id_def)
    then have ne: "rRecordId record \<noteq> aPromptForcedRecordId (auth s r)" using s by metis
    have eq: "forget_forced r record s = (Ok (), undispute r s)"
      using True o ne by (simp add: forget_forced_def undispute_def UnDisputeRecordIdL_def Let_def upd_def)
    have "disputing r (undispute r s)"
      using s undispute_ok [of s r] by (simp add: disputing_def)
    moreover have "set (iDisputed (undispute r s)) \<subseteq> set (iDisputed s)"
      by (auto simp: undispute_def UnDisputeRecordIdL_def dest: subsetD [OF set_remove1_subset])
    then have "rRecordId record \<notin> set (iDisputed (undispute r s))" using s by blast
    ultimately show ?thesis using eq by (simp add: forcing_def)
  qed
qed

lemma force_prompt_triple:
  "triple (forcing (rRecordId record) r) (force_prompt env r record) (\<lambda>_. disputing r) (aborting r)"
  unfolding triple_def
proof (intro allI impI)
  fix s
  let ?i = "rRecordId record"
  assume "forcing ?i r s"
  then have s: "r \<in> set (iAsyncRequests s)" "dispute_ok s" "?i \<notin> set (iDisputed s)" "\<not> aPromptForced (auth s r)"
    by (auto simp: forcing_def disputing_def)
  let ?u = "upd r (\<lambda>x. x\<lparr>aPromptForced := True, aPromptForcedRecordId := ?i\<rparr>) s"
  let ?t = "?u\<lparr>iDisputed := InsertInOrder ?i (iDisputed s)\<rparr>"
  have d: "inj_on (forced_id s) (owners s)" "set (iDisputed s) = forced_id s ` owners s" "distinct (iDisputed s)"
      "sorted (iDisputed s)"
    using s(2) by (auto simp: dispute_ok_def)
  have o: "owners ?t = insert r (owners s)" "r \<notin> owners s"
    using s by (auto simp: owners_def)
  have f: "forced_id ?t b = (if b = r then ?i else forced_id s b)" for b
    by (simp add: forced_id_def)
  have e: "forced_id ?t b = forced_id s b" if "b \<in> owners s" for b using that o(2) f [of b] by metis
  have "inj_on (forced_id ?t) (owners s) \<longleftrightarrow> inj_on (forced_id s) (owners s)"
    by (rule inj_on_cong) (rule e)
  then have "inj_on (forced_id ?t) (owners s)" using d(1) by blast
  moreover have im: "forced_id ?t ` owners s = set (iDisputed s)"
    unfolding d(2) by (rule image_cong [OF refl]) (rule e)
  ultimately have inj: "inj_on (forced_id ?t) (insert r (owners s))"
    using s(3) o(2) by (simp add: inj_on_insert f)
  have img: "forced_id ?t ` insert r (owners s) = insert ?i (set (iDisputed s))"
    by (simp only: image_insert im) (simp add: forced_id_def)
  have dt: "iDisputed ?t = InsertInOrder ?i (iDisputed s)" by simp
  have ok: "dispute_ok ?t"
    unfolding dispute_ok_def o(1) dt img
    using inj s(3) d(3,4) sorted_InsertInOrder [of "iDisputed s" ?i]
    by (simp only: set_InsertInOrder strict_sorted_iff simp_thms)
  have "same_forced s (undispute r ?u) \<or> same_disputes s (undispute r ?u)"
    using s by (auto simp: undispute_def UnDisputeRecordIdL_def same_disputes_def owners_def forced_id_def)
  then have "dispute_ok (undispute r ?u)"
    using s(2) dispute_ok_same dispute_ok_forced by blast
  moreover have "set (iAsyncRequests ?u) = set (iAsyncRequests s)" by simp
  ultimately show "case force_prompt env r record s of (Inl e, s') \<Rightarrow> aborting r s' | (Inr x, s') \<Rightarrow> disputing r s'"
    using ok s by (simp add: force_prompt_def thenL_def changeL_def DisputeRecordIdL_def aborting_def disputing_def
        split: option.split)
qed

lemma stored_decision_triple:
  "triple (\<lambda>s. disputing r s \<and> rRecordId record \<notin> set (iDisputed s)) (stored_decision env r flt record)
     (\<lambda>_. disputing r) (aborting r)"
proof -
  have lift: "triple (forcing (rRecordId record) r) (liftL v) (\<lambda>_. forcing (rRecordId record) r) (aborting r)" for v :: "'b result"
    by (rule triple_weaken [OF triple_keeps [where P = "forcing (rRecordId record) r", OF keeps_simple(4)]])
      (auto simp: forcing_def disputing_aborting)
  have force: "triple (forcing (rRecordId record) r) (if b then force_prompt env r record else returnL ()) (\<lambda>_. disputing r) (aborting r)" for b
    by (rule triple_if, rule force_prompt_triple, rule triple_returnL) (simp add: forcing_def)
  have rest: "triple (disputing r) (thenL (if info \<noteq> i then
              thenL (changeL (upd r (\<lambda>x. x\<lparr>aDialogEvaluatorInfo := info\<rparr>))) (\<lambda>_.
              if b then returnL () else thenL (UpdateDbL env flt record') (handleL env))
            else returnL ()) (\<lambda>_. returnL b)) (\<lambda>_. disputing r) (aborting r)" for info i b record'
    by (rule disputing_frame, intro srv forced_updI) simp_all
  have after: "triple (forcing (rRecordId record) r) (thenL (if b then force_prompt env r record else returnL ())
      (\<lambda>_. thenL (if info \<noteq> i then
              thenL (changeL (upd r (\<lambda>x. x\<lparr>aDialogEvaluatorInfo := info\<rparr>))) (\<lambda>_.
              if b then returnL () else thenL (UpdateDbL env flt record') (handleL env))
            else returnL ()) (\<lambda>_. returnL b))) (\<lambda>_. disputing r) (aborting r)" for info i b record'
    by (rule triple_thenL [OF force rest])
  show ?thesis
    unfolding stored_decision_def
    by (rule triple_thenL [OF forget_forced_triple], rule triple_thenL [OF lift])
      (simp only: split_beta after)
qed

lemma triple_getL_fact:
  "(\<And>x. triple (\<lambda>s. P s \<and> x = g s) (f x) Q E) \<Longrightarrow> triple P (thenL (getL g) f) Q E"
  by (rule triple_thenL [OF triple_getL])

lemma disputes_LookupFingerprintsL:
  "triple (disputing r) (LookupFingerprintsL env r) (\<lambda>_. dispute_ok) (aborting r)"
proof -
  let ?answer = "\<lambda>d forcePrompt. if forcePrompt then GateKeeperL env r
    else thenL (WriteDecisionL env r d) (\<lambda>_. changeL (CompleteAndMarkForDeletion r None))"
  let ?undisputed = "\<lambda>flt rc d. thenL (stored_decision env r flt rc) (?answer d)"
  have finish: "triple (disputing r) (thenL (WriteDecisionL env r d) (\<lambda>_. changeL (CompleteAndMarkForDeletion r None)))
      (\<lambda>_. dispute_ok) (aborting r)" for d
    by (rule triple_thenL [OF disputing_frame disputes_finish]) (intro srv)
  have 1: "triple (disputing r) (?answer d b) (\<lambda>_. dispute_ok) (aborting r)" for d b
    by (rule triple_if, rule disputes_GateKeeperL, rule finish)
  have 2: "triple (\<lambda>s. disputing r s \<and> rRecordId rc \<notin> set (iDisputed s)) (?undisputed flt rc d)
      (\<lambda>_. dispute_ok) (aborting r)" for flt rc d
    by (rule triple_thenL [OF stored_decision_triple 1])
  have 3: "triple (\<lambda>s. disputing r s \<and> b = IsRecordIdDisputed (rRecordId rc) s)
      (if b then GateKeeperL env r else ?undisputed flt rc d) (\<lambda>_. dispute_ok) (aborting r)" for b flt rc d
    by (rule triple_if, rule triple_weaken [OF disputes_GateKeeperL], simp_all,
        rule triple_weaken [OF 2], auto simp: IsRecordIdDisputed_def)
  have 4: "triple (disputing r) (thenL (getL (IsRecordIdDisputed (rRecordId rc)))
      (\<lambda>b. if b then GateKeeperL env r else ?undisputed flt rc d)) (\<lambda>_. dispute_ok) (aborting r)" for flt rc d
    by (rule triple_getL_fact) (rule 3)
  have 5: "triple (disputing r) (thenL (changeL (upd r (\<lambda>x. x\<lparr>aDialogEvaluatorInfo := i\<rparr>)))
      (\<lambda>_. thenL (getL (IsRecordIdDisputed (rRecordId rc)))
      (\<lambda>b. if b then GateKeeperL env r else ?undisputed flt rc d))) (\<lambda>_. dispute_ok) (aborting r)" for i flt rc d
    by (rule triple_thenL [OF disputing_frame 4]) (intro srv forced_updI, simp_all)
  have 6: "triple (disputing r) (case found of None \<Rightarrow> GateKeeperL env r
      | Some rc \<Rightarrow> thenL (changeL (upd r (\<lambda>x. x\<lparr>aDialogEvaluatorInfo := rEvaluatorInfo rc\<rparr>)))
      (\<lambda>_. thenL (getL (IsRecordIdDisputed (rRecordId rc)))
      (\<lambda>b. if b then GateKeeperL env r else ?undisputed flt rc (d rc)))) (\<lambda>_. dispute_ok) (aborting r)" for found flt d
    by (rule triple_option, rule disputes_GateKeeperL, rule 5)
  show ?thesis
    unfolding LookupFingerprintsL_def
    apply (rule triple_thenL [where Q = "\<lambda>_. disputing r"])
     apply (rule disputing_frame, intro srv forced_updI, simp_all)[1]
    apply (rule triple_thenL [OF disputing_frame], intro srv)
    apply (rule triple_thenL [OF disputing_frame], intro srv)
    apply (rule triple_thenL [OF disputing_frame], intro srv)
    apply (simp only: split_beta 6)
    done
qed

lemma disputes_LookupPolicyL: "triple (disputing r) (LookupPolicyL env r) (\<lambda>_. dispute_ok) (aborting r)"
proof -
  have finish: "triple (disputing r) (thenL (WriteDecisionL env r d) (\<lambda>_. changeL (CompleteAndMarkForDeletion r None)))
      (\<lambda>_. dispute_ok) (aborting r)" for d
    by (rule triple_thenL [OF disputing_frame disputes_finish]) (intro srv)
  have create: "triple (disputing r) (CreateFingerprintsL env r) (\<lambda>_. dispute_ok) (aborting r)"
    by (rule triple_weaken [OF disputing_frame [OF CreateFingerprintsL_forced]]) (auto simp: disputing_def)
  have 1: "triple (disputing r) (if b then CreateFingerprintsL env r
     else thenL (WriteDecisionL env r d) (\<lambda>_. changeL (CompleteAndMarkForDeletion r None))) (\<lambda>_. dispute_ok) (aborting r)" for b d
    by (rule triple_if, rule create, rule finish)
  have 2: "triple (disputing r) (thenL (changeL (upd r (\<lambda>x. x\<lparr>aPolicy := Some p\<rparr>))) (\<lambda>_. if b then CreateFingerprintsL env r
     else thenL (WriteDecisionL env r d) (\<lambda>_. changeL (CompleteAndMarkForDeletion r None)))) (\<lambda>_. dispute_ok) (aborting r)" for p b d
    by (rule triple_thenL [OF disputing_frame 1]) (intro srv forced_updI, simp_all)
  show ?thesis
    unfolding LookupPolicyL_def by (rule triple_thenL [OF disputing_frame 2]) (intro srv)
qed

lemma delete_forced_triple: "triple (disputing r) (delete_forced env r) (\<lambda>_. disputing r) (aborting r)"
proof -
  let ?P = "\<lambda>x s. disputing r s \<and> aPromptForced x \<and> aPromptForced (auth s r) \<and>
    aPromptForcedRecordId (auth s r) = aPromptForcedRecordId x"
  have frame: "triple (?P x) m (\<lambda>_. ?P x) (aborting r)" if "\<And>s0. keeps (same_forced s0) m" for x and m :: "'a srv"
  proof (rule forced_frame [OF that])
    show "?P x s'" if "same_forced s s'" "?P x s" for s s'
      using disputing_forced [OF that(1)] that by (auto simp: same_forced_def)
  qed (auto simp: disputing_aborting)
  have last: "triple (?P x) (thenL (changeL (upd r (\<lambda>x. x\<lparr>aPromptForced := False\<rparr>))) (\<lambda>_. UnDisputeRecordIdL (aPromptForcedRecordId x)))
      (\<lambda>_. disputing r) (aborting r)" for x
    unfolding triple_def
  proof (intro allI impI)
    fix s
    assume s: "?P x s"
    have "r \<in> owners s" using s by (simp add: owners_def disputing_def)
    moreover have "forced_id s r = aPromptForcedRecordId x" using s by (simp add: forced_id_def)
    moreover have "set (iDisputed s) = forced_id s ` owners s" using s by (simp only: disputing_def dispute_ok_def)
    ultimately have mem: "aPromptForcedRecordId x \<in> set (iDisputed s)" by (metis imageI)
    have f: "aPromptForced (auth s r)" "aPromptForcedRecordId (auth s r) = aPromptForcedRecordId x"
      using s by simp_all
    then have "thenL (changeL (upd r (\<lambda>x. x\<lparr>aPromptForced := False\<rparr>))) (\<lambda>_. UnDisputeRecordIdL (aPromptForcedRecordId x)) s =
        (Ok (), undispute r s)"
      by (simp add: thenL_def changeL_def undispute_def UnDisputeRecordIdL_def upd_def f mem)
    moreover have "disputing r (undispute r s)"
      using s undispute_ok [of s r] by (simp add: disputing_def)
    ultimately show "case thenL (changeL (upd r (\<lambda>x. x\<lparr>aPromptForced := False\<rparr>))) (\<lambda>_. UnDisputeRecordIdL (aPromptForcedRecordId x)) s of
        (Inl e, s') \<Rightarrow> aborting r s' | (Inr x, s') \<Rightarrow> disputing r s'"
      by simp
  qed
  have forced: "triple (?P x) (thenL (faultL (envFilterErr env)) (\<lambda>_.
       thenL (RemoveDbL env flt) (\<lambda>err. thenL (handleL env err) (\<lambda>_.
       thenL (changeL (upd r (\<lambda>x. x\<lparr>aPromptForced := False\<rparr>))) (\<lambda>_. UnDisputeRecordIdL (aPromptForcedRecordId x))))))
      (\<lambda>_. disputing r) (aborting r)" for x flt
    by (rule triple_thenL [OF frame], intro srv, rule triple_thenL [OF frame], intro srv,
        rule triple_thenL [OF frame], intro srv, rule last)
  show ?thesis
    unfolding delete_forced_def
    by (rule triple_getL_fact, rule triple_if, rule triple_weaken [OF forced])
      (auto intro: triple_returnL)
qed

lemma disputes_ProcessDialogResultL: "triple (disputing r) (ProcessDialogResultL env r) (\<lambda>_. dispute_ok) (aborting r)"
proof -
  have 1: "triple (disputing r) (thenL (WriteDecisionL env r d) (\<lambda>_. changeL (CompleteAndMarkForDeletion r None)))
      (\<lambda>_. dispute_ok) (aborting r)" for d
    by (rule triple_thenL [OF disputing_frame disputes_finish]) (intro srv)
  have 2: "triple (disputing r) (thenL (store_decision env x) (\<lambda>_. thenL (WriteDecisionL env r (d x))
      (\<lambda>_. changeL (CompleteAndMarkForDeletion r None)))) (\<lambda>_. dispute_ok) (aborting r)" for x d
    by (rule triple_thenL [OF disputing_frame 1]) (intro srv)
  have 3: "triple (disputing r) (thenL (getL (\<lambda>s. auth s r)) (\<lambda>x. thenL (store_decision env x) (\<lambda>_. thenL (WriteDecisionL env r (d x))
      (\<lambda>_. changeL (CompleteAndMarkForDeletion r None))))) (\<lambda>_. dispute_ok) (aborting r)" for d
    by (rule triple_thenL [OF disputing_frame 2]) (intro srv)
  have 4: "triple (disputing r) (changeL (upd r (\<lambda>x. x\<lparr>aDialogSelectedOption := g x\<rparr>))) (\<lambda>_. disputing r) (aborting r)" for g
    by (rule disputing_frame, intro srv forced_updI) simp_all
  show ?thesis
    unfolding ProcessDialogResultL_def
    by (rule triple_thenL [OF delete_forced_triple], rule triple_thenL [OF 4 3])
qed

subsection \<open>The disputed records of every reachable state\<close>

lemma run_same_forced:
  "same_forced s (upd r (\<lambda>x. x\<lparr>aUserInput := False\<rparr>) (WakeupNextPendingL (upd r (\<lambda>x. (plugin_results env x)\<lparr>aActive := False\<rparr>) s)))"
  by (auto simp: same_forced_def plugin_results_same)

lemma run_request_cases:
  assumes "\<And>st. triple (\<lambda>s. P s \<and> aState (auth s r) = st) (ProcessEventL env EInternalRequestComplete r) (\<lambda>_. Q) E"
    and "P (upd r (\<lambda>x. x\<lparr>aUserInput := False\<rparr>) (WakeupNextPendingL (upd r (\<lambda>x. (plugin_results env x)\<lparr>aActive := False\<rparr>) s)))"
    and "\<And>s. P s \<Longrightarrow> E s" and "\<And>s e. E s \<Longrightarrow> Q (CompleteAndMarkForDeletion r e s)"
  shows "Q (run_request env r s)"
proof -
  let ?u = "upd r (\<lambda>x. (plugin_results env x)\<lparr>aActive := False\<rparr>) s"
  let ?t = "upd r (\<lambda>x. x\<lparr>aUserInput := False\<rparr>) (WakeupNextPendingL ?u)"
  have run: "RunL env r ?u = thenL (faultL (envStatus env)) (\<lambda>_. ProcessEventL env EInternalRequestComplete r) ?t"
    by (simp add: RunL_def thenL_def changeL_def)
  have "case ProcessEventL env EInternalRequestComplete r ?t of (Inl e, s') \<Rightarrow> E s' | (Inr x, s') \<Rightarrow> Q s'"
    using assms(1) [of "aState (auth ?t r)"] assms(2) by (auto simp: triple_def)
  then have "case RunL env r ?u of (Inl e, s') \<Rightarrow> E s' | (Inr x, s') \<Rightarrow> Q s'"
    using assms(2,3) by (cases "envStatus env") (auto simp: run thenL_def faultL_def returnL_def leaveL_def)
  then show ?thesis
    using assms(4) by (auto simp: run_request_def split: prod.splits sum.splits)
qed

lemma run_request_disputes:
  assumes "dispute_ok s" and "r \<in> set (iAsyncRequests s)"
  shows "dispute_ok (run_request env r s)"
proof (rule run_request_cases [where P = "disputing r" and E = "aborting r"])
  have execute: "triple (disputing r) (ExecuteDialogL r) (\<lambda>_. dispute_ok) (aborting r)"
    by (rule triple_weaken [OF disputing_frame [OF ExecuteDialogL_forced]]) (auto simp: disputing_def)
  show "triple (\<lambda>s. disputing r s \<and> aState (auth s r) = st) (ProcessEventL env EInternalRequestComplete r) (\<lambda>_. dispute_ok) (aborting r)" for st
    using disputes_LookupPolicyL [of r env] disputes_LookupFingerprintsL [of r env] execute
      disputes_ProcessDialogResultL [of r env]
    by (cases st) (auto simp: ProcessEventL_def triple_def)
  show "disputing r (upd r (\<lambda>x. x\<lparr>aUserInput := False\<rparr>) (WakeupNextPendingL (upd r (\<lambda>x. (plugin_results env x)\<lparr>aActive := False\<rparr>) s)))"
    using assms by (intro disputing_forced [OF run_same_forced]) (simp add: disputing_def)
qed (auto simp: disputing_aborting CompleteAndMarkForDeletion_disputes)

lemma cancel_all_keeps:
  assumes "\<And>s a. steady s \<Longrightarrow> calm s \<Longrightarrow> a \<in> set (iAsyncRequests s) \<Longrightarrow> P s \<Longrightarrow> P (cancel_one complete a s)"
    and "steady s" and "calm s" and "set as \<subseteq> set (iAsyncRequests s)" and "distinct as" and "P s"
  shows "P (fold (cancel_one complete) as s)"
  using assms(2-)
proof (induction as arbitrary: s)
  case Nil
  then show ?case by simp
next
  case (Cons a as)
  have "P (fold (cancel_one complete) as (cancel_one complete a s))"
    by (rule Cons.IH) (use Cons.prems assms(1) cancel_one_steady [of s a complete] in auto)
  then show ?case by simp
qed

lemma cancel_one_eq:
  assumes "steady s"
  shows "cancel_one False a s = MarkForDeletion a s"
  using queue_okD(3) [of "{}" s] assms by (simp add: cancel_one_def MarkForDeletion_def DoCleanup_twice steady_def)

lemma cancel_one_disputes:
  assumes "steady s" and "a \<in> set (iAsyncRequests s)" and "dispute_ok s"
  shows "dispute_ok (cancel_one complete a s)"
proof (cases complete)
  case True
  then show ?thesis
    using CompleteAndMarkForDeletion_disputes [of a s] undispute_ok assms by (simp add: cancel_one_def aborting_def)
next
  case False
  then show ?thesis
    using dispute_ok_same [OF MarkForDeletion_disputes [of a s]] undispute_ok assms by (simp add: cancel_one_eq)
qed

text \<open>An invariant that every event keeps, given that it holds of the parts of the events.\<close>

lemma cancel_events_keep:
  assumes "\<And>complete s a. steady s \<Longrightarrow> calm s \<Longrightarrow> a \<in> set (iAsyncRequests s) \<Longrightarrow> P s \<Longrightarrow> P (cancel_one complete a s)"
    and "steady s" and "woken s = {}" and "P s"
  shows "P (CancelAsyncRequest session subsession s)" and "P (CancelOutstandingRequests session' subsession' complete s)"
proof -
  have calm: "calm s" using assms(2,3) by (rule idle_calm)
  show "P (CancelAsyncRequest session subsession s)"
    using assms(1) [of s _ True] FindAsyncRequest_Some [of session subsession s] assms(2,4) calm
    by (auto simp: CancelAsyncRequest_def cancel_one_def split: option.split)
  show "P (CancelOutstandingRequests session' subsession' complete s)"
    unfolding CancelOutstandingRequests_def
    by (rule cancel_all_keeps) (use assms calm queue_okD(1) [of "{}" s] in \<open>auto simp: steady_def\<close>)
qed

lemma ExecutePromptL_cases:
  assumes "P s" and "\<And>s s'. P s \<Longrightarrow> same_queues s s' \<Longrightarrow> same_forced s s' \<Longrightarrow> written s' = written s \<Longrightarrow>
      completed s' = completed s \<Longrightarrow> auth s' = auth s \<Longrightarrow> iDbHandle s' = iDbHandle s \<Longrightarrow> P s'"
    and "\<And>s. P s \<Longrightarrow> Q (snd (AddAsyncRequestL session subsession request s))" and "\<And>s. P s \<Longrightarrow> Q s"
  shows "Q (snd (ExecutePromptL openErr newErr session subsession request s))"
proof -
  have frame: "triple P m (\<lambda>_. P) Q" if "keeps P m" for m :: "'c srv"
    by (rule triple_weaken [OF triple_keeps [OF that]]) (auto intro: assms(4))
  have change: "keeps P (changeL g)"
    if "\<And>s. same_queues s (g s)" "\<And>s. same_forced s (g s)" "\<And>s. written (g s) = written s"
      "\<And>s. completed (g s) = completed s" "\<And>s. auth (g s) = auth s" "\<And>s. iDbHandle (g s) = iDbHandle s" for g
    by (rule keeps_changeL) (rule assms(2), assumption, (rule that)+)
  have add: "triple P (AddAsyncRequestL session subsession request) (\<lambda>_. Q) Q"
    unfolding triple_def using assms(3) by (metis (mono_tags, lifting) case_prod_beta sum.case_eq_if)
  have "triple P (ExecutePromptL openErr newErr session subsession request) (\<lambda>_. Q) Q"
    unfolding ExecutePromptL_def
    by (intro triple_thenL [OF frame] add keeps_simple keeps_thenL keeps_if keeps_faultL change)
      (simp_all add: same_queues_def same_forced_def)
  then show ?thesis using assms(1) by (rule triple_snd)
qed

lemma AddAsyncRequestL_fields:
  fixes request :: CPromptRequest
  assumes "FindAsyncRequest session subsession s = None"
  defines "t \<equiv> snd (AddAsyncRequestL session subsession request s)"
  shows "iDisputed t = iDisputed s" "iAsyncRequests t = iAsyncRequests s @ [nextRequest s]"
    "nextRequest t = nextRequest s + 1" "written t = written s" "completed t = completed s" "iDbHandle t = iDbHandle s"
    "b \<noteq> nextRequest s \<Longrightarrow> auth t b = auth s b" "\<not> aPromptForced (auth t (nextRequest s))"
    "aState (auth t (nextRequest s)) = ECheckPolicy"
  using assms(1)
  by (simp_all add: t_def AddAsyncRequestL_def Let_def Wakeup_def CompleteSelf_def SetActive_def new_authoriser_def)

lemma AddAsyncRequestL_disputes:
  assumes "dispute_ok s" and "nextRequest s \<notin> set (iAsyncRequests s)"
  shows "dispute_ok (snd (AddAsyncRequestL session subsession request s))"
proof (cases "FindAsyncRequest session subsession s")
  case None
  let ?t = "snd (AddAsyncRequestL session subsession request s)"
  note t = AddAsyncRequestL_fields [OF None, where request = request]
  have o: "b \<in> owners ?t \<longleftrightarrow> b \<in> owners s" for b
    using t(2,7,8) assms(2) by (cases "b = nextRequest s") (simp_all add: owners_def)
  have "b \<noteq> nextRequest s" if "b \<in> owners s" for b using that assms(2) by (auto simp: owners_def)
  then have "same_disputes s ?t"
    unfolding same_disputes_def forced_id_def using o t(1,7) by auto
  then show ?thesis using assms(1) dispute_ok_same by blast
next
  case (Some a)
  then show ?thesis using assms by (simp add: AddAsyncRequestL_def)
qed

lemma ExecutePromptL_disputes:
  assumes "steady s" and "dispute_ok s"
  shows "dispute_ok (snd (ExecutePromptL openErr newErr session subsession request s))"
proof (rule ExecutePromptL_cases [where P = "\<lambda>s. dispute_ok s \<and> nextRequest s \<notin> set (iAsyncRequests s)"])
  show "dispute_ok s \<and> nextRequest s \<notin> set (iAsyncRequests s)"
    using assms queue_okD(2) [of "{}" s "nextRequest s"] by (auto simp: steady_def)
  show "dispute_ok s' \<and> nextRequest s' \<notin> set (iAsyncRequests s')"
    if "dispute_ok s \<and> nextRequest s \<notin> set (iAsyncRequests s)" "same_queues s s'" "same_forced s s'" for s s'
    using that dispute_ok_forced by (auto simp: same_queues_def)
qed (simp_all add: AddAsyncRequestL_disputes)

lemma DoServiceL_forced: "same_forced s (snd (DoServiceL env f s))"
proof -
  have "keeps (same_forced s) (DoServiceL env f)"
    unfolding DoServiceL_def by (cases f) (auto intro!: srv simp: same_forced_def)
  then show ?thesis by (simp add: keeps_def)
qed

lemma server_step_disputes:
  assumes "steady s" and "dispute_ok s" and "enabled e s"
  shows "dispute_ok (server_step e s)"
proof (cases e)
  case (Run env a)
  then show ?thesis using assms run_request_disputes by auto
next
  case (Manage env f)
  then show ?thesis using assms(2) dispute_ok_forced [OF DoServiceL_forced] by simp
next
  case (CancelPrompt session subsession)
  then show ?thesis
    using cancel_events_keep(1) [of dispute_ok s session subsession, OF cancel_one_disputes] assms by simp
next
  case (CloseSession session subsession complete)
  then show ?thesis
    using cancel_events_keep(2) [of dispute_ok s session subsession complete, OF cancel_one_disputes] assms by simp
qed (use assms ExecutePromptL_disputes in simp)

lemma reachable_disputes: "server_reachable s \<Longrightarrow> dispute_ok s"
proof (induction rule: server_reachable.induct)
  case (start s)
  then show ?case by (simp add: started_def dispute_ok_def owners_def)
next
  case (event s e)
  then show ?case using server_step_disputes reachable_steady by blast
qed

end
