(* ===== verification/UpsServerAnswers.thy ===== *)
theory UpsServerAnswers
  imports UpsServerDecisions
begin

section \<open>The answers of the user prompt server\<close>

text \<open>
  \<open>answers_ok\<close>: a request is completed once, an answer is written only to a request that completes
  without error, and only a decision that its policy offers.
\<close>

subsection \<open>Decisions that a policy offers\<close>

definition offers_yes :: "CPolicy \<Rightarrow> bool" where
  "offers_yes p \<longleftrightarrow> iOptions p AND (EYes OR ESessionYes OR EAlways) \<noteq> 0"

definition offers_no :: "CPolicy \<Rightarrow> bool" where
  "offers_no p \<longleftrightarrow> iOptions p AND (ENo OR ESessionNo OR ENever) \<noteq> 0"

text \<open>A policy without options refuses.\<close>

definition decision_offered :: "CPolicy \<Rightarrow> TUpsDecision \<Rightarrow> bool" where
  "decision_offered p d \<longleftrightarrow> (if positive d then offers_yes p else offers_no p \<or> \<not> offers_yes p)"

lemma PromptRequired_offers: "PromptRequired p \<longleftrightarrow> offers_yes p \<and> offers_no p"
  by (simp add: PromptRequired_def offers_yes_def offers_no_def)

lemma prompted_offers: "PromptRequired p \<Longrightarrow> decision_offered p d"
  by (simp add: decision_offered_def PromptRequired_offers)

lemma own_options_offered: "decision_offered p (MapCPolicyTOptions2TUpsDecision p (iOptions p))"
  by (auto simp: decision_offered_def MapCPolicy_positive offers_yes_def offers_no_def word_and_or_eq_0)

subsection \<open>The invariant\<close>

definition prompted :: "CUpsServer \<Rightarrow> aid \<Rightarrow> bool" where
  "prompted s a \<longleftrightarrow> (\<exists>p. aPolicy (auth s a) = Some p \<and> PromptRequired p)"

definition answers_ok :: "CUpsServer \<Rightarrow> bool" where
  "answers_ok s \<longleftrightarrow>
     (\<forall>a \<in> set (iAsyncRequests s). aState (auth s a) \<noteq> ECheckPolicy \<longrightarrow> prompted s a) \<and>
     (\<forall>(a, e) \<in> set (completed s). a \<notin> set (iAsyncRequests s) \<and> a < nextRequest s) \<and>
     distinct (map fst (completed s)) \<and>
     (\<forall>(a, d) \<in> set (written s). (a, None) \<in> set (completed s) \<and>
        (\<exists>p. aPolicy (auth s a) = Some p \<and> decision_offered p d)) \<and>
     distinct (map fst (written s))"

definition same_answers :: "CUpsServer \<Rightarrow> CUpsServer \<Rightarrow> bool" where
  "same_answers s s' \<longleftrightarrow> iAsyncRequests s' = iAsyncRequests s \<and> nextRequest s' = nextRequest s \<and>
     written s' = written s \<and> completed s' = completed s \<and>
     (\<forall>a. aState (auth s' a) = aState (auth s a) \<and> aPolicy (auth s' a) = aPolicy (auth s a))"

lemma same_answers_refl [simp]: "same_answers s s"
  by (simp add: same_answers_def)

lemma same_answers_trans: "same_answers s t \<Longrightarrow> same_answers t u \<Longrightarrow> same_answers s u"
  by (simp add: same_answers_def)

lemma answers_ok_same: "same_answers s s' \<Longrightarrow> answers_ok s' = answers_ok s"
  by (simp add: same_answers_def answers_ok_def prompted_def)

text \<open>A request that runs and may be completed; then one whose policy asks for a prompt.\<close>

definition outstanding :: "aid \<Rightarrow> CUpsServer \<Rightarrow> bool" where
  "outstanding r s \<longleftrightarrow> answers_ok s \<and> r \<in> set (iAsyncRequests s) \<and> distinct (iAsyncRequests s) \<and> r < nextRequest s"

definition prompting :: "aid \<Rightarrow> CUpsServer \<Rightarrow> bool" where
  "prompting r s \<longleftrightarrow> outstanding r s \<and> prompted s r"

lemma outstanding_same: "same_answers s s' \<Longrightarrow> outstanding r s' = outstanding r s"
  by (simp add: outstanding_def answers_ok_same) (simp add: same_answers_def)

lemma prompting_same: "same_answers s s' \<Longrightarrow> prompting r s' = prompting r s"
  by (simp add: prompting_def outstanding_same) (simp add: same_answers_def prompted_def)

lemma answers_frame:
  assumes "\<And>s0. keeps (same_answers s0) m" and "\<And>s s'. same_answers s s' \<Longrightarrow> P s \<Longrightarrow> P s'" and "\<And>s. P s \<Longrightarrow> E s"
  shows "triple P m (\<lambda>_. P) E"
proof (rule triple_weaken [OF triple_keeps [of P]])
  show "keeps P m"
    unfolding keeps_def
  proof (intro allI impI)
    fix s
    assume "P s"
    moreover have "same_answers s (snd (m s))" using assms(1) [of s] by (simp add: keeps_def)
    ultimately show "P (snd (m s))" using assms(2) by blast
  qed
qed (auto intro: assms(3))

lemma outstanding_frame:
  "(\<And>s0. keeps (same_answers s0) m) \<Longrightarrow> triple (outstanding r) m (\<lambda>_. outstanding r) (outstanding r)"
  by (rule answers_frame, assumption, simp_all add: outstanding_same)

lemma prompting_frame:
  "(\<And>s0. keeps (same_answers s0) m) \<Longrightarrow> triple (prompting r) m (\<lambda>_. prompting r) (outstanding r)"
  by (rule answers_frame, assumption, simp_all add: prompting_same) (simp add: prompting_def)

lemma answers_updI:
  assumes "\<And>x. aState (g x) = aState x \<and> aPolicy (g x) = aPolicy x"
  shows "same_answers s0 s \<Longrightarrow> same_answers s0 (upd a g s)"
  using assms by (auto simp: same_answers_def)

lemma SetActive_answers: "same_answers s0 s \<Longrightarrow> same_answers s0 (SetActive a s)"
  by (auto simp: SetActive_def same_answers_def)

lemma HandleDbErrorL_answers [srv]: "keeps (same_answers s0) (HandleDbErrorL env e)"
  by (auto simp: keeps_def HandleDbErrorL_def same_answers_def split: option.split)

lemma handleL_answers [srv]: "keeps (same_answers s0) (handleL env err)"
  unfolding handleL_def by (intro srv)

lemma db_answers [srv]:
  "keeps (same_answers s0) (UpdateDbL env flt record)" "keeps (same_answers s0) (RemoveDbL env flt)"
  "keeps (same_answers s0) (CreateDbL env record)" "keeps (same_answers s0) (MatchL env a)"
  by (auto simp: keeps_def UpdateDbL_def RemoveDbL_def CreateDbL_def MatchL_def Let_def same_answers_def
      split: prod.split)

lemma find_record_answers [srv]: "keeps (same_answers s0) (find_record env i flt fps)"
proof (induction fps arbitrary: i flt)
  case Nil
  then show ?case by (simp add: keeps_def)
next
  case (Cons fp fps)
  have "keeps (same_answers s0) (thenL (HandleDbErrorL env e) (\<lambda>_. find_record env (Suc i) flt fps))" for e flt
    by (intro srv Cons.IH)
  then show ?case
    using Cons.IH by (auto simp: keeps_def split: sum.split option.split)
qed

lemma store_decision_answers [srv]: "keeps (same_answers s0) (store_decision env x)"
  unfolding store_decision_def by (intro srv) (simp_all add: same_answers_def)

lemma UnDisputeRecordIdL_answers [srv]: "keeps (same_answers s0) (UnDisputeRecordIdL i)"
  by (simp add: keeps_def UnDisputeRecordIdL_def same_answers_def)

lemma stored_decision_answers [srv]: "keeps (same_answers s0) (stored_decision env a flt record)"
proof -
  have "keeps (same_answers s0) (forget_forced a record)"
    by (auto simp: keeps_def forget_forced_def UnDisputeRecordIdL_def Let_def same_answers_def)
  moreover have "keeps (same_answers s0) (force_prompt env a record)"
    by (auto simp: keeps_def force_prompt_def DisputeRecordIdL_def thenL_def changeL_def same_answers_def
        split: option.split prod.split)
  ultimately show ?thesis
    unfolding stored_decision_def by (intro srv answers_updI) simp_all
qed

lemma delete_forced_answers [srv]: "keeps (same_answers s0) (delete_forced env a)"
  unfolding delete_forced_def by (intro srv answers_updI) simp_all

lemma MarkForDeletion_fields:
  "written (MarkForDeletion a s) = written s" "completed (MarkForDeletion a s) = completed s"
  "nextRequest (MarkForDeletion a s) = nextRequest s"
  "iAsyncRequests (MarkForDeletion a s) = remove1 a (iAsyncRequests s)"
  "aState (auth (MarkForDeletion a s) b) = aState (auth s b)"
  "aPolicy (auth (MarkForDeletion a s) b) = aPolicy (auth s b)"
  "iDbHandle (MarkForDeletion a s) = iDbHandle s"
  by (auto simp: MarkForDeletion_def DoCleanup_def AuthoriserDoneL_def Cancel_def DoCancel_def undispute_def
      UnDisputeRecordIdL_def Let_def)

lemma CompleteAndMarkForDeletion_fields:
  "written (CompleteAndMarkForDeletion a e s) = written s"
  "completed (CompleteAndMarkForDeletion a e s) = (a, e) # completed s"
  "nextRequest (CompleteAndMarkForDeletion a e s) = nextRequest s"
  "iAsyncRequests (CompleteAndMarkForDeletion a e s) = remove1 a (iAsyncRequests s)"
  "aState (auth (CompleteAndMarkForDeletion a e s) b) = aState (auth s b)"
  "aPolicy (auth (CompleteAndMarkForDeletion a e s) b) = aPolicy (auth s b)"
  "iDbHandle (CompleteAndMarkForDeletion a e s) = iDbHandle s"
  by (simp_all add: CompleteAndMarkForDeletion_def MarkForDeletion_fields)

lemma answers_ok_remove:
  assumes "answers_ok s" and "distinct (iAsyncRequests s)"
  shows "answers_ok (MarkForDeletion a s)"
  using assms by (auto simp: answers_ok_def MarkForDeletion_fields prompted_def)

lemma outstanding_completes: "outstanding r s \<Longrightarrow> answers_ok (CompleteAndMarkForDeletion r e s)"
  by (auto simp: outstanding_def answers_ok_def CompleteAndMarkForDeletion_fields prompted_def image_iff)

text \<open>Writing the answer and completing.\<close>

lemma answer_and_finish:
  "triple (\<lambda>s. outstanding r s \<and> (\<exists>p. aPolicy (auth s r) = Some p \<and> decision_offered p d))
     (thenL (WriteDecisionL env r d) (\<lambda>_. changeL (CompleteAndMarkForDeletion r None))) (\<lambda>_. answers_ok) (outstanding r)"
proof -
  have "answers_ok (CompleteAndMarkForDeletion r None (s\<lparr>written := (r, d) # written s\<rparr>))"
    if "outstanding r s" "aPolicy (auth s r) = Some p" "decision_offered p d" for s p
    using that
    by (fastforce simp: outstanding_def answers_ok_def CompleteAndMarkForDeletion_fields prompted_def)
  then show ?thesis
    by (auto simp: triple_def WriteDecisionL_def thenL_def faultL_def changeL_def returnL_def leaveL_def split: option.split)
qed

lemma prompted_answer_and_finish:
  "triple (prompting r) (thenL (WriteDecisionL env r d) (\<lambda>_. changeL (CompleteAndMarkForDeletion r None)))
     (\<lambda>_. answers_ok) (outstanding r)"
  by (rule triple_weaken [OF answer_and_finish]) (auto simp: prompting_def prompted_def prompted_offers)

lemma prompting_state:
  assumes "prompting r s"
  shows "prompting r (upd r (\<lambda>x. x\<lparr>aState := st\<rparr>) s)"
proof -
  let ?t = "upd r (\<lambda>x. x\<lparr>aState := st\<rparr>) s"
  have policy: "aPolicy (auth ?t a) = aPolicy (auth s a)" for a by simp
  have prompt: "prompted ?t a = prompted s a" for a by (simp add: prompted_def)
  have state: "aState (auth ?t a) \<noteq> ECheckPolicy \<Longrightarrow> a \<noteq> r \<Longrightarrow> aState (auth s a) \<noteq> ECheckPolicy" for a by simp
  show ?thesis
    using assms state unfolding prompting_def outstanding_def answers_ok_def policy prompt upd_sel(1-12) by blast
qed

lemma answers_PrepareDialogL: "triple (prompting r) (PrepareDialogL env r) (\<lambda>_. prompting r) (outstanding r)"
  unfolding PrepareDialogL_def
  by (rule triple_thenL [where Q = "\<lambda>_. prompting r"], rule triple_changeL, erule prompting_state)
    (rule prompting_frame, intro srv SetActive_answers)

lemma answers_GateKeeperL: "triple (prompting r) (GateKeeperL env r) (\<lambda>_. answers_ok) (outstanding r)"
  unfolding triple_def
proof (intro allI impI)
  fix s
  assume s: "prompting r s"
  have "same_answers s (s\<lparr>iCurrentDialog := Some r\<rparr>)" by (simp add: same_answers_def)
  then have "prompting r (s\<lparr>iCurrentDialog := Some r\<rparr>)" using s prompting_same by blast
  then have "case PrepareDialogL env r (s\<lparr>iCurrentDialog := Some r\<rparr>) of (Inl e, s') \<Rightarrow> outstanding r s' | (Inr x, s') \<Rightarrow> prompting r s'"
    using answers_PrepareDialogL by (auto simp: triple_def)
  moreover have "same_answers s (s\<lparr>iFlurryQueue := iFlurryQueue s @ [r]\<rparr>)" "same_answers s (panic (s\<lparr>iCurrentDialog := Some r\<rparr>))"
    by (simp_all add: same_answers_def)
  then have "answers_ok (s\<lparr>iFlurryQueue := iFlurryQueue s @ [r]\<rparr>)" "answers_ok (panic (s\<lparr>iCurrentDialog := Some r\<rparr>))"
    using s answers_ok_same by (auto simp: prompting_def outstanding_def)
  ultimately show "case GateKeeperL env r s of (Inl e, s') \<Rightarrow> outstanding r s' | (Inr x, s') \<Rightarrow> answers_ok s'"
    using s by (auto simp: GateKeeperL_def ClearedToDisplayL_def prompting_def outstanding_def split: option.split prod.splits sum.splits)
qed

lemma answers_LookupFingerprintsL: "triple (prompting r) (LookupFingerprintsL env r) (\<lambda>_. answers_ok) (outstanding r)"
proof -
  let ?answer = "\<lambda>d forcePrompt. if forcePrompt then GateKeeperL env r
    else thenL (WriteDecisionL env r d) (\<lambda>_. changeL (CompleteAndMarkForDeletion r None))"
  let ?undisputed = "\<lambda>flt rc d. thenL (stored_decision env r flt rc) (?answer d)"
  have 1: "triple (prompting r) (?answer d b) (\<lambda>_. answers_ok) (outstanding r)" for d b
    by (rule triple_if, rule answers_GateKeeperL, rule prompted_answer_and_finish)
  have 2: "triple (prompting r) (?undisputed flt rc d) (\<lambda>_. answers_ok) (outstanding r)" for flt rc d
    by (rule triple_thenL [OF prompting_frame 1]) (intro srv)
  have 3: "triple (prompting r) (if b then GateKeeperL env r else ?undisputed flt rc d) (\<lambda>_. answers_ok) (outstanding r)" for b flt rc d
    by (rule triple_if, rule answers_GateKeeperL, rule 2)
  have 4: "triple (prompting r) (thenL (getL g)
      (\<lambda>b. if b then GateKeeperL env r else ?undisputed flt rc d)) (\<lambda>_. answers_ok) (outstanding r)" for flt rc d g
    by (rule triple_thenL [OF prompting_frame 3]) (intro srv)
  have 5: "triple (prompting r) (thenL (changeL (upd r (\<lambda>x. x\<lparr>aDialogEvaluatorInfo := i\<rparr>)))
      (\<lambda>_. thenL (getL g)
      (\<lambda>b. if b then GateKeeperL env r else ?undisputed flt rc d))) (\<lambda>_. answers_ok) (outstanding r)" for i flt rc d g
    by (rule triple_thenL [OF prompting_frame 4]) (intro srv answers_updI, simp_all)
  have 6: "triple (prompting r) (case found of None \<Rightarrow> GateKeeperL env r
      | Some rc \<Rightarrow> thenL (changeL (upd r (\<lambda>x. x\<lparr>aDialogEvaluatorInfo := rEvaluatorInfo rc\<rparr>)))
      (\<lambda>_. thenL (getL (IsRecordIdDisputed (rRecordId rc)))
      (\<lambda>b. if b then GateKeeperL env r else ?undisputed flt rc (d rc)))) (\<lambda>_. answers_ok) (outstanding r)" for found flt d
    by (rule triple_option, rule answers_GateKeeperL, rule 5)
  show ?thesis
    unfolding LookupFingerprintsL_def
    apply (rule triple_thenL [where Q = "\<lambda>_. prompting r"])
     apply (rule triple_changeL, erule prompting_state)
    apply (rule triple_thenL [OF prompting_frame], intro srv)
    apply (rule triple_thenL [OF prompting_frame], intro srv)
    apply (rule triple_thenL [OF prompting_frame], intro srv)
    apply (simp only: split_beta 6)
    done
qed

lemma answers_CreateFingerprintsL: "triple (prompting r) (CreateFingerprintsL env r) (\<lambda>_. answers_ok) (outstanding r)"
proof -
  have rest: "triple (prompting r) (thenL (faultL (envEvaluatorErr env)) (\<lambda>_. changeL (SetActive r))) (\<lambda>_. answers_ok) (outstanding r)"
    by (rule triple_weaken [OF prompting_frame [of _ r]], intro srv SetActive_answers) (auto simp: prompting_def outstanding_def)
  show ?thesis
    unfolding CreateFingerprintsL_def
    by (rule triple_thenL [OF triple_changeL rest]) (erule prompting_state)
qed

text \<open>Storing the policy: the request has had no answer so far.\<close>

lemma outstanding_policy:
  assumes "outstanding r s" and "aState (auth s r) = ECheckPolicy"
  shows "outstanding r (upd r (\<lambda>x. x\<lparr>aPolicy := Some p\<rparr>) s)"
proof -
  let ?t = "upd r (\<lambda>x. x\<lparr>aPolicy := Some p\<rparr>) s"
  have policy: "aPolicy (auth ?t a) = aPolicy (auth s a)" if "a \<noteq> r" for a using that by simp
  have prompt: "prompted ?t a = prompted s a" if "a \<noteq> r" for a using that by (simp add: prompted_def)
  have state: "aState (auth ?t a) = aState (auth s a)" for a by simp
  have new: "a \<noteq> r" if "(a, d) \<in> set (written s)" for a d
    using that assms(1) by (fastforce simp: outstanding_def answers_ok_def)
  have ok: "answers_ok s" using assms(1) by (simp add: outstanding_def)
  have "answers_ok ?t"
    unfolding answers_ok_def state upd_sel(1-12)
  proof (intro conjI ballI impI)
    fix a
    assume "a \<in> set (iAsyncRequests s)" "aState (auth s a) \<noteq> ECheckPolicy"
    then show "prompted ?t a"
      using ok assms(2) prompt [of a] by (cases "a = r") (auto simp: answers_ok_def simp del: upd_sel)
  next
    fix x
    assume x: "x \<in> set (written s)"
    then have "fst x \<noteq> r" using new [of "fst x" "snd x"] by simp
    then have "aPolicy (auth ?t (fst x)) = aPolicy (auth s (fst x))" by (rule policy)
    then show "case x of (a, d) \<Rightarrow> (a, None) \<in> set (completed s) \<and> (\<exists>p. aPolicy (auth ?t a) = Some p \<and> decision_offered p d)"
      using x ok by (cases x) (fastforce simp: answers_ok_def simp del: upd_sel)
  qed (use ok in \<open>auto simp: answers_ok_def\<close>)
  then show ?thesis using assms(1) by (simp add: outstanding_def)
qed

lemma answers_LookupPolicyL:
  "triple (\<lambda>s. outstanding r s \<and> aState (auth s r) = ECheckPolicy) (LookupPolicyL env r) (\<lambda>_. answers_ok) (outstanding r)"
proof -
  let ?P = "\<lambda>s. outstanding r s \<and> aState (auth s r) = ECheckPolicy"
  let ?Q = "\<lambda>p s. outstanding r s \<and> aPolicy (auth s r) = Some p"
  have m: "triple ?P (MatchL env r) (\<lambda>_. ?P) (outstanding r)"
  proof (rule answers_frame)
    show "?P s'" if "same_answers s s'" "?P s" for s s'
      using outstanding_same [OF that(1)] that by (simp add: same_answers_def)
  qed (auto intro: srv)
  have c: "triple ?P (changeL (upd r (\<lambda>x. x\<lparr>aPolicy := Some p\<rparr>))) (\<lambda>_. ?Q p) (outstanding r)" for p
    by (rule triple_changeL) (use outstanding_policy in auto)
  have prompt: "triple (?Q p) (CreateFingerprintsL env r) (\<lambda>_. answers_ok) (outstanding r)" if "PromptRequired p" for p
    by (rule triple_weaken [OF answers_CreateFingerprintsL]) (use that in \<open>auto simp: prompting_def prompted_def\<close>)
  have answer: "triple (?Q p) (thenL (WriteDecisionL env r (MapCPolicyTOptions2TUpsDecision p (iOptions p)))
      (\<lambda>_. changeL (CompleteAndMarkForDeletion r None))) (\<lambda>_. answers_ok) (outstanding r)" for p
    by (rule triple_weaken [OF answer_and_finish]) (auto simp: own_options_offered)
  show ?thesis
    unfolding LookupPolicyL_def
    by (rule triple_thenL [OF m], rule triple_thenL [OF c], rule triple_if, erule prompt, rule answer)
qed

lemma answers_ProcessDialogResultL: "triple (prompting r) (ProcessDialogResultL env r) (\<lambda>_. answers_ok) (outstanding r)"
proof -
  have 2: "triple (prompting r) (thenL (store_decision env x) (\<lambda>_. thenL (WriteDecisionL env r (d x))
      (\<lambda>_. changeL (CompleteAndMarkForDeletion r None)))) (\<lambda>_. answers_ok) (outstanding r)" for x d
    by (rule triple_thenL [OF prompting_frame prompted_answer_and_finish]) (intro srv)
  have 3: "triple (prompting r) (thenL (getL (\<lambda>s. auth s r)) (\<lambda>x. thenL (store_decision env x) (\<lambda>_. thenL (WriteDecisionL env r (d x))
      (\<lambda>_. changeL (CompleteAndMarkForDeletion r None))))) (\<lambda>_. answers_ok) (outstanding r)" for d
    by (rule triple_thenL [OF prompting_frame 2]) (intro srv)
  have 4: "triple (prompting r) (changeL (upd r (\<lambda>x. x\<lparr>aDialogSelectedOption := g x\<rparr>))) (\<lambda>_. prompting r) (outstanding r)" for g
    by (rule prompting_frame, intro srv answers_updI) simp_all
  have 5: "triple (prompting r) (delete_forced env r) (\<lambda>_. prompting r) (outstanding r)"
    by (rule prompting_frame) (intro srv)
  show ?thesis
    unfolding ProcessDialogResultL_def by (rule triple_thenL [OF 5], rule triple_thenL [OF 4 3])
qed

subsection \<open>The answers of every reachable state\<close>

lemma run_request_answers:
  assumes "steady s" and "answers_ok s" and "r \<in> set (iAsyncRequests s)"
  shows "answers_ok (run_request env r s)"
proof (rule run_request_cases [where P = "outstanding r" and E = "outstanding r"])
  have prompting: "prompting r s" if "outstanding r s" "aState (auth s r) \<noteq> ECheckPolicy" for s
    using that by (auto simp: prompting_def outstanding_def answers_ok_def)
  have execute: "triple (prompting r) (ExecuteDialogL r) (\<lambda>_. answers_ok) (outstanding r)"
    unfolding ExecuteDialogL_def
  proof (rule triple_changeL)
    fix s
    assume "prompting r s"
    then have "prompting r (upd r (\<lambda>x. x\<lparr>aState := EExecutingDialog\<rparr>) s)" by (rule prompting_state)
    then have "prompting r (SetActive r (upd r (\<lambda>x. x\<lparr>aState := EExecutingDialog\<rparr>) s))"
      using prompting_same [OF SetActive_answers [OF same_answers_refl]] by blast
    then show "answers_ok (SetActive r (upd r (\<lambda>x. x\<lparr>aState := EExecutingDialog\<rparr>) s))"
      by (simp add: prompting_def outstanding_def)
  qed
  show "triple (\<lambda>s. outstanding r s \<and> aState (auth s r) = st) (ProcessEventL env EInternalRequestComplete r) (\<lambda>_. answers_ok) (outstanding r)" for st
    using answers_LookupPolicyL [of r env] answers_LookupFingerprintsL [of r env] execute
      answers_ProcessDialogResultL [of r env] prompting
    by (cases st) (auto simp: ProcessEventL_def triple_def)
  have "same_answers s (upd r (\<lambda>x. x\<lparr>aUserInput := False\<rparr>) (WakeupNextPendingL (upd r (\<lambda>x. (plugin_results env x)\<lparr>aActive := False\<rparr>) s)))"
    by (auto simp: same_answers_def plugin_results_same)
  moreover have "outstanding r s"
    using assms queue_okD(1,2) [of "{}" s] by (auto simp: outstanding_def steady_def)
  ultimately show "outstanding r (upd r (\<lambda>x. x\<lparr>aUserInput := False\<rparr>) (WakeupNextPendingL (upd r (\<lambda>x. (plugin_results env x)\<lparr>aActive := False\<rparr>) s)))"
    using outstanding_same by blast
qed (auto simp: outstanding_completes)

lemma cancel_one_answers:
  assumes "steady s" and "a \<in> set (iAsyncRequests s)" and "answers_ok s"
  shows "answers_ok (cancel_one complete a s)"
proof (cases complete)
  case True
  then show ?thesis
    using outstanding_completes [of a s] queue_okD(1,2) [of "{}" s] assms
    by (auto simp: cancel_one_def outstanding_def steady_def)
next
  case False
  then show ?thesis
    using answers_ok_remove [of s a] queue_okD(1) [of "{}" s] assms by (simp add: cancel_one_eq steady_def)
qed

lemma AddAsyncRequestL_answers:
  assumes "answers_ok s" and "nextRequest s \<notin> set (iAsyncRequests s)"
  shows "answers_ok (snd (AddAsyncRequestL session subsession request s))"
proof (cases "FindAsyncRequest session subsession s")
  case None
  let ?t = "snd (AddAsyncRequestL session subsession request s)"
  note t = AddAsyncRequestL_fields [OF None, where request = request]
  have old: "auth ?t a = auth s a" if "(a, e) \<in> set (completed s)" for a e
    using that assms(1) by (intro t(7)) (auto simp: answers_ok_def)
  have "answers_ok ?t"
    unfolding answers_ok_def t(2-5)
  proof (intro conjI ballI impI)
    fix a
    assume "a \<in> set (iAsyncRequests s @ [nextRequest s])" "aState (auth ?t a) \<noteq> ECheckPolicy"
    then show "prompted ?t a"
      using assms(1) t(7) [of a] t(9) by (cases "a = nextRequest s") (auto simp: answers_ok_def prompted_def)
  next
    fix x
    assume x: "x \<in> set (written s)"
    then have "(fst x, None) \<in> set (completed s)" using assms(1) by (cases x) (auto simp: answers_ok_def)
    then have "auth ?t (fst x) = auth s (fst x)" by (rule old)
    then show "case x of (a, d) \<Rightarrow> (a, None) \<in> set (completed s) \<and> (\<exists>p. aPolicy (auth ?t a) = Some p \<and> decision_offered p d)"
      using x assms(1) by (cases x) (fastforce simp: answers_ok_def)
  qed (use assms in \<open>auto simp: answers_ok_def\<close>)
  then show ?thesis .
next
  case (Some a)
  then show ?thesis using assms by (simp add: AddAsyncRequestL_def)
qed

lemma ExecutePromptL_answers:
  assumes "steady s" and "answers_ok s"
  shows "answers_ok (snd (ExecutePromptL openErr newErr session subsession request s))"
proof (rule ExecutePromptL_cases [where P = "\<lambda>s. answers_ok s \<and> nextRequest s \<notin> set (iAsyncRequests s)"])
  show "answers_ok s \<and> nextRequest s \<notin> set (iAsyncRequests s)"
    using assms queue_okD(2) [of "{}" s "nextRequest s"] by (auto simp: steady_def)
  show "answers_ok s' \<and> nextRequest s' \<notin> set (iAsyncRequests s')"
    if "answers_ok s \<and> nextRequest s \<notin> set (iAsyncRequests s)" "same_queues s s'" "written s' = written s"
      "completed s' = completed s" "auth s' = auth s" for s s'
    using that by (simp add: same_queues_def answers_ok_def prompted_def)
qed (simp_all add: AddAsyncRequestL_answers)

lemma DoServiceL_answers: "same_answers s (snd (DoServiceL env f s))"
proof -
  have "keeps (same_answers s) (DoServiceL env f)"
    unfolding DoServiceL_def by (cases f) (auto intro!: srv simp: same_answers_def)
  then show ?thesis by (simp add: keeps_def)
qed

lemma server_step_answers:
  assumes "steady s" and "answers_ok s" and "enabled e s"
  shows "answers_ok (server_step e s)"
proof (cases e)
  case (Run env a)
  then show ?thesis using assms run_request_answers by auto
next
  case (Manage env f)
  then show ?thesis using assms(2) answers_ok_same [OF DoServiceL_answers] by simp
next
  case (CancelPrompt session subsession)
  then show ?thesis
    using cancel_events_keep(1) [of answers_ok s session subsession, OF cancel_one_answers] assms by simp
next
  case (CloseSession session subsession complete)
  then show ?thesis
    using cancel_events_keep(2) [of answers_ok s session subsession complete, OF cancel_one_answers] assms by simp
qed (use assms ExecutePromptL_answers in simp)

lemma reachable_answers: "server_reachable s \<Longrightarrow> answers_ok s"
proof (induction rule: server_reachable.induct)
  case (start s)
  then show ?case by (simp add: started_def answers_ok_def)
next
  case (event s e)
  then show ?case using server_step_answers reachable_steady by blast
qed

end
