(* ===== verification/UpsServerProperties.thy ===== *)
theory UpsServerProperties
  imports UpsServerAnswers
begin

section \<open>What the user prompt server promises\<close>

text \<open>
  The properties of the server of the theory \<open>UpsServer\<close> in all its reachable states, from the
  invariants of the three theories before, and a run of two requests on which they are applied.
\<close>

subsection \<open>A round runs every request that waits in it\<close>

definition awaits :: "aid \<Rightarrow> CUpsServer \<Rightarrow> bool" where
  "awaits a s \<longleftrightarrow> a \<in> set (iAsyncRequests s) \<and>
     (a \<in> set (iFlurryQueueBeingProcessed s) \<or> aActive (auth s a) \<and> aUserInput (auth s a))"

lemma awaits_same: "same_queues s s' \<Longrightarrow> awaits a s' = awaits a s"
  by (simp add: same_queues_def awaits_def)

lemma awaits_frame: "(\<And>s0. keeps (same_queues s0) m) \<Longrightarrow> keeps (awaits a) m"
  unfolding keeps_def using awaits_same same_queues_refl by metis

lemma awaits_upd: "r \<noteq> a \<Longrightarrow> awaits a s \<Longrightarrow> awaits a (upd r g s)"
  by (simp add: awaits_def)

lemma awaits_SetActive: "r \<noteq> a \<Longrightarrow> awaits a s \<Longrightarrow> awaits a (SetActive r s)"
  by (simp add: SetActive_def awaits_def)

lemma awaits_WakeupNextPendingL: "awaits a s \<Longrightarrow> awaits a (WakeupNextPendingL s)"
  by (auto simp: awaits_def WakeupNextPendingL_def Wakeup_def CompleteSelf_def SetActive_def
      split: list.split TAuthoriserState.splits if_splits)

lemma awaits_AuthoriserDoneL:
  assumes "r \<noteq> a" and "awaits a s"
  shows "awaits a (AuthoriserDoneL r s)"
proof -
  let ?s = "s\<lparr>iFlurryQueue := remove1 r (iFlurryQueue s),
    iFlurryQueueBeingProcessed := remove1 r (iFlurryQueueBeingProcessed s)\<rparr>"
  let ?t = "?s\<lparr>iCurrentDialog := None\<rparr>"
  let ?u = "if iFlurryQueueBeingProcessed ?t = []
    then ?t\<lparr>iFlurryQueue := iFlurryQueueBeingProcessed ?t, iFlurryQueueBeingProcessed := iFlurryQueue ?t\<rparr> else ?t"
  have s: "awaits a ?s" using assms by (simp add: awaits_def in_set_remove1)
  then have "awaits a ?u" by (auto simp: awaits_def)
  then have "awaits a (WakeupNextPendingL ?u)" by (rule awaits_WakeupNextPendingL)
  then show ?thesis unfolding AuthoriserDoneL_def Let_def using s by simp
qed

lemma awaits_finish:
  assumes "r \<noteq> a" and "awaits a s"
  shows "awaits a (CompleteAndMarkForDeletion r e s)"
proof -
  let ?s = "undispute r (s\<lparr>completed := (r, e) # completed s\<rparr>)"
  have "awaits a (s\<lparr>completed := (r, e) # completed s\<rparr>)" using assms(2) by (simp add: awaits_def)
  then have "awaits a ?s" using awaits_same [OF undispute_queues] by blast
  then have "awaits a (Cancel r ?s)"
    using assms(1) by (auto simp: Cancel_def DoCancel_def intro: awaits_upd awaits_WakeupNextPendingL)
  then have "awaits a (AuthoriserDoneL r (Cancel r ?s))" using assms(1) by (rule awaits_AuthoriserDoneL [rotated])
  then show ?thesis
    using assms(1)
    by (simp add: CompleteAndMarkForDeletion_def MarkForDeletion_def DoCleanup_def Let_def awaits_def in_set_remove1)
qed

lemma awaits_event:
  assumes "r \<noteq> a"
  shows "keeps (awaits a) (ProcessEventL env EInternalRequestComplete r)"
proof -
  have prepare: "keeps (awaits a) (PrepareDialogL env r)" and create: "keeps (awaits a) (CreateFingerprintsL env r)"
    using assms by (auto simp: PrepareDialogL_def CreateFingerprintsL_def
        intro!: keeps_thenL keeps_changeL keeps_faultL awaits_upd awaits_SetActive)
  have gate: "keeps (awaits a) (GateKeeperL env r)"
    using prepare by (auto simp: keeps_def GateKeeperL_def ClearedToDisplayL_def awaits_def split: option.split)
  have "keeps (awaits a) (MatchL env r)"
    by (auto simp: keeps_def MatchL_def awaits_def Let_def split: prod.split)
  then have "keeps (awaits a) (LookupPolicyL env r)"
    unfolding LookupPolicyL_def using assms create
    by (auto intro!: keeps_thenL keeps_if keeps_changeL awaits_frame [OF WriteDecisionL_same] awaits_upd awaits_finish)
  moreover have "keeps (awaits a) (LookupFingerprintsL env r)"
    unfolding LookupFingerprintsL_def using assms gate
    by (auto intro!: keeps_thenL keeps_if keeps_changeL keeps_option keeps_pair keeps_simple awaits_upd awaits_finish
        awaits_frame [OF find_record_same] awaits_frame [OF stored_decision_same] awaits_frame [OF WriteDecisionL_same])
  moreover have "keeps (awaits a) (ExecuteDialogL r)"
    unfolding ExecuteDialogL_def using assms by (auto intro!: keeps_changeL awaits_upd awaits_SetActive)
  moreover have "keeps (awaits a) (ProcessDialogResultL env r)"
    unfolding ProcessDialogResultL_def using assms
    by (auto intro!: keeps_thenL keeps_changeL keeps_simple awaits_upd awaits_finish awaits_frame [OF delete_forced_same]
        awaits_frame [OF store_decision_same] awaits_frame [OF WriteDecisionL_same])
  ultimately show ?thesis by (auto simp: keeps_def ProcessEventL_def split: TAuthoriserState.split)
qed

lemma run_request_awaits:
  assumes "r \<noteq> a" and "awaits a s"
  shows "awaits a (run_request env r s)"
proof -
  have "keeps (awaits a) (RunL env r)"
    unfolding RunL_def using assms(1) awaits_event
    by (auto intro!: keeps_thenL keeps_changeL keeps_faultL awaits_upd awaits_WakeupNextPendingL)
  then have "awaits a (snd (RunL env r (upd r (\<lambda>x. (plugin_results env x)\<lparr>aActive := False\<rparr>) s)))"
    using awaits_upd [OF assms] by (simp add: keeps_def)
  then show ?thesis
    using assms(1) by (auto simp: run_request_def intro: awaits_finish split: prod.split sum.split)
qed

lemma woken_runs_awaits: "woken_runs rs s t \<Longrightarrow> awaits a s \<Longrightarrow> a \<notin> set rs \<Longrightarrow> awaits a t"
  by (induction rule: woken_runs.induct) (auto intro: run_request_awaits)

subsection \<open>The server keeps its database well formed\<close>

definition has_db :: "CUpsServer \<Rightarrow> bool" where
  "has_db s \<longleftrightarrow> db_ok (iDbHandle s)"

lemma db_fields [simp]:
  "iDbHandle (SetActive a s) = iDbHandle s" "iDbHandle (AuthoriserDoneL a s) = iDbHandle s"
  "iDbHandle (DoCleanup a s) = iDbHandle s" "iDbHandle (MarkForDeletion a s) = iDbHandle s"
  "iDbHandle (cancel_one complete a s) = iDbHandle s"
  by (auto simp: SetActive_def AuthoriserDoneL_def DoCleanup_def Cancel_def DoCancel_def undispute_def
      UnDisputeRecordIdL_def cancel_one_def MarkForDeletion_fields CompleteAndMarkForDeletion_fields Let_def)

lemma has_db_frame: "(\<And>s. iDbHandle (snd (m s)) = iDbHandle s) \<Longrightarrow> keeps has_db m"
  by (simp add: keeps_def has_db_def)

lemma has_db_calls [srv]:
  "keeps has_db (UpdateDbL env flt record)" "keeps has_db (CreateDbL env record)" "keeps has_db (RemoveDbL env flt)"
  using UpdateDecisionL_ok CreateDecisionL_ok RemoveDecisionsL_ok
  by (auto simp: keeps_def has_db_def UpdateDbL_def CreateDbL_def RemoveDbL_def split: prod.split)

lemma has_db_HandleDbErrorL [srv]: "keeps has_db (HandleDbErrorL env e)"
  by (auto simp: keeps_def has_db_def HandleDbErrorL_def db_ok_def empty_db_def split: option.split)

lemma has_db_handleL [srv]: "keeps has_db (handleL env err)"
  unfolding handleL_def by (auto intro!: srv)

lemma has_db_disputes [srv]: "keeps has_db (UnDisputeRecordIdL i)" "keeps has_db (DisputeRecordIdL env i)"
  by (auto intro!: has_db_frame simp: UnDisputeRecordIdL_def DisputeRecordIdL_def split: option.split)

lemma has_db_finish [srv]: "keeps has_db (changeL (CompleteAndMarkForDeletion a e))"
  by (rule has_db_frame) (simp add: changeL_def CompleteAndMarkForDeletion_fields)

lemma has_db_find_record [srv]: "keeps has_db (find_record env i flt fps)"
proof (induction fps arbitrary: i flt)
  case Nil
  then show ?case by (simp add: keeps_def)
next
  case (Cons fp fps)
  have "keeps has_db (thenL (HandleDbErrorL env e) (\<lambda>_. find_record env (Suc i) flt fps))" for e flt
    by (intro srv Cons.IH)
  then show ?case
    using Cons.IH by (auto simp: keeps_def split: sum.split option.split)
qed

lemma has_db_GateKeeperL [srv]: "keeps has_db (GateKeeperL env a)"
proof -
  have "keeps has_db (PrepareDialogL env a)"
    unfolding PrepareDialogL_def by (auto intro!: srv simp: has_db_def)
  then show ?thesis
    by (auto simp: keeps_def GateKeeperL_def ClearedToDisplayL_def has_db_def panic_def split: option.split)
qed

lemma has_db_stored_decision [srv]: "keeps has_db (stored_decision env a flt record)"
proof -
  have "keeps has_db (forget_forced a record)"
    using has_db_disputes(1) by (auto simp: keeps_def forget_forced_def has_db_def Let_def)
  then show ?thesis
    unfolding stored_decision_def force_prompt_def by (auto intro!: srv simp: has_db_def)
qed

lemma has_db_event: "keeps has_db (ProcessEventL env EInternalRequestComplete a)"
proof -
  have "keeps has_db (MatchL env a)"
    by (auto intro!: has_db_frame simp: MatchL_def Let_def split: prod.split)
  then have "keeps has_db (LookupPolicyL env a)"
    unfolding LookupPolicyL_def WriteDecisionL_def CreateFingerprintsL_def
    by (auto intro!: srv simp: has_db_def CompleteAndMarkForDeletion_fields)
  moreover have "keeps has_db (LookupFingerprintsL env a)"
    unfolding LookupFingerprintsL_def WriteDecisionL_def
    by (auto intro!: srv simp: has_db_def CompleteAndMarkForDeletion_fields)
  moreover have "keeps has_db (ProcessDialogResultL env a)"
    unfolding ProcessDialogResultL_def delete_forced_def store_decision_def WriteDecisionL_def
    by (auto intro!: srv simp: has_db_def CompleteAndMarkForDeletion_fields)
  moreover have "keeps has_db (ExecuteDialogL a)"
    unfolding ExecuteDialogL_def by (auto intro!: srv simp: has_db_def)
  ultimately show ?thesis by (auto simp: keeps_def ProcessEventL_def split: TAuthoriserState.split)
qed

lemma run_request_has_db: "has_db s \<Longrightarrow> has_db (run_request env a s)"
proof (rule run_request_cases [where P = has_db and E = has_db])
  show "triple (\<lambda>s. has_db s \<and> aState (auth s a) = st) (ProcessEventL env EInternalRequestComplete a) (\<lambda>_. has_db) has_db"
    for st
    by (rule triple_weaken [OF triple_keeps [OF has_db_event]]) auto
qed (auto simp: has_db_def CompleteAndMarkForDeletion_fields)

lemma server_step_has_db:
  assumes "has_db s"
  shows "has_db (server_step e s)"
proof (cases e)
  case (Execute openErr newErr session subsession request)
  have "has_db (snd (AddAsyncRequestL session subsession request t))" if "has_db t" for t
    using that AddAsyncRequestL_fields(6) [of session subsession t request]
    by (cases "FindAsyncRequest session subsession t") (auto simp: AddAsyncRequestL_def has_db_def)
  then show ?thesis
    using ExecutePromptL_cases [where P = has_db and Q = has_db] assms Execute by (simp add: has_db_def)
next
  case (Run env a)
  then show ?thesis using run_request_has_db assms by simp
next
  case (CancelPrompt session subsession)
  then show ?thesis
    using assms by (auto simp: CancelAsyncRequest_def has_db_def CompleteAndMarkForDeletion_fields split: option.split)
next
  case (CloseSession session subsession complete)
  have "has_db s \<Longrightarrow> has_db (fold (cancel_one complete) as s)" for as s
    by (induction as arbitrary: s) (auto simp: has_db_def)
  then show ?thesis using assms CloseSession by (simp add: CancelOutstandingRequests_def)
next
  case (Manage env f)
  have "keeps has_db (DoServiceL env f)"
    unfolding DoServiceL_def by (cases f) (auto intro!: srv simp: has_db_def db_ok_def empty_db_def)
  then show ?thesis using assms Manage by (simp add: keeps_def)
qed

lemma reachable_has_db: "server_reachable s \<Longrightarrow> has_db s"
proof (induction rule: server_reachable.induct)
  case (start s)
  then show ?case by (simp add: started_def has_db_def)
next
  case (event s e)
  then show ?case by (simp add: server_step_has_db)
qed

subsection \<open>A run of two requests\<close>

definition demo_decision :: CDecisionRecord where
  "demo_decision = \<lparr>rClientSid = 7, rEvaluatorId = 5, rServiceId = 2, rServerSid = 1, rFingerprint = [1],
     rClientEntity = [], rDescription = [], rResult = 1, rMajorPolicyVersion = 3, rRecordId = 1, rEvaluatorInfo = 0\<rparr>"

definition demo_server :: CUpsServer where
  "demo_server = \<lparr>iAsyncRequests = [], auth = (\<lambda>a. new_authoriser 0 0 0 (demo_request 7)), iFlurryQueue = [],
     iFlurryQueueBeingProcessed = [], iCurrentDialog = None, iDisputed = [],
     iDbHandle = \<lparr>rows = [demo_decision], nextId = 2, inTransaction = False\<rparr>, iPolicyCache = Some 0,
     caches = (\<lambda>c. demo_cache\<lparr>iPolicyLists := [demo_list]\<rparr>), nextCache = 1, nextRequest = 0, written = [],
     completed = [], panicked = False, dialogPanic = False\<rparr>"

definition demo_run_env :: "bool \<Rightarrow> run_env" where
  "demo_run_env force = \<lparr>envPolicy = demo_env, envFs = demo_fs, envStatus = None, envEvaluatorErr = None,
     envFingerprints = [[1]], envEntity = None, envCreatorErr = None,
     envForcePromptL = (\<lambda>record info. Ok (force, info)), envSelected = EYes, envDialogFingerprint = None,
     envInfo = 0, envFilterErr = None, envGetFault = (\<lambda>i. None), envUpdateFault = None, envCreateFault = None,
     envRemoveFaults = (\<lambda>i. \<lparr>prepareErr = None, syntaxErr = KErrArgument, beginErr = None, deleteErr = None,
       commitErr = None\<rparr>),
     envRecover = (\<lambda>i. None), envCollation = (\<lambda>s t. s = t), envDeleteErr = None, envPushErr = None,
     envDisputeErr = None, envWriteErr = None\<rparr>"

definition demo_events :: "server_event list" where
  "demo_events =
     [Execute None None 1 1 (demo_request 7), Execute None None 1 2 (demo_request 7), Run (demo_run_env True) 0,
      Run (demo_run_env True) 1, Run (demo_run_env True) 0, Run (demo_run_env True) 1]"

fun all_enabled :: "server_event list \<Rightarrow> CUpsServer \<Rightarrow> bool" where
  "all_enabled [] s \<longleftrightarrow> True"
| "all_enabled (e # es) s \<longleftrightarrow> enabled e s \<and> all_enabled es (server_step e s)"

lemma reachable_run: "server_reachable s \<Longrightarrow> all_enabled es s \<Longrightarrow> server_reachable (fold server_step es s)"
  by (induction es arbitrary: s) (auto intro: server_reachable.event)

definition demo_filter :: CDecisionFilter where
  "demo_filter = (case CDecisionFilter_NewLC 7 5 2 1 KDefaultFingerprint [] 3 of Inl e \<Rightarrow> empty_filter | Inr f \<Rightarrow> f)"

definition demo_search :: CDecisionFilter where
  "demo_search = (case SetFingerprintL [1] EEqual demo_filter of Inl e \<Rightarrow> empty_filter | Inr f \<Rightarrow> f)"

lemma demo_filters:
  "CDecisionFilter_NewLC 7 5 2 1 KDefaultFingerprint [] 3 = Ok demo_filter"
  "SetFingerprintL [1] EEqual demo_filter = Ok demo_search"
  "GetDecisionL None \<lparr>rows = [demo_decision], nextId = 2, inTransaction = False\<rparr> demo_search = Ok (Some demo_decision)"
  by code_simp+

lemma demo_match:
  "CPolicyCache_MatchL demo_env demo_fs (demo_cache\<lparr>iPolicyLists := [demo_list]\<rparr>) (demo_request 7) =
     (Ok (demo_policy 1), demo_cache\<lparr>iPolicyLists := [demo_list]\<rparr>)"
  "PromptRequired (demo_policy 1)"
  by code_simp+

lemma demo_request_filter:
  "aRequest x = demo_request 7 \<Longrightarrow> aPolicy x = Some (demo_policy 1) \<Longrightarrow> aClientEntity x = None \<Longrightarrow>
   request_filter (demo_run_env force) KDefaultFingerprint x = Ok demo_filter"
  using demo_filters(1)
  by (simp add: request_filter_def demo_run_env_def demo_request_def demo_policy_def entity_name_def request_policy_def)

lemma demo_decision_sel: "rRecordId demo_decision = 1" "rEvaluatorInfo demo_decision = 0" "rResult demo_decision = 1"
  by (simp_all add: demo_decision_def)

lemma demo_run_env_sel:
  "envFingerprints (demo_run_env f) = [[1]]" "envEntity (demo_run_env f) = None"
  "envGetFault (demo_run_env f) = (\<lambda>i. None)" "envForcePromptL (demo_run_env f) = (\<lambda>record info. Ok (f, info))"
  "envStatus (demo_run_env f) = None" "envEvaluatorErr (demo_run_env f) = None" "envPolicy (demo_run_env f) = demo_env"
  "envFs (demo_run_env f) = demo_fs" "envDisputeErr (demo_run_env f) = None" "envWriteErr (demo_run_env f) = None"
  "envPushErr (demo_run_env f) = None" "envCreatorErr (demo_run_env f) = None"
  by (simp_all add: demo_run_env_def)

lemmas server_eval = ExecutePromptL_def AddAsyncRequestL_def FindAsyncRequest_def new_authoriser_def thenL_def getL_def
  returnL_def changeL_def faultL_def leaveL_def liftL_def Wakeup_def SetActive_def CompleteSelf_def upd_def
  run_request_def RunL_def plugin_results_def WakeupNextPendingL_def ProcessEventL_def LookupPolicyL_def MatchL_def
  CreateFingerprintsL_def demo_match Let_def LookupFingerprintsL_def demo_request_filter demo_filters demo_run_env_sel
  stored_decision_def forget_forced_def force_prompt_def GateKeeperL_def ClearedToDisplayL_def PrepareDialogL_def
  DisputeRecordIdL_def demo_decision_sel IsRecordIdDisputed_def WriteDecisionL_def CompleteAndMarkForDeletion_def
  MarkForDeletion_def DoCleanup_def undispute_def Cancel_def AuthoriserDoneL_def CancelOutstandingRequests_def
  cancel_one_def DoCancel_def UnDisputeRecordIdL_def woken_def

text \<open>One request holds the dialog up, with a disputed decision, and the other one waits for it.\<close>

definition demo_waiting :: CUpsServer where
  "demo_waiting = fold server_step demo_events demo_server"

lemma demo_started: "server_reachable demo_server"
  by (rule server_reachable.start) (simp add: started_def demo_server_def db_ok_def demo_decision_def)

lemma demo_enabled: "all_enabled demo_events demo_server"
  by (simp add: demo_events_def demo_server_def server_eval)

lemma demo_waiting_reachable: "server_reachable demo_waiting"
  unfolding demo_waiting_def using demo_started demo_enabled by (rule reachable_run)

lemma demo_waiting_state:
  "iAsyncRequests demo_waiting = [0, 1]" "iFlurryQueue demo_waiting = [1]" "iFlurryQueueBeingProcessed demo_waiting = []"
  "iCurrentDialog demo_waiting = Some 0" "iDisputed demo_waiting = [1]" "aState (auth demo_waiting 0) = EPreparingDialog"
  "aPromptForced (auth demo_waiting 0)" "\<not> aPromptForced (auth demo_waiting 1)" "\<not> aActive (auth demo_waiting 1)"
  by (simp_all add: demo_waiting_def demo_events_def demo_server_def server_eval)

text \<open>The first subsession closes, and the request that waited is woken.\<close>

definition demo_closed :: CUpsServer where
  "demo_closed = server_step (CloseSession 1 (Some 1) False) demo_waiting"

lemma demo_closed_reachable: "server_reachable demo_closed"
  unfolding demo_closed_def
  by (rule server_reachable.event [OF demo_waiting_reachable])
     (simp add: demo_waiting_def demo_events_def demo_server_def server_eval)

lemma demo_closed_state: "iAsyncRequests demo_closed = [1]" "woken demo_closed = {1}" "iDisputed demo_closed = []"
  by (auto simp add: demo_closed_def demo_waiting_def demo_events_def demo_server_def server_eval)

subsection \<open>The properties\<close>

text \<open>
  C34: At most one dialog is prepared or displayed at a time, whatever the clients, the plugins and
  the user do: an outstanding request is preparing or executing its dialog exactly when it is the
  \<open>iCurrentDialog\<close> of the server, which is always a request that is outstanding; and no
  \<open>SetActive\<close>, \<open>CompleteSelf\<close> or \<open>EClearedToDisplayDialog\<close> is called in a state where it panics.
\<close>

theorem dialogs_exclusive:
  "server_reachable s \<Longrightarrow>
     (\<forall>a \<in> set (iAsyncRequests s).
        (aState (auth s a) = EPreparingDialog \<or> aState (auth s a) = EExecutingDialog) = (iCurrentDialog s = Some a)) \<and>
     (\<forall>a. iCurrentDialog s = Some a \<longrightarrow> a \<in> set (iAsyncRequests s)) \<and> \<not> panicked s"
  using queue_okD(8,9,12) [of "{}" s] reachable_steady [of s] by (auto simp: steady_def)

theorem dialogs_exclusive_witness:
  "iCurrentDialog demo_waiting = Some 0 \<and> aState (auth demo_waiting 0) = EPreparingDialog \<and>
   aState (auth demo_waiting 1) \<noteq> EPreparingDialog \<and> \<not> panicked demo_waiting"
  using dialogs_exclusive [OF demo_waiting_reachable] by (auto simp: demo_waiting_state)

text \<open>
  C35: No request is forgotten: an outstanding request that is not active, so that no event of its
  own can run it, stands either in \<open>iFlurryQueue\<close> while the request that holds the dialog up is
  outstanding and active, or in \<open>iFlurryQueueBeingProcessed\<close> while a request that has been woken
  is about to run and to wake the next one.
\<close>

theorem waiting_requests_resume:
  assumes "server_reachable s" and "a \<in> set (iAsyncRequests s)" and "\<not> aActive (auth s a)"
  shows "a \<in> set (iFlurryQueue s) \<and>
       (\<exists>d \<in> set (iAsyncRequests s). iCurrentDialog s = Some d \<and> aActive (auth s d)) \<or>
     a \<in> set (iFlurryQueueBeingProcessed s) \<and> woken s \<noteq> {}"
proof -
  have s: "queue_ok {} s" "ready s" using reachable_steady [OF assms(1)] by (simp_all add: steady_def)
  note d = queue_okD [OF s(1)]
  have "a \<in> queued s" using d(7) assms(2,3) by auto
  moreover have "\<exists>d \<in> set (iAsyncRequests s). iCurrentDialog s = Some d \<and> aActive (auth s d)"
    if "a \<in> set (iFlurryQueue s)"
  proof -
    from that have "iCurrentDialog s \<noteq> None" using d(11) by fastforce
    then obtain b where b: "iCurrentDialog s = Some b" by auto
    then have "b \<in> set (iAsyncRequests s)" "b \<notin> queued s" using d(6,8,9) [of b] by auto
    then show ?thesis using d(7) b by blast
  qed
  moreover have "woken s \<noteq> {}" if "a \<in> set (iFlurryQueueBeingProcessed s)"
    using s(2) that by (auto simp: ready_def)
  ultimately show ?thesis by (auto simp: queued_def)
qed

theorem waiting_requests_resume_witness:
  "1 \<in> set (iFlurryQueue demo_waiting) \<and>
     (\<exists>d \<in> set (iAsyncRequests demo_waiting). iCurrentDialog demo_waiting = Some d \<and> aActive (auth demo_waiting d)) \<or>
   1 \<in> set (iFlurryQueueBeingProcessed demo_waiting) \<and> woken demo_waiting \<noteq> {}"
  by (rule waiting_requests_resume [OF demo_waiting_reachable]) (use demo_waiting_state in auto)

text \<open>
  C36: A round of woken requests comes to its end and serves all that waited: from any reachable
  state with \<open>N\<close> outstanding requests at most \<open>N * (N + 2)\<close> woken requests run one after the other,
  whatever the plugins, the policies and the database answer; while one is woken, a run is possible;
  and when none is left, the queue is empty and every request that was woken or stood in
  \<open>iFlurryQueueBeingProcessed\<close> has run, that is, has looked its decision up again.
\<close>

theorem woken_requests_run:
  assumes "server_reachable s" and "woken_runs rs s t"
  shows "length rs \<le> length (iAsyncRequests s) * (length (iAsyncRequests s) + 2) \<and>
     (woken t \<noteq> {} \<longrightarrow> (\<exists>env r. r \<in> woken t \<and> enabled (Run env r) t)) \<and>
     (woken t = {} \<longrightarrow> iFlurryQueueBeingProcessed t = [] \<and>
        (\<forall>a \<in> woken s \<union> set (iFlurryQueueBeingProcessed s). a \<in> set rs))"
proof (intro conjI impI)
  let ?N = "length (iAsyncRequests s)"
  have s: "steady s" using assms(1) by (rule reachable_steady)
  then have t: "steady t" "rank t + length rs \<le> rank s" using woken_runs_rank [OF assms(2)] by auto
  have "length rs \<le> ?N * (?N + 1) + ?N" using t(2) work_le [OF s] by (simp add: rank_def)
  then show "length rs \<le> ?N * (?N + 2)" by (simp add: algebra_simps)
  show "\<exists>env r. r \<in> woken t \<and> enabled (Run env r) t" if "woken t \<noteq> {}"
  proof -
    from that obtain r where "r \<in> woken t" by auto
    then have "enabled (Run (undefined\<lparr>envStatus := None\<rparr>) r) t" by (auto simp: woken_def)
    with \<open>r \<in> woken t\<close> show ?thesis by blast
  qed
  assume none: "woken t = {}"
  then show q: "iFlurryQueueBeingProcessed t = []" using t(1) by (auto simp: steady_def ready_def)
  have "\<not> awaits a t" for a using none q by (auto simp: awaits_def woken_def)
  moreover have "awaits a s" if "a \<in> woken s \<union> set (iFlurryQueueBeingProcessed s)" for a
    using that queue_okD(4) [of "{}" s a] s by (auto simp: awaits_def woken_def queued_def steady_def)
  ultimately show "\<forall>a \<in> woken s \<union> set (iFlurryQueueBeingProcessed s). a \<in> set rs"
    using woken_runs_awaits [OF assms(2)] by blast
qed

theorem woken_requests_run_witness:
  "woken demo_closed = {1} \<and> woken_runs [1] demo_closed (run_request (demo_run_env True) 1 demo_closed) \<and>
   woken (run_request (demo_run_env True) 1 demo_closed) = {} \<and>
   iFlurryQueueBeingProcessed (run_request (demo_run_env True) 1 demo_closed) = []"
proof -
  have run: "woken_runs ([] @ [1]) demo_closed (run_request (demo_run_env True) 1 demo_closed)"
    by (rule woken_runs.run [OF woken_runs.none])
       (auto simp: demo_closed_state woken_def demo_closed_def demo_waiting_def demo_events_def demo_server_def server_eval)
  moreover have "woken (run_request (demo_run_env True) 1 demo_closed) = {}"
    by (auto simp: demo_closed_def demo_waiting_def demo_events_def demo_server_def server_eval)
  ultimately show ?thesis
    using woken_requests_run [OF demo_closed_reachable run] demo_closed_state(2) by simp
qed

text \<open>
  C37: \<open>iDisputed\<close> is exactly the set of the records that some outstanding request disputes: it is
  sorted without repetition, every identifier in it belongs to exactly one outstanding request
  with \<open>iPromptForced\<close> set, and every such request has its own identifier in it; so no dispute
  outlives its request, and no two requests prompt for the same record identifier.
\<close>

theorem disputed_records_exact:
  assumes "server_reachable s"
  shows "sorted (iDisputed s) \<and> distinct (iDisputed s) \<and>
    (\<forall>i. i \<in> set (iDisputed s) \<longleftrightarrow>
       (\<exists>!a. a \<in> set (iAsyncRequests s) \<and> aPromptForced (auth s a) \<and> aPromptForcedRecordId (auth s a) = i))"
proof -
  have d: "sorted (iDisputed s)" "distinct (iDisputed s)" "inj_on (forced_id s) (owners s)"
    "set (iDisputed s) = forced_id s ` owners s"
    using reachable_disputes [OF assms] by (simp_all add: dispute_ok_def)
  have owner: "a \<in> owners s \<and> forced_id s a = i \<longleftrightarrow>
      a \<in> set (iAsyncRequests s) \<and> aPromptForced (auth s a) \<and> aPromptForcedRecordId (auth s a) = i" for a i
    by (auto simp: owners_def forced_id_def)
  have "i \<in> set (iDisputed s) \<longleftrightarrow> (\<exists>!a. a \<in> owners s \<and> forced_id s a = i)" for i
    using d(3) by (auto simp: d(4) dest: inj_onD)
  then show ?thesis using d(1,2) by (simp only: owner simp_thms)
qed

theorem disputed_records_exact_witness:
  "iDisputed demo_waiting = [1] \<and>
   (\<exists>!a. a \<in> set (iAsyncRequests demo_waiting) \<and> aPromptForced (auth demo_waiting a) \<and>
      aPromptForcedRecordId (auth demo_waiting a) = 1)"
proof -
  have "1 \<in> set (iDisputed demo_waiting) \<longleftrightarrow>
      (\<exists>!a. a \<in> set (iAsyncRequests demo_waiting) \<and> aPromptForced (auth demo_waiting a) \<and>
        aPromptForcedRecordId (auth demo_waiting a) = 1)"
    using disputed_records_exact [OF demo_waiting_reachable] by blast
  then show ?thesis by (simp add: demo_waiting_state(5))
qed


text \<open>A request that a stored decision answers.\<close>

definition demo_answered :: CUpsServer where
  "demo_answered = fold server_step
     [Execute None None 1 1 (demo_request 7), Run (demo_run_env False) 0, Run (demo_run_env False) 0] demo_server"

lemma demo_answered_reachable: "server_reachable demo_answered"
  unfolding demo_answered_def
  by (rule reachable_run [OF demo_started]) (simp add: demo_server_def server_eval)

lemma demo_granted: "MapCPolicyTOptions2TUpsDecision (demo_policy 1) EAlways = EUpsDecYes"
  by code_simp

lemma demo_answered_state:
  "written demo_answered = [(0, EUpsDecYes)]" "aPolicy (auth demo_answered 0) = Some (demo_policy 1)"
  by (simp_all add: demo_answered_def demo_server_def server_eval request_policy_def demo_granted)




end
