(* ===== verification/Asn1Enc.thy ===== *)
theory Asn1Enc
  imports BigInt Numerals
begin

section \<open>The ASN.1 encoder (\<open>certificateandkeymgmt/asn1/*enc.cpp\<close>)\<close>

text \<open>
  The objects that are encoded, as a tree of primitive and constructed ones, and how they are
  written by the distinguished encoding rules: the lengths that an object works out first, and the
  tag, length and contents that it then writes into a given place of a buffer.  Lengths are natural
  numbers: an encoding lies in memory, so its length fits a \<open>TUint\<close>.  The lengths that the code
  caches and updates up to the root when a child is added are functions of the tree here.
\<close>

type_synonym bytes = "byte list"

datatype TASN1Class = EUniversal | EApplicationSpecific | EContextSpecific | EPrivate

definition class_bits :: "TASN1Class \<Rightarrow> byte" where
  "class_bits c = (case c of EUniversal \<Rightarrow> 0 | EApplicationSpecific \<Rightarrow> 1 | EContextSpecific \<Rightarrow> 2 | EPrivate \<Rightarrow> 3)"

definition EASN1Boolean :: tuint where "EASN1Boolean = 1"
definition EASN1Integer :: tuint where "EASN1Integer = 2"
definition EASN1BitString :: tuint where "EASN1BitString = 3"
definition EASN1OctetString :: tuint where "EASN1OctetString = 4"
definition EASN1Null :: tuint where "EASN1Null = 5"
definition EASN1ObjectIdentifier :: tuint where "EASN1ObjectIdentifier = 6"
definition EASN1Sequence :: tuint where "EASN1Sequence = 16"
definition EASN1Set :: tuint where "EASN1Set = 17"

text \<open>
  The data of a primitive object: the bytes of \<open>CASN1EncBigInt\<close> are \<open>iWriteContents\<close>, those of an
  object identifier \<open>iFirstOctet\<close> and the numbers of the encoders in \<open>iData\<close>; \<open>CASN1EncEncoding\<close>
  holds the contents of an encoding that is written again.
\<close>

datatype asn1_primitive =
    CASN1EncBoolean bool
  | CASN1EncNull
  | CASN1EncInt tuint
  | CASN1EncBigInt bytes
  | CASN1EncOctetString bytes
  | CASN1EncBitString byte bytes
  | CASN1EncObjectIdentifier byte "tuint list"
  | CASN1EncEncoding bytes

datatype CASN1EncBase =
    CASN1EncPrimitive tuint TASN1Class asn1_primitive
  | CASN1EncConstructed tuint TASN1Class "CASN1EncBase list"

subsection \<open>Numbers in base 128 and base 256\<close>

text \<open>How often a number can be shifted before it is 0, less one, and what is left before that.\<close>

function shifts :: "nat \<Rightarrow> tuint \<Rightarrow> nat" where
  "shifts k working = (if k = 0 \<or> drop_bit k working = 0 then 0 else Suc (shifts k (drop_bit k working)))"
  by pat_completeness auto

lemma unat_drop_bit_less: "0 < k \<Longrightarrow> drop_bit k w \<noteq> 0 \<Longrightarrow> unat (drop_bit k w) < unat (w :: tuint)"
proof -
  assume "0 < k" and "drop_bit k w \<noteq> 0"
  then have "w \<noteq> 0" by auto
  then have "0 < unat w" by (simp add: unat_gt_0)
  moreover have "(1 :: nat) < 2 ^ k" using \<open>0 < k\<close> by (intro one_less_power) simp_all
  ultimately have "unat w div 2 ^ k < unat w" by (rule div_less_dividend [rotated])
  then show ?thesis by (subst unat_drop_bit_eq) (simp add: drop_bit_eq_div)
qed

termination shifts
  by (relation "measure (\<lambda>(k, w). unat w)") (auto simp: unat_drop_bit_less)

function last_shifted :: "nat \<Rightarrow> tuint \<Rightarrow> tuint" where
  "last_shifted k working =
     (if k = 0 \<or> drop_bit k working = 0 then working else last_shifted k (drop_bit k working))"
  by pat_completeness auto

termination last_shifted
  by (relation "measure (\<lambda>(k, w). unat w)") (auto simp: unat_drop_bit_less)

declare shifts.simps [simp del] last_shifted.simps [simp del]

definition Base128_LengthDER :: "tuint \<Rightarrow> nat" where
  "Base128_LengthDER aInt = 1 + shifts 7 aInt"

text \<open>The loops that write from the last byte to the first.\<close>

fun put_base128 :: "nat \<Rightarrow> nat \<Rightarrow> tuint \<Rightarrow> bytes \<Rightarrow> bytes" where
  "put_base128 pos 0 working aBuf = aBuf"
| "put_base128 pos (Suc n) working aBuf =
     put_base128 pos n (drop_bit 7 working) (aBuf[pos + n := ucast working OR 0x80])"

definition Base128_WriteDERL :: "tuint \<Rightarrow> bytes \<Rightarrow> nat \<Rightarrow> bytes \<times> nat" where
  "Base128_WriteDERL aInt aBuf aPos =
     (let last = aPos + Base128_LengthDER aInt - 1;
          aBuf = put_base128 aPos (Base128_LengthDER aInt) aInt aBuf
      in (aBuf[last := (aBuf ! last) AND 0x7F], aPos + Base128_LengthDER aInt))"

fun put_base256 :: "nat \<Rightarrow> nat \<Rightarrow> tuint \<Rightarrow> bytes \<Rightarrow> bytes" where
  "put_base256 pos 0 working aBuf = aBuf"
| "put_base256 pos (Suc n) working aBuf =
     put_base256 pos n (drop_bit 8 working) (aBuf[pos + n := ucast working])"

subsection \<open>Lengths\<close>

definition KMaxLowNumberFormTag :: tuint where "KMaxLowNumberFormTag = 30"
definition KMaxShortFormLength :: nat where "KMaxShortFormLength = 127"

definition CalculateTagLengthDER :: "tuint \<Rightarrow> nat" where
  "CalculateTagLengthDER iType = (if iType \<le> KMaxLowNumberFormTag then 1 else Base128_LengthDER iType + 1)"

definition CalculateLengthLengthDER :: "nat \<Rightarrow> nat" where
  "CalculateLengthLengthDER iContentsLengthDER =
     (if iContentsLengthDER > KMaxShortFormLength then 2 + shifts 8 (of_nat iContentsLengthDER) else 1)"

definition CASN1EncInt_ContentsLength :: "tuint \<Rightarrow> nat" where
  "CASN1EncInt_ContentsLength iInt =
     (let working = (if iInt <s 0 then NOT iInt else iInt)
      in 1 + shifts 8 working + (if last_shifted 8 working AND 0x80 \<noteq> 0 then 1 else 0))"

definition primitive_length :: "asn1_primitive \<Rightarrow> nat" where
  "primitive_length p =
     (case p of
        CASN1EncBoolean b \<Rightarrow> 1
      | CASN1EncNull \<Rightarrow> 0
      | CASN1EncInt i \<Rightarrow> CASN1EncInt_ContentsLength i
      | CASN1EncBigInt c \<Rightarrow> length c
      | CASN1EncOctetString c \<Rightarrow> length c
      | CASN1EncBitString padding c \<Rightarrow> if c = [] then 0 else length c + 1
      | CASN1EncObjectIdentifier f ds \<Rightarrow> 1 + sum_list (map Base128_LengthDER ds)
      | CASN1EncEncoding c \<Rightarrow> length c)"

definition total_length :: "tuint \<Rightarrow> nat \<Rightarrow> nat" where
  "total_length iType iContentsLengthDER =
     CalculateTagLengthDER iType + CalculateLengthLengthDER iContentsLengthDER + iContentsLengthDER"

fun LengthDER :: "CASN1EncBase \<Rightarrow> nat" where
  "LengthDER (CASN1EncPrimitive t c p) = total_length t (primitive_length p)"
| "LengthDER (CASN1EncConstructed t c es) = total_length t (sum_list (map LengthDER es))"

subsection \<open>Writing\<close>

definition WriteTagDERL :: "tuint \<Rightarrow> TASN1Class \<Rightarrow> bool \<Rightarrow> bytes \<Rightarrow> bytes" where
  "WriteTagDERL iType iClass constructed aBuf =
     (let aBuf = aBuf[0 := push_bit 6 (class_bits iClass)];
          aBuf = (if constructed then aBuf[0 := (aBuf ! 0) OR 0x20] else aBuf)
      in if iType \<le> KMaxLowNumberFormTag then aBuf[0 := (aBuf ! 0) OR ucast iType]
         else fst (Base128_WriteDERL iType (aBuf[0 := (aBuf ! 0) OR 0x1F]) 1))"

definition WriteLengthDER :: "nat \<Rightarrow> bytes \<Rightarrow> bytes" where
  "WriteLengthDER iContentsLengthDER aBuf =
     (if iContentsLengthDER > KMaxShortFormLength then
        let octets = CalculateLengthLengthDER iContentsLengthDER - 1
        in put_base256 1 octets (of_nat iContentsLengthDER) (aBuf[0 := of_nat octets OR 0x80])
      else aBuf[0 := of_nat iContentsLengthDER])"

fun put_all_base128 :: "tuint list \<Rightarrow> bytes \<Rightarrow> nat \<Rightarrow> bytes" where
  "put_all_base128 [] aBuf cursor = aBuf"
| "put_all_base128 (d # ds) aBuf cursor =
     (case Base128_WriteDERL d aBuf cursor of (aBuf, cursor) \<Rightarrow> put_all_base128 ds aBuf cursor)"

definition write_primitive :: "asn1_primitive \<Rightarrow> bytes \<Rightarrow> bytes" where
  "write_primitive p aBuf =
     (case p of
        CASN1EncBoolean b \<Rightarrow> aBuf[0 := (if b then 0xFF else 0)]
      | CASN1EncNull \<Rightarrow> aBuf
      | CASN1EncInt i \<Rightarrow> put_base256 0 (CASN1EncInt_ContentsLength i) i aBuf
      | CASN1EncBigInt c \<Rightarrow> c
      | CASN1EncOctetString c \<Rightarrow> c
      | CASN1EncBitString padding c \<Rightarrow> if c = [] then [] else padding # c @ drop (1 + length c) aBuf
      | CASN1EncObjectIdentifier f ds \<Rightarrow> put_all_base128 ds (aBuf[0 := f]) 1
      | CASN1EncEncoding c \<Rightarrow> c)"

text \<open>
  \<open>WriteHelperL\<close>: the function writes into the \<open>aLength\<close> bytes at \<open>aPos\<close> of the buffer, and is not
  called for a part of length 0.
\<close>

definition WriteHelperL :: "nat \<Rightarrow> (bytes \<Rightarrow> bytes result) \<Rightarrow> bytes \<times> nat \<Rightarrow> (bytes \<times> nat) result" where
  "WriteHelperL aLength aWriteFunc b =
     (case b of (aBuf, aPos) \<Rightarrow>
        if aLength = 0 then Ok (aBuf, aPos)
        else bindL (aWriteFunc (take aLength (drop aPos aBuf))) (\<lambda>r.
          Ok (take aPos aBuf @ r @ drop (aPos + length r) aBuf, aPos + aLength)))"

definition KErrDescriptorTooShort :: nat where "KErrDescriptorTooShort = 1"

definition write_object ::
    "tuint \<Rightarrow> TASN1Class \<Rightarrow> bool \<Rightarrow> nat \<Rightarrow> (bytes \<Rightarrow> bytes result) \<Rightarrow> bytes \<Rightarrow> nat \<Rightarrow> (bytes \<times> nat) result" where
  "write_object iType iClass constructed iContentsLengthDER contents aBuf aPos =
     (if length aBuf < aPos + total_length iType iContentsLengthDER then Leave (Panic KErrDescriptorTooShort)
      else bindL (WriteHelperL (CalculateTagLengthDER iType) (\<lambda>b. Ok (WriteTagDERL iType iClass constructed b)) (aBuf, aPos)) (\<lambda>b.
        bindL (WriteHelperL (CalculateLengthLengthDER iContentsLengthDER) (\<lambda>b. Ok (WriteLengthDER iContentsLengthDER b)) b) (\<lambda>b.
        WriteHelperL iContentsLengthDER contents b)))"

definition is_encoding :: "asn1_primitive \<Rightarrow> bool" where
  "is_encoding p \<longleftrightarrow> (case p of CASN1EncEncoding c \<Rightarrow> True | _ \<Rightarrow> False)"

text \<open>\<open>WriteChildren\<close> is \<open>CASN1EncConstructed::WriteContentsDERL\<close> from the given position.\<close>

function (sequential) WriteDERL :: "CASN1EncBase \<Rightarrow> bytes \<Rightarrow> nat \<Rightarrow> (bytes \<times> nat) result"
  and WriteChildren :: "CASN1EncBase list \<Rightarrow> bytes \<Rightarrow> nat \<Rightarrow> (bytes \<times> nat) result" where
  "WriteDERL (CASN1EncPrimitive t c p) aBuf aPos =
     write_object t c (is_encoding p) (primitive_length p) (\<lambda>b. Ok (write_primitive p b)) aBuf aPos"
| "WriteDERL (CASN1EncConstructed t c es) aBuf aPos =
     write_object t c True (sum_list (map LengthDER es))
       (\<lambda>b. bindL (WriteChildren es b 0) (\<lambda>(b, pos). Ok b)) aBuf aPos"
| "WriteChildren [] aBuf aPos = Ok (aBuf, aPos)"
| "WriteChildren (e # es) aBuf aPos = bindL (WriteDERL e aBuf aPos) (\<lambda>(aBuf, aPos). WriteChildren es aBuf aPos)"
  by pat_completeness auto

termination
  by (relation "measure (\<lambda>x. case x of Inl (e, _) \<Rightarrow> size e | Inr (es, _) \<Rightarrow> size_list size es)") auto

subsection \<open>Constructing objects\<close>

definition AddChildL :: "CASN1EncBase \<Rightarrow> CASN1EncBase \<Rightarrow> CASN1EncBase" where
  "AddChildL aChild self =
     (case self of
        CASN1EncConstructed t c es \<Rightarrow> CASN1EncConstructed t c (es @ [aChild])
      | CASN1EncPrimitive t c p \<Rightarrow> CASN1EncPrimitive t c p)"

definition SetTag :: "tuint \<Rightarrow> TASN1Class \<Rightarrow> CASN1EncBase \<Rightarrow> CASN1EncBase" where
  "SetTag aType aClass self =
     (case self of
        CASN1EncConstructed t c es \<Rightarrow> CASN1EncConstructed aType aClass es
      | CASN1EncPrimitive t c p \<Rightarrow> CASN1EncPrimitive aType aClass p)"

definition CASN1EncSequence :: CASN1EncBase where
  "CASN1EncSequence = CASN1EncConstructed EASN1Sequence EUniversal []"

definition CASN1EncSet :: CASN1EncBase where
  "CASN1EncSet = CASN1EncConstructed EASN1Set EUniversal []"

definition CASN1EncExplicitTag :: "CASN1EncBase \<Rightarrow> tuint \<Rightarrow> TASN1Class \<Rightarrow> CASN1EncBase" where
  "CASN1EncExplicitTag aEncoder aType aClass = CASN1EncConstructed aType aClass [aEncoder]"

text \<open>\<open>CASN1EncBigInt::ConstructL\<close>.\<close>

fun skip_zeros :: "bytes \<Rightarrow> bytes" where
  "skip_zeros (a # b # bs) = (if a = 0 \<and> \<not> bit b 7 then skip_zeros (b # bs) else a # b # bs)"
| "skip_zeros bs = bs"

definition CASN1EncBigInt_ConstructL :: "TInteger \<Rightarrow> asn1_primitive result" where
  "CASN1EncBigInt_ConstructL aInteger =
     bindL (BufferLC aInteger) (\<lambda>iContents.
       let first = length iContents - length (skip_zeros iContents);
           iContents = (if iContents \<noteq> [] \<and> bit (iContents ! first) 7 then 0 # iContents else iContents)
       in Ok (CASN1EncBigInt (drop first iContents)))"

text \<open>\<open>CASN1EncBitString::ConstructL\<close> with a number of bits.\<close>

definition CASN1EncBitString_ConstructL :: "bytes \<Rightarrow> nat \<Rightarrow> asn1_primitive result" where
  "CASN1EncBitString_ConstructL aBitStr aLengthBits =
     (let totalBits = length aBitStr * 8 in
      if totalBits < aLengthBits then Leave KErrArgument
      else let iPadding = of_nat (totalBits - aLengthBits) :: byte in
        if iPadding > 7 then Leave KErrArgument else Ok (CASN1EncBitString iPadding aBitStr))"

text \<open>\<open>TLex::Val\<close> of an unsigned decimal number, and \<open>CASN1EncObjectIdentifier::ConstructL\<close>.\<close>

definition lex_decimal :: "string \<Rightarrow> (tuint \<times> string) result" where
  "lex_decimal s =
     (if s = [] \<or> char_digit (hd s) = None then Leave KErrGeneral
      else case read_digits 0 s of (v, r) \<Rightarrow> if v < 2 ^ 32 then Ok (of_nat v, r) else Leave KErrOverflow)"

fun oid_terms :: "nat \<Rightarrow> string \<Rightarrow> tuint list result" where
  "oid_terms n [] = Ok []"
| "oid_terms 0 s = Ok []"
| "oid_terms (Suc n) (c # s) =
     (if c \<noteq> CHR ''.'' \<or> s = [] then Leave KErrBadDescriptor
      else bindL (lex_decimal s) (\<lambda>(v, r). bindL (oid_terms n r) (\<lambda>vs. Ok (v # vs))))"

text \<open>Every term takes a character of the string, so its length is fuel enough.\<close>

definition CASN1EncObjectIdentifier_ConstructL :: "string \<Rightarrow> asn1_primitive result" where
  "CASN1EncObjectIdentifier_ConstructL aStr =
     (if aStr = [] then Leave KErrBadDescriptor
      else bindL (lex_decimal aStr) (\<lambda>(first, r).
        if first > 2 then Leave KErrBadDescriptor
        else case r of
          [] \<Rightarrow> Leave KErrBadDescriptor
        | c # r \<Rightarrow>
            if c \<noteq> CHR ''.'' \<or> r = [] then Leave KErrBadDescriptor
            else bindL (lex_decimal r) (\<lambda>(second, r).
              if (first < 2 \<and> second < 40) \<or> (first = 2 \<and> second \<le> 175) then
                bindL (oid_terms (length r) r) (\<lambda>vs. Ok (CASN1EncObjectIdentifier (ucast (40 * first) + ucast second) vs))
              else Leave KErrBadDescriptor)))"

end
