(* ===== verification/Asn1Dec.thy ===== *)
theory Asn1Dec
  imports Asn1Enc
begin

section \<open>The ASN.1 decoder (\<open>certificateandkeymgmt/asn1/*dec.cpp\<close>)\<close>

text \<open>
  \<open>TASN1DecGeneric\<close> reads tag and length of an encoding, and the other classes read the contents.
  \<open>TInt\<close> is a 32 bit word whose sign is read by \<open>sint\<close>, so lengths and tags wrap as they do in the
  code.  A descriptor has at most \<open>2 ^ 28 - 1\<close> bytes (\<open>KMaxDes8Length\<close>).  Reading part of a
  descriptor out of its bounds panics (\<open>USER 22\<close>).
\<close>

subsection \<open>Tag and length\<close>

record TASN1DecGeneric =
  iEncoding :: bytes
  iStartOfContents :: nat
  iLength :: tuint
  iExplicitTag :: tuint
  iClass :: TASN1Class

definition KASN1ObjectMinLength :: nat where "KASN1ObjectMinLength = 2"

definition class_of_bits :: "byte \<Rightarrow> TASN1Class" where
  "class_of_bits b = (if b = 0 then EUniversal else if b = 1 then EApplicationSpecific
     else if b = 2 then EContextSpecific else EPrivate)"

text \<open>The loop over the bytes of a tag greater than 30, and over those of a long length.\<close>

function read_tag :: "bytes \<Rightarrow> tuint \<Rightarrow> nat \<Rightarrow> (tuint \<times> nat) result" where
  "read_tag bs T Pos =
     (if bs ! Pos \<ge> 128 then
        if length bs \<le> Pos + 1 + 1 then Leave KErrArgument
        else read_tag bs (push_bit 7 T + ucast (bs ! Pos AND 127)) (Pos + 1)
      else Ok (push_bit 7 T + ucast (bs ! Pos), Pos))"
  by pat_completeness auto

termination
  by (relation "measure (\<lambda>(bs, T, Pos). length bs - Pos)") auto

declare read_tag.simps [simp del]

fun read_length :: "bytes \<Rightarrow> nat \<Rightarrow> tuint \<Rightarrow> nat \<Rightarrow> (tuint \<times> nat) result" where
  "read_length bs 0 Length Pos = Ok (Length, Pos)"
| "read_length bs (Suc LengthOfLength) Length Pos =
     (if length bs \<le> Pos + 1 then Leave KErrArgument
      else read_length bs LengthOfLength (push_bit 8 Length + ucast (bs ! Pos)) (Pos + 1))"

definition InitL :: "bytes \<Rightarrow> TASN1DecGeneric result" where
  "InitL bs =
     (if length bs < KASN1ObjectMinLength then Leave KErrArgument
      else
        bindL (if bs ! 0 AND 0x1F = 0x1F then
                 if length bs \<le> 1 + 1 then Leave KErrArgument else read_tag bs 0 1
               else Ok (ucast (bs ! 0 AND 0x1F), 0)) (\<lambda>(T, Pos).
        let Pos = Pos + 1; l = bs ! Pos in
        bindL (if l > 128 then
                 if length bs \<le> Pos + 1 then Leave KErrArgument
                 else read_length bs (unat (l AND 127)) 0 (Pos + 1)
               else if l = 128 then Leave KErrNotSupported
               else Ok (ucast l, Pos + 1)) (\<lambda>(Length, Pos).
        if sint (Length + of_nat Pos) > int (length bs) \<or> Length <s 0 then Leave KErrArgument
        else Ok \<lparr>iEncoding = bs, iStartOfContents = Pos, iLength = Length, iExplicitTag = T,
               iClass = class_of_bits (drop_bit 6 (bs ! 0))\<rparr>)))"

definition GetContentDER :: "TASN1DecGeneric \<Rightarrow> bytes result" where
  "GetContentDER g =
     (if iStartOfContents g + unat (iLength g) \<le> length (iEncoding g)
      then Ok (take (unat (iLength g)) (drop (iStartOfContents g) (iEncoding g)))
      else Leave (Panic 22))"

definition DecLengthDER :: "TASN1DecGeneric \<Rightarrow> tuint" where
  "DecLengthDER g = iLength g + of_nat (iStartOfContents g)"

definition LengthDERHeader :: "TASN1DecGeneric \<Rightarrow> tuint" where
  "LengthDERHeader g = DecLengthDER g - iLength g"

definition Encoding :: "TASN1DecGeneric \<Rightarrow> bytes result" where
  "Encoding g =
     (if DecLengthDER g <s 0 \<or> length (iEncoding g) < unat (DecLengthDER g) then Leave (Panic 22)
      else Ok (take (unat (DecLengthDER g)) (iEncoding g)))"

subsection \<open>Sequences and sets\<close>

text \<open>
  A length that wraps to a negative number makes the position negative, and \<open>Right\<close> panics on
  more bytes than there are.  The number of steps is bounded by the length of the contents.
\<close>

function DecodeContentsL :: "bytes \<Rightarrow> nat \<Rightarrow> TASN1DecGeneric list result" where
  "DecodeContentsL aSource pos =
     (if length aSource \<le> pos then Ok []
      else bindL (InitL (drop pos aSource)) (\<lambda>g.
        if sint (DecLengthDER g) \<le> 0 then Leave (Panic 22)
        else bindL (DecodeContentsL aSource (pos + nat (sint (DecLengthDER g)))) (\<lambda>gs. Ok (g # gs))))"
  by pat_completeness auto

termination
  by (relation "measure (\<lambda>(aSource, pos). length aSource - pos)") auto

declare DecodeContentsL.simps [simp del]

definition DecodeSequence :: "TASN1DecGeneric \<Rightarrow> TASN1DecGeneric list result" where
  "DecodeSequence aSource = bindL (GetContentDER aSource) (\<lambda>c. DecodeContentsL c 0)"

definition DecodeSequenceBetween :: "TASN1DecGeneric \<Rightarrow> nat \<Rightarrow> nat \<Rightarrow> TASN1DecGeneric list result" where
  "DecodeSequenceBetween aSource aMin aMax =
     bindL (DecodeSequence aSource) (\<lambda>gs.
       if length gs < aMin \<or> aMax < length gs then Leave KErrArgument else Ok gs)"

subsection \<open>Primitive types\<close>

definition DecodeBooleanL :: "TASN1DecGeneric \<Rightarrow> bool result" where
  "DecodeBooleanL aSource =
     bindL (GetContentDER aSource) (\<lambda>content.
       if length content \<noteq> 1 then Leave KErrArgument
       else if content ! 0 = 0 then Ok False
       else if content ! 0 = 0xFF then Ok True
       else Leave KErrArgument)"

definition DecodeNullL :: "TASN1DecGeneric \<Rightarrow> unit result" where
  "DecodeNullL aSource =
     bindL (Encoding aSource) (\<lambda>contents.
       if length contents \<noteq> 2 \<or> contents ! 1 AND 0xFF \<noteq> 0 \<or> contents ! 0 AND 0x05 = 0
       then Leave KErrArgument else Ok ())"

definition DecodeDERShortL :: "TASN1DecGeneric \<Rightarrow> tuint result" where
  "DecodeDERShortL aSource =
     bindL (GetContentDER aSource) (\<lambda>ptr.
       if ptr = [] then Leave KErrArgument
       else if 4 < length ptr then Leave (KErrCode (- 40))
       else Ok (foldl (\<lambda>res b. push_bit 8 res + ucast b) (if bit (ptr ! 0) 7 then - 1 else 0) ptr))"

definition DecodeDERLongL :: "TASN1DecGeneric \<Rightarrow> TInteger result" where
  "DecodeDERLongL aSource = bindL (GetContentDER aSource) (\<lambda>data. Ok (NewBytesL data))"

definition DecodeOctetStringL :: "TASN1DecGeneric \<Rightarrow> bytes result" where
  "DecodeOctetStringL aSource = GetContentDER aSource"

definition ExtractOctetStringL :: "TASN1DecGeneric \<Rightarrow> bytes result" where
  "ExtractOctetStringL aSource =
     bindL (GetContentDER aSource) (\<lambda>enc.
       if enc = [] then Ok []
       else if length enc = 1 then Leave KErrArgument
       else if enc ! 0 > 7 then Leave KErrArgument
       else
         let octets = tl enc; m = push_bit (unat (enc ! 0)) 255
         in Ok (octets[length octets - 1 := last octets AND m]))"

subsection \<open>Object identifiers\<close>

definition KNumberOfIDs :: nat where "KNumberOfIDs = 15"
definition KMaxOIDLength :: nat where "KMaxOIDLength = 164"

definition oid_overflow :: "tuint \<Rightarrow> bool" where
  "oid_overflow SubID \<longleftrightarrow> SubID \<noteq> 0 \<and> push_bit 7 SubID \<le>s SubID"

fun read_sub_id :: "tuint \<Rightarrow> bytes \<Rightarrow> (tuint \<times> bytes) result" where
  "read_sub_id SubID [] = Leave (Panic 21)"
| "read_sub_id SubID (b # bs) =
     (if b AND 0x80 \<noteq> 0 then
        if oid_overflow SubID then Leave KErrOverflow
        else if bs = [] then Leave KErrArgument
        else read_sub_id (push_bit 7 SubID + ucast (b AND 0x7F)) bs
      else if oid_overflow SubID then Leave KErrOverflow
      else Ok (push_bit 7 SubID + ucast b, bs))"

lemma read_sub_id_shorter: "read_sub_id s bs = Inr (i, r) \<Longrightarrow> length r < length bs"
  by (induction s bs rule: read_sub_id.induct) (fastforce split: if_splits)+

function read_sub_ids :: "nat \<Rightarrow> bytes \<Rightarrow> tuint list result" where
  "read_sub_ids SIDn bs =
     (if bs = [] then Ok []
      else case read_sub_id 0 bs of
        Inl e \<Rightarrow> Leave e
      | Inr (SubID, bs) \<Rightarrow>
          if KNumberOfIDs \<le> SIDn then Leave KErrOverflow
          else bindL (read_sub_ids (Suc SIDn) bs) (\<lambda>is. Ok (SubID # is)))"
  by pat_completeness auto

termination
  by (relation "measure (\<lambda>(n, bs). length bs)") (auto simp: read_sub_id_shorter)

declare read_sub_ids.simps [simp del]

definition DecodeOidContentsL :: "bytes \<Rightarrow> tuint list result" where
  "DecodeOidContentsL aSource =
     (case aSource of
        [] \<Rightarrow> Leave KErrArgument
      | b # bs \<Rightarrow>
          let SubID = ucast b :: tuint;
              ids = (if SubID \<ge> 80 then [2, SubID - 80] else if SubID \<ge> 40 then [1, SubID - 40] else [0, SubID])
          in bindL (read_sub_ids 2 bs) (\<lambda>is. Ok (ids @ is)))"

text \<open>The text is appended to a buffer of \<open>KMaxOIDLength\<close> characters; an append that does not fit panics.\<close>

definition AppendNum :: "tuint \<Rightarrow> string" where
  "AppendNum i = (if i <s 0 then CHR ''-'' # dec (nat (- sint i)) else dec (unat i))"

definition append_oid :: "string result \<Rightarrow> string \<Rightarrow> string result" where
  "append_oid res s = bindL res (\<lambda>t. if length (t @ s) \<le> KMaxOIDLength then Ok (t @ s) else Leave (Panic 11))"

fun append_ids :: "string result \<Rightarrow> tuint list \<Rightarrow> string result" where
  "append_ids res [] = res"
| "append_ids res (i # is) = append_ids (append_oid (append_oid res ''.'') (AppendNum i)) is"

definition DecodeObjectIdentifierL :: "TASN1DecGeneric \<Rightarrow> string result" where
  "DecodeObjectIdentifierL aSource =
     bindL (GetContentDER aSource) (\<lambda>c. bindL (DecodeOidContentsL c) (\<lambda>oid.
       case oid of [] \<Rightarrow> Ok [] | i # is \<Rightarrow> append_ids (append_oid (Ok []) (AppendNum i)) is))"

subsection \<open>An encoding that is written again\<close>

text \<open>\<open>CASN1EncEncoding::ConstructL\<close> without and with a tag of its own.\<close>

definition CASN1EncEncoding_ConstructL :: "bytes \<Rightarrow> (tuint \<times> TASN1Class) option \<Rightarrow> CASN1EncBase result" where
  "CASN1EncEncoding_ConstructL aEncoding tag =
     bindL (InitL aEncoding) (\<lambda>g. bindL (GetContentDER g) (\<lambda>c.
       case tag of
         None \<Rightarrow> Ok (CASN1EncPrimitive (iExplicitTag g) (iClass g) (CASN1EncEncoding c))
       | Some (t, cl) \<Rightarrow> Ok (CASN1EncPrimitive t cl (CASN1EncEncoding c))))"

end
