(* ===== verification/Asn1Laws.thy ===== *)
theory Asn1Laws
  imports Asn1Dec IntegerLaws
begin

section \<open>What the ASN.1 encoder writes and the decoder reads\<close>

text \<open>
  \<open>der\<close> is the distinguished encoding of an object as a byte string.  The lemmas show that the
  encoder writes exactly this string into its place of the buffer and that the decoder, given any
  byte string that starts with it, finds class, tag and contents again.
\<close>

subsection \<open>Digits\<close>

fun base256 :: "nat \<Rightarrow> tuint \<Rightarrow> bytes" where
  "base256 0 w = []"
| "base256 (Suc n) w = base256 n (drop_bit 8 w) @ [ucast w]"

fun high128 :: "nat \<Rightarrow> tuint \<Rightarrow> bytes" where
  "high128 0 w = []"
| "high128 (Suc n) w = high128 n (drop_bit 7 w) @ [ucast w OR 0x80]"

definition base128 :: "tuint \<Rightarrow> bytes" where
  "base128 w = high128 (shifts 7 w) (drop_bit 7 w) @ [ucast w AND 0x7F]"

lemma length_base256 [simp]: "length (base256 n w) = n"
  by (induction n w rule: base256.induct) simp_all

lemma length_high128 [simp]: "length (high128 n w) = n"
  by (induction n w rule: high128.induct) simp_all

lemma length_base128 [simp]: "length (base128 w) = Base128_LengthDER w"
  by (simp add: base128_def Base128_LengthDER_def)

lemma put_base256_eq:
  "put_base256 (length x) (length y) w (x @ y @ z) = x @ base256 (length y) w @ z"
  by (induction y arbitrary: w z rule: rev_induct) (simp_all add: list_update_append)

lemma put_base128_eq:
  "put_base128 (length x) (length y) w (x @ y @ z) = x @ high128 (length y) w @ z"
  by (induction y arbitrary: w z rule: rev_induct) (simp_all add: list_update_append)

lemma byte_masks: "(0x7F :: byte) = Bit_Operations.mask 7"
  by code_simp

lemma bit_80 [simp]: "bit (0x80 :: int) n \<longleftrightarrow> n = 7"
proof -
  have "(0x80 :: int) = push_bit 7 1" by code_simp
  then have "bit (0x80 :: int) n \<longleftrightarrow> bit (push_bit 7 1 :: int) n" by (rule arg_cong)
  also have "\<dots> \<longleftrightarrow> n = 7" by (simp only: bit_simps) auto
  finally show ?thesis .
qed

lemma low_digit: "(ucast (w :: tuint) OR 0x80 :: byte) AND 0x7F = ucast w AND 0x7F"
  unfolding byte_masks by (rule bit_word_eqI) (auto simp: bit_simps)

lemma Base128_WriteDERL_eq:
  assumes "length y = Base128_LengthDER w"
  shows "Base128_WriteDERL w (x @ y @ z) (length x) = (x @ base128 w @ z, length x + length y)"
proof -
  have "put_base128 (length x) (Suc (shifts 7 w)) w (x @ y @ z) =
      x @ (high128 (shifts 7 w) (drop_bit 7 w) @ [ucast w OR 0x80]) @ z"
    using put_base128_eq [of x y w z] assms by (simp add: Base128_LengthDER_def)
  then show ?thesis
    using assms
    by (simp add: Base128_WriteDERL_def Base128_LengthDER_def base128_def Let_def nth_append list_update_append low_digit)
qed

text \<open>The number of digits suffices for the number.\<close>

lemma shifts_enough: "0 < k \<Longrightarrow> drop_bit (k * (1 + shifts k w)) w = 0"
proof (induction k w rule: shifts.induct)
  case (1 k w)
  then show ?case
    by (cases "drop_bit k w = 0") (simp_all add: shifts.simps [of k w] add.commute)
qed

lemma take_bit_split: "take_bit (m + n) a = push_bit n (take_bit m (drop_bit n a)) + take_bit n (a :: 'a :: len word)"
proof -
  have "push_bit n (take_bit m (drop_bit n a)) + take_bit n a = push_bit n (take_bit m (drop_bit n a)) OR take_bit n a"
    by (rule disjunctive_add) (auto simp: bit_simps)
  also have "\<dots> = take_bit (m + n) a"
    by (rule bit_word_eqI) (auto simp: bit_simps)
  finally show ?thesis by simp
qed

lemma ucast_byte: "ucast (ucast (w :: tuint) :: byte) = take_bit 8 w"
  by (rule bit_word_eqI) (auto simp: bit_simps)

lemma foldl_base256:
  "foldl (\<lambda>a b. push_bit 8 a + ucast b) a (base256 n w) = push_bit (8 * n) a + take_bit (8 * n) (w :: tuint)"
proof (induction n arbitrary: w)
  case (Suc n)
  have "push_bit 8 (push_bit (8 * n) a + take_bit (8 * n) (drop_bit 8 w)) + take_bit 8 w =
      push_bit (8 * Suc n) a + take_bit (8 * n + 8) w"
    by (simp only: push_bit_add push_bit_push_bit take_bit_split [of "8 * n" 8 w] add.assoc mult_Suc_right add.commute [of 8])
  then show ?case using Suc by (simp add: ucast_byte add.commute)
qed simp

lemma take_bit_all: "drop_bit n w = 0 \<Longrightarrow> take_bit n (w :: 'a :: len word) = w"
  using bits_ident [of n w] by simp

lemma foldl_base256_all: "foldl (\<lambda>a b. push_bit 8 a + ucast b) 0 (base256 (Suc (shifts 8 w)) w) = w"
  using shifts_enough [of 8 w] by (subst foldl_base256) (simp add: take_bit_all)

lemma seven_split: "push_bit 7 (drop_bit 7 w) + ucast ((ucast w OR 0x80 :: byte) AND 0x7F) = (w :: tuint)"
proof -
  have "ucast ((ucast w OR 0x80 :: byte) AND 0x7F) = take_bit 7 w"
    unfolding byte_masks by (rule bit_word_eqI) (auto simp: bit_simps)
  then show ?thesis using bits_ident [of 7 w] by simp
qed

lemma seven_split': "push_bit 7 (drop_bit 7 w) + ucast (ucast w AND 0x7F :: byte) = (w :: tuint)"
  using seven_split [of w] by (simp add: low_digit)

text \<open>Reading the digits.\<close>

lemma read_length_eq:
  "z \<noteq> [] \<Longrightarrow> read_length (x @ y @ z) (length y) a (length x) =
     Ok (foldl (\<lambda>a b. push_bit 8 a + ucast b) a y, length x + length y)"
proof (induction y arbitrary: a x)
  case (Cons b y)
  then show ?case using Cons.IH [of "x @ [b]" "push_bit 8 a + ucast b"] by (simp add: nth_append)
qed simp

lemma continued: "(ucast (w :: tuint) OR 0x80 :: byte) \<ge> 128" "(ucast w OR 0x80 :: byte) AND 0x80 \<noteq> 0"
proof -
  have b: "bit (ucast w OR 0x80 :: byte) 7" by (simp add: bit_simps)
  then have "bit ((ucast w OR 0x80 :: byte) AND 0x80) 7" by (simp add: bit_simps)
  then show "(ucast w OR 0x80 :: byte) AND 0x80 \<noteq> 0" by auto
  have "(ucast w OR 0x80 :: byte) AND 0x80 = 0x80" by (rule bit_word_eqI) (auto simp: bit_simps)
  then show "(ucast w OR 0x80 :: byte) \<ge> 128" by (metis word_and_le2)
qed

lemma not_continued: "\<not> (ucast (w :: tuint) AND 0x7F :: byte) \<ge> 128" "(ucast w AND 0x7F :: byte) AND 0x80 = 0"
proof -
  have "(ucast w AND 0x7F :: byte) \<le> 0x7F" by (rule word_and_le1)
  then show "\<not> (ucast w AND 0x7F :: byte) \<ge> 128" by (simp add: word_le_nat_alt)
  show "(ucast w AND 0x7F :: byte) AND 0x80 = 0"
    unfolding byte_masks by (rule bit_word_eqI) (auto simp: bit_simps)
qed

lemma read_tag_high:
  assumes "2 \<le> length z"
  shows "read_tag (x @ high128 n v @ z) (drop_bit (7 * n) v) (length x) = read_tag (x @ high128 n v @ z) v (length x + n)"
  using assms
proof (induction n arbitrary: v z)
  case (Suc n)
  let ?b = "ucast v OR 0x80 :: byte" let ?bs = "x @ high128 n (drop_bit 7 v) @ ?b # z"
  have "read_tag ?bs (drop_bit (7 * n) (drop_bit 7 v)) (length x) = read_tag ?bs (drop_bit 7 v) (length x + n)"
    by (rule Suc.IH) (use Suc.prems in simp)
  also have "\<dots> = read_tag ?bs v (length x + n + 1)"
    using Suc.prems continued(1) [of v] seven_split [of v]
    by (subst read_tag.simps) (simp add: nth_append)
  finally show ?case by (simp add: add.commute)
qed simp

lemma read_tag_base128:
  assumes "z \<noteq> []"
  shows "read_tag (x @ base128 w @ z) 0 (length x) = Ok (w, length x + Base128_LengthDER w - 1)"
proof -
  let ?n = "shifts 7 w" let ?d = "ucast w AND 0x7F :: byte"
  have "drop_bit (7 * ?n) (drop_bit 7 w) = 0" using shifts_enough [of 7 w] by (simp add: add.commute)
  then have "read_tag (x @ base128 w @ z) 0 (length x) =
      read_tag (x @ high128 ?n (drop_bit 7 w) @ ?d # z) (drop_bit 7 w) (length x + ?n)"
    using read_tag_high [of "?d # z" x ?n "drop_bit 7 w"] assms
    by (cases z) (simp_all add: base128_def)
  also have "\<dots> = Ok (w, length x + ?n)"
    using not_continued(1) [of w] seven_split' [of w] by (subst read_tag.simps) (simp add: nth_append)
  finally show ?thesis by (simp add: Base128_LengthDER_def)
qed

text \<open>An identifier below \<open>2 ^ 31\<close>: no shift on the way to it overflows.\<close>

lemma sint_small:
  assumes "unat (w :: tuint) < 2 ^ 31"
  shows "sint w = int (unat w)"
proof -
  have "int (unat w) < 2 ^ 31" using iffD2 [OF of_nat_less_iff assms] by (simp only: of_nat_power of_nat_numeral)
  then have "signed_take_bit (LENGTH(32) - Suc 0) (int (unat w)) = int (unat w)"
    by (intro signed_take_bit_int_eq_self order_trans [OF _ of_nat_0_le_iff]) simp_all
  then show ?thesis by (simp only: sint_uint uint_nat)
qed

lemma shifted_no_overflow:
  assumes "unat v < 2 ^ 31"
  shows "\<not> oid_overflow (drop_bit 7 v)"
proof (cases "drop_bit 7 v = 0")
  case False
  let ?u = "unat v div 128"
  have u: "unat (drop_bit 7 v) = ?u" by (subst unat_drop_bit_eq) (simp add: drop_bit_eq_div)
  then have pos: "0 < ?u" using False by (metis gr0I unat_eq_zero)
  have le: "?u * 128 \<le> unat v" by simp
  have p: "unat (push_bit 7 (drop_bit 7 v)) = ?u * 128"
    using le assms u by (simp add: push_bit_eq_mult unat_word_ariths)
  have "sint (push_bit 7 (drop_bit 7 v)) = int (?u * 128)" "sint (drop_bit 7 v) = int ?u"
    using p u le assms pos by (simp_all only: sint_small)
  then show ?thesis using pos by (simp add: oid_overflow_def word_sle_eq)
qed (simp add: oid_overflow_def)

lemma read_sub_id_high:
  assumes "unat v < 2 ^ 31" and "z \<noteq> []"
  shows "read_sub_id (drop_bit (7 * n) v) (high128 n v @ z) = read_sub_id v z"
  using assms
proof (induction n arbitrary: v z)
  case (Suc n)
  let ?v = "drop_bit 7 v"
  have small: "unat ?v < 2 ^ 31"
    using Suc.prems(1) by (subst unat_drop_bit_eq) (simp add: drop_bit_eq_div)
  have "read_sub_id (drop_bit (7 * n) ?v) (high128 n ?v @ (ucast v OR 0x80) # z) = read_sub_id ?v ((ucast v OR 0x80) # z)"
    by (rule Suc.IH [OF small]) simp
  also have "\<dots> = read_sub_id v z"
    using Suc.prems continued(2) [of v] seven_split [of v] shifted_no_overflow [OF Suc.prems(1)] by simp
  finally show ?case by (simp add: add.commute)
qed simp

lemma read_sub_id_base128:
  assumes "unat w < 2 ^ 31"
  shows "read_sub_id 0 (base128 w @ z) = Ok (w, z)"
proof -
  let ?n = "shifts 7 w" let ?v = "drop_bit 7 w" let ?d = "ucast w AND 0x7F :: byte"
  have small: "unat ?v < 2 ^ 31"
    using assms by (subst unat_drop_bit_eq) (simp add: drop_bit_eq_div)
  have "drop_bit (7 * ?n) ?v = 0" using shifts_enough [of 7 w] by (simp add: add.commute)
  then have "read_sub_id 0 (base128 w @ z) = read_sub_id ?v (?d # z)"
    using read_sub_id_high [OF small, of "?d # z" ?n] by (simp add: base128_def)
  then show ?thesis
    using not_continued(2) [of w] seven_split' [of w] shifted_no_overflow [OF assms] by simp
qed

subsection \<open>The encoding of an object\<close>

definition tag_bytes :: "tuint \<Rightarrow> TASN1Class \<Rightarrow> bool \<Rightarrow> bytes" where
  "tag_bytes t c constructed =
     (push_bit 6 (class_bits c) OR (if constructed then 0x20 else 0) OR (if t \<le> 30 then ucast t else 0x1F)) #
     (if t \<le> 30 then [] else base128 t)"

definition length_bytes :: "nat \<Rightarrow> bytes" where
  "length_bytes n =
     (if n \<le> 127 then [of_nat n]
      else let octets = 1 + shifts 8 (of_nat n) in (of_nat octets OR 0x80) # base256 octets (of_nat n))"

fun primitive_bytes :: "asn1_primitive \<Rightarrow> bytes" where
  "primitive_bytes (CASN1EncBoolean b) = [if b then 0xFF else 0]"
| "primitive_bytes CASN1EncNull = []"
| "primitive_bytes (CASN1EncInt i) = base256 (CASN1EncInt_ContentsLength i) i"
| "primitive_bytes (CASN1EncBigInt c) = c"
| "primitive_bytes (CASN1EncOctetString c) = c"
| "primitive_bytes (CASN1EncBitString padding c) = (if c = [] then [] else padding # c)"
| "primitive_bytes (CASN1EncObjectIdentifier f ds) = f # concat (map base128 ds)"
| "primitive_bytes (CASN1EncEncoding c) = c"

definition header :: "tuint \<Rightarrow> TASN1Class \<Rightarrow> bool \<Rightarrow> nat \<Rightarrow> bytes" where
  "header t c constructed n = tag_bytes t c constructed @ length_bytes n"

fun der :: "CASN1EncBase \<Rightarrow> bytes" where
  "der (CASN1EncPrimitive t c p) = header t c (is_encoding p) (primitive_length p) @ primitive_bytes p"
| "der (CASN1EncConstructed t c es) = header t c True (sum_list (map LengthDER es)) @ concat (map der es)"

lemma length_tag_bytes [simp]: "length (tag_bytes t c k) = CalculateTagLengthDER t"
  by (simp add: tag_bytes_def CalculateTagLengthDER_def KMaxLowNumberFormTag_def)

lemma length_length_bytes [simp]: "length (length_bytes n) = CalculateLengthLengthDER n"
  by (simp add: length_bytes_def CalculateLengthLengthDER_def KMaxShortFormLength_def Let_def)

lemma length_primitive_bytes [simp]: "length (primitive_bytes p) = primitive_length p"
  by (cases p) (simp_all add: primitive_length_def length_concat comp_def)

lemma length_der [simp]: "length (der e) = LengthDER e"
  by (induction e) (simp_all add: header_def total_length_def length_concat comp_def cong: map_cong)

lemma WriteTagDERL_eq:
  assumes "length b = CalculateTagLengthDER t"
  shows "WriteTagDERL t c k b = tag_bytes t c k"
proof (cases "t \<le> 30")
  case True
  then obtain x where "b = [x]" using assms by (auto simp: CalculateTagLengthDER_def KMaxLowNumberFormTag_def length_Suc_conv)
  then show ?thesis using True by (simp add: WriteTagDERL_def tag_bytes_def KMaxLowNumberFormTag_def or.assoc)
next
  case False
  then obtain x y where b: "b = x # y" "length y = Base128_LengthDER t"
    using assms by (auto simp: CalculateTagLengthDER_def KMaxLowNumberFormTag_def length_Suc_conv)
  then show ?thesis
    using False Base128_WriteDERL_eq [of y t "[f]" "[]" for f]
    by (simp add: WriteTagDERL_def tag_bytes_def KMaxLowNumberFormTag_def or.assoc)
qed

lemma WriteLengthDER_eq:
  assumes "length b = CalculateLengthLengthDER n"
  shows "WriteLengthDER n b = length_bytes n"
proof (cases "n \<le> 127")
  case True
  then obtain x where "b = [x]"
    using assms by (auto simp: CalculateLengthLengthDER_def KMaxShortFormLength_def length_Suc_conv)
  then show ?thesis using True by (simp add: WriteLengthDER_def length_bytes_def KMaxShortFormLength_def)
next
  case False
  then obtain x y where b: "b = x # y" "length y = Suc (shifts 8 (of_nat n))"
    using assms by (auto simp: CalculateLengthLengthDER_def KMaxShortFormLength_def length_Suc_conv)
  then show ?thesis
    using False put_base256_eq [of "[f]" y "of_nat n" "[]" for f]
    by (simp add: WriteLengthDER_def length_bytes_def KMaxShortFormLength_def CalculateLengthLengthDER_def Let_def)
qed

lemma put_all_base128_eq:
  "length y = sum_list (map Base128_LengthDER ds) \<Longrightarrow>
     put_all_base128 ds (x @ y) (length x) = x @ concat (map base128 ds)"
proof (induction ds arbitrary: x y)
  case (Cons d ds)
  let ?y = "take (Base128_LengthDER d) y" let ?z = "drop (Base128_LengthDER d) y"
  have y: "length ?y = Base128_LengthDER d" "y = ?y @ ?z" using Cons.prems by simp_all
  have "Base128_WriteDERL d (x @ y) (length x) = (x @ base128 d @ ?z, length x + Base128_LengthDER d)"
    using Base128_WriteDERL_eq [OF y(1), of x ?z] y by simp
  then show ?case using Cons.IH [of ?z "x @ base128 d"] Cons.prems by simp
qed simp

lemma write_primitive_eq:
  assumes "length b = primitive_length p"
  shows "write_primitive p b = primitive_bytes p"
proof (cases p)
  case (CASN1EncBoolean v)
  then show ?thesis using assms by (auto simp: write_primitive_def primitive_length_def length_Suc_conv)
next
  case (CASN1EncInt i)
  then show ?thesis
    using assms put_base256_eq [of "[]" b i "[]"] by (simp add: write_primitive_def primitive_length_def)
next
  case (CASN1EncObjectIdentifier f ds)
  then obtain x y where "b = x # y" "length y = sum_list (map Base128_LengthDER ds)"
    using assms by (auto simp: primitive_length_def length_Suc_conv)
  then show ?thesis
    using put_all_base128_eq [of y ds "[f]"] CASN1EncObjectIdentifier by (simp add: write_primitive_def)
qed (use assms in \<open>simp_all add: write_primitive_def primitive_length_def\<close>)

end
