(* ===== verification/Asn1RoundTrip.thy ===== *)
theory Asn1RoundTrip
  imports Asn1Laws
begin

section \<open>Encoding and decoding ASN.1 objects\<close>

text \<open>
  Writing an object into a buffer and decoding it again: \<open>WriteDERL_der\<close> for the encoder,
  \<open>InitL_der\<close> for tag and length, one lemma per primitive type, and their composition over trees.
\<close>

subsection \<open>The encoder writes the encoding\<close>

lemma WriteHelperL_eq:
  assumes "length y = n" and "n \<noteq> 0 \<Longrightarrow> f y = Ok r" and "n = 0 \<Longrightarrow> r = []" and "length r = n"
  shows "WriteHelperL n f (x @ y @ z, length x) = Ok (x @ r @ z, length x + n)"
  using assms by (cases "n = 0") (auto simp: WriteHelperL_def)

lemma write_object_eq:
  assumes "length y = total_length t n" and "length r = n" and "\<And>v. length v = n \<Longrightarrow> f v = Ok r"
  shows "write_object t c k n f (x @ y @ z) (length x) = Ok (x @ (header t c k n @ r) @ z, length x + length y)"
proof -
  let ?a = "CalculateTagLengthDER t" let ?b = "CalculateLengthLengthDER n"
  have split: "\<exists>u v. zs = u @ v \<and> length u = m \<and> length v = l" if "length zs = m + l" for zs :: bytes and m l
    using that by (intro exI [of _ "take m zs"] exI [of _ "drop m zs"]) simp
  obtain u vw where u: "y = u @ vw" "length u = ?a" "length vw = ?b + n"
    using split [of y ?a "?b + n"] assms(1) by (auto simp: total_length_def)
  then obtain v w where y: "y = u @ v @ w" "length u = ?a" "length v = ?b" "length w = n"
    using split [of vw ?b n] by auto
  let ?t = "tag_bytes t c k" let ?l = "length_bytes n"
  have 1: "WriteHelperL ?a (\<lambda>b. Ok (WriteTagDERL t c k b)) (x @ u @ (v @ w @ z), length x) = Ok (x @ ?t @ (v @ w @ z), length x + ?a)"
    using y(2) WriteTagDERL_eq [of _ t c k] by (intro WriteHelperL_eq) (auto simp: CalculateTagLengthDER_def split: if_splits)
  have 2: "WriteHelperL ?b (\<lambda>b. Ok (WriteLengthDER n b)) ((x @ ?t) @ v @ (w @ z), length (x @ ?t)) =
      Ok ((x @ ?t) @ ?l @ (w @ z), length (x @ ?t) + ?b)"
    using y(3) WriteLengthDER_eq [of _ n]
    by (intro WriteHelperL_eq) (auto simp: CalculateLengthLengthDER_def split: if_splits)
  have 3: "WriteHelperL n f ((x @ ?t @ ?l) @ w @ z, length (x @ ?t @ ?l)) = Ok ((x @ ?t @ ?l) @ r @ z, length (x @ ?t @ ?l) + n)"
    using y(4) assms(2,3) by (intro WriteHelperL_eq) auto
  show ?thesis
    using 1 2 3 y assms(1) by (simp add: write_object_def header_def total_length_def add.assoc)
qed

lemma WriteChildren_eq:
  assumes "\<And>e x y z. e \<in> set es \<Longrightarrow> length y = LengthDER e \<Longrightarrow>
      WriteDERL e (x @ y @ z) (length x) = Ok (x @ der e @ z, length x + LengthDER e)"
    and "length y = sum_list (map LengthDER es)"
  shows "WriteChildren es (x @ y) (length x) = Ok (x @ concat (map der es), length x + length y)"
  using assms
proof (induction es arbitrary: x y)
  case (Cons e es)
  let ?u = "take (LengthDER e) y" let ?v = "drop (LengthDER e) y"
  have y: "y = ?u @ ?v" "length ?u = LengthDER e" using Cons.prems(2) by simp_all
  have "WriteDERL e (x @ ?u @ ?v) (length x) = Ok (x @ der e @ ?v, length x + LengthDER e)"
    by (rule Cons.prems(1)) (use y in simp_all)
  then have "WriteDERL e (x @ y) (length x) = Ok ((x @ der e) @ ?v, length (x @ der e))" using y(1) by simp
  moreover have "WriteChildren es ((x @ der e) @ ?v) (length (x @ der e)) =
      Ok ((x @ der e) @ concat (map der es), length (x @ der e) + length ?v)"
    by (rule Cons.IH) (use Cons.prems in auto)
  ultimately show ?case using Cons.prems(2) by simp
qed simp

lemma WriteDERL_eq:
  "length y = LengthDER e \<Longrightarrow> WriteDERL e (x @ y @ z) (length x) = Ok (x @ der e @ z, length x + LengthDER e)"
proof (induction e arbitrary: x y z)
  case (CASN1EncPrimitive t c p)
  then show ?case
    using write_object_eq [of y t "primitive_length p" "primitive_bytes p"] by (simp add: write_primitive_eq)
next
  case (CASN1EncConstructed t c es)
  have "WriteChildren es v 0 = Ok (concat (map der es), length v)" if "length v = sum_list (map LengthDER es)" for v
    using WriteChildren_eq [OF CASN1EncConstructed.IH that, of "[]"] by simp
  moreover have "length (concat (map der es)) = sum_list (map LengthDER es)"
    by (simp add: length_concat comp_def)
  ultimately show ?case
    using CASN1EncConstructed.prems
      write_object_eq [of y t "sum_list (map LengthDER es)" "concat (map der es)"] by simp
qed

lemma WriteDERL_der:
  assumes "pos + LengthDER e \<le> length aBuf"
  shows "WriteDERL e aBuf pos = Ok (take pos aBuf @ der e @ drop (pos + LengthDER e) aBuf, pos + LengthDER e)"
proof -
  let ?x = "take pos aBuf" let ?y = "take (LengthDER e) (drop pos aBuf)" let ?z = "drop (pos + LengthDER e) aBuf"
  have "aBuf = ?x @ ?y @ ?z" by (metis append_take_drop_id drop_drop add.commute)
  then show ?thesis using WriteDERL_eq [of ?y e ?x ?z] assms by simp
qed

subsection \<open>The decoder finds tag, length and contents\<close>

lemma bit_20: "bit (0x20 :: int) n \<longleftrightarrow> n = 5"
proof -
  have "(0x20 :: int) = push_bit 5 1" by code_simp
  then have "bit (0x20 :: int) n \<longleftrightarrow> bit (push_bit 5 1 :: int) n" by (rule arg_cong)
  also have "\<dots> \<longleftrightarrow> n = 5" by (simp only: bit_simps) auto
  finally show ?thesis .
qed

lemma low_five: "f < (0x20 :: byte) \<Longrightarrow> bit f n \<Longrightarrow> n < 5"
proof -
  assume "f < (0x20 :: byte)" and "bit f n"
  then have "unat f < 2 ^ 5" by (simp add: word_less_nat_alt)
  then have "take_bit 5 (unat f) = unat f" by (simp add: take_bit_nat_eq_self)
  then have "bit (take_bit 5 (unat f)) n" using \<open>bit f n\<close> bit_imp_le_length [of f n]
    by (simp add: bit_unsigned_iff)
  then show "n < 5" by (simp add: bit_simps)
qed

lemma first_byte:
  assumes "f < (0x20 :: byte)"
  shows "(push_bit 6 (class_bits c) OR (if k then 0x20 else 0) OR f) AND 0x1F = f"
    and "class_of_bits (drop_bit 6 (push_bit 6 (class_bits c) OR (if k then 0x20 else 0) OR f)) = c"
proof -
  have m: "(0x1F :: byte) = Bit_Operations.mask 5" by code_simp
  show "(push_bit 6 (class_bits c) OR (if k then 0x20 else 0) OR f) AND 0x1F = f"
    unfolding m by (rule bit_word_eqI) (auto simp: bit_simps bit_20 dest: low_five [OF assms])
  have two: "take_bit 2 (class_bits c) = class_bits c" by (cases c) (simp_all add: class_bits_def)
  have "drop_bit 6 (push_bit 6 (class_bits c) OR (if k then 0x20 else 0) OR f) = take_bit 2 (class_bits c)"
    by (rule bit_word_eqI) (auto simp: bit_simps bit_20 dest: low_five [OF assms])
  then have "drop_bit 6 (push_bit 6 (class_bits c) OR (if k then 0x20 else 0) OR f) = class_bits c"
    by (simp only: two)
  then show "class_of_bits (drop_bit 6 (push_bit 6 (class_bits c) OR (if k then 0x20 else 0) OR f)) = c"
    by (cases c) (simp_all only: class_of_bits_def class_bits_def TASN1Class.case, simp_all)
qed

lemma shifts_last: "0 < k \<Longrightarrow> shifts k w = 0 \<or> drop_bit (k * shifts k w) w \<noteq> 0"
proof (induction k w rule: shifts.induct)
  case (1 k w)
  then show ?case
    by (cases "drop_bit k w = 0"; cases "shifts k (drop_bit k w) = 0")
       (simp_all add: shifts.simps [of k w] add.commute)
qed

lemma shifts_8_le: "shifts 8 w \<le> 3"
proof (rule ccontr)
  assume "\<not> shifts 8 w \<le> 3"
  then have "drop_bit (8 * shifts 8 w) w \<noteq> 0" "32 \<le> 8 * shifts 8 w" using shifts_last [of 8 w] by auto
  then show False by (simp add: drop_bit_eq_zero_iff_not_bit_last bit_word_eqI)
qed

lemma octets_byte:
  assumes "1 \<le> m" and "m \<le> 4"
  shows "(of_nat m OR 0x80 :: byte) > 128" and "unat ((of_nat m OR 0x80 :: byte) AND 127) = m"
proof -
  have "m = 1 \<or> m = 2 \<or> m = 3 \<or> m = 4" using assms by auto
  then show "(of_nat m OR 0x80 :: byte) > 128" and "unat ((of_nat m OR 0x80 :: byte) AND 127) = m" by auto
qed

lemma read_length_part:
  assumes "length r = n" and "n < 2 ^ 28" and "bs = x @ length_bytes n @ r @ z"
  defines "l \<equiv> bs ! length x"
  shows "(if l > 128 then
      if length bs \<le> length x + 1 then Leave KErrArgument else read_length bs (unat (l AND 127)) 0 (length x + 1)
    else if l = 128 then Leave KErrNotSupported else Ok (ucast l, length x + 1)) =
    Ok (of_nat n, length x + CalculateLengthLengthDER n)"
proof (cases "n \<le> 127")
  case True
  then have l: "l = of_nat n" by (simp add: l_def assms(3) length_bytes_def)
  have "unat (of_nat n :: byte) = n" using True by (simp add: unat_of_nat)
  then have "\<not> l > 128" "l \<noteq> 128" "ucast l = (of_nat n :: tuint)"
    using True by (auto simp: l word_less_nat_alt word_unat_eq_iff unsigned_ucast_eq unat_of_nat take_bit_eq_mod)
  then show ?thesis using True by (simp add: CalculateLengthLengthDER_def KMaxShortFormLength_def)
next
  case False
  let ?m = "1 + shifts 8 (of_nat n)" let ?b = "of_nat ?m OR 0x80 :: byte"
  have m: "?b > 128" "unat (?b AND 127) = ?m" using octets_byte [of ?m] shifts_8_le by simp_all
  have lb: "length_bytes n = ?b # base256 ?m (of_nat n)" using False by (simp add: length_bytes_def)
  then have l: "l = ?b" by (simp add: l_def assms(3))
  have "r \<noteq> []" using False assms(1) by auto
  then have "read_length ((x @ [?b]) @ base256 ?m (of_nat n) @ (r @ z)) ?m 0 (length x + 1) =
      Ok (of_nat n, length x + 1 + ?m)"
    using read_length_eq [of "r @ z" "x @ [?b]" "base256 ?m (of_nat n)" 0] foldl_base256_all [of "of_nat n"] by simp
  then show ?thesis
    using False m l \<open>r \<noteq> []\<close> lb
    by (simp add: assms(3) CalculateLengthLengthDER_def KMaxShortFormLength_def)
qed

lemma small_tag:
  assumes "(t :: tuint) \<le> 30"
  shows "(ucast t :: byte) < 0x20" and "(ucast t :: byte) \<noteq> 0x1F" and "ucast (ucast t :: byte) = t"
proof -
  have t: "unat t \<le> 30" using assms by (simp add: word_le_nat_alt)
  then have u: "unat (ucast t :: byte) = unat t" by (simp add: unsigned_ucast_eq take_bit_eq_mod)
  then show "(ucast t :: byte) < 0x20" "(ucast t :: byte) \<noteq> 0x1F" using t by (auto simp: word_less_nat_alt)
  show "ucast (ucast t :: byte) = t" using t unfolding ucast_byte word_unat_eq_iff unsigned_take_bit_eq by (intro take_bit_nat_eq_self) simp
qed

lemma tag_byte_high: "\<not> (t :: tuint) \<le> 30 \<Longrightarrow> tag_bytes t c k =
    (push_bit 6 (class_bits c) OR (if k then 0x20 else 0) OR 0x1F) # base128 t"
  by (simp add: tag_bytes_def)

lemma read_tag_part:
  assumes "bs = tag_bytes t c k @ z" and "2 \<le> length bs" and "z \<noteq> []"
  shows "(if bs ! 0 AND 0x1F = 0x1F then if length bs \<le> 1 + 1 then Leave KErrArgument else read_tag bs 0 1
      else Ok (ucast (bs ! 0 AND 0x1F), 0)) = Ok (t, CalculateTagLengthDER t - 1)"
    and "class_of_bits (drop_bit 6 (bs ! 0)) = c"
proof -
  let ?f = "if t \<le> 30 then ucast t else 0x1F :: byte"
  have f: "?f < 0x20" using small_tag(1) [of t] by (cases "t \<le> 30") simp_all
  have b0: "bs ! 0 = push_bit 6 (class_bits c) OR (if k then 0x20 else 0) OR ?f"
    by (simp add: assms(1) tag_bytes_def)
  have low: "bs ! 0 AND 0x1F = ?f" unfolding b0 by (rule first_byte(1) [OF f])
  show "class_of_bits (drop_bit 6 (bs ! 0)) = c" unfolding b0 by (rule first_byte(2) [OF f])
  show "(if bs ! 0 AND 0x1F = 0x1F then if length bs \<le> 1 + 1 then Leave KErrArgument else read_tag bs 0 1
      else Ok (ucast (bs ! 0 AND 0x1F), 0)) = Ok (t, CalculateTagLengthDER t - 1)"
  proof (cases "t \<le> 30")
    case True
    then show ?thesis
      using small_tag [OF True] unfolding low
      by (simp add: CalculateTagLengthDER_def KMaxLowNumberFormTag_def)
  next
    case False
    let ?b = "push_bit 6 (class_bits c) OR (if k then 0x20 else 0) OR 0x1F :: byte"
    have bs: "bs = [?b] @ base128 t @ z" by (simp only: assms(1) tag_byte_high [OF False] append_Cons append_Nil)
    have "read_tag ([?b] @ base128 t @ z) 0 (length [?b]) = Ok (t, length [?b] + Base128_LengthDER t - 1)"
      by (rule read_tag_base128) (rule assms(3))
    then have "read_tag bs 0 1 = Ok (t, Base128_LengthDER t)" using bs by simp
    moreover have "\<not> length bs \<le> 1 + 1" using assms(3) by (simp add: bs Base128_LengthDER_def Suc_le_eq)
    ultimately show ?thesis
      using False unfolding low by (simp add: CalculateTagLengthDER_def KMaxLowNumberFormTag_def)
  qed
qed

lemma tuint_of_nat_small: "n < 2 ^ 28 \<Longrightarrow> unat (of_nat n :: tuint) = n" "n < 2 ^ 28 \<Longrightarrow> sint (of_nat n :: tuint) = int n"
proof -
  assume n: "n < 2 ^ 28"
  then show u: "unat (of_nat n :: tuint) = n" by (simp add: unat_of_nat)
  show "sint (of_nat n :: tuint) = int n" using n by (subst sint_small) (simp_all only: u, simp)
qed

lemma InitL_der:
  assumes "bs = header t c k n @ r @ z" and "length r = n" and "length bs < 2 ^ 28"
  shows "InitL bs = Ok \<lparr>iEncoding = bs, iStartOfContents = length (header t c k n), iLength = of_nat n,
      iExplicitTag = t, iClass = c\<rparr>"
proof -
  let ?a = "CalculateTagLengthDER t" let ?b = "CalculateLengthLengthDER n"
  have ab: "1 \<le> ?a" "1 \<le> ?b" by (simp_all add: CalculateTagLengthDER_def CalculateLengthLengthDER_def)
  have len: "length bs = ?a + ?b + n + length z" using assms(1,2) by (simp add: header_def)
  have bs: "bs = tag_bytes t c k @ length_bytes n @ r @ z" using assms(1) by (simp add: header_def)
  have ne: "length_bytes n @ r @ z \<noteq> []" using ab(2) length_length_bytes [of n] by (metis append_is_Nil_conv list.size(3) not_one_le_zero)
  have two: "2 \<le> length bs" using len ab by simp
  note tag = read_tag_part [OF bs two ne]
  have n: "n < 2 ^ 28" using len assms(3) by simp
  note lenp = read_length_part [OF assms(2) n, of bs "tag_bytes t c k" z, OF bs, unfolded length_tag_bytes]
  have pos: "?a - 1 + 1 = ?a" using ab(1) by simp
  have "sint (of_nat n + of_nat (?a + ?b) :: tuint) = int (n + ?a + ?b)"
    using tuint_of_nat_small(2) [of "n + (?a + ?b)"] len assms(3) by simp
  then have fits: "\<not> sint (of_nat n + of_nat (?a + ?b) :: tuint) > int (length bs)" using len by simp
  have nonneg: "\<not> (of_nat n :: tuint) <s 0" using tuint_of_nat_small(2) [OF n] by (simp add: word_sless_alt)
  show ?thesis
    unfolding InitL_def tag(1) bindL_Inr prod.case Let_def pos lenp
    using two fits nonneg tag(2) by (simp add: KASN1ObjectMinLength_def header_def)
qed

subsection \<open>Integers\<close>

lemma shifts_simp: "0 < k \<Longrightarrow> drop_bit k w \<noteq> 0 \<Longrightarrow> shifts k w = Suc (shifts k (drop_bit k w))"
  by (simp add: shifts.simps [of k w])

lemma last_shifted_eq: "0 < k \<Longrightarrow> last_shifted k w = drop_bit (k * shifts k w) w"
proof (induction k w rule: last_shifted.induct)
  case (1 k w)
  then show ?case
    by (cases "drop_bit k w = 0") (simp_all add: shifts.simps [of k w] last_shifted.simps [of k w] add.commute)
qed

lemma and_80: "(w :: tuint) AND 0x80 \<noteq> 0 \<longleftrightarrow> bit w 7"
proof -
  have "(0x80 :: tuint) = push_bit 7 1" by code_simp
  then have "w AND 0x80 = (if bit w 7 then push_bit 7 1 else 0)"
    by (simp only:) (rule bit_word_eqI, auto simp: bit_simps)
  then show ?thesis by auto
qed

lemma base256_top: "bit (base256 (Suc m) w ! 0) 7 = bit w (8 * m + 7)"
proof (induction m arbitrary: w)
  case 0
  then show ?case by (simp add: bit_simps)
next
  case (Suc m)
  have "base256 (Suc (Suc m)) w ! 0 = base256 (Suc m) (drop_bit 8 w) ! 0"
    by (simp only: base256.simps(2) [of "Suc m"]) (simp add: nth_append)
  then show ?case using Suc [of "drop_bit 8 w"] by (simp add: bit_simps add.commute)
qed

lemma negative_bit: "(i :: tuint) <s 0 \<longleftrightarrow> bit i 31"
  using bit_last_iff [of i] by (simp add: word_sless_alt)

text \<open>All bits from the top bit of the contents on are the sign.\<close>

lemma int_contents_sign:
  assumes "8 * CASN1EncInt_ContentsLength i - 1 \<le> j" and "j < 32"
  shows "bit i j = bit i 31"
proof -
  let ?w = "if i <s 0 then NOT i else i" let ?s = "shifts 8 ?w"
  have zero: "\<not> bit ?w j" if "8 * (1 + ?s) \<le> j" for j
  proof -
    have "\<not> bit (drop_bit (8 * (1 + ?s)) ?w) (j - 8 * (1 + ?s))" using shifts_enough [of 8 ?w] by simp
    then show ?thesis using that by (simp add: bit_simps)
  qed
  have last: "last_shifted 8 ?w AND 0x80 \<noteq> 0 \<longleftrightarrow> bit ?w (8 * ?s + 7)"
    unfolding and_80 by (simp add: last_shifted_eq bit_simps)
  have "\<not> bit ?w j"
  proof (cases "bit ?w (8 * ?s + 7)")
    case True
    then have "CASN1EncInt_ContentsLength i = 2 + ?s" using last by (simp add: CASN1EncInt_ContentsLength_def Let_def)
    then show ?thesis using assms(1) by (intro zero) simp
  next
    case False
    then have "CASN1EncInt_ContentsLength i = 1 + ?s" using last by (simp add: CASN1EncInt_ContentsLength_def Let_def)
    then show ?thesis using assms(1) False zero [of j] by (cases "j = 8 * ?s + 7") auto
  qed
  then show ?thesis using assms(2) by (auto simp: negative_bit bit_simps split: if_splits)
qed

lemma int_contents_length: "1 \<le> CASN1EncInt_ContentsLength i" "CASN1EncInt_ContentsLength i \<le> 4"
proof -
  let ?w = "if i <s 0 then NOT i else i"
  show "1 \<le> CASN1EncInt_ContentsLength i" by (simp add: CASN1EncInt_ContentsLength_def Let_def)
  have top: "\<not> bit ?w 31" by (auto simp: negative_bit bit_simps)
  have "last_shifted 8 ?w AND 0x80 \<noteq> 0 \<longleftrightarrow> bit ?w (8 * shifts 8 ?w + 7)"
    unfolding and_80 by (simp add: last_shifted_eq bit_simps)
  then show "CASN1EncInt_ContentsLength i \<le> 4"
    using shifts_8_le [of ?w] top
    by (cases "shifts 8 ?w = 3") (auto simp: CASN1EncInt_ContentsLength_def Let_def simp del: shifts.simps)
qed

lemma int_contents_value:
  fixes i :: tuint
  defines "c \<equiv> base256 (CASN1EncInt_ContentsLength i) i"
  shows "foldl (\<lambda>a b. push_bit 8 a + ucast b) (if bit (c ! 0) 7 then - 1 else 0) c = i"
proof -
  let ?n = "CASN1EncInt_ContentsLength i"
  obtain m where m: "?n = Suc m" using int_contents_length(1) [of i] by (cases ?n) auto
  let ?a = "if bit (c ! 0) 7 then - 1 else 0 :: tuint"
  have top: "bit (c ! 0) 7 = bit i (8 * m + 7)" unfolding c_def m by (rule base256_top)
  also have "\<dots> = bit i 31"
    using int_contents_sign [of i "8 * m + 7"] int_contents_length(2) [of i] m by simp
  finally have a: "?a = (if bit i 31 then - 1 else 0)" by simp
  have "foldl (\<lambda>a b. push_bit 8 a + ucast b) ?a c = push_bit (8 * ?n) ?a + take_bit (8 * ?n) i"
    unfolding c_def by (rule foldl_base256)
  also have "\<dots> = push_bit (8 * ?n) ?a OR take_bit (8 * ?n) i"
    by (rule disjunctive_add) (auto simp: bit_simps)
  also have "\<dots> = i"
  proof (rule bit_word_eqI)
    fix j
    assume j: "j < LENGTH(32)"
    have "bit i j = bit i 31" if "8 * ?n \<le> j" using int_contents_sign [of i j] that j by simp
    then show "bit (push_bit (8 * ?n) ?a OR take_bit (8 * ?n) i) j = bit i j"
      unfolding a using j by (cases "8 * ?n \<le> j") (auto simp: bit_simps)
  qed
  finally show ?thesis .
qed

end
