(* ===== verification/Asn1Trees.thy ===== *)
theory Asn1Trees
  imports Asn1RoundTrip
begin

section \<open>Round trips of ASN.1 objects\<close>

text \<open>
  The decoders of the primitive types on what the encoder wrote, trees of objects, the text of
  object identifiers, big integers, and the encodings that the decoder should not accept.
\<close>

subsection \<open>One object\<close>

fun contents_bytes :: "CASN1EncBase \<Rightarrow> bytes" where
  "contents_bytes (CASN1EncPrimitive t c p) = primitive_bytes p"
| "contents_bytes (CASN1EncConstructed t c es) = concat (map der es)"

fun object_header :: "CASN1EncBase \<Rightarrow> bytes" where
  "object_header (CASN1EncPrimitive t c p) = header t c (is_encoding p) (primitive_length p)"
| "object_header (CASN1EncConstructed t c es) = header t c True (sum_list (map LengthDER es))"

fun object_tag :: "CASN1EncBase \<Rightarrow> tuint" where
  "object_tag (CASN1EncPrimitive t c p) = t"
| "object_tag (CASN1EncConstructed t c es) = t"

fun object_class :: "CASN1EncBase \<Rightarrow> TASN1Class" where
  "object_class (CASN1EncPrimitive t c p) = c"
| "object_class (CASN1EncConstructed t c es) = c"

definition parsed :: "CASN1EncBase \<Rightarrow> bytes \<Rightarrow> TASN1DecGeneric" where
  "parsed e z = \<lparr>iEncoding = der e @ z, iStartOfContents = length (object_header e),
     iLength = of_nat (length (contents_bytes e)), iExplicitTag = object_tag e, iClass = object_class e\<rparr>"

lemma der_split: "der e = object_header e @ contents_bytes e"
  by (cases e) simp_all

lemma length_contents_bytes: "LengthDER e = length (object_header e) + length (contents_bytes e)"
  using arg_cong [OF der_split [of e], of length] by simp

lemma InitL_parsed:
  assumes "length (der e @ z) < 2 ^ 28"
  shows "InitL (der e @ z) = Ok (parsed e z)"
proof (cases e)
  case (CASN1EncPrimitive t c p)
  then show ?thesis
    using InitL_der [of "der e @ z" t c "is_encoding p" "primitive_length p" "primitive_bytes p" z] assms
    by (simp add: parsed_def)
next
  case (CASN1EncConstructed t c es)
  have "length (concat (map der es)) = sum_list (map LengthDER es)" by (simp add: length_concat comp_def)
  then show ?thesis
    using InitL_der [of "der e @ z" t c True "sum_list (map LengthDER es)" "concat (map der es)" z] assms CASN1EncConstructed
    by (simp add: parsed_def)
qed

lemma parsed_contents:
  assumes "length (der e @ z) < 2 ^ 28"
  shows "GetContentDER (parsed e z) = Ok (contents_bytes e)"
proof -
  have "unat (of_nat (length (contents_bytes e)) :: tuint) = length (contents_bytes e)"
    using assms length_contents_bytes [of e] by (intro tuint_of_nat_small) simp
  then show ?thesis by (simp add: GetContentDER_def parsed_def der_split)
qed

lemma parsed_length:
  assumes "length (der e @ z) < 2 ^ 28"
  shows "sint (DecLengthDER (parsed e z)) = int (LengthDER e)" and "Encoding (parsed e z) = Ok (der e)"
proof -
  have l: "DecLengthDER (parsed e z) = of_nat (LengthDER e)"
    by (simp add: DecLengthDER_def parsed_def length_contents_bytes)
  have small: "LengthDER e < 2 ^ 28" using assms by simp
  show s: "sint (DecLengthDER (parsed e z)) = int (LengthDER e)" unfolding l by (rule tuint_of_nat_small(2) [OF small])
  then have "\<not> DecLengthDER (parsed e z) <s 0" by (simp add: word_sless_alt)
  then show "Encoding (parsed e z) = Ok (der e)"
    using tuint_of_nat_small(1) [OF small] by (simp add: Encoding_def l) (simp add: parsed_def)
qed

subsection \<open>Sequences\<close>

fun parsed_all :: "CASN1EncBase list \<Rightarrow> TASN1DecGeneric list" where
  "parsed_all [] = []"
| "parsed_all (e # es) = parsed e (concat (map der es)) # parsed_all es"

lemma LengthDER_pos: "0 < LengthDER e"
  by (cases e) (simp_all add: total_length_def CalculateTagLengthDER_def)

lemma DecodeContentsL_der:
  "length (x @ concat (map der es)) < 2 ^ 28 \<Longrightarrow>
     DecodeContentsL (x @ concat (map der es)) (length x) = Ok (parsed_all es)"
proof (induction es arbitrary: x)
  case Nil
  then show ?case by (simp add: DecodeContentsL.simps)
next
  case (Cons e es)
  let ?z = "concat (map der es)"
  have small: "length (der e @ ?z) < 2 ^ 28" using Cons.prems by simp
  have "DecodeContentsL ((x @ der e) @ ?z) (length (x @ der e)) = Ok (parsed_all es)"
    by (rule Cons.IH) (use Cons.prems in simp)
  then show ?case
    using InitL_parsed [OF small] parsed_length(1) [OF small] LengthDER_pos [of e]
    by (subst DecodeContentsL.simps) (simp add: not_le)
qed

subsection \<open>Object identifiers\<close>

definition first_ids :: "byte \<Rightarrow> tuint list" where
  "first_ids f = (let SubID = ucast f :: tuint in
     if SubID \<ge> 80 then [2, SubID - 80] else if SubID \<ge> 40 then [1, SubID - 40] else [0, SubID])"

lemma read_sub_ids_eq:
  "\<forall>d \<in> set ds. unat d < 2 ^ 31 \<Longrightarrow> n + length ds \<le> KNumberOfIDs \<Longrightarrow> read_sub_ids n (concat (map base128 ds)) = Ok ds"
proof (induction ds arbitrary: n)
  case Nil
  then show ?case by (simp add: read_sub_ids.simps)
next
  case (Cons d ds)
  have "base128 d @ concat (map base128 ds) \<noteq> []" by (simp add: base128_def)
  then show ?case
    using Cons read_sub_id_base128 [of d "concat (map base128 ds)"]
    by (subst read_sub_ids.simps) simp
qed

lemma DecodeOidContentsL_eq:
  assumes "\<forall>d \<in> set ds. unat d < 2 ^ 31" and "length ds \<le> 13"
  shows "DecodeOidContentsL (f # concat (map base128 ds)) = Ok (first_ids f @ ds)"
  using read_sub_ids_eq [of ds 2] assms by (simp add: DecodeOidContentsL_def first_ids_def Let_def KNumberOfIDs_def)

fun oid_tail :: "tuint list \<Rightarrow> string" where
  "oid_tail [] = []"
| "oid_tail (d # ds) = CHR ''.'' # dec (unat d) @ oid_tail ds"

definition oid_text :: "tuint list \<Rightarrow> string" where
  "oid_text ds = tl (oid_tail ds)"

lemma AppendNum_dec: "unat d < 2 ^ 31 \<Longrightarrow> AppendNum d = dec (unat d)"
  using sint_small [of d] by (simp add: AppendNum_def word_sless_alt)

lemma dec_ten: "unat (d :: tuint) < 2 ^ 31 \<Longrightarrow> length (dec (unat d)) \<le> 10"
  using length_dec [of "unat d" 9] by simp

text \<open>Fifteen numbers of ten digits and fourteen dots are \<open>KMaxOIDLength\<close> characters.\<close>

lemma append_ids_eq:
  "\<forall>d \<in> set ds. unat d < 2 ^ 31 \<Longrightarrow> length s + 11 * length ds \<le> KMaxOIDLength \<Longrightarrow>
     append_ids (Ok s) ds = Ok (s @ oid_tail ds)"
proof (induction ds arbitrary: s)
  case (Cons d ds)
  have d: "length (dec (unat d)) \<le> 10" "AppendNum d = dec (unat d)"
    using Cons.prems(1) dec_ten AppendNum_dec by auto
  have "append_ids (Ok (s @ ''.'' @ dec (unat d))) ds = Ok ((s @ ''.'' @ dec (unat d)) @ oid_tail ds)"
    by (rule Cons.IH) (use Cons.prems d in auto)
  then show ?case using Cons.prems d by (simp add: append_oid_def)
qed simp

lemma first_ids_small: "d \<in> set (first_ids f) \<Longrightarrow> unat d < 2 ^ 31"
proof -
  assume d: "d \<in> set (first_ids f)"
  let ?s = "ucast f :: tuint"
  have "unat f < 2 ^ LENGTH(8)" by (rule unsigned_less)
  then have "unat ?s < 256" by (simp add: unsigned_ucast_eq take_bit_eq_mod)
  moreover have "d = 2 \<or> d = 1 \<or> d = 0 \<or> d = ?s - 80 \<and> 80 \<le> ?s \<or> d = ?s - 40 \<and> 40 \<le> ?s \<or> d = ?s"
    using d by (auto simp: first_ids_def Let_def split: if_splits)
  ultimately show "unat d < 2 ^ 31" by (auto simp: unat_sub)
qed

subsection \<open>Primitive types\<close>

definition unused_cleared :: "byte \<Rightarrow> bytes \<Rightarrow> bytes" where
  "unused_cleared padding octets =
     (if octets = [] then [] else butlast octets @ [last octets AND push_bit (unat padding) 255])"

fun primitive_decoded :: "asn1_primitive \<Rightarrow> TASN1DecGeneric \<Rightarrow> bool" where
  "primitive_decoded (CASN1EncBoolean b) g \<longleftrightarrow> DecodeBooleanL g = Ok b"
| "primitive_decoded CASN1EncNull g \<longleftrightarrow> DecodeNullL g = Ok ()"
| "primitive_decoded (CASN1EncInt i) g \<longleftrightarrow> DecodeDERShortL g = Ok i"
| "primitive_decoded (CASN1EncBigInt c) g \<longleftrightarrow> DecodeDERLongL g = Ok (NewBytesL c)"
| "primitive_decoded (CASN1EncOctetString c) g \<longleftrightarrow> DecodeOctetStringL g = Ok c"
| "primitive_decoded (CASN1EncBitString padding c) g \<longleftrightarrow> ExtractOctetStringL g = Ok (unused_cleared padding c)"
| "primitive_decoded (CASN1EncObjectIdentifier f ds) g \<longleftrightarrow> DecodeObjectIdentifierL g = Ok (oid_text (first_ids f @ ds))"
| "primitive_decoded (CASN1EncEncoding c) g \<longleftrightarrow> GetContentDER g = Ok c"

text \<open>What \<open>ConstructL\<close> or the decoder guarantees or needs; the decoder of \<open>NULL\<close> looks at the tag.\<close>

fun primitive_ok :: "tuint \<Rightarrow> asn1_primitive \<Rightarrow> bool" where
  "primitive_ok t CASN1EncNull \<longleftrightarrow> t = EASN1Null"
| "primitive_ok t (CASN1EncBitString padding c) \<longleftrightarrow> padding \<le> 7"
| "primitive_ok t (CASN1EncObjectIdentifier f ds) \<longleftrightarrow> length ds \<le> 13 \<and> (\<forall>d \<in> set ds. unat d < 2 ^ 31)"
| "primitive_ok t _ \<longleftrightarrow> True"

lemma oid_decoded:
  assumes "GetContentDER g = Ok (f # concat (map base128 ds))"
    and "length ds \<le> 13" and "\<forall>d \<in> set ds. unat d < 2 ^ 31"
  shows "DecodeObjectIdentifierL g = Ok (oid_text (first_ids f @ ds))"
proof -
  have "\<exists>i j. first_ids f = [i, j]" by (simp add: first_ids_def Let_def)
  then obtain i j where f: "first_ids f = [i, j]" by blast
  have small: "unat i < 2 ^ 31" "unat j < 2 ^ 31" using first_ids_small [of _ f] f by auto
  have "append_oid (Ok []) (AppendNum i) = Ok (dec (unat i))"
    using dec_ten [OF small(1)] AppendNum_dec [OF small(1)] by (simp add: append_oid_def KMaxOIDLength_def)
  moreover have "append_ids (Ok (dec (unat i))) (j # ds) = Ok (dec (unat i) @ oid_tail (j # ds))"
    by (rule append_ids_eq) (use assms(2,3) small dec_ten [OF small(1)] in \<open>auto simp: KMaxOIDLength_def\<close>)
  ultimately show ?thesis
    using DecodeOidContentsL_eq [OF assms(3,2), of f]
    by (simp add: DecodeObjectIdentifierL_def assms(1) f oid_text_def)
qed

lemma null_decoded:
  assumes "Encoding g = Ok (der (CASN1EncPrimitive EASN1Null c CASN1EncNull))"
  shows "DecodeNullL g = Ok ()"
proof -
  have t: "EASN1Null \<le> 30" "ucast EASN1Null = (5 :: byte)" by (simp_all add: EASN1Null_def)
  have "der (CASN1EncPrimitive EASN1Null c CASN1EncNull) = [push_bit 6 (class_bits c) OR 5, 0]"
    using t by (simp add: header_def tag_bytes_def length_bytes_def primitive_length_def is_encoding_def)
  moreover have "(push_bit 6 (class_bits c) OR 5) AND 5 \<noteq> (0 :: byte)" by (cases c) (simp_all add: class_bits_def)
  ultimately show ?thesis using assms by (simp add: DecodeNullL_def)
qed

lemma bit_string_decoded:
  assumes "GetContentDER g = Ok (if c = [] then [] else padding # c)" and "padding \<le> 7"
  shows "ExtractOctetStringL g = Ok (unused_cleared padding c)"
proof (cases c rule: rev_cases)
  case Nil
  then show ?thesis using assms(1) by (simp add: ExtractOctetStringL_def unused_cleared_def)
next
  case (snoc bs b)
  then show ?thesis
    using assms by (simp add: ExtractOctetStringL_def unused_cleared_def Let_def list_update_append)
qed

lemma int_decoded:
  assumes "GetContentDER g = Ok (base256 (CASN1EncInt_ContentsLength i) i)"
  shows "DecodeDERShortL g = Ok i"
proof -
  let ?c = "base256 (CASN1EncInt_ContentsLength i) i"
  have c: "length ?c \<noteq> 0" "\<not> 4 < length ?c" using int_contents_length [of i] by (simp_all only: length_base256)
  then have "?c \<noteq> []" by (metis list.size(3))
  with c(2) show ?thesis using int_contents_value [of i] by (simp add: DecodeDERShortL_def assms)
qed

lemma primitive_decoded_parsed:
  assumes "e = CASN1EncPrimitive t c p" and "primitive_ok t p" and "length (der e @ z) < 2 ^ 28"
  shows "primitive_decoded p (parsed e z)"
proof -
  have g: "GetContentDER (parsed e z) = Ok (primitive_bytes p)" using parsed_contents [OF assms(3)] assms(1) by simp
  show ?thesis
  proof (cases p)
    case CASN1EncNull
    then show ?thesis using parsed_length(2) [OF assms(3)] assms(1,2) null_decoded by simp
  next
    case (CASN1EncBitString padding bs)
    then show ?thesis using g assms(2) bit_string_decoded by simp
  next
    case (CASN1EncObjectIdentifier f ds)
    then show ?thesis using g assms(2) oid_decoded by simp
  next
    case (CASN1EncInt i)
    then show ?thesis using g int_decoded by simp
  qed (use g in \<open>simp_all add: DecodeBooleanL_def DecodeDERLongL_def DecodeOctetStringL_def\<close>)
qed

subsection \<open>Trees\<close>

text \<open>The object that was read is the one that was written, down to its primitive parts.\<close>

function (sequential) decoded :: "CASN1EncBase \<Rightarrow> TASN1DecGeneric \<Rightarrow> bool"
  and decoded_all :: "CASN1EncBase list \<Rightarrow> TASN1DecGeneric list \<Rightarrow> bool" where
  "decoded (CASN1EncPrimitive t c p) g \<longleftrightarrow> iExplicitTag g = t \<and> iClass g = c \<and> primitive_decoded p g"
| "decoded (CASN1EncConstructed t c es) g \<longleftrightarrow> iExplicitTag g = t \<and> iClass g = c \<and>
     (case DecodeSequence g of Inl e \<Rightarrow> False | Inr gs \<Rightarrow> decoded_all es gs)"
| "decoded_all [] [] \<longleftrightarrow> True"
| "decoded_all (e # es) (g # gs) \<longleftrightarrow> decoded e g \<and> decoded_all es gs"
| "decoded_all _ _ \<longleftrightarrow> False"
  by pat_completeness auto

termination
  by (relation "measure (\<lambda>x. case x of Inl (e, _) \<Rightarrow> size e | Inr (es, _) \<Rightarrow> size_list size es)") auto

fun encodable :: "CASN1EncBase \<Rightarrow> bool" where
  "encodable (CASN1EncPrimitive t c p) \<longleftrightarrow> primitive_ok t p"
| "encodable (CASN1EncConstructed t c es) \<longleftrightarrow> (\<forall>e \<in> set es. encodable e)"

lemma decoded_all_parsed:
  assumes "\<And>e z. e \<in> set es \<Longrightarrow> length (der e @ z) < 2 ^ 28 \<Longrightarrow> decoded e (parsed e z)"
    and "length (concat (map der es)) < 2 ^ 28"
  shows "decoded_all es (parsed_all es)"
  using assms by (induction es) auto

lemma decoded_parsed: "encodable e \<Longrightarrow> length (der e @ z) < 2 ^ 28 \<Longrightarrow> decoded e (parsed e z)"
proof (induction e arbitrary: z)
  case (CASN1EncPrimitive t c p)
  then show ?case using primitive_decoded_parsed [OF refl] by (simp add: parsed_def)
next
  case (CASN1EncConstructed t c es)
  let ?g = "parsed (CASN1EncConstructed t c es) z" let ?b = "concat (map der es)"
  have small: "length ?b < 2 ^ 28" using CASN1EncConstructed.prems(2) by (simp add: length_concat comp_def total_length_def)
  have "DecodeContentsL ([] @ ?b) (length ([] :: bytes)) = Ok (parsed_all es)"
    by (rule DecodeContentsL_der) (use small in simp)
  moreover have "GetContentDER ?g = Ok ?b" using parsed_contents [OF CASN1EncConstructed.prems(2)] by simp
  ultimately have "DecodeSequence ?g = Ok (parsed_all es)" by (simp add: DecodeSequence_def)
  moreover have "decoded_all es (parsed_all es)"
    by (rule decoded_all_parsed) (use CASN1EncConstructed small in auto)
  ultimately show ?case by (simp add: parsed_def)
qed

subsection \<open>The text of an object identifier\<close>

lemma read_digits_end: "r = [] \<or> hd r = CHR ''.'' \<Longrightarrow> read_digits v r = (v, r)"
  by (cases r) (auto simp: char_digit_def)

lemma lex_decimal_dec:
  assumes "n < 2 ^ 32" and "r = [] \<or> hd r = CHR ''.''"
  shows "lex_decimal (dec n @ r) = Ok (of_nat n, r)"
proof -
  obtain d ds where d: "dec n = digit_char d # ds" "d < 10" using dec_digits by blast
  have "read_digits 0 (dec n @ r) = (n, r)"
    using assms(2) by (simp add: read_digits_dec read_digits_end)
  then show ?thesis using assms(1) d by (simp add: lex_decimal_def char_digit_digit_char)
qed

lemma oid_tail_start: "oid_tail ds = [] \<or> hd (oid_tail ds) = CHR ''.''"
  by (cases ds) simp_all

lemma dec_nonempty: "dec n \<noteq> []"
  using dec_digits [of n] by auto

lemma unat_32: "unat (d :: tuint) < 2 ^ 32"
proof -
  have "unat d < 2 ^ LENGTH(32)" by (rule unsigned_less)
  then show ?thesis by simp
qed

lemma oid_terms_eq: "length (oid_tail ds) \<le> n \<Longrightarrow> oid_terms n (oid_tail ds) = Ok ds"
proof (induction ds arbitrary: n)
  case (Cons d ds)
  then obtain m where n: "n = Suc m" by (cases n) auto
  have "lex_decimal (dec (unat d) @ oid_tail ds) = Ok (d, oid_tail ds)"
    using lex_decimal_dec [OF unat_32 oid_tail_start, of d ds] by simp
  then show ?case using Cons n dec_nonempty [of "unat d"] by simp
qed simp

lemma object_identifier_text:
  assumes "a < 2 \<and> b < 40 \<or> a = 2 \<and> b \<le> 175"
  shows "\<exists>f. CASN1EncObjectIdentifier_ConstructL (oid_text (a # b # ds)) = Ok (CASN1EncObjectIdentifier f ds) \<and>
    first_ids f = [a, b]"
proof -
  let ?f = "ucast (40 * a) + ucast b :: byte"
  have tx: "oid_text (a # b # ds) = dec (unat a) @ CHR ''.'' # dec (unat b) @ oid_tail ds"
    by (simp add: oid_text_def)
  have 1: "lex_decimal (oid_text (a # b # ds)) = Ok (a, CHR ''.'' # dec (unat b) @ oid_tail ds)"
    unfolding tx using lex_decimal_dec [OF unat_32, of "CHR ''.'' # dec (unat b) @ oid_tail ds" a] by simp
  have 2: "lex_decimal (dec (unat b) @ oid_tail ds) = Ok (b, oid_tail ds)"
    using lex_decimal_dec [OF unat_32 oid_tail_start, of b ds] by simp
  have "\<not> a > 2" using assms by (auto simp: word_less_nat_alt)
  then have c: "CASN1EncObjectIdentifier_ConstructL (oid_text (a # b # ds)) = Ok (CASN1EncObjectIdentifier ?f ds)"
    using 1 2 assms oid_terms_eq [of ds] dec_nonempty
    by (simp add: CASN1EncObjectIdentifier_ConstructL_def tx)
  have "unat a \<le> 2" "unat b \<le> 175" using assms by (auto simp: word_less_nat_alt word_le_nat_alt)
  then have f: "unat ?f = 40 * unat a + unat b"
    by (simp add: unat_word_ariths unsigned_ucast_eq take_bit_eq_mod)
  have u: "unat (ucast ?f :: tuint) = 40 * unat a + unat b"
    using f \<open>unat a \<le> 2\<close> \<open>unat b \<le> 175\<close> by (simp add: unsigned_ucast_eq take_bit_eq_mod del: ucast_eq)
  have "unat a = 0 \<or> unat a = 1 \<or> unat a = 2" using \<open>unat a \<le> 2\<close> by auto
  then have "first_ids ?f = [a, b]"
    using assms u
    by (auto simp: first_ids_def Let_def word_le_nat_alt word_less_nat_alt word_unat_eq_iff unat_sub)
  then show ?thesis using c by blast
qed

subsection \<open>Big integers\<close>

lemma skip_zeros_id: "bs \<noteq> [] \<Longrightarrow> hd bs \<noteq> 0 \<Longrightarrow> skip_zeros bs = bs"
  by (cases bs rule: skip_zeros.cases) auto

lemma big_integer_contents:
  assumes "\<not> IsNegative x" and "ByteCount x < 2 ^ 28"
  shows "\<exists>c. CASN1EncBigInt_ConstructL x = Ok (CASN1EncBigInt c) \<and> ival (NewBytesL c) = ival x \<and>
    (c \<noteq> [] \<longrightarrow> \<not> bit (hd c) 7)"
proof -
  obtain bs where bs: "BufferLC x = Ok bs" "bval (rev bs) = mag x" "length bs = ByteCount x"
    using BufferLC_val [OF assms(1)] by blast
  let ?c = "if bs \<noteq> [] \<and> bit (bs ! 0) 7 then 0 # bs else bs"
  have skip: "skip_zeros bs = bs" using skip_zeros_id BufferLC_leading [OF assms(1) bs(1)] by (cases "bs = []") auto
  have "length bs < 2 ^ 28" using bs(3) assms(2) by simp
  then have "length ?c \<le> 4294967296" by simp
  then have "ival (NewBytesL ?c) = bval (rev ?c)" by (rule NewBytesL_val(2))
  also have "\<dots> = ival x" using bs(2) assms(1) by (simp add: bval_append ival_def)
  finally have "ival (NewBytesL ?c) = ival x" .
  moreover have "CASN1EncBigInt_ConstructL x = Ok (CASN1EncBigInt ?c)"
    by (simp add: CASN1EncBigInt_ConstructL_def bs(1) skip)
  moreover have "?c \<noteq> [] \<longrightarrow> \<not> bit (hd ?c) 7" by (cases bs) auto
  ultimately show ?thesis by blast
qed

text \<open>Zero has no contents, which \<open>DecodeDERShortL\<close> refuses.\<close>

lemma zero_encoded_empty:
  "CASN1EncBigInt_ConstructL \<lparr>Reg = [0, 0], Sign = EPositive\<rparr> = Ok (CASN1EncBigInt [])"
  "GetContentDER g = Ok [] \<Longrightarrow> DecodeDERShortL g = Leave KErrArgument"
  by code_simp (simp add: DecodeDERShortL_def)

subsection \<open>Encodings that should be refused\<close>

text \<open>The sum of length and position wraps; and the upper part of a long length is lost.\<close>

lemma read_length_numeral:
  "read_length bs (numeral k) Length Pos =
     (if length bs \<le> Pos + 1 then Leave KErrArgument
      else read_length bs (pred_numeral k) (push_bit 8 Length + ucast (bs ! Pos)) (Pos + 1))"
  by (simp add: numeral_eq_Suc)

lemma InitL_length_overflow:
  "bindL (InitL [0x30, 0x84, 0x7F, 0xFF, 0xFF, 0xFF, 0]) GetContentDER = Leave (Panic 22)"
  by (simp add: InitL_def GetContentDER_def KASN1ObjectMinLength_def read_length_numeral word_sless_alt)

lemma InitL_length_truncated:
  "bindL (InitL [4, 0x85, 1, 0, 0, 0, 1, 0x41]) GetContentDER = Ok [0x41]"
  by (simp add: InitL_def GetContentDER_def KASN1ObjectMinLength_def read_length_numeral word_sless_alt)

lemma oid_overflow_undetected:
  "DecodeOidContentsL [0x2A, 0xB7, 0xFF, 0xFF, 0xFF, 0x7F] = Ok [1, 2, 0x7FFFFFFF]"
  by (simp add: DecodeOidContentsL_def read_sub_ids.simps oid_overflow_def word_sle_eq KNumberOfIDs_def)

subsection \<open>The round trip\<close>

text \<open>
  C40: What the encoder writes, the decoder reads back: for every tree of objects, with any tags and
  classes, the encoder fills exactly its place in the buffer, and the decoder started there finds
  an object of the same length, class and tag whose primitive types decode to the values that
  were encoded (all 32 bit integers, object identifiers as text, bit strings with the unused bits
  cleared) and whose sequences and sets decode to the same trees.
\<close>

theorem der_roundtrip:
  assumes "encodable e" and "pos + LengthDER e \<le> length aBuf" and "length aBuf < 2 ^ 28"
  shows "\<exists>aBuf' g. WriteDERL e aBuf pos = Ok (aBuf', pos + LengthDER e) \<and>
    length aBuf' = length aBuf \<and> take pos aBuf' = take pos aBuf \<and>
    drop (pos + LengthDER e) aBuf' = drop (pos + LengthDER e) aBuf \<and>
    InitL (drop pos aBuf') = Ok g \<and> sint (DecLengthDER g) = int (LengthDER e) \<and> decoded e g"
proof -
  let ?z = "drop (pos + LengthDER e) aBuf" let ?b = "take pos aBuf @ der e @ ?z"
  have small: "length (der e @ ?z) < 2 ^ 28" using assms(2,3) by simp
  have "drop pos ?b = der e @ ?z" using assms(2) by simp
  then have "InitL (drop pos ?b) = Ok (parsed e ?z)" using InitL_parsed [OF small] by simp
  moreover have "decoded e (parsed e ?z)" by (rule decoded_parsed [OF assms(1) small])
  ultimately show ?thesis
    using WriteDERL_der [OF assms(2)] parsed_length(1) [OF small] assms(2)
    by (intro exI [of _ ?b] exI [of _ "parsed e ?z"]) simp
qed

definition demo_object :: CASN1EncBase where
  "demo_object = AddChildL (CASN1EncExplicitTag (CASN1EncPrimitive EASN1Null EUniversal CASN1EncNull) 300 EContextSpecific)
     (AddChildL (CASN1EncPrimitive EASN1ObjectIdentifier EUniversal (CASN1EncObjectIdentifier 0x2A [840, 113549]))
     (AddChildL (CASN1EncPrimitive EASN1Integer EUniversal (CASN1EncInt (- 129))) CASN1EncSequence))"

theorem der_roundtrip_witness:
  "LengthDER demo_object = 20 \<and>
   (\<exists>aBuf' g. WriteDERL demo_object (replicate 21 7) 1 = Ok (aBuf', 21) \<and> InitL (drop 1 aBuf') = Ok g \<and> decoded demo_object g)"
proof -
  have l: "LengthDER demo_object = 20" by code_simp
  have "encodable demo_object"
    by (simp add: demo_object_def AddChildL_def CASN1EncExplicitTag_def CASN1EncSequence_def)
  from der_roundtrip [OF this, of 1 "replicate 21 7"] l show ?thesis by auto
qed

end
