(* ===== verification/Spec2Isabelle.thy ===== *)
theory Spec2Isabelle
  imports Karatsuba Montgomery Division IntegerLaws PbeCipher Digests UpsClient UpsServerProperties Asn1Trees
begin

text \<open>
  A verification development for the security package of Symbian OS: its cryptography, its user
  prompt service and its ASN.1 library.  Paths are below \<open>src/\<close>.

  \<^bold>\<open>How the code is represented.\<close>  A class is a record or a datatype of its members; a member function
  takes the object and returns the new one.  \<open>TUint\<close>, \<open>TUint8\<close> and the double word are words of their width
  (\<open>tuint\<close>, \<open>byte\<close>, \<open>dword\<close>), so arithmetic wraps as in the code; a \<open>TInt\<close> is a word read by \<open>sint\<close>
  where wrapping matters, otherwise an integer or a natural number.  A function that can leave or
  panic returns the type \<open>result\<close> of the theory Prelude, with the error code or the panic in it.
  Arrays and buffers are lists, and a pointer into one is an offset.  A loop without an evident
  bound is a partial function: \<open>None\<close> is not returning, and the lemmas show that it returns.

  \<^bold>\<open>Big integers\<close> (\<open>crypto/weakcryptospi/source/bigint\<close>).
  \<^item> WordArith, Multiply, Karatsuba, Division, Montgomery: \<open>algorithms.cpp\<close> on arrays of words.
    \<open>val\<close> is the number that an array stands for, and each routine is related to the operation on
    numbers, with its carries and borrows.  Division estimates quotients two words at a time; the lemmas bound the
    estimate, so that the correction loops end.
  \<^item> BigInt, IntegerLaws: \<open>bigint.cpp\<close> and \<open>rinteger.cpp\<close>, integers as sign and words.  \<open>wf\<close> is their
    representation invariant, \<open>ival\<close> their value; the operations are those of the integers, apart from the
    places that IntegerLaws and BigInt name (machine integers taken as unsigned, negative dividends).

  \<^bold>\<open>Ciphers\<close> (\<open>crypto/weakcrypto/source/symmetric\<close>, \<open>crypto/weakcryptospi/source/padding\<close>, \<open>crypto/weakcrypto/source/pbe\<close>).
  \<^item> Inlines, Descriptors: byte order, rotations, and the modifiable descriptors that all callers share.
  \<^item> Padding, PaddingLaws: the padding systems; UnPadL after PadL, and what UnPadL accepts.
  \<^item> Modes, Buffered: CBC chaining and buffering of partial blocks over any block transformation.  The
    locales \<open>transformation_pair\<close>, \<open>block_cipher\<close>, \<open>block_padding\<close> and \<open>buffered_pair\<close> are their
    contracts; the round trip over any division of the input into pieces is proved in them once.
  \<^item> Rc2, Des, RijndaelTables, Rijndael, RijndaelLaws, Arc4: the ciphers with tables and key schedules.
    Each is an interpretation of the contract, for every key.
  \<^item> PbeCipher: the factory from cipher identifiers to objects, where the parts meet.

  \<^bold>\<open>Digests\<close> (\<open>crypto/weakcrypto/source/hash\<close>).
  \<^item> Digest, MessageDigest: buffers, and the interface of CMessageDigest.  The locales \<open>message_digest\<close>
    and \<open>restorable_digest\<close> say what a class promises: after any calls the object stands for
    the bytes given so far, and the final call returns their digest.
  \<^item> WordDigest, Rounds, MdDigests, Sha1, Sha2Buffer, Sha2Blocks, Sha2, Md2: the classes.  The unrolled
    rounds with rotating names of registers are shown to be the loops of the standards.
  \<^item> Hmac: CHMAC over any digest, with its descriptors into the buffer of the digest.
  \<^item> Digests: the factory.  Its objects refine, call by call, an abstract object that keeps the message.
    The bound is the length counter of the class (\<open>2 ^ 29\<close> bytes for MD4, MD5 and SHA-1).

  \<^bold>\<open>User prompt service\<close> (\<open>authorisation/userpromptservice\<close>).
  A client asks for a decision on a request for a service.  The client library answers alone where
  the configuration allows it; otherwise the server looks up a policy, searches the decision database
  and asks the user when there is no stored decision, one dialog at a time.
  \<^item> UpsPolicy, UpsPolicyCache: policies, policy files, and the lazily filled cache of policy lists
    (\<open>policies/source\<close>).  The invariant \<open>cache_ok\<close> ties the cache to the file system, so that an answer
    from the cache is the answer of the files.
  \<^item> UpsFilter, UpsSql, UpsDatabase: decision records and filters with their streams, the SQL statement
    built from a filter, and the table of decisions with its unique keys (\<open>database/source\<close>, \<open>upsclientserver.cpp\<close>).
    A reader of the statement is the specification of its meaning.
  \<^item> UpsClient: the decision of the client library whether to ask the server.
  \<^item> UpsServer: the requests in progress as a state machine, the gate keeper with its two queues of
    waiting requests and the disputed records (\<open>server/source/upsserver\<close>), over the cache and the
    database.  \<open>server_reachable\<close> is closed under messages of clients, completions of
    plugins and the active scheduler running any request that is ready, in any order.
  \<^item> UpsServerLaws, UpsServerDecisions, UpsServerAnswers: Hoare triples for the member functions and three invariants:
    of the queues and the dialog, of the disputed records, and of the answers.
  \<^item> UpsServerProperties: what follows for every reachable state.  With \<open>N\<close> requests
    outstanding a round of woken requests ends after at most \<open>N * (N + 2)\<close> runs; \<open>rank\<close> is the measure.

  \<^bold>\<open>ASN.1\<close> (\<open>cryptoservices/certificateandkeymgmt/asn1\<close>).
  \<^item> Numerals: decimal digits of numbers, also used by UpsSql.
  \<^item> Asn1Enc, Asn1Dec: objects as trees of primitive and constructed ones, the lengths they
    work out and the bytes they write, and the decoders.  Big integers are those of BigInt.  Descriptors have
    fewer than \<open>2 ^ 28\<close> bytes as on the platform.  Reading the text of an object identifier takes the length of the
    text as fuel, which is enough because every term takes a character.
  \<^item> Asn1Laws, Asn1RoundTrip, Asn1Trees: \<open>der\<close> is the encoding as a byte string, the encoder writes it and
    the decoder reads it, composed over whole trees; and encodings that the decoder accepts but should refuse.

  \<^bold>\<open>Parameters.\<close>  Code of the platform that is not in the repository is an argument of the definitions:
  wildcard matching, resource files, the file server, the layout of descriptors in streams, plugins, errors
  of the database library, random bytes.  Where a property relies on such code, its law is a premise
  (\<open>reads_back\<close> for streams; that a random source is not zero for ever).

  \<^bold>\<open>Not modelled.\<close>  Certificates, chains and PKIX validation; character strings and times of ASN.1,
  whose values belong to the system library; modular exponentiation and the asymmetric algorithms above it, and
  random numbers; the content access framework and the stores of certificates and keys, which
  dispatch to plugins and files; the random server; the plugin framework of the cryptography interface;
  in the user prompt service the plugin manager, the views of the database, the shutdown timer
  and the installation watcher; out of memory, except where it is an error of the environment of
  the server.  Time and memory are not measured, and that a cipher or a digest is hard to attack is not a
  statement about this code.
\<close>

end
